(* ===== verification/HttpRange.thy ===== *)
theory HttpRange
  imports Prelude
begin

text \<open>
  internal/http_range/range.go: the \<open>Range\<close> header of a request. \<open>Parse\<close> returns \<open>None\<close> where the
  code panics (a range without a hyphen makes \<open>r[1]\<close> fail), \<open>Inl\<close> for its two errors and
  the list of byte ranges otherwise. \<open>ParseInt\<close> is \<open>strconv.ParseInt(s, 10, 64)\<close>, \<open>None\<close> its error.
\<close>

record Range =
  Start :: int
  End :: int

datatype range_error = ErrNoOverlap | ErrInvalid

section \<open>Decimal numbers\<close>

definition is_digit :: "char \<Rightarrow> bool" where
  "is_digit c \<longleftrightarrow> 48 \<le> (of_char c :: nat) \<and> (of_char c :: nat) \<le> 57"

definition digit_val :: "char \<Rightarrow> nat" where
  "digit_val c = of_char c - 48"

definition digits_val :: "string \<Rightarrow> nat" where
  "digits_val s = foldl (\<lambda>n c. n * 10 + digit_val c) 0 s"

definition ParseInt :: "string \<Rightarrow> int option" where
  "ParseInt s =
     (let (neg, ds) = (case s of [] \<Rightarrow> (False, [])
            | c # cs \<Rightarrow> if c = CHR ''-'' then (True, cs) else if c = CHR ''+'' then (False, cs)
                       else (False, s))
      in if ds = [] \<or> \<not> list_all is_digit ds then None
         else let v = (if neg then - int (digits_val ds) else int (digits_val ds))
              in if v < min_int64 \<or> v > max_int64 then None else Some v)"

section \<open>Parsing a header\<close>

definition parse_one :: "int \<Rightarrow> string \<Rightarrow> Range option option" where
  "parse_one sz value =
     (let r = Split value CHR ''-'' in
      if length r < 2 then None
      else Some (
        let st = ParseInt (r ! 0); en = ParseInt (r ! 1) in
        if st = None \<and> en = None then None
        else
          let (start, fin) =
                (if st = None then (i64 (sz - the en), i64 (sz - 1))
                 else if en = None then (the st, i64 (sz - 1))
                 else (the st, the en));
              fin = (if fin \<ge> sz then i64 (sz - 1) else fin)
          in if start > fin \<or> start < 0 then None
             else Some \<lparr> Start = start, End = fin \<rparr>))"

text \<open>The loop over the ranges of the header; \<open>None\<close> is the panic.\<close>

fun parse_all :: "int \<Rightarrow> string list \<Rightarrow> Range list option" where
  "parse_all sz [] = Some []"
| "parse_all sz (v # vs) =
     (case parse_one sz v of None \<Rightarrow> None
      | Some None \<Rightarrow> parse_all sz vs
      | Some (Some r) \<Rightarrow> map_option (\<lambda>rs. r # rs) (parse_all sz vs))"

definition Parse :: "string \<Rightarrow> int \<Rightarrow> (range_error + Range list) option" where
  "Parse header sz =
     (case Index header CHR ''='' of
        None \<Rightarrow> Some (Inl ErrInvalid)
      | Some i \<Rightarrow> map_option (\<lambda>ranges. if ranges = [] then Inl ErrNoOverlap else Inr ranges)
                    (parse_all sz (Split (drop (Suc i) header) CHR '','')))"

section \<open>Numbers written and read back\<close>

lemma of_digit_char: "d < 10 \<Longrightarrow> (of_char (digit_char d) :: nat) = 48 + d"
  by (simp add: digit_char_def)

lemma is_digit_digit_char: "d < 10 \<Longrightarrow> is_digit (digit_char d)"
  by (simp add: is_digit_def of_digit_char)

lemma digits_val_snoc: "digits_val (s @ [c]) = digits_val s * 10 + digit_val c"
  by (simp add: digits_val_def)

lemma show_nat_digits: "show_nat n \<noteq> [] \<and> list_all is_digit (show_nat n) \<and> digits_val (show_nat n) = n"
proof (induction n rule: show_nat.induct)
  case (1 n)
  show ?case
  proof (cases "n < 10")
    case True
    then show ?thesis
      by (subst (1 2 3) show_nat.simps)
         (simp add: is_digit_digit_char digits_val_def digit_val_def of_digit_char)
  next
    case False
    note IH = 1 [OF False]
    have "show_nat n = show_nat (n div 10) @ [digit_char (n mod 10)]"
      using False by (subst show_nat.simps) simp
    then show ?thesis
      using IH by (simp add: is_digit_digit_char digits_val_snoc digit_val_def of_digit_char)
  qed
qed

lemma digit_not: "is_digit c \<Longrightarrow> c \<noteq> CHR ''-'' \<and> c \<noteq> CHR ''+'' \<and> c \<noteq> CHR '','' \<and> c \<noteq> CHR ''=''"
  by (auto simp: is_digit_def)

lemma show_nat_no_sep:
  "CHR ''-'' \<notin> set (show_nat n)" "CHR '','' \<notin> set (show_nat n)"
  using show_nat_digits [of n] digit_not by (auto simp: list_all_iff)

lemma ParseInt_show_nat: "int n \<le> max_int64 \<Longrightarrow> ParseInt (show_nat n) = Some (int n)"
proof -
  assume n: "int n \<le> max_int64"
  obtain c cs where c: "show_nat n = c # cs" using show_nat_digits [of n] by (cases "show_nat n") auto
  then have "is_digit c" using show_nat_digits [of n] by simp
  with digit_not have "c \<noteq> CHR ''-''" "c \<noteq> CHR ''+''" by auto
  then show ?thesis
    using show_nat_digits [of n] n unfolding c
    by (simp add: ParseInt_def min_int64_def)
qed

lemma ParseInt_Nil [simp]: "ParseInt [] = None"
  by (simp add: ParseInt_def)

section \<open>Properties\<close>

lemma parse_one_sound:
  assumes "parse_one sz v = Some (Some r)" "0 \<le> sz" "sz \<le> max_int64"
  shows "0 \<le> Start r \<and> Start r \<le> End r \<and> End r < sz"
  using assms
  by (auto simp: parse_one_def Let_def max_int64_def split: if_splits prod.splits)

lemma parse_all_sound:
  assumes "0 \<le> sz" "sz \<le> max_int64"
  shows "parse_all sz vs = Some rs \<Longrightarrow> r \<in> set rs \<Longrightarrow> 0 \<le> Start r \<and> Start r \<le> End r \<and> End r < sz"
proof (induction vs arbitrary: rs)
  case Nil
  then show ?case by simp
next
  case (Cons v vs)
  then show ?case
    using parse_one_sound [of sz v, OF _ assms] by (auto split: option.splits)
qed

text \<open>
  Every range \<open>Parse\<close> returns lies inside the file: \<open>0 \<le> Start \<le> End < size\<close>, and at least one
  is returned. So the handlers that index with \<open>ranges[0]\<close> and stream \<open>Start..End\<close> stay in bounds.
\<close>

theorem Parse_sound:
  assumes "Parse header sz = Some (Inr ranges)" "0 \<le> sz" "sz \<le> max_int64"
  shows "ranges \<noteq> [] \<and> (\<forall>r \<in> set ranges. 0 \<le> Start r \<and> Start r \<le> End r \<and> End r < sz)"
  using assms parse_all_sound [OF assms(2,3)]
  by (auto simp: Parse_def split: option.splits if_splits)

lemma Parse_single:
  assumes "CHR ''='' \<notin> set u" "CHR '','' \<notin> set v"
  shows "Parse (u @ CHR ''='' # v) sz
     = map_option (\<lambda>x. case x of None \<Rightarrow> Inl ErrNoOverlap | Some r \<Rightarrow> Inr [r]) (parse_one sz v)"
  using assms
  by (auto simp: Parse_def Index_append Split_no_sep split: option.splits)

lemma Split_hyphen:
  "CHR ''-'' \<notin> set a \<Longrightarrow> CHR ''-'' \<notin> set b \<Longrightarrow> Split (a @ CHR ''-'' # b) CHR ''-'' = [a, b]"
  by (simp add: Split_sep Split_no_sep)

text \<open>
  The three forms of a range with sizes as the client writes them in decimal: \<open>a-b\<close> is cut at
  the end of the file, \<open>a-\<close> runs to its end, \<open>-n\<close> is the last \<open>n\<close> bytes.
\<close>

theorem Parse_forms:
  assumes "CHR ''='' \<notin> set u" and "0 < sz" "sz \<le> max_int64" "int a < sz" "a \<le> b" "int b \<le> max_int64"
    and "0 < n" "int n \<le> sz"
  shows "Parse (u @ CHR ''='' # show_nat a @ CHR ''-'' # show_nat b) sz
       = Some (Inr [\<lparr> Start = int a, End = min (int b) (sz - 1) \<rparr>])
     \<and> Parse (u @ CHR ''='' # show_nat a @ CHR ''-'' # []) sz
       = Some (Inr [\<lparr> Start = int a, End = sz - 1 \<rparr>])
     \<and> Parse (u @ CHR ''='' # [] @ CHR ''-'' # show_nat n) sz
       = Some (Inr [\<lparr> Start = sz - int n, End = sz - 1 \<rparr>])"
proof -
  have p: "ParseInt (show_nat a) = Some (int a)" "ParseInt (show_nat b) = Some (int b)"
    "ParseInt (show_nat n) = Some (int n)"
    using assms by (auto intro!: ParseInt_show_nat)
  have i: "i64 (sz - 1) = sz - 1" "i64 (sz - int n) = sz - int n"
    using assms by (simp_all add: max_int64_def)
  have c: "CHR '','' \<notin> set (show_nat x @ CHR ''-'' # show_nat y)"
    "CHR '','' \<notin> set (show_nat x @ CHR ''-'' # [])" "CHR '','' \<notin> set (CHR ''-'' # show_nat y)" for x y
    using show_nat_no_sep by auto
  have s: "Split (show_nat x @ CHR ''-'' # show_nat y) CHR ''-'' = [show_nat x, show_nat y]"
    "Split (show_nat x @ CHR ''-'' # []) CHR ''-'' = [show_nat x, []]"
    "Split (CHR ''-'' # show_nat y) CHR ''-'' = [[], show_nat y]"
    "Split (show_nat x) CHR ''-'' = [show_nat x]" for x y
    using show_nat_no_sep by (auto simp: Split_sep Split_no_sep)
  have "parse_one sz (show_nat a @ CHR ''-'' # show_nat b)
      = Some (Some \<lparr> Start = int a, End = min (int b) (sz - 1) \<rparr>)"
    using assms by (auto simp: parse_one_def s p i Let_def min_def)
  moreover have "parse_one sz (show_nat a @ CHR ''-'' # []) = Some (Some \<lparr> Start = int a, End = sz - 1 \<rparr>)"
    using assms by (simp add: parse_one_def s p i Let_def)
  moreover have "parse_one sz (CHR ''-'' # show_nat n) = Some (Some \<lparr> Start = sz - int n, End = sz - 1 \<rparr>)"
    using assms by (simp add: parse_one_def s p i Let_def)
  ultimately show ?thesis
    using Parse_single [OF assms(1) c(1), of a b sz] Parse_single [OF assms(1) c(2), of a sz]
      Parse_single [OF assms(1) c(3), of n sz] by simp
qed

text \<open>
  A range without a hyphen is not an error to the code: it makes \<open>Parse\<close> panic, whatever the
  unit and the file, as long as no range before it panics.
\<close>

theorem Parse_panics:
  assumes "CHR ''='' \<notin> set u" and "CHR ''-'' \<notin> set v" "CHR '','' \<notin> set v"
  shows "Parse (u @ CHR ''='' # v) sz = None"
  using assms by (simp add: Parse_single parse_one_def Split_no_sep)

section \<open>Witnesses\<close>

lemma Parse_sound_witness:
  "Parse ''bytes=2-900,-3'' 10 = Some (Inr [\<lparr> Start = 2, End = 9 \<rparr>, \<lparr> Start = 7, End = 9 \<rparr>])
   \<and> list_all (\<lambda>r. 0 \<le> Start r \<and> Start r \<le> End r \<and> End r < 10) [\<lparr> Start = 2, End = 9 \<rparr>, \<lparr> Start = 7, End = 9 \<rparr>]"
proof -
  have "Parse ''bytes=2-900,-3'' 10 = Some (Inr [\<lparr> Start = 2, End = 9 \<rparr>, \<lparr> Start = 7, End = 9 \<rparr>])"
    by (simp add: Parse_def parse_one_def ParseInt_def is_digit_def digits_val_def digit_val_def
        min_int64_def max_int64_def Let_def)
  with Parse_sound [OF this] show ?thesis by (simp add: max_int64_def)
qed

lemma Parse_forms_witness:
  "Parse (''bytes'' @ CHR ''='' # show_nat 2 @ CHR ''-'' # show_nat 900) 10
     = Some (Inr [\<lparr> Start = 2, End = 9 \<rparr>])"
  using Parse_forms [of "''bytes''" 10 2 900 3] by (simp add: max_int64_def)

lemma Parse_panics_witness: "Parse ''bytes=5'' 10 = None"
  using Parse_panics [of "''bytes''" "''5''" 10] by simp

end
