(* ===== verification/Retry.thy ===== *)
theory Retry
  imports Prelude
begin

text \<open>
  internal/database/retry.go and errors.go (\<open>RetryTransientLock\<close> and the classification of errors) and
  internal/retry (the middleware that repeats a Telegram call). A Go error is a chain of values; each
  value has an identity, which is what \<open>errors.Is\<close> compares. PostgreSQL errors carry a code.
\<close>

section \<open>Errors\<close>

datatype go_err =
    Sentinel nat string
  | PgError nat string string
  | RpcError nat string
  | WrapErr nat string go_err

fun err_addr :: "go_err \<Rightarrow> nat" where
  "err_addr (Sentinel a _) = a"
| "err_addr (PgError a _ _) = a"
| "err_addr (RpcError a _) = a"
| "err_addr (WrapErr a _ _) = a"

fun err_text :: "go_err \<Rightarrow> string" where
  "err_text (Sentinel _ m) = m"
| "err_text (PgError _ c m) = m @ '' (SQLSTATE '' @ c @ '')''"
| "err_text (RpcError _ t) = t"
| "err_text (WrapErr _ m e) = m @ '': '' @ err_text e"

text \<open>\<open>errors.Is(err, target)\<close> and \<open>errors.As(err, &pgErr)\<close>.\<close>

fun errors_Is :: "go_err \<Rightarrow> nat \<Rightarrow> bool" where
  "errors_Is (WrapErr a m e) t = (a = t \<or> errors_Is e t)"
| "errors_Is e t = (err_addr e = t)"

fun errors_AsPg :: "go_err \<Rightarrow> string option" where
  "errors_AsPg (PgError _ c _) = Some c"
| "errors_AsPg (WrapErr _ _ e) = errors_AsPg e"
| "errors_AsPg _ = None"

text \<open>The sentinels of the packages, by identity.\<close>

abbreviation "gormErrRecordNotFound \<equiv> Sentinel 0 ''record not found''"
abbreviation "ErrNotFound \<equiv> Sentinel 1 ''record not found''"
abbreviation "ErrKeyConflict \<equiv> Sentinel 2 ''key conflict''"
abbreviation "CtxErr \<equiv> Sentinel 3 ''context canceled''"

definition IsRecordNotFoundErr :: "go_err \<Rightarrow> bool" where
  "IsRecordNotFoundErr err \<longleftrightarrow> err_addr err = 0 \<or> err_addr err = 1"

definition IsKeyConflictErr :: "go_err \<Rightarrow> bool" where
  "IsKeyConflictErr err \<longleftrightarrow> err_addr err = 2 \<or> (case err of PgError _ c _ \<Rightarrow> c = ''23505'' | _ \<Rightarrow> False)"

definition IsTransientLockErr :: "go_err option \<Rightarrow> bool" where
  "IsTransientLockErr err =
     (case err of None \<Rightarrow> False
      | Some e \<Rightarrow> errors_AsPg e = Some ''58000'' \<or> Contains (err_text e) ''grn_io_lock'')"

section \<open>RetryTransientLock\<close>

definition DefaultLockRetryAttempts :: int where
  "DefaultLockRetryAttempts = 5"

text \<open>
  \<open>fn\<close> acts on a state; \<open>cancelled k\<close> is whether the context ends during the wait after attempt \<open>k\<close>. The
  result is the error, the state and the waits made, in milliseconds.
\<close>

function retry_loop ::
    "(nat \<Rightarrow> bool) \<Rightarrow> int \<Rightarrow> ('s \<Rightarrow> go_err option \<times> 's) \<Rightarrow> nat \<Rightarrow> nat \<Rightarrow> 's \<Rightarrow> go_err option \<times> 's \<times> nat list"
  where
  "retry_loop cancelled maxAttempts fn attempt backoff s =
     (case fn s of (err, s) \<Rightarrow>
        if err = None \<or> \<not> IsTransientLockErr err \<or> int attempt \<ge> maxAttempts then (err, s, [])
        else if cancelled attempt then (Some CtxErr, s, [])
        else (case retry_loop cancelled maxAttempts fn (attempt + 1) (backoff * 2) s of
                (e, s, ws) \<Rightarrow> (e, s, backoff # ws)))"
  by pat_completeness auto
termination by (relation "measure (\<lambda>(_, m, _, a, _, _). nat (m - int a))") auto

declare retry_loop.simps [simp del]

definition RetryTransientLock ::
    "(nat \<Rightarrow> bool) \<Rightarrow> int \<Rightarrow> ('s \<Rightarrow> go_err option \<times> 's) \<Rightarrow> 's \<Rightarrow> go_err option \<times> 's \<times> nat list" where
  "RetryTransientLock cancelled maxAttempts fn s = retry_loop cancelled maxAttempts fn 1 100 s"

text \<open>\<open>attempts fn n s\<close>: the outcomes of calling \<open>fn\<close> \<open>n\<close> times, and the last state.\<close>

fun attempts :: "('s \<Rightarrow> go_err option \<times> 's) \<Rightarrow> nat \<Rightarrow> 's \<Rightarrow> go_err option list \<times> 's" where
  "attempts fn 0 s = ([], s)"
| "attempts fn (Suc n) s = (case fn s of (e, s) \<Rightarrow> (case attempts fn n s of (es, s) \<Rightarrow> (e # es, s)))"

lemma retry_loop_attempts:
  assumes "retry_loop cancelled m fn a b s = (err, s', ws)" "\<forall>k. \<not> cancelled k"
  shows "\<exists>n es. attempts fn (Suc n) s = (es @ [err], s') \<and> length es = n
    \<and> list_all IsTransientLockErr es \<and> ws = map (\<lambda>k. b * 2 ^ k) [0..<n]
    \<and> (n = 0 \<or> int (a + n) \<le> m) \<and> (\<not> IsTransientLockErr err \<or> m \<le> int (a + n))"
  using assms(1)
proof (induction "nat (m - int a)" arbitrary: a b s ws rule: less_induct)
  case less
  obtain e s1 where fn: "fn s = (e, s1)" by (cases "fn s")
  show ?case
  proof (cases "e = None \<or> \<not> IsTransientLockErr e \<or> int a \<ge> m")
    case True
    with less.prems fn have "err = e" "s' = s1" "ws = []"
      by (auto simp: retry_loop.simps [of cancelled])
    with fn True show ?thesis
      by (intro exI [of _ 0] exI [of _ "[]"]) (auto simp: IsTransientLockErr_def)
  next
    case False
    obtain err2 s2 ws2 where rec: "retry_loop cancelled m fn (a + 1) (b * 2) s1 = (err2, s2, ws2)"
      by (metis prod_cases3)
    with less.prems fn False assms(2) have eq: "err = err2" "s' = s2" "ws = b # ws2"
      by (auto simp: retry_loop.simps [of cancelled m fn a])
    have "nat (m - int (a + 1)) < nat (m - int a)" using False by auto
    from less.hyps [OF this, of "b * 2" s1 ws2] rec eq obtain n es where
      n: "attempts fn (Suc n) s1 = (es @ [err], s')" "length es = n" "list_all IsTransientLockErr es"
      "ws2 = map (\<lambda>k. b * 2 * 2 ^ k) [0..<n]" "n = 0 \<or> int (a + 1 + n) \<le> m"
      "\<not> IsTransientLockErr err \<or> m \<le> int (a + 1 + n)" by auto
    have ws: "ws = map (\<lambda>k. b * 2 ^ k) [0..<Suc n]"
    proof -
      have "[0..<Suc n] = 0 # map Suc [0..<n]" by (simp add: map_Suc_upt upt_conv_Cons del: upt_Suc)
      then show ?thesis by (simp add: eq n(4) comp_def mult.assoc del: upt_Suc)
    qed
    show ?thesis
      by (rule exI [of _ "Suc n"], rule exI [of _ "e # es"])
        (use n ws fn False in \<open>auto simp: add.commute\<close>)
  qed
qed

text \<open>
  C19. \<open>RetryTransientLock\<close>, when its context stays alive, calls \<open>fn\<close> at least once and at most
  \<open>maxAttempts\<close> times (once when that is not positive), repeats it only after a transient error, returns the outcome and the state of the
  last call, waits 100 ms doubled each time in between, and gives up with a transient error only when
  the attempts are used up.
\<close>

theorem RetryTransientLock_attempts:
  assumes "RetryTransientLock cancelled maxAttempts fn s = (err, s', ws)" "\<forall>k. \<not> cancelled k"
  shows "\<exists>n es. attempts fn (Suc n) s = (es @ [err], s') \<and> list_all IsTransientLockErr es
    \<and> length ws = n \<and> ws = map (\<lambda>k. 100 * 2 ^ k) [0..<n] \<and> (n = 0 \<or> int (Suc n) \<le> maxAttempts)
    \<and> (IsTransientLockErr err \<longrightarrow> maxAttempts \<le> int (Suc n))"
proof -
  from retry_loop_attempts [OF assms(1) [unfolded RetryTransientLock_def] assms(2)] obtain n es where
    "attempts fn (Suc n) s = (es @ [err], s')" "length es = n" "list_all IsTransientLockErr es"
    "ws = map (\<lambda>k. 100 * 2 ^ k) [0..<n]" "n = 0 \<or> int (1 + n) \<le> maxAttempts"
    "\<not> IsTransientLockErr err \<or> maxAttempts \<le> int (1 + n)" by auto
  then show ?thesis by (intro exI [of _ n] exI [of _ es]) auto
qed

text \<open>A statement that fails with a lock error twice and then succeeds.\<close>

definition locked_twice :: "nat \<Rightarrow> go_err option \<times> nat" where
  "locked_twice n = (if n < 2 then Some (PgError 9 ''58000'' ''grn_io_lock failed'') else None, n + 1)"

theorem RetryTransientLock_attempts_witness:
  "RetryTransientLock (\<lambda>_. False) DefaultLockRetryAttempts locked_twice 0 = (None, 3, [100, 200])
   \<and> (\<exists>n es. attempts locked_twice (Suc n) 0 = (es @ [None], 3) \<and> list_all IsTransientLockErr es
        \<and> length [100::nat, 200] = n)"
proof -
  have r: "RetryTransientLock (\<lambda>_. False) DefaultLockRetryAttempts locked_twice 0 = (None, 3, [100, 200])"
    by (simp add: RetryTransientLock_def retry_loop.simps locked_twice_def DefaultLockRetryAttempts_def
        IsTransientLockErr_def)
  from RetryTransientLock_attempts [OF r] r show ?thesis by blast
qed

section \<open>The retry middleware of Telegram calls\<close>

definition internalErrors :: "string list" where
  "internalErrors = [''Timedout'', ''No workers running'', ''RPC_CALL_FAIL'', ''RPC_MCGET_FAIL'',
     ''WORKER_BUSY_TOO_LONG_RETRY'', ''memory limit exit'', ''connection dead'', ''engine was closed'',
     ''STORAGE_CHOOSE_VOLUME_FAILED'']"

text \<open>\<open>errors.New\<close> makes a value with an identity of its own, here the next free one.\<close>

fun isErrorMatch_from :: "nat \<Rightarrow> string list \<Rightarrow> go_err \<Rightarrow> bool" where
  "isErrorMatch_from next_addr [] err = False"
| "isErrorMatch_from next_addr (m # ms) err =
     (if errors_Is err next_addr then True else isErrorMatch_from (next_addr + 1) ms err)"

definition isErrorMatch :: "nat \<Rightarrow> go_err \<Rightarrow> bool" where
  "isErrorMatch next_addr err = isErrorMatch_from next_addr internalErrors err"

text \<open>\<open>tgerr.Is\<close>: the chain has an RPC error of one of the types.\<close>

fun tgerr_Is :: "string list \<Rightarrow> go_err \<Rightarrow> bool" where
  "tgerr_Is ts (RpcError _ t) = (t \<in> set ts)"
| "tgerr_Is ts (WrapErr _ _ e) = tgerr_Is ts e"
| "tgerr_Is ts _ = False"

record retry =
  retry_max :: int
  retry_errors :: "string list"

definition retry_New :: "int \<Rightarrow> string list \<Rightarrow> retry" where
  "retry_New m errs = \<lparr> retry_max = m, retry_errors = errs @ internalErrors \<rparr>"

text \<open>\<open>invoke\<close> is the next middleware, on a state; new errors get the identity \<open>fresh s\<close>.\<close>

function retry_Handle_loop ::
    "('s \<Rightarrow> nat) \<Rightarrow> ('s \<Rightarrow> go_err option \<times> 's) \<Rightarrow> retry \<Rightarrow> nat \<Rightarrow> 's \<Rightarrow> go_err option \<times> 's" where
  "retry_Handle_loop fresh invoke r retries s =
     (if int retries < retry_max r then
        (case invoke s of
           (None, s) \<Rightarrow> (None, s)
         | (Some err, s) \<Rightarrow>
             if tgerr_Is (retry_errors r) err \<or> isErrorMatch (fresh s) err
             then retry_Handle_loop fresh invoke r (retries + 1) s
             else (Some (WrapErr (fresh s) ''retry middleware skip'' err), s))
      else (Some (Sentinel (fresh s) (''retry limit reached after '' @ show_int (retry_max r) @ '' attempts'')), s))"
  by pat_completeness auto
termination by (relation "measure (\<lambda>(_, _, r, n, _). nat (retry_max r - int n))") auto

declare retry_Handle_loop.simps [simp del]

definition retry_Handle ::
    "('s \<Rightarrow> nat) \<Rightarrow> ('s \<Rightarrow> go_err option \<times> 's) \<Rightarrow> retry \<Rightarrow> 's \<Rightarrow> go_err option \<times> 's" where
  "retry_Handle fresh invoke r s = retry_Handle_loop fresh invoke r 0 s"

fun err_addrs :: "go_err \<Rightarrow> nat set" where
  "err_addrs (WrapErr a _ e) = insert a (err_addrs e)"
| "err_addrs e = {err_addr e}"

lemma errors_Is_addrs: "errors_Is e t \<longleftrightarrow> t \<in> err_addrs e"
  by (induction e) auto

lemma isErrorMatch_from_False:
  "\<forall>a \<in> err_addrs err. a < n \<Longrightarrow> \<not> isErrorMatch_from n ms err"
proof (induction ms arbitrary: n)
  case (Cons m ms)
  then have "n \<notin> err_addrs err" by auto
  with Cons.prems Cons.IH [of "n + 1"] show ?case by (force simp: errors_Is_addrs)
qed simp

text \<open>
  What the middleware repeats. Because \<open>isErrorMatch\<close> compares with errors it has just made, it
  matches no error that existed before: a plain error whose text is in \<open>internalErrors\<close> (\<open>connection
  dead\<close>, \<open>engine was closed\<close>) is not repeated but returned at once, after a single call. Only RPC
  errors of the listed types are repeated.
\<close>

theorem retry_Handle_plain_error:
  assumes "invoke s = (Some err, s')" "\<forall>a \<in> err_addrs err. a < fresh s'"
    "\<not> tgerr_Is (retry_errors r) err" "0 < retry_max r"
  shows "retry_Handle fresh invoke r s = (Some (WrapErr (fresh s') ''retry middleware skip'' err), s')"
  using assms isErrorMatch_from_False [OF assms(2)]
  by (simp add: retry_Handle_def retry_Handle_loop.simps isErrorMatch_def)

theorem retry_Handle_plain_error_witness:
  "retry_Handle (\<lambda>s. 20) (\<lambda>s. (Some (Sentinel 7 ''connection dead''), s + 1)) (retry_New 5 []) (0::nat)
     = (Some (WrapErr 20 ''retry middleware skip'' (Sentinel 7 ''connection dead'')), 1)"
  using retry_Handle_plain_error [of "\<lambda>s. (Some (Sentinel 7 ''connection dead''), s + 1)" "0::nat"
      "Sentinel 7 ''connection dead''" 1 "\<lambda>s. 20" "retry_New 5 []"]
  by (simp add: retry_New_def)

end
