(* ===== verification/FileTable.thy ===== *)
theory FileTable
  imports Prelude
begin

text \<open>
  The table \<open>teldrive.files\<close> (pkg/models/file.go) and the tree it holds: a row's parent is the row
  whose id is its \<open>parent_id\<close>. A table is the list of its rows in storage order; a query without
  an order returns them in that order. The recursive queries of pkg/services are loops
  over this list: \<open>getFullPath\<close> (up the tree), \<open>resolvePathID\<close> (down along names) and
  \<open>deleteFilesBulk\<close> (a whole subtree). The first and the last recurse along \<open>parent_id\<close> with
  \<open>UNION ALL\<close>, which never ends on a cycle of folders; they are partial and \<open>None\<close> is not ending.
\<close>

record api_Part =
  part_ID :: int
  part_Salt :: string

record FileRow =
  f_id :: string
  f_name :: string
  f_type :: string
  f_mime :: string
  f_size :: "int option"
  f_category :: "string option"
  f_encrypted :: "bool option"
  f_starred :: "bool option"
  f_user :: int
  f_status :: string
  f_parent :: "string option"
  f_parts :: "api_Part list option"
  f_channel :: "int option"
  f_hash :: "string option"
  f_ref :: "string option"
  f_created :: int
  f_updated :: int

definition IsEncrypted :: "FileRow \<Rightarrow> bool" where
  "IsEncrypted f \<longleftrightarrow> f_encrypted f = Some True"

abbreviation "ACTIVE \<equiv> ''active''"
abbreviation "PENDING \<equiv> ''pending_deletion''"
abbreviation "FILE \<equiv> ''file''"
abbreviation "FOLDER \<equiv> ''folder''"

text \<open>\<open>First(&row)\<close> with a condition, and the row with an id (a primary key).\<close>

definition first_where :: "('a \<Rightarrow> bool) \<Rightarrow> 'a list \<Rightarrow> 'a option" where
  "first_where P rows = List.find P rows"

definition row_by_id :: "FileRow list \<Rightarrow> string \<Rightarrow> FileRow option" where
  "row_by_id rows i = first_where (\<lambda>f. f_id f = i) rows"

text \<open>\<open>UPDATE ... SET upd WHERE cond\<close>.\<close>

definition update_where :: "('a \<Rightarrow> bool) \<Rightarrow> ('a \<Rightarrow> 'a) \<Rightarrow> 'a list \<Rightarrow> 'a list" where
  "update_where P g rows = map (\<lambda>r. if P r then g r else r) rows"

section \<open>Up the tree: full paths\<close>

text \<open>The names from the root down to the row, as \<open>path_tree\<close> aggregates them.\<close>

partial_function (option) path_tree :: "FileRow list \<Rightarrow> string \<Rightarrow> string list option" where
  "path_tree rows i =
     (case row_by_id rows i of
        None \<Rightarrow> Some []
      | Some f \<Rightarrow>
          (case f_parent f of
             None \<Rightarrow> Some [f_name f]
           | Some p \<Rightarrow> Option.bind (path_tree rows p) (\<lambda>ns. Some (ns @ [f_name f]))))"

definition getFullPath :: "FileRow list \<Rightarrow> string \<Rightarrow> string option" where
  "getFullPath rows i =
     map_option (\<lambda>names.
       let path = Join names ''/''; path = (if path \<noteq> '''' then ''/'' @ path else path)
       in TrimPrefix path ''/root'') (path_tree rows i)"

section \<open>Down the tree: resolving a path\<close>

definition child_ids :: "FileRow list \<Rightarrow> string \<Rightarrow> string list \<Rightarrow> string list" where
  "child_ids rows name ids =
     concat (map (\<lambda>i. map f_id (filter (\<lambda>f. f_parent f = Some i \<and> f_name f = name
        \<and> f_status f = ACTIVE) rows)) ids)"

fun descend :: "FileRow list \<Rightarrow> string list \<Rightarrow> string list \<Rightarrow> string list" where
  "descend rows ids [] = ids"
| "descend rows ids (n # ns) = descend rows (child_ids rows n ids) ns"

definition root_ids :: "FileRow list \<Rightarrow> int \<Rightarrow> string \<Rightarrow> string list" where
  "root_ids rows uid name = map f_id (filter (\<lambda>f. f_name f = name \<and> f_user f = uid
     \<and> f_parent f = None \<and> f_status f = ACTIVE) rows)"

text \<open>\<open>string_to_array(trim(both '/' from path), '/')\<close>; the array of an empty string is empty.\<close>

definition path_parts :: "string \<Rightarrow> string list" where
  "path_parts path = (let p = TrimC path CHR ''/'' in if p = '''' then [] else Split p CHR ''/'')"

definition resolvePathID :: "FileRow list \<Rightarrow> string \<Rightarrow> int \<Rightarrow> string option" where
  "resolvePathID rows path userId =
     (let path = (if \<not> HasPrefix path ''/root'' then ''/root/'' @ TrimC path CHR ''/'' else path)
      in case path_parts path of
           [] \<Rightarrow> None
         | n # ns \<Rightarrow>
             (case descend rows (root_ids rows userId n) ns of
                [] \<Rightarrow> None
              | i # _ \<Rightarrow> if i = '''' then None else Some i))"

section \<open>Subtrees\<close>

text \<open>\<open>target_folders\<close>: the rows reached from the frontier, level by level.\<close>

definition children_ids :: "FileRow list \<Rightarrow> string list \<Rightarrow> string list" where
  "children_ids rows ids =
     concat (map (\<lambda>i. map f_id (filter (\<lambda>f. f_parent f = Some i) rows)) ids)"

partial_function (option) target_levels ::
    "FileRow list \<Rightarrow> string list \<Rightarrow> string list \<Rightarrow> string list option" where
  "target_levels rows frontier acc =
     (if frontier = [] then Some acc
      else target_levels rows (children_ids rows frontier) (acc @ frontier))"

definition target_folders :: "FileRow list \<Rightarrow> string list \<Rightarrow> int \<Rightarrow> string list option" where
  "target_folders rows fileIds userId =
     target_levels rows (map f_id (filter (\<lambda>f. f_id f \<in> set fileIds \<and> f_user f = userId) rows)) []"

text \<open>Both statements of the query see the table as it was before.\<close>

definition deleteFilesBulk :: "FileRow list \<Rightarrow> string list \<Rightarrow> int \<Rightarrow> FileRow list option" where
  "deleteFilesBulk rows fileIds userId =
     map_option (\<lambda>targets.
       filter (\<lambda>f. \<not> (f_id f \<in> set targets \<and> f_type f = FOLDER))
         (update_where (\<lambda>f. ((case f_parent f of None \<Rightarrow> False | Some p \<Rightarrow> p \<in> set targets)
               \<or> f_id f \<in> set fileIds) \<and> f_type f = FILE)
            (\<lambda>f. f\<lparr> f_status := PENDING \<rparr>) rows))
       (target_folders rows fileIds userId)"

section \<open>Creating directories\<close>

text \<open>
  The database function \<open>create_directories\<close> (the last version, migration 20240915100057). \<open>fresh\<close>
  are the ids the database generates, one per insert; the result is the id of the last directory.
\<close>

definition new_folder :: "string \<Rightarrow> string \<Rightarrow> string option \<Rightarrow> int \<Rightarrow> int \<Rightarrow> FileRow" where
  "new_folder i name parent uid now = \<lparr> f_id = i, f_name = name, f_type = FOLDER,
     f_mime = ''drive/folder'', f_size = None, f_category = None, f_encrypted = Some False,
     f_starred = Some False, f_user = uid, f_status = ACTIVE, f_parent = parent, f_parts = None,
     f_channel = None, f_hash = None, f_ref = None, f_created = now, f_updated = now \<rparr>"

fun create_dirs_loop ::
    "FileRow list \<Rightarrow> int \<Rightarrow> int \<Rightarrow> string list \<Rightarrow> string option \<Rightarrow> string list \<Rightarrow> string option \<times> FileRow list" where
  "create_dirs_loop rows uid now fresh cur [] = (cur, rows)"
| "create_dirs_loop rows uid now fresh cur (d # ds) =
     (case first_where (\<lambda>f. cur \<noteq> None \<and> f_parent f = cur \<and> f_name f = d \<and> f_user f = uid) rows of
        Some f \<Rightarrow> create_dirs_loop rows uid now fresh (Some (f_id f)) ds
      | None \<Rightarrow>
          (case fresh of [] \<Rightarrow> (cur, rows)
           | i # fresh \<Rightarrow>
               create_dirs_loop (rows @ [new_folder i d cur uid now]) uid now fresh (Some i) ds))"

definition create_directories ::
    "FileRow list \<Rightarrow> int \<Rightarrow> int \<Rightarrow> string list \<Rightarrow> string \<Rightarrow> string option \<times> FileRow list" where
  "create_directories rows uid now fresh long_path =
     (let p = TrimLeftC long_path CHR ''/''; parts = (if p = '''' then [] else Split p CHR ''/'');
          root = map_option f_id (first_where (\<lambda>f. f_parent f = None \<and> f_user f = uid \<and> f_type f = FOLDER) rows)
      in create_dirs_loop rows uid now fresh root parts)"

end
