(* ===== verification/FileMeta.thy ===== *)
theory FileMeta
  imports FileTable
begin

text \<open>
  Small pure parts of the program that the file operations use: internal/utils (\<open>Map\<close>, \<open>Filter\<close>,
  \<open>Find\<close>), internal/category, internal/uaclass, the content type and compression choices of
  pkg/services/file.go, pkg/mapper, and the block hasher of internal/hash. The hash function
  BLAKE3 and the table of MIME types of the platform are parameters.
\<close>

section \<open>Slices (internal/utils)\<close>

fun utils_Filter :: "'a list \<Rightarrow> ('a \<Rightarrow> bool) \<Rightarrow> 'a list" where
  "utils_Filter [] p = []"
| "utils_Filter (v # vs) p = (if p v then v # utils_Filter vs p else utils_Filter vs p)"

fun utils_Map :: "'a list \<Rightarrow> ('a \<Rightarrow> 'b) \<Rightarrow> 'b list" where
  "utils_Map [] f = []"
| "utils_Map (v # vs) f = f v # utils_Map vs f"

fun utils_Find :: "'a list \<Rightarrow> ('a \<Rightarrow> bool) \<Rightarrow> 'a option" where
  "utils_Find [] p = None"
| "utils_Find (v # vs) p = (if p v then Some v else utils_Find vs p)"

lemma utils_Map_map [simp]: "utils_Map xs f = map f xs"
  by (induction xs) auto

lemma utils_Filter_filter [simp]: "utils_Filter xs p = filter p xs"
  by (induction xs) auto

lemma utils_Find_find [simp]: "utils_Find xs p = List.find p xs"
  by (induction xs) auto

section \<open>Categories\<close>

datatype Category = Document | Image | Video | Audio | Archive | Other

definition documentExtensions :: "string list" where
  "documentExtensions = [''doc'', ''docx'', ''ppt'', ''pptx'', ''pps'', ''ppsx'', ''odt'', ''xls'',
     ''xlsx'', ''csv'', ''pdf'', ''txt'']"

definition imageExtensions :: "string list" where
  "imageExtensions = [''jpg'', ''jpeg'', ''png'', ''gif'', ''bmp'', ''svg'', ''webp'', ''heif'',
     ''heic'', ''psd'']"

definition videoExtensions :: "string list" where
  "videoExtensions = [''mp4'', ''webm'', ''mov'', ''avi'', ''m4v'', ''flv'', ''wmv'', ''mkv'',
     ''mpg'', ''mpeg'', ''m2v'', ''mpv'']"

definition audioExtensions :: "string list" where
  "audioExtensions = [''mp3'', ''wav'', ''ogg'', ''m4a'', ''flac'', ''aac'', ''wma'', ''aiff'',
     ''ape'', ''alac'', ''opus'', ''pcm'']"

definition archiveExtensions :: "string list" where
  "archiveExtensions = [''zip'', ''rar'', ''tar'', ''gz'', ''7z'', ''iso'', ''dmg'', ''pkg'', ''xz'',
     ''tgz'', ''unitypackage'']"

fun slice_contains :: "string list \<Rightarrow> string \<Rightarrow> bool" where
  "slice_contains [] item = False"
| "slice_contains (a # as) item = (a = item \<or> slice_contains as item)"

lemma slice_contains_iff [simp]: "slice_contains xs x \<longleftrightarrow> x \<in> set xs"
  by (induction xs) auto

definition GetCategory :: "string \<Rightarrow> Category" where
  "GetCategory fileName =
     (let fileExtension = Ext fileName;
          fileExtension = (if fileExtension \<noteq> '''' then ToLower (tl fileExtension) else fileExtension)
      in if slice_contains documentExtensions fileExtension then Document
         else if slice_contains imageExtensions fileExtension then Image
         else if slice_contains videoExtensions fileExtension then Video
         else if slice_contains audioExtensions fileExtension then Audio
         else if slice_contains archiveExtensions fileExtension then Archive
         else Other)"

fun category_string :: "Category \<Rightarrow> string" where
  "category_string Document = ''document''"
| "category_string Image = ''image''"
| "category_string Video = ''video''"
| "category_string Audio = ''audio''"
| "category_string Archive = ''archive''"
| "category_string Other = ''other''"

datatype zip_method = Store | Deflate

definition zipCompressionMethod :: "string \<Rightarrow> zip_method" where
  "zipCompressionMethod name =
     (case GetCategory name of
        Image \<Rightarrow> Store | Video \<Rightarrow> Store | Audio \<Rightarrow> Store | Archive \<Rightarrow> Store | _ \<Rightarrow> Deflate)"

definition defaultContentType :: string where
  "defaultContentType = ''application/octet-stream''"

definition contentTypeFor :: "(string \<Rightarrow> string) \<Rightarrow> string \<Rightarrow> string \<Rightarrow> string" where
  "contentTypeFor typeByExtension name mimeType =
     (if mimeType \<noteq> '''' \<and> mimeType \<noteq> defaultContentType then mimeType
      else let byExtension = typeByExtension (Ext name)
           in if byExtension \<noteq> '''' then byExtension else defaultContentType)"

section \<open>User agents\<close>

definition knownDirectClients :: "string list" where
  "knownDirectClients = [''curl/'', ''wget/'', ''python-requests/'', ''python-urllib/'',
     ''go-http-client/'', ''libcurl'', ''httpie/'', ''powershell/'', ''okhttp/'', ''aria2/'',
     ''axios/'', ''node-fetch'', ''java/'', ''apache-httpclient/'', ''libwww-perl/'']"

definition LooksLikeBrowser :: "string \<Rightarrow> bool" where
  "LooksLikeBrowser ua =
     (let lower = ToLower ua in \<not> list_ex (\<lambda>needle. Contains lower needle) knownDirectClients)"

section \<open>Parts and what the API returns\<close>

definition mapParts :: "api_Part list \<Rightarrow> api_Part list" where
  "mapParts parts = utils_Map parts (\<lambda>p. \<lparr> part_ID = part_ID p,
     part_Salt = (if part_Salt p \<noteq> '''' then part_Salt p else '''') \<rparr>)"

record FileOut =
  o_id :: string
  o_name :: string
  o_type :: string
  o_mime :: string
  o_encrypted :: bool
  o_updated :: int
  o_starred :: "bool option"
  o_parent :: "string option"
  o_size :: "int option"
  o_category :: "string option"
  o_hash :: "string option"
  o_ref :: "string option"
  o_path :: "string option"
  o_channel :: "int option"

text \<open>\<open>None\<close> is the nil dereference of \<open>*file.Encrypted\<close>.\<close>

definition ToFileOut :: "FileRow \<Rightarrow> FileOut option" where
  "ToFileOut f =
     (case f_encrypted f of None \<Rightarrow> None
      | Some enc \<Rightarrow> Some \<lparr> o_id = f_id f, o_name = f_name f, o_type = f_type f, o_mime = f_mime f,
          o_encrypted = enc, o_updated = f_updated f, o_starred = f_starred f,
          o_parent = f_parent f, o_size = f_size f,
          o_category = (case f_category f of Some c \<Rightarrow> if c \<noteq> '''' then Some c else None | None \<Rightarrow> None),
          o_hash = (case f_hash f of Some h \<Rightarrow> if h \<noteq> '''' then Some h else None | None \<Rightarrow> None),
          o_ref = (case f_ref f of Some r \<Rightarrow> if r \<noteq> '''' then Some r else None | None \<Rightarrow> None),
          o_path = None, o_channel = None \<rparr>)"

section \<open>Block hashes (internal/hash)\<close>

type_synonym hash_fun = "bytes \<Rightarrow> bytes"

definition HashBlockSize :: nat where
  "HashBlockSize = 16 * 1024 * 1024"

text \<open>\<open>currentHash\<close> is what has been written to the running BLAKE3 hasher.\<close>

record BlockHasher =
  bh_blockSize :: nat
  currentHash :: bytes
  blockHashes :: "bytes list"
  bytesInBlock :: nat

definition NewBlockHasher :: BlockHasher where
  "NewBlockHasher = \<lparr> bh_blockSize = HashBlockSize, currentHash = [], blockHashes = [], bytesInBlock = 0 \<rparr>"

text \<open>The loop of \<open>Write\<close>; \<open>None\<close> is a loop that makes no progress.\<close>

partial_function (option) bh_Write :: "hash_fun \<Rightarrow> bytes \<Rightarrow> BlockHasher \<Rightarrow> BlockHasher option" where
  "bh_Write blake p h =
     (if p = [] then Some h
      else
        let toWrite = min (length p) (bh_blockSize h - bytesInBlock h);
            h = (if bytesInBlock h = 0 then h\<lparr> currentHash := [] \<rparr> else h);
            h = h\<lparr> currentHash := currentHash h @ take toWrite p, bytesInBlock := bytesInBlock h + toWrite \<rparr>;
            h = (if bytesInBlock h \<ge> bh_blockSize h
                 then h\<lparr> blockHashes := blockHashes h @ [blake (currentHash h)], bytesInBlock := 0 \<rparr>
                 else h)
        in bh_Write blake (drop toWrite p) h)"

definition bh_Sum :: "hash_fun \<Rightarrow> BlockHasher \<Rightarrow> bytes \<times> BlockHasher" where
  "bh_Sum blake h =
     (let h = (if bytesInBlock h > 0
               then h\<lparr> blockHashes := blockHashes h @ [blake (currentHash h)], bytesInBlock := 0 \<rparr>
               else h)
      in (concat (blockHashes h), h))"

definition bh_GetBlockCount :: "BlockHasher \<Rightarrow> nat" where
  "bh_GetBlockCount h = length (blockHashes h)"

definition bh_Reset :: "BlockHasher \<Rightarrow> BlockHasher" where
  "bh_Reset h = h\<lparr> blockHashes := [], bytesInBlock := 0 \<rparr>"

definition hex_digit :: "nat \<Rightarrow> char" where
  "hex_digit n = (if n < 10 then char_of (48 + n) else char_of (87 + n))"

definition SumToHex :: "bytes \<Rightarrow> string" where
  "SumToHex bs = concat (map (\<lambda>b. [hex_digit (unat b div 16), hex_digit (unat b mod 16)]) bs)"

definition ComputeTreeHash :: "hash_fun \<Rightarrow> bytes \<Rightarrow> bytes" where
  "ComputeTreeHash blake bs = blake bs"

text \<open>What the hasher computes: the hashes of the blocks of the data.\<close>

function hash_blocks :: "hash_fun \<Rightarrow> nat \<Rightarrow> bytes \<Rightarrow> bytes list" where
  "hash_blocks blake B d =
     (if d = [] \<or> B = 0 then [] else blake (take B d) # hash_blocks blake B (drop B d))"
  by pat_completeness auto
termination by (relation "measure (\<lambda>(_, _, d). length d)") auto

declare hash_blocks.simps [simp del]

lemma hash_blocks_Nil [simp]: "hash_blocks blake B [] = []"
  by (subst hash_blocks.simps) simp

lemma hash_blocks_short:
  "d \<noteq> [] \<Longrightarrow> length d \<le> B \<Longrightarrow> hash_blocks blake B d = [blake d]"
  by (subst hash_blocks.simps) (cases "B = 0"; simp)

lemma hash_blocks_block:
  assumes "length b = B" "0 < B"
  shows "hash_blocks blake B (b @ d) = blake b # hash_blocks blake B d"
  using assms by (subst hash_blocks.simps) auto

text \<open>A part whose length is a multiple of the block size can be hashed on its own.\<close>

lemma hash_blocks_append:
  assumes "0 < B" "length a mod B = 0"
  shows "hash_blocks blake B (a @ d) = hash_blocks blake B a @ hash_blocks blake B d"
  using assms(2)
proof (induction "length a" arbitrary: a rule: less_induct)
  case less
  show ?case
  proof (cases "a = []")
    case False
    have "\<not> length a < B" using less.prems False by auto
    then have "length (take B a) = B" by simp
    then obtain b a' where a: "a = b @ a'" "length b = B" by (metis append_take_drop_id)
    then have "length a' mod B = 0" using less.prems by simp
    moreover have "length a' < length a" using a assms(1) by simp
    ultimately show ?thesis using less.hyps [of a'] a assms(1) by (simp add: hash_blocks_block)
  qed simp
qed

text \<open>\<open>bh_holds B d h\<close>: the hasher has been given exactly \<open>d\<close>.\<close>

definition bh_holds :: "hash_fun \<Rightarrow> nat \<Rightarrow> bytes \<Rightarrow> BlockHasher \<Rightarrow> bool" where
  "bh_holds blake B d h \<longleftrightarrow>
     bh_blockSize h = B \<and> bytesInBlock h < B
     \<and> (\<exists>full cur. d = full @ cur \<and> length full mod B = 0 \<and> length cur = bytesInBlock h
        \<and> blockHashes h = hash_blocks blake B full \<and> (cur \<noteq> [] \<longrightarrow> currentHash h = cur))"

lemma bh_holdsE:
  assumes "bh_holds blake B d h"
  obtains full cur where "bh_blockSize h = B" "bytesInBlock h < B" "d = full @ cur"
    "length full mod B = 0" "length cur = bytesInBlock h" "blockHashes h = hash_blocks blake B full"
    "cur \<noteq> [] \<longrightarrow> currentHash h = cur"
  using assms unfolding bh_holds_def by (elim conjE exE) (rule that; assumption)

lemma bh_holds_New: "bh_holds blake HashBlockSize [] NewBlockHasher"
  unfolding bh_holds_def by (auto simp: NewBlockHasher_def HashBlockSize_def intro!: exI [of _ "[]"])

lemma hash_blocks_snoc:
  assumes "0 < B" "length full mod B = 0" "cur \<noteq> []" "length cur \<le> B"
  shows "hash_blocks blake B (full @ cur) = hash_blocks blake B full @ [blake cur]"
  using assms by (simp add: hash_blocks_append hash_blocks_short)

lemma bh_Write_holds:
  assumes B: "0 < B"
  shows "bh_holds blake B d h \<Longrightarrow> \<exists>h'. bh_Write blake p h = Some h' \<and> bh_holds blake B (d @ p) h'"
proof (induction "length p" arbitrary: p d h rule: less_induct)
  case less
  show ?case
  proof (cases "p = []")
    case True
    with less.prems show ?thesis by (subst bh_Write.simps) simp
  next
    case False
    obtain full cur where h: "bh_blockSize h = B" "bytesInBlock h < B"
      "d = full @ cur" "length full mod B = 0" "length cur = bytesInBlock h"
      "blockHashes h = hash_blocks blake B full" "cur \<noteq> [] \<longrightarrow> currentHash h = cur"
      by (rule bh_holdsE [OF less.prems])
    define n where "n = min (length p) (B - bytesInBlock h)"
    have n: "0 < n" "n \<le> length p" "bytesInBlock h + n \<le> B" using False h(2) by (auto simp: n_def)
    define cur' where "cur' = cur @ take n p"
    have lc: "length cur' = bytesInBlock h + n" using h(5) n(2) by (simp add: cur'_def)
    have ne: "cur' \<noteq> []" using n by (auto simp: cur'_def)
    define g where "g = (let g = (if bytesInBlock h = 0 then h\<lparr> currentHash := [] \<rparr> else h);
            g = g\<lparr> currentHash := currentHash g @ take n p, bytesInBlock := bytesInBlock g + n \<rparr>
        in if bytesInBlock g \<ge> bh_blockSize g
           then g\<lparr> blockHashes := blockHashes g @ [blake (currentHash g)], bytesInBlock := 0 \<rparr> else g)"
    have ch: "currentHash (if bytesInBlock h = 0 then h\<lparr> currentHash := [] \<rparr> else h) = cur"
      using h(5,7) by (cases "bytesInBlock h = 0") auto
    have "bh_holds blake B (d @ take n p) g"
    proof (cases "bytesInBlock h + n = B")
      case True
      then have g: "bh_blockSize g = B" "bytesInBlock g = 0" "blockHashes g = blockHashes h @ [blake cur']"
        using h(1) ch by (auto simp: g_def Let_def cur'_def split: if_splits)
      have "d @ take n p = (full @ cur') @ []" using h(3) by (simp add: cur'_def)
      moreover have "length (full @ cur') mod B = 0" using h(4) lc True by simp
      moreover have "blockHashes g = hash_blocks blake B (full @ cur')"
        using g(3) h(6) hash_blocks_snoc [OF B h(4) ne] lc True by simp
      ultimately show ?thesis using g B unfolding bh_holds_def by (metis list.size(3))
    next
      case False
      with n(3) have lt: "bytesInBlock h + n < B" by simp
      then have g: "bh_blockSize g = B" "bytesInBlock g = bytesInBlock h + n"
        "blockHashes g = blockHashes h" "currentHash g = cur'"
        using h(1) ch by (auto simp: g_def Let_def cur'_def split: if_splits)
      have "d @ take n p = full @ cur'" using h(3) by (simp add: cur'_def)
      then show ?thesis using g h(4,6) lc lt unfolding bh_holds_def by metis
    qed
    moreover have "length (drop n p) < length p" using n by simp
    moreover have "bh_Write blake p h = bh_Write blake (drop n p) g"
      using False h(1) by (subst bh_Write.simps) (simp add: n_def g_def Let_def)
    ultimately show ?thesis using less.hyps [of "drop n p" "d @ take n p" g] by simp
  qed
qed

lemma bh_Sum_holds:
  assumes "0 < B" "bh_holds blake B d h"
  shows "fst (bh_Sum blake h) = concat (hash_blocks blake B d)"
proof -
  obtain full cur where h0: "bh_blockSize h = B" and h: "bytesInBlock h < B" "d = full @ cur" "length full mod B = 0"
    "length cur = bytesInBlock h" "blockHashes h = hash_blocks blake B full"
    "cur \<noteq> [] \<longrightarrow> currentHash h = cur"
    by (rule bh_holdsE [OF assms(2)])
  show ?thesis
  proof (cases "cur = []")
    case True
    with h show ?thesis by (simp add: bh_Sum_def)
  next
    case False
    with h(4) have "0 < bytesInBlock h" by (cases "bytesInBlock h") auto
    with False h hash_blocks_snoc [OF assms(1) h(3) False] show ?thesis by (simp add: bh_Sum_def)
  qed
qed

text \<open>A sequence of writes, as \<open>io.Copy\<close> does them.\<close>

fun bh_Writes :: "hash_fun \<Rightarrow> bytes list \<Rightarrow> BlockHasher \<Rightarrow> BlockHasher option" where
  "bh_Writes blake [] h = Some h"
| "bh_Writes blake (p # ps) h = Option.bind (bh_Write blake p h) (bh_Writes blake ps)"

lemma bh_Writes_holds:
  "0 < B \<Longrightarrow> bh_holds blake B d h \<Longrightarrow>
     \<exists>h'. bh_Writes blake ps h = Some h' \<and> bh_holds blake B (d @ concat ps) h'"
proof (induction ps arbitrary: d h)
  case (Cons p ps)
  from bh_Write_holds [OF Cons.prems, of p] obtain h1 where
    h1: "bh_Write blake p h = Some h1" "bh_holds blake B (d @ p) h1" by blast
  from Cons.IH [OF Cons.prems(1) h1(2)] h1(1) show ?case by simp
qed simp

text \<open>
  The block hasher does not depend on how the data arrives: any sequence of writes ends, and the sum
  is the concatenation of the hashes of the 16 MiB blocks of the whole data.
\<close>

theorem BlockHasher_blocks:
  "\<exists>h. bh_Writes blake ps NewBlockHasher = Some h
     \<and> fst (bh_Sum blake h) = concat (hash_blocks blake HashBlockSize (concat ps))"
proof -
  have B: "0 < HashBlockSize" by (simp add: HashBlockSize_def)
  from bh_Writes_holds [OF B bh_holds_New, of blake ps] obtain h where
    "bh_Writes blake ps NewBlockHasher = Some h" "bh_holds blake HashBlockSize (concat ps) h" by auto
  with bh_Sum_holds [OF B] show ?thesis by auto
qed

text \<open>Parts hashed one by one, each from a fresh hasher.\<close>

lemma part_hashes_concat:
  assumes "0 < B" "\<forall>p \<in> set (butlast ps). length p mod B = 0"
  shows "concat (map (\<lambda>p. concat (hash_blocks blake B p)) ps) = concat (hash_blocks blake B (concat ps))"
  using assms(2)
proof (induction ps)
  case (Cons p ps)
  show ?case
  proof (cases ps)
    case (Cons q qs)
    then have "length p mod B = 0" "\<forall>p \<in> set (butlast ps). length p mod B = 0"
      using Cons.prems by simp_all
    with Cons.IH hash_blocks_append [OF assms(1)] show ?thesis by simp
  qed simp
qed simp

end
