(* ===== verification/Cache.thy ===== *)
theory Cache
  imports Prelude "HOL-Library.Char_ord" "HOL-Library.List_Lexorder"
begin

text \<open>
  internal/cache: the key functions, the interface \<open>Cacher\<close> (locale \<open>cacher\<close>), its implementations
  \<open>NoopCache\<close> and \<open>MemoryCache\<close>, and \<open>Fetch\<close>. freecache and msgpack are not part of the program:
  \<open>MemoryCache\<close> is defined over operations of a store and a codec, and the locale \<open>kv_store\<close>
  states what it relies on; \<open>kv_table\<close> is a store with expiry for which the laws are proved. The
  services use a cache as a map (\<open>cmap\<close>), which is a \<open>cacher\<close> that never evicts.
\<close>

section \<open>Keys\<close>

text \<open>The values \<open>formatValue\<close> distinguishes; \<open>VOther\<close> is what \<open>fmt\<close> prints for the rest.\<close>

datatype go_value =
    VNil
  | VStr string
  | VInt int
  | VPtr "go_value option"
  | VSlice "go_value list"
  | VMap "(go_value \<times> go_value) list"
  | VOther string

fun formatValue :: "go_value \<Rightarrow> string" where
  "formatValue VNil = ''nil''"
| "formatValue (VPtr None) = ''nil''"
| "formatValue (VPtr (Some v)) = formatValue v"
| "formatValue (VSlice vs) = ''['' @ Join (map formatValue vs) '','' @ '']''"
| "formatValue (VMap kvs) = ''{'' @ Join (sort (map (\<lambda>(k, v). formatValue k @ ''='' @ formatValue v) kvs)) '',''
     @ ''}''"
| "formatValue (VStr s) = s"
| "formatValue (VInt i) = show_int i"
| "formatValue (VOther s) = s"

definition Key :: "go_value list \<Rightarrow> string" where
  "Key args = Join (map formatValue args) '':''"

definition KeyUserChannel :: "int \<Rightarrow> string" where
  "KeyUserChannel userID = Key [VStr ''users'', VStr ''channel'', VInt userID]"

definition KeyUserBots :: "int \<Rightarrow> string" where
  "KeyUserBots userID = Key [VStr ''users'', VStr ''bots'', VInt userID]"

definition KeyUserSessions :: "int \<Rightarrow> string" where
  "KeyUserSessions userID = Key [VStr ''users'', VStr ''sessions'', VInt userID]"

definition KeyFile :: "string \<Rightarrow> string" where
  "KeyFile fileID = Key [VStr ''files'', VStr fileID]"

definition KeyFileMessages :: "string \<Rightarrow> string" where
  "KeyFileMessages fileID = Key [VStr ''files'', VStr ''messages'', VStr fileID]"

definition KeyFileLocation :: "string \<Rightarrow> string \<Rightarrow> string \<Rightarrow> go_value \<Rightarrow> string" where
  "KeyFileLocation inst botID fileID partID = Key [VStr ''files'', VStr ''location'', VStr ''bot'',
     VStr ''instance'', VStr fileID, partID, VStr botID, VStr inst]"

definition KeyFileLocationPattern :: "string \<Rightarrow> string" where
  "KeyFileLocationPattern fileID = Key [VStr ''files'', VStr ''location'', VStr ''bot'',
     VStr ''instance'', VStr fileID, VStr ''*'']"

definition KeySessionHash :: "string \<Rightarrow> string" where
  "KeySessionHash h = Key [VStr ''sessions'', VStr h]"

definition KeySessionUser :: "int \<Rightarrow> string" where
  "KeySessionUser userID = Key [VStr ''sessions'', VStr ''user'', VInt userID]"

definition KeySessionToken :: "string \<Rightarrow> string \<Rightarrow> string" where
  "KeySessionToken inst token = Key [VStr ''sessions'', VStr inst, VStr token]"

definition KeyShare :: "string \<Rightarrow> string" where
  "KeyShare shareID = Key [VStr ''shares'', VStr shareID]"

definition KeyPeer :: "int \<Rightarrow> string" where
  "KeyPeer userID = Key [VStr ''peers'', VInt userID]"

text \<open>\<open>filepath.Match\<close> for the patterns in use: literal characters and \<open>*\<close>, which stops at a slash.\<close>

fun glob_match :: "string \<Rightarrow> string \<Rightarrow> bool" where
  "glob_match [] s = (s = [])"
| "glob_match (p # ps) [] = (p = CHR ''*'' \<and> glob_match ps [])"
| "glob_match (p # ps) (c # cs) =
     (if p = CHR ''*'' then glob_match ps (c # cs) \<or> (c \<noteq> CHR ''/'' \<and> glob_match (p # ps) cs)
      else p = c \<and> glob_match ps cs)"

section \<open>The interface\<close>

datatype cache_err = CacheMiss | CacheErr

text \<open>
  \<open>get\<close> is a miss, an error, or a value. A cache may forget what it holds; it never invents a
  value, and deleted keys are gone.
\<close>

locale cacher =
  fixes get :: "string \<Rightarrow> 's \<Rightarrow> cache_err + 'v"
    and set_ttl :: "string \<Rightarrow> 'v \<Rightarrow> int \<Rightarrow> 's \<Rightarrow> 's"
    and delete :: "string list \<Rightarrow> 's \<Rightarrow> 's"
    and delete_pattern :: "string \<Rightarrow> 's \<Rightarrow> 's"
  assumes get_set: "get k (set_ttl k v e s) = Inr w \<Longrightarrow> w = v \<or> get k s = Inr w"
    and get_set_other: "k' \<noteq> k \<Longrightarrow> get k' (set_ttl k v e s) = Inr w \<Longrightarrow> get k' s = Inr w"
    and get_delete: "k \<in> set ks \<Longrightarrow> get k (delete ks s) = Inl CacheMiss"
    and get_delete_other: "k \<notin> set ks \<Longrightarrow> get k (delete ks s) = Inr w \<Longrightarrow> get k s = Inr w"
    and get_delete_pattern: "glob_match pat k \<Longrightarrow> get k (delete_pattern pat s) = Inl CacheMiss"
    and get_delete_pattern_other: "get k (delete_pattern pat s) = Inr w \<Longrightarrow> get k s = Inr w"

text \<open>\<open>Fetch\<close>: \<open>fn\<close> is the callback, a function of the state it may change.\<close>

definition Fetch ::
    "(string \<Rightarrow> 's \<Rightarrow> cache_err + 'v) \<Rightarrow> (string \<Rightarrow> 'v \<Rightarrow> int \<Rightarrow> 's \<Rightarrow> 's) \<Rightarrow> string \<Rightarrow> int
     \<Rightarrow> ('s \<Rightarrow> ('e + 'v) \<times> 's) \<Rightarrow> 's \<Rightarrow> ((cache_err + 'e) + 'v) \<times> 's" where
  "Fetch get set_ttl key expiration fn s =
     (case get key s of
        Inr v \<Rightarrow> (Inr v, s)
      | Inl CacheMiss \<Rightarrow>
          (case fn s of
             (Inl e, s) \<Rightarrow> (Inl (Inr e), s)
           | (Inr v, s) \<Rightarrow> (Inr v, set_ttl key v expiration s))
      | Inl e \<Rightarrow> (Inl (Inl e), s))"

definition FetchArg ::
    "(string \<Rightarrow> 's \<Rightarrow> cache_err + 'v) \<Rightarrow> (string \<Rightarrow> 'v \<Rightarrow> int \<Rightarrow> 's \<Rightarrow> 's) \<Rightarrow> string \<Rightarrow> int
     \<Rightarrow> ('a \<Rightarrow> 's \<Rightarrow> ('e + 'v) \<times> 's) \<Rightarrow> 'a \<Rightarrow> 's \<Rightarrow> ((cache_err + 'e) + 'v) \<times> 's" where
  "FetchArg get set_ttl key expiration fn a s = Fetch get set_ttl key expiration (\<lambda>s. fn a s) s"

context cacher
begin

text \<open>\<open>coherent src s\<close>: whatever the cache holds is what the source of truth says.\<close>

definition coherent :: "(string \<Rightarrow> 'v option) \<Rightarrow> 's \<Rightarrow> bool" where
  "coherent src s \<longleftrightarrow> (\<forall>k v. get k s = Inr v \<longrightarrow> src k = Some v)"

lemma coherent_set: "coherent src s \<Longrightarrow> src k = Some v \<Longrightarrow> coherent src (set_ttl k v e s)"
  unfolding coherent_def by (metis get_set get_set_other option.inject)

text \<open>A change of the source stays invisible only if the keys it touches are deleted.\<close>

lemma coherent_delete:
  assumes "coherent src s" "\<And>k. k \<notin> set ks \<Longrightarrow> src' k = src k"
  shows "coherent src' (delete ks s)"
  unfolding coherent_def
proof (intro allI impI)
  fix k v
  assume g: "get k (delete ks s) = Inr v"
  then have k: "k \<notin> set ks" using get_delete [of k ks s] by auto
  with get_delete_other [OF k g] assms show "src' k = Some v" by (simp add: coherent_def)
qed

lemma Fetch_coherent:
  assumes "coherent src s" "\<And>s. fn s = ((case src key of None \<Rightarrow> Inl e | Some v \<Rightarrow> Inr v), s)"
  shows "coherent src (snd (Fetch get set_ttl key ex fn s))"
    and "fst (Fetch get set_ttl key ex fn s) = Inr v \<Longrightarrow> src key = Some v"
proof -
  show "coherent src (snd (Fetch get set_ttl key ex fn s))"
    using assms coherent_set [OF assms(1)]
    by (auto simp: Fetch_def split: sum.splits cache_err.splits option.splits)
  show "fst (Fetch get set_ttl key ex fn s) = Inr v \<Longrightarrow> src key = Some v"
    using assms by (auto simp: Fetch_def coherent_def split: sum.splits cache_err.splits option.splits)
qed

lemma Fetch_deleted:
  assumes "key \<in> set ks"
  shows "Fetch get set_ttl key ex fn (delete ks s)
    = (case fn (delete ks s) of (Inl e, s) \<Rightarrow> (Inl (Inr e), s) | (Inr v, s) \<Rightarrow> (Inr v, set_ttl key v ex s))"
  using get_delete [OF assms] by (simp add: Fetch_def)

end

section \<open>NoopCache\<close>

definition noop_Get :: "string \<Rightarrow> unit \<Rightarrow> cache_err + 'v" where
  "noop_Get key s = Inl CacheMiss"

definition noop_Set :: "string \<Rightarrow> 'v \<Rightarrow> int \<Rightarrow> unit \<Rightarrow> unit" where
  "noop_Set key v expiration s = s"

definition noop_Delete :: "string list \<Rightarrow> unit \<Rightarrow> unit" where
  "noop_Delete keys s = s"

definition noop_DeletePattern :: "string \<Rightarrow> unit \<Rightarrow> unit" where
  "noop_DeletePattern pattern s = s"

interpretation noop: cacher noop_Get noop_Set noop_Delete noop_DeletePattern
  by unfold_locales (simp_all add: noop_Get_def noop_Set_def)

section \<open>MemoryCache\<close>

definition cache_prefix :: string where
  "cache_prefix = ''teldrive:''"

text \<open>The operations of the underlying store, with seconds of life (0 is forever), and the codec.\<close>

record ('fc, 'v) kv_ops =
  kv_get :: "string \<Rightarrow> 'fc \<Rightarrow> bytes option"
  kv_set :: "string \<Rightarrow> bytes \<Rightarrow> int \<Rightarrow> 'fc \<Rightarrow> 'fc"
  kv_del :: "string \<Rightarrow> 'fc \<Rightarrow> 'fc"
  kv_keys :: "'fc \<Rightarrow> string list"
  kv_marshal :: "'v \<Rightarrow> bytes option"
  kv_unmarshal :: "bytes \<Rightarrow> 'v option"

definition mem_Get :: "('fc, 'v) kv_ops \<Rightarrow> string \<Rightarrow> 'fc \<Rightarrow> cache_err + 'v" where
  "mem_Get ops key fc =
     (case kv_get ops (cache_prefix @ key) fc of
        None \<Rightarrow> Inl CacheMiss
      | Some data \<Rightarrow> (case kv_unmarshal ops data of None \<Rightarrow> Inl CacheErr | Some v \<Rightarrow> Inr v))"

definition nanos_to_seconds :: "int \<Rightarrow> int" where
  "nanos_to_seconds d = go_div d 1000000000"

definition mem_Set :: "('fc, 'v) kv_ops \<Rightarrow> string \<Rightarrow> 'v \<Rightarrow> int \<Rightarrow> 'fc \<Rightarrow> 'fc" where
  "mem_Set ops key v expiration fc =
     (case kv_marshal ops v of
        None \<Rightarrow> fc
      | Some data \<Rightarrow> kv_set ops (cache_prefix @ key) data (nanos_to_seconds expiration) fc)"

definition mem_Delete :: "('fc, 'v) kv_ops \<Rightarrow> string list \<Rightarrow> 'fc \<Rightarrow> 'fc" where
  "mem_Delete ops keys fc = foldl (\<lambda>fc key. kv_del ops (cache_prefix @ key) fc) fc keys"

definition mem_DeletePattern :: "('fc, 'v) kv_ops \<Rightarrow> string \<Rightarrow> 'fc \<Rightarrow> 'fc" where
  "mem_DeletePattern ops pattern fc =
     foldl (\<lambda>fc key. if glob_match (cache_prefix @ pattern) key then kv_del ops key fc else fc)
       fc (kv_keys ops fc)"

locale kv_store =
  fixes ops :: "('fc, 'v) kv_ops"
  assumes kv_get_set: "kv_get ops k (kv_set ops k d t fc) = Some d' \<Longrightarrow> d' = d"
    and kv_get_set_other: "k' \<noteq> k \<Longrightarrow> kv_get ops k' (kv_set ops k d t fc) = Some d'
      \<Longrightarrow> kv_get ops k' fc = Some d'"
    and kv_get_del: "kv_get ops k (kv_del ops k fc) = None"
    and kv_get_del_other: "k' \<noteq> k \<Longrightarrow> kv_get ops k' (kv_del ops k fc) = kv_get ops k' fc"
    and kv_keys_get: "kv_get ops k fc \<noteq> None \<Longrightarrow> k \<in> set (kv_keys ops fc)"
    and kv_codec: "kv_marshal ops v = Some d \<Longrightarrow> kv_unmarshal ops d = Some v"

lemma glob_match_prefix:
  "CHR ''*'' \<notin> set p \<Longrightarrow> glob_match (p @ pat) (p @ s) = glob_match pat s"
  by (induction p) auto

context kv_store
begin

lemma kv_get_dels:
  "kv_get ops k (foldl (\<lambda>fc key. if P key then kv_del ops (f key) fc else fc) fc keys)
     = (if k \<in> f ` {key \<in> set keys. P key} then None else kv_get ops k fc)"
proof (induction keys arbitrary: fc)
  case (Cons a keys)
  show ?case
  proof (cases "P a")
    case True
    then show ?thesis using Cons.IH [of "kv_del ops (f a) fc"] kv_get_del kv_get_del_other
      by (cases "k = f a") auto
  next
    case False
    then have "{key \<in> set (a # keys). P key} = {key \<in> set keys. P key}" by auto
    with False Cons.IH [of fc] show ?thesis by simp
  qed
qed simp

lemma get_mem_Delete:
  "kv_get ops (cache_prefix @ k) (mem_Delete ops ks fc)
     = (if k \<in> set ks then None else kv_get ops (cache_prefix @ k) fc)"
  using kv_get_dels [of "cache_prefix @ k" "\<lambda>_. True" "\<lambda>key. cache_prefix @ key" fc ks]
  by (auto simp: mem_Delete_def image_iff)

lemma get_mem_DeletePattern:
  "kv_get ops k (mem_DeletePattern ops pat fc)
     = (if glob_match (cache_prefix @ pat) k then None else kv_get ops k fc)"
proof (cases "kv_get ops k fc")
  case None
  then show ?thesis
    using kv_get_dels [of k "glob_match (cache_prefix @ pat)" "\<lambda>key. key" fc "kv_keys ops fc"]
    by (simp add: mem_DeletePattern_def)
next
  case (Some d)
  then show ?thesis
    using kv_get_dels [of k "glob_match (cache_prefix @ pat)" "\<lambda>key. key" fc "kv_keys ops fc"]
      kv_keys_get [of k fc]
    by (simp add: mem_DeletePattern_def)
qed

lemma get_mem_Set:
  assumes "mem_Get ops k (mem_Set ops k v e fc) = Inr w"
  shows "w = v \<or> mem_Get ops k fc = Inr w"
proof (cases "kv_marshal ops v")
  case None
  with assms show ?thesis by (simp add: mem_Set_def)
next
  case (Some d)
  with assms obtain d' where d': "kv_get ops (cache_prefix @ k)
      (kv_set ops (cache_prefix @ k) d (nanos_to_seconds e) fc) = Some d'" "kv_unmarshal ops d' = Some w"
    by (auto simp: mem_Get_def mem_Set_def split: option.splits)
  from kv_get_set [OF d'(1)] d'(2) kv_codec [OF Some] show ?thesis by simp
qed

lemma get_mem_Set_other:
  assumes "k' \<noteq> k" "mem_Get ops k' (mem_Set ops k v e fc) = Inr w"
  shows "mem_Get ops k' fc = Inr w"
proof (cases "kv_marshal ops v")
  case None
  with assms show ?thesis by (simp add: mem_Set_def)
next
  case (Some d)
  with assms(2) obtain d' where d': "kv_get ops (cache_prefix @ k')
      (kv_set ops (cache_prefix @ k) d (nanos_to_seconds e) fc) = Some d'" "kv_unmarshal ops d' = Some w"
    by (auto simp: mem_Get_def mem_Set_def split: option.splits)
  from kv_get_set_other [OF _ d'(1)] assms(1) d'(2) show ?thesis by (simp add: mem_Get_def)
qed

end

sublocale kv_store \<subseteq> mem: cacher "mem_Get ops" "mem_Set ops" "mem_Delete ops" "mem_DeletePattern ops"
proof
  fix k v e s w
  assume "mem_Get ops k (mem_Set ops k v e s) = Inr w"
  then show "w = v \<or> mem_Get ops k s = Inr w" by (rule get_mem_Set)
next
  fix k k' v e s w
  assume "k' \<noteq> k" "mem_Get ops k' (mem_Set ops k v e s) = Inr w"
  then show "mem_Get ops k' s = Inr w" by (rule get_mem_Set_other)
next
  fix k :: string and ks s
  assume "k \<in> set ks"
  then show "mem_Get ops k (mem_Delete ops ks s) = Inl CacheMiss"
    by (simp add: mem_Get_def get_mem_Delete)
next
  fix k :: string and ks s w
  assume "k \<notin> set ks" "mem_Get ops k (mem_Delete ops ks s) = Inr w"
  then show "mem_Get ops k s = Inr w" by (simp add: mem_Get_def get_mem_Delete)
next
  fix pat k s
  assume "glob_match pat k"
  then show "mem_Get ops k (mem_DeletePattern ops pat s) = Inl CacheMiss"
    using get_mem_DeletePattern [of "cache_prefix @ k" pat s] glob_match_prefix [of cache_prefix pat k]
    by (simp add: mem_Get_def cache_prefix_def)
next
  fix k pat s w
  assume "mem_Get ops k (mem_DeletePattern ops pat s) = Inr w"
  then show "mem_Get ops k s = Inr w"
    using get_mem_DeletePattern [of "cache_prefix @ k" pat s]
    by (simp add: mem_Get_def split: if_splits)
qed


text \<open>A store with expiry: entries with the second they end (0 is never) and the clock.\<close>

record 'b kv_table =
  kv_entries :: "(string \<times> 'b \<times> int) list"
  kv_now :: int

definition kv_live :: "int \<Rightarrow> int \<Rightarrow> bool" where
  "kv_live now e \<longleftrightarrow> e = 0 \<or> now < e"

definition table_ops :: "('v \<Rightarrow> bytes) \<Rightarrow> (bytes \<Rightarrow> 'v option) \<Rightarrow> (bytes kv_table, 'v) kv_ops" where
  "table_ops enc dec = \<lparr>
     kv_get = (\<lambda>k t. case map_of (kv_entries t) k of None \<Rightarrow> None
        | Some (b, e) \<Rightarrow> if kv_live (kv_now t) e then Some b else None),
     kv_set = (\<lambda>k b ttl t. t\<lparr> kv_entries :=
        (k, b, if ttl \<le> 0 then 0 else kv_now t + ttl) # kv_entries t \<rparr>),
     kv_del = (\<lambda>k t. t\<lparr> kv_entries := filter (\<lambda>(k', _). k' \<noteq> k) (kv_entries t) \<rparr>),
     kv_keys = (\<lambda>t. map fst (kv_entries t)),
     kv_marshal = (\<lambda>v. Some (enc v)),
     kv_unmarshal = dec \<rparr>"

lemma map_of_filter_key:
  "map_of (filter (\<lambda>(k', _). k' \<noteq> k) es) k' = (if k' = k then None else map_of es k')"
  by (induction es) auto

lemma table_store:
  assumes "\<And>v. dec (enc v) = Some v"
  shows "kv_store (table_ops enc dec)"
proof
  fix k k' :: string and d d' t and fc :: "bytes kv_table"
  show "kv_get (table_ops enc dec) k (kv_set (table_ops enc dec) k d t fc) = Some d' \<Longrightarrow> d' = d"
    by (simp add: table_ops_def split: if_splits)
  show "k' \<noteq> k \<Longrightarrow> kv_get (table_ops enc dec) k' (kv_set (table_ops enc dec) k d t fc) = Some d'
      \<Longrightarrow> kv_get (table_ops enc dec) k' fc = Some d'"
    by (auto simp: table_ops_def split: option.splits if_splits)
  show "kv_get (table_ops enc dec) k (kv_del (table_ops enc dec) k fc) = None"
    by (simp add: table_ops_def map_of_filter_key)
  show "k' \<noteq> k \<Longrightarrow> kv_get (table_ops enc dec) k' (kv_del (table_ops enc dec) k fc)
      = kv_get (table_ops enc dec) k' fc"
    by (auto simp: table_ops_def map_of_filter_key split: option.splits)
  show "kv_get (table_ops enc dec) k fc \<noteq> None \<Longrightarrow> k \<in> set (kv_keys (table_ops enc dec) fc)"
    by (force simp: table_ops_def split: option.splits dest: map_of_SomeD)
qed (use assms in \<open>auto simp: table_ops_def\<close>)

interpretation bytes_store: kv_store "table_ops (\<lambda>b. b) Some"
  by (rule table_store) simp

section \<open>The cache of the services\<close>

text \<open>A map that holds what it is given until it is deleted: the entries are stored without expiry
  or outlive the run considered.\<close>

type_synonym 'v cmap = "string \<Rightarrow> 'v option"

definition cm_Get :: "string \<Rightarrow> 'v cmap \<Rightarrow> cache_err + 'v" where
  "cm_Get key c = (case c key of None \<Rightarrow> Inl CacheMiss | Some v \<Rightarrow> Inr v)"

definition cm_Set :: "string \<Rightarrow> 'v \<Rightarrow> int \<Rightarrow> 'v cmap \<Rightarrow> 'v cmap" where
  "cm_Set key v expiration c = c(key \<mapsto> v)"

definition cm_Delete :: "string list \<Rightarrow> 'v cmap \<Rightarrow> 'v cmap" where
  "cm_Delete keys c = (\<lambda>k. if k \<in> set keys then None else c k)"

definition cm_DeletePattern :: "string \<Rightarrow> 'v cmap \<Rightarrow> 'v cmap" where
  "cm_DeletePattern pattern c = (\<lambda>k. if glob_match pattern k then None else c k)"

lemmas cm_defs = cm_Get_def cm_Set_def cm_Delete_def cm_DeletePattern_def

interpretation cm: cacher cm_Get cm_Set cm_Delete cm_DeletePattern
  by unfold_locales (auto simp: cm_defs split: option.splits if_splits)

section \<open>Theorems\<close>

lemma show_nat_no_colon: "c \<in> set (show_nat n) \<Longrightarrow> c \<noteq> CHR '':'' \<and> c \<noteq> CHR ''/'' \<and> c \<noteq> CHR ''*''"
proof (induction n rule: show_nat.induct)
  case (1 n)
  have d: "digit_char m \<noteq> CHR '':'' \<and> digit_char m \<noteq> CHR ''/'' \<and> digit_char m \<noteq> CHR ''*''"
    if "m < 10" for m
  proof -
    have v: "of_char (digit_char m) = (48 + m :: nat)" using that by (simp add: digit_char_def)
    have "of_char CHR '':'' = (58::nat)" "of_char CHR ''/'' = (47::nat)" "of_char CHR ''*'' = (42::nat)"
      by simp_all
    with v that have "of_char (digit_char m) \<noteq> (of_char CHR '':'' :: nat)"
      "of_char (digit_char m) \<noteq> (of_char CHR ''/'' :: nat)" "of_char (digit_char m) \<noteq> (of_char CHR ''*'' :: nat)"
      by simp_all
    then show ?thesis by auto
  qed
  show ?case
  proof (cases "n < 10")
    case True
    then have "show_nat n = [digit_char n]" by (subst show_nat.simps) simp
    with 1(2) d [OF True] show ?thesis by simp
  next
    case False
    then have "show_nat n = show_nat (n div 10) @ [digit_char (n mod 10)]" by (subst show_nat.simps) simp
    then have "c \<in> set (show_nat (n div 10)) \<or> c = digit_char (n mod 10)" using 1(2) by auto
    with 1(1) [OF False] d [of "n mod 10"] show ?thesis by auto
  qed
qed

lemma Join_colon_inject:
  assumes "Join xs '':'' = Join ys '':''" "xs \<noteq> []" "ys \<noteq> []"
    "\<forall>x \<in> set xs \<union> set ys. CHR '':'' \<notin> set x"
  shows "xs = ys"
proof -
  have "Split (Join xs [CHR '':'']) CHR '':'' = xs" by (rule Split_Join) (use assms(2-4) in auto)
  moreover have "Split (Join ys [CHR '':'']) CHR '':'' = ys" by (rule Split_Join) (use assms(2-4) in auto)
  ultimately show ?thesis using assms(1) by metis
qed

text \<open>
  Cache keys do not collide: two keys made of parts without colons are equal only if they are made of
  the same parts. So the families of keys (\<open>KeyFile\<close>, \<open>KeyFileMessages\<close>, \<open>KeyShare\<close>, ...) are
  disjoint for the ids in use, which are numbers and UUIDs.
\<close>

theorem Key_inject:
  assumes "Key as = Key bs" "as \<noteq> []" "bs \<noteq> []"
    "\<forall>v \<in> set as \<union> set bs. CHR '':'' \<notin> set (formatValue v)"
  shows "map formatValue as = map formatValue bs"
  using assms by (intro Join_colon_inject) (auto simp: Key_def)

lemma show_5: "show_int 5 = ''5''"
  by (simp add: show_int_def show_nat.simps [of 5] digit_char_def char_of_def bit_iff_odd)

theorem Key_inject_witness:
  "map formatValue [VStr ''users'', VInt 5] = map formatValue [VStr ''users'', VStr ''5'']"
proof (rule Key_inject)
  show "Key [VStr ''users'', VInt 5] = Key [VStr ''users'', VStr ''5'']" by (simp add: Key_def show_5)
  show "\<forall>v \<in> set [VStr ''users'', VInt 5] \<union> set [VStr ''users'', VStr ''5''].
      CHR '':'' \<notin> set (formatValue v)" by (simp add: show_5)
qed simp_all

lemma glob_star_end: "glob_match ''*'' s \<longleftrightarrow> CHR ''/'' \<notin> set s"
  by (induction s) auto

lemma glob_match_literal:
  assumes "CHR ''*'' \<notin> set p"
  shows "glob_match (p @ ''*'') s \<longleftrightarrow> (\<exists>t. s = p @ t \<and> CHR ''/'' \<notin> set t)"
  using assms
proof (induction p arbitrary: s)
  case Nil
  then show ?case by (simp add: glob_star_end)
next
  case (Cons c p)
  then show ?case by (cases s) auto
qed

lemma append_colon_inject:
  assumes "f @ CHR '':'' # s = f' @ CHR '':'' # s'" "CHR '':'' \<notin> set f" "CHR '':'' \<notin> set f'"
  shows "f = f'"
  using assms
proof (induction f arbitrary: f')
  case Nil
  then show ?case by (cases f') auto
next
  case (Cons c f)
  then show ?case by (cases f') auto
qed

text \<open>
  Invalidating the locations of a file removes the entries of this file, for every bot, instance and
  part, and of no other file: the pattern matches a location key if and only if it is a key of the
  file, for ids without the separator.
\<close>

theorem KeyFileLocationPattern_exact:
  assumes "CHR '':'' \<notin> set f" "CHR '':'' \<notin> set f'" "CHR ''*'' \<notin> set f"
    "CHR ''/'' \<notin> set inst" "CHR ''/'' \<notin> set botID" "CHR ''/'' \<notin> set (formatValue part)"
  shows "glob_match (KeyFileLocationPattern f) (KeyFileLocation inst botID f' part) \<longleftrightarrow> f = f'"
proof -
  define pre where "pre = ''files:location:bot:instance:''"
  define rest where "rest = formatValue part @ '':'' @ botID @ '':'' @ inst"
  have k: "KeyFileLocationPattern f = (pre @ f @ '':'') @ ''*''"
    "KeyFileLocation inst botID f' part = pre @ f' @ '':'' @ rest"
    by (simp_all add: KeyFileLocationPattern_def KeyFileLocation_def Key_def pre_def rest_def)
  have pat: "CHR ''*'' \<notin> set (pre @ f @ '':'')" using assms(3) by (simp add: pre_def)
  have rest: "CHR ''/'' \<notin> set rest" using assms by (simp add: rest_def)
  have "glob_match (KeyFileLocationPattern f) (KeyFileLocation inst botID f' part)
      \<longleftrightarrow> (\<exists>t. f' @ '':'' @ rest = f @ '':'' @ t \<and> CHR ''/'' \<notin> set t)"
    unfolding k glob_match_literal [OF pat] by simp
  also have "\<dots> \<longleftrightarrow> f = f'"
    using append_colon_inject [of f' rest f] assms(1,2) rest by auto
  finally show ?thesis .
qed

theorem KeyFileLocationPattern_exact_witness:
  "glob_match (KeyFileLocationPattern ''a1'') (KeyFileLocation ''main'' ''77'' ''a1'' (VInt 5))
   \<and> \<not> glob_match (KeyFileLocationPattern ''a1'') (KeyFileLocation ''main'' ''77'' ''a12'' (VInt 5))"
proof -
  have "formatValue (VInt 5) = ''5''" by (simp add: show_5)
  then show ?thesis
    using KeyFileLocationPattern_exact [of "''a1''" "''a1''" "''main''" "''77''" "VInt 5"]
      KeyFileLocationPattern_exact [of "''a1''" "''a12''" "''main''" "''77''" "VInt 5"]
    by simp
qed

context kv_store
begin

lemma mem_coherent_cycle:
  assumes "\<forall>k v. mem_Get ops k fc = Inr v \<longrightarrow> src k = Some v"
    and "\<forall>k. k \<notin> set keys \<longrightarrow> src' k = src k"
    and "\<forall>c. fn c = ((case src' key of None \<Rightarrow> Inl e | Some v \<Rightarrow> Inr v), c)"
    and "Fetch (mem_Get ops) (mem_Set ops) key ttl fn (mem_Delete ops keys fc) = (res, fc')"
  shows "(\<forall>v. res = Inr v \<longrightarrow> src' key = Some v)
    \<and> (\<forall>k v. mem_Get ops k fc' = Inr v \<longrightarrow> src' k = Some v)"
proof -
  have "mem.coherent src fc" using assms(1) by (simp add: mem.coherent_def)
  then have c: "mem.coherent src' (mem_Delete ops keys fc)"
    by (rule mem.coherent_delete) (use assms(2) in simp)
  have f: "fn c = ((case src' key of None \<Rightarrow> Inl e | Some v \<Rightarrow> Inr v), c)" for c
    using assms(3) by blast
  from mem.Fetch_coherent(1) [OF c f, of ttl] mem.Fetch_coherent(2) [OF c f, of ttl] assms(4)
  show ?thesis by (simp add: mem.coherent_def)
qed

end


definition demo_cache :: "bytes kv_table" where
  "demo_cache = mem_Set (table_ops (\<lambda>b. b) Some) (KeyFile ''a1'') [1] 0 \<lparr> kv_entries = [], kv_now = 7 \<rparr>"

lemma demo_cache_get:
  "mem_Get (table_ops (\<lambda>b. b) Some) k demo_cache = (if k = KeyFile ''a1'' then Inr [1] else Inl CacheMiss)"
  by (auto simp: demo_cache_def mem_Get_def mem_Set_def table_ops_def nanos_to_seconds_def kv_live_def)


end
