(* ===== verification/Service.thy ===== *)
theory Service
  imports FileMeta Cache "HOL-Library.Product_Lexorder"
begin

text \<open>
  The state the services of pkg/services share: the tables of files, uploads and shares, the cache and
  the recorded events; the errors handlers return and the status \<open>NewError\<close> gives them. The store
  does what a statement says or refuses it for the unique index of the table; failures of the
  connection are not modelled. A transaction that fails leaves the state as it was.
\<close>

section \<open>Rows\<close>

record UploadRow =
  u_uploadId :: string
  u_user :: int
  u_name :: string
  u_partNo :: int
  u_partId :: int
  u_encrypted :: bool
  u_salt :: string
  u_blockHashes :: bytes
  u_channel :: int
  u_size :: int
  u_created :: int

record FileShare =
  sh_id :: string
  sh_file :: string
  sh_password :: "string option"
  sh_expires :: "int option"
  sh_code :: "string option"
  sh_block :: bool
  sh_always :: bool
  sh_zip :: bool
  sh_user :: int

text \<open>\<open>fileShare\<close>: a share with the type and name of its file and the file's full path.\<close>

record fileShare =
  fs_row :: FileShare
  fs_type :: string
  fs_name :: string
  fs_path :: string

record SessionRow =
  se_user :: int
  se_hash :: string
  se_date :: int
  se_session :: string
  se_created :: int

record BotRow =
  bo_token :: string
  bo_user :: int
  bo_id :: int

record ChannelRow =
  ch_id :: int
  ch_name :: string
  ch_user :: int
  ch_selected :: bool
  ch_created :: int

record UserRow =
  us_id :: int
  us_name :: string
  us_userName :: string
  us_premium :: bool

record Source =
  src_id :: string
  src_type :: string
  src_name :: string
  src_parent :: string
  src_dest :: string

datatype event_op = OpCreate | OpUpdate | OpDelete | OpMove | OpCopy

record Event =
  ev_type :: event_op
  ev_user :: int
  ev_source :: Source

text \<open>What the services keep in the cache.\<close>

datatype cval = CFile FileRow | CShare fileShare | CText string | CNum int | CSession SessionRow | CTokens "string list"

record svc =
  sv_files :: "FileRow list"
  sv_uploads :: "UploadRow list"
  sv_shares :: "FileShare list"
  sv_cache :: "cval cmap"
  sv_events :: "Event list"

section \<open>Errors\<close>

text \<open>\<open>ApiErr e c\<close> is \<open>&apiError{err: e, code: c}\<close>; no code is 0.\<close>

datatype svc_err =
    EMsg string
  | ERecordNotFound
  | ENotFound
  | EKeyConflict
  | EShareNotFound
  | EShareExpired
  | EInvalidPassword
  | EEmptyAuth
  | EShortCodeTaken
  | EShortCodeInvalid string
  | ECache
  | ApiErr svc_err nat

fun api_code :: "svc_err \<Rightarrow> nat option" where
  "api_code (ApiErr e c) = Some c"
| "api_code _ = None"

text \<open>The status code of the response \<open>NewError\<close> makes.\<close>

definition NewError_status :: "svc_err \<Rightarrow> nat" where
  "NewError_status err = (case api_code err of None \<Rightarrow> 500 | Some c \<Rightarrow> if c = 0 then 500 else c)"

text \<open>\<open>errors.Is\<close> looks through \<open>Unwrap\<close>.\<close>

fun err_Is :: "svc_err \<Rightarrow> svc_err \<Rightarrow> bool" where
  "err_Is (ApiErr e c) t = (ApiErr e c = t \<or> err_Is e t)"
| "err_Is e t = (e = t)"

section \<open>The unique index of the file table\<close>

abbreviation nil_uuid :: string where
  "nil_uuid \<equiv> ''00000000-0000-0000-0000-000000000000''"

definition coalesce_parent :: "string option \<Rightarrow> string" where
  "coalesce_parent p = (case p of None \<Rightarrow> nil_uuid | Some i \<Rightarrow> i)"

text \<open>\<open>(name, COALESCE(parent_id, nil), user_id) WHERE status = 'active'\<close>.\<close>

definition index_key :: "FileRow \<Rightarrow> string \<times> string \<times> int" where
  "index_key f = (f_name f, coalesce_parent (f_parent f), f_user f)"

definition is_active :: "FileRow \<Rightarrow> bool" where
  "is_active f \<longleftrightarrow> f_status f = ACTIVE"

definition index_ok :: "FileRow list \<Rightarrow> bool" where
  "index_ok rows \<longleftrightarrow> distinct (map index_key (filter is_active rows))"

text \<open>The invariant of the tables: the primary key and the unique index.\<close>

definition files_ok :: "FileRow list \<Rightarrow> bool" where
  "files_ok rows \<longleftrightarrow> distinct (map f_id rows) \<and> index_ok rows"

lemma index_ok_unique:
  assumes "index_ok rows" "f \<in> set rows" "g \<in> set rows" "is_active f" "is_active g" "index_key f = index_key g"
  shows "f = g"
  using assms unfolding index_ok_def by (auto simp: distinct_map inj_on_def)

lemma ids_unique: "files_ok rows \<Longrightarrow> f \<in> set rows \<Longrightarrow> g \<in> set rows \<Longrightarrow> f_id f = f_id g \<Longrightarrow> f = g"
  unfolding files_ok_def by (auto simp: distinct_map inj_on_def)

lemma update_where_length [simp]: "length (update_where P g rows) = length rows"
  by (simp add: update_where_def)

lemma update_where_ids:
  "\<forall>f. f_id (g f) = f_id f \<Longrightarrow> map f_id (update_where P g rows) = map f_id rows"
  by (induction rows) (auto simp: update_where_def)

lemma set_update_where:
  "set (update_where P g rows) = {f \<in> set rows. \<not> P f} \<union> g ` {f \<in> set rows. P f}"
  by (auto simp: update_where_def)

lemma update_where_key:
  assumes "\<And>f. f \<in> set rows \<Longrightarrow> P f \<Longrightarrow> is_active (g f) = is_active f \<and> index_key (g f) = index_key f"
  shows "map index_key (filter is_active (update_where P g rows)) = map index_key (filter is_active rows)"
  using assms by (induction rows) (auto simp: update_where_def)

lemma row_eqI_where: "first_where P rows = Some f \<Longrightarrow> f \<in> set rows \<and> P f"
  by (auto simp: first_where_def find_Some_iff)

lemma first_where_None: "first_where P rows = None \<longleftrightarrow> (\<forall>f \<in> set rows. \<not> P f)"
  by (auto simp: first_where_def find_None_iff)

section \<open>Cache and events\<close>

definition cache_Delete :: "string list \<Rightarrow> svc \<Rightarrow> svc" where
  "cache_Delete keys s = s\<lparr> sv_cache := cm_Delete keys (sv_cache s) \<rparr>"

definition cache_DeletePattern :: "string \<Rightarrow> svc \<Rightarrow> svc" where
  "cache_DeletePattern pattern s = s\<lparr> sv_cache := cm_DeletePattern pattern (sv_cache s) \<rparr>"

definition record_event :: "event_op \<Rightarrow> int \<Rightarrow> Source \<Rightarrow> svc \<Rightarrow> svc" where
  "record_event op uid src s = s\<lparr> sv_events := sv_events s @ [\<lparr> ev_type = op, ev_user = uid, ev_source = src \<rparr>] \<rparr>"

text \<open>
  The foreign keys when rows of the file table are deleted and \<open>rows\<close> are left: a reference to a deleted row
  is set to NULL, a share of it is deleted with it.
\<close>

definition unref :: "string set \<Rightarrow> FileRow \<Rightarrow> FileRow" where
  "unref dead f = (case f_ref f of None \<Rightarrow> f | Some i \<Rightarrow> if i \<in> dead then f\<lparr> f_ref := None \<rparr> else f)"

definition cascade :: "FileRow list \<Rightarrow> svc \<Rightarrow> svc" where
  "cascade rows s =
     (let dead = f_id ` set (sv_files s) - f_id ` set rows
      in s\<lparr> sv_files := map (unref dead) rows, sv_shares := filter (\<lambda>sh. sh_file sh \<notin> dead) (sv_shares s) \<rparr>)"

lemma cascade_simps [simp]:
  "sv_files (cascade rows s) = map (unref (f_id ` set (sv_files s) - f_id ` set rows)) rows"
  "sv_shares (cascade rows s) = filter (\<lambda>sh. sh_file sh \<notin> f_id ` set (sv_files s) - f_id ` set rows) (sv_shares s)"
  "sv_uploads (cascade rows s) = sv_uploads s" "sv_cache (cascade rows s) = sv_cache s"
  "sv_events (cascade rows s) = sv_events s"
  by (simp_all add: cascade_def Let_def)

lemma unref_fields [simp]:
  "f_id (unref D f) = f_id f" "f_status (unref D f) = f_status f" "f_type (unref D f) = f_type f"
  "f_user (unref D f) = f_user f" "f_parts (unref D f) = f_parts f" "f_channel (unref D f) = f_channel f"
  "f_encrypted (unref D f) = f_encrypted f" "f_parent (unref D f) = f_parent f" "f_name (unref D f) = f_name f"
  by (simp_all add: unref_def split: option.splits)

lemma unref_empty [simp]: "unref {} f = f"
  by (simp add: unref_def split: option.splits)

lemma unref_unref [simp]: "unref D (unref E f) = unref (E \<union> D) f"
  by (auto simp: unref_def split: option.splits)

lemma unref_ref: "\<exists>ref. unref D f = f\<lparr> f_ref := ref \<rparr>"
proof -
  have "f = f\<lparr> f_ref := f_ref f \<rparr>" by simp
  then have "\<exists>ref. f = f\<lparr> f_ref := ref \<rparr>" by (rule exI [of "\<lambda>ref. f = f\<lparr> f_ref := ref \<rparr>"])
  then show ?thesis unfolding unref_def by (cases "f_ref f") auto
qed

lemma cascade_keeps: "f \<in> set rows \<Longrightarrow> \<exists>ref. f\<lparr> f_ref := ref \<rparr> \<in> set (sv_files (cascade rows s))"
proof -
  assume f: "f \<in> set rows"
  obtain ref where "unref (f_id ` set (sv_files s) - f_id ` set rows) f = f\<lparr> f_ref := ref \<rparr>" using unref_ref by blast
  with f show ?thesis by (metis cascade_simps(1) image_eqI list.set_map)
qed

definition opt_str :: "string option \<Rightarrow> string" where
  "opt_str s = (case s of None \<Rightarrow> '''' | Some s \<Rightarrow> s)"

lemma svc_aux [simp]:
  "sv_files (cache_Delete ks s) = sv_files s" "sv_uploads (cache_Delete ks s) = sv_uploads s"
  "sv_shares (cache_Delete ks s) = sv_shares s" "sv_events (cache_Delete ks s) = sv_events s"
  "sv_cache (cache_Delete ks s) = cm_Delete ks (sv_cache s)"
  "sv_files (cache_DeletePattern p s) = sv_files s" "sv_uploads (cache_DeletePattern p s) = sv_uploads s"
  "sv_shares (cache_DeletePattern p s) = sv_shares s" "sv_events (cache_DeletePattern p s) = sv_events s"
  "sv_cache (cache_DeletePattern p s) = cm_DeletePattern p (sv_cache s)"
  "sv_files (record_event op u src s) = sv_files s" "sv_uploads (record_event op u src s) = sv_uploads s"
  "sv_shares (record_event op u src s) = sv_shares s" "sv_cache (record_event op u src s) = sv_cache s"
  "sv_events (record_event op u src s) = sv_events s @ [\<lparr> ev_type = op, ev_user = u, ev_source = src \<rparr>]"
  by (simp_all add: cache_Delete_def cache_DeletePattern_def record_event_def)

end
