(* ===== verification/QueryBuilder.thy ===== *)
theory QueryBuilder
  imports Service
begin

text \<open>
  pkg/services/file_query_builder.go: listing and finding files. A query is the conjunction of its
  conditions on a row; a condition that is NULL for a row does not select it. The sort order of text
  is that of its bytes. Full text search, the SQL function for paths and the resolution of a path to a
  folder are parameters here.
\<close>

section \<open>Parameters of a request\<close>

datatype file_sort = SortName | SortUpdatedAt | SortSize | SortID | SortOther

datatype file_order = Asc | Desc | OrderOther

datatype search_type = SearchText | SearchRegex | SearchOther

datatype file_operation = OpList | OpFind | OpNone

record FilesListParams =
  q_status :: string
  q_operation :: file_operation
  q_path :: string
  q_parent :: string
  q_deep :: bool
  q_query :: string
  q_search :: search_type
  q_updated :: string
  q_category :: "string list"
  q_name :: string
  q_type :: string
  q_shared :: bool
  q_starred :: "bool option"
  q_sort :: file_sort
  q_order :: file_order
  q_limit :: nat
  q_page :: nat

section \<open>Dates\<close>

text \<open>\<open>time.Parse(time.DateOnly, s)\<close>: the seconds since 1970 of \<open>yyyy-mm-dd\<close> at midnight.\<close>

definition leap_year :: "nat \<Rightarrow> bool" where
  "leap_year y \<longleftrightarrow> y mod 4 = 0 \<and> (y mod 100 \<noteq> 0 \<or> y mod 400 = 0)"

definition month_days :: "nat \<Rightarrow> nat \<Rightarrow> nat" where
  "month_days y m = (if m = 2 then if leap_year y then 29 else 28
     else if m \<in> {4, 6, 9, 11} then 30 else 31)"

definition days_of_date :: "nat \<Rightarrow> nat \<Rightarrow> nat \<Rightarrow> int" where
  "days_of_date y m d =
     365 * int y + (int y + 3) div 4 - (int y + 99) div 100 + (int y + 399) div 400
       + int (sum_list (map (month_days y) [1..<m])) + int d - 1 - 719528"

definition digit_of :: "char \<Rightarrow> nat option" where
  "digit_of c = (let n = of_char c in if 48 \<le> n \<and> n \<le> (57::nat) then Some (n - 48) else None)"

fun number_of :: "nat \<Rightarrow> string \<Rightarrow> nat option" where
  "number_of acc [] = Some acc"
| "number_of acc (c # cs) = (case digit_of c of None \<Rightarrow> None | Some d \<Rightarrow> number_of (acc * 10 + d) cs)"

definition parse_date :: "string \<Rightarrow> int option" where
  "parse_date s =
     (if length s \<noteq> 10 \<or> s ! 4 \<noteq> CHR ''-'' \<or> s ! 7 \<noteq> CHR ''-'' then None
      else case (number_of 0 (take 4 s), number_of 0 (take 2 (drop 5 s)), number_of 0 (drop 8 s)) of
        (Some y, Some m, Some d) \<Rightarrow>
          if 1 \<le> m \<and> m \<le> 12 \<and> 1 \<le> d \<and> d \<le> month_days y m then Some (days_of_date y m d * 86400) else None
      | _ \<Rightarrow> None)"

section \<open>Conditions\<close>

type_synonym cond = "FileRow \<Rightarrow> bool"

definition applySingleDateFilter :: "string \<Rightarrow> cond" where
  "applySingleDateFilter dateFilter f =
     (case Split dateFilter CHR '':'' of
        [op, date] \<Rightarrow>
          (case parse_date date of
             None \<Rightarrow> True
           | Some t \<Rightarrow>
               if op = ''gte'' then f_updated f \<ge> t
               else if op = ''lte'' then f_updated f \<le> t
               else if op = ''eq'' then f_updated f = t
               else if op = ''gt'' then f_updated f > t
               else if op = ''lt'' then f_updated f < t
               else True)
      | _ \<Rightarrow> True)"

definition applyDateFilters :: "string \<Rightarrow> cond" where
  "applyDateFilters dateFilters f =
     list_all (\<lambda>d. applySingleDateFilter d f) (Split dateFilters CHR '','')"

definition applySearchQuery :: "(search_type \<Rightarrow> string \<Rightarrow> string \<Rightarrow> bool) \<Rightarrow> FilesListParams \<Rightarrow> cond" where
  "applySearchQuery search q f =
     (case q_search q of
        SearchText \<Rightarrow> search SearchText (q_query q) (f_name f)
      | SearchRegex \<Rightarrow> search SearchRegex (q_query q) (f_name f)
      | SearchOther \<Rightarrow> True)"

definition category_cond :: "string \<Rightarrow> cond" where
  "category_cond c f = (if c = ''folder'' then f_type f = c else f_category f = Some c)"

definition applyCategoryFilter :: "string list \<Rightarrow> cond" where
  "applyCategoryFilter categories f =
     (case categories of [] \<Rightarrow> True | c # cs \<Rightarrow> category_cond c f \<or> list_ex (\<lambda>c. category_cond c f) cs)"

text \<open>\<open>resolved\<close> is \<open>resolvePathID\<close> of the request's path.\<close>

definition parent_cond :: "string option \<Rightarrow> cond" where
  "parent_cond resolved f = (case resolved of None \<Rightarrow> False | Some i \<Rightarrow> f_parent f = Some i)"

definition applyListFilters :: "string option \<Rightarrow> FilesListParams \<Rightarrow> cond" where
  "applyListFilters resolved q f =
     ((q_path q \<noteq> '''' \<and> q_parent q = '''' \<longrightarrow> parent_cond resolved f)
      \<and> (q_parent q \<noteq> '''' \<longrightarrow> f_parent f = Some (q_parent q)))"

definition applyFileSpecificFilters ::
    "string option \<Rightarrow> string list \<Rightarrow> FilesListParams \<Rightarrow> cond" where
  "applyFileSpecificFilters resolved shared q f =
     ((q_name q \<noteq> '''' \<longrightarrow> f_name f = q_name q)
      \<and> (q_parent q \<noteq> '''' \<longrightarrow> (if q_parent q = ''nil'' then f_parent f = None else f_parent f = Some (q_parent q)))
      \<and> (if q_parent q = '''' \<and> q_path q \<noteq> '''' \<and> q_query q = '''' \<and> resolved = None then False
         else (q_parent q = '''' \<and> q_path q \<noteq> '''' \<and> q_query q = '''' \<longrightarrow> parent_cond resolved f)
           \<and> (q_type q \<noteq> '''' \<longrightarrow> f_type f = q_type q)
           \<and> (q_shared q \<longrightarrow> f_id f \<in> set shared)
           \<and> (case q_starred q of None \<Rightarrow> True | Some b \<Rightarrow> f_starred f = Some b)))"

definition deep_search :: "FilesListParams \<Rightarrow> bool" where
  "deep_search q \<longleftrightarrow> q_deep q \<and> q_query q \<noteq> '''' \<and> q_path q \<noteq> ''''"

definition applyFindFilters ::
    "(search_type \<Rightarrow> string \<Rightarrow> string \<Rightarrow> bool) \<Rightarrow> string option \<Rightarrow> string list \<Rightarrow> string list
     \<Rightarrow> FilesListParams \<Rightarrow> cond" where
  "applyFindFilters search resolved subdirs shared q f =
     ((deep_search q \<longrightarrow> f_id f \<in> set subdirs)
      \<and> (q_updated q \<noteq> '''' \<longrightarrow> applyDateFilters (q_updated q) f)
      \<and> (q_query q \<noteq> '''' \<longrightarrow> applySearchQuery search q f)
      \<and> applyCategoryFilter (q_category q) f
      \<and> applyFileSpecificFilters resolved shared q f)"

section \<open>Order and pages\<close>

text \<open>A sort value is a number or a text; NULL is \<open>None\<close>.\<close>

type_synonym sort_val = "int \<times> string"

definition getValidSortField :: "file_sort \<Rightarrow> file_sort" where
  "getValidSortField s = (case s of SortOther \<Rightarrow> SortUpdatedAt | _ \<Rightarrow> s)"

definition getValidOrderDirection :: "file_order \<Rightarrow> file_order" where
  "getValidOrderDirection d = (case d of Asc \<Rightarrow> Asc | _ \<Rightarrow> Desc)"

fun sort_val :: "file_sort \<Rightarrow> FileRow \<Rightarrow> sort_val option" where
  "sort_val SortName f = Some (0, f_name f)"
| "sort_val SortUpdatedAt f = Some (f_updated f, '''')"
| "sort_val SortSize f = map_option (\<lambda>n. (n, '''')) (f_size f)"
| "sort_val SortID f = Some (0, f_id f)"
| "sort_val SortOther f = Some (f_updated f, '''')"

text \<open>Ascending order has NULL last, descending order NULL first.\<close>

definition order_key :: "file_sort \<Rightarrow> FileRow \<Rightarrow> bool \<times> sort_val" where
  "order_key s f = (case sort_val s f of None \<Rightarrow> (True, (0, '''')) | Some v \<Rightarrow> (False, v))"

definition order_rows :: "file_sort \<Rightarrow> file_order \<Rightarrow> FileRow list \<Rightarrow> FileRow list" where
  "order_rows s d rows =
     (if d = Asc then sort_key (order_key s) rows else rev (sort_key (order_key s) (rev rows)))"

text \<open>The comparison of \<open>getOrderOperation\<close>; with a NULL it is not true.\<close>

definition order_operation :: "FilesListParams \<Rightarrow> sort_val option \<Rightarrow> sort_val option \<Rightarrow> bool" where
  "order_operation q a b =
     (case (a, b) of
        (Some x, Some y) \<Rightarrow>
          if q_page q = 1 then (if q_order q = Asc then x \<ge> y else x \<le> y)
          else (if q_order q = Asc then x > y else x < y)
      | _ \<Rightarrow> False)"

text \<open>The value of the row with a rank (from 1); NULL without such a row.\<close>

definition rank_value :: "file_sort \<Rightarrow> FileRow list \<Rightarrow> nat \<Rightarrow> sort_val option" where
  "rank_value s ranked r = (if 1 \<le> r \<and> r \<le> length ranked then sort_val s (ranked ! (r - 1)) else None)"

definition buildFileQuery :: "cond \<Rightarrow> FilesListParams \<Rightarrow> FileRow list \<Rightarrow> FileRow list \<times> nat" where
  "buildFileQuery query q rows =
     (let orderField = getValidSortField (q_sort q);
          orderDir = getValidOrderDirection (q_order q);
          ranked = order_rows orderField orderDir (filter query rows);
          bound = rank_value orderField ranked (max ((q_page q - 1) * q_limit q) 1)
      in (take (q_limit q) (order_rows orderField orderDir
            (filter (\<lambda>f. order_operation q (sort_val orderField f) bound \<and> query f) rows)),
          length ranked))"

section \<open>The query\<close>

record FileList =
  fl_items :: "FileOut list"
  fl_count :: nat
  fl_pages :: "nat option"
  fl_page :: nat

definition file_conditions ::
    "(search_type \<Rightarrow> string \<Rightarrow> string \<Rightarrow> bool) \<Rightarrow> string option \<Rightarrow> string list \<Rightarrow> string list
     \<Rightarrow> FilesListParams \<Rightarrow> int \<Rightarrow> cond" where
  "file_conditions search resolved subdirs shared q userId f =
     (f_user f = userId \<and> f_status f = q_status q
      \<and> (case q_operation q of
           OpList \<Rightarrow> applyListFilters resolved q f
         | OpFind \<Rightarrow> applyFindFilters search resolved subdirs shared q f
         | OpNone \<Rightarrow> True))"

text \<open>The folders below the path, for a deep search: the recursion of \<open>buildSubqueryCTE\<close>.\<close>

definition subdirs_of :: "FileRow list \<Rightarrow> string option \<Rightarrow> string list option" where
  "subdirs_of rows resolved =
     target_levels rows (case resolved of
        None \<Rightarrow> map f_id (filter (\<lambda>f. f_parent f = None) rows)
      | Some i \<Rightarrow> map f_id (filter (\<lambda>f. f_id f = i) rows)) []"

text \<open>
  \<open>path_of\<close> is the SQL function \<open>get_path_from_file_id\<close>. \<open>None\<close> is a deep search that does not end or
  a row without the flags \<open>ToFileOut\<close> dereferences; the number of pages is \<open>None\<close> for a limit of zero.
\<close>

definition qb_execute ::
    "(search_type \<Rightarrow> string \<Rightarrow> string \<Rightarrow> bool) \<Rightarrow> (string \<Rightarrow> string) \<Rightarrow> FilesListParams \<Rightarrow> int \<Rightarrow> svc
     \<Rightarrow> (svc_err + FileList) option" where
  "qb_execute search path_of q userId s =
     (let rows = sv_files s;
          resolved = (if q_path q = '''' then None else resolvePathID rows (q_path q) userId);
          shared = map sh_file (filter (\<lambda>sh. sh_user sh = userId) (sv_shares s))
      in Option.bind (if q_operation q = OpFind \<and> deep_search q then subdirs_of rows resolved else Some [])
        (\<lambda>subdirs.
          let (res, total) = buildFileQuery (file_conditions search resolved subdirs shared q userId) q rows;
              count = (if res \<noteq> [] then total else 0)
          in if list_all (\<lambda>f. ToFileOut f \<noteq> None) res
             then Some (Inr \<lparr> fl_items = utils_Map res (\<lambda>f. (the (ToFileOut f))\<lparr> o_path := Some (path_of (f_id f)) \<rparr>),
                    fl_count = count,
                    fl_pages = (if q_limit q = 0 then None else Some ((count + q_limit q - 1) div q_limit q)),
                    fl_page = q_page q \<rparr>)
             else None))"

section \<open>Pages\<close>

lemma filter_order_rows: "filter P (order_rows s d rows) = order_rows s d (filter P rows)"
  by (simp add: order_rows_def filter_sort rev_filter [symmetric])

lemma set_order_rows [simp]: "set (order_rows s d rows) = set rows"
  by (simp add: order_rows_def)

lemma length_order_rows [simp]: "length (order_rows s d rows) = length rows"
  by (simp add: order_rows_def)

text \<open>\<open>before s d\<close>: the order in which rows with different values appear.\<close>

definition before :: "file_sort \<Rightarrow> file_order \<Rightarrow> FileRow \<Rightarrow> FileRow \<Rightarrow> bool" where
  "before s d f g \<longleftrightarrow> (if d = Asc then order_key s f < order_key s g else order_key s g < order_key s f)"

lemma before_Asc: "before s Asc = (\<lambda>f g. order_key s f < order_key s g)"
  by (intro ext) (simp add: before_def)

lemma before_not_Asc: "d \<noteq> Asc \<Longrightarrow> before s d = (\<lambda>f g. order_key s g < order_key s f)"
  by (intro ext) (simp add: before_def)

lemma order_operation_NULL [simp]: "\<not> order_operation q a None" "\<not> order_operation q None b"
  by (simp_all add: order_operation_def split: option.split)

lemma before_asym: "before s d f g \<Longrightarrow> \<not> before s d g f"
  by (auto simp: before_def split: if_splits)

lemma order_rows_sorted:
  assumes "distinct (map (order_key s) rows)"
  shows "sorted_wrt (before s d) (order_rows s d rows)"
proof -
  have strict: "sorted_wrt (\<lambda>f g. order_key s f < order_key s g) (sort_key (order_key s) xs)"
    if "distinct (map (order_key s) xs)" for xs
  proof -
    have "sorted (map (order_key s) (sort_key (order_key s) xs))" by simp
    moreover have "distinct (map (order_key s) (sort_key (order_key s) xs))"
    proof -
      have "distinct (sort_key (order_key s) xs)" using that by (simp add: distinct_map)
      then show ?thesis using that by (simp add: distinct_map)
    qed
    ultimately have "sorted_wrt (<) (map (order_key s) (sort_key (order_key s) xs))"
      by (simp add: strict_sorted_iff)
    then show ?thesis by (simp add: sorted_wrt_map)
  qed
  show ?thesis
  proof (cases "d = Asc")
    case True
    with strict [OF assms] show ?thesis by (simp add: order_rows_def before_Asc)
  next
    case False
    have "distinct (map (order_key s) (rev rows))" using assms by (simp add: rev_map [symmetric])
    from strict [OF this] False show ?thesis by (simp add: order_rows_def before_not_Asc sorted_wrt_rev)
  qed
qed

lemma filter_after:
  assumes "sorted_wrt R xs" "k < length xs" "\<And>x y. R x y \<Longrightarrow> \<not> R y x"
  shows "filter (\<lambda>x. R (xs ! k) x) xs = drop (Suc k) xs"
proof -
  have xs: "xs = take k xs @ xs ! k # drop (Suc k) xs" using assms(2) by (rule id_take_nth_drop)
  have "sorted_wrt R (take k xs @ xs ! k # drop (Suc k) xs)" using assms(1) xs by simp
  then have l: "\<forall>x \<in> set (take k xs). R x (xs ! k)" and r: "\<forall>x \<in> set (drop (Suc k) xs). R (xs ! k) x"
    by (auto simp: sorted_wrt_append)
  have "filter (\<lambda>x. R (xs ! k) x) (take k xs @ xs ! k # drop (Suc k) xs) = drop (Suc k) xs"
    using l r assms(3) by (auto simp: filter_empty_conv filter_id_conv)
  then show ?thesis using xs by simp
qed

lemma order_operation_before:
  assumes "sort_val s f = Some v" "sort_val s g = Some w"
  shows "order_operation q (sort_val s f) (sort_val s g) \<longleftrightarrow>
    (if q_page q = 1 then \<not> before s (getValidOrderDirection (q_order q)) f g
     else before s (getValidOrderDirection (q_order q)) g f)"
  using assms by (cases "q_order q")
    (auto simp: order_operation_def before_def order_key_def getValidOrderDirection_def)

lemma sorted_first:
  assumes "sorted_wrt (before s d) xs" "f \<in> set xs"
  shows "\<not> before s d f (xs ! 0)"
proof -
  from assms(2) obtain i where i: "i < length xs" "f = xs ! i" by (auto simp: in_set_conv_nth)
  show ?thesis
  proof (cases i)
    case 0
    then show ?thesis using i before_asym by blast
  next
    case (Suc j)
    then have "before s d (xs ! 0) f" using sorted_wrt_nth_less [OF assms(1), of 0 i] i by simp
    then show ?thesis by (rule before_asym)
  qed
qed

text \<open>The bound of a page cuts the rows before it off a sorted list.\<close>

lemma page_bound:
  fixes q :: FilesListParams
  defines "s \<equiv> getValidSortField (q_sort q)" and "d \<equiv> getValidOrderDirection (q_order q)"
    and "k \<equiv> max ((q_page q - 1) * q_limit q) 1"
  assumes "sorted_wrt (before s d) xs" "\<forall>f \<in> set xs. \<exists>v. sort_val s f = Some v" "1 \<le> q_page q" "1 \<le> q_limit q"
  shows "filter (\<lambda>f. order_operation q (sort_val s f) (rank_value s xs k)) xs = drop ((q_page q - 1) * q_limit q) xs"
proof (cases "k \<le> length xs")
  case False
  then have b: "(rank_value s xs k) = None" by (simp add: rank_value_def)
  have "length xs \<le> (q_page q - 1) * q_limit q" using False by (auto simp: k_def max_def split: if_splits)
  with b show ?thesis by simp
next
  case True
  have k1: "1 \<le> k" by (simp add: k_def)
  define g where "g = xs ! (k - 1)"
  have gm: "g \<in> set xs" using True k1 by (metis Suc_diff_le Suc_le_lessD diff_Suc_1 g_def nth_mem One_nat_def)
  have b: "(rank_value s xs k) = sort_val s g" using True k1 by (simp add: rank_value_def g_def)
  have op: "order_operation q (sort_val s f) (rank_value s xs k) \<longleftrightarrow>
      (if q_page q = 1 then \<not> before s d f g else before s d g f)" if "f \<in> set xs" for f
    using order_operation_before [of s f _ g _ q] assms(5) that gm unfolding b d_def [symmetric] by (metis (no_types))
  show ?thesis
  proof (cases "q_page q = 1")
    case True
    have "g = xs ! 0" using True by (simp add: g_def k_def)
    then have "\<not> before s d f g" if "f \<in> set xs" for f using sorted_first [OF assms(4) that] by simp
    with op True show ?thesis by (simp add: filter_id_conv)
  next
    case False
    then have p: "2 \<le> q_page q" using assms(6) by simp
    then have "1 \<le> (q_page q - 1) * q_limit q" using assms(7) by (simp add: Suc_le_eq)
    then have k: "k = (q_page q - 1) * q_limit q" by (simp add: k_def)
    have "filter (\<lambda>f. order_operation q (sort_val s f) (rank_value s xs k)) xs = filter (\<lambda>f. before s d g f) xs"
      by (rule filter_cong) (use op False in auto)
    also have "\<dots> = drop k xs" using filter_after [OF assms(4) _ before_asym, of "k - 1"] True k1 by (simp add: g_def)
    finally show ?thesis by (simp add: k)
  qed
qed


lemma sorted_last_max: "sorted (map k xs) \<Longrightarrow> f \<in> set xs \<Longrightarrow> k f \<le> (k (last xs) :: 'a :: linorder)"
  by (cases xs rule: rev_cases) (auto simp: sorted_append)

text \<open>
  Sorting by size, descending, hides everything next to a folder. Folders have no size; in descending order
  they come first, the bound of the first page is then NULL and no row compares with it: if the query selects a
  row without a size, its first page is empty.
\<close>

theorem buildFileQuery_null_size:
  assumes "q_sort q = SortSize" "q_order q \<noteq> Asc" "q_page q = 1"
    and "f \<in> set rows" "query f" "f_size f = None"
  shows "fst (buildFileQuery query q rows) = []"
proof -
  let ?d = "getValidOrderDirection (q_order q)"
  have d: "?d \<noteq> Asc" using assms(2) by (simp add: getValidOrderDirection_def split: file_order.split)
  define xs where "xs = order_rows SortSize ?d (filter query rows)"
  have ys: "xs = rev (sort_key (order_key SortSize) (rev (filter query rows)))" using d by (simp add: xs_def order_rows_def)
  have ne: "sort_key (order_key SortSize) (rev (filter query rows)) \<noteq> []"
  proof -
    have "f \<in> set (sort_key (order_key SortSize) (rev (filter query rows)))" using assms(4,5) by simp
    then show ?thesis by (metis empty_iff empty_set)
  qed
  define h where "h = last (sort_key (order_key SortSize) (rev (filter query rows)))"
  have hd: "hd xs = h" "xs \<noteq> []" using ne by (simp_all add: ys h_def hd_rev)
  have m: "f \<in> set (sort_key (order_key SortSize) (rev (filter query rows)))" using assms(4,5) by simp
  have "order_key SortSize f \<le> order_key SortSize h"
    unfolding h_def by (rule sorted_last_max [OF sorted_sort_key m])
  then have "f_size h = None"
    using assms(6) by (cases "f_size h") (auto simp: order_key_def less_eq_prod_def)
  moreover have "xs ! 0 = h" using hd by (simp add: hd_conv_nth)
  ultimately have "rank_value SortSize xs 1 = None" using hd(2) by (simp add: rank_value_def)
  moreover have "buildFileQuery query q rows = (take (q_limit q) (order_rows SortSize ?d
      (filter (\<lambda>f. order_operation q (sort_val SortSize f) (rank_value SortSize xs 1) \<and> query f) rows)), length xs)"
    using assms(1,3) by (simp add: buildFileQuery_def getValidSortField_def Let_def xs_def)
  ultimately show ?thesis by (simp add: order_rows_def)
qed

section \<open>Witnesses\<close>

definition sized :: "string \<Rightarrow> int option \<Rightarrow> FileRow" where
  "sized i n = \<lparr> f_id = i, f_name = i, f_type = FILE, f_mime = [], f_size = n, f_category = None,
     f_encrypted = Some False, f_starred = Some False, f_user = 1, f_status = ACTIVE, f_parent = Some ''d'',
     f_parts = None, f_channel = None, f_hash = None, f_ref = None, f_created = 0, f_updated = 0 \<rparr>"

definition size_query :: "file_order \<Rightarrow> nat \<Rightarrow> FilesListParams" where
  "size_query d p = \<lparr> q_status = ACTIVE, q_operation = OpList, q_path = [], q_parent = ''d'', q_deep = False,
     q_query = [], q_search = SearchText, q_updated = [], q_category = [], q_name = [], q_type = [],
     q_shared = False, q_starred = None, q_sort = SortSize, q_order = d, q_limit = 2, q_page = p \<rparr>"


theorem buildFileQuery_null_size_witness:
  "fst (buildFileQuery (\<lambda>f. f_user f = 1) (size_query Desc 1) [sized ''a'' (Some 3), sized ''b'' None]) = []"
  by (rule buildFileQuery_null_size [of _ "sized ''b'' None"]) (simp_all add: size_query_def sized_def)

end
