(* ===== verification/GoIO.thy ===== *)
theory GoIO
  imports Prelude
begin

text \<open>
  Go's \<open>io.Reader\<close> as an interface. A reader is a state \<open>'s\<close> and a function \<open>Read\<close> that,
  given the length of the caller's buffer, returns the bytes it wrote there, the error and the next
  state; \<open>None\<close> is a call that never returns. The locale \<open>go_reader\<close> states what a well-behaved reader promises: over a whole run it
  delivers a fixed byte string \<open>content\<close> and then one fixed error \<open>final\<close>, in pieces of any
  size, and makes progress. Components that consume a reader (\<open>readFill\<close> of
  internal/crypt/cipher.go, \<open>io.Copy\<close>, \<open>io.LimitReader\<close>) are proved once inside it.
\<close>

datatype io_error =
    EOF
  | FileTooShort | BadHeader | BadMagic | FileClosed | BadSeek
  | SeekNotInit | SeekWhence | ReopenFailed io_error
  | ShortNonce "io_error option" | NonceBufShort
  | StreamAbandoned | ChunkTimeout | CtxCanceled | DeadlineExceeded
  | ExtErr string

type_synonym 's read_fun = "nat \<Rightarrow> 's \<Rightarrow> (bytes \<times> io_error option \<times> 's) option"

section \<open>The loops over a reader\<close>

text \<open>
  \<open>readFill(r, buf)\<close> of internal/crypt/cipher.go: read until the buffer of \<open>len\<close> bytes is full
  or the reader returns an error. \<open>acc\<close> is what \<open>buf[:n]\<close> holds. \<open>None\<close> is a loop that
  never ends.
\<close>

partial_function (option) readFill ::
    "'s read_fun \<Rightarrow> nat \<Rightarrow> bytes \<Rightarrow> 's \<Rightarrow> (bytes \<times> io_error option \<times> 's) option" where
  "readFill rd len acc s =
     (if length acc < len
      then Option.bind (rd (len - length acc) s) (\<lambda>(bs, e, s').
             (case e of None \<Rightarrow> readFill rd len (acc @ bs) s'
              | Some er \<Rightarrow> Some (acc @ bs, Some er, s')))
      else Some (acc, None, s))"

text \<open>\<open>io.Copy\<close> with a buffer of \<open>k\<close> bytes: the end of file is not an error.\<close>

partial_function (option) io_Copy ::
    "'s read_fun \<Rightarrow> nat \<Rightarrow> bytes \<Rightarrow> 's \<Rightarrow> (bytes \<times> io_error option \<times> 's) option" where
  "io_Copy rd k acc s =
     Option.bind (rd k s) (\<lambda>(bs, e, s').
        (case e of None \<Rightarrow> io_Copy rd k (acc @ bs) s'
         | Some er \<Rightarrow> Some (acc @ bs, if er = EOF then None else Some er, s')))"

text \<open>\<open>io.LimitedReader.Read\<close>; \<open>N\<close> is what is left of the limit.\<close>

definition limit_Read :: "'s read_fun \<Rightarrow> ('s \<times> int) read_fun" where
  "limit_Read rd n st =
     (case st of (s, N) \<Rightarrow>
        if N \<le> 0 then Some ([], Some EOF, (s, N))
        else map_option (\<lambda>(bs, e, s'). (bs, e, (s', N - int (length bs))))
               (rd (if int n > N then nat N else n) s))"

text \<open>\<open>bytes.Reader.Read\<close>; the state is what is left.\<close>

definition bytes_Read :: "bytes read_fun" where
  "bytes_Read n s = Some (if s = [] then ([], Some EOF, []) else (take n s, None, drop n s))"

section \<open>The interface\<close>

locale go_reader =
  fixes Read :: "'s read_fun"
    and content :: "'s \<Rightarrow> bytes"
    and final :: "'s \<Rightarrow> io_error"
    and invar :: "'s \<Rightarrow> bool"
    and work :: "'s \<Rightarrow> nat"
  assumes Read_total: "invar s \<Longrightarrow> 0 < n \<Longrightarrow> \<exists>bs e s'. Read n s = Some (bs, e, s')"
    and Read_invar: "invar s \<Longrightarrow> 0 < n \<Longrightarrow> Read n s = Some (bs, e, s') \<Longrightarrow> invar s'"
    and Read_final: "invar s \<Longrightarrow> 0 < n \<Longrightarrow> Read n s = Some (bs, e, s') \<Longrightarrow> final s' = final s"
    and Read_content: "invar s \<Longrightarrow> 0 < n \<Longrightarrow> Read n s = Some (bs, e, s') \<Longrightarrow> content s = bs @ content s'"
    and Read_length: "invar s \<Longrightarrow> 0 < n \<Longrightarrow> Read n s = Some (bs, e, s') \<Longrightarrow> length bs \<le> n"
    and Read_progress: "invar s \<Longrightarrow> 0 < n \<Longrightarrow> Read n s = Some (bs, None, s') \<Longrightarrow> work s' < work s"
    and Read_error:
      "invar s \<Longrightarrow> 0 < n \<Longrightarrow> Read n s = Some (bs, Some er, s') \<Longrightarrow> er = final s \<and> content s' = []"
begin

lemma readFill_spec:
  assumes "invar s" and "length acc \<le> len"
  shows "\<exists>e s'. readFill Read len acc s = Some (acc @ take (len - length acc) (content s), e, s')
     \<and> invar s' \<and> final s' = final s \<and> content s' = drop (len - length acc) (content s)
     \<and> (case e of None \<Rightarrow> len - length acc \<le> length (content s)
        | Some er \<Rightarrow> er = final s \<and> content s' = [])"
  using assms
proof (induction "work s" arbitrary: s acc rule: less_induct)
  case less
  show ?case
  proof (cases "length acc < len")
    case False
    with less.prems show ?thesis by (subst readFill.simps) simp
  next
    case True
    let ?k = "len - length acc"
    from True have k: "0 < ?k" by simp
    obtain bs e s' where r: "Read ?k s = Some (bs, e, s')"
      using Read_total [OF less.prems(1) k] by blast
    note inv' = Read_invar [OF less.prems(1) k r]
      and fin' = Read_final [OF less.prems(1) k r]
      and con = Read_content [OF less.prems(1) k r]
      and len = Read_length [OF less.prems(1) k r]
    show ?thesis
    proof (cases e)
      case (Some er)
      with r have "Read ?k s = Some (bs, Some er, s')" by simp
      note er = Read_error [OF less.prems(1) k this]
      from con er len have "take ?k (content s) = bs" and "drop ?k (content s) = []" by auto
      with True r Some er inv' fin' show ?thesis by (subst readFill.simps) simp
    next
      case None
      with r have "Read ?k s = Some (bs, None, s')" by simp
      note w = Read_progress [OF less.prems(1) k this]
      from True len have acc': "length (acc @ bs) \<le> len" by simp
      from less.hyps [OF w inv' acc'] obtain e2 s2 where
        h: "readFill Read len (acc @ bs) s'
              = Some ((acc @ bs) @ take (len - length (acc @ bs)) (content s'), e2, s2)"
        and h2: "invar s2" "final s2 = final s'"
          "content s2 = drop (len - length (acc @ bs)) (content s')"
          "case e2 of None \<Rightarrow> len - length (acc @ bs) \<le> length (content s')
           | Some er \<Rightarrow> er = final s' \<and> content s2 = []"
        by blast
      have t: "take ?k (content s) = bs @ take (len - length (acc @ bs)) (content s')"
        using con len by simp
      have d: "drop ?k (content s) = drop (len - length (acc @ bs)) (content s')"
        using con len by simp
      from True r None h have
        "readFill Read len acc s = Some (acc @ take ?k (content s), e2, s2)"
        by (subst readFill.simps) (simp only: t if_True Option.bind.simps prod.case option.case append_assoc)
      moreover have "case e2 of None \<Rightarrow> ?k \<le> length (content s)
           | Some er \<Rightarrow> er = final s \<and> content s2 = []"
        using h2(4) con len fin' by (auto split: option.splits)
      ultimately show ?thesis using h2 d fin' by auto
    qed
  qed
qed

lemma readFill_0:
  assumes "invar s" and "0 < len"
  obtains e s' where "readFill Read len [] s = Some (take len (content s), e, s')"
    and "invar s'" and "final s' = final s" and "content s' = drop len (content s)"
    and "case e of None \<Rightarrow> len \<le> length (content s) | Some er \<Rightarrow> er = final s \<and> content s' = []"
proof -
  from readFill_spec [OF assms(1), of "[]" len] obtain e s' where
    "readFill Read len [] s = Some (take len (content s), e, s')" "invar s'" "final s' = final s"
    "content s' = drop len (content s)"
    "case e of None \<Rightarrow> len - length ([] :: bytes) \<le> length (content s)
     | Some er \<Rightarrow> er = final s \<and> content s' = []"
    by auto
  then show thesis by (intro that) (auto split: option.splits)
qed

lemma io_Copy_spec:
  assumes "invar s" and "0 < k"
  shows "\<exists>s'. io_Copy Read k acc s
     = Some (acc @ content s, if final s = EOF then None else Some (final s), s')
     \<and> invar s' \<and> final s' = final s \<and> content s' = []"
  using assms(1)
proof (induction "work s" arbitrary: s acc rule: less_induct)
  case less
  obtain bs e s' where r: "Read k s = Some (bs, e, s')"
    using Read_total [OF less.prems assms(2)] by blast
  note inv' = Read_invar [OF less.prems assms(2) r]
    and fin' = Read_final [OF less.prems assms(2) r]
    and con = Read_content [OF less.prems assms(2) r]
  show ?case
  proof (cases e)
    case (Some er)
    with r have "Read k s = Some (bs, Some er, s')" by simp
    note er = Read_error [OF less.prems assms(2) this]
    with r Some con inv' fin' show ?thesis by (subst io_Copy.simps) simp
  next
    case None
    with r have "Read k s = Some (bs, None, s')" by simp
    note w = Read_progress [OF less.prems assms(2) this]
    from less.hyps [OF w inv', of "acc @ bs"] obtain s2 where
      "io_Copy Read k (acc @ bs) s'
         = Some ((acc @ bs) @ content s', if final s' = EOF then None else Some (final s'), s2)"
      "invar s2" "final s2 = final s'" "content s2 = []"
      by blast
    with r None con fin' show ?thesis by (subst io_Copy.simps) simp
  qed
qed

text \<open>A limited reader delivers a prefix. It is stated for readers that end with \<open>io.EOF\<close>.\<close>

lemma limit_Read_cases:
  assumes "limit_Read Read n (s, N) = Some (bs, e, st')"
  obtains (limit) "N \<le> 0" "bs = []" "e = Some EOF" "st' = (s, N)"
  | (inner) s' where "0 < N" "Read (if int n > N then nat N else n) s = Some (bs, e, s')"
      "st' = (s', N - int (length bs))"
proof (cases "N \<le> 0")
  case True
  with assms have "bs = [] \<and> e = Some EOF \<and> st' = (s, N)" by (auto simp: limit_Read_def)
  with True limit show thesis by blast
next
  case False
  with assms obtain s2 where "Read (if int n > N then nat N else n) s = Some (bs, e, s2)"
    and "st' = (s2, N - int (length bs))"
    by (auto simp: limit_Read_def split: prod.splits)
  with False inner show thesis by simp
qed

lemma limit_step:
  assumes inv: "invar s" and fin: "final s = EOF" and n: "0 < n"
    and r: "limit_Read Read n (s, N) = Some (bs, e, (s', N'))"
  shows "invar s' \<and> final s' = EOF
     \<and> take (nat N) (content s) = bs @ take (nat N') (content s')
     \<and> length bs \<le> n
     \<and> (case e of None \<Rightarrow> work s' < work s
        | Some er \<Rightarrow> er = EOF \<and> take (nat N') (content s') = [])"
  using r
proof (cases rule: limit_Read_cases)
  case limit
  with inv fin show ?thesis by simp
next
  case (inner s2)
  let ?k = "if int n > N then nat N else n"
  from inner n have k: "0 < ?k" by simp
  from inner have s2: "s2 = s'" and N': "N' = N - int (length bs)" by auto
  note c = Read_content [OF inv k inner(2)] and l = Read_length [OF inv k inner(2)]
  from l inner(1) have lN: "length bs \<le> nat N" and ln: "length bs \<le> n"
    by (auto split: if_splits)
  from N' lN have nN: "nat N' = nat N - length bs" by simp
  have t: "take (nat N) (content s) = bs @ take (nat N') (content s')"
    using c lN nN s2 by simp
  have e: "case e of None \<Rightarrow> work s' < work s
        | Some er \<Rightarrow> er = EOF \<and> take (nat N') (content s') = []"
    using Read_progress [OF inv k, of bs s'] Read_error [OF inv k, of bs _ s'] inner(2) s2 fin
    by (auto split: option.splits)
  show ?thesis
    using Read_invar [OF inv k inner(2)] Read_final [OF inv k inner(2)] s2 fin t ln e by simp
qed

lemma limited_reader:
  "go_reader (limit_Read Read) (\<lambda>(s, N). take (nat N) (content s)) (\<lambda>_. EOF)
     (\<lambda>(s, N). invar s \<and> final s = EOF) (\<lambda>(s, N). work s)"
proof (unfold_locales, goal_cases)
  case (1 st n)
  obtain s N where st: "st = (s, N)" by (cases st)
  let ?k = "if int n > N then nat N else n"
  show ?case
  proof (cases "N \<le> 0")
    case True
    with st show ?thesis by (simp add: limit_Read_def)
  next
    case False
    with 1 st have "0 < ?k" "invar s" by auto
    then obtain bs e s' where "Read ?k s = Some (bs, e, s')" using Read_total by blast
    with st False show ?thesis by (simp add: limit_Read_def)
  qed
next
  case (2 st n bs e st')
  then show ?case by (cases st; cases st') (auto dest: limit_step)
next
  case (4 st n bs e st')
  then show ?case by (cases st; cases st') (auto dest: limit_step)
next
  case (5 st n bs e st')
  then show ?case by (cases st; cases st') (auto dest: limit_step)
next
  case (6 st n bs st')
  then show ?case by (cases st; cases st') (auto dest: limit_step)
next
  case (7 st n bs er st')
  then show ?case by (cases st; cases st') (auto dest: limit_step)
qed simp

end

interpretation bytes_rd: go_reader bytes_Read "\<lambda>s. s" "\<lambda>_. EOF" "\<lambda>_. True" length
  by unfold_locales (auto simp: bytes_Read_def split: if_splits)

lemma io_Copy_bytes: "0 < k \<Longrightarrow> \<exists>s. io_Copy bytes_Read k [] b = Some (b, None, s)"
  using bytes_rd.io_Copy_spec [of k "[]" b] by auto

end
