(* ===== verification/TGReader.thy ===== *)
theory TGReader
  imports GoIO
begin

text \<open>
  internal/reader/tg_reader.go and buffer.go: a reader of a byte range of one Telegram document,
  fetched in aligned chunks, several at a time, by a goroutine that passes buffers over a channel.
  \<open>CalculateChunkSize\<close> is from internal/tgc/helpers.go. The chunk source is a parameter, a
  function from offset and limit to bytes or an error; \<open>chunk_ok\<close> states that it serves one document.

  \<open>tgm_Read\<close> runs the goroutine on demand: a \<open>Read\<close> that finds the channel empty lets it fetch
  its next batch. Offsets are sizes of files, far below 2^63, and are plain integers.
\<close>

type_synonym chunk_fun = "int \<Rightarrow> int \<Rightarrow> io_error + bytes"

section \<open>Chunk sizes\<close>

function chunk_size_loop :: "int \<Rightarrow> int \<Rightarrow> int" where
  "chunk_size_loop chunkSize span =
     (if chunkSize > 1024 \<and> chunkSize > span then chunk_size_loop (go_div chunkSize 2) span
      else chunkSize)"
  by pat_completeness auto
termination by (relation "measure (\<lambda>(c, _). nat c)") auto

declare chunk_size_loop.simps [simp del]

definition CalculateChunkSize :: "int \<Rightarrow> int \<Rightarrow> int" where
  "CalculateChunkSize start fin = chunk_size_loop (1024 * 1024) (fin - start)"

section \<open>Buffers\<close>

record buffer =
  buf_bytes :: bytes
  buf_offset :: nat

definition buffer_isEmpty :: "buffer option \<Rightarrow> bool" where
  "buffer_isEmpty b = (case b of None \<Rightarrow> True
     | Some b \<Rightarrow> int (length (buf_bytes b)) - int (buf_offset b) \<le> 0)"

definition buffer_buffer :: "buffer \<Rightarrow> bytes" where
  "buffer_buffer b = drop (buf_offset b) (buf_bytes b)"

definition buffer_increment :: "nat \<Rightarrow> buffer \<Rightarrow> buffer" where
  "buffer_increment n b = b\<lparr> buf_offset := buf_offset b + n \<rparr>"

section \<open>The reader\<close>

record tgMultiReader =
  r_offset :: int
  r_limit :: int
  r_chunkSize :: int
  bufferChan :: "buffer list"
  r_cur :: "buffer option"
  concurrency :: nat
  leftCut :: int
  rightCut :: int
  totalParts :: nat
  currentPart :: nat
  chanClosed :: bool
  r_canceled :: bool

definition newTGMultiReader :: "int \<Rightarrow> int \<Rightarrow> nat \<Rightarrow> tgMultiReader" where
  "newTGMultiReader start fin conc =
     (let chunkSize = CalculateChunkSize start fin;
          offset = start - go_mod start chunkSize
      in \<lparr> r_offset = offset, r_limit = fin - start + 1, r_chunkSize = chunkSize,
           bufferChan = [], r_cur = None, concurrency = conc,
           leftCut = start - offset, rightCut = go_mod fin chunkSize + 1,
           totalParts = nat (go_div (fin - offset + chunkSize) chunkSize), currentPart = 0,
           chanClosed = False, r_canceled = False \<rparr>)"

definition tgm_Close :: "tgMultiReader \<Rightarrow> io_error option \<times> tgMultiReader" where
  "tgm_Close r = (None, r\<lparr> r_canceled := True \<rparr>)"

text \<open>Go's \<open>xs[a:b]\<close> with its bounds check; \<open>None\<close> is the panic.\<close>

definition slice_checked :: "int \<Rightarrow> int \<Rightarrow> 'a list \<Rightarrow> 'a list option" where
  "slice_checked a b xs =
     (if 0 \<le> a \<and> a \<le> b \<and> b \<le> int (length xs) then Some (go_slice (nat a) (nat b) xs) else None)"

text \<open>The goroutine for part \<open>i\<close> of a batch: fetch the chunk and cut the first and the last.\<close>

definition cut_chunk :: "tgMultiReader \<Rightarrow> nat \<Rightarrow> bytes \<Rightarrow> bytes option" where
  "cut_chunk r i chunk =
     (if totalParts r = 1 then slice_checked (leftCut r) (rightCut r) chunk
      else if currentPart r + i = 0 then slice_checked (leftCut r) (int (length chunk)) chunk
      else if currentPart r + i + 1 = totalParts r then slice_checked 0 (rightCut r) chunk
      else Some chunk)"

definition fetch_part :: "chunk_fun \<Rightarrow> tgMultiReader \<Rightarrow> nat \<Rightarrow> (io_error + buffer) option" where
  "fetch_part chunk r i =
     (case chunk (r_offset r + int i * r_chunkSize r) (r_chunkSize r) of
        Inl e \<Rightarrow> Some (Inl (if e = DeadlineExceeded then ChunkTimeout else e))
      | Inr c \<Rightarrow> map_option (\<lambda>b. Inr \<lparr> buf_bytes = b, buf_offset = 0 \<rparr>) (cut_chunk r i c))"

text \<open>All parts of a batch; \<open>g.Wait()\<close> returns an error if one of them has one.\<close>

fun fetch_parts :: "chunk_fun \<Rightarrow> tgMultiReader \<Rightarrow> nat list \<Rightarrow> (io_error + buffer list) option" where
  "fetch_parts chunk r [] = Some (Inr [])"
| "fetch_parts chunk r (i # is) =
     (case fetch_part chunk r i of None \<Rightarrow> None
      | Some res \<Rightarrow>
         (case fetch_parts chunk r is of None \<Rightarrow> None
          | Some rest \<Rightarrow>
             (case res of Inl e \<Rightarrow> Some (Inl e)
              | Inr b \<Rightarrow> Some (case rest of Inl e \<Rightarrow> Inl e | Inr bs \<Rightarrow> Inr (b # bs)))))"

definition batch_parts :: "tgMultiReader \<Rightarrow> nat list" where
  "batch_parts r = [0..<min (concurrency r) (totalParts r - currentPart r)]"

definition fillBatch :: "chunk_fun \<Rightarrow> tgMultiReader \<Rightarrow> (io_error + buffer list \<times> tgMultiReader) option" where
  "fillBatch chunk r =
     map_option (\<lambda>res. case res of Inl e \<Rightarrow> Inl e
        | Inr bs \<Rightarrow> Inr (bs, r\<lparr> currentPart := currentPart r + concurrency r,
                               r_offset := r_offset r + r_chunkSize r * int (concurrency r) \<rparr>))
       (fetch_parts chunk r (batch_parts r))"

text \<open>The end of \<open>Read\<close>: copy out of the current buffer.\<close>

definition tgm_deliver :: "nat \<Rightarrow> buffer \<Rightarrow> tgMultiReader \<Rightarrow> bytes \<times> io_error option \<times> tgMultiReader" where
  "tgm_deliver n b r =
     (let bs = take n (buffer_buffer b);
          r = r\<lparr> r_cur := Some (buffer_increment (length bs) b), r_limit := r_limit r - int (length bs) \<rparr>
      in if r_limit r \<le> 0 then (bs, Some EOF, r) else (bs, None, r))"

definition tgm_Read :: "chunk_fun \<Rightarrow> tgMultiReader read_fun" where
  "tgm_Read chunk n r =
     (if r_limit r \<le> 0 then Some ([], Some EOF, r)
      else if \<not> buffer_isEmpty (r_cur r) then Some (tgm_deliver n (the (r_cur r)) r)
      else case bufferChan r of
        b # bs \<Rightarrow> Some (tgm_deliver n b (r\<lparr> bufferChan := bs \<rparr>))
      | [] \<Rightarrow>
          if chanClosed r then Some ([], Some StreamAbandoned, r)
          else if r_canceled r then Some ([], Some CtxCanceled, r)
          else if currentPart r \<ge> totalParts r
          then Some ([], Some StreamAbandoned, r\<lparr> chanClosed := True \<rparr>)
          else case fillBatch chunk r of
            None \<Rightarrow> None
          | Some (Inl e) \<Rightarrow> Some ([], Some StreamAbandoned, r\<lparr> r_canceled := True, chanClosed := True \<rparr>)
          | Some (Inr (bs, r')) \<Rightarrow>
              (case bs of [] \<Rightarrow> None
               | b # bs \<Rightarrow> Some (tgm_deliver n b (r'\<lparr> bufferChan := bs \<rparr>))))"

section \<open>Chunk sizes are powers of two that fit\<close>

lemma chunk_size_loop_pow:
  assumes "10 \<le> k"
  shows "\<exists>j. 10 \<le> j \<and> j \<le> k \<and> chunk_size_loop (2 ^ k) span = 2 ^ j
    \<and> (j < k \<longrightarrow> span < 2 ^ (j + 1)) \<and> (10 < j \<longrightarrow> 2 ^ j \<le> span)"
  using assms
proof (induction k rule: less_induct)
  case (less k)
  have p10: "(2::int) ^ 10 = 1024" by simp
  have gt: "(2::int) ^ k > 1024 \<longleftrightarrow> 10 < k"
    unfolding p10 [symmetric] by (rule power_strict_increasing_iff) simp
  show ?case
  proof (cases "10 < k \<and> span < 2 ^ k")
    case False
    then have "chunk_size_loop (2 ^ k) span = 2 ^ k"
      using gt by (subst chunk_size_loop.simps) auto
    with False less.prems show ?thesis by (intro exI [of _ k]) auto
  next
    case True
    then obtain k' where k': "k = Suc k'" by (cases k) auto
    have "chunk_size_loop (2 ^ k) span = chunk_size_loop (2 ^ k') span"
      using True gt by (subst chunk_size_loop.simps) (simp add: k')
    moreover from less.IH [of k'] True k' obtain j where
      "10 \<le> j" "j \<le> k'" "chunk_size_loop (2 ^ k') span = 2 ^ j"
      "j < k' \<longrightarrow> span < 2 ^ (j + 1)" "10 < j \<longrightarrow> 2 ^ j \<le> span" by auto
    ultimately show ?thesis using True k' by (intro exI [of _ j]) (auto simp: le_less)
  qed
qed

text \<open>
  The chunk size is a power of two between 1 KiB and 1 MiB; it is the smallest allowed or at most
  the distance of the two ends, and it is 1 MiB or more than half that distance. So an aligned chunk
  never crosses a 1 MiB boundary, which the Telegram API demands of a precise request.
\<close>

theorem CalculateChunkSize_pow:
  "\<exists>j. 10 \<le> j \<and> j \<le> 20 \<and> CalculateChunkSize start fin = 2 ^ j
     \<and> CalculateChunkSize start fin dvd 2 ^ 20
     \<and> (10 < j \<longrightarrow> 2 ^ j \<le> fin - start) \<and> (j < 20 \<longrightarrow> fin - start < 2 ^ (j + 1))"
proof -
  have p: "1024 * 1024 = (2::int) ^ 20" by simp
  from chunk_size_loop_pow [of 20 "fin - start"] obtain j where
    j: "10 \<le> j" "j \<le> 20" "CalculateChunkSize start fin = 2 ^ j"
    "j < 20 \<longrightarrow> fin - start < 2 ^ (j + 1)" "10 < j \<longrightarrow> 2 ^ j \<le> fin - start"
    unfolding CalculateChunkSize_def p by auto
  have "(2::int) ^ j dvd 2 ^ 20" using j(2) by (rule le_imp_power_dvd)
  with j show ?thesis by auto
qed

lemma CalculateChunkSize_pos: "0 < CalculateChunkSize start fin"
  using CalculateChunkSize_pow [of start fin] by auto

section \<open>What a batch fetches\<close>

definition chunk_ok :: "chunk_fun \<Rightarrow> bytes \<Rightarrow> bool" where
  "chunk_ok chunk doc \<longleftrightarrow>
     (\<forall>off lim. 0 \<le> off \<longrightarrow> 0 < lim \<longrightarrow> chunk off lim = Inr (take (nat lim) (drop (nat off) doc)))"

text \<open>Bounds of part \<open>i\<close> of the current batch within the document, and of all parts not fetched yet.\<close>

definition part_lo :: "tgMultiReader \<Rightarrow> nat \<Rightarrow> nat" where
  "part_lo r i = nat (r_offset r) + i * nat (r_chunkSize r)
     + (if currentPart r + i = 0 then nat (leftCut r) else 0)"

definition part_hi :: "tgMultiReader \<Rightarrow> nat \<Rightarrow> nat" where
  "part_hi r i = nat (r_offset r) + i * nat (r_chunkSize r)
     + (if currentPart r + i + 1 = totalParts r then nat (rightCut r) else nat (r_chunkSize r))"

definition rest_bytes :: "bytes \<Rightarrow> tgMultiReader \<Rightarrow> bytes" where
  "rest_bytes doc r =
     (if currentPart r < totalParts r
      then go_slice (part_lo r 0) (part_hi r (totalParts r - currentPart r - 1)) doc else [])"

text \<open>The shape of a reader: cuts inside a chunk, the range inside the document.\<close>

definition tgm_shape :: "bytes \<Rightarrow> tgMultiReader \<Rightarrow> bool" where
  "tgm_shape doc r \<longleftrightarrow>
     0 \<le> r_offset r \<and> 0 < r_chunkSize r \<and> 0 \<le> leftCut r \<and> leftCut r < r_chunkSize r
     \<and> 0 < rightCut r \<and> rightCut r \<le> r_chunkSize r \<and> (totalParts r = 1 \<longrightarrow> leftCut r < rightCut r)
     \<and> 0 < concurrency r
     \<and> (currentPart r < totalParts r \<longrightarrow> part_hi r (totalParts r - currentPart r - 1) \<le> length doc)"

lemma slice_checked_Some:
  "0 \<le> a \<Longrightarrow> a \<le> b \<Longrightarrow> b \<le> int (length xs) \<Longrightarrow> slice_checked a b xs = Some (go_slice (nat a) (nat b) xs)"
  by (simp add: slice_checked_def)

lemma part_lo_hi:
  assumes "tgm_shape doc r" "currentPart r + i < totalParts r"
  shows "part_lo r i < part_hi r i" and "part_hi r i \<le> length doc"
proof -
  show "part_lo r i < part_hi r i"
    using assms unfolding tgm_shape_def part_lo_def part_hi_def by auto
  let ?m = "totalParts r - currentPart r - 1"
  have "part_hi r i \<le> part_hi r ?m"
  proof (cases "i = ?m")
    case False
    then have "i + 1 \<le> ?m" using assms(2) by simp
    then have "(i + 1) * nat (r_chunkSize r) \<le> ?m * nat (r_chunkSize r)" by (rule mult_le_mono1)
    with False assms show ?thesis unfolding part_hi_def by simp
  qed simp
  then show "part_hi r i \<le> length doc" using assms by (auto simp: tgm_shape_def)
qed

lemma part_next:
  assumes "currentPart r + i + 1 < totalParts r"
  shows "part_hi r i = part_lo r (i + 1)"
  using assms by (simp add: part_lo_def part_hi_def)

lemma go_slice_take_drop: "b \<le> c \<Longrightarrow> go_slice a b (take c (drop o1 xs)) = go_slice (o1 + a) (o1 + b) xs"
  by (simp add: go_slice_def take_drop_take add.commute)

lemma fetch_part_ok:
  assumes "chunk_ok chunk doc" and sh: "tgm_shape doc r" and i: "currentPart r + i < totalParts r"
  shows "fetch_part chunk r i
     = Some (Inr \<lparr> buf_bytes = go_slice (part_lo r i) (part_hi r i) doc, buf_offset = 0 \<rparr>)"
proof -
  define o1 where "o1 = nat (r_offset r) + i * nat (r_chunkSize r)"
  define c where "c = nat (r_chunkSize r)"
  have c: "r_chunkSize r = int c" "0 < c" and no: "r_offset r + int i * r_chunkSize r = int o1"
    using sh by (auto simp: tgm_shape_def c_def o1_def)
  obtain l u where lu: "leftCut r = int l" "rightCut r = int u" "l < c" "0 < u" "u \<le> c"
    using that [of "nat (leftCut r)" "nat (rightCut r)"] sh c by (auto simp: tgm_shape_def)
  have one: "totalParts r = 1 \<Longrightarrow> l < u" using sh lu by (auto simp: tgm_shape_def)
  have ch: "chunk (r_offset r + int i * r_chunkSize r) (r_chunkSize r) = Inr (take c (drop o1 doc))"
    using assms(1) c unfolding chunk_ok_def no by simp
  note b = part_lo_hi [OF sh i]
  have pl: "part_lo r i = o1 + (if currentPart r + i = 0 then l else 0)"
    by (simp add: part_lo_def o1_def lu)
  have ph: "part_hi r i = o1 + (if currentPart r + i + 1 = totalParts r then u else c)"
    by (simp add: part_hi_def o1_def lu c)
  have len: "length (take c (drop o1 doc)) = c" if "currentPart r + i + 1 \<noteq> totalParts r"
    using b(2) that by (simp add: ph)
  have lenu: "u \<le> length (take c (drop o1 doc))" if "currentPart r + i + 1 = totalParts r"
    using b(2) that lu by (simp add: ph)
  have "cut_chunk r i (take c (drop o1 doc)) = Some (go_slice
      (o1 + (if currentPart r + i = 0 then l else 0))
      (o1 + (if currentPart r + i + 1 = totalParts r then u else c)) doc)"
  proof (cases "currentPart r + i = 0")
    case first: True
    show ?thesis
    proof (cases "totalParts r = 1")
      case True
      then show ?thesis
        using first one lenu lu
        by (simp add: cut_chunk_def slice_checked_def go_slice_take_drop)
    next
      case False
      then show ?thesis
        using first len lu
        by (simp add: cut_chunk_def slice_checked_def go_slice_take_drop del: length_take)
    qed
  next
    case nf: False
    show ?thesis
    proof (cases "currentPart r + i + 1 = totalParts r")
      case True
      then show ?thesis
        using nf lenu lu i
        by (auto simp: cut_chunk_def slice_checked_def go_slice_take_drop)
    next
      case False
      then show ?thesis
        using nf i by (auto simp: cut_chunk_def go_slice_def)
    qed
  qed
  then show ?thesis by (simp add: fetch_part_def ch pl ph)
qed

definition part_buffer :: "bytes \<Rightarrow> tgMultiReader \<Rightarrow> nat \<Rightarrow> buffer" where
  "part_buffer doc r i = \<lparr> buf_bytes = go_slice (part_lo r i) (part_hi r i) doc, buf_offset = 0 \<rparr>"

lemma fetch_parts_ok:
  assumes "chunk_ok chunk doc" and "tgm_shape doc r" and "\<forall>i \<in> set is. currentPart r + i < totalParts r"
  shows "fetch_parts chunk r is = Some (Inr (map (part_buffer doc r) is))"
  using assms(3)
  by (induction "is") (simp_all add: fetch_part_ok [OF assms(1,2)] part_buffer_def)

lemma fillBatch_ok:
  assumes "chunk_ok chunk doc" and "tgm_shape doc r"
  shows "fillBatch chunk r = Some (Inr (map (part_buffer doc r) (batch_parts r),
      r\<lparr> currentPart := currentPart r + concurrency r,
         r_offset := r_offset r + r_chunkSize r * int (concurrency r) \<rparr>))"
proof -
  have "\<forall>i \<in> set (batch_parts r). currentPart r + i < totalParts r" by (auto simp: batch_parts_def)
  then show ?thesis by (simp add: fillBatch_def fetch_parts_ok [OF assms])
qed

lemma parts_concat:
  assumes "tgm_shape doc r" "currentPart r + m < totalParts r"
  shows "concat (map (\<lambda>i. go_slice (part_lo r i) (part_hi r i) doc) [0..<Suc m])
     = go_slice (part_lo r 0) (part_hi r m) doc"
  using assms(2)
proof (induction m)
  case 0
  then show ?case by simp
next
  case (Suc m)
  have "part_lo r 0 \<le> part_hi r m"
    using part_lo_hi(1) [OF assms(1), of 0] Suc.prems by (simp add: part_lo_def part_hi_def)
  moreover have "part_hi r m = part_lo r (Suc m)" "part_lo r (Suc m) \<le> part_hi r (Suc m)"
    using part_next [of r m] part_lo_hi(1) [OF assms(1), of "Suc m"] Suc.prems by simp_all
  moreover have "concat (map (\<lambda>i. go_slice (part_lo r i) (part_hi r i) doc) [0..<Suc m])
      = go_slice (part_lo r 0) (part_hi r m) doc"
    using Suc by simp
  ultimately show ?case
    by (simp only: upt_Suc_append [of 0 "Suc m"] map_append concat_append list.map concat.simps
        append_Nil2 le0) (metis go_slice_append)
qed

section \<open>The reader delivers the range\<close>

definition tgm_content :: "bytes \<Rightarrow> tgMultiReader \<Rightarrow> bytes" where
  "tgm_content doc r =
     (case r_cur r of None \<Rightarrow> [] | Some b \<Rightarrow> buffer_buffer b)
     @ concat (map buffer_buffer (bufferChan r)) @ rest_bytes doc r"

definition tgm_invar :: "bytes \<Rightarrow> tgMultiReader \<Rightarrow> bool" where
  "tgm_invar doc r \<longleftrightarrow>
     tgm_shape doc r \<and> r_limit r = int (length (tgm_content doc r))
     \<and> \<not> chanClosed r \<and> \<not> r_canceled r \<and> (\<forall>b \<in> set (bufferChan r). buffer_buffer b \<noteq> [])"

lemma buffer_isEmpty_iff:
  "buffer_isEmpty b \<longleftrightarrow> (case b of None \<Rightarrow> True | Some b \<Rightarrow> buffer_buffer b = [])"
  by (auto simp: buffer_isEmpty_def buffer_buffer_def split: option.splits)

lemma buffer_increment_buffer:
  "buffer_buffer (buffer_increment n b) = drop n (buffer_buffer b)"
  by (simp add: buffer_buffer_def buffer_increment_def add.commute)

lemma rest_bytes_update [simp]:
  "rest_bytes doc (r\<lparr> r_cur := x, r_limit := l \<rparr>) = rest_bytes doc r"
  "rest_bytes doc (r\<lparr> bufferChan := y \<rparr>) = rest_bytes doc r"
  by (simp_all add: rest_bytes_def part_lo_def part_hi_def)

lemma tgm_shape_update [simp]:
  "tgm_shape doc (r\<lparr> r_cur := x, r_limit := l \<rparr>) = tgm_shape doc r"
  "tgm_shape doc (r\<lparr> bufferChan := y \<rparr>) = tgm_shape doc r"
  by (simp_all add: tgm_shape_def part_hi_def)

text \<open>Delivering from a buffer \<open>b\<close> that holds something.\<close>

lemma tgm_deliver_spec:
  assumes n: "0 < n" and b: "buffer_buffer b \<noteq> []" and inv: "tgm_invar doc (r\<lparr> r_cur := Some b \<rparr>)"
    and d: "tgm_deliver n b r = (bs, e, r')"
  shows "bs \<noteq> [] \<and> length bs \<le> n \<and> tgm_invar doc r'
     \<and> tgm_content doc (r\<lparr> r_cur := Some b \<rparr>) = bs @ tgm_content doc r'
     \<and> (case e of None \<Rightarrow> True | Some er \<Rightarrow> er = EOF \<and> tgm_content doc r' = [])"
proof -
  have bs: "bs = take n (buffer_buffer b)" using d by (auto simp: tgm_deliver_def Let_def split: if_splits)
  define g where "g = r\<lparr> r_cur := Some (buffer_increment (length bs) b),
    r_limit := r_limit r - int (length bs) \<rparr>"
  have r': "r' = g" "e = (if r_limit g \<le> 0 then Some EOF else None)"
    using d by (auto simp: tgm_deliver_def Let_def g_def bs split: if_splits)
  have rest: "rest_bytes doc (r\<lparr> r_cur := Some b \<rparr>) = rest_bytes doc r"
    by (simp add: rest_bytes_def part_lo_def part_hi_def)
  have con: "tgm_content doc (r\<lparr> r_cur := Some b \<rparr>) = bs @ tgm_content doc g"
    by (simp add: tgm_content_def g_def rest buffer_increment_buffer bs)
       (metis append.assoc append_take_drop_id drop_drop length_take min.commute take_all_iff
          append_eq_conv_conj length_drop nat_le_linear drop_all take_all min.absorb1 min.absorb2)
  have lim: "r_limit r = int (length (tgm_content doc (r\<lparr> r_cur := Some b \<rparr>)))"
    using inv by (simp add: tgm_invar_def)
  then have lg: "r_limit g = int (length (tgm_content doc g))"
    by (simp add: con g_def [THEN arg_cong [where f = r_limit]])
  have "tgm_shape doc r" using inv by (simp add: tgm_invar_def tgm_shape_def part_hi_def)
  then have "tgm_invar doc g" using inv lg by (simp add: tgm_invar_def g_def)
  moreover have "bs \<noteq> []" using n b bs by simp
  moreover have "length bs \<le> n" by (simp add: bs)
  ultimately show ?thesis using con r' lg by auto
qed

text \<open>After a batch the rest is the new buffers and the new rest.\<close>

lemma batch_spec:
  assumes ok: "chunk_ok chunk doc" and sh: "tgm_shape doc r" and more: "currentPart r < totalParts r"
  obtains b bs r' where "fillBatch chunk r = Some (Inr (b # bs, r'))"
    and "rest_bytes doc r = concat (map buffer_buffer (b # bs)) @ rest_bytes doc r'"
    and "tgm_shape doc r'" and "\<forall>x \<in> set (b # bs). buffer_buffer x \<noteq> []"
    and "r' = r\<lparr> currentPart := currentPart r', r_offset := r_offset r' \<rparr>"
proof -
  let ?m = "min (concurrency r) (totalParts r - currentPart r)"
  define r' where "r' = r\<lparr> currentPart := currentPart r + concurrency r,
         r_offset := r_offset r + r_chunkSize r * int (concurrency r) \<rparr>"
  have conc: "0 < concurrency r" using sh by (simp add: tgm_shape_def)
  with more obtain m where m: "?m = Suc m" by (metis gr0_implies_Suc min_less_iff_conj zero_less_diff)
  then have mb: "currentPart r + m < totalParts r" by (auto simp: min_def split: if_splits)
  have bufs: "concat (map buffer_buffer (map (part_buffer doc r) [0..<?m]))
      = go_slice (part_lo r 0) (part_hi r m) doc"
    using parts_concat [OF sh mb] unfolding m
    by (simp add: part_buffer_def buffer_buffer_def comp_def)
  have ne: "buffer_buffer (part_buffer doc r i) \<noteq> []" if "i < ?m" for i
  proof -
    have "currentPart r + i < totalParts r" using that by (simp add: less_diff_conv add.commute)
    from part_lo_hi [OF sh this] have "0 < length (go_slice (part_lo r i) (part_hi r i) doc)" by simp
    then show ?thesis
      by (simp only: part_buffer_def buffer_buffer_def buffer.simps drop_0 length_greater_0_conv not_False_eq_True)
  qed
  let ?l = "totalParts r - currentPart r - 1"
  have off: "nat (r_offset r') = nat (r_offset r) + concurrency r * nat (r_chunkSize r)"
    using sh by (simp add: r'_def tgm_shape_def nat_add_distrib nat_mult_distrib)
  have lo': "part_lo r' 0 = part_lo r (concurrency r)"
    using conc off by (simp add: part_lo_def) (simp add: r'_def)
  have hi': "part_hi r' i = part_hi r (concurrency r + i)" for i
    using off by (simp add: part_hi_def add_mult_distrib) (simp add: r'_def add.assoc)
  have rest: "rest_bytes doc r = go_slice (part_lo r 0) (part_hi r m) doc @ rest_bytes doc r'"
  proof (cases "currentPart r + concurrency r < totalParts r")
    case True
    then have mc: "concurrency r = Suc m" using m by simp
    have "part_hi r m = part_lo r (concurrency r)" using True by (simp add: part_next mc)
    moreover have "concurrency r + (totalParts r' - currentPart r' - 1) = ?l"
      using True by (simp add: r'_def)
    moreover have "part_lo r 0 \<le> part_hi r m"
    proof -
      have "nat (leftCut r) \<le> nat (r_chunkSize r)" using sh by (auto simp: tgm_shape_def intro: nat_mono)
      then have "part_lo r 0 \<le> part_lo r (Suc m)" by (simp add: part_lo_def)
      then show ?thesis by (simp only: \<open>part_hi r m = part_lo r (concurrency r)\<close> mc)
    qed
    moreover have "part_lo r (Suc m) \<le> part_hi r ?l"
    proof -
      have "Suc m \<le> ?l" using True mc by simp
      then have "Suc m * nat (r_chunkSize r) \<le> ?l * nat (r_chunkSize r)" by (rule mult_le_mono1)
      then show ?thesis unfolding part_lo_def part_hi_def by simp
    qed
    moreover have "currentPart r' < totalParts r'" using True by (simp add: r'_def)
    ultimately have rb: "rest_bytes doc r' = go_slice (part_lo r (Suc m)) (part_hi r ?l) doc"
      unfolding rest_bytes_def lo' hi' mc by (simp only: if_True)
    have "part_hi r m = part_lo r (Suc m)" using True by (simp add: part_next mc)
    then show ?thesis
      using \<open>part_lo r 0 \<le> part_hi r m\<close> \<open>part_lo r (Suc m) \<le> part_hi r ?l\<close> more
      unfolding rb by (simp add: rest_bytes_def go_slice_append)
  next
    case False
    then have "m = ?l" using m by simp
    with False more show ?thesis by (simp add: rest_bytes_def r'_def)
  qed
  have sh': "tgm_shape doc r'"
    using sh hi' by (auto simp: tgm_shape_def r'_def intro!: part_lo_hi(2) [OF sh])
  have up0: "[0..<?m] = 0 # [1..<?m]" using m by (simp add: upt_conv_Cons)
  have f1: "fillBatch chunk r = Some (Inr (part_buffer doc r 0 # map (part_buffer doc r) [1..<?m], r'))"
    using fillBatch_ok [OF ok sh] by (simp add: batch_parts_def up0 r'_def del: upt_Suc)
  have f2: "rest_bytes doc r = concat (map buffer_buffer
      (part_buffer doc r 0 # map (part_buffer doc r) [1..<?m])) @ rest_bytes doc r'"
    using rest bufs by (simp add: up0 del: upt_Suc)
  have f3: "\<forall>x \<in> set (part_buffer doc r 0 # map (part_buffer doc r) [1..<?m]). buffer_buffer x \<noteq> []"
    using ne m by auto
  have f4: "r' = r\<lparr> currentPart := currentPart r', r_offset := r_offset r' \<rparr>"
    by (simp add: r'_def)
  show thesis by (rule that [OF f1 f2 sh' f3 f4])
qed

lemma tgm_step_ok:
  assumes ok: "chunk_ok chunk doc" and inv: "tgm_invar doc r" and n: "0 < n"
  shows "\<exists>bs e r'. tgm_Read chunk n r = Some (bs, e, r') \<and> length bs \<le> n \<and> tgm_invar doc r'
     \<and> tgm_content doc r = bs @ tgm_content doc r'
     \<and> (case e of None \<Rightarrow> bs \<noteq> [] | Some er \<Rightarrow> er = EOF \<and> tgm_content doc r' = [])"
proof (cases "r_limit r \<le> 0")
  case True
  then have "tgm_content doc r = []" using inv by (simp add: tgm_invar_def)
  with True inv show ?thesis by (simp add: tgm_Read_def)
next
  case lim: False
  have sh: "tgm_shape doc r" and flags: "\<not> chanClosed r" "\<not> r_canceled r"
    and bne: "\<forall>b \<in> set (bufferChan r). buffer_buffer b \<noteq> []"
    using inv by (auto simp: tgm_invar_def)
  have use: ?thesis
    if "tgm_Read chunk n r = Some (tgm_deliver n b g)" "buffer_buffer b \<noteq> []"
      "tgm_invar doc (g\<lparr> r_cur := Some b \<rparr>)" "tgm_content doc (g\<lparr> r_cur := Some b \<rparr>) = tgm_content doc r"
    for b g
  proof -
    obtain bs e r' where d: "tgm_deliver n b g = (bs, e, r')" by (metis prod_cases3)
    from tgm_deliver_spec [OF n that(2,3) d] that(1,4) d show ?thesis by (auto split: option.splits)
  qed
  show ?thesis
  proof (cases "buffer_isEmpty (r_cur r)")
    case False
    then obtain b where b: "r_cur r = Some b" "buffer_buffer b \<noteq> []"
      by (auto simp: buffer_isEmpty_iff split: option.splits)
    have eq: "r\<lparr> r_cur := Some b \<rparr> = r" using b(1) by simp
    show ?thesis
      using use [of b r] b(2) inv unfolding eq
      using b(1) False lim by (simp add: tgm_Read_def)
  next
    case emp: True
    then have cur: "(case r_cur r of None \<Rightarrow> [] | Some b \<Rightarrow> buffer_buffer b) = []"
      by (auto simp: buffer_isEmpty_iff split: option.splits)
    show ?thesis
    proof (cases "bufferChan r")
      case (Cons b bs)
      let ?g = "r\<lparr> bufferChan := bs \<rparr>"
      have c: "tgm_content doc (?g\<lparr> r_cur := Some b \<rparr>) = tgm_content doc r"
        using cur Cons
        by (simp add: tgm_content_def rest_bytes_def part_lo_def part_hi_def)
      have "tgm_shape doc (?g\<lparr> r_cur := Some b \<rparr>)" using sh by (simp add: tgm_shape_def part_hi_def)
      then have "tgm_invar doc (?g\<lparr> r_cur := Some b \<rparr>)"
        using inv bne Cons by (simp add: tgm_invar_def c)
      with c lim emp Cons bne show ?thesis by (intro use [of b ?g]) (simp_all add: tgm_Read_def)
    next
      case Nil
      have "tgm_content doc r \<noteq> []" using lim inv by (auto simp: tgm_invar_def)
      with cur Nil have more: "currentPart r < totalParts r"
        by (auto simp: tgm_content_def rest_bytes_def split: if_splits)
      obtain b bs r' where batch: "fillBatch chunk r = Some (Inr (b # bs, r'))"
        and rest: "rest_bytes doc r = concat (map buffer_buffer (b # bs)) @ rest_bytes doc r'"
        and sh': "tgm_shape doc r'" and ne: "\<forall>x \<in> set (b # bs). buffer_buffer x \<noteq> []"
        and r': "r' = r\<lparr> currentPart := currentPart r', r_offset := r_offset r' \<rparr>"
        using batch_spec [OF ok sh more] by metis
      have r'f: "r_limit r' = r_limit r" "chanClosed r' = chanClosed r" "r_canceled r' = r_canceled r"
        by (subst r'; simp)+
      let ?g = "r'\<lparr> bufferChan := bs \<rparr>"
      have c: "tgm_content doc (?g\<lparr> r_cur := Some b \<rparr>) = tgm_content doc r"
        using cur Nil rest
        by (simp add: tgm_content_def rest_bytes_def part_lo_def part_hi_def)
      have "tgm_shape doc (?g\<lparr> r_cur := Some b \<rparr>)" using sh' by (simp add: tgm_shape_def part_hi_def)
      then have "tgm_invar doc (?g\<lparr> r_cur := Some b \<rparr>)"
        using inv ne r'f by (simp add: tgm_invar_def c)
      moreover have "tgm_Read chunk n r = Some (tgm_deliver n b ?g)"
        using lim emp Nil flags more batch by (simp add: tgm_Read_def)
      ultimately show ?thesis using c ne by (intro use [of b ?g]) simp_all
    qed
  qed
qed

lemma tgm_reader:
  assumes ok: "chunk_ok chunk doc"
  shows "go_reader (tgm_Read chunk) (tgm_content doc) (\<lambda>_. EOF) (tgm_invar doc)
     (\<lambda>r. length (tgm_content doc r))"
proof (unfold_locales, goal_cases)
  case (1 r n)
  then show ?case using tgm_step_ok [OF ok 1] by blast
next
  case (2 r n bs e r')
  then show ?case using tgm_step_ok [OF ok 2(1,2)] by auto
next
  case (4 r n bs e r')
  then show ?case using tgm_step_ok [OF ok 4(1,2)] by auto
next
  case (5 r n bs e r')
  then show ?case using tgm_step_ok [OF ok 5(1,2)] by auto
next
  case (6 r n bs r')
  then show ?case using tgm_step_ok [OF ok 6(1,2)] by auto
next
  case (7 r n bs er r')
  then show ?case using tgm_step_ok [OF ok 7(1,2)] by auto
qed simp

lemma newTGMultiReader_ok:
  assumes se: "0 \<le> start" "start \<le> fin" "fin < int (length doc)" and conc: "0 < conc"
  shows "tgm_invar doc (newTGMultiReader start fin conc)"
    and "tgm_content doc (newTGMultiReader start fin conc) = go_slice (nat start) (nat (fin + 1)) doc"
proof -
  define c where "c = CalculateChunkSize start fin"
  have c: "0 < c" by (simp add: c_def CalculateChunkSize_pos)
  define q where "q = start div c"
  define p where "p = fin div c"
  have qp: "0 \<le> q" "q \<le> p" using se c by (simp_all add: q_def p_def pos_imp_zdiv_nonneg_iff zdiv_mono1)
  have off: "start - start mod c = q * c" by (simp add: q_def minus_mod_eq_div_mult)
  have "(fin - q * c + c) div c = p - q + 1"
  proof -
    have e: "fin - q * c + c = fin + (1 - q) * c" by (simp add: algebra_simps)
    have "c \<noteq> 0" using c by simp
    then have "(fin + (1 - q) * c) div c = (1 - q) + fin div c" by (rule div_mult_self1)
    then show ?thesis unfolding e p_def by simp
  qed
  moreover have "0 \<le> fin - q * c + c" using se c off pos_mod_sign [OF c, of start] by linarith
  ultimately have tp: "nat (go_div (fin - q * c + c) c) = nat (p - q) + 1"
    using c qp by (simp add: nat_add_distrib)
  let ?r = "newTGMultiReader start fin conc"
  have l: "start - q * c = start mod c" using off by linarith
  have r: "?r = \<lparr> r_offset = q * c, r_limit = fin - start + 1, r_chunkSize = c, bufferChan = [],
      r_cur = None, concurrency = conc, leftCut = start mod c, rightCut = fin mod c + 1,
      totalParts = nat (p - q) + 1, currentPart = 0, chanClosed = False, r_canceled = False \<rparr>"
    using se c by (simp add: newTGMultiReader_def Let_def c_def [symmetric] off l tp)
  have m: "0 \<le> start mod c" "start mod c < c" "0 \<le> fin mod c" "fin mod c < c" using c by simp_all
  have "int (part_lo ?r 0) = start"
    using m qp c l by (simp add: part_lo_def r)
  then have lo: "part_lo ?r 0 = nat start" by simp
  have "int (part_hi ?r (nat (p - q))) = q * c + (p - q) * c + (fin mod c + 1)"
    using m qp c by (simp add: part_hi_def r)
  also have "\<dots> = fin + 1" by (simp add: p_def algebra_simps)
  finally have hi: "part_hi ?r (nat (p - q)) = nat (fin + 1)" by simp
  have rest: "tgm_content doc ?r = go_slice (nat start) (nat (fin + 1)) doc"
    using lo hi by (simp add: tgm_content_def rest_bytes_def r)
  then show "tgm_content doc ?r = go_slice (nat start) (nat (fin + 1)) doc" .
  have "start mod c < fin mod c + 1" if "p = q"
  proof -
    have "fin mod c = fin - p * c" by (simp add: p_def minus_div_mult_eq_mod)
    with l that se(2) show ?thesis by simp
  qed
  moreover have "fin mod c + 1 \<le> c" using m by linarith
  ultimately have "tgm_shape doc ?r"
    using m(1-3) qp c conc hi se by (auto simp: tgm_shape_def r)
  then show "tgm_invar doc ?r"
    using rest se by (simp add: tgm_invar_def) (simp add: r)
qed

text \<open>
  C11. Reading a document. For a chunk source that serves a document, a range inside it and any number
  of concurrent fetches, reading the multi reader with buffers of any size yields exactly the bytes
  \<open>start..end\<close> of the document, each once and in order, and then the end of file: the aligned
  fetches, the cuts of the first and the last chunk and the batches fit together.
\<close>

theorem tgMultiReader_range:
  assumes "chunk_ok chunk doc" and "0 \<le> start" "start \<le> fin" "fin < int (length doc)"
    and "0 < conc" and "0 < k"
  shows "\<exists>r'. io_Copy (tgm_Read chunk) k [] (newTGMultiReader start fin conc)
     = Some (go_slice (nat start) (nat (fin + 1)) doc, None, r')"
  using go_reader.io_Copy_spec [OF tgm_reader [OF assms(1)] newTGMultiReader_ok(1) assms(6), of start fin conc "[]"]
    newTGMultiReader_ok [OF assms(2-5)] assms
  by auto

definition mem_chunk :: "bytes \<Rightarrow> chunk_fun" where
  "mem_chunk doc off lim = Inr (take (nat lim) (drop (nat off) doc))"

lemma mem_chunk_ok: "chunk_ok (mem_chunk doc) doc"
  by (simp add: chunk_ok_def mem_chunk_def)

lemma tgMultiReader_range_witness:
  "\<exists>r'. io_Copy (tgm_Read (mem_chunk (replicate 3000 7))) 512 [] (newTGMultiReader 1000 2100 2)
     = Some (replicate 1101 7, None, r')"
  using tgMultiReader_range [OF mem_chunk_ok, of 1000 2100 "replicate 3000 7" 2 512]
  by (simp add: go_slice_def)

end
