(* ===== verification/CryptNonce.thy ===== *)
theory CryptNonce
  imports Prelude
begin

text \<open>
  The 24-byte nonce of internal/crypt/cipher.go, a little-endian counter: \<open>carry\<close>, \<open>increment\<close>
  and \<open>add\<close> on bytes with their wrap-around. The lemmas read a nonce as a number and show that
  \<open>add\<close> is addition modulo 2^192, so a seek by \<open>n\<close> blocks lands on the nonce that \<open>n\<close>
  increments reach.
\<close>

definition fileNonceSize :: nat where
  "fileNonceSize = 24"

text \<open>The loop of \<open>nonce.carry\<close>, over the bytes from its start index on.\<close>

fun carry_loop :: "bytes \<Rightarrow> bytes" where
  "carry_loop [] = []"
| "carry_loop (digit # ds) =
     (let newDigit = digit + 1
      in if newDigit \<ge> digit then newDigit # ds else newDigit # carry_loop ds)"

definition nonce_carry :: "nat \<Rightarrow> bytes \<Rightarrow> bytes" where
  "nonce_carry i n = take i n @ carry_loop (drop i n)"

definition nonce_increment :: "bytes \<Rightarrow> bytes" where
  "nonce_increment n = nonce_carry 0 n"

text \<open>
  The loop of \<open>nonce.add\<close>: \<open>k\<close> rounds are left, \<open>carry\<close> is the \<open>uint16\<close> accumulator, \<open>x\<close>
  the \<open>uint64\<close> still to add. The result is the rewritten bytes and the last carry.
\<close>

fun add_loop :: "nat \<Rightarrow> 16 word \<Rightarrow> 64 word \<Rightarrow> bytes \<Rightarrow> bytes \<times> 16 word" where
  "add_loop 0 carry x n = (n, carry)"
| "add_loop (Suc k) carry x [] = ([], carry)"
| "add_loop (Suc k) carry x (digit # ds) =
     (let xDigit = (ucast x :: byte);
          carry' = carry + (ucast digit + ucast xDigit)
      in case add_loop k (drop_bit 8 carry') (drop_bit 8 x) ds of
           (ds', c) \<Rightarrow> (ucast carry' # ds', c))"

definition nonce_add :: "64 word \<Rightarrow> bytes \<Rightarrow> bytes" where
  "nonce_add x n =
     (case add_loop 8 0 x n of (n', carry) \<Rightarrow> if carry \<noteq> 0 then nonce_carry 8 n' else n')"

section \<open>The value of a nonce\<close>

fun le_val :: "bytes \<Rightarrow> nat" where
  "le_val [] = 0"
| "le_val (d # ds) = unat d + 256 * le_val ds"

lemma unat_byte_bound: "unat (d :: byte) < 256"
  using unsigned_less [of d] by simp

lemma le_val_bound: "le_val n < 256 ^ length n"
proof (induction n)
  case Nil
  then show ?case by simp
next
  case (Cons d ds)
  have "unat d < 256" by (rule unat_byte_bound)
  with Cons show ?case by simp
qed

lemma le_val_append: "le_val (a @ b) = le_val a + 256 ^ length a * le_val b"
  by (induction a) (auto simp: algebra_simps)

lemma le_val_inj: "length a = length b \<Longrightarrow> le_val a = le_val b \<Longrightarrow> a = b"
proof (induction a b rule: list_induct2)
  case Nil
  then show ?case by simp
next
  case (Cons x xs y ys)
  have "unat x < 256" "unat y < 256" by (rule unat_byte_bound)+
  moreover have "unat x + 256 * le_val xs = unat y + 256 * le_val ys" using Cons.prems by simp
  ultimately have "unat x = unat y" "le_val xs = le_val ys"
    by (metis mod_less mod_mult_self2, metis add_left_cancel mod_less mod_mult_self2 mult_cancel_left zero_neq_numeral)
  with Cons.IH show ?case by (simp add: word_unat_eq_iff)
qed

section \<open>Carry and increment\<close>

lemma length_carry_loop [simp]: "length (carry_loop n) = length n"
  by (induction n) (auto simp: Let_def)

lemma length_nonce_carry [simp]: "length (nonce_carry i n) = length n"
  by (simp add: nonce_carry_def)

lemma length_nonce_increment [simp]: "length (nonce_increment n) = length n"
  by (simp add: nonce_increment_def)

lemma byte_succ: "unat (d + 1 :: byte) = (unat d + 1) mod 256"
  by (simp add: unat_word_ariths)

lemma byte_succ_ge: "(d + 1 :: byte) \<ge> d \<longleftrightarrow> unat d \<noteq> 255"
proof -
  have "unat d < 256" by (rule unat_byte_bound)
  then show ?thesis by (auto simp: word_le_nat_alt byte_succ mod_if)
qed

lemma le_val_carry_loop: "le_val (carry_loop n) = (le_val n + 1) mod 256 ^ length n"
proof (induction n)
  case Nil
  then show ?case by simp
next
  case (Cons d ds)
  have d: "unat d < 256" by (rule unat_byte_bound)
  have b: "le_val ds < 256 ^ length ds" by (rule le_val_bound)
  show ?case
  proof (cases "unat d = 255")
    case False
    with d have s: "unat (d + 1) = unat d + 1" by (simp add: byte_succ)
    from False have ge: "d + 1 \<ge> d" by (simp add: byte_succ_ge)
    have "unat d + 256 * le_val ds + 1 < 256 ^ length (d # ds)"
      using d b False by simp
    with s ge show ?thesis by (simp add: Let_def)
  next
    case True
    then have ge: "\<not> (d + 1 \<ge> d)" by (simp add: byte_succ_ge)
    from True have s: "unat (d + 1) = 0" by (simp add: byte_succ)
    have "le_val (carry_loop (d # ds)) = 256 * ((le_val ds + 1) mod 256 ^ length ds)"
      using ge s Cons.IH by (simp add: Let_def)
    also have "\<dots> = (256 * (le_val ds + 1)) mod (256 * 256 ^ length ds)"
      by (simp add: mult_mod_right)
    also have "\<dots> = (le_val (d # ds) + 1) mod 256 ^ length (d # ds)"
      using True by (simp add: algebra_simps)
    finally show ?thesis .
  qed
qed

lemma le_val_increment: "le_val (nonce_increment n) = (le_val n + 1) mod 256 ^ length n"
  by (simp add: nonce_increment_def nonce_carry_def le_val_carry_loop)

lemma le_val_increment_pow:
  "le_val ((nonce_increment ^^ k) n) = (le_val n + k) mod 256 ^ length n
   \<and> length ((nonce_increment ^^ k) n) = length n"
proof (induction k)
  case 0
  then show ?case by (simp add: le_val_bound)
next
  case (Suc k)
  then show ?case by (simp add: le_val_increment mod_Suc_eq)
qed

section \<open>Addition\<close>

lemma length_add_loop: "length (fst (add_loop k c x n)) = length n"
  by (induction k c x n rule: add_loop.induct) (auto simp: Let_def split: prod.splits)

lemma add_loop_step:
  fixes c :: "16 word" and x :: "64 word" and d :: byte
  assumes "unat c \<le> 1"
  defines "c' \<equiv> c + (ucast d + ucast (ucast x :: byte))"
  shows "unat (ucast c' :: byte) + 256 * unat (drop_bit 8 c') = unat c + unat d + unat x mod 256"
    and "unat (drop_bit 8 c') \<le> 1"
proof -
  have d: "unat d < 256" by (rule unat_byte_bound)
  have up: "unat (ucast (b :: byte) :: 16 word) = unat b" for b
    using unat_byte_bound [of b] unfolding unsigned_ucast_eq take_bit_eq_mod by simp
  have down: "unat (ucast (w :: 64 word) :: byte) = unat w mod 256" for w
    unfolding unsigned_ucast_eq take_bit_eq_mod by simp
  have x: "unat (ucast (ucast x :: byte) :: 16 word) = unat x mod 256"
    by (simp only: up down)
  have dd: "unat (ucast d :: 16 word) = unat d"
    by (rule up)
  have m: "unat x mod 256 < 256" by simp
  have "unat c' = (unat c + (unat d + unat x mod 256) mod 65536) mod 65536"
    unfolding c'_def by (simp add: unat_word_ariths dd x)
  then have c': "unat c' = unat c + unat d + unat x mod 256"
    using d m assms(1) by simp
  have hi: "unat (drop_bit 8 c') = unat c' div 256"
    by (simp add: unat_drop_bit_eq drop_bit_eq_div [where 'a = nat])
  have lo: "unat (ucast c' :: byte) = unat c' mod 256"
    unfolding unsigned_ucast_eq take_bit_eq_mod by simp
  show "unat (ucast c' :: byte) + 256 * unat (drop_bit 8 c') = unat c + unat d + unat x mod 256"
    using hi lo c' by simp
  show "unat (drop_bit 8 c') \<le> 1"
    using hi c' d m assms(1) by simp
qed

lemma le_val_add_loop:
  assumes "unat c \<le> 1" and "k \<le> length n"
  shows "case add_loop k c x n of (n', c') \<Rightarrow>
      unat c' \<le> 1 \<and> drop k n' = drop k n
      \<and> le_val (take k n') + 256 ^ k * unat c' = le_val (take k n) + unat c + unat x mod 256 ^ k"
  using assms
proof (induction k c x n rule: add_loop.induct)
  case (1 c x n)
  then show ?case by simp
next
  case (2 k c x)
  then show ?case by simp
next
  case (3 k c x d ds)
  let ?c = "c + (ucast d + ucast (ucast x :: byte)) :: 16 word"
  note st = add_loop_step [OF "3.prems"(1), of d x]
  obtain ds' c2 where r: "add_loop k (drop_bit 8 ?c) (drop_bit 8 x) ds = (ds', c2)"
    by (cases "add_loop k (drop_bit 8 ?c) (drop_bit 8 x) ds") auto
  have x8: "unat (drop_bit 8 x) = unat x div 256"
    by (simp add: unat_drop_bit_eq drop_bit_eq_div [where 'a = nat])
  have IH: "unat c2 \<le> 1 \<and> drop k ds' = drop k ds
      \<and> le_val (take k ds') + 256 ^ k * unat c2
        = le_val (take k ds) + unat (drop_bit 8 ?c) + (unat x div 256) mod 256 ^ k"
    using "3.IH" [OF refl refl] st(2) "3.prems"(2) r x8 by simp
  have mx: "unat x mod 256 ^ Suc k = unat x mod 256 + 256 * ((unat x div 256) mod 256 ^ k)"
    by (simp add: mod_mult2_eq)
  show ?case using IH st(1) r mx by (simp add: Let_def algebra_simps)
qed

lemma length_nonce_add [simp]: "length (nonce_add x n) = length n"
  using length_add_loop [of 8 0 x n] by (auto simp: nonce_add_def split: prod.splits)

lemma le_val_add:
  assumes "8 \<le> length n"
  shows "le_val (nonce_add x n) = (le_val n + unat x) mod 256 ^ length n"
proof -
  obtain n' c where r: "add_loop 8 0 x n = (n', c)" by (cases "add_loop 8 0 x n") auto
  from le_val_add_loop [of 0 8 n x] r assms have
    c: "unat c \<le> 1" and tl: "drop 8 n' = drop 8 n"
    and v: "le_val (take 8 n') + 256 ^ 8 * unat c = le_val (take 8 n) + unat x mod 256 ^ 8"
    by simp_all
  have len: "length n' = length n" using length_add_loop [of 8 0 x n] r by simp
  have "unat x < 2 ^ 64" using unsigned_less [of x] by simp
  then have ux: "unat x mod 256 ^ 8 = unat x" by simp
  have split: "le_val m = le_val (take 8 m) + 256 ^ 8 * le_val (drop 8 m)" if "8 \<le> length m" for m
    using le_val_append [of "take 8 m" "drop 8 m"] that by simp
  have pow: "(256::nat) ^ length n = 256 ^ 8 * 256 ^ (length n - 8)"
    using assms by (metis le_add_diff_inverse power_add)
  show ?thesis
  proof (cases "c = 0")
    case True
    with v ux tl len split [of n] split [of n'] assms have "le_val n' = le_val n + unat x" by simp
    moreover have "le_val n' < 256 ^ length n" using le_val_bound [of n'] len by simp
    ultimately show ?thesis using r True by (simp add: nonce_add_def)
  next
    case False
    with c have c1: "unat c = 1" by (metis le_antisym less_one not_le unat_eq_zero)
    have "le_val (nonce_carry 8 n')
        = le_val (take 8 n') + 256 ^ 8 * ((le_val (drop 8 n) + 1) mod 256 ^ (length n - 8))"
      using assms len tl by (simp add: nonce_carry_def le_val_append le_val_carry_loop)
    also have "\<dots> = le_val (take 8 n') + (256 ^ 8 * (le_val (drop 8 n) + 1)) mod 256 ^ length n"
      by (simp add: pow mult_mod_right)
    also have "\<dots> = (le_val (take 8 n') + 256 ^ 8 * (le_val (drop 8 n) + 1)) mod 256 ^ length n"
    proof -
      have a: "le_val (take 8 n') < 256 ^ 8"
        using le_val_bound [of "take 8 n'"] assms len by simp
      let ?q = "(le_val (drop 8 n) + 1) mod 256 ^ (length n - 8)"
      have q: "?q < 256 ^ (length n - 8)" by simp
      have "le_val (take 8 n') + 256 ^ 8 * ?q < 256 ^ 8 * (?q + 1)" using a by simp
      also have "\<dots> \<le> 256 ^ 8 * 256 ^ (length n - 8)" using q by (intro mult_left_mono) (simp_all only: Suc_eq_plus1 [symmetric] Suc_leI zero_le)
      finally have "le_val (take 8 n') + 256 ^ 8 * ?q < 256 ^ length n" by (simp only: pow)
      moreover have "(256 ^ 8 * (le_val (drop 8 n) + 1)) mod 256 ^ length n = 256 ^ 8 * ?q"
        by (simp only: pow mult_mod_right)
      ultimately show ?thesis by (metis mod_add_right_eq mod_less)
    qed
    also have "le_val (take 8 n') + 256 ^ 8 * (le_val (drop 8 n) + 1) = le_val n + unat x"
      using v c1 ux split [of n] assms by simp
    finally show ?thesis using r False by (simp add: nonce_add_def)
  qed
qed

lemma nonce_add_increment:
  assumes "8 \<le> length n"
  shows "nonce_add x n = (nonce_increment ^^ unat x) n"
  using le_val_increment_pow [of "unat x" n] le_val_add [OF assms, of x]
  by (intro le_val_inj) auto

end
