(* ===== verification/CryptSize.thy ===== *)
theory CryptSize
  imports GoIO CryptNonce
begin

text \<open>
  Sizes and offsets of the encrypted format of internal/crypt/cipher.go: a header of 34 bytes
  (magic and nonce), then blocks of at most 65536 bytes, each 16 bytes longer than its plain data.
  \<open>EncryptedSize\<close> and \<open>DecryptedSize\<close> translate between file sizes, \<open>calculateUnderlying\<close> a
  byte range of the plain file into a range of the encrypted one. All are on \<open>int64\<close>, whose
  wrap-around is written out with \<open>i64\<close>.
\<close>

definition fileMagicSize :: nat where
  "fileMagicSize = 10"

definition fileHeaderSize :: nat where
  "fileHeaderSize = fileMagicSize + fileNonceSize"

definition blockHeaderSize :: nat where
  "blockHeaderSize = 16"

definition blockDataSize :: nat where
  "blockDataSize = 64 * 1024"

definition blockSize :: nat where
  "blockSize = blockHeaderSize + blockDataSize"

definition EncryptedSize :: "int \<Rightarrow> int" where
  "EncryptedSize sz =
     (let blocks = go_div sz (int blockDataSize); residue = go_mod sz (int blockDataSize);
          encryptedSize = i64 (int fileHeaderSize + i64 (blocks * int blockSize))
      in if residue \<noteq> 0 then i64 (encryptedSize + (int blockHeaderSize + residue)) else encryptedSize)"

definition DecryptedSize :: "int \<Rightarrow> io_error + int" where
  "DecryptedSize sz =
     (let sz = i64 (sz - int fileHeaderSize) in
      if sz < 0 then Inl FileTooShort
      else
        let blocks = go_div sz (int blockSize); residue = go_mod sz (int blockSize);
            decryptedSize = i64 (blocks * int blockDataSize)
        in if residue \<noteq> 0
           then let residue = residue - int blockHeaderSize in
                if residue \<le> 0 then Inl BadHeader else Inr (i64 (decryptedSize + residue))
           else Inr (i64 (decryptedSize + residue)))"

text \<open>The result is \<open>(underlyingOffset, underlyingLimit, discard, blocks)\<close>.\<close>

definition calculateUnderlying :: "int \<Rightarrow> int \<Rightarrow> int \<times> int \<times> int \<times> int" where
  "calculateUnderlying offset limit =
     (let blocks = go_div offset (int blockDataSize);
          discard = go_mod offset (int blockDataSize);
          underlyingOffset = i64 (int fileHeaderSize + i64 (blocks * int blockSize));
          underlyingLimit =
            (if limit \<ge> 0 then
               let bytesToRead = i64 (limit - (int blockDataSize - discard));
                   blocksToRead =
                     (if bytesToRead > 0 then
                        let extraBlocksToRead = go_div bytesToRead (int blockDataSize);
                            endBytes = go_mod bytesToRead (int blockDataSize)
                        in 1 + (if endBytes \<noteq> 0 then extraBlocksToRead + 1 else extraBlocksToRead)
                      else 1)
               in i64 (blocksToRead * int blockSize)
             else -1)
      in (underlyingOffset, underlyingLimit, discard, blocks))"

lemmas crypt_sizes =
  fileMagicSize_def fileNonceSize_def fileHeaderSize_def blockHeaderSize_def blockDataSize_def
  blockSize_def

section \<open>The two sizes are inverse\<close>

lemma EncryptedSize_val:
  assumes "0 \<le> sz" "sz < 2 ^ 62"
  shows "EncryptedSize sz =
     34 + sz div 65536 * 65552 + (if sz mod 65536 \<noteq> 0 then 16 + sz mod 65536 else 0)"
proof -
  have "0 \<le> sz div 65536" "sz div 65536 < 2 ^ 46" "0 \<le> sz mod 65536" "sz mod 65536 < 65536"
    using assms by (auto simp: div_less_iff_less_mult intro: pos_imp_zdiv_nonneg_iff [THEN iffD2])
  then show ?thesis
    using assms unfolding EncryptedSize_def by (simp add: crypt_sizes Let_def)
qed

lemma div_mod_eqI:
  fixes q r d :: int
  assumes "0 \<le> r" "r < d"
  shows "(q * d + r) div d = q" and "(q * d + r) mod d = r"
  using assms by simp_all

lemma EncryptedSize_nat:
  assumes "l < 2 ^ 62"
  shows "EncryptedSize (int l) = int (34 + (l + 16 * ((l + 65535) div 65536)))"
proof -
  define q where "q = l div 65536"
  define r where "r = l mod 65536"
  have l: "l = q * 65536 + r" and r: "r < 65536" by (simp_all add: q_def r_def)
  have "l + 65535 = q * 65536 + (r + 65535)" by (simp add: l)
  then have "(l + 65535) div 65536 = q + (r + 65535) div 65536" by (simp only: div_mult_self3)
  moreover have "(r + 65535) div 65536 = (if r \<noteq> 0 then 1 else 0)"
    using r by (auto intro!: div_nat_eqI)
  ultimately have c: "(l + 65535) div 65536 = q + (if r \<noteq> 0 then 1 else 0)" by simp
  have d: "int l div 65536 = int q" "int l mod 65536 = int r"
    by (simp_all add: q_def r_def zdiv_int zmod_int)
  have "int l < 2 ^ 62" using assms by (metis of_nat_less_iff of_nat_numeral of_nat_power)
  then have "EncryptedSize (int l)
      = 34 + int q * 65552 + (if int r \<noteq> 0 then 16 + int r else 0)"
    by (subst EncryptedSize_val) (simp_all add: d)
  moreover have "int (34 + (l + 16 * ((l + 65535) div 65536)))
      = 34 + int q * 65552 + (if int r \<noteq> 0 then 16 + int r else 0)"
    unfolding c by (simp add: l)
  ultimately show ?thesis by simp
qed

lemma DecryptedSize_val:
  assumes "34 \<le> sz" "sz < 2 ^ 63"
  shows "DecryptedSize sz =
    (let b = (sz - 34) div 65552; r = (sz - 34) mod 65552 in
     if r = 0 then Inr (b * 65536) else if r \<le> 16 then Inl BadHeader
     else Inr (b * 65536 + r - 16))"
proof -
  have b: "0 \<le> (sz - 34) div 65552" "(sz - 34) div 65552 * 65552 \<le> sz - 34"
    "0 \<le> (sz - 34) mod 65552" "(sz - 34) mod 65552 < 65552"
    using assms mult_div_mod_eq [of 65552 "sz - 34"] by (auto simp: pos_imp_zdiv_nonneg_iff mult.commute)
  have p63: "(2::int) ^ 63 = 9223372036854775808" by simp
  have "(sz - 34) div 65552 * 65536 < 2 ^ 63 - 65536"
    using b assms unfolding p63 by linarith
  with b have "i64 ((sz - 34) div 65552 * 65536) = (sz - 34) div 65552 * 65536"
    "i64 ((sz - 34) div 65552 * 65536 + ((sz - 34) mod 65552 - 16))
       = (sz - 34) div 65552 * 65536 + (sz - 34) mod 65552 - 16"
    if "(sz - 34) mod 65552 > 16"
    using that by simp_all
  moreover have "i64 ((sz - 34) div 65552 * 65536) = (sz - 34) div 65552 * 65536"
    using b assms by simp
  ultimately show ?thesis
    using assms unfolding DecryptedSize_def by (auto simp: crypt_sizes Let_def)
qed

text \<open>
  The size of a file survives encryption: \<open>DecryptedSize\<close> of the size \<open>EncryptedSize\<close>
  computes is the original size, for every size whose encrypted size fits into an \<open>int64\<close>
  (stated for sizes below 2^62).
\<close>

theorem DecryptedSize_EncryptedSize:
  assumes "0 \<le> sz" and "sz < 2 ^ 62"
  shows "DecryptedSize (EncryptedSize sz) = Inr sz"
proof -
  let ?b = "sz div 65536" and ?r = "sz mod 65536"
  let ?e = "?b * 65552 + (if ?r \<noteq> 0 then 16 + ?r else 0)"
  have r: "0 \<le> ?r" "?r < 65536" by simp_all
  have b: "0 \<le> ?b" "?b < 2 ^ 46" using assms by (auto simp: pos_imp_zdiv_nonneg_iff div_less_iff_less_mult)
  have e: "EncryptedSize sz = 34 + ?e" by (simp add: EncryptedSize_val [OF assms])
  have dm: "?e div 65552 = ?b" "?e mod 65552 = (if ?r \<noteq> 0 then 16 + ?r else 0)"
    by (rule div_mod_eqI; use r in simp)+
  have bound: "34 \<le> 34 + ?e" "34 + ?e < 2 ^ 63" using b r by auto
  have s: "?b * 65536 + ?r = sz" by simp
  show ?thesis
    unfolding e DecryptedSize_val [OF bound] using dm r s by (auto simp: Let_def)
qed

text \<open>
  Conversely, a size \<open>DecryptedSize\<close> accepts is the encrypted size of what it returns: no two
  plain sizes share an encrypted size, and a size that is not an encrypted size is refused (too
  short, or with a block of no data).
\<close>

theorem EncryptedSize_DecryptedSize:
  assumes "DecryptedSize sz = Inr n" and "0 \<le> sz" and "sz < 2 ^ 62"
  shows "EncryptedSize n = sz \<and> 0 \<le> n"
proof -
  have s34: "34 \<le> sz"
  proof (rule ccontr)
    assume "\<not> 34 \<le> sz"
    with assms have "DecryptedSize sz = Inl FileTooShort"
      by (simp add: DecryptedSize_def crypt_sizes)
    with assms show False by simp
  qed
  let ?b = "(sz - 34) div 65552" and ?r = "(sz - 34) mod 65552"
  have r: "0 \<le> ?r" "?r < 65552" by simp_all
  have b: "0 \<le> ?b" using s34 by (simp add: pos_imp_zdiv_nonneg_iff)
  have s: "?b * 65552 + ?r = sz - 34" by simp
  from assms have s63: "sz < 2 ^ 63" by simp
  have v: "?r = 0 \<and> n = ?b * 65536 + 0 \<or> ?r > 16 \<and> n = ?b * 65536 + (?r - 16)"
    using assms(1) unfolding DecryptedSize_val [OF s34 s63] by (auto simp: Let_def split: if_splits)
  obtain k where k: "n = ?b * 65536 + k" "0 \<le> k" "k < 65536"
    "?r = (if k \<noteq> 0 then 16 + k else 0)"
  proof (cases "?r = 0")
    case True
    with v that [of 0] show thesis by simp
  next
    case False
    with v r that [of "?r - 16"] show thesis by auto
  qed
  have "n div 65536 = ?b" "n mod 65536 = k" unfolding k(1) by (rule div_mod_eqI [OF k(2,3)])+
  moreover have "0 \<le> n" "n < 2 ^ 62"
    using k b s assms(3) r by auto
  ultimately show ?thesis
    using k(4) s by (auto simp: EncryptedSize_val split: if_splits)
qed

section \<open>The range of a range\<close>

lemma pred_div:
  fixes m D :: int
  assumes "0 < D"
  shows "(m - 1) div D = (if m mod D \<noteq> 0 then m div D else m div D - 1)"
proof (cases "m mod D = 0")
  case True
  then have "m - 1 = (m div D - 1) * D + (D - 1)"
    using div_mult_mod_eq [of m D] by (simp add: algebra_simps)
  moreover have "((m div D - 1) * D + (D - 1)) div D = m div D - 1"
    by (rule div_mod_eqI) (use assms in linarith)+
  ultimately have "(m - 1) div D = m div D - 1" by (simp only:)
  with True show ?thesis by (simp only: if_False not_True_eq_False simp_thms)
next
  case False
  with assms have r: "0 < m mod D" by (simp add: order_less_le)
  have "m - 1 = m div D * D + (m mod D - 1)"
    using div_mult_mod_eq [of m D] by simp
  moreover have "(m div D * D + (m mod D - 1)) div D = m div D"
    by (rule div_mod_eqI) (use r assms pos_mod_bound [of D m] in linarith)+
  ultimately have "(m - 1) div D = m div D" by (simp only:)
  with False show ?thesis by (simp only: if_True not_False_eq_True simp_thms)
qed

lemma less_next_multiple:
  fixes x d :: int
  assumes "0 < d"
  shows "x < (x div d + 1) * d"
proof -
  have "x = x div d * d + x mod d" by simp
  also have "\<dots> < x div d * d + d" using pos_mod_bound [OF assms, of x] by (simp only: add_less_cancel_left)
  finally show ?thesis by (simp only: distrib_right mult_1)
qed

text \<open>The number of blocks that hold \<open>limit\<close> bytes from \<open>discard\<close> on in the first.\<close>

lemma blocks_needed:
  fixes d l :: int
  assumes "0 \<le> d" "d < 65536" "0 < l"
  shows "(if 0 < l - (65536 - d)
          then 1 + (if (l - (65536 - d)) mod 65536 \<noteq> 0 then (l - (65536 - d)) div 65536 + 1
                    else (l - (65536 - d)) div 65536)
          else 1) = (d + l - 1) div 65536 + 1"
proof (cases "0 < l - (65536 - d)")
  case False
  with assms have "(d + l - 1) div 65536 = 0" by (intro div_pos_pos_trivial) auto
  with False show ?thesis by simp
next
  case True
  let ?m = "l - (65536 - d)"
  have m: "d + l - 1 = (?m - 1) + 1 * 65536" by simp
  have "(d + l - 1) div 65536 = 1 + (?m - 1) div 65536"
    unfolding m by (subst div_mult_self1) simp_all
  moreover have "(?m - 1) div 65536 = (if ?m mod 65536 \<noteq> 0 then ?m div 65536 else ?m div 65536 - 1)"
    by (rule pred_div) simp
  ultimately show ?thesis using True by simp
qed

lemma i64_blocks:
  assumes "0 \<le> x" "x < 2 ^ 46 + 2"
  shows "i64 (x * 65552) = x * 65552" and "i64 (34 + x * 65552) = 34 + x * 65552"
  using assms by simp_all

lemma calculateUnderlying_val:
  assumes "0 \<le> offset" "offset < 2 ^ 62" "0 \<le> limit" "limit < 2 ^ 62"
  shows "calculateUnderlying offset limit =
     (34 + offset div 65536 * 65552,
      (if limit = 0 then 1 else (offset mod 65536 + limit - 1) div 65536 + 1) * 65552,
      offset mod 65536, offset div 65536)"
proof -
  let ?b = "offset div 65536" and ?d = "offset mod 65536"
  let ?k = "if limit = 0 then 1 else (?d + limit - 1) div 65536 + 1"
  have p62: "(2::int) ^ 62 = 4611686018427387904" by simp
  have b: "0 \<le> ?b" "?b < 2 ^ 46" "0 \<le> ?d" "?d < 65536"
    using assms by (auto simp: pos_imp_zdiv_nonneg_iff div_less_iff_less_mult)
  have k: "(if 0 < limit - (65536 - ?d)
          then 1 + (if (limit - (65536 - ?d)) mod 65536 \<noteq> 0 then (limit - (65536 - ?d)) div 65536 + 1
                    else (limit - (65536 - ?d)) div 65536)
          else 1) = ?k"
    using blocks_needed [of ?d limit] b assms by (cases "limit = 0") auto
  have k_bound: "0 < ?k" "?k < 2 ^ 46 + 2"
  proof -
    show "0 < ?k" using b assms by (auto simp: pos_imp_zdiv_nonneg_iff add_nonneg_pos)
    have "(?d + limit - 1) div 65536 < 2 ^ 46 + 1"
      using b assms by (simp add: div_less_iff_less_mult)
    then show "?k < 2 ^ 46 + 2" by simp
  qed
  have i: "i64 (limit - (65536 - ?d)) = limit - (65536 - ?d)"
    using b assms by simp
  have i2: "i64 (?k * 65552) = ?k * 65552" "i64 (?b * 65552) = ?b * 65552"
    "i64 (34 + ?b * 65552) = 34 + ?b * 65552"
    using i64_blocks [of ?k] i64_blocks [of ?b] k_bound b by auto
  have cs: "int fileHeaderSize = 34" "int blockSize = 65552" "int blockDataSize = 65536"
    by (simp_all add: crypt_sizes)
  have dm: "go_div x 65536 = x div 65536" "go_mod x 65536 = x mod 65536" if "0 \<le> x" for x
    using that by simp_all
  show ?thesis
  proof (cases "0 < limit - (65536 - ?d)")
    case True
    with k show ?thesis
      unfolding calculateUnderlying_def Let_def cs dm [OF assms(1)] i i2 using assms(3)
      by (simp only: if_True i2 dm [OF less_imp_le])
  next
    case False
    with k show ?thesis
      unfolding calculateUnderlying_def Let_def cs dm [OF assms(1)] i i2 using assms(3)
      by (simp add: i64_blocks [of 1, simplified])
  qed
qed

lemma calculateUnderlying_neg:
  assumes "0 \<le> offset" "offset < 2 ^ 62" "limit < 0"
  shows "calculateUnderlying offset limit =
     (34 + offset div 65536 * 65552, -1, offset mod 65536, offset div 65536)"
proof -
  have b: "0 \<le> offset div 65536" "offset div 65536 < 2 ^ 46 + 2"
    using assms by (auto simp: pos_imp_zdiv_nonneg_iff div_less_iff_less_mult)
  have cs: "int fileHeaderSize = 34" "int blockSize = 65552" "int blockDataSize = 65536"
    by (simp_all add: crypt_sizes)
  have dm: "go_div offset 65536 = offset div 65536" "go_mod offset 65536 = offset mod 65536"
    using assms by simp_all
  have "(0 \<le> limit) = False" using assms by simp
  then show ?thesis
    unfolding calculateUnderlying_def Let_def cs dm by (simp only: i64_blocks [OF b] if_False)
qed

text \<open>
  The range \<open>calculateUnderlying\<close> asks for is right: it starts at the first byte of the block
  that holds \<open>offset\<close>, \<open>blocks\<close> and \<open>discard\<close> split \<open>offset\<close>, and it ends exactly at the end of
  the block that holds the last byte asked for, so it covers the blocks of the range and no other.
\<close>

theorem calculateUnderlying_covers:
  assumes "0 \<le> offset" "offset < 2 ^ 62" "0 < limit" "limit < 2 ^ 62"
    and "calculateUnderlying offset limit = (uo, ul, discard, blocks)"
  shows "offset = blocks * int blockDataSize + discard \<and> 0 \<le> discard \<and> discard < int blockDataSize
    \<and> uo = int fileHeaderSize + blocks * int blockSize
    \<and> uo + ul = int fileHeaderSize + ((offset + limit - 1) div int blockDataSize + 1) * int blockSize"
proof -
  have c: "uo = 34 + offset div 65536 * 65552" "blocks = offset div 65536" "discard = offset mod 65536"
    "ul = ((offset mod 65536 + limit - 1) div 65536 + 1) * 65552"
    using calculateUnderlying_val [of offset limit] assms by auto
  have "offset + limit - 1 = offset div 65536 * 65536 + (offset mod 65536 + limit - 1)"
    using div_mult_mod_eq [of offset 65536] by linarith
  then have "(offset + limit - 1) div 65536 = offset div 65536 + (offset mod 65536 + limit - 1) div 65536"
    by (simp only: div_mult_self3)
  with c show ?thesis by (simp add: crypt_sizes algebra_simps)
qed

section \<open>Witnesses\<close>

lemma DecryptedSize_EncryptedSize_witness:
  "DecryptedSize (EncryptedSize 65537) = Inr 65537"
  by (rule DecryptedSize_EncryptedSize) simp_all

lemma EncryptedSize_DecryptedSize_witness:
  "DecryptedSize 65603 = Inr 65537 \<and> EncryptedSize 65537 = 65603"
proof -
  have "DecryptedSize 65603 = Inr 65537" by (simp add: DecryptedSize_def crypt_sizes Let_def)
  with EncryptedSize_DecryptedSize [of 65603 65537] show ?thesis by simp
qed

lemma calculateUnderlying_covers_witness:
  "calculateUnderlying 65530 10 = (34, 131104, 65530, 0)
   \<and> (34::int) + 131104 = int fileHeaderSize + ((65530 + 10 - 1) div int blockDataSize + 1) * int blockSize"
proof -
  have "calculateUnderlying 65530 10 = (34, 131104, 65530, 0)"
    by (simp add: calculateUnderlying_def crypt_sizes Let_def)
  with calculateUnderlying_covers [of 65530 10 34 131104 65530 0] show ?thesis by simp
qed

end
