(* ===== verification/CryptStream.thy ===== *)
theory CryptStream
  imports CryptSize
begin

text \<open>
  The streaming cipher of internal/crypt/cipher.go: key derivation, the \<open>encrypter\<close> and the
  \<open>decrypter\<close> with their buffers, nonces and error states, and range seeks.

  The packages golang.org/x/crypto/nacl/secretbox and scrypt and crypto/aes are not in the
  repository. They are the parameters \<open>seal\<close>, \<open>unseal\<close>, \<open>scrypt\<close> and \<open>newAES\<close>;
  \<open>secretbox_ok\<close> states what secretbox documents: a sealed box is 16 bytes longer than its message
  and opens to it under the same key and nonce. The buffers of the pool are values: \<open>buf\<close> holds the
  first \<open>bufSize\<close> bytes of the array, \<open>None\<close> is the nil pointer \<open>finish\<close> leaves.
  The mutex makes each call atomic, so a call is one function on the state.
\<close>

type_synonym seal_fun = "bytes \<Rightarrow> bytes \<Rightarrow> bytes \<Rightarrow> bytes"
type_synonym unseal_fun = "bytes \<Rightarrow> bytes \<Rightarrow> bytes \<Rightarrow> bytes option"

definition secretbox_ok :: "seal_fun \<Rightarrow> unseal_fun \<Rightarrow> bool" where
  "secretbox_ok seal unseal \<longleftrightarrow>
     (\<forall>k n m. length (seal k n m) = length m + 16 \<and> unseal k n (seal k n m) = Some m)
     \<and> (\<forall>k n c m. unseal k n c = Some m \<longrightarrow> length m + 16 = length c)"

lemma secretbox_okD:
  assumes "secretbox_ok seal unseal"
  shows "length (seal k n m) = length m + 16" and "unseal k n (seal k n m) = Some m"
    and "unseal k n c = Some m' \<Longrightarrow> length m' + 16 = length c"
  using assms unfolding secretbox_ok_def by blast+

section \<open>The cipher's keys\<close>

record 'b Cipher =
  dataKey :: bytes
  nameKey :: bytes
  nameTweak :: bytes
  cblock :: "'b option"

definition zero_Cipher :: "'b Cipher" where
  "zero_Cipher = \<lparr> dataKey = replicate 32 0, nameKey = replicate 32 0,
                    nameTweak = replicate 16 0, cblock = None \<rparr>"

text \<open>Go's \<open>copy(dst[:], src)\<close> on an array.\<close>

definition go_copy :: "'a list \<Rightarrow> 'a list \<Rightarrow> 'a list" where
  "go_copy dst src = take (length dst) src @ drop (length src) dst"

definition Cipher_Key ::
    "(string \<Rightarrow> string \<Rightarrow> nat \<Rightarrow> nat \<Rightarrow> nat \<Rightarrow> nat \<Rightarrow> io_error + bytes) \<Rightarrow> (bytes \<Rightarrow> io_error + 'b)
     \<Rightarrow> string \<Rightarrow> string \<Rightarrow> 'b Cipher \<Rightarrow> io_error option \<times> 'b Cipher" where
  "Cipher_Key scrypt newAES password salt c =
     (let keySize = length (dataKey c) + length (nameKey c) + length (nameTweak c) in
      case scrypt password salt 16384 8 1 keySize of
        Inl e \<Rightarrow> (Some e, c)
      | Inr key \<Rightarrow>
          let c = c\<lparr> dataKey := go_copy (dataKey c) key,
                     nameKey := go_copy (nameKey c) (drop (length (dataKey c)) key),
                     nameTweak := go_copy (nameTweak c)
                       (drop (length (dataKey c) + length (nameKey c)) key) \<rparr>
          in case newAES (nameKey c) of
               Inl e \<Rightarrow> (Some e, c\<lparr> cblock := None \<rparr>)
             | Inr b \<Rightarrow> (None, c\<lparr> cblock := Some b \<rparr>))"

definition NewCipher where
  "NewCipher scrypt newAES password salt =
     (case Cipher_Key scrypt newAES password salt zero_Cipher of
        (Some e, _) \<Rightarrow> Inl e | (None, c) \<Rightarrow> Inr c)"

section \<open>Nonces from readers and buffers\<close>

definition nonce_fromReader ::
    "'s read_fun \<Rightarrow> 's \<Rightarrow> (io_error option \<times> bytes \<times> 's) option" where
  "nonce_fromReader rd s =
     Option.bind (readFill rd fileNonceSize [] s) (\<lambda>(bs, err, s').
       Some (if length bs \<noteq> fileNonceSize
             then (Some (ShortNonce err), go_copy (replicate fileNonceSize 0) bs, s')
             else (None, bs, s')))"

definition nonce_fromBuf :: "bytes \<Rightarrow> io_error + bytes" where
  "nonce_fromBuf buf =
     (if length (take fileNonceSize buf) \<noteq> fileNonceSize then Inl NonceBufShort
      else Inr (take fileNonceSize buf))"

text \<open>\<open>TELDRIVE\<close> and two zero bytes.\<close>

definition fileMagicBytes :: bytes where
  "fileMagicBytes = [84, 69, 76, 68, 82, 73, 86, 69, 0, 0]"

section \<open>The encrypter\<close>

record 's encrypter =
  enc_in :: 's
  enc_nonce :: bytes
  enc_buf :: "bytes option"
  enc_bufIndex :: nat
  enc_bufSize :: nat
  enc_err :: "io_error option"

definition newEncrypter ::
    "'r read_fun \<Rightarrow> 's \<Rightarrow> bytes option \<Rightarrow> 'r \<Rightarrow> ((io_error + 's encrypter) \<times> 'r) option" where
  "newEncrypter cryptoRand inp nonce r =
     Option.bind (case nonce of Some n \<Rightarrow> Some (None, n, r) | None \<Rightarrow> nonce_fromReader cryptoRand r)
       (\<lambda>(err, n, r').
         case err of Some e \<Rightarrow> Some (Inl e, r')
         | None \<Rightarrow> Some (Inr \<lparr> enc_in = inp, enc_nonce = n, enc_buf = Some (fileMagicBytes @ n),
             enc_bufIndex = 0, enc_bufSize = fileHeaderSize, enc_err = None \<rparr>, r'))"

definition encrypter_finish :: "io_error option \<Rightarrow> 's encrypter \<Rightarrow> io_error option \<times> 's encrypter" where
  "encrypter_finish err fh =
     (case enc_err fh of Some e \<Rightarrow> (Some e, fh)
      | None \<Rightarrow> (err, fh\<lparr> enc_err := err, enc_buf := None \<rparr>))"

text \<open>The last three statements of \<open>encrypter.Read\<close>: copy from the buffer.\<close>

definition encrypter_copy :: "nat \<Rightarrow> 's encrypter \<Rightarrow> bytes \<times> io_error option \<times> 's encrypter" where
  "encrypter_copy k fh =
     (let bs = take k (go_slice (enc_bufIndex fh) (enc_bufSize fh) (the (enc_buf fh)))
      in (bs, None, fh\<lparr> enc_bufIndex := enc_bufIndex fh + length bs \<rparr>))"

definition encrypter_Read :: "seal_fun \<Rightarrow> bytes \<Rightarrow> 's read_fun \<Rightarrow> 's encrypter read_fun" where
  "encrypter_Read seal key rd k fh =
     (case enc_err fh of Some e \<Rightarrow> Some ([], Some e, fh)
      | None \<Rightarrow>
        if enc_bufIndex fh \<ge> enc_bufSize fh then
          Option.bind (readFill rd blockDataSize [] (enc_in fh)) (\<lambda>(bs, err, s').
            let fh = fh\<lparr> enc_in := s' \<rparr> in
            if bs = [] then (case encrypter_finish err fh of (e, fh) \<Rightarrow> Some ([], e, fh))
            else Some (encrypter_copy k
              (fh\<lparr> enc_buf := Some (seal key (enc_nonce fh) bs), enc_bufIndex := 0,
                   enc_bufSize := blockHeaderSize + length bs,
                   enc_nonce := nonce_increment (enc_nonce fh) \<rparr>)))
        else Some (encrypter_copy k fh))"

definition encrypter_Close :: "'s encrypter \<Rightarrow> io_error option" where
  "encrypter_Close fh = None"

definition EncryptData where
  "EncryptData cryptoRand inp r = newEncrypter cryptoRand inp None r"

section \<open>The decrypter\<close>

text \<open>
  \<open>open_range\<close> is the \<open>OpenRangeSeek\<close> callback, from an offset and a limit to a new reader or an
  error; \<open>None\<close> is the nil function of a decrypter made by \<open>newDecrypter\<close>.
\<close>

type_synonym 's open_range = "int \<Rightarrow> int \<Rightarrow> io_error + 's"

record 's decrypter =
  rc :: 's
  dec_nonce :: bytes
  initialNonce :: bytes
  dec_buf :: "bytes option"
  bufIndex :: nat
  bufSize :: nat
  dec_err :: "io_error option"
  limit :: int
  open_range :: "'s open_range option"

definition decrypter_finish :: "io_error \<Rightarrow> 's decrypter \<Rightarrow> io_error \<times> 's decrypter" where
  "decrypter_finish err fh =
     (case dec_err fh of Some e \<Rightarrow> (e, fh)
      | None \<Rightarrow> (err, fh\<lparr> dec_err := Some err, dec_buf := None \<rparr>))"

definition decrypter_unFinish :: "'s decrypter \<Rightarrow> 's decrypter" where
  "decrypter_unFinish fh =
     fh\<lparr> dec_err := None, dec_buf := Some [], bufIndex := 0, bufSize := 0 \<rparr>"

text \<open>\<open>closeR\<close> is the \<open>Close\<close> of the underlying reader.\<close>

definition decrypter_Close ::
    "('s \<Rightarrow> io_error option) \<Rightarrow> 's decrypter \<Rightarrow> io_error option \<times> 's decrypter" where
  "decrypter_Close closeR fh =
     (if dec_err fh = Some FileClosed then (Some FileClosed, fh)
      else
        let fh = (if dec_err fh = None then snd (decrypter_finish EOF fh) else fh);
            fh = fh\<lparr> dec_err := Some FileClosed \<rparr>
        in (closeR (rc fh), fh))"

text \<open>
  \<open>fillBuffer\<close>: the next block. A block that fails authentication is replaced by zeros unless the
  reader reported an error other than the end of file.
\<close>

definition decrypter_fillBuffer ::
    "unseal_fun \<Rightarrow> bytes \<Rightarrow> 's read_fun \<Rightarrow> 's decrypter \<Rightarrow> (io_error option \<times> 's decrypter) option" where
  "decrypter_fillBuffer unseal key rd fh =
     Option.bind (readFill rd blockSize [] (rc fh)) (\<lambda>(bs, err, s').
       let fh = fh\<lparr> rc := s' \<rparr>; n = length bs;
           hard = (err \<noteq> None \<and> err \<noteq> Some EOF);
           next_block = (\<lambda>plain. (None, fh\<lparr> dec_buf := Some plain, bufIndex := 0,
             bufSize := n - blockHeaderSize, dec_nonce := nonce_increment (dec_nonce fh) \<rparr>))
       in Some (
         if n = 0 then (err, fh)
         else if n \<le> blockHeaderSize then (if hard then err else Some BadHeader, fh)
         else (case unseal key (dec_nonce fh) bs of
                 Some plain \<Rightarrow> next_block plain
               | None \<Rightarrow> if hard then (err, fh)
                         else next_block (replicate (n - blockHeaderSize) 0))))"

text \<open>The second half of \<open>decrypter.Read\<close>: hand out bytes of the buffer within the limit.\<close>

definition decrypter_copy :: "nat \<Rightarrow> 's decrypter \<Rightarrow> bytes \<times> io_error option \<times> 's decrypter" where
  "decrypter_copy k fh =
     (let avail = bufSize fh - bufIndex fh;
          toCopy = (if limit fh \<ge> 0 \<and> limit fh < int avail then nat (limit fh) else avail);
          bs = take k (go_slice (bufIndex fh) (bufIndex fh + toCopy) (the (dec_buf fh)));
          fh = fh\<lparr> bufIndex := bufIndex fh + length bs \<rparr>
      in if limit fh \<ge> 0 then
           let fh = fh\<lparr> limit := limit fh - int (length bs) \<rparr> in
           if limit fh = 0
           then (case decrypter_finish EOF fh of (e, fh) \<Rightarrow> (bs, Some e, fh))
           else (bs, None, fh)
         else (bs, None, fh))"

definition decrypter_Read :: "unseal_fun \<Rightarrow> bytes \<Rightarrow> 's read_fun \<Rightarrow> 's decrypter read_fun" where
  "decrypter_Read unseal key rd k fh =
     (case dec_err fh of Some e \<Rightarrow> Some ([], Some e, fh)
      | None \<Rightarrow>
        if bufIndex fh \<ge> bufSize fh then
          Option.bind (decrypter_fillBuffer unseal key rd fh) (\<lambda>(err, fh).
            case err of Some e \<Rightarrow> (case decrypter_finish e fh of (e, fh) \<Rightarrow> Some ([], Some e, fh))
            | None \<Rightarrow> Some (decrypter_copy k fh))
        else Some (decrypter_copy k fh))"

text \<open>\<open>newDecrypter\<close>; on failure the reader is closed and only the error is returned.\<close>

definition newDecrypter :: "'s read_fun \<Rightarrow> 's \<Rightarrow> (io_error + 's decrypter) option" where
  "newDecrypter rd s =
     Option.bind (readFill rd fileHeaderSize [] s) (\<lambda>(bs, err, s').
       Some (
         if length bs < fileHeaderSize \<and> err = Some EOF then Inl FileTooShort
         else if err \<noteq> Some EOF \<and> err \<noteq> None then Inl (the err)
         else if take fileMagicSize bs \<noteq> fileMagicBytes then Inl BadMagic
         else (case nonce_fromBuf (drop fileMagicSize bs) of
                 Inl e \<Rightarrow> Inl e
               | Inr n \<Rightarrow> Inr \<lparr> rc = s', dec_nonce = n, initialNonce = n, dec_buf = Some [],
                    bufIndex = 0, bufSize = 0, dec_err = None, limit = -1, open_range = None \<rparr>)))"

text \<open>\<open>whence\<close> is \<open>io.SeekStart\<close> when it is 0.\<close>

definition decrypter_RangeSeek ::
    "unseal_fun \<Rightarrow> bytes \<Rightarrow> 's read_fun \<Rightarrow> int \<Rightarrow> int \<Rightarrow> int \<Rightarrow> 's decrypter
     \<Rightarrow> ((io_error + int) \<times> 's decrypter) option" where
  "decrypter_RangeSeek unseal key rd offset whence lim fh =
     (let fail = (\<lambda>e fh. Some (case decrypter_finish e fh of (e, fh) \<Rightarrow> (Inl e, fh))) in
      case open_range fh of
        None \<Rightarrow> fail SeekNotInit fh
      | Some opn \<Rightarrow>
          if whence \<noteq> 0 then fail SeekWhence fh
          else if dec_err fh \<noteq> Some EOF \<and> dec_err fh \<noteq> None
          then Some (Inl (the (dec_err fh)), fh)
          else
            let fh = (if dec_err fh = Some EOF then decrypter_unFinish fh else fh) in
            (case calculateUnderlying offset lim of (uo, ul, discard, blocks) \<Rightarrow>
               let fh = fh\<lparr> dec_nonce := nonce_add (word_of_int blocks) (initialNonce fh) \<rparr> in
               case opn uo ul of
                 Inl e \<Rightarrow> fail (ReopenFailed e) fh
               | Inr s \<Rightarrow>
                   Option.bind (decrypter_fillBuffer unseal key rd (fh\<lparr> rc := s \<rparr>)) (\<lambda>(err, fh).
                     case err of
                       Some e \<Rightarrow> fail e fh
                     | None \<Rightarrow>
                         if discard > int (bufSize fh) then fail BadSeek fh
                         else Some (Inr offset, fh\<lparr> bufIndex := nat discard, limit := lim \<rparr>))))"

definition decrypter_Seek where
  "decrypter_Seek unseal key rd offset whence fh =
     decrypter_RangeSeek unseal key rd offset whence (-1) fh"

definition newDecrypterSeek ::
    "unseal_fun \<Rightarrow> bytes \<Rightarrow> 's read_fun \<Rightarrow> 's open_range \<Rightarrow> int \<Rightarrow> int
     \<Rightarrow> (io_error + 's decrypter) option" where
  "newDecrypterSeek unseal key rd opn offset lim =
     (case (if offset = 0 \<and> lim < 0 then opn 0 (-1)
            else if offset = 0
            then (case calculateUnderlying offset lim of (_, ul, _, _) \<Rightarrow> opn 0 (i64 (int fileHeaderSize + ul)))
            else opn 0 (int fileHeaderSize)) of
        Inl e \<Rightarrow> Some (Inl e)
      | Inr s \<Rightarrow>
          Option.bind (newDecrypter rd s) (\<lambda>r.
            case r of Inl e \<Rightarrow> Some (Inl e)
            | Inr fh \<Rightarrow>
                let fh = fh\<lparr> open_range := Some opn \<rparr> in
                if offset \<noteq> 0 then
                  Option.bind (decrypter_RangeSeek unseal key rd offset 0 lim fh) (\<lambda>(r, fh).
                    Some (case r of Inl e \<Rightarrow> Inl e | Inr _ \<Rightarrow> Inr fh))
                else if lim < 0 then Some (Inr fh)
                else Some (Inr (fh\<lparr> limit := lim \<rparr>))))"

definition DecryptData where
  "DecryptData rd s = newDecrypter rd s"

definition DecryptDataSeek where
  "DecryptDataSeek unseal key rd opn offset lim = newDecrypterSeek unseal key rd opn offset lim"

end
