(* ===== verification/CryptSpec.thy ===== *)
theory CryptSpec
  imports CryptStream
begin

text \<open>
  What the streaming cipher computes. \<open>encrypted\<close> is the file format as a function of the plain data,
  \<open>unseal_blocks\<close> its inverse with the zeros the decrypter puts in place of a damaged block. The
  encrypter and the decrypter are readers (\<open>go_reader\<close>) whose content is given by these functions,
  for any underlying reader; the properties follow from the lemmas of that interface.
\<close>

function seal_blocks :: "seal_fun \<Rightarrow> bytes \<Rightarrow> bytes \<Rightarrow> bytes \<Rightarrow> bytes" where
  "seal_blocks seal key n data =
     (if data = [] then []
      else seal key n (take blockDataSize data)
           @ seal_blocks seal key (nonce_increment n) (drop blockDataSize data))"
  by pat_completeness auto
termination by (relation "measure (\<lambda>(_, _, _, d). length d)") (auto simp: crypt_sizes)

declare seal_blocks.simps [simp del]

definition encrypted :: "seal_fun \<Rightarrow> bytes \<Rightarrow> bytes \<Rightarrow> bytes \<Rightarrow> bytes" where
  "encrypted seal key n data = fileMagicBytes @ n @ seal_blocks seal key n data"

function unseal_blocks :: "unseal_fun \<Rightarrow> bytes \<Rightarrow> bytes \<Rightarrow> bytes \<Rightarrow> bytes" where
  "unseal_blocks unseal key n c =
     (if length (take blockSize c) \<le> blockHeaderSize then []
      else (case unseal key n (take blockSize c) of
              Some p \<Rightarrow> p
            | None \<Rightarrow> replicate (length (take blockSize c) - blockHeaderSize) 0)
           @ unseal_blocks unseal key (nonce_increment n) (drop blockSize c))"
  by pat_completeness auto
termination by (relation "measure (\<lambda>(_, _, _, c). length c)") (auto simp: crypt_sizes)

declare unseal_blocks.simps [simp del]

text \<open>A cipher text without a block that is only a header.\<close>

definition well_framed :: "bytes \<Rightarrow> bool" where
  "well_framed c \<longleftrightarrow> length c mod blockSize = 0 \<or> length c mod blockSize > blockHeaderSize"

lemma seal_blocks_Nil [simp]: "seal_blocks seal key n [] = []"
  by (simp add: seal_blocks.simps)

lemma unseal_blocks_Nil [simp]: "unseal_blocks unseal key n [] = []"
  by (simp add: unseal_blocks.simps)

lemma well_framed_Nil [simp]: "well_framed []"
  by (simp add: well_framed_def)

lemma well_framed_drop:
  assumes "well_framed c"
  shows "well_framed (drop blockSize c)"
proof (cases "length c < blockSize")
  case False
  then have "(length c - blockSize) mod blockSize = length c mod blockSize"
    by (simp add: le_mod_geq)
  with assms show ?thesis by (simp add: well_framed_def)
qed simp

lemma well_framed_take:
  assumes "well_framed c" "c \<noteq> []"
  shows "length (take blockSize c) > blockHeaderSize"
  using assms by (cases "length c < blockSize") (auto simp: well_framed_def crypt_sizes)

section \<open>The blocks of the two directions\<close>

lemma seal_blocks_Cons:
  "data \<noteq> [] \<Longrightarrow> seal_blocks seal key n data
     = seal key n (take blockDataSize data)
       @ seal_blocks seal key (nonce_increment n) (drop blockDataSize data)"
  by (subst seal_blocks.simps) simp

lemma unseal_blocks_split:
  assumes "take blockSize c = b" "drop blockSize c = r" "blockHeaderSize < length b"
  shows "unseal_blocks unseal key n c =
     (case unseal key n b of Some p \<Rightarrow> p | None \<Rightarrow> replicate (length b - blockHeaderSize) 0)
     @ unseal_blocks unseal key (nonce_increment n) r"
proof -
  have n: "\<not> length b \<le> blockHeaderSize" using assms(3) by simp
  show ?thesis by (subst unseal_blocks.simps) (simp only: assms(1,2) n if_False)
qed

lemma length_seal_blocks:
  assumes "secretbox_ok seal unseal"
  shows "length (seal_blocks seal key n data)
     = length data + 16 * ((length data + 65535) div 65536)"
proof (induction "length data" arbitrary: n data rule: less_induct)
  case less
  show ?case
  proof (cases "data = []")
    case False
    then have s: "length (drop blockDataSize data) < length data" by (simp add: crypt_sizes)
    have "(length data + 65535) div 65536 = Suc ((length data - 65536 + 65535) div 65536)"
    proof (cases "length data \<le> 65536")
      case True
      moreover have "Suc 0 \<le> length data" using False by (cases data) simp_all
      ultimately show ?thesis by (intro div_nat_eqI) simp_all
    next
      case False
      then obtain k where "length data = k + 65536" by (metis le_iff_add add.commute nat_le_linear)
      then show ?thesis by simp
    qed
    then show ?thesis
      using False less [OF s] by (simp add: seal_blocks_Cons secretbox_okD(1) [OF assms] crypt_sizes)
  qed simp
qed

lemma seal_blocks_framed:
  assumes "secretbox_ok seal unseal"
  shows "well_framed (seal_blocks seal key n data)"
proof (induction "length data" arbitrary: n data rule: less_induct)
  case less
  show ?case
  proof (cases "length data < blockDataSize")
    case True
    then show ?thesis
      by (cases "data = []")
         (simp_all add: seal_blocks_Cons secretbox_okD(1) [OF assms] crypt_sizes well_framed_def)
  next
    case False
    then have ne: "data \<noteq> []" and s: "length (drop blockDataSize data) < length data"
      by (auto simp: crypt_sizes)
    from less [OF s] False show ?thesis
      by (simp add: seal_blocks_Cons [OF ne] secretbox_okD(1) [OF assms] crypt_sizes well_framed_def
            add.commute [of 65552])
  qed
qed

lemma seal_block_split:
  assumes "secretbox_ok seal unseal" and "data \<noteq> []"
  shows "take blockSize (seal_blocks seal key n data) = seal key n (take blockDataSize data)"
    and "drop blockSize (seal_blocks seal key n data)
         = seal_blocks seal key (nonce_increment n) (drop blockDataSize data)"
proof -
  have lb: "length (seal key n (take blockDataSize data)) = length (take blockDataSize data) + 16"
    by (rule secretbox_okD(1) [OF assms(1)])
  show "take blockSize (seal_blocks seal key n data) = seal key n (take blockDataSize data)"
    "drop blockSize (seal_blocks seal key n data)
         = seal_blocks seal key (nonce_increment n) (drop blockDataSize data)"
    unfolding seal_blocks_Cons [OF assms(2)] using lb
    by (cases "length data < blockDataSize"; simp add: crypt_sizes)+
qed

lemma unseal_seal_blocks:
  assumes "secretbox_ok seal unseal"
  shows "unseal_blocks unseal key n (seal_blocks seal key n data) = data"
proof (induction "length data" arbitrary: n data rule: less_induct)
  case less
  show ?case
  proof (cases "data = []")
    case False
    have s: "length (drop blockDataSize data) < length data" using False by (simp add: crypt_sizes)
    have l: "blockHeaderSize < length (seal key n (take blockDataSize data))"
      using False by (simp add: secretbox_okD(1) [OF assms] crypt_sizes)
    show ?thesis
      unfolding unseal_blocks_split [OF seal_block_split [OF assms False] l]
      by (simp add: secretbox_okD(2) [OF assms] less [OF s])
  qed simp
qed

section \<open>The encrypter is a reader of the encrypted bytes\<close>

definition enc_content :: "seal_fun \<Rightarrow> bytes \<Rightarrow> ('s \<Rightarrow> bytes) \<Rightarrow> 's encrypter \<Rightarrow> bytes" where
  "enc_content seal key content fh =
     (case enc_err fh of Some _ \<Rightarrow> []
      | None \<Rightarrow> go_slice (enc_bufIndex fh) (enc_bufSize fh) (the (enc_buf fh))
                @ seal_blocks seal key (enc_nonce fh) (content (enc_in fh)))"

definition enc_final :: "('s \<Rightarrow> io_error) \<Rightarrow> 's encrypter \<Rightarrow> io_error" where
  "enc_final final fh = (case enc_err fh of Some e \<Rightarrow> e | None \<Rightarrow> final (enc_in fh))"

text \<open>Once the encrypter has ended, its input is used up.\<close>

definition enc_invar :: "('s \<Rightarrow> bytes) \<Rightarrow> ('s \<Rightarrow> bool) \<Rightarrow> 's encrypter \<Rightarrow> bool" where
  "enc_invar content invar fh \<longleftrightarrow> invar (enc_in fh)
     \<and> (case enc_err fh of Some _ \<Rightarrow> content (enc_in fh) = []
        | None \<Rightarrow> length (the (enc_buf fh)) = enc_bufSize fh \<and> enc_bufIndex fh \<le> enc_bufSize fh)"

text \<open>Copying out of a buffer that holds something.\<close>

lemma go_slice_take_rest:
  assumes "b \<le> length xs"
  shows "go_slice a b xs
     = take k (go_slice a b xs) @ go_slice (a + length (take k (go_slice a b xs))) b xs"
proof (cases "k \<le> b - a")
  case True
  then have "length (take k (go_slice a b xs)) = k" using assms by simp
  moreover have "drop k (go_slice a b xs) = go_slice (a + k) b xs"
    by (simp add: go_slice_def drop_take add.commute)
  ultimately show ?thesis by (metis append_take_drop_id)
next
  case False
  then have "take k (go_slice a b xs) = go_slice a b xs" by simp
  moreover have "go_slice (a + length (go_slice a b xs)) b xs = []"
    using assms by (cases "a \<le> b") simp_all
  ultimately show ?thesis by simp
qed

lemma encrypter_copy_spec:
  assumes "enc_err fh = None" "length (the (enc_buf fh)) = enc_bufSize fh"
    "enc_bufIndex fh < enc_bufSize fh" "0 < k" "invar (enc_in fh)"
    and "encrypter_copy k fh = (bs, e, fh')"
  shows "e = None \<and> bs \<noteq> [] \<and> length bs \<le> k \<and> enc_invar content invar fh'
     \<and> enc_final final fh' = enc_final final fh
     \<and> enc_content seal key content fh = bs @ enc_content seal key content fh'"
proof -
  let ?sl = "go_slice (enc_bufIndex fh) (enc_bufSize fh) (the (enc_buf fh))"
  have r: "bs = take k ?sl" "e = None" "fh' = fh\<lparr> enc_bufIndex := enc_bufIndex fh + length bs \<rparr>"
    using assms(6) by (auto simp: encrypter_copy_def Let_def)
  have l: "length ?sl = enc_bufSize fh - enc_bufIndex fh" using assms(2) by simp
  have "length bs \<noteq> 0" using l assms(3,4) unfolding r(1) by (simp only: length_take)
  then have "bs \<noteq> []" by simp
  moreover have "?sl = bs @ go_slice (enc_bufIndex fh + length bs) (enc_bufSize fh) (the (enc_buf fh))"
    unfolding r(1) by (rule go_slice_take_rest) (simp add: assms(2))
  moreover have "length bs \<le> k" "length bs \<le> enc_bufSize fh - enc_bufIndex fh"
    unfolding r(1) by simp_all
  ultimately show ?thesis
    using assms(1,2,3,5) r(2,3) by (simp add: enc_invar_def enc_final_def enc_content_def)
qed

context go_reader begin

lemma encrypter_step:
  assumes ok: "secretbox_ok seal unseal" and inv: "enc_invar content invar fh" and k: "0 < k"
  shows "\<exists>bs e fh'. encrypter_Read seal key Read k fh = Some (bs, e, fh')
     \<and> length bs \<le> k \<and> enc_invar content invar fh' \<and> enc_final final fh' = enc_final final fh
     \<and> enc_content seal key content fh = bs @ enc_content seal key content fh'
     \<and> (case e of None \<Rightarrow> bs \<noteq> []
        | Some er \<Rightarrow> er = enc_final final fh \<and> enc_content seal key content fh' = [])"
proof (cases "enc_err fh")
  case (Some e)
  then show ?thesis using inv by (auto simp: encrypter_Read_def enc_final_def enc_content_def)
next
  case None
  with inv have i: "invar (enc_in fh)" "length (the (enc_buf fh)) = enc_bufSize fh"
    "enc_bufIndex fh \<le> enc_bufSize fh" by (auto simp: enc_invar_def)
  show ?thesis
  proof (cases "enc_bufIndex fh \<ge> enc_bufSize fh")
    case False
    obtain bs e fh' where c: "encrypter_copy k fh = (bs, e, fh')" by (metis prod_cases3)
    from encrypter_copy_spec [OF None i(2) _ k, of invar, OF _ i(1) c] False None c
    show ?thesis by (simp add: encrypter_Read_def)
  next
    case True
    have "0 < blockDataSize" by (simp add: crypt_sizes)
    from readFill_0 [OF i(1) this] obtain err s' where
      rf: "readFill Read blockDataSize [] (enc_in fh) = Some (take blockDataSize (content (enc_in fh)), err, s')"
      and s': "invar s'" "final s' = final (enc_in fh)" "content s' = drop blockDataSize (content (enc_in fh))"
      and er: "case err of None \<Rightarrow> blockDataSize \<le> length (content (enc_in fh))
         | Some er \<Rightarrow> er = final (enc_in fh) \<and> content s' = []"
      by metis
    have slice: "go_slice (enc_bufIndex fh) (enc_bufSize fh) (the (enc_buf fh)) = []"
      using True by simp
    show ?thesis
    proof (cases "content (enc_in fh) = []")
      case emp: True
      with er obtain e where "err = Some e" "e = final (enc_in fh)"
        by (auto simp: crypt_sizes split: option.splits)
      with emp rf None True slice s' show ?thesis
        by (auto simp: encrypter_Read_def encrypter_finish_def enc_invar_def enc_final_def
              enc_content_def Let_def)
    next
      case ne: False
      let ?d = "take blockDataSize (content (enc_in fh))"
      let ?g = "fh\<lparr> enc_in := s', enc_buf := Some (seal key (enc_nonce fh) ?d), enc_bufIndex := 0,
                   enc_bufSize := blockHeaderSize + length ?d,
                   enc_nonce := nonce_increment (enc_nonce fh) \<rparr>"
      obtain bs e fh' where c: "encrypter_copy k ?g = (bs, e, fh')" by (metis prod_cases3)
      have d: "?d \<noteq> []" using ne by (simp add: crypt_sizes)
      have rd: "encrypter_Read seal key Read k fh = Some (bs, e, fh')"
        using None True rf d c by (simp add: encrypter_Read_def Let_def)
      have lb: "length (seal key (enc_nonce fh) ?d) = blockHeaderSize + length ?d"
        by (simp add: secretbox_okD(1) [OF ok] crypt_sizes)
      have sp: "e = None \<and> bs \<noteq> [] \<and> length bs \<le> k \<and> enc_invar content invar fh'
        \<and> enc_final final fh' = enc_final final ?g
        \<and> enc_content seal key content ?g = bs @ enc_content seal key content fh'"
        by (rule encrypter_copy_spec [OF _ _ _ k _ c])
           (use None lb s' in \<open>simp_all add: crypt_sizes\<close>)
      have "enc_content seal key content ?g = enc_content seal key content fh"
        using None slice lb s' ne
        by (simp add: enc_content_def seal_blocks_Cons [OF ne] go_slice_def)
      moreover have "enc_final final ?g = enc_final final fh"
        using None s' by (simp add: enc_final_def)
      ultimately show ?thesis using rd sp by simp
    qed
  qed
qed

lemma encrypter_reader:
  assumes ok: "secretbox_ok seal unseal"
  shows "go_reader (encrypter_Read seal key Read) (enc_content seal key content) (enc_final final)
     (enc_invar content invar) (\<lambda>fh. length (enc_content seal key content fh))"
proof (unfold_locales, goal_cases)
  case (1 fh k)
  then show ?case using encrypter_step [OF ok 1] by blast
next
  case (2 fh k bs e fh')
  then show ?case using encrypter_step [OF ok 2(1,2), of key] by auto
next
  case (3 fh k bs e fh')
  then show ?case using encrypter_step [OF ok 3(1,2), of key] by auto
next
  case (4 fh k bs e fh')
  then show ?case using encrypter_step [OF ok 4(1,2), of key] by auto
next
  case (5 fh k bs e fh')
  then show ?case using encrypter_step [OF ok 5(1,2), of key] by auto
next
  case (6 fh k bs fh')
  then show ?case using encrypter_step [OF ok 6(1,2), of key] by auto
next
  case (7 fh k bs er fh')
  then show ?case using encrypter_step [OF ok 7(1,2), of key] by auto
qed

end

section \<open>The decrypter is a reader of the plain bytes\<close>

text \<open>The bytes a limit of the decrypter lets through; a negative limit is none.\<close>

definition limited :: "int \<Rightarrow> bytes \<Rightarrow> bytes" where
  "limited lim bs = (if lim < 0 then bs else take (nat lim) bs)"

definition dec_content :: "unseal_fun \<Rightarrow> bytes \<Rightarrow> ('s \<Rightarrow> bytes) \<Rightarrow> 's decrypter \<Rightarrow> bytes" where
  "dec_content unseal key content fh =
     (case dec_err fh of Some _ \<Rightarrow> []
      | None \<Rightarrow> limited (limit fh)
          (go_slice (bufIndex fh) (bufSize fh) (the (dec_buf fh))
           @ unseal_blocks unseal key (dec_nonce fh) (content (rc fh))))"

definition dec_final :: "'s decrypter \<Rightarrow> io_error" where
  "dec_final fh = (case dec_err fh of Some e \<Rightarrow> e | None \<Rightarrow> EOF)"

definition dec_invar ::
    "('s \<Rightarrow> bool) \<Rightarrow> ('s \<Rightarrow> io_error) \<Rightarrow> ('s \<Rightarrow> bytes) \<Rightarrow> 's decrypter \<Rightarrow> bool" where
  "dec_invar invar final content fh \<longleftrightarrow>
     (dec_err fh = None \<longrightarrow>
        invar (rc fh) \<and> final (rc fh) = EOF \<and> well_framed (content (rc fh))
        \<and> length (the (dec_buf fh)) = bufSize fh \<and> bufIndex fh \<le> bufSize fh)"

lemma limited_append_exact:
  "0 \<le> lim \<Longrightarrow> lim \<le> int (length bs) \<Longrightarrow> limited lim (bs @ xs) = take (nat lim) bs"
  by (simp add: limited_def)

lemma decrypter_copy_spec:
  assumes err: "dec_err fh = None" and len: "length (the (dec_buf fh)) = bufSize fh"
    and ne: "bufIndex fh < bufSize fh" and k: "0 < k"
    and und: "invar (rc fh)" "final (rc fh) = EOF" "well_framed (content (rc fh))"
    and c: "decrypter_copy k fh = (bs, e, fh')"
  shows "length bs \<le> k \<and> dec_invar invar final content fh'
     \<and> dec_final fh' = dec_final fh
     \<and> dec_content unseal key content fh = bs @ dec_content unseal key content fh'
     \<and> (case e of None \<Rightarrow> bs \<noteq> []
        | Some er \<Rightarrow> er = dec_final fh \<and> dec_content unseal key content fh' = [])"
proof -
  let ?sl = "go_slice (bufIndex fh) (bufSize fh) (the (dec_buf fh))"
  let ?rest = "unseal_blocks unseal key (dec_nonce fh) (content (rc fh))"
  have lsl: "length ?sl = bufSize fh - bufIndex fh" using len by simp
  define m where "m = (if limit fh \<ge> 0 \<and> limit fh < int (bufSize fh - bufIndex fh)
                       then min k (nat (limit fh)) else min k (bufSize fh - bufIndex fh))"
  define toCopy where "toCopy = (if limit fh \<ge> 0 \<and> limit fh < int (bufSize fh - bufIndex fh)
     then nat (limit fh) else bufSize fh - bufIndex fh)"
  have mt: "m = min k toCopy" by (simp add: m_def toCopy_def)
  have tc: "toCopy \<le> bufSize fh - bufIndex fh" unfolding toCopy_def by auto
  have piece: "take k (go_slice (bufIndex fh) (bufIndex fh + toCopy) (the (dec_buf fh))) = take m ?sl"
    using tc by (simp add: go_slice_def mt min_def)
  have lm: "length (take m ?sl) = m" using lsl tc by (simp add: mt)
  have cp: "decrypter_copy k fh =
     (let g = fh\<lparr> bufIndex := bufIndex fh + m \<rparr> in
      if limit fh \<ge> 0 then
        let g = g\<lparr> limit := limit fh - int m \<rparr> in
        if limit g = 0 then (case decrypter_finish EOF g of (e, g) \<Rightarrow> (take m ?sl, Some e, g))
        else (take m ?sl, None, g)
      else (take m ?sl, None, g))"
    unfolding decrypter_copy_def Let_def toCopy_def [symmetric] piece lm by simp
  have bs: "bs = take m ?sl"
    using c unfolding cp by (simp add: Let_def split: if_splits prod.splits)
  have lbs: "length bs = m" using lm bs by simp
  have sl: "?sl = bs @ go_slice (bufIndex fh + m) (bufSize fh) (the (dec_buf fh))"
    using go_slice_take_rest [of "bufSize fh" "the (dec_buf fh)" "bufIndex fh" m] lbs len
    by (simp add: bs)
  have ix: "bufIndex fh + m \<le> bufSize fh" using ne unfolding m_def by (auto simp: min_def)
  show ?thesis
  proof (cases "limit fh < 0")
    case True
    then have "fh' = fh\<lparr> bufIndex := bufIndex fh + m \<rparr>" "e = None"
      using c unfolding cp by (simp_all add: Let_def)
    moreover have "0 < m" using True ne k by (simp add: m_def)
    ultimately show ?thesis
      using err len und True ix lbs sl
      by (auto simp: dec_invar_def dec_final_def dec_content_def limited_def m_def)
  next
    case False
    define g where "g = fh\<lparr> bufIndex := bufIndex fh + m, limit := limit fh - int m \<rparr>"
    have ml: "int m \<le> limit fh" using False unfolding m_def by (auto simp: min_def)
    have con: "dec_content unseal key content fh = bs @ dec_content unseal key content g"
      using err sl False ml lbs
      by (simp add: dec_content_def g_def limited_def nat_diff_distrib)
    show ?thesis
    proof (cases "limit fh = int m")
      case True
      then have r: "e = Some EOF" "fh' = g\<lparr> dec_err := Some EOF, dec_buf := None \<rparr>"
        using c False err unfolding cp by (auto simp: decrypter_finish_def Let_def g_def)
      have "dec_content unseal key content g = []"
        using True err by (simp add: dec_content_def g_def limited_def)
      then show ?thesis
        using r con err lbs
        by (simp add: dec_invar_def dec_final_def dec_content_def [of _ _ _ "g\<lparr> dec_err := _, dec_buf := _ \<rparr>"] m_def)
    next
      case neq: False
      then have r: "e = None" "fh' = g"
        using c False ml unfolding cp by (auto simp: Let_def g_def)
      have "0 < m" using False neq ne k unfolding m_def by (auto simp: min_def split: if_splits)
      then show ?thesis
        using r con err lbs und len ix
        by (auto simp: dec_invar_def dec_final_def g_def m_def)
    qed
  qed
qed

lemma go_slice_all: "go_slice 0 (length xs) xs = xs"
  by (simp add: go_slice_def)

text \<open>What \<open>fillBuffer\<close> leaves behind on a well-framed cipher text.\<close>

context go_reader begin

lemma fillBuffer_spec:
  assumes inv: "invar (rc fh)" and fin: "final (rc fh) = EOF"
    and wf: "well_framed (content (rc fh))" and ok: "secretbox_ok seal unseal"
  obtains (eof) fh' where "content (rc fh) = []"
      and "decrypter_fillBuffer unseal key Read fh = Some (Some EOF, fh')"
      and "dec_err fh' = dec_err fh"
  | (data) plain s' fh' where "content (rc fh) \<noteq> []"
      and "decrypter_fillBuffer unseal key Read fh = Some (None, fh')"
      and "fh' = fh\<lparr> rc := s', dec_buf := Some plain, bufIndex := 0, bufSize := length plain,
                     dec_nonce := nonce_increment (dec_nonce fh) \<rparr>"
      and "plain \<noteq> []" and "invar s'" and "final s' = EOF" and "well_framed (content s')"
      and "unseal_blocks unseal key (dec_nonce fh) (content (rc fh))
           = plain @ unseal_blocks unseal key (nonce_increment (dec_nonce fh)) (content s')"
      and "length plain = length (take blockSize (content (rc fh))) - blockHeaderSize"
proof -
  let ?c = "content (rc fh)"
  have "0 < blockSize" by (simp add: crypt_sizes)
  from readFill_0 [OF inv this] obtain err s' where
    rf: "readFill Read blockSize [] (rc fh) = Some (take blockSize ?c, err, s')"
    and s': "invar s'" "final s' = final (rc fh)" "content s' = drop blockSize ?c"
    and er: "case err of None \<Rightarrow> blockSize \<le> length ?c | Some e \<Rightarrow> e = final (rc fh) \<and> content s' = []"
    by metis
  have soft: "err = None \<or> err = Some EOF" using er fin by (auto split: option.splits)
  show thesis
  proof (cases "?c = []")
    case True
    with er fin have "err = Some EOF" by (auto simp: crypt_sizes split: option.splits)
    with True rf show thesis
      by (intro eof [of "fh\<lparr> rc := s' \<rparr>"]) (simp_all add: decrypter_fillBuffer_def Let_def)
  next
    case False
    let ?b = "take blockSize ?c"
    have l: "blockHeaderSize < length ?b" by (rule well_framed_take [OF wf False])
    define plain where "plain = (case unseal key (dec_nonce fh) ?b of Some p \<Rightarrow> p
       | None \<Rightarrow> replicate (length ?b - blockHeaderSize) 0)"
    have lp: "length plain = length ?b - blockHeaderSize"
      unfolding plain_def using secretbox_okD(3) [OF ok, of key "dec_nonce fh" ?b]
      by (auto simp: crypt_sizes split: option.splits)
    have ne: "plain \<noteq> []" using lp l by auto
    obtain b where b: "b = ?b" by simp
    have "length b \<noteq> 0" "\<not> length b \<le> blockHeaderSize" using l b by auto
    then have "decrypter_fillBuffer unseal key Read fh = Some (None,
       fh\<lparr> rc := s', dec_buf := Some plain, bufIndex := 0, bufSize := length b - blockHeaderSize,
           dec_nonce := nonce_increment (dec_nonce fh) \<rparr>)"
      using rf unfolding decrypter_fillBuffer_def plain_def b [symmetric]
      using soft by (cases "unseal key (dec_nonce fh) b"; elim disjE) (simp_all add: Let_def)
    then have fb: "decrypter_fillBuffer unseal key Read fh = Some (None,
       fh\<lparr> rc := s', dec_buf := Some plain, bufIndex := 0, bufSize := length plain,
           dec_nonce := nonce_increment (dec_nonce fh) \<rparr>)"
      by (simp only: lp b)
    have ub: "unseal_blocks unseal key (dec_nonce fh) ?c
       = plain @ unseal_blocks unseal key (nonce_increment (dec_nonce fh)) (content s')"
      unfolding plain_def s' by (rule unseal_blocks_split [OF refl refl l])
    show thesis
      by (rule data [OF False fb refl ne s'(1) _ _ ub lp]) (simp_all add: s' fin well_framed_drop [OF wf])
  qed
qed

lemma decrypter_step:
  assumes ok: "secretbox_ok seal unseal" and inv: "dec_invar invar final content fh" and k: "0 < k"
  shows "\<exists>bs e fh'. decrypter_Read unseal key Read k fh = Some (bs, e, fh')
     \<and> length bs \<le> k \<and> dec_invar invar final content fh' \<and> dec_final fh' = dec_final fh
     \<and> dec_content unseal key content fh = bs @ dec_content unseal key content fh'
     \<and> (case e of None \<Rightarrow> bs \<noteq> []
        | Some er \<Rightarrow> er = dec_final fh \<and> dec_content unseal key content fh' = [])"
proof (cases "dec_err fh")
  case (Some e)
  then show ?thesis using inv by (auto simp: decrypter_Read_def dec_final_def dec_content_def)
next
  case None
  with inv have i: "invar (rc fh)" "final (rc fh) = EOF" "well_framed (content (rc fh))"
    "length (the (dec_buf fh)) = bufSize fh" "bufIndex fh \<le> bufSize fh"
    by (auto simp: dec_invar_def)
  show ?thesis
  proof (cases "bufIndex fh \<ge> bufSize fh")
    case False
    then have lt: "bufIndex fh < bufSize fh" by simp
    obtain bs e fh' where c: "decrypter_copy k fh = (bs, e, fh')" by (metis prod_cases3)
    from decrypter_copy_spec [where invar = invar and final = final and content = content,
        OF None i(4) lt k i(1-3) c] None False c
    show ?thesis by (simp add: decrypter_Read_def)
  next
    case True
    then have sl: "go_slice (bufIndex fh) (bufSize fh) (the (dec_buf fh)) = []" by simp
    show ?thesis
    proof (cases rule: fillBuffer_spec [OF i(1-3) ok, of key, case_names eof data])
      case (eof fh')
      then show ?thesis using None True sl
        by (auto simp: decrypter_Read_def decrypter_finish_def dec_invar_def dec_final_def
              dec_content_def limited_def)
    next
      case (data plain s' g)
      obtain bs e fh' where c: "decrypter_copy k g = (bs, e, fh')" by (metis prod_cases3)
      have rd: "decrypter_Read unseal key Read k fh = Some (bs, e, fh')"
        using None True data(2) c by (simp add: decrypter_Read_def)
      have "dec_content unseal key content g = dec_content unseal key content fh"
        using data(8) None sl by (simp add: data(3) dec_content_def go_slice_all)
      moreover have "dec_final g = dec_final fh" by (simp add: data(3) dec_final_def)
      moreover have "bufIndex g < bufSize g" "length (the (dec_buf g)) = bufSize g"
        "dec_err g = None" "invar (rc g)" "final (rc g) = EOF" "well_framed (content (rc g))"
        using data(4-7) None by (simp_all add: data(3))
      ultimately show ?thesis
        using rd decrypter_copy_spec [where invar = invar and final = final and content = content
            and fh = g, OF _ _ _ k _ _ _ c, of unseal key] by (cases e) simp_all
    qed
  qed
qed

lemma decrypter_reader:
  assumes ok: "secretbox_ok seal unseal"
  shows "go_reader (decrypter_Read unseal key Read) (dec_content unseal key content) dec_final
     (dec_invar invar final content) (\<lambda>fh. length (dec_content unseal key content fh))"
proof (unfold_locales, goal_cases)
  case (1 fh k)
  then show ?case using decrypter_step [OF ok 1] by blast
next
  case (2 fh k bs e fh')
  then show ?case using decrypter_step [OF ok 2(1,2), of key] by auto
next
  case (3 fh k bs e fh')
  then show ?case using decrypter_step [OF ok 3(1,2), of key] by auto
next
  case (4 fh k bs e fh')
  then show ?case using decrypter_step [OF ok 4(1,2), of key] by auto
next
  case (5 fh k bs e fh')
  then show ?case using decrypter_step [OF ok 5(1,2), of key] by auto
next
  case (6 fh k bs fh')
  then show ?case using decrypter_step [OF ok 6(1,2), of key] by auto
next
  case (7 fh k bs er fh')
  then show ?case using decrypter_step [OF ok 7(1,2), of key] by auto
qed

end

end
