(* ===== verification/CryptTheorems.thy ===== *)
theory CryptTheorems
  imports CryptSpec
begin

text \<open>
  The properties of internal/crypt as its callers see them: what \<open>io.Copy\<close> reads from an encrypter
  or a decrypter made by the constructors, on any well-behaved underlying reader (a hypothesis
  \<open>go_reader rd content final invar work\<close>), and what a decrypter returns after a range seek.
\<close>

section \<open>Blocks and seeks\<close>

lemma drop_seal_blocks:
  assumes "secretbox_ok seal unseal"
  shows "drop (b * blockSize) (seal_blocks seal key n data)
     = seal_blocks seal key ((nonce_increment ^^ b) n) (drop (b * blockDataSize) data)"
proof (induction b arbitrary: n data)
  case 0
  then show ?case by simp
next
  case (Suc b)
  show ?case
  proof (cases "data = []")
    case False
    have "drop (Suc b * blockSize) (seal_blocks seal key n data)
        = drop (b * blockSize) (drop blockSize (seal_blocks seal key n data))"
      by (simp add: add.commute)
    also have "\<dots> = drop (b * blockSize) (seal_blocks seal key (nonce_increment n) (drop blockDataSize data))"
      by (simp only: seal_block_split(2) [OF assms False])
    also have "\<dots> = seal_blocks seal key ((nonce_increment ^^ b) (nonce_increment n))
        (drop (b * blockDataSize) (drop blockDataSize data))"
      by (rule Suc.IH)
    finally show ?thesis by (simp add: funpow_swap1 add.commute)
  qed simp
qed

lemma take_seal_blocks:
  assumes "secretbox_ok seal unseal"
  shows "take (m * blockSize) (seal_blocks seal key n data)
     = seal_blocks seal key n (take (m * blockDataSize) data)"
proof (induction m arbitrary: n data)
  case 0
  then show ?case by simp
next
  case (Suc m)
  show ?case
  proof (cases "data = []")
    case False
    let ?S = "seal_blocks seal key n data"
    have tne: "take (Suc m * blockDataSize) data \<noteq> []" using False by (simp add: crypt_sizes)
    have "take (Suc m * blockSize) ?S = take blockSize ?S @ take (m * blockSize) (drop blockSize ?S)"
      by (simp add: take_add)
    also have "\<dots> = seal key n (take blockDataSize data)
        @ seal_blocks seal key (nonce_increment n) (take (m * blockDataSize) (drop blockDataSize data))"
      by (simp only: seal_block_split [OF assms False] Suc.IH)
    also have "\<dots> = seal_blocks seal key n (take (Suc m * blockDataSize) data)"
      unfolding seal_blocks_Cons [OF tne] by (simp add: drop_take)
    finally show ?thesis .
  qed simp
qed

text \<open>
  What the \<open>OpenRangeSeek\<close> callback of a caller has to do: serve the ranges of one byte string that
  start inside it and have a positive limit; with \<open>neg\<close> also those with a negative limit, to the end.
\<close>

definition serves ::
    "bool \<Rightarrow> ('s \<Rightarrow> bytes) \<Rightarrow> ('s \<Rightarrow> io_error) \<Rightarrow> ('s \<Rightarrow> bool) \<Rightarrow> bytes \<Rightarrow> 's open_range \<Rightarrow> bool" where
  "serves neg content final invar enc opn \<longleftrightarrow>
     (\<forall>off lim. 0 \<le> off \<and> off < int (length enc) \<and> (0 < lim \<or> neg \<and> lim < 0) \<longrightarrow>
        (\<exists>s. opn off lim = Inr s \<and> invar s \<and> final s = EOF
        \<and> content s = (if lim < 0 then drop (nat off) enc else take (nat lim) (drop (nat off) enc))))"

lemma servesE:
  assumes "serves neg content final invar enc opn"
    and "0 \<le> off" "off < int (length enc)" "0 < lim \<or> neg \<and> lim < 0"
  obtains s where "opn off lim = Inr s" "invar s" "final s = EOF"
    "content s = (if lim < 0 then drop (nat off) enc else take (nat lim) (drop (nat off) enc))"
  using assms unfolding serves_def by blast

lemma length_header [simp]: "length fileMagicBytes = 10"
  by (simp add: fileMagicBytes_def)

lemma limited_limited: "0 \<le> a \<Longrightarrow> a \<le> int m \<Longrightarrow> limited a (take m xs) = limited a xs"
  by (simp add: limited_def min_def le_nat_iff nat_le_iff)

text \<open>
  The cipher text a range seek reads, and what is left of it in plain: \<open>calculateUnderlying\<close> selects
  whole blocks of the plain data, enough for the range.
\<close>

lemma underlying_blocks:
  assumes off: "0 \<le> off" "off < 2 ^ 62" and lim: "lim < 2 ^ 62"
    and n: "length n = fileNonceSize" and ok: "secretbox_ok seal unseal"
    and c: "calculateUnderlying off lim = (uo, ul, discard, blocks)"
  obtains m where "0 \<le> uo" and "0 \<le> blocks" and "blocks < 2 ^ 46"
    and "off = blocks * int blockDataSize + discard" and "0 \<le> discard" and "discard < int blockDataSize"
    and "(if ul < 0 then drop (nat uo) (encrypted seal key n data)
          else take (nat ul) (drop (nat uo) (encrypted seal key n data)))
         = seal_blocks seal key ((nonce_increment ^^ nat blocks) n)
             (if lim < 0 then drop (nat blocks * blockDataSize) data
              else take (m * blockDataSize) (drop (nat blocks * blockDataSize) data))"
    and "0 \<le> lim \<Longrightarrow> discard + lim \<le> int (m * blockDataSize)" and "0 < m"
proof -
  define b where "b = nat blocks"
  have d: "blocks = off div 65536" "discard = off mod 65536" "uo = 34 + blocks * 65552"
    "ul = (if lim < 0 then -1 else (if lim = 0 then 1 else (discard + lim - 1) div 65536 + 1) * 65552)"
  proof -
    show "blocks = off div 65536" "discard = off mod 65536" "uo = 34 + blocks * 65552"
      "ul = (if lim < 0 then -1 else (if lim = 0 then 1 else (discard + lim - 1) div 65536 + 1) * 65552)"
      using c calculateUnderlying_val [OF off _ lim] calculateUnderlying_neg [OF off, of lim]
      by (cases "lim < 0"; simp)+
  qed
  have b0: "0 \<le> blocks" "blocks < 2 ^ 46" using off d(1) by (auto simp: pos_imp_zdiv_nonneg_iff div_less_iff_less_mult)
  have dd: "0 \<le> discard" "discard < 65536" using d(2) by simp_all
  define m where "m = nat (if lim \<le> 0 then 1 else (discard + lim - 1) div 65536 + 1)"
  have q: "0 \<le> (discard + lim - 1) div 65536" if "0 < lim"
    using that dd by (simp add: pos_imp_zdiv_nonneg_iff)
  have m0: "0 < m" using q by (auto simp: m_def)
  have ul: "0 \<le> lim \<Longrightarrow> nat ul = m * blockSize \<and> 0 \<le> ul"
    using d(4) q by (auto simp: m_def crypt_sizes nat_mult_distrib nat_add_distrib)
  have mlim: "0 \<le> lim \<Longrightarrow> discard + lim \<le> int (m * blockDataSize)"
  proof (cases "lim = 0")
    case False
    assume "0 \<le> lim"
    with False have "0 < lim" by simp
    moreover have "discard + lim - 1 < ((discard + lim - 1) div 65536 + 1) * 65536"
      by (rule less_next_multiple) simp
    ultimately show ?thesis using q by (simp add: m_def crypt_sizes)
  qed (use dd m0 in \<open>simp add: m_def crypt_sizes\<close>)
  have nuo: "nat uo = 34 + b * blockSize" using d(3) b0 by (simp add: b_def crypt_sizes nat_add_distrib nat_mult_distrib)
  have "drop 34 (encrypted seal key n data) = seal_blocks seal key n data"
    using n by (simp add: encrypted_def crypt_sizes)
  then have dr: "drop (nat uo) (encrypted seal key n data)
     = seal_blocks seal key ((nonce_increment ^^ b) n) (drop (b * blockDataSize) data)"
    unfolding nuo by (metis add.commute drop_drop drop_seal_blocks [OF ok])
  show thesis
  proof (rule that [of m])
    show "(if ul < 0 then drop (nat uo) (encrypted seal key n data)
          else take (nat ul) (drop (nat uo) (encrypted seal key n data)))
         = seal_blocks seal key ((nonce_increment ^^ nat blocks) n)
             (if lim < 0 then drop (nat blocks * blockDataSize) data
              else take (m * blockDataSize) (drop (nat blocks * blockDataSize) data))"
      using d(4) ul unfolding dr by (auto simp: b_def take_seal_blocks [OF ok])
  qed (use d b0 dd mlim m0 off in \<open>auto simp: crypt_sizes\<close>)
qed

section \<open>Encryption\<close>

text \<open>
  Encryption. For any reader \<open>s\<close> that ends with \<open>io.EOF\<close>, reading the encrypter
  \<open>newEncrypter\<close> makes, with buffers of any size, yields the magic, the nonce and the sealed blocks
  of the data under successive nonces, then the end of file. The number of bytes is
  \<open>EncryptedSize\<close> of the size of the data.
\<close>

theorem encrypter_output:
  assumes rd: "go_reader rd content final invar work" and ok: "secretbox_ok seal unseal"
    and s: "invar s" "final s = EOF" and n: "length n = fileNonceSize" and k: "0 < k"
    and small: "length (content s) < 2 ^ 62"
  shows "\<exists>fh fh'. newEncrypter cr s (Some n) r = Some (Inr fh, r)
     \<and> io_Copy (encrypter_Read seal key rd) k [] fh = Some (encrypted seal key n (content s), None, fh')
     \<and> int (length (encrypted seal key n (content s))) = EncryptedSize (int (length (content s)))"
proof -
  define fh where "fh = \<lparr> enc_in = s, enc_nonce = n, enc_buf = Some (fileMagicBytes @ n),
             enc_bufIndex = 0, enc_bufSize = fileHeaderSize, enc_err = None \<rparr>"
  have new: "newEncrypter cr s (Some n) r = Some (Inr fh, r)" by (simp add: newEncrypter_def fh_def)
  have hl: "length (fileMagicBytes @ n) = fileHeaderSize" using n by (simp add: crypt_sizes)
  then have inv: "enc_invar content invar fh" using s by (simp add: enc_invar_def fh_def)
  have "enc_content seal key content fh = encrypted seal key n (content s)"
    using hl by (simp add: enc_content_def fh_def encrypted_def go_slice_def)
  moreover have "enc_final final fh = EOF" using s by (simp add: enc_final_def fh_def)
  ultimately obtain fh' where cp:
    "io_Copy (encrypter_Read seal key rd) k [] fh = Some (encrypted seal key n (content s), None, fh')"
    using go_reader.io_Copy_spec [OF go_reader.encrypter_reader [OF rd ok] inv k, of key "[]"] by auto
  have "int (length (encrypted seal key n (content s))) = EncryptedSize (int (length (content s)))"
    using n by (simp add: EncryptedSize_nat [OF small] length_seal_blocks [OF ok] encrypted_def crypt_sizes)
  with new cp show ?thesis by blast
qed

section \<open>Decryption\<close>

lemma newDecrypter_spec:
  assumes rd: "go_reader rd content final invar work" and s: "invar s" "final s = EOF"
    and c: "content s = fileMagicBytes @ n @ c" and n: "length n = fileNonceSize"
  obtains s' where "newDecrypter rd s = Some (Inr \<lparr> rc = s', dec_nonce = n, initialNonce = n,
      dec_buf = Some [], bufIndex = 0, bufSize = 0, dec_err = None, limit = -1, open_range = None \<rparr>)"
    and "invar s'" and "final s' = EOF" and "content s' = c"
proof -
  have "0 < fileHeaderSize" by (simp add: crypt_sizes)
  from go_reader.readFill_0 [OF rd s(1) this] obtain err s' where
    rf: "readFill rd fileHeaderSize [] s = Some (take fileHeaderSize (content s), err, s')"
    and s': "invar s'" "final s' = final s" "content s' = drop fileHeaderSize (content s)"
    and er: "case err of None \<Rightarrow> fileHeaderSize \<le> length (content s)
      | Some er \<Rightarrow> er = final s \<and> content s' = []"
    by metis
  obtain hd where hd: "hd = fileMagicBytes @ n" by simp
  have h: "take fileHeaderSize (content s) = hd" "drop fileHeaderSize (content s) = c"
    using c n hd by (simp_all add: crypt_sizes)
  have m: "take fileMagicSize hd = fileMagicBytes"
    "drop fileMagicSize hd = n" "length hd = fileHeaderSize"
    using n hd by (simp_all add: crypt_sizes)
  have "err = None \<or> err = Some EOF" using er s by (auto split: option.splits)
  then have "newDecrypter rd s = Some (Inr \<lparr> rc = s', dec_nonce = n, initialNonce = n,
      dec_buf = Some [], bufIndex = 0, bufSize = 0, dec_err = None, limit = -1, open_range = None \<rparr>)"
    using rf n unfolding newDecrypter_def h by (elim disjE) (simp_all add: m nonce_fromBuf_def)
  then show thesis using s' s h by (intro that) simp_all
qed

text \<open>
  C10. Decryption of any well-framed cipher text behind a good header: \<open>newDecrypter\<close> accepts it and
  reading the decrypter yields \<open>unseal_blocks\<close>, the plain text of each block that authenticates
  and zeros in place of each block that does not, and no error.
\<close>

theorem decrypter_output:
  assumes rd: "go_reader rd content final invar work" and ok: "secretbox_ok seal unseal"
    and s: "invar s" "final s = EOF" and n: "length n = fileNonceSize" and k: "0 < k"
    and c: "content s = fileMagicBytes @ n @ c" and wf: "well_framed c"
  shows "\<exists>fh fh'. newDecrypter rd s = Some (Inr fh)
     \<and> io_Copy (decrypter_Read unseal key rd) k [] fh = Some (unseal_blocks unseal key n c, None, fh')"
proof -
  obtain s' where s': "invar s'" "final s' = EOF" "content s' = c" and new:
    "newDecrypter rd s = Some (Inr \<lparr> rc = s', dec_nonce = n, initialNonce = n, dec_buf = Some [],
       bufIndex = 0, bufSize = 0, dec_err = None, limit = -1, open_range = None \<rparr>)" (is "_ = Some (Inr ?fh)")
    by (rule newDecrypter_spec [OF rd s c n])
  have inv: "dec_invar invar final content ?fh" using s' wf by (simp add: dec_invar_def)
  have "dec_content unseal key content ?fh = unseal_blocks unseal key n c"
    using s' by (simp add: dec_content_def limited_def)
  then have "\<exists>fh'. io_Copy (decrypter_Read unseal key rd) k [] ?fh
     = Some (unseal_blocks unseal key n c, None, fh')"
    using go_reader.io_Copy_spec [OF go_reader.decrypter_reader [OF rd ok] inv k, of key "[]"]
    by (auto simp: dec_final_def)
  with new show ?thesis by blast
qed

text \<open>
  C9. Round trip: what the encrypter writes, the decrypter reads back, whatever the data, the nonce,
  the readers and the sizes of the buffers.
\<close>

theorem decrypter_encrypted:
  assumes "go_reader rd content final invar work" and "secretbox_ok seal unseal"
    and "invar s" "final s = EOF" and "length n = fileNonceSize" and "0 < k"
    and "content s = encrypted seal key n data"
  shows "\<exists>fh fh'. newDecrypter rd s = Some (Inr fh)
     \<and> io_Copy (decrypter_Read unseal key rd) k [] fh = Some (data, None, fh')"
proof -
  obtain s' where s': "invar s'" "final s' = EOF" "content s' = seal_blocks seal key n data" and new:
    "newDecrypter rd s = Some (Inr \<lparr> rc = s', dec_nonce = n, initialNonce = n, dec_buf = Some [],
       bufIndex = 0, bufSize = 0, dec_err = None, limit = -1, open_range = None \<rparr>)" (is "_ = Some (Inr ?fh)")
    by (rule newDecrypter_spec [OF assms(1,3,4) assms(7) [unfolded encrypted_def] assms(5)])
  have inv: "dec_invar invar final content ?fh"
    using s' seal_blocks_framed [OF assms(2)] by (simp add: dec_invar_def)
  have "dec_content unseal key content ?fh = data"
    using s' by (simp add: dec_content_def limited_def unseal_seal_blocks [OF assms(2)])
  then have "\<exists>fh'. io_Copy (decrypter_Read unseal key rd) k [] ?fh = Some (data, None, fh')"
    using go_reader.io_Copy_spec [OF go_reader.decrypter_reader [OF assms(1,2)] inv assms(6), of key "[]"]
    by (auto simp: dec_final_def)
  with new show ?thesis by blast
qed

section \<open>Range seeks\<close>

text \<open>The range of the plain data a seek asks for.\<close>

definition plain_range :: "int \<Rightarrow> int \<Rightarrow> bytes \<Rightarrow> bytes" where
  "plain_range off lim data = limited lim (drop (nat off) data)"

lemma plain_range_blocks:
  assumes "off = int b * int blockDataSize + discard" "0 \<le> discard"
    and "0 \<le> lim \<Longrightarrow> discard + lim \<le> int (m * blockDataSize)"
  shows "limited lim (drop (nat discard)
      (if lim < 0 then drop (b * blockDataSize) data
       else take (m * blockDataSize) (drop (b * blockDataSize) data))) = plain_range off lim data"
proof -
  have no: "nat off = nat discard + b * blockDataSize"
    using assms(1,2) by (simp add: nat_add_distrib nat_mult_distrib)
  show ?thesis
  proof (cases "lim < 0")
    case True
    then show ?thesis by (simp add: plain_range_def no limited_def)
  next
    case False
    then have "lim \<le> int (m * blockDataSize - nat discard)" using assms(2,3) by linarith
    with False limited_limited [of lim "m * blockDataSize - nat discard"] show ?thesis
      by (simp add: plain_range_def no drop_take)
  qed
qed

lemma initialNonce_unFinish [simp]: "initialNonce (decrypter_unFinish fh) = initialNonce fh"
  by (simp add: decrypter_unFinish_def)

lemma RangeSeek_spec:
  assumes rd: "go_reader rd content final invar work" and ok: "secretbox_ok seal unseal"
    and n: "length n = fileNonceSize" and sv: "serves neg content final invar (encrypted seal key n data) opn"
    and off: "0 \<le> off" "off < int (length data)" "off < 2 ^ 62" and lim: "lim < 2 ^ 62" "lim < 0 \<longrightarrow> neg"
    and fh: "open_range fh = Some opn" "initialNonce fh = n" "dec_err fh = None \<or> dec_err fh = Some EOF"
  obtains fh' where "decrypter_RangeSeek unseal key rd off 0 lim fh = Some (Inr off, fh')"
    and "dec_invar invar final content fh'" and "dec_err fh' = None"
    and "dec_content unseal key content fh' = plain_range off lim data"
    and "open_range fh' = Some opn" and "initialNonce fh' = n"
proof -
  obtain uo ul discard blocks where c: "calculateUnderlying off lim = (uo, ul, discard, blocks)"
    by (cases "calculateUnderlying off lim")
  obtain m where u: "0 \<le> uo" "0 \<le> blocks" "blocks < 2 ^ 46"
      "off = blocks * int blockDataSize + discard" "0 \<le> discard" "discard < int blockDataSize"
    and cont: "(if ul < 0 then drop (nat uo) (encrypted seal key n data)
          else take (nat ul) (drop (nat uo) (encrypted seal key n data)))
         = seal_blocks seal key ((nonce_increment ^^ nat blocks) n)
             (if lim < 0 then drop (nat blocks * blockDataSize) data
              else take (m * blockDataSize) (drop (nat blocks * blockDataSize) data))"
    and m: "0 \<le> lim \<Longrightarrow> discard + lim \<le> int (m * blockDataSize)" "0 < m"
    using underlying_blocks [OF off(1,3) lim(1) n ok c, of key data] by blast
  have bo: "nat blocks * blockDataSize < length data"
    using u off(2) by (simp add: of_nat_less_iff [where 'a = int, symmetric] del: of_nat_less_iff)
  have ulen: "uo < int (length (encrypted seal key n data))"
  proof (rule ccontr)
    assume "\<not> ?thesis"
    then have "seal_blocks seal key ((nonce_increment ^^ nat blocks) n)
             (if lim < 0 then drop (nat blocks * blockDataSize) data
              else take (m * blockDataSize) (drop (nat blocks * blockDataSize) data)) = []" (is "seal_blocks _ _ ?n ?d = _")
      using u(1) by (subst cont [symmetric]) (simp split: if_splits)
    then have "?d = []" using unseal_seal_blocks [OF ok, of key ?n ?d] by simp
    with bo m(2) show False by (simp add: crypt_sizes split: if_splits)
  qed
  have ul: "0 < ul \<or> neg \<and> ul < 0"
    using c calculateUnderlying_val [OF off(1,3) _ lim(1)] calculateUnderlying_neg [OF off(1,3), of lim] lim(2)
      pos_imp_zdiv_nonneg_iff [of 65536 "off mod 65536 + lim - 1"]
    by (cases "lim < 0"; cases "lim = 0") auto
  obtain s where s: "opn uo ul = Inr s" "invar s" "final s = EOF"
    "content s = (if ul < 0 then drop (nat uo) (encrypted seal key n data)
        else take (nat ul) (drop (nat uo) (encrypted seal key n data)))"
    using servesE [OF sv u(1) ulen ul] by blast
  define d where "d = (if lim < 0 then drop (nat blocks * blockDataSize) data
              else take (m * blockDataSize) (drop (nat blocks * blockDataSize) data))"
  define n' where "n' = (nonce_increment ^^ nat blocks) n"
  have cs: "content s = seal_blocks seal key n' d" using s(4) cont by (simp add: d_def n'_def)
  have "unat (word_of_int blocks :: 64 word) = nat blocks"
    using u(2,3) by (simp add: unat_eq_nat_uint uint_word_of_int)
  then have na: "nonce_add (word_of_int blocks) n = n'"
    using nonce_add_increment [of n "word_of_int blocks"] n by (simp add: n'_def fileNonceSize_def)
  have len: "nat discard < length d"
  proof -
    have "nat off = nat blocks * blockDataSize + nat discard"
      using u by (simp add: nat_add_distrib nat_mult_distrib)
    moreover have "nat off < length data" using off(1,2) by linarith
    ultimately have "nat discard < length (drop (nat blocks * blockDataSize) data)" by simp
    moreover have "nat discard < m * blockDataSize" using u(5,6) m(2) by (cases m) auto
    ultimately show ?thesis by (simp add: d_def)
  qed
  define g where "g = (if dec_err fh = Some EOF then decrypter_unFinish fh else fh)
     \<lparr> dec_nonce := nonce_add (word_of_int blocks) (initialNonce fh), rc := s \<rparr>"
  have g: "rc g = s" "dec_nonce g = n'" "dec_err g = None" "open_range g = Some opn" "initialNonce g = n"
    using fh na by (auto simp: g_def decrypter_unFinish_def)
  have wf: "well_framed (content s)" by (simp add: cs seal_blocks_framed [OF ok])
  show thesis
  proof (cases rule: go_reader.fillBuffer_spec [OF rd _ _ _ ok, of g key, case_names i f w eof data])
    case i
    then show ?case using s g by simp
  next
    case f
    then show ?case using s g by simp
  next
    case w
    then show ?case using wf g by simp
  next
    case (eof fh')
    then have "unseal_blocks unseal key n' (content s) = []" using g by simp
    with len show thesis by (simp add: cs unseal_seal_blocks [OF ok])
  next
    case (data plain s' fh')
    have eq: "d = plain @ unseal_blocks unseal key (nonce_increment n') (content s')"
      using data(8) g by (simp add: cs unseal_seal_blocks [OF ok])
    have "length plain = min (length d) blockDataSize"
    proof -
      have "d \<noteq> []" using len by auto
      then have "length (take blockSize (content s)) = min (length d) blockDataSize + 16"
        unfolding cs seal_block_split(1) [OF ok \<open>d \<noteq> []\<close>] secretbox_okD(1) [OF ok] length_take by simp
      then show ?thesis using data(9) g by (simp add: crypt_sizes)
    qed
    then have lp: "nat discard < length plain" using len u(5,6) by simp
    define fh2 where "fh2 = fh'\<lparr> bufIndex := nat discard, limit := lim \<rparr>"
    have "decrypter_RangeSeek unseal key rd off 0 lim fh = Some (Inr off, fh2)"
      using fh s(1) c data(2) lp u(5) unfolding g_def data(3) fh2_def
      by (auto simp: decrypter_RangeSeek_def Let_def)
    moreover have "dec_invar invar final content fh2"
      using data lp by (simp add: dec_invar_def fh2_def)
    moreover have "dec_content unseal key content fh2 = limited lim (drop (nat discard) d)"
      using g lp data(3) by (simp add: dec_content_def fh2_def eq go_slice_def)
    moreover have "limited lim (drop (nat discard) d) = plain_range off lim data"
      unfolding d_def by (rule plain_range_blocks) (use u m in auto)
    ultimately show thesis using g data(3) by (intro that [of fh2]) (auto simp: fh2_def)
  qed
qed

text \<open>The state \<open>newDecrypter\<close> leaves, with a limit and a range callback.\<close>

definition fresh_decrypter :: "'s \<Rightarrow> bytes \<Rightarrow> int \<Rightarrow> 's open_range option \<Rightarrow> 's decrypter" where
  "fresh_decrypter s n lim opn = \<lparr> rc = s, dec_nonce = n, initialNonce = n, dec_buf = Some [],
     bufIndex = 0, bufSize = 0, dec_err = None, limit = lim, open_range = opn \<rparr>"

lemma fresh_decrypter_spec:
  assumes "secretbox_ok seal unseal" "invar s" "final s = EOF" "content s = seal_blocks seal key n d"
  shows "dec_invar invar final content (fresh_decrypter s n lim opn)
    \<and> dec_err (fresh_decrypter s n lim opn) = None
    \<and> dec_content unseal key content (fresh_decrypter s n lim opn) = limited lim d"
  using assms seal_blocks_framed [OF assms(1)] unseal_seal_blocks [OF assms(1)]
  by (simp add: fresh_decrypter_def dec_invar_def dec_content_def)

lemma newDecrypter_fresh:
  assumes "go_reader rd content final invar work" "invar s" "final s = EOF"
    and "content s = fileMagicBytes @ n @ c" "length n = fileNonceSize"
  obtains s' where "newDecrypter rd s = Some (Inr (fresh_decrypter s' n (-1) None))"
    and "invar s'" and "final s' = EOF" and "content s' = c"
  using newDecrypter_spec [OF assms] unfolding fresh_decrypter_def by metis

text \<open>The three ways \<open>newDecrypterSeek\<close> opens the store.\<close>

lemma newDecrypterSeek_whole:
  assumes rd: "go_reader rd content final invar work" and ok: "secretbox_ok seal unseal"
    and n: "length n = fileNonceSize" and sv: "serves neg content final invar (encrypted seal key n data) opn"
    and lim: "lim < 0" neg
  shows "\<exists>fh. newDecrypterSeek unseal key rd opn 0 lim = Some (Inr fh)
    \<and> dec_invar invar final content fh \<and> dec_err fh = None
    \<and> dec_content unseal key content fh = plain_range 0 lim data"
proof -
  obtain s where s: "opn 0 (-1) = Inr s" "invar s" "final s = EOF"
    "content s = fileMagicBytes @ n @ seal_blocks seal key n data"
    using servesE [OF sv, of 0 "-1"] lim(2) by (auto simp: encrypted_def)
  obtain s' where new: "newDecrypter rd s = Some (Inr (fresh_decrypter s' n (-1) None))"
    and s': "invar s'" "final s' = EOF" "content s' = seal_blocks seal key n data"
    using newDecrypter_fresh [OF rd s(2-4) n] by metis
  have "newDecrypterSeek unseal key rd opn 0 lim = Some (Inr (fresh_decrypter s' n (-1) (Some opn)))"
    using lim(1) s(1) new by (simp add: newDecrypterSeek_def fresh_decrypter_def)
  with fresh_decrypter_spec [where invar = invar and final = final and content = content, OF ok s', of "-1" "Some opn"] lim(1) show ?thesis
    by (auto simp: plain_range_def limited_def)
qed

lemma newDecrypterSeek_head:
  assumes rd: "go_reader rd content final invar work" and ok: "secretbox_ok seal unseal"
    and n: "length n = fileNonceSize" and sv: "serves neg content final invar (encrypted seal key n data) opn"
    and lim: "0 \<le> lim" "lim < 2 ^ 62"
  shows "\<exists>fh. newDecrypterSeek unseal key rd opn 0 lim = Some (Inr fh)
    \<and> dec_invar invar final content fh \<and> dec_err fh = None
    \<and> dec_content unseal key content fh = plain_range 0 lim data"
proof -
  obtain uo ul discard blocks where c: "calculateUnderlying 0 lim = (uo, ul, discard, blocks)"
    by (cases "calculateUnderlying 0 lim")
  define q where "q = (if lim = 0 then 1 else (lim - 1) div 65536 + 1)"
  have c': "ul = q * 65552"
    using c calculateUnderlying_val [of 0 lim] lim by (simp add: q_def)
  have qb: "0 \<le> q" using lim by (simp add: q_def pos_imp_zdiv_nonneg_iff)
  have "(lim - 1) div 65536 < 2 ^ 46 + 1" using lim(2) by (simp add: div_less_iff_less_mult)
  then have qt: "q < 2 ^ 46 + 2" by (simp add: q_def)
  define m where "m = nat q"
  have mq: "int m = q" using qb by (simp add: m_def)
  have mlim: "lim \<le> int (m * blockDataSize)"
    using less_next_multiple [of 65536 "lim - 1"] by (simp add: mq crypt_sizes q_def)
  define L where "L = fileHeaderSize + m * blockSize"
  have L0: "0 < L" by (simp add: L_def crypt_sizes)
  have "int fileHeaderSize + ul = 34 + q * 65552" by (simp add: c' crypt_sizes)
  then have "i64 (int fileHeaderSize + ul) = 34 + q * 65552" by (simp only: i64_blocks [OF qb qt])
  then have wrap: "i64 (int fileHeaderSize + ul) = int L" by (simp add: L_def mq crypt_sizes)
  have ne: "0 < length (encrypted seal key n data)" by (simp add: encrypted_def)
  obtain s where s: "opn 0 (int L) = Inr s" "invar s" "final s = EOF"
    "content s = take L (encrypted seal key n data)"
    by (rule servesE [OF sv, of 0 "int L"]) (use ne L0 in simp_all)
  have hl: "length fileMagicBytes + length n = fileHeaderSize" using n by (simp add: crypt_sizes)
  have "content s = fileMagicBytes @ n @ seal_blocks seal key n (take (m * blockDataSize) data)"
    unfolding s(4) encrypted_def L_def using hl by (simp add: take_seal_blocks [OF ok])
  then obtain s' where new: "newDecrypter rd s = Some (Inr (fresh_decrypter s' n (-1) None))"
    and s': "invar s'" "final s' = EOF" "content s' = seal_blocks seal key n (take (m * blockDataSize) data)"
    using newDecrypter_fresh [OF rd s(2,3) _ n] by metis
  have "newDecrypterSeek unseal key rd opn 0 lim = Some (Inr (fresh_decrypter s' n lim (Some opn)))"
    using lim(1) s(1) new by (simp add: newDecrypterSeek_def c wrap fresh_decrypter_def)
  with fresh_decrypter_spec [where invar = invar and final = final and content = content, OF ok s', of lim "Some opn"] limited_limited [OF lim(1) mlim, of data]
  show ?thesis by (auto simp: plain_range_def)
qed

lemma newDecrypterSeek_inside:
  assumes rd: "go_reader rd content final invar work" and ok: "secretbox_ok seal unseal"
    and n: "length n = fileNonceSize" and sv: "serves neg content final invar (encrypted seal key n data) opn"
    and off: "0 < off" "off < int (length data)" "off < 2 ^ 62" and lim: "lim < 2 ^ 62" "lim < 0 \<longrightarrow> neg"
  shows "\<exists>fh. newDecrypterSeek unseal key rd opn off lim = Some (Inr fh)
    \<and> dec_invar invar final content fh \<and> dec_err fh = None
    \<and> dec_content unseal key content fh = plain_range off lim data"
proof -
  have ne: "0 < length (encrypted seal key n data)" by (simp add: encrypted_def)
  obtain s where s: "opn 0 (int fileHeaderSize) = Inr s" "invar s" "final s = EOF"
    "content s = fileMagicBytes @ n @ []"
    using servesE [OF sv, of 0 "int fileHeaderSize"] n ne by (auto simp: encrypted_def crypt_sizes)
  obtain s' where new: "newDecrypter rd s = Some (Inr (fresh_decrypter s' n (-1) None))"
    using newDecrypter_fresh [OF rd s(2-4) n] by metis
  let ?fh = "fresh_decrypter s' n (-1) (Some opn)"
  obtain fh' where "decrypter_RangeSeek unseal key rd off 0 lim ?fh = Some (Inr off, fh')"
    and fh': "dec_invar invar final content fh'" "dec_err fh' = None"
      "dec_content unseal key content fh' = plain_range off lim data"
    using RangeSeek_spec [OF rd ok n sv _ off(2,3) lim, of ?fh] off(1)
    by (auto simp: fresh_decrypter_def)
  then have "newDecrypterSeek unseal key rd opn off lim = Some (Inr fh')"
    using off(1) s(1) new by (simp add: newDecrypterSeek_def fresh_decrypter_def)
  with fh' show ?thesis by blast
qed

lemma newDecrypterSeek_ok:
  assumes rd: "go_reader rd content final invar work" and ok: "secretbox_ok seal unseal"
    and n: "length n = fileNonceSize" and sv: "serves neg content final invar (encrypted seal key n data) opn"
    and off: "0 \<le> off" "off < int (length data)" "off < 2 ^ 62" and lim: "lim < 2 ^ 62" "lim < 0 \<longrightarrow> neg"
  obtains fh where "newDecrypterSeek unseal key rd opn off lim = Some (Inr fh)"
    "dec_invar invar final content fh" "dec_err fh = None"
    "dec_content unseal key content fh = plain_range off lim data"
  using newDecrypterSeek_whole [OF rd ok n sv, of lim] newDecrypterSeek_head [OF rd ok n sv _ lim(1)]
    newDecrypterSeek_inside [OF rd ok n sv _ off(2,3) lim] off(1) lim(2)
  by (cases "off = 0"; cases "lim < 0") (auto simp: not_less)

text \<open>
  C8. Random access. For every range that starts inside the file, \<open>newDecrypterSeek\<close> over a store
  that serves ranges of the encrypted file succeeds, and reading the decrypter yields exactly
  \<open>limit\<close> bytes of the plain file from \<open>offset\<close> on (fewer at its end; all when the limit is
  negative), then the end of file.
\<close>

theorem newDecrypterSeek_range:
  assumes rd: "go_reader rd content final invar work" and ok: "secretbox_ok seal unseal"
    and n: "length n = fileNonceSize" and sv: "serves neg content final invar (encrypted seal key n data) opn"
    and off: "0 \<le> off" "off < int (length data)" "off < 2 ^ 62" and lim: "lim < 2 ^ 62" "lim < 0 \<longrightarrow> neg"
    and k: "0 < k"
  shows "\<exists>fh fh'. newDecrypterSeek unseal key rd opn off lim = Some (Inr fh)
     \<and> io_Copy (decrypter_Read unseal key rd) k [] fh = Some (plain_range off lim data, None, fh')"
proof -
  obtain fh where fh: "newDecrypterSeek unseal key rd opn off lim = Some (Inr fh)"
    "dec_invar invar final content fh" "dec_err fh = None"
    "dec_content unseal key content fh = plain_range off lim data"
    by (rule newDecrypterSeek_ok [OF rd ok n sv off lim])
  show ?thesis
    using go_reader.io_Copy_spec [OF go_reader.decrypter_reader [OF rd ok] fh(2) k, of key "[]"] fh
    by (auto simp: dec_final_def)
qed

text \<open>
  Rewinding. A decrypter that can seek may be moved at any time, also after it reported the end of
  file: \<open>RangeSeek\<close> from a state without another error makes the next reads yield the range
  asked for, whatever was read before.
\<close>

theorem RangeSeek_from_any_state:
  assumes "go_reader rd content final invar work" and "secretbox_ok seal unseal"
    and "length n = fileNonceSize" and "serves neg content final invar (encrypted seal key n data) opn"
    and "0 \<le> off" "off < int (length data)" "off < 2 ^ 62" and "lim < 2 ^ 62" "lim < 0 \<longrightarrow> neg" and "0 < k"
    and "open_range fh = Some opn" "initialNonce fh = n" "dec_err fh = None \<or> dec_err fh = Some EOF"
  shows "\<exists>fh1 fh2. decrypter_RangeSeek unseal key rd off 0 lim fh = Some (Inr off, fh1)
     \<and> io_Copy (decrypter_Read unseal key rd) k [] fh1 = Some (plain_range off lim data, None, fh2)"
proof -
  obtain fh' where s: "decrypter_RangeSeek unseal key rd off 0 lim fh = Some (Inr off, fh')"
    and fh': "dec_invar invar final content fh'" "dec_err fh' = None"
      "dec_content unseal key content fh' = plain_range off lim data"
    by (rule RangeSeek_spec [OF assms(1-9,11-13)])
  show ?thesis
    using go_reader.io_Copy_spec [OF go_reader.decrypter_reader [OF assms(1,2)] fh'(1) assms(10), of key "[]"]
      s fh'(2,3)
    by (auto simp: dec_final_def)
qed

section \<open>Witnesses\<close>

text \<open>A box that satisfies \<open>secretbox_ok\<close>, and a store in memory.\<close>

definition plain_seal :: seal_fun where
  "plain_seal key n m = replicate 16 0 @ m"

definition plain_unseal :: unseal_fun where
  "plain_unseal key n c = (if length c < 16 then None else Some (drop 16 c))"

definition mem_range :: "bytes \<Rightarrow> bytes open_range" where
  "mem_range enc off lim =
     Inr (if lim < 0 then drop (nat off) enc else take (nat lim) (drop (nat off) enc))"

lemma plain_secretbox_ok: "secretbox_ok plain_seal plain_unseal"
  by (auto simp: secretbox_ok_def plain_seal_def plain_unseal_def)

lemma mem_range_serves: "serves True (\<lambda>s. s) (\<lambda>_. EOF) (\<lambda>_. True) enc (mem_range enc)"
  by (simp add: serves_def mem_range_def)

abbreviation "nonce0 \<equiv> replicate 24 (0 :: byte)"

lemma encrypter_output_witness:
  "\<exists>fh fh'. newEncrypter bytes_Read [1, 2, 3] (Some nonce0) [] = Some (Inr fh, [])
     \<and> io_Copy (encrypter_Read plain_seal [] bytes_Read) 5 [] fh
         = Some (encrypted plain_seal [] nonce0 [1, 2, 3], None, fh')
     \<and> int (length (encrypted plain_seal [] nonce0 [1, 2, 3])) = EncryptedSize 3"
  using encrypter_output [OF bytes_rd.go_reader_axioms plain_secretbox_ok, where s = "[1, 2, 3]" and n = nonce0 and k = 5]
  by (simp add: fileNonceSize_def)

lemma decrypter_output_witness:
  "\<exists>fh fh'. newDecrypter bytes_Read (fileMagicBytes @ nonce0 @ replicate 17 7) = Some (Inr fh)
     \<and> io_Copy (decrypter_Read plain_unseal [] bytes_Read) 5 [] fh
         = Some (unseal_blocks plain_unseal [] nonce0 (replicate 17 7), None, fh')"
  by (rule decrypter_output [OF bytes_rd.go_reader_axioms plain_secretbox_ok])
     (simp_all add: fileNonceSize_def well_framed_def crypt_sizes)

lemma decrypter_encrypted_witness:
  "\<exists>fh fh'. newDecrypter bytes_Read (encrypted plain_seal [] nonce0 [1, 2, 3]) = Some (Inr fh)
     \<and> io_Copy (decrypter_Read plain_unseal [] bytes_Read) 5 [] fh = Some ([1, 2, 3], None, fh')"
  by (rule decrypter_encrypted [OF bytes_rd.go_reader_axioms plain_secretbox_ok])
     (simp_all add: fileNonceSize_def)

lemma newDecrypterSeek_range_witness:
  "\<exists>fh fh'. newDecrypterSeek plain_unseal [] bytes_Read
       (mem_range (encrypted plain_seal [] nonce0 [1, 2, 3, 4])) 1 2 = Some (Inr fh)
     \<and> io_Copy (decrypter_Read plain_unseal [] bytes_Read) 5 [] fh = Some ([2, 3], None, fh')"
  using newDecrypterSeek_range [OF bytes_rd.go_reader_axioms plain_secretbox_ok _ mem_range_serves,
      where n = nonce0 and off = 1 and data = "[1, 2, 3, 4]" and lim = 2 and k = 5 and key = "[]"]
  by (simp add: fileNonceSize_def plain_range_def limited_def)

lemma RangeSeek_from_any_state_witness:
  "\<exists>fh1 fh2. decrypter_RangeSeek plain_unseal [] bytes_Read 1 0 2
       \<lparr> rc = [], dec_nonce = nonce0, initialNonce = nonce0, dec_buf = None, bufIndex = 3, bufSize = 4,
         dec_err = Some EOF, limit = 0,
         open_range = Some (mem_range (encrypted plain_seal [] nonce0 [1, 2, 3, 4])) \<rparr> = Some (Inr 1, fh1)
     \<and> io_Copy (decrypter_Read plain_unseal [] bytes_Read) 5 [] fh1 = Some ([2, 3], None, fh2)"
  using RangeSeek_from_any_state [OF bytes_rd.go_reader_axioms plain_secretbox_ok _ mem_range_serves,
      where n = nonce0 and off = 1 and data = "[1, 2, 3, 4]" and lim = 2 and k = 5 and key = "[]"]
  by (simp add: fileNonceSize_def plain_range_def limited_def)

end
