(* ===== verification/PartReader.thy ===== *)
theory PartReader
  imports TGReader CryptTheorems
begin

text \<open>
  internal/reader/reader.go: a byte range of a file whose data is split into parts, each a Telegram
  document, plain or encrypted. \<open>calculatePartByteRanges\<close> splits the range, \<open>Reader\<close> reads the
  ranges one after the other through a reader per part (\<open>openPart\<close> is \<open>getPartReader\<close>).

  The locale \<open>part_source\<close> is what \<open>Reader\<close> needs of its parts: opening a range of part \<open>p\<close>
  gives a reader of that range of \<open>plains ! p\<close>. It is proved for plain and for encrypted parts
  over any chunk source that serves the documents, and interpreted on documents in memory.
\<close>

record Part =
  DecryptedPartSize :: int
  PartSize :: int
  PartSalt :: string
  PartID :: int

record PRange =
  rgStart :: int
  rgEnd :: int
  PartNo :: int

definition calculatePartByteRanges :: "int \<Rightarrow> int \<Rightarrow> int \<Rightarrow> PRange list" where
  "calculatePartByteRanges start fin partSize =
     map (\<lambda>part. \<lparr> rgStart = max (start - part * partSize) 0,
                    rgEnd = min (partSize - 1) (fin - part * partSize), PartNo = part \<rparr>)
       [go_div start partSize .. go_div fin partSize]"

section \<open>The readers of the parts\<close>

text \<open>A reader of one part: the multi reader of its document, or a decrypter on top of one.\<close>

datatype part_reader =
    PlainR int tgMultiReader
  | DecR int bytes "tgMultiReader decrypter"

definition part_Read :: "(int \<Rightarrow> chunk_fun) \<Rightarrow> unseal_fun \<Rightarrow> part_reader read_fun" where
  "part_Read chunks unseal n pr =
     (case pr of
        PlainR i r \<Rightarrow> map_option (\<lambda>(bs, e, r'). (bs, e, PlainR i r')) (tgm_Read (chunks i) n r)
      | DecR i key d \<Rightarrow> map_option (\<lambda>(bs, e, d'). (bs, e, DecR i key d'))
          (decrypter_Read unseal key (tgm_Read (chunks i)) n d))"

text \<open>The \<open>OpenRangeSeek\<close> closure of \<open>getPartReader\<close>.\<close>

definition part_open_range :: "nat \<Rightarrow> int \<Rightarrow> tgMultiReader open_range" where
  "part_open_range conc partSize underlyingOffset underlyingLimit =
     (let fin = (if underlyingLimit \<ge> 0
                 then min (partSize - 1) (underlyingOffset + underlyingLimit - 1) else 0)
      in Inr (newTGMultiReader underlyingOffset fin conc))"

text \<open>
  \<open>getPartReader\<close> for the part and range at \<open>r.pos\<close>; \<open>None\<close> is the index panic. \<open>keyof\<close> is the data
  key \<open>crypt.NewCipher\<close> derives from the configured password and the salt of the part.
\<close>

definition openPart ::
    "(int \<Rightarrow> chunk_fun) \<Rightarrow> unseal_fun \<Rightarrow> (string \<Rightarrow> bytes) \<Rightarrow> nat \<Rightarrow> bool \<Rightarrow> Part list
     \<Rightarrow> int \<Rightarrow> int \<Rightarrow> int \<Rightarrow> (io_error + part_reader) option" where
  "openPart chunks unseal keyof conc encrypted_file parts partNo start fin =
     (if partNo < 0 \<or> partNo \<ge> int (length parts) then None
      else
        let part = parts ! nat partNo; i = PartID part in
        if encrypted_file then
          let key = keyof (PartSalt part) in
          map_option (\<lambda>res. case res of Inl e \<Rightarrow> Inl e | Inr d \<Rightarrow> Inr (DecR i key d))
            (newDecrypterSeek unseal key (tgm_Read (chunks i)) (part_open_range conc (PartSize part))
               start (fin - start + 1))
        else Some (Inr (PlainR i (newTGMultiReader start fin conc))))"

section \<open>The reader of the file\<close>

record 's Reader =
  ranges :: "PRange list"
  rpos :: nat
  rreader :: 's
  remaining :: int

type_synonym 's open_part = "int \<Rightarrow> int \<Rightarrow> int \<Rightarrow> (io_error + 's) option"

definition getPartReader :: "'s open_part \<Rightarrow> PRange list \<Rightarrow> nat \<Rightarrow> (io_error + 's) option" where
  "getPartReader opn rs p =
     (if p < length rs then opn (PartNo (rs ! p)) (rgStart (rs ! p)) (rgEnd (rs ! p)) else None)"

text \<open>\<open>NewReader\<close>; \<open>parts[0]\<close> panics without parts.\<close>

definition NewReader ::
    "'s open_part \<Rightarrow> bool \<Rightarrow> Part list \<Rightarrow> int \<Rightarrow> int \<Rightarrow> (io_error + 's Reader) option" where
  "NewReader opn encrypted_file parts start fin =
     (if parts = [] then None
      else
        let partSize = (if encrypted_file then DecryptedPartSize (parts ! 0) else PartSize (parts ! 0));
            rs = calculatePartByteRanges start fin partSize
        in map_option (\<lambda>res. case res of Inl e \<Rightarrow> Inl e
             | Inr s \<Rightarrow> Inr \<lparr> ranges = rs, rpos = 0, rreader = s, remaining = fin - start + 1 \<rparr>)
             (getPartReader opn rs 0))"

text \<open>\<open>moveToNextPart\<close>: the next reader, or the error it returns.\<close>

definition moveToNextPart :: "'s open_part \<Rightarrow> 's Reader \<Rightarrow> (io_error option \<times> 's Reader) option" where
  "moveToNextPart opn r =
     (let r = r\<lparr> rpos := rpos r + 1 \<rparr> in
      if rpos r < length (ranges r)
      then map_option (\<lambda>res. case res of Inl e \<Rightarrow> (Some e, r) | Inr s \<Rightarrow> (None, r\<lparr> rreader := s \<rparr>))
             (getPartReader opn (ranges r) (rpos r))
      else Some (Some EOF, r))"

definition Reader_Read :: "'s open_part \<Rightarrow> 's read_fun \<Rightarrow> 's Reader read_fun" where
  "Reader_Read opn rd n r =
     (if remaining r \<le> 0 then Some ([], Some EOF, r)
      else Option.bind (rd n (rreader r)) (\<lambda>(bs, err, s).
        let r = r\<lparr> rreader := s, remaining := remaining r - int (length bs) \<rparr> in
        if err = Some EOF \<and> remaining r > 0
        then map_option (\<lambda>(e, r). (bs, e, r)) (moveToNextPart opn r)
        else Some (bs, err, r)))"

section \<open>The ranges of the parts make up the range of the file\<close>

definition uniform_parts :: "nat \<Rightarrow> 'a list list \<Rightarrow> bool" where
  "uniform_parts S ps \<longleftrightarrow>
     ps \<noteq> [] \<and> 0 < S \<and> (\<forall>i < length ps - 1. length (ps ! i) = S) \<and> length (last ps) \<le> S"

lemma uniform_parts_Cons:
  "uniform_parts S (p # ps) \<longleftrightarrow>
     0 < S \<and> (if ps = [] then length p \<le> S else length p = S \<and> uniform_parts S ps)"
  by (cases ps) (auto simp: uniform_parts_def nth_Cons split: nat.splits)

lemma uniform_slice:
  assumes "uniform_parts S ps" "p < length ps"
  shows "ps ! p = go_slice (p * S) (p * S + S) (concat ps)"
  using assms
proof (induction ps arbitrary: p)
  case Nil
  then show ?case by simp
next
  case (Cons q ps)
  show ?case
  proof (cases p)
    case 0
    then show ?thesis using Cons.prems by (cases "ps = []") (auto simp: uniform_parts_Cons go_slice_def)
  next
    case (Suc p')
    with Cons.prems have "uniform_parts S ps" "length q = S" "p' < length ps"
      by (auto simp: uniform_parts_Cons split: if_splits)
    with Cons.IH [of p'] Suc show ?thesis by (simp add: go_slice_def)
  qed
qed

lemma uniform_length:
  assumes "uniform_parts S ps"
  shows "(length ps - 1) * S \<le> length (concat ps) \<and> length (concat ps) \<le> length ps * S"
  using assms
proof (induction ps)
  case Nil
  then show ?case by simp
next
  case (Cons q ps)
  show ?case
  proof (cases ps)
    case Nil
    with Cons.prems show ?thesis by (simp add: uniform_parts_Cons)
  next
    case (Cons p ps')
    then have "uniform_parts S ps" "length q = S"
      using Cons.prems by (simp_all add: uniform_parts_Cons)
    with Cons.IH Cons show ?thesis by simp
  qed
qed

lemma go_slice_go_slice:
  "go_slice a b (go_slice u v xs) = go_slice (u + a) (min (u + b) v) xs"
  by (simp add: go_slice_def drop_take min_def add.commute)

text \<open>The bytes of a range of a part, and when a range is inside its part.\<close>

definition range_bytes :: "bytes list \<Rightarrow> PRange \<Rightarrow> bytes" where
  "range_bytes plains rg = go_slice (nat (rgStart rg)) (nat (rgEnd rg + 1)) (plains ! nat (PartNo rg))"

definition range_ok :: "bytes list \<Rightarrow> PRange \<Rightarrow> bool" where
  "range_ok plains rg \<longleftrightarrow> 0 \<le> PartNo rg \<and> PartNo rg < int (length plains) \<and> 0 \<le> rgStart rg
     \<and> rgStart rg \<le> rgEnd rg \<and> rgEnd rg < int (length (plains ! nat (PartNo rg)))"

lemma upto_nat: "[int a..int b] = map int [a..<Suc b]"
proof (induction b)
  case 0
  show ?case by (cases "a = 0") (simp_all add: upto.simps)
next
  case (Suc b)
  show ?case
  proof (cases "a \<le> Suc b")
    case True
    then have "[int a..int (Suc b)] = [int a..int b] @ [int (Suc b)]"
      using upto_rec2 [of "int a" "int (Suc b)"] by simp
    with True Suc show ?thesis by simp
  qed simp
qed

lemma part_range:
  fixes a b S p :: nat
  assumes u: "uniform_parts S plains" and p: "p < length plains"
    and ab: "a div S \<le> p" "p \<le> b div S" "a \<le> b" "b < length (concat plains)"
  defines "rg \<equiv> \<lparr> rgStart = max (int a - int p * int S) 0,
                  rgEnd = min (int S - 1) (int b - int p * int S), PartNo = int p \<rparr>"
  shows "range_ok plains rg"
    and "range_bytes plains rg = go_slice (max a (p * S)) (min (b + 1) (p * S + S)) (concat plains)"
proof -
  have S: "0 < S" using u by (simp add: uniform_parts_def)
  have aS: "a < p * S + S"
  proof -
    have "a < (a div S + 1) * S" using S by (simp add: dividend_less_div_times)
    also have "\<dots> \<le> (p + 1) * S" using ab(1) by (intro mult_le_mono1) simp
    finally show ?thesis by simp
  qed
  have bS: "p * S \<le> b" using ab(2) S by (simp add: less_eq_div_iff_mult_less_eq)
  have sl: "plains ! p = go_slice (p * S) (p * S + S) (concat plains)" by (rule uniform_slice [OF u p])
  have st: "nat (rgStart rg) = max a (p * S) - p * S" and en: "nat (rgEnd rg + 1) = min (b + 1) (p * S + S) - p * S"
    using bS S by (auto simp: rg_def max_def min_def of_nat_mult [symmetric] nat_diff_distrib' simp del: of_nat_mult)
  show "range_bytes plains rg = go_slice (max a (p * S)) (min (b + 1) (p * S + S)) (concat plains)"
    unfolding range_bytes_def st en
    using sl bS aS by (simp add: rg_def go_slice_go_slice max_def min_def)
  have len: "length (plains ! p) = min S (length (concat plains) - p * S)" using sl by simp
  show "range_ok plains rg"
    unfolding range_ok_def using aS bS S p ab(3,4)
    by (auto simp: rg_def len max_def min_def of_nat_mult [symmetric] simp del: of_nat_mult)
qed

text \<open>
  Splitting a range. When every part but the last has the size of the first, the ranges
  \<open>calculatePartByteRanges\<close> computes lie inside their parts and their bytes, in order, are exactly the
  bytes \<open>start..end\<close> of the file.
\<close>

theorem calculatePartByteRanges_ok:
  assumes u: "uniform_parts S plains" and ab: "0 \<le> start" "start \<le> fin" "fin < int (length (concat plains))"
  shows "calculatePartByteRanges start fin (int S) \<noteq> []
    \<and> (\<forall>rg \<in> set (calculatePartByteRanges start fin (int S)). range_ok plains rg)
    \<and> concat (map (range_bytes plains) (calculatePartByteRanges start fin (int S)))
      = go_slice (nat start) (nat (fin + 1)) (concat plains)"
proof -
  define a where "a = nat start"
  define b where "b = nat fin"
  have ab': "start = int a" "fin = int b" "a \<le> b" "b < length (concat plains)"
    using ab by (simp_all add: a_def b_def)
  have S: "0 < S" using u by (simp add: uniform_parts_def)
  have dv: "go_div (int x) (int S) = int (x div S)" for x using S by (simp add: zdiv_int)
  define f where "f = (\<lambda>p :: nat. \<lparr> rgStart = max (int a - int p * int S) 0,
                  rgEnd = min (int S - 1) (int b - int p * int S), PartNo = int p \<rparr>)"
  have rs: "calculatePartByteRanges start fin (int S) = map f [a div S..<Suc (b div S)]"
    by (simp only: calculatePartByteRanges_def ab' dv upto_nat map_map comp_def f_def)
  have le: "a div S \<le> b div S" using ab'(3) by (rule div_le_mono)
  have bl: "b div S < length plains"
  proof -
    have "b < length plains * S" using ab'(4) uniform_length [OF u] by simp
    then show ?thesis using S by (simp add: div_less_iff_less_mult)
  qed
  have part: "range_ok plains (f p)"
    "range_bytes plains (f p) = go_slice (max a (p * S)) (min (b + 1) (p * S + S)) (concat plains)"
    if "a div S \<le> p" "p \<le> b div S" for p
    using part_range [OF u _ that ab'(3,4)] bl that unfolding f_def by auto
  have "concat (map (range_bytes plains) (map f [a div S..<Suc m]))
      = go_slice a (min (b + 1) (m * S + S)) (concat plains)"
    if "a div S \<le> m" "m \<le> b div S" for m
    using that
  proof (induction m rule: dec_induct)
    case base
    have "a div S * S \<le> a" by simp
    with part(2) [of "a div S"] le show ?case by (simp add: max_def)
  next
    case (step m)
    have mb: "m * S + S \<le> b" using step.prems S by (simp add: less_eq_div_iff_mult_less_eq)
    have am: "a \<le> m * S + S"
    proof -
      have "a < (a div S + 1) * S" using S by (simp add: dividend_less_div_times)
      also have "\<dots> \<le> (m + 1) * S" using step.hyps by (intro mult_le_mono1) simp
      finally show ?thesis by simp
    qed
    have "concat (map (range_bytes plains) (map f [a div S..<Suc (Suc m)]))
        = go_slice a (min (b + 1) (m * S + S)) (concat plains) @ range_bytes plains (f (Suc m))"
      using step.IH step.hyps step.prems by simp
    also have "range_bytes plains (f (Suc m))
        = go_slice (m * S + S) (min (b + 1) (Suc m * S + S)) (concat plains)"
      using part(2) [of "Suc m"] step.hyps step.prems am by (simp add: max_def add.commute)
    finally show ?case using mb am by (simp add: go_slice_append min_def add.commute)
  qed
  from this [OF le order_refl] have
    "concat (map (range_bytes plains) (map f [a div S..<Suc (b div S)]))
      = go_slice a (min (b + 1) (b div S * S + S)) (concat plains)" .
  moreover have "b + 1 \<le> b div S * S + S"
    using dividend_less_div_times [OF S, of b] by simp
  then have "min (b + 1) (b div S * S + S) = b + 1" by (rule min_absorb1)
  moreover have "nat start = a" "nat (fin + 1) = b + 1" using ab by (auto simp: a_def b_def nat_add_distrib)
  ultimately have con: "concat (map (range_bytes plains) (map f [a div S..<Suc (b div S)]))
      = go_slice (nat start) (nat (fin + 1)) (concat plains)" by (simp only:)
  have "map f [a div S..<Suc (b div S)] \<noteq> []" using le by simp
  moreover have "\<forall>rg \<in> set (map f [a div S..<Suc (b div S)]). range_ok plains rg"
    using part(1) by (auto simp: less_Suc_eq_le simp del: upt_Suc)
  ultimately show ?thesis unfolding rs using con by blast
qed

section \<open>The reader of the file over any source of parts\<close>

text \<open>
  A part source: readers that make progress with every call (as those of this package do), and an
  \<open>open_part\<close> that gives a reader of the range it is asked for.
\<close>

locale part_source = go_reader Read content final invar work
  for Read :: "'s read_fun" and content final invar work +
  fixes open_part :: "'s open_part" and plains :: "bytes list"
  assumes Read_nonempty: "invar s \<Longrightarrow> 0 < n \<Longrightarrow> Read n s = Some (bs, None, s') \<Longrightarrow> bs \<noteq> []"
    and open_part_ok: "range_ok plains rg \<Longrightarrow> \<exists>s. open_part (PartNo rg) (rgStart rg) (rgEnd rg) = Some (Inr s)
      \<and> invar s \<and> final s = EOF \<and> content s = range_bytes plains rg"
begin

definition rcontent :: "'s Reader \<Rightarrow> bytes" where
  "rcontent r = content (rreader r) @ concat (map (range_bytes plains) (drop (rpos r + 1) (ranges r)))"

definition rinvar :: "'s Reader \<Rightarrow> bool" where
  "rinvar r \<longleftrightarrow> invar (rreader r) \<and> final (rreader r) = EOF \<and> (\<forall>rg \<in> set (ranges r). range_ok plains rg)
     \<and> remaining r = int (length (rcontent r))"

definition rwork :: "'s Reader \<Rightarrow> nat" where
  "rwork r = length (rcontent r) + (length (ranges r) - rpos r)"

lemma Reader_step:
  assumes inv: "rinvar r" and n: "0 < n"
  shows "\<exists>bs e r'. Reader_Read open_part Read n r = Some (bs, e, r')
     \<and> length bs \<le> n \<and> rinvar r' \<and> rcontent r = bs @ rcontent r'
     \<and> (case e of None \<Rightarrow> rwork r' < rwork r | Some er \<Rightarrow> er = EOF \<and> rcontent r' = [])"
proof (cases "remaining r \<le> 0")
  case True
  with inv show ?thesis by (auto simp: Reader_Read_def rinvar_def)
next
  case pos: False
  have i: "invar (rreader r)" "final (rreader r) = EOF" "\<forall>rg \<in> set (ranges r). range_ok plains rg"
    "remaining r = int (length (rcontent r))" using inv by (auto simp: rinvar_def)
  obtain bs e s where rd: "Read n (rreader r) = Some (bs, e, s)" using Read_total [OF i(1) n] by blast
  note inv' = Read_invar [OF i(1) n rd] and fin' = Read_final [OF i(1) n rd]
    and con = Read_content [OF i(1) n rd] and len = Read_length [OF i(1) n rd]
  define g where "g = r\<lparr> rreader := s, remaining := remaining r - int (length bs) \<rparr>"
  have cg: "rcontent r = bs @ rcontent g" by (simp add: rcontent_def g_def con)
  have rg: "remaining g = int (length (rcontent g))" using i(4) cg by (simp add: g_def)
  have ig: "rinvar g" using i inv' fin' rg by (simp add: rinvar_def g_def)
  show ?thesis
  proof (cases "e = Some EOF \<and> remaining g > 0")
    case False
    then have r': "Reader_Read open_part Read n r = Some (bs, e, g)"
      using pos rd by (auto simp: Reader_Read_def g_def Let_def)
    have "case e of None \<Rightarrow> rwork g < rwork r | Some er \<Rightarrow> er = EOF \<and> rcontent g = []"
    proof (cases e)
      case None
      with rd Read_nonempty [OF i(1) n] have "bs \<noteq> []" by blast
      with None cg show ?thesis by (simp add: rwork_def g_def)
    next
      case (Some er)
      with rd Read_error [OF i(1) n] i(2) have "er = EOF" by blast
      with Some False rg show ?thesis by auto
    qed
    with r' cg ig len show ?thesis by blast
  next
    case True
    with rd Read_error [OF i(1) n, of bs EOF s] have cs: "content s = []" by auto
    define h where "h = g\<lparr> rpos := rpos g + 1 \<rparr>"
    have ne: "rpos h < length (ranges h)"
    proof (rule ccontr)
      assume "\<not> ?thesis"
      with cs have "rcontent g = []" by (simp add: rcontent_def h_def g_def)
      with True rg show False by simp
    qed
    then have "range_ok plains (ranges h ! rpos h)" using i(3) by (simp add: h_def g_def)
    from open_part_ok [OF this] obtain t where t: "getPartReader open_part (ranges h) (rpos h) = Some (Inr t)"
      "invar t" "final t = EOF" "content t = range_bytes plains (ranges h ! rpos h)"
      using ne by (auto simp: getPartReader_def)
    let ?r' = "h\<lparr> rreader := t \<rparr>"
    have rd': "Reader_Read open_part Read n r = Some (bs, None, ?r')"
      using pos rd True ne t(1) by (simp add: Reader_Read_def moveToNextPart_def Let_def g_def h_def)
    have "drop (rpos h) (ranges h) = ranges h ! rpos h # drop (rpos h + 1) (ranges h)"
      using ne Cons_nth_drop_Suc by fastforce
    then have c': "rcontent ?r' = rcontent g"
      using t(4) cs by (simp add: rcontent_def h_def g_def)
    have "rwork ?r' < rwork r"
      using ne cg by (simp add: rwork_def c') (simp add: h_def g_def)
    moreover have "rinvar ?r'" using t ig c' by (simp add: rinvar_def h_def)
    ultimately show ?thesis using rd' cg c' len by auto
  qed
qed

lemma Reader_reader:
  "go_reader (Reader_Read open_part Read) rcontent (\<lambda>_. EOF) rinvar rwork"
proof (unfold_locales, goal_cases)
  case (1 r n)
  then show ?case using Reader_step [OF 1] by blast
next
  case (2 r n bs e r')
  then show ?case using Reader_step [OF 2(1,2)] by auto
next
  case (4 r n bs e r')
  then show ?case using Reader_step [OF 4(1,2)] by auto
next
  case (5 r n bs e r')
  then show ?case using Reader_step [OF 5(1,2)] by auto
next
  case (6 r n bs r')
  then show ?case using Reader_step [OF 6(1,2)] by auto
next
  case (7 r n bs er r')
  then show ?case using Reader_step [OF 7(1,2)] by auto
qed simp

lemma NewReader_opens:
  assumes u: "uniform_parts S plains" and ab: "0 \<le> start" "start \<le> fin" "fin < int (length (concat plains))"
    and p0: "parts \<noteq> []"
    and sz: "(if enc then DecryptedPartSize (parts ! 0) else PartSize (parts ! 0)) = int S"
  shows "\<exists>r. NewReader open_part enc parts start fin = Some (Inr r) \<and> rinvar r
     \<and> rcontent r = go_slice (nat start) (nat (fin + 1)) (concat plains)"
proof -
  define rs where "rs = calculatePartByteRanges start fin (int S)"
  have rs: "rs \<noteq> []" "\<forall>rg \<in> set rs. range_ok plains rg"
    "concat (map (range_bytes plains) rs) = go_slice (nat start) (nat (fin + 1)) (concat plains)"
    using calculatePartByteRanges_ok [OF u ab] by (auto simp: rs_def)
  then obtain rg rest where rc: "rs = rg # rest" by (cases rs) auto
  with rs have "range_ok plains rg" by simp
  from open_part_ok [OF this] obtain s where s: "getPartReader open_part rs 0 = Some (Inr s)"
    "invar s" "final s = EOF" "content s = range_bytes plains rg"
    by (auto simp: getPartReader_def rc)
  define r where "r = \<lparr> ranges = rs, rpos = 0, rreader = s, remaining = fin - start + 1 \<rparr>"
  have new: "NewReader open_part enc parts start fin = Some (Inr r)"
    using p0 s(1) sz by (simp add: NewReader_def r_def rs_def)
  have con: "rcontent r = go_slice (nat start) (nat (fin + 1)) (concat plains)"
    using rs(3) s(4) by (simp add: rcontent_def r_def rc)
  have "rinvar r" unfolding rinvar_def con using s rs(2) ab by (auto simp: r_def)
  with con new show ?thesis by blast
qed

lemma NewReader_range:
  assumes "uniform_parts S plains" "0 \<le> start" "start \<le> fin" "fin < int (length (concat plains))" "parts \<noteq> []"
    and "(if enc then DecryptedPartSize (parts ! 0) else PartSize (parts ! 0)) = int S" and k: "0 < k"
  shows "\<exists>r r'. NewReader open_part enc parts start fin = Some (Inr r)
     \<and> io_Copy (Reader_Read open_part Read) k [] r
       = Some (go_slice (nat start) (nat (fin + 1)) (concat plains), None, r')"
proof -
  obtain r where r: "NewReader open_part enc parts start fin = Some (Inr r)" "rinvar r"
    "rcontent r = go_slice (nat start) (nat (fin + 1)) (concat plains)"
    using NewReader_opens [OF assms(1-6)] by blast
  from go_reader.io_Copy_spec [OF Reader_reader r(2) k, of "[]"] r(1,3) show ?thesis by auto
qed

text \<open>The same through a limit that is the length of the range.\<close>

lemma NewReader_limited:
  assumes "uniform_parts S plains" "0 \<le> start" "start \<le> fin" "fin < int (length (concat plains))" "parts \<noteq> []"
    and "(if enc then DecryptedPartSize (parts ! 0) else PartSize (parts ! 0)) = int S" and k: "0 < k"
  shows "\<exists>r r'. NewReader open_part enc parts start fin = Some (Inr r)
     \<and> io_Copy (limit_Read (Reader_Read open_part Read)) k [] (r, fin - start + 1)
       = Some (go_slice (nat start) (nat (fin + 1)) (concat plains), None, r')"
proof -
  let ?sl = "go_slice (nat start) (nat (fin + 1)) (concat plains)"
  obtain r where r: "NewReader open_part enc parts start fin = Some (Inr r)" "rinvar r" "rcontent r = ?sl"
    using NewReader_opens [OF assms(1-6)] by blast
  have "length ?sl \<le> nat (fin - start + 1)" by (simp add: go_slice_def)
  then have "take (nat (fin - start + 1)) (rcontent r) = ?sl" by (simp add: r(3))
  moreover have "case (r, fin - start + 1) of (s, N) \<Rightarrow> rinvar s \<and> EOF = EOF" using r(2) by simp
  ultimately show ?thesis
    using go_reader.io_Copy_spec [OF go_reader.limited_reader [OF Reader_reader] _ k, of "(r, fin - start + 1)" "[]"] r(1) by auto
qed

end

section \<open>The readers of the parts are a part source\<close>

text \<open>\<open>doc i\<close> is the document with id \<open>i\<close>.\<close>

definition part_content :: "unseal_fun \<Rightarrow> (int \<Rightarrow> bytes) \<Rightarrow> part_reader \<Rightarrow> bytes" where
  "part_content unseal doc pr =
     (case pr of PlainR i r \<Rightarrow> tgm_content (doc i) r
      | DecR i key d \<Rightarrow> dec_content unseal key (tgm_content (doc i)) d)"

definition part_final :: "part_reader \<Rightarrow> io_error" where
  "part_final pr = (case pr of PlainR i r \<Rightarrow> EOF | DecR i key d \<Rightarrow> dec_final d)"

definition part_invar ::
    "(int \<Rightarrow> chunk_fun) \<Rightarrow> unseal_fun \<Rightarrow> (int \<Rightarrow> bytes) \<Rightarrow> part_reader \<Rightarrow> bool" where
  "part_invar chunks unseal doc pr \<longleftrightarrow>
     (case pr of PlainR i r \<Rightarrow> chunk_ok (chunks i) (doc i) \<and> tgm_invar (doc i) r
      | DecR i key d \<Rightarrow> chunk_ok (chunks i) (doc i) \<and> (\<exists>seal. secretbox_ok seal unseal)
          \<and> dec_invar (tgm_invar (doc i)) (\<lambda>_. EOF) (tgm_content (doc i)) d)"

lemma part_step:
  assumes inv: "part_invar chunks unseal doc pr" and n: "0 < n"
  shows "\<exists>bs e pr'. part_Read chunks unseal n pr = Some (bs, e, pr')
     \<and> length bs \<le> n \<and> part_invar chunks unseal doc pr' \<and> part_final pr' = part_final pr
     \<and> part_content unseal doc pr = bs @ part_content unseal doc pr'
     \<and> (case e of None \<Rightarrow> bs \<noteq> [] | Some er \<Rightarrow> er = part_final pr \<and> part_content unseal doc pr' = [])"
proof (cases pr)
  case (PlainR i r)
  with inv have "chunk_ok (chunks i) (doc i)" "tgm_invar (doc i) r" by (simp_all add: part_invar_def)
  from tgm_step_ok [OF this n] obtain bs e r' where
    "tgm_Read (chunks i) n r = Some (bs, e, r')" "length bs \<le> n" "tgm_invar (doc i) r'"
    "tgm_content (doc i) r = bs @ tgm_content (doc i) r'"
    "case e of None \<Rightarrow> bs \<noteq> [] | Some er \<Rightarrow> er = EOF \<and> tgm_content (doc i) r' = []" by blast
  with PlainR inv show ?thesis
    by (cases e) (auto simp: part_Read_def part_invar_def part_final_def part_content_def)
next
  case (DecR i key d)
  with inv obtain seal where ok: "chunk_ok (chunks i) (doc i)" "secretbox_ok seal unseal"
    and di: "dec_invar (tgm_invar (doc i)) (\<lambda>_. EOF) (tgm_content (doc i)) d"
    by (auto simp: part_invar_def)
  from go_reader.decrypter_step [OF tgm_reader [OF ok(1)] ok(2) di n, of key] obtain bs e d' where
    "decrypter_Read unseal key (tgm_Read (chunks i)) n d = Some (bs, e, d')" "length bs \<le> n"
    "dec_invar (tgm_invar (doc i)) (\<lambda>_. EOF) (tgm_content (doc i)) d'" "dec_final d' = dec_final d"
    "dec_content unseal key (tgm_content (doc i)) d = bs @ dec_content unseal key (tgm_content (doc i)) d'"
    "case e of None \<Rightarrow> bs \<noteq> [] | Some er \<Rightarrow> er = dec_final d \<and> dec_content unseal key (tgm_content (doc i)) d' = []"
    by blast
  with DecR ok show ?thesis
    by (cases e) (auto simp: part_Read_def part_invar_def part_final_def part_content_def)
qed

lemma part_reader_ok:
  "go_reader (part_Read chunks unseal) (part_content unseal doc) part_final (part_invar chunks unseal doc)
     (\<lambda>pr. length (part_content unseal doc pr))"
proof (unfold_locales, goal_cases)
  case (1 pr n)
  then show ?case using part_step [OF 1] by blast
next
  case (2 pr n bs e pr')
  then show ?case using part_step [OF 2(1,2)] by auto
next
  case (3 pr n bs e pr')
  then show ?case using part_step [OF 3(1,2)] by auto
next
  case (4 pr n bs e pr')
  then show ?case using part_step [OF 4(1,2)] by auto
next
  case (5 pr n bs e pr')
  then show ?case using part_step [OF 5(1,2)] by auto
next
  case (6 pr n bs pr')
  then show ?case using part_step [OF 6(1,2)] by auto
next
  case (7 pr n bs er pr')
  then show ?case using part_step [OF 7(1,2)] by auto
qed

text \<open>What the database and Telegram hold for a file: the documents of plain or encrypted parts.\<close>

definition plain_parts :: "(int \<Rightarrow> chunk_fun) \<Rightarrow> (int \<Rightarrow> bytes) \<Rightarrow> Part list \<Rightarrow> bytes list \<Rightarrow> bool" where
  "plain_parts chunks doc parts plains \<longleftrightarrow>
     plains = map (\<lambda>p. doc (PartID p)) parts
     \<and> (\<forall>p \<in> set parts. chunk_ok (chunks (PartID p)) (doc (PartID p)))"

definition encrypted_parts ::
    "seal_fun \<Rightarrow> (string \<Rightarrow> bytes) \<Rightarrow> (int \<Rightarrow> chunk_fun) \<Rightarrow> (int \<Rightarrow> bytes) \<Rightarrow> Part list \<Rightarrow> bytes list \<Rightarrow> bool" where
  "encrypted_parts seal keyof chunks doc parts plains \<longleftrightarrow>
     length plains = length parts
     \<and> (\<forall>i < length parts. chunk_ok (chunks (PartID (parts ! i))) (doc (PartID (parts ! i)))
          \<and> (\<exists>n. length n = fileNonceSize
               \<and> doc (PartID (parts ! i)) = encrypted seal (keyof (PartSalt (parts ! i))) n (plains ! i))
          \<and> PartSize (parts ! i) = int (length (doc (PartID (parts ! i))))
          \<and> length (plains ! i) < 2 ^ 62)"

lemma openPart_plain:
  assumes "plain_parts chunks doc parts plains" "0 < conc" "range_ok plains rg"
  shows "\<exists>s. openPart chunks unseal keyof conc False parts (PartNo rg) (rgStart rg) (rgEnd rg) = Some (Inr s)
    \<and> part_invar chunks unseal doc s \<and> part_final s = EOF \<and> part_content unseal doc s = range_bytes plains rg"
proof -
  let ?p = "parts ! nat (PartNo rg)"
  have l: "0 \<le> PartNo rg" "PartNo rg < int (length parts)" "nat (PartNo rg) < length parts"
    using assms by (auto simp: range_ok_def plain_parts_def)
  then have d: "plains ! nat (PartNo rg) = doc (PartID ?p)" "chunk_ok (chunks (PartID ?p)) (doc (PartID ?p))"
    using assms(1) by (auto simp: plain_parts_def)
  have "0 \<le> rgStart rg" "rgStart rg \<le> rgEnd rg" "rgEnd rg < int (length (doc (PartID ?p)))"
    using assms(3) d by (auto simp: range_ok_def)
  from newTGMultiReader_ok [OF this assms(2)] l d show ?thesis
    by (simp add: openPart_def part_invar_def part_final_def part_content_def range_bytes_def Let_def)
qed

text \<open>The callback serves the ranges of the document that a positive limit asks for.\<close>

lemma part_open_range_serves:
  assumes "0 < conc" and psize: "partSize = int (length docb)"
  shows "serves False (tgm_content docb) (\<lambda>_. EOF) (tgm_invar docb) docb (part_open_range conc partSize)"
  unfolding serves_def
proof (intro allI impI)
  fix off lim :: int
  assume "0 \<le> off \<and> off < int (length docb) \<and> (0 < lim \<or> False \<and> lim < 0)"
  then have o1: "0 \<le> off" "off < int (length docb)" "0 < lim" by auto
  define fin where "fin = min (partSize - 1) (off + lim - 1)"
  have f: "off \<le> fin" "fin < int (length docb)" using o1 psize by (auto simp: fin_def)
  have "go_slice (nat off) (nat (fin + 1)) docb = take (nat lim) (drop (nat off) docb)"
    using o1 psize by (auto simp: fin_def go_slice_def min_def nat_diff_distrib' intro: arg_cong2 [of _ _ _ _ take])
  with newTGMultiReader_ok [OF o1(1) f assms(1)] o1(3)
  show "\<exists>s. part_open_range conc partSize off lim = Inr s \<and> tgm_invar docb s \<and> EOF = EOF
    \<and> tgm_content docb s = (if lim < 0 then drop (nat off) docb else take (nat lim) (drop (nat off) docb))"
    by (simp add: part_open_range_def fin_def Let_def)
qed

lemma openPart_encrypted:
  assumes ep: "encrypted_parts seal keyof chunks doc parts plains" and ok: "secretbox_ok seal unseal"
    and conc: "0 < conc" and rg: "range_ok plains rg"
  shows "\<exists>s. openPart chunks unseal keyof conc True parts (PartNo rg) (rgStart rg) (rgEnd rg) = Some (Inr s)
    \<and> part_invar chunks unseal doc s \<and> part_final s = EOF \<and> part_content unseal doc s = range_bytes plains rg"
proof -
  define p where "p = parts ! nat (PartNo rg)"
  define data where "data = plains ! nat (PartNo rg)"
  have l: "0 \<le> PartNo rg" "PartNo rg < int (length parts)" "nat (PartNo rg) < length parts"
    using rg ep by (auto simp: range_ok_def encrypted_parts_def)
  with ep obtain n where d: "chunk_ok (chunks (PartID p)) (doc (PartID p))" "length n = fileNonceSize"
    "doc (PartID p) = encrypted seal (keyof (PartSalt p)) n data"
    "PartSize p = int (length (doc (PartID p)))" "length data < 2 ^ 62"
    by (auto simp: encrypted_parts_def p_def data_def)
  have r: "0 \<le> rgStart rg" "rgStart rg \<le> rgEnd rg" "rgEnd rg < int (length data)"
    using rg by (auto simp: range_ok_def data_def)
  have "int (length data) < 2 ^ 62" using d(5) by (metis of_nat_less_iff of_nat_numeral of_nat_power)
  with r have b: "rgStart rg < int (length data)" "rgStart rg < 2 ^ 62" "rgEnd rg - rgStart rg + 1 < 2 ^ 62"
    "rgEnd rg - rgStart rg + 1 < 0 \<longrightarrow> False" by simp_all
  note sv = part_open_range_serves [OF conc d(4)]
  obtain fh where fh: "newDecrypterSeek unseal (keyof (PartSalt p)) (tgm_Read (chunks (PartID p)))
      (part_open_range conc (PartSize p)) (rgStart rg) (rgEnd rg - rgStart rg + 1) = Some (Inr fh)"
    "dec_invar (tgm_invar (doc (PartID p))) (\<lambda>_. EOF) (tgm_content (doc (PartID p))) fh" "dec_err fh = None"
    "dec_content unseal (keyof (PartSalt p)) (tgm_content (doc (PartID p))) fh
       = plain_range (rgStart rg) (rgEnd rg - rgStart rg + 1) data"
    using newDecrypterSeek_ok [OF tgm_reader [OF d(1)] ok d(2) _ r(1) b, of "keyof (PartSalt p)"
        "part_open_range conc (PartSize p)"] sv
    unfolding d(3) [symmetric] by blast
  have "plain_range (rgStart rg) (rgEnd rg - rgStart rg + 1) data = range_bytes plains rg"
    using r by (auto simp: plain_range_def limited_def range_bytes_def data_def go_slice_def
        nat_diff_distrib' [symmetric] intro: arg_cong2 [of _ _ _ _ take])
  with fh d(1) ok l show ?thesis
    by (auto simp: openPart_def Let_def p_def [symmetric] part_invar_def part_final_def
        part_content_def dec_final_def)
qed

lemma part_source_of:
  assumes "\<And>rg. range_ok plains rg \<Longrightarrow> \<exists>s. opn (PartNo rg) (rgStart rg) (rgEnd rg) = Some (Inr s)
    \<and> part_invar chunks unseal doc s \<and> part_final s = EOF \<and> part_content unseal doc s = range_bytes plains rg"
  shows "part_source (part_Read chunks unseal) (part_content unseal doc) part_final
    (part_invar chunks unseal doc) (\<lambda>pr. length (part_content unseal doc pr)) opn plains"
proof (rule part_source.intro [OF part_reader_ok])
  show "part_source_axioms (part_Read chunks unseal) (part_content unseal doc) part_final
    (part_invar chunks unseal doc) opn plains"
  proof (unfold_locales, goal_cases)
    case (1 s n bs s')
    with part_step [OF 1(1,2)] show ?case by auto
  next
    case (2 rg)
    then show ?case by (rule assms)
  qed
qed

text \<open>Documents in memory: the interface holds of the readers of this file.\<close>

interpretation mem_parts: part_source "part_Read (\<lambda>i. mem_chunk (doc i)) unseal" "part_content unseal doc"
    part_final "part_invar (\<lambda>i. mem_chunk (doc i)) unseal doc" "\<lambda>pr. length (part_content unseal doc pr)"
    "openPart (\<lambda>i. mem_chunk (doc i)) unseal keyof (Suc conc) False parts" "map (\<lambda>p. doc (PartID p)) parts"
  for doc unseal keyof conc parts
  by (rule part_source_of, rule openPart_plain) (auto simp: plain_parts_def mem_chunk_ok)

text \<open>
  Streaming a file of plain parts. When the parts but the last have the size of the first, a
  \<open>Reader\<close> for a range of the file yields exactly the bytes of the range, across part
  boundaries, for any chunk source that serves the documents.
\<close>

theorem NewReader_plain:
  assumes "plain_parts chunks doc parts plains" and "uniform_parts S plains"
    and "PartSize (parts ! 0) = int S" and "0 < conc" and "0 < k"
    and "0 \<le> start" "start \<le> fin" "fin < int (length (concat plains))"
  shows "\<exists>r r'. NewReader (openPart chunks unseal keyof conc False parts) False parts start fin = Some (Inr r)
     \<and> io_Copy (Reader_Read (openPart chunks unseal keyof conc False parts) (part_Read chunks unseal)) k [] r
       = Some (go_slice (nat start) (nat (fin + 1)) (concat plains), None, r')"
proof -
  have "parts \<noteq> []" using assms(1,2) by (auto simp: plain_parts_def uniform_parts_def)
  with part_source.NewReader_range [OF part_source_of assms(2,6-8), OF openPart_plain [OF assms(1,4)], of _ False]
    assms(3,5) show ?thesis by simp
qed


section \<open>Witnesses\<close>

definition two_parts :: "Part list" where
  "two_parts = [\<lparr> DecryptedPartSize = 3, PartSize = 3, PartSalt = ''a'', PartID = 7 \<rparr>,
                 \<lparr> DecryptedPartSize = 2, PartSize = 2, PartSalt = ''b'', PartID = 8 \<rparr>]"

definition two_docs :: "int \<Rightarrow> bytes" where
  "two_docs i = (if i = 7 then [1, 2, 3] else [4, 5])"

lemma calculatePartByteRanges_ok_witness:
  "calculatePartByteRanges 1 3 3 = [\<lparr> rgStart = 1, rgEnd = 2, PartNo = 0 \<rparr>, \<lparr> rgStart = 0, rgEnd = 0, PartNo = 1 \<rparr>]
   \<and> concat (map (range_bytes [[1, 2, 3], [4, 5]]) (calculatePartByteRanges 1 3 3)) = [2, 3, 4]"
  using calculatePartByteRanges_ok [of 3 "[[1, 2, 3], [4, 5]]" 1 3]
  by (simp add: uniform_parts_def calculatePartByteRanges_def go_slice_def upto.simps)

lemma two_parts_plain:
  "plain_parts (\<lambda>i. mem_chunk (two_docs i)) two_docs two_parts [[1, 2, 3], [4, 5]]"
  by (simp add: plain_parts_def two_parts_def two_docs_def mem_chunk_ok)

lemma NewReader_plain_witness:
  "\<exists>r r'. NewReader (openPart (\<lambda>i. mem_chunk (two_docs i)) plain_unseal (\<lambda>_. []) 2 False two_parts)
       False two_parts 1 3 = Some (Inr r)
     \<and> io_Copy (Reader_Read (openPart (\<lambda>i. mem_chunk (two_docs i)) plain_unseal (\<lambda>_. []) 2 False two_parts)
         (part_Read (\<lambda>i. mem_chunk (two_docs i)) plain_unseal)) 2 [] r = Some ([2, 3, 4], None, r')"
  using NewReader_plain [OF two_parts_plain, of 3 2 2 1 3 plain_unseal "\<lambda>_. []"]
  by (simp add: uniform_parts_def two_parts_def go_slice_def)

definition enc_docs :: "int \<Rightarrow> bytes" where
  "enc_docs i = encrypted plain_seal [] nonce0 (if i = 7 then [1, 2, 3] else [4, 5])"

definition enc_parts :: "Part list" where
  "enc_parts = [\<lparr> DecryptedPartSize = 3, PartSize = int (length (enc_docs 7)), PartSalt = ''a'', PartID = 7 \<rparr>,
                 \<lparr> DecryptedPartSize = 2, PartSize = int (length (enc_docs 8)), PartSalt = ''b'', PartID = 8 \<rparr>]"

lemma enc_parts_ok:
  "encrypted_parts plain_seal (\<lambda>_. []) (\<lambda>i. mem_chunk (enc_docs i)) enc_docs enc_parts [[1, 2, 3], [4, 5]]"
proof -
  have "\<exists>n. length n = fileNonceSize \<and> enc_docs i = encrypted plain_seal [] n (if i = 7 then [1, 2, 3] else [4, 5])" for i
    by (intro exI [of _ nonce0]) (simp add: enc_docs_def fileNonceSize_def)
  from this [of 7] this [of 8] show ?thesis
    by (auto simp: encrypted_parts_def enc_parts_def mem_chunk_ok less_Suc_eq)
qed


end
