(* ===== verification/FileTree.thy ===== *)
theory FileTree
  imports FileTable
begin

text \<open>
  The tree laws of the file table: an invariant (unique ids, one active row per name in a folder, a
  row belongs to the user of its folder, no cycle of folders), paths that end because there is no
  cycle, the round trip of \<open>getFullPath\<close> and \<open>resolvePathID\<close>, and what \<open>deleteFilesBulk\<close> does to
  a subtree.
\<close>

section \<open>The invariant\<close>

definition unique_ids :: "FileRow list \<Rightarrow> bool" where
  "unique_ids rows \<longleftrightarrow> distinct (map f_id rows)"

text \<open>The partial unique index \<open>unique_file_idx\<close>.\<close>

definition unique_active :: "FileRow list \<Rightarrow> bool" where
  "unique_active rows \<longleftrightarrow>
     (\<forall>f \<in> set rows. \<forall>g \<in> set rows. f_status f = ACTIVE \<longrightarrow> f_status g = ACTIVE \<longrightarrow>
        f_name f = f_name g \<longrightarrow> f_parent f = f_parent g \<longrightarrow> f_user f = f_user g \<longrightarrow> f = g)"

definition same_user :: "FileRow list \<Rightarrow> bool" where
  "same_user rows \<longleftrightarrow>
     (\<forall>f \<in> set rows. \<forall>g \<in> set rows. f_parent f = Some (f_id g) \<longrightarrow> f_user f = f_user g)"

definition acyclic_by :: "(string \<Rightarrow> nat) \<Rightarrow> FileRow list \<Rightarrow> bool" where
  "acyclic_by rank rows \<longleftrightarrow>
     (\<forall>f \<in> set rows. \<forall>p. f_parent f = Some p \<longrightarrow> p \<in> f_id ` set rows \<longrightarrow> rank p < rank (f_id f))"

definition acyclic_rows :: "FileRow list \<Rightarrow> bool" where
  "acyclic_rows rows \<longleftrightarrow> (\<exists>rank. acyclic_by rank rows)"

lemma find_Some_set: "List.find P xs = Some x \<Longrightarrow> x \<in> set xs \<and> P x"
  by (auto simp: find_Some_iff)

lemma row_by_id_Some: "row_by_id rows i = Some f \<Longrightarrow> f \<in> set rows \<and> f_id f = i"
  unfolding row_by_id_def first_where_def by (drule find_Some_set) simp

lemma row_by_id_None: "row_by_id rows i = None \<longleftrightarrow> i \<notin> f_id ` set rows"
  unfolding row_by_id_def first_where_def by (auto simp: find_None_iff)

lemma row_by_id_mem:
  assumes "unique_ids rows" "f \<in> set rows"
  shows "row_by_id rows (f_id f) = Some f"
proof -
  obtain g where g: "row_by_id rows (f_id f) = Some g"
    using assms(2) row_by_id_None [of rows "f_id f"] by (cases "row_by_id rows (f_id f)") auto
  with row_by_id_Some [OF g] assms have "g = f"
    by (metis distinct_map inj_on_def unique_ids_def)
  with g show ?thesis by simp
qed

section \<open>Paths end\<close>

lemma path_tree_ends:
  assumes "acyclic_by rank rows"
  shows "\<exists>ns. path_tree rows i = Some ns"
proof (induction "rank i" arbitrary: i rule: less_induct)
  case less
  show ?case
  proof (cases "row_by_id rows i")
    case None
    then show ?thesis by (subst path_tree.simps) simp
  next
    case (Some f)
    note f = row_by_id_Some [OF Some]
    show ?thesis
    proof (cases "f_parent f")
      case None
      with Some show ?thesis by (subst path_tree.simps) simp
    next
      case (Some p)
      have "\<exists>ns. path_tree rows p = Some ns"
      proof (cases "p \<in> f_id ` set rows")
        case True
        with assms f Some have "rank p < rank i" unfolding acyclic_by_def by auto
        then show ?thesis by (rule less)
      next
        case False
        then have "row_by_id rows p = None" by (simp add: row_by_id_None)
        then show ?thesis by (subst path_tree.simps) simp
      qed
      with \<open>row_by_id rows i = Some f\<close> Some show ?thesis by (subst path_tree.simps) auto
    qed
  qed
qed

section \<open>Round trip of paths\<close>

text \<open>\<open>active_path rows uid i ns\<close>: \<open>ns\<close> are the names from a root of the user down to the active row \<open>i\<close>.\<close>

inductive active_path :: "FileRow list \<Rightarrow> int \<Rightarrow> string \<Rightarrow> string list \<Rightarrow> bool" for rows uid where
  root: "f \<in> set rows \<Longrightarrow> f_status f = ACTIVE \<Longrightarrow> f_user f = uid \<Longrightarrow> f_parent f = None
    \<Longrightarrow> active_path rows uid (f_id f) [f_name f]"
| child: "active_path rows uid p ns \<Longrightarrow> f \<in> set rows \<Longrightarrow> f_status f = ACTIVE \<Longrightarrow> f_user f = uid
    \<Longrightarrow> f_parent f = Some p \<Longrightarrow> active_path rows uid (f_id f) (ns @ [f_name f])"

inductive_cases active_pathE: "active_path rows uid i ns"

lemma active_path_ne: "active_path rows uid i ns \<Longrightarrow> ns \<noteq> []"
  by (induction rule: active_path.induct) auto

lemma active_path_tree:
  assumes "unique_ids rows" "active_path rows uid i ns"
  shows "path_tree rows i = Some ns"
  using assms(2)
proof (induction rule: active_path.induct)
  case (root f)
  then show ?case by (subst path_tree.simps) (simp add: row_by_id_mem [OF assms(1)])
next
  case (child p ns f)
  then show ?case by (subst path_tree.simps) (simp add: row_by_id_mem [OF assms(1)])
qed

lemma filter_singleton:
  assumes "distinct xs" "x \<in> set xs" "P x" "\<And>y. y \<in> set xs \<Longrightarrow> P y \<Longrightarrow> y = x"
  shows "filter P xs = [x]"
proof -
  have "set (filter P xs) \<subseteq> {x}"
  proof
    fix y assume "y \<in> set (filter P xs)"
    then have "y \<in> set xs" "P y" by simp_all
    from assms(4) [OF this] show "y \<in> {x}" by (rule ssubst) simp
  qed
  moreover have "x \<in> set (filter P xs)" using assms(2,3) by simp
  ultimately have "set (filter P xs) = {x}" by blast
  moreover have "distinct (filter P xs)" using assms(1) by simp
  ultimately show ?thesis by (cases "filter P xs") (auto simp: subset_singleton_iff)
qed

lemma unique_ids_distinct: "unique_ids rows \<Longrightarrow> distinct rows"
  by (simp add: unique_ids_def distinct_map)

lemma descend_snoc: "descend rows ids (ns @ [n]) = child_ids rows n (descend rows ids ns)"
  by (induction ns arbitrary: ids) auto

lemma descend_active_path:
  assumes u: "unique_ids rows" "unique_active rows" "same_user rows" and p: "active_path rows uid i ns"
  shows "descend rows (root_ids rows uid (hd ns)) (tl ns) = [i] \<and> i \<in> f_id ` set rows"
  using p
proof (induction rule: active_path.induct)
  case (root f)
  have "filter (\<lambda>g. f_name g = f_name f \<and> f_user g = uid \<and> f_parent g = None \<and> f_status g = ACTIVE) rows = [f]"
  proof (rule filter_singleton [OF unique_ids_distinct [OF u(1)] root(1)])
    fix g assume g: "g \<in> set rows"
      "f_name g = f_name f \<and> f_user g = uid \<and> f_parent g = None \<and> f_status g = ACTIVE"
    then show "g = f" using root u(2) unfolding unique_active_def by metis
  qed (use root in simp)
  with root show ?case by (simp add: root_ids_def)
next
  case (child p ns f)
  have "filter (\<lambda>g. f_parent g = Some p \<and> f_name g = f_name f \<and> f_status g = ACTIVE) rows = [f]"
  proof (rule filter_singleton [OF unique_ids_distinct [OF u(1)] child.hyps(2)])
    fix g assume g: "g \<in> set rows" "f_parent g = Some p \<and> f_name g = f_name f \<and> f_status g = ACTIVE"
    from child.IH obtain h where h: "h \<in> set rows" "f_id h = p" by auto
    then have "f_user g = f_user f" using g child.hyps u(3) unfolding same_user_def by metis
    then show "g = f" using g child.hyps u(2) unfolding unique_active_def by metis
  qed (use child in simp)
  then have c: "child_ids rows (f_name f) [p] = [f_id f]" by (simp add: child_ids_def)
  from active_path_ne [OF child.hyps(1)] obtain m ms where ns: "ns = m # ms" by (cases ns) auto
  with child.IH have "descend rows (root_ids rows uid m) ms = [p]" by simp
  then have "descend rows (root_ids rows uid m) (ms @ [f_name f]) = [f_id f]"
    by (simp add: descend_snoc c)
  with child.hyps ns show ?case by simp
qed

text \<open>Splitting a joined path again, for names as they are stored.\<close>

definition name_ok :: "string \<Rightarrow> bool" where
  "name_ok n \<longleftrightarrow> n \<noteq> '''' \<and> CHR ''/'' \<notin> set n"

lemma Join_snoc: "ns \<noteq> [] \<Longrightarrow> Join (ns @ [n]) sep = Join ns sep @ sep @ n"
  by (induction ns sep rule: Join.induct) auto

lemma Join_ends:
  assumes "ns \<noteq> []" "\<forall>n \<in> set ns. name_ok n"
  shows "Join ns ''/'' \<noteq> '''' \<and> hd (Join ns ''/'') \<noteq> CHR ''/'' \<and> last (Join ns ''/'') \<noteq> CHR ''/''"
proof -
  have n: "m \<noteq> '''' \<and> hd m \<noteq> CHR ''/'' \<and> last m \<noteq> CHR ''/''" if "name_ok m" for m
    using that by (metis hd_in_set last_in_set name_ok_def)
  from assms show ?thesis
  proof (induction ns "''/''" rule: Join.induct)
    case (2 w)
    then show ?case using n by simp
  next
    case (3 w v vs)
    then show ?case using n [of w] by (simp add: last_append)
  qed simp
qed

lemma TrimC_id: "s = '''' \<or> hd s \<noteq> c \<and> last s \<noteq> c \<Longrightarrow> TrimC s c = s"
proof -
  have l: "TrimLeftC x c = x" if "x = '''' \<or> hd x \<noteq> c" for x
    using that by (cases x) (auto simp: TrimLeftC_def)
  assume "s = '''' \<or> hd s \<noteq> c \<and> last s \<noteq> c"
  then show ?thesis by (auto simp: TrimC_def l hd_rev)
qed

lemma TrimC_slash: "TrimC (c # s) c = TrimC s c"
  by (simp add: TrimC_def TrimLeftC_def)

lemma path_parts_Join:
  assumes "ns \<noteq> []" "\<forall>n \<in> set ns. name_ok n"
  shows "path_parts (CHR ''/'' # Join ns ''/'') = ns"
proof -
  note e = Join_ends [OF assms]
  then have "TrimC (CHR ''/'' # Join ns ''/'') CHR ''/'' = Join ns ''/''"
    by (simp add: TrimC_slash TrimC_id)
  with e Split_Join [of ns "CHR ''/''"] assms show ?thesis
    by (auto simp: path_parts_def name_ok_def Let_def)
qed

lemma Join_Cons: "ns \<noteq> [] \<Longrightarrow> Join (n # ns) sep = n @ sep @ Join ns sep"
  by (cases ns) auto

lemma getFullPath_active:
  assumes "unique_ids rows" "active_path rows uid i (''root'' # ns)"
  shows "getFullPath rows i = Some (if ns = [] then '''' else CHR ''/'' # Join ns ''/'')"
proof -
  have j: "Join (''root'' # ns) ''/'' = (if ns = [] then ''root'' else ''root/'' @ Join ns ''/'')"
    by (cases ns) simp_all
  show ?thesis
    using active_path_tree [OF assms]
    by (simp add: getFullPath_def j TrimPrefix_def HasPrefix_def Let_def)
qed


section \<open>Deleting a subtree\<close>

text \<open>The ids reached from a set of ids along \<open>parent_id\<close>.\<close>

inductive_set subtree :: "FileRow list \<Rightarrow> string set \<Rightarrow> string set" for rows S where
  base: "i \<in> S \<Longrightarrow> i \<in> subtree rows S"
| step: "p \<in> subtree rows S \<Longrightarrow> f \<in> set rows \<Longrightarrow> f_parent f = Some p \<Longrightarrow> f_id f \<in> subtree rows S"

lemma subtree_mono: "S \<subseteq> T \<Longrightarrow> i \<in> subtree rows S \<Longrightarrow> i \<in> subtree rows T"
  by (erule subtree.induct) (auto intro: subtree.intros)

lemma set_children_ids: "set (children_ids rows ids) = {f_id f | f p. p \<in> set ids \<and> f \<in> set rows \<and> f_parent f = Some p}"
  by (auto simp: children_ids_def)

lemma subtree_children: "subtree rows (set ids) = set ids \<union> subtree rows (set (children_ids rows ids))"
proof
  show "subtree rows (set ids) \<subseteq> set ids \<union> subtree rows (set (children_ids rows ids))"
  proof
    fix i assume "i \<in> subtree rows (set ids)"
    then show "i \<in> set ids \<union> subtree rows (set (children_ids rows ids))"
    proof (induction rule: subtree.induct)
      case (step p f)
      then show ?case by (auto simp: set_children_ids intro: subtree.intros)
    qed simp
  qed
  show "set ids \<union> subtree rows (set (children_ids rows ids)) \<subseteq> subtree rows (set ids)"
  proof
    fix i assume "i \<in> set ids \<union> subtree rows (set (children_ids rows ids))"
    then show "i \<in> subtree rows (set ids)"
    proof
      assume "i \<in> subtree rows (set (children_ids rows ids))"
      then show ?thesis
        by (induction rule: subtree.induct) (auto simp: set_children_ids intro: subtree.intros)
    qed (rule subtree.base)
  qed
qed

lemma target_levels_ok:
  assumes ac: "acyclic_by rank rows" and N: "\<forall>f \<in> set rows. rank (f_id f) < N"
  shows "\<forall>i \<in> set fr. k \<le> rank i \<and> i \<in> f_id ` set rows \<Longrightarrow>
     \<exists>ts. target_levels rows fr acc = Some ts \<and> set ts = set acc \<union> subtree rows (set fr)"
proof (induction "N - k" arbitrary: k fr acc rule: less_induct)
  case less
  show ?case
  proof (cases "fr = []")
    case True
    moreover have "subtree rows {} = {}" by (auto elim: subtree.induct)
    ultimately show ?thesis by (subst target_levels.simps) simp
  next
    case False
    then obtain i where "i \<in> set fr" by (cases fr) auto
    then have "k < N" using less.prems N by force
    then have d: "N - Suc k < N - k" by simp
    have c: "\<forall>i \<in> set (children_ids rows fr). Suc k \<le> rank i \<and> i \<in> f_id ` set rows"
      using less.prems ac unfolding acyclic_by_def set_children_ids by fastforce
    from less.hyps [OF d c, of "acc @ fr"] obtain ts where
      "target_levels rows (children_ids rows fr) (acc @ fr) = Some ts"
      "set ts = set (acc @ fr) \<union> subtree rows (set (children_ids rows fr))" by blast
    with False subtree_children [of rows fr] show ?thesis by (subst target_levels.simps) auto
  qed
qed

definition owned_ids :: "FileRow list \<Rightarrow> string list \<Rightarrow> int \<Rightarrow> string set" where
  "owned_ids rows ids uid = {f_id f | f. f \<in> set rows \<and> f_id f \<in> set ids \<and> f_user f = uid}"

lemma target_folders_ok:
  assumes "acyclic_rows rows"
  shows "\<exists>ts. target_folders rows ids uid = Some ts \<and> set ts = subtree rows (owned_ids rows ids uid)"
proof -
  obtain rank where r: "acyclic_by rank rows" using assms by (auto simp: acyclic_rows_def)
  have N: "\<forall>f \<in> set rows. rank (f_id f) < Suc (Max (rank ` f_id ` set rows))"
    by (auto simp: less_Suc_eq_le intro!: Max_ge)
  let ?fr = "map f_id (filter (\<lambda>f. f_id f \<in> set ids \<and> f_user f = uid) rows)"
  have "set ?fr = owned_ids rows ids uid" by (auto simp: owned_ids_def)
  moreover have "owned_ids rows ids uid \<subseteq> f_id ` set rows" by (auto simp: owned_ids_def)
  ultimately show ?thesis
    using target_levels_ok [OF r N, of ?fr 0 "[]"] by (auto simp: target_folders_def)
qed

text \<open>
  C12. Deleting. On a tree without cycles \<open>deleteFilesBulk\<close> ends, and it deletes exactly the folders of
  the subtrees of the ids the user owns; it marks for deletion the files directly below these
  folders and, whoever owns them, the files among the given ids; every other row is as before.
\<close>

theorem deleteFilesBulk_subtree:
  assumes "acyclic_rows rows"
  shows "\<exists>rows'. deleteFilesBulk rows ids uid = Some rows'
    \<and> (let T = subtree rows (owned_ids rows ids uid) in
       set rows' =
         {f \<in> set rows. f_type f \<noteq> FILE \<and> \<not> (f_id f \<in> T \<and> f_type f = FOLDER)}
         \<union> {f \<in> set rows. f_type f = FILE \<and> f_id f \<notin> set ids \<and> (\<forall>p. f_parent f = Some p \<longrightarrow> p \<notin> T)}
         \<union> {f\<lparr> f_status := PENDING \<rparr> | f. f \<in> set rows \<and> f_type f = FILE
              \<and> (f_id f \<in> set ids \<or> (\<exists>p. f_parent f = Some p \<and> p \<in> T))})"
proof -
  obtain ts where ts: "target_folders rows ids uid = Some ts"
    "set ts = subtree rows (owned_ids rows ids uid)"
    using target_folders_ok [OF assms] by blast
  define hit :: "FileRow \<Rightarrow> bool" where "hit = (\<lambda>f. ((case f_parent f of None \<Rightarrow> False | Some p \<Rightarrow> p \<in> set ts)
      \<or> f_id f \<in> set ids) \<and> f_type f = FILE)"
  have hit: "hit f \<longleftrightarrow> f_type f = FILE \<and> (f_id f \<in> set ids \<or> (\<exists>p. f_parent f = Some p \<and> p \<in> set ts))" for f
    by (auto simp: hit_def split: option.splits)
  have "deleteFilesBulk rows ids uid = Some (filter (\<lambda>f. \<not> (f_id f \<in> set ts \<and> f_type f = FOLDER))
      (update_where hit (\<lambda>f. f\<lparr> f_status := PENDING \<rparr>) rows))"
    unfolding deleteFilesBulk_def hit_def ts(1) by simp
  moreover have "set (filter (\<lambda>f. \<not> (f_id f \<in> set ts \<and> f_type f = FOLDER))
      (update_where hit (\<lambda>f. f\<lparr> f_status := PENDING \<rparr>) rows)) =
         {f \<in> set rows. f_type f \<noteq> FILE \<and> \<not> (f_id f \<in> set ts \<and> f_type f = FOLDER)}
         \<union> {f \<in> set rows. f_type f = FILE \<and> f_id f \<notin> set ids \<and> (\<forall>p. f_parent f = Some p \<longrightarrow> p \<notin> set ts)}
         \<union> {f\<lparr> f_status := PENDING \<rparr> | f. f \<in> set rows \<and> f_type f = FILE
              \<and> (f_id f \<in> set ids \<or> (\<exists>p. f_parent f = Some p \<and> p \<in> set ts))}"
    by (auto simp: update_where_def hit image_iff split: if_splits)
  ultimately show ?thesis by (simp add: ts(2) Let_def)
qed

section \<open>Witnesses\<close>

definition mk_row :: "string \<Rightarrow> string \<Rightarrow> string \<Rightarrow> int \<Rightarrow> string option \<Rightarrow> FileRow" where
  "mk_row i name ty uid parent = \<lparr> f_id = i, f_name = name, f_type = ty, f_mime = '''',
     f_size = Some 1, f_category = None, f_encrypted = Some False, f_starred = Some False,
     f_user = uid, f_status = ACTIVE, f_parent = parent, f_parts = None, f_channel = None,
     f_hash = None, f_ref = None, f_created = 0, f_updated = 0 \<rparr>"

lemmas mk_row_simps = mk_row_def FileRow.select_convs

text \<open>A root with a folder and a file of user 1, and a file of user 2.\<close>

definition demo_rows :: "FileRow list" where
  "demo_rows = [mk_row ''r'' ''root'' FOLDER 1 None, mk_row ''d'' ''docs'' FOLDER 1 (Some ''r''),
     mk_row ''f'' ''a.txt'' FILE 1 (Some ''d''), mk_row ''x'' ''b.txt'' FILE 2 None]"

lemma demo_rows_inv:
  "unique_ids demo_rows" "unique_active demo_rows" "same_user demo_rows" "acyclic_rows demo_rows"
proof -
  show "unique_ids demo_rows" by (simp add: unique_ids_def demo_rows_def mk_row_def)
  show "unique_active demo_rows" by (simp add: unique_active_def demo_rows_def mk_row_def)
  show "same_user demo_rows" by (simp add: same_user_def demo_rows_def mk_row_def)
  have "acyclic_by (\<lambda>i. if i = ''d'' then 1 else if i = ''f'' then 2 else 0) demo_rows"
    by (simp add: acyclic_by_def demo_rows_def mk_row_def)
  then show "acyclic_rows demo_rows" by (auto simp: acyclic_rows_def)
qed

lemma demo_path: "active_path demo_rows 1 ''f'' [''root'', ''docs'', ''a.txt'']"
proof -
  have "active_path demo_rows 1 ''r'' [''root'']"
    using active_path.root [of "mk_row ''r'' ''root'' FOLDER 1 None" demo_rows 1]
    by (simp add: demo_rows_def mk_row_def)
  then have "active_path demo_rows 1 ''d'' [''root'', ''docs'']"
    using active_path.child [of demo_rows 1 "''r''" "[''root'']" "mk_row ''d'' ''docs'' FOLDER 1 (Some ''r'')"]
    by (simp add: demo_rows_def mk_row_def)
  then show ?thesis
    using active_path.child [of demo_rows 1 "''d''" "[''root'', ''docs'']" "mk_row ''f'' ''a.txt'' FILE 1 (Some ''d'')"]
    by (simp add: demo_rows_def mk_row_def)
qed


lemma deleteFilesBulk_subtree_witness:
  "\<exists>rows'. deleteFilesBulk demo_rows [''d'', ''x''] 1 = Some rows'
     \<and> (mk_row ''x'' ''b.txt'' FILE 2 None)\<lparr> f_status := PENDING \<rparr> \<in> set rows'"
proof -
  let ?x = "mk_row ''x'' ''b.txt'' FILE 2 None"
  have "?x \<in> set demo_rows" "f_type ?x = FILE" "f_id ?x \<in> set [''d'', ''x'']"
    by (simp_all add: demo_rows_def mk_row_def)
  then have m: "\<exists>f. ?x\<lparr> f_status := PENDING \<rparr> = f\<lparr> f_status := PENDING \<rparr> \<and> f \<in> set demo_rows \<and> f_type f = FILE
      \<and> (f_id f \<in> set [''d'', ''x''] \<or> (\<exists>p. f_parent f = Some p
          \<and> p \<in> subtree demo_rows (owned_ids demo_rows [''d'', ''x''] 1)))"
    by blast
  from deleteFilesBulk_subtree [OF demo_rows_inv(4), of "[''d'', ''x'']" 1] obtain rows' where
    r: "deleteFilesBulk demo_rows [''d'', ''x''] 1 = Some rows'"
    and s: "{f\<lparr> f_status := PENDING \<rparr> | f. f \<in> set demo_rows \<and> f_type f = FILE
      \<and> (f_id f \<in> set [''d'', ''x''] \<or> (\<exists>p. f_parent f = Some p
          \<and> p \<in> subtree demo_rows (owned_ids demo_rows [''d'', ''x''] 1)))} \<subseteq> set rows'"
    unfolding Let_def by blast
  from m s have "?x\<lparr> f_status := PENDING \<rparr> \<in> set rows'" by blast
  with r show ?thesis by blast
qed

end
