(* ===== verification/FilesWrite.thy ===== *)
theory FilesWrite
  imports Service FileTree
begin

text \<open>
  Creating and updating files (pkg/services/file.go): \<open>FilesCreate\<close> with its deduplication and upsert,
  \<open>FilesUpdate\<close> with its copy on write, and the lookups of deduplicated files. Parameters are the
  hash BLAKE3, the current time, the id the database generates, the channel of the user
  (\<open>CurrentChannel\<close>), the hash of content read back from Telegram, and the rows other transactions
  hold locked.
\<close>

section \<open>Inputs\<close>

text \<open>A time that is set may be Go's zero time.\<close>

datatype opt_time = Unset | ZeroTime | At int

definition time_or :: "opt_time \<Rightarrow> int \<Rightarrow> int" where
  "time_or t now = (case t of At x \<Rightarrow> x | _ \<Rightarrow> now)"

record FileIn =
  in_name :: string
  in_type :: string
  in_path :: string
  in_parent :: string
  in_channel :: int
  in_mime :: string
  in_uploadId :: string
  in_parts :: "api_Part list"
  in_size :: int
  in_encrypted :: bool
  in_updated :: opt_time

record FileUpdate =
  up_name :: "string option"
  up_parent :: "string option"
  up_channel :: "int option"
  up_size :: "int option"
  up_parts :: "api_Part list"
  up_encrypted :: "bool option"
  up_starred :: "bool option"
  up_updated :: opt_time
  up_uploadId :: "string option"

section \<open>Lookups\<close>

definition blockHashesCover :: "UploadRow list \<Rightarrow> api_Part list \<Rightarrow> bool" where
  "blockHashesCover uploads parts =
     (if length uploads = 0 \<or> length uploads \<noteq> length parts then False
      else list_all (\<lambda>u. u_blockHashes u \<noteq> []) uploads)"

definition uploads_of :: "svc \<Rightarrow> string \<Rightarrow> int \<Rightarrow> UploadRow list" where
  "uploads_of s uploadId userId =
     sort_key u_partNo (filter (\<lambda>u. u_uploadId u = uploadId \<and> u_user u = userId) (sv_uploads s))"

definition delete_uploads :: "string \<Rightarrow> int \<Rightarrow> svc \<Rightarrow> svc" where
  "delete_uploads uploadId userId s =
     s\<lparr> sv_uploads := filter (\<lambda>u. \<not> (u_uploadId u = uploadId \<and> u_user u = userId)) (sv_uploads s) \<rparr>"

text \<open>\<open>ORDER BY ... LIMIT 1\<close>; rows with equal keys come in storage order.\<close>

definition first_by :: "(FileRow \<Rightarrow> 'k::linorder) \<Rightarrow> FileRow list \<Rightarrow> FileRow option" where
  "first_by key rows = (case sort_key key rows of [] \<Rightarrow> None | f # _ \<Rightarrow> Some f)"

definition FindDeduplicateFile :: "svc \<Rightarrow> int \<Rightarrow> string \<Rightarrow> FileRow option" where
  "FindDeduplicateFile s userId fileHash =
     (if fileHash = '''' then None
      else first_by (\<lambda>f. (f_ref f \<noteq> None, f_created f))
        (filter (\<lambda>f. f_user f = userId \<and> f_hash f = Some fileHash \<and> f_encrypted f = Some False
           \<and> f_status f = ACTIVE \<and> f_type f = FILE) (sv_files s)))"

definition same_hash :: "FileRow \<Rightarrow> FileRow \<Rightarrow> bool" where
  "same_hash src f \<longleftrightarrow> f_user f = f_user src \<and> f_hash f = f_hash src \<and> f_id f \<noteq> f_id src
     \<and> f_encrypted f = Some False \<and> f_status f = ACTIVE"

definition GetDeduplicationReferences :: "svc \<Rightarrow> string \<Rightarrow> FileRow list" where
  "GetDeduplicationReferences s fileId =
     (case row_by_id (sv_files s) fileId of
        None \<Rightarrow> []
      | Some src \<Rightarrow> if opt_str (f_hash src) = '''' then [] else filter (same_hash src) (sv_files s))"

definition CountDedupReferences :: "svc \<Rightarrow> string \<Rightarrow> nat" where
  "CountDedupReferences s fileId =
     (case row_by_id (sv_files s) fileId of
        None \<Rightarrow> 0
      | Some src \<Rightarrow> if opt_str (f_hash src) = '''' then 0 else length (filter (same_hash src) (sv_files s)))"

section \<open>FilesCreate\<close>

text \<open>\<open>strings.ReplaceAll(s, "//", "/")\<close>.\<close>

fun replace_slashes :: "string \<Rightarrow> string" where
  "replace_slashes (a # b # s) =
     (if a = CHR ''/'' \<and> b = CHR ''/'' then CHR ''/'' # replace_slashes s else a # replace_slashes (b # s))"
| "replace_slashes s = s"

text \<open>Where the file goes: the given parent, or the folder the path resolves to.\<close>

definition create_parent :: "FileRow list \<Rightarrow> int \<Rightarrow> FileIn \<Rightarrow> svc_err + string" where
  "create_parent rows userId fi =
     (if in_path fi = '''' \<and> in_parent fi = '''' then Inl (ApiErr (EMsg ''parent id or path is required'') 409)
      else let path = (if in_path fi \<noteq> '''' then replace_slashes (in_path fi) else '''')
      in if path \<noteq> '''' \<and> in_parent fi = ''''
         then (case resolvePathID rows path userId of None \<Rightarrow> Inl (ApiErr ERecordNotFound 404) | Some p \<Rightarrow> Inr p)
         else Inr (in_parent fi))"

definition upload_parts :: "UploadRow list \<Rightarrow> api_Part list" where
  "upload_parts uploads = map (\<lambda>u. \<lparr> part_ID = u_partId u, part_Salt = u_salt u \<rparr>) uploads"

definition tree_hash :: "hash_fun \<Rightarrow> bytes \<Rightarrow> string" where
  "tree_hash blake bs = SumToHex (ComputeTreeHash blake bs)"

text \<open>The hash of the new file: from the uploads, of no data, read back, or none.\<close>

definition create_hash ::
    "hash_fun \<Rightarrow> (FileRow \<Rightarrow> string option) \<Rightarrow> FileIn \<Rightarrow> UploadRow list \<Rightarrow> api_Part list \<Rightarrow> FileRow \<Rightarrow> string option" where
  "create_hash blake content_hash fi uploads parts row =
     (if blockHashesCover uploads parts then Some (tree_hash blake (concat (map u_blockHashes uploads)))
      else if in_size fi = 0 then Some (tree_hash blake [])
      else if in_uploadId fi = '''' \<and> parts \<noteq> [] \<and> \<not> in_encrypted fi then content_hash row
      else None)"

text \<open>The row before the transaction.\<close>

definition create_row ::
    "hash_fun \<Rightarrow> (FileRow \<Rightarrow> string option) \<Rightarrow> (int \<Rightarrow> svc_err + int) \<Rightarrow> int \<Rightarrow> string \<Rightarrow> int \<Rightarrow> FileIn \<Rightarrow> string
     \<Rightarrow> svc \<Rightarrow> svc_err + FileRow" where
  "create_row blake content_hash currentChannel now new_id userId fi parent s =
     (let row = \<lparr> f_id = new_id, f_name = in_name fi, f_type = in_type fi, f_mime = '''', f_size = None,
            f_category = None, f_encrypted = Some (in_encrypted fi), f_starred = Some False,
            f_user = userId, f_status = ACTIVE, f_parent = Some parent, f_parts = None,
            f_channel = None, f_hash = None, f_ref = None, f_created = now,
            f_updated = time_or (in_updated fi) now \<rparr>
      in if in_type fi = FOLDER then Inr (row\<lparr> f_mime := ''drive/folder'' \<rparr>)
      else if in_type fi = FILE then
        (case (if in_channel fi = 0 then currentChannel userId else Inr (in_channel fi)) of
           Inl e \<Rightarrow> Inl (ApiErr e 0)
         | Inr channelId \<Rightarrow>
             let uploads = (if in_uploadId fi \<noteq> '''' then uploads_of s (in_uploadId fi) userId else [])
             in if list_ex (\<lambda>u. u_partId u = 0) uploads
                then Inl (ApiErr (EMsg ''invalid part: part_id cannot be zero'') 400)
                else
                  let parts = (if in_parts fi \<noteq> [] then in_parts fi else upload_parts uploads);
                      row = row\<lparr> f_channel := Some channelId, f_mime := in_mime fi,
                        f_category := Some (category_string (GetCategory (in_name fi))),
                        f_parts := (if parts \<noteq> [] then Some (mapParts parts) else None),
                        f_size := Some (in_size fi) \<rparr>
                  in Inr (row\<lparr> f_hash := create_hash blake content_hash fi uploads parts row \<rparr>))
      else Inr row)"

text \<open>The row the deduplication query selects: oldest first, skipping locked rows.\<close>

definition dedup_candidate :: "string list \<Rightarrow> FileRow list \<Rightarrow> FileRow \<Rightarrow> FileRow option" where
  "dedup_candidate locked rows row =
     (if \<not> IsEncrypted row \<and> opt_str (f_hash row) \<noteq> '''' \<and> f_type row = FILE
      then first_by f_created (filter (\<lambda>f. f_user f = f_user row \<and> f_hash f = f_hash row
             \<and> f_status f = ACTIVE \<and> f_encrypted f = Some False \<and> f_id f \<notin> set locked) rows)
      else None)"

definition dedup_row :: "FileRow option \<Rightarrow> FileRow \<Rightarrow> FileRow" where
  "dedup_row candidate row =
     (case candidate of None \<Rightarrow> row
      | Some e \<Rightarrow> row\<lparr> f_ref := Some (f_id e), f_parts := f_parts e, f_channel := f_channel e \<rparr>)"

text \<open>\<open>INSERT ... ON CONFLICT ... DO UPDATE\<close> on the partial unique index; returns the stored row.\<close>

definition excluded :: "FileRow \<Rightarrow> FileRow \<Rightarrow> FileRow" where
  "excluded row f = f\<lparr> f_mime := f_mime row, f_category := f_category row, f_parts := f_parts row,
     f_size := f_size row, f_type := f_type row, f_encrypted := f_encrypted row,
     f_updated := f_updated row, f_channel := f_channel row, f_status := f_status row,
     f_hash := f_hash row, f_ref := f_ref row \<rparr>"

definition upsert :: "FileRow \<Rightarrow> FileRow list \<Rightarrow> FileRow \<times> FileRow list" where
  "upsert row rows =
     (case first_where (\<lambda>f. is_active f \<and> index_key f = index_key row) rows of
        None \<Rightarrow> (row, rows @ [row])
      | Some f \<Rightarrow> (excluded row f, update_where (\<lambda>g. f_id g = f_id f) (excluded row) rows))"

definition FilesCreate ::
    "hash_fun \<Rightarrow> (FileRow \<Rightarrow> string option) \<Rightarrow> (int \<Rightarrow> svc_err + int) \<Rightarrow> string list \<Rightarrow> int \<Rightarrow> string \<Rightarrow> int
     \<Rightarrow> FileIn \<Rightarrow> svc \<Rightarrow> ((svc_err + FileOut) \<times> svc) option" where
  "FilesCreate blake content_hash currentChannel locked now new_id userId fi s =
     (case create_parent (sv_files s) userId fi of
        Inl e \<Rightarrow> Some (Inl e, s)
      | Inr parent \<Rightarrow>
          (case create_row blake content_hash currentChannel now new_id userId fi parent s of
             Inl e \<Rightarrow> Some (Inl e, s)
           | Inr row \<Rightarrow>
               let row = dedup_row (dedup_candidate locked (sv_files s) row) row;
                   (row, rows) = upsert row (sv_files s);
                   s = s\<lparr> sv_files := rows \<rparr>;
                   s = (if in_type fi = FILE \<and> in_uploadId fi \<noteq> ''''
                        then delete_uploads (in_uploadId fi) userId s else s);
                   s = record_event OpCreate userId \<lparr> src_id = f_id row, src_type = f_type row,
                         src_name = f_name row, src_parent = opt_str (f_parent row), src_dest = '''' \<rparr> s
               in map_option (\<lambda>out. (Inr out, s)) (ToFileOut row)))"

section \<open>FilesUpdate\<close>

record FilePatch =
  pt_name :: string
  pt_parent :: "string option"
  pt_channel :: "int option"
  pt_parts :: "api_Part list option"
  pt_size :: "int option"
  pt_encrypted :: "bool option"
  pt_starred :: "bool option"
  pt_updated :: "int option"
  pt_hash :: "string option"
  pt_ref :: "string option"

text \<open>\<open>Updates(struct)\<close> writes the fields that are not zero values; with \<open>Select("updated_at")\<close> only that one.\<close>

definition set_opt :: "'a option \<Rightarrow> 'a option \<Rightarrow> 'a option" where
  "set_opt new old = (case new of None \<Rightarrow> old | Some v \<Rightarrow> Some v)"

definition apply_patch :: "bool \<Rightarrow> FilePatch \<Rightarrow> FileRow \<Rightarrow> FileRow" where
  "apply_patch only_updated p f =
     (if only_updated then f\<lparr> f_updated := (case pt_updated p of None \<Rightarrow> f_updated f | Some t \<Rightarrow> t) \<rparr>
      else f\<lparr> f_name := (if pt_name p = '''' then f_name f else pt_name p),
              f_parent := set_opt (pt_parent p) (f_parent f),
              f_channel := set_opt (pt_channel p) (f_channel f),
              f_parts := set_opt (pt_parts p) (f_parts f),
              f_size := set_opt (pt_size p) (f_size f),
              f_encrypted := set_opt (pt_encrypted p) (f_encrypted f),
              f_starred := set_opt (pt_starred p) (f_starred f),
              f_updated := (case pt_updated p of None \<Rightarrow> f_updated f | Some t \<Rightarrow> t),
              f_hash := set_opt (pt_hash p) (f_hash f),
              f_ref := set_opt (pt_ref p) (f_ref f) \<rparr>)"

text \<open>The request after the lookup of the uploads: more parts, and the total size if none is given.\<close>

definition update_uploads :: "svc \<Rightarrow> int \<Rightarrow> FileUpdate \<Rightarrow> UploadRow list \<times> FileUpdate" where
  "update_uploads s userId r =
     (if opt_str (up_uploadId r) \<noteq> '''' then
        let uploads = uploads_of s (opt_str (up_uploadId r)) userId;
            r = r\<lparr> up_parts := up_parts r @ upload_parts uploads \<rparr>;
            total = sum_list (map u_size uploads)
        in (uploads, if up_size r = None \<or> up_size r = Some 0 then r\<lparr> up_size := Some total \<rparr> else r)
      else ([], r))"

definition nonzero_opt :: "int option \<Rightarrow> int option" where
  "nonzero_opt v = (case v of Some x \<Rightarrow> if x \<noteq> 0 then Some x else None | None \<Rightarrow> None)"

definition nonempty_opt :: "string option \<Rightarrow> string option" where
  "nonempty_opt v = (case v of Some x \<Rightarrow> if x \<noteq> '''' then Some x else None | None \<Rightarrow> None)"

definition update_parts :: "FileUpdate \<Rightarrow> bool" where
  "update_parts r \<longleftrightarrow> nonzero_opt (up_size r) \<noteq> None \<and> up_parts r \<noteq> []"

definition is_content_update :: "FileUpdate \<Rightarrow> bool" where
  "is_content_update r \<longleftrightarrow> update_parts r \<or> up_size r = Some 0 \<or> up_encrypted r \<noteq> None"

definition update_patch :: "int \<Rightarrow> FileUpdate \<Rightarrow> FilePatch" where
  "update_patch now r = \<lparr> pt_name = opt_str (up_name r), pt_parent = nonempty_opt (up_parent r),
     pt_channel = nonzero_opt (up_channel r),
     pt_parts = (if update_parts r then Some (mapParts (up_parts r)) else None),
     pt_size = (if update_parts r \<or> up_size r = Some 0 then up_size r else None),
     pt_encrypted = up_encrypted r, pt_starred = up_starred r,
     pt_updated = (if is_content_update r \<or> up_updated r \<noteq> Unset then Some (time_or (up_updated r) now) else None),
     pt_hash = None, pt_ref = None \<rparr>"

text \<open>
  The new hash and reference, and whether the old reference is to be cleared.
\<close>

definition update_dedup ::
    "hash_fun \<Rightarrow> svc \<Rightarrow> UploadRow list \<Rightarrow> FileUpdate \<Rightarrow> FileRow \<Rightarrow> FilePatch \<Rightarrow> FilePatch \<times> bool" where
  "update_dedup blake s uploads r cur p =
     (let clearReference = is_content_update r \<and> opt_str (f_ref cur) \<noteq> ''''
      in if blockHashesCover uploads (up_parts r) then
           let treeHash = tree_hash blake (concat (map u_blockHashes uploads));
               p = p\<lparr> pt_hash := Some treeHash \<rparr>
           in (case FindDeduplicateFile s (f_user cur) treeHash of
                 Some e \<Rightarrow> if f_id e \<noteq> f_id cur then (p\<lparr> pt_ref := Some (f_id e) \<rparr>, False)
                           else (p, clearReference)
               | None \<Rightarrow> (p, clearReference))
         else (p, clearReference))"

text \<open>The statements of the transaction on the table of files.\<close>

definition update_rows :: "FileUpdate \<Rightarrow> FilePatch \<Rightarrow> bool \<Rightarrow> string \<Rightarrow> FileRow list \<Rightarrow> FileRow list" where
  "update_rows r p clearReference fileId rows =
     (let only_updated = (up_updated r \<noteq> Unset \<and> \<not> is_content_update r);
          rows = update_where (\<lambda>f. f_id f = fileId) (apply_patch only_updated p) rows
      in if clearReference then update_where (\<lambda>f. f_id f = fileId) (\<lambda>f. f\<lparr> f_ref := None \<rparr>) rows
         else rows)"

definition FilesUpdate ::
    "hash_fun \<Rightarrow> int \<Rightarrow> int \<Rightarrow> FileUpdate \<Rightarrow> string \<Rightarrow> svc \<Rightarrow> ((svc_err + FileOut) \<times> svc) option" where
  "FilesUpdate blake now userId r fileId s =
     (case update_uploads s userId r of (uploads, r) \<Rightarrow>
        (case row_by_id (sv_files s) fileId of
           None \<Rightarrow> Some (Inl (ApiErr ERecordNotFound 0), s)
         | Some cur \<Rightarrow>
             (case update_dedup blake s uploads r cur (update_patch now r) of (p, clearReference) \<Rightarrow>
                let rows = update_rows r p clearReference fileId (sv_files s)
                in if \<not> index_ok rows then Some (Inl (ApiErr EKeyConflict 0), s)
                   else
                     let s' = s\<lparr> sv_files := rows \<rparr>;
                         s' = (if opt_str (up_uploadId r) \<noteq> '''' then delete_uploads (opt_str (up_uploadId r)) userId s'
                               else s');
                         keys = (if up_parts r \<noteq> [] then [KeyFile fileId, KeyFileMessages fileId] else [KeyFile fileId]);
                         s' = (if up_parts r \<noteq> [] then cache_DeletePattern (KeyFileLocationPattern fileId) s' else s');
                         s' = cache_Delete keys s'
                     in (case row_by_id rows fileId of
                           None \<Rightarrow> None
                         | Some f \<Rightarrow>
                             map_option (\<lambda>out. (Inr out, record_event OpUpdate userId
                                 \<lparr> src_id = f_id f, src_type = f_type f, src_name = f_name f,
                                   src_parent = opt_str (f_parent f), src_dest = '''' \<rparr> s'))
                               (ToFileOut f)))))"

section \<open>The upsert\<close>

lemma excluded_simps [simp]:
  "f_id (excluded row f) = f_id f" "f_name (excluded row f) = f_name f" "f_parent (excluded row f) = f_parent f"
  "f_user (excluded row f) = f_user f" "f_status (excluded row f) = f_status row"
  "f_parts (excluded row f) = f_parts row" "f_ref (excluded row f) = f_ref row"
  "f_hash (excluded row f) = f_hash row" "f_type (excluded row f) = f_type row"
  "f_channel (excluded row f) = f_channel row" "f_encrypted (excluded row f) = f_encrypted row"
  "f_size (excluded row f) = f_size row"
  by (simp_all add: excluded_def)

lemma index_key_excluded [simp]: "index_key (excluded row f) = index_key f"
  by (simp add: index_key_def)

definition same_content :: "FileRow \<Rightarrow> FileRow \<Rightarrow> bool" where
  "same_content r f \<longleftrightarrow> f_type r = f_type f \<and> f_parts r = f_parts f \<and> f_channel r = f_channel f
     \<and> f_hash r = f_hash f \<and> f_ref r = f_ref f \<and> f_encrypted r = f_encrypted f \<and> f_size r = f_size f"

lemma upsert_ok:
  assumes ok: "files_ok rows" and new: "f_id row \<notin> f_id ` set rows" and act: "is_active row"
    and up: "upsert row rows = (r, rows')"
  shows "files_ok rows'" "r \<in> set rows'" "is_active r" "index_key r = index_key row" "same_content r row"
    "\<And>g. f_id g \<noteq> f_id r \<Longrightarrow> g \<in> set rows' \<longleftrightarrow> g \<in> set rows"
    "f_id r = f_id row \<or> (\<exists>f \<in> set rows. is_active f \<and> index_key f = index_key row \<and> f_id r = f_id f)"
proof -
  let ?P = "\<lambda>f. is_active f \<and> index_key f = index_key row"
  have "files_ok rows' \<and> r \<in> set rows' \<and> is_active r \<and> index_key r = index_key row \<and> same_content r row
    \<and> (\<forall>g. f_id g \<noteq> f_id r \<longrightarrow> g \<in> set rows' \<longleftrightarrow> g \<in> set rows)
    \<and> (f_id r = f_id row \<or> (\<exists>f \<in> set rows. ?P f \<and> f_id r = f_id f))"
  proof (cases "first_where ?P rows")
    case None
    then have none: "\<forall>f \<in> set rows. \<not> ?P f" by (simp add: first_where_None)
    from None up have r: "r = row" "rows' = rows @ [row]" by (auto simp: upsert_def)
    have "index_ok rows'" using ok none act unfolding r files_ok_def index_ok_def by auto
    with ok new r have "files_ok rows'" by (auto simp: files_ok_def)
    with r act show ?thesis by (auto simp: same_content_def)
  next
    case (Some f)
    from row_eqI_where [OF Some] have f: "f \<in> set rows" "is_active f" "index_key f = index_key row" by auto
    from Some up have r: "r = excluded row f" "rows' = update_where (\<lambda>g. f_id g = f_id f) (excluded row) rows"
      by (auto simp: upsert_def)
    have keys: "map index_key (filter is_active rows') = map index_key (filter is_active rows)"
      unfolding r
    proof (rule update_where_key)
      fix g assume g: "g \<in> set rows" "f_id g = f_id f"
      then have "g = f" using ids_unique [OF ok] f by blast
      with f act show "is_active (excluded row g) = is_active g \<and> index_key (excluded row g) = index_key g"
        by (simp add: is_active_def)
    qed
    have ids: "map f_id rows' = map f_id rows" unfolding r by (rule update_where_ids) simp
    have "files_ok rows'" using ok by (simp add: files_ok_def index_ok_def keys ids)
    moreover have "r \<in> set rows'" using f unfolding r set_update_where by auto
    moreover have "is_active r" using act by (simp add: r is_active_def)
    moreover have "g \<in> set rows' \<longleftrightarrow> g \<in> set rows" if "f_id g \<noteq> f_id r" for g
      using that unfolding r set_update_where by auto
    ultimately show ?thesis using f r by (auto simp: same_content_def)
  qed
  then show "files_ok rows'" "r \<in> set rows'" "is_active r" "index_key r = index_key row" "same_content r row"
    "\<And>g. f_id g \<noteq> f_id r \<Longrightarrow> g \<in> set rows' \<longleftrightarrow> g \<in> set rows"
    "f_id r = f_id row \<or> (\<exists>f \<in> set rows. is_active f \<and> index_key f = index_key row \<and> f_id r = f_id f)"
    by blast+
qed

section \<open>What FilesCreate stores\<close>

lemma create_row_fields:
  assumes "create_row blake ch cc now i uid fi p s = Inr row"
  shows "f_id row = i" "f_name row = in_name fi" "f_user row = uid" "is_active row" "f_parent row = Some p"
    "f_type row = in_type fi" "f_encrypted row = Some (in_encrypted fi)" "f_ref row = None"
  using assms unfolding create_row_def
  by (auto simp: Let_def is_active_def split: if_splits sum.splits)

lemma dedup_row_simps [simp]:
  "f_id (dedup_row c row) = f_id row" "f_name (dedup_row c row) = f_name row"
  "f_user (dedup_row c row) = f_user row" "f_parent (dedup_row c row) = f_parent row"
  "f_type (dedup_row c row) = f_type row" "f_encrypted (dedup_row c row) = f_encrypted row"
  "is_active (dedup_row c row) = is_active row" "f_hash (dedup_row c row) = f_hash row"
  "f_size (dedup_row c row) = f_size row"
  by (simp_all add: dedup_row_def is_active_def split: option.split)

lemma FilesCreate_cases:
  assumes "FilesCreate blake ch cc locked now i uid fi s = Some (Inr out, s')"
  obtains p row r where
    "create_parent (sv_files s) uid fi = Inr p" "create_row blake ch cc now i uid fi p s = Inr row"
    "upsert (dedup_row (dedup_candidate locked (sv_files s) row) row) (sv_files s) = (r, sv_files s')"
    "ToFileOut r = Some out"
    "sv_uploads s' = (if in_type fi = FILE \<and> in_uploadId fi \<noteq> ''''
       then filter (\<lambda>u. \<not> (u_uploadId u = in_uploadId fi \<and> u_user u = uid)) (sv_uploads s) else sv_uploads s)"
    "sv_shares s' = sv_shares s" "sv_cache s' = sv_cache s"
    "map ev_type (sv_events s') = map ev_type (sv_events s) @ [OpCreate]"
proof -
  from assms obtain p where p: "create_parent (sv_files s) uid fi = Inr p"
    by (auto simp: FilesCreate_def split: sum.splits)
  with assms obtain row where row: "create_row blake ch cc now i uid fi p s = Inr row"
    by (auto simp: FilesCreate_def split: sum.splits)
  obtain r rows where up: "upsert (dedup_row (dedup_candidate locked (sv_files s) row) row) (sv_files s) = (r, rows)"
    by (cases "upsert (dedup_row (dedup_candidate locked (sv_files s) row) row) (sv_files s)")
  from assms p row up have "ToFileOut r = Some out" "sv_files s' = rows"
    "sv_uploads s' = (if in_type fi = FILE \<and> in_uploadId fi \<noteq> ''''
       then filter (\<lambda>u. \<not> (u_uploadId u = in_uploadId fi \<and> u_user u = uid)) (sv_uploads s) else sv_uploads s)"
    "sv_shares s' = sv_shares s" "sv_cache s' = sv_cache s"
    "map ev_type (sv_events s') = map ev_type (sv_events s) @ [OpCreate]"
    by (auto simp: FilesCreate_def Let_def delete_uploads_def)
  with p row up that show thesis by blast
qed

text \<open>
  C5. Creating a file. \<open>FilesCreate\<close> never panics, and when it succeeds the table keeps its primary key and
  its unique index; the answer names an active row of the user with the given name, type and parent,
  which is the only active one under that name and parent; every other row is untouched; the uploads of the
  session are consumed; and exactly one event is recorded. A new entry and an overwritten one are
  both covered.
\<close>

theorem FilesCreate_ok:
  assumes "files_ok (sv_files s)" "new_id \<notin> f_id ` set (sv_files s)"
    and "FilesCreate blake content_hash currentChannel locked now new_id userId fi s = Some (Inr out, s')"
  shows "files_ok (sv_files s') \<and>
    (\<exists>r \<in> set (sv_files s'). o_id out = f_id r \<and> is_active r \<and> f_name r = in_name fi \<and> f_user r = userId
       \<and> f_type r = in_type fi \<and> (in_parent fi \<noteq> '''' \<longrightarrow> coalesce_parent (f_parent r) = in_parent fi)
       \<and> (\<forall>g \<in> set (sv_files s'). is_active g \<and> index_key g = index_key r \<longrightarrow> g = r)
       \<and> (\<forall>g. f_id g \<noteq> f_id r \<longrightarrow> (g \<in> set (sv_files s') \<longleftrightarrow> g \<in> set (sv_files s))))
    \<and> (in_type fi = FILE \<and> in_uploadId fi \<noteq> '''' \<longrightarrow> uploads_of s' (in_uploadId fi) userId = [])
    \<and> map ev_type (sv_events s') = map ev_type (sv_events s) @ [OpCreate]"
proof -
  from assms(3) obtain p row r where
    p: "create_parent (sv_files s) userId fi = Inr p"
    and row: "create_row blake content_hash currentChannel now new_id userId fi p s = Inr row"
    and up: "upsert (dedup_row (dedup_candidate locked (sv_files s) row) row) (sv_files s) = (r, sv_files s')"
    and out: "ToFileOut r = Some out"
    and ups: "sv_uploads s' = (if in_type fi = FILE \<and> in_uploadId fi \<noteq> ''''
       then filter (\<lambda>u. \<not> (u_uploadId u = in_uploadId fi \<and> u_user u = userId)) (sv_uploads s) else sv_uploads s)"
    and ev: "map ev_type (sv_events s') = map ev_type (sv_events s) @ [OpCreate]"
    by (rule FilesCreate_cases)
  note f = create_row_fields [OF row]
  have u: "files_ok (sv_files s')" "r \<in> set (sv_files s')" "is_active r"
      "index_key r = index_key (dedup_row (dedup_candidate locked (sv_files s) row) row)"
      "same_content r (dedup_row (dedup_candidate locked (sv_files s) row) row)"
    and o: "\<And>g. f_id g \<noteq> f_id r \<Longrightarrow> g \<in> set (sv_files s') \<longleftrightarrow> g \<in> set (sv_files s)"
    using upsert_ok [OF assms(1) _ _ up] assms(2) f by simp_all
  have key: "f_name r = in_name fi" "coalesce_parent (f_parent r) = p" "f_user r = userId"
    using u(4) f by (simp_all add: index_key_def coalesce_parent_def)
  have "in_parent fi \<noteq> '''' \<longrightarrow> p = in_parent fi"
    using p by (auto simp: create_parent_def Let_def split: if_splits)
  moreover have "f_type r = in_type fi" using u(5) f by (simp add: same_content_def)
  moreover have "o_id out = f_id r" using out by (auto simp: ToFileOut_def split: option.splits)
  moreover have "in_type fi = FILE \<and> in_uploadId fi \<noteq> '''' \<longrightarrow> uploads_of s' (in_uploadId fi) userId = []"
  proof
    assume "in_type fi = FILE \<and> in_uploadId fi \<noteq> ''''"
    then have "filter (\<lambda>u. u_uploadId u = in_uploadId fi \<and> u_user u = userId) (sv_uploads s') = []"
      by (simp add: ups filter_empty_conv)
    then show "uploads_of s' (in_uploadId fi) userId = []" by (simp only: uploads_of_def) simp
  qed
  moreover have "\<forall>g \<in> set (sv_files s'). is_active g \<and> index_key g = index_key r \<longrightarrow> g = r"
    using index_ok_unique [of "sv_files s'" _ r] u(1-3) unfolding files_ok_def by blast
  ultimately show ?thesis using u(1-3) o key ev by (intro conjI bexI [of _ r]) simp_all
qed

section \<open>Deduplication at creation\<close>

lemma first_by_Some:
  assumes "first_by key rows = Some f"
  shows "f \<in> set rows" "\<And>g. g \<in> set rows \<Longrightarrow> key f \<le> key g"
proof -
  obtain fs where s: "sort_key key rows = f # fs"
    using assms by (auto simp: first_by_def split: list.splits)
  have m: "set (f # fs) = set rows" by (metis s set_sort)
  then show "f \<in> set rows" by auto
  have "sorted (map key (f # fs))" by (metis s sorted_sort_key)
  then have "\<forall>g \<in> set (f # fs). key f \<le> key g" by auto
  with m show "\<And>g. g \<in> set rows \<Longrightarrow> key f \<le> key g" by blast
qed

lemma first_by_None: "first_by key rows = None \<longleftrightarrow> rows = []"
proof
  assume "first_by key rows = None"
  then have "sort_key key rows = []" by (simp add: first_by_def split: list.splits)
  then have "set rows = {}" by (metis empty_set set_sort)
  then show "rows = []" by simp
qed (simp add: first_by_def)

text \<open>\<open>holds_content\<close>: the rows the creation can refer to.\<close>

definition holds_content :: "string list \<Rightarrow> int \<Rightarrow> string \<Rightarrow> FileRow \<Rightarrow> bool" where
  "holds_content locked uid h f \<longleftrightarrow> f_user f = uid \<and> f_hash f = Some h \<and> f_status f = ACTIVE
     \<and> f_encrypted f = Some False \<and> f_id f \<notin> set locked"

text \<open>\<open>committed_uploads\<close>: the file comes from an upload session in which every part was hashed.\<close>

definition committed_uploads :: "svc \<Rightarrow> int \<Rightarrow> FileIn \<Rightarrow> UploadRow list \<Rightarrow> bool" where
  "committed_uploads s uid fi us \<longleftrightarrow> in_type fi = FILE \<and> \<not> in_encrypted fi \<and> in_parts fi = []
     \<and> in_uploadId fi \<noteq> '''' \<and> us = uploads_of s (in_uploadId fi) uid \<and> us \<noteq> []
     \<and> (\<forall>u \<in> set us. u_blockHashes u \<noteq> [])"

lemma committed_row:
  assumes "committed_uploads s uid fi us" "create_row blake ch cc now i uid fi p s = Inr row"
  shows "f_hash row = Some (tree_hash blake (concat (map u_blockHashes us)))"
    "f_parts row = Some (mapParts (upload_parts us))"
proof -
  have b: "blockHashesCover us (upload_parts us)" "upload_parts us \<noteq> []"
    using assms(1) by (auto simp: committed_uploads_def blockHashesCover_def upload_parts_def list_all_iff)
  show "f_hash row = Some (tree_hash blake (concat (map u_blockHashes us)))"
    "f_parts row = Some (mapParts (upload_parts us))"
    using assms b unfolding committed_uploads_def create_row_def
    by (auto simp: Let_def create_hash_def split: if_splits sum.splits)
qed

lemma committed_candidate:
  assumes "committed_uploads s uid fi us" "create_row blake ch cc now i uid fi p s = Inr row"
    and h: "h = tree_hash blake (concat (map u_blockHashes us))" and ne: "\<forall>bs. blake bs \<noteq> []"
  shows "dedup_candidate locked rows row = first_by f_created (filter (holds_content locked uid h) rows)"
proof -
  note f = create_row_fields [OF assms(2)]
  have "h \<noteq> ''''" using ne h by (simp add: tree_hash_def SumToHex_def ComputeTreeHash_def)
  then show ?thesis
    using committed_row(1) [OF assms(1,2)] f assms(1) h
    unfolding dedup_candidate_def holds_content_def
    by (simp add: opt_str_def IsEncrypted_def committed_uploads_def)
qed

text \<open>
  C4. Deduplication. When a file is committed from an upload session whose parts were all hashed, the
  stored row carries the tree hash of the session's block hashes. If the user has an active, unencrypted
  row with this hash that no other transaction holds locked, the new row refers to the oldest such row
  and shares its parts and channel instead of storing its own; otherwise it refers to nothing and owns
  the parts of the session. BLAKE3 is any function with non-empty results.
\<close>

theorem FilesCreate_dedup:
  assumes "files_ok (sv_files s)" "new_id \<notin> f_id ` set (sv_files s)"
    and "FilesCreate blake content_hash currentChannel locked now new_id userId fi s = Some (Inr out, s')"
    and "committed_uploads s userId fi us" "\<forall>bs. blake bs \<noteq> []"
    and "h = tree_hash blake (concat (map u_blockHashes us))"
  shows "\<exists>r \<in> set (sv_files s'). f_id r = o_id out \<and> f_hash r = Some h \<and>
    (if \<exists>f \<in> set (sv_files s). holds_content locked userId h f
     then \<exists>c \<in> set (sv_files s). holds_content locked userId h c
       \<and> (\<forall>f \<in> set (sv_files s). holds_content locked userId h f \<longrightarrow> f_created c \<le> f_created f)
       \<and> f_ref r = Some (f_id c) \<and> f_parts r = f_parts c \<and> f_channel r = f_channel c
     else f_ref r = None \<and> f_parts r = Some (mapParts (upload_parts us)))"
proof -
  from assms(3) obtain p row r where
    row: "create_row blake content_hash currentChannel now new_id userId fi p s = Inr row"
    and up: "upsert (dedup_row (dedup_candidate locked (sv_files s) row) row) (sv_files s) = (r, sv_files s')"
    and out: "ToFileOut r = Some out" by (rule FilesCreate_cases)
  note f = create_row_fields [OF row]
  have u: "r \<in> set (sv_files s')" "same_content r (dedup_row (dedup_candidate locked (sv_files s) row) row)"
    using upsert_ok [OF assms(1) _ _ up] assms(2) f by simp_all
  have o: "f_id r = o_id out" using out by (auto simp: ToFileOut_def split: option.splits)
  note cand = committed_candidate [OF assms(4) row assms(6,5)]
  note hp = committed_row [OF assms(4) row, folded assms(6)]
  have hash: "f_hash r = Some h" using u(2) hp(1) by (simp add: same_content_def)
  let ?c = "first_by f_created (filter (holds_content locked userId h) (sv_files s))"
  show ?thesis
  proof (cases ?c)
    case None
    then have "\<not> (\<exists>f \<in> set (sv_files s). holds_content locked userId h f)"
      by (auto simp: first_by_None filter_empty_conv)
    moreover have "f_ref r = None" "f_parts r = Some (mapParts (upload_parts us))"
      using u(2) None hp(2) f(8) by (simp_all add: cand dedup_row_def same_content_def)
    ultimately show ?thesis using u(1) o hash by (intro bexI [of _ r]) simp_all
  next
    case (Some c)
    note c = first_by_Some [OF Some]
    have r: "f_ref r = Some (f_id c)" "f_parts r = f_parts c" "f_channel r = f_channel c"
      using u(2) Some by (simp_all add: cand dedup_row_def same_content_def)
    have "\<exists>f \<in> set (sv_files s). holds_content locked userId h f" using c(1) by auto
    moreover have "\<forall>f \<in> set (sv_files s). holds_content locked userId h f \<longrightarrow> f_created c \<le> f_created f"
      using c(2) by simp
    ultimately show ?thesis using u(1) o hash r c(1) by (intro bexI [of _ r] conjI) auto
  qed
qed

text \<open>
  A file replaced by the same content refers to itself. When the user commits, under a name that already
  holds this content and is its oldest holder, the same content again, the deduplication query finds
  the very row that the upsert then overwrites: the row keeps its old parts and its reference is its
  own id, although it is the canonical copy; the new session is consumed.
\<close>

theorem FilesCreate_self_reference:
  assumes "files_ok (sv_files s)" "new_id \<notin> f_id ` set (sv_files s)"
    and "FilesCreate blake content_hash currentChannel locked now new_id userId fi s = Some (Inr out, s')"
    and "committed_uploads s userId fi us" "\<forall>bs. blake bs \<noteq> []"
    and "h = tree_hash blake (concat (map u_blockHashes us))"
    and "f \<in> set (sv_files s)" "holds_content locked userId h f" "f_name f = in_name fi"
    and "in_parent fi \<noteq> ''''" "f_parent f = Some (in_parent fi)"
    and "\<forall>g \<in> set (sv_files s). holds_content locked userId h g \<and> g \<noteq> f \<longrightarrow> f_created f < f_created g"
  shows "\<exists>r \<in> set (sv_files s'). f_id r = f_id f \<and> o_id out = f_id f \<and> f_ref r = Some (f_id f)
    \<and> f_parts r = f_parts f"
proof -
  from assms(3) obtain p row r where
    p: "create_parent (sv_files s) userId fi = Inr p"
    and row: "create_row blake content_hash currentChannel now new_id userId fi p s = Inr row"
    and up: "upsert (dedup_row (dedup_candidate locked (sv_files s) row) row) (sv_files s) = (r, sv_files s')"
    and out: "ToFileOut r = Some out" by (rule FilesCreate_cases)
  have pp: "p = in_parent fi" using p assms(10) by (auto simp: create_parent_def Let_def split: if_splits)
  note fl = create_row_fields [OF row]
  note cand = committed_candidate [OF assms(4) row assms(6,5)]
  let ?c = "first_by f_created (filter (holds_content locked userId h) (sv_files s))"
  obtain c where c: "?c = Some c"
    using assms(7,8) by (cases ?c) (auto simp: first_by_None filter_empty_conv)
  note cs = first_by_Some [OF c]
  have "f_created c \<le> f_created f" using cs(2) [of f] assms(7,8) by simp
  then have cf: "c = f" using cs(1) assms(12) by force
  have act: "is_active f" using assms(8) by (simp add: holds_content_def is_active_def)
  have key: "index_key f = index_key (dedup_row ?c row)"
    using assms(8,9,11) fl pp by (simp add: index_key_def holds_content_def)
  have u: "r \<in> set (sv_files s')" "is_active r" "index_key r = index_key (dedup_row ?c row)"
      "same_content r (dedup_row ?c row)"
    and id: "f_id r = f_id row \<or> (\<exists>g \<in> set (sv_files s). is_active g
      \<and> index_key g = index_key (dedup_row ?c row) \<and> f_id r = f_id g)"
    and ok': "files_ok (sv_files s')"
    and o: "\<And>g. f_id g \<noteq> f_id r \<Longrightarrow> g \<in> set (sv_files s') \<longleftrightarrow> g \<in> set (sv_files s)"
    using upsert_ok [OF assms(1) _ _ up [unfolded cand]] assms(2) fl by simp_all
  have "f_id r = f_id f"
  proof (rule ccontr)
    assume n: "f_id r \<noteq> f_id f"
    then have "f \<in> set (sv_files s')" using o [of f] assms(7) by auto
    then have "f = r" using index_ok_unique [of "sv_files s'" f r] ok' u act key by (simp add: files_ok_def)
    with n show False by simp
  qed
  moreover have "f_ref r = Some (f_id f)" "f_parts r = f_parts f"
    using u(4) cf c by (simp_all add: dedup_row_def same_content_def)
  moreover have "o_id out = f_id r" using out by (auto simp: ToFileOut_def split: option.splits)
  ultimately show ?thesis using u(1) by (intro bexI [of _ r]) simp_all
qed

section \<open>Witnesses for creation\<close>

text \<open>User 1 has a folder with one hashed file, and an upload session with the same content.\<close>

definition demo_blake :: hash_fun where
  "demo_blake bs = bs @ [0]"

definition demo_file :: FileRow where
  "demo_file = (mk_row ''f'' ''a.txt'' FILE 1 (Some ''d''))\<lparr> f_parts := Some [\<lparr> part_ID = 11, part_Salt = '''' \<rparr>],
     f_channel := Some 5, f_hash := Some (tree_hash demo_blake [1]) \<rparr>"

definition demo_upload :: UploadRow where
  "demo_upload = \<lparr> u_uploadId = ''u1'', u_user = 1, u_name = ''p'', u_partNo = 1, u_partId = 21,
     u_encrypted = False, u_salt = '''', u_blockHashes = [1], u_channel = 5, u_size = 1, u_created = 0 \<rparr>"

definition demo_svc :: svc where
  "demo_svc = \<lparr> sv_files = [mk_row ''r'' ''root'' FOLDER 1 None, mk_row ''d'' ''docs'' FOLDER 1 (Some ''r''), demo_file],
     sv_uploads = [demo_upload], sv_shares = [], sv_cache = (\<lambda>_. None), sv_events = [] \<rparr>"

definition demo_in :: "string \<Rightarrow> FileIn" where
  "demo_in name = \<lparr> in_name = name, in_type = FILE, in_path = '''', in_parent = ''d'', in_channel = 5,
     in_mime = ''text/plain'', in_uploadId = ''u1'', in_parts = [], in_size = 1, in_encrypted = False,
     in_updated = Unset \<rparr>"

lemma tree_hash_ne: "\<forall>bs. blake bs \<noteq> [] \<Longrightarrow> tree_hash blake bs \<noteq> ''''"
  by (simp add: tree_hash_def SumToHex_def ComputeTreeHash_def)

lemma demo_ok: "files_ok (sv_files demo_svc)" "''n'' \<notin> f_id ` set (sv_files demo_svc)"
  by (simp_all add: demo_svc_def demo_file_def mk_row_def files_ok_def index_ok_def is_active_def
      index_key_def coalesce_parent_def)

lemma demo_uploads: "uploads_of demo_svc ''u1'' 1 = [demo_upload]"
  by (simp add: uploads_of_def demo_svc_def demo_upload_def)

lemma demo_committed: "committed_uploads demo_svc 1 (demo_in name) [demo_upload]"
  by (simp add: committed_uploads_def demo_in_def demo_uploads) (simp add: demo_upload_def)

abbreviation "demo_create name \<equiv> FilesCreate demo_blake (\<lambda>_. None) (\<lambda>_. Inr 5) [] 9 ''n'' 1 (demo_in name) demo_svc"

lemma demo_create_ok: "\<exists>out s'. demo_create name = Some (Inr out, s')"
proof -
  obtain row where row: "create_row demo_blake (\<lambda>_. None) (\<lambda>_. Inr 5) 9 ''n'' 1 (demo_in name) ''d'' demo_svc = Inr row"
    by (simp add: create_row_def demo_in_def demo_uploads Let_def demo_upload_def)
  note f = create_row_fields [OF row]
  let ?row = "dedup_row (dedup_candidate [] (sv_files demo_svc) row) row"
  obtain r rows where up: "upsert ?row (sv_files demo_svc) = (r, rows)" by (cases "upsert ?row (sv_files demo_svc)")
  have "same_content r ?row" by (rule upsert_ok(5) [OF demo_ok(1) _ _ up]) (use demo_ok(2) f in simp_all)
  then have "f_encrypted r = Some False" using f by (simp add: same_content_def demo_in_def)
  then have "ToFileOut r \<noteq> None" by (simp add: ToFileOut_def)
  with row up show ?thesis
    by (auto simp: FilesCreate_def create_parent_def demo_in_def Let_def)
qed

theorem FilesCreate_ok_witness:
  "\<exists>out s'. demo_create ''b.txt'' = Some (Inr out, s') \<and> files_ok (sv_files s')
     \<and> (\<exists>r \<in> set (sv_files s'). o_id out = f_id r \<and> f_name r = ''b.txt'')"
proof -
  obtain out s' where c: "demo_create ''b.txt'' = Some (Inr out, s')" using demo_create_ok by blast
  from FilesCreate_ok [OF demo_ok c] c show ?thesis by (auto simp: demo_in_def)
qed

lemma demo_holds: "holds_content [] 1 (tree_hash demo_blake [1]) demo_file" "demo_file \<in> set (sv_files demo_svc)"
  "g \<in> set (sv_files demo_svc) \<Longrightarrow> holds_content [] 1 h g \<Longrightarrow> g = demo_file"
  by (auto simp: holds_content_def demo_file_def demo_svc_def mk_row_def)

theorem FilesCreate_dedup_witness:
  "\<exists>out s' r. demo_create ''b.txt'' = Some (Inr out, s') \<and> r \<in> set (sv_files s') \<and> f_id r = o_id out
     \<and> f_ref r = Some ''f'' \<and> f_parts r = Some [\<lparr> part_ID = 11, part_Salt = '''' \<rparr>]"
proof -
  obtain out s' where c: "demo_create ''b.txt'' = Some (Inr out, s')" using demo_create_ok by blast
  have ne: "\<forall>bs. demo_blake bs \<noteq> []" by (simp add: demo_blake_def)
  from FilesCreate_dedup [OF demo_ok c demo_committed ne refl] obtain r where
    r: "r \<in> set (sv_files s')" "f_id r = o_id out" and
    i: "if \<exists>f \<in> set (sv_files demo_svc). holds_content [] 1 (tree_hash demo_blake (concat (map u_blockHashes [demo_upload]))) f
     then \<exists>c \<in> set (sv_files demo_svc). holds_content [] 1 (tree_hash demo_blake (concat (map u_blockHashes [demo_upload]))) c
       \<and> (\<forall>f \<in> set (sv_files demo_svc). holds_content [] 1 (tree_hash demo_blake (concat (map u_blockHashes [demo_upload]))) f
            \<longrightarrow> f_created c \<le> f_created f)
       \<and> f_ref r = Some (f_id c) \<and> f_parts r = f_parts c \<and> f_channel r = f_channel c
     else f_ref r = None \<and> f_parts r = Some (mapParts (upload_parts [demo_upload]))" by auto
  have h: "concat (map u_blockHashes [demo_upload]) = [1]" by (simp add: demo_upload_def)
  from i demo_holds(1,2) demo_holds(3) have "f_ref r = Some (f_id demo_file)" "f_parts r = f_parts demo_file"
    unfolding h by (metis (full_types))+
  with c r show ?thesis by (auto simp: demo_file_def mk_row_def)
qed

theorem FilesCreate_self_reference_witness:
  "\<exists>out s' r. demo_create ''a.txt'' = Some (Inr out, s') \<and> r \<in> set (sv_files s') \<and> f_id r = ''f''
     \<and> f_ref r = Some ''f''"
proof -
  obtain out s' where c: "demo_create ''a.txt'' = Some (Inr out, s')" using demo_create_ok by blast
  have ne: "\<forall>bs. demo_blake bs \<noteq> []" by (simp add: demo_blake_def)
  have h: "tree_hash demo_blake [1] = tree_hash demo_blake (concat (map u_blockHashes [demo_upload]))"
    by (simp add: demo_upload_def)
  have "\<exists>r \<in> set (sv_files s'). f_id r = f_id demo_file \<and> o_id out = f_id demo_file
      \<and> f_ref r = Some (f_id demo_file) \<and> f_parts r = f_parts demo_file"
  proof (rule FilesCreate_self_reference [OF demo_ok c demo_committed ne h demo_holds(2,1)])
    show "f_name demo_file = in_name (demo_in ''a.txt'')" by (simp add: demo_file_def mk_row_def demo_in_def)
    show "f_parent demo_file = Some (in_parent (demo_in ''a.txt''))" "in_parent (demo_in ''a.txt'') \<noteq> ''''"
      by (simp_all add: demo_file_def mk_row_def demo_in_def)
    show "\<forall>g \<in> set (sv_files demo_svc). holds_content [] 1 (tree_hash demo_blake [1]) g \<and> g \<noteq> demo_file
        \<longrightarrow> f_created demo_file < f_created g" using demo_holds(3) by blast
  qed
  with c show ?thesis by (auto simp: demo_file_def mk_row_def)
qed

section \<open>Updates\<close>

lemma apply_patch_id [simp]: "f_id (apply_patch b p f) = f_id f"
  by (simp add: apply_patch_def)

lemma delete_uploads_files [simp]: "sv_files (delete_uploads u i s) = sv_files s"
  by (simp add: delete_uploads_def)

lemma FilesUpdate_cases:
  assumes "FilesUpdate blake now userId r fileId s = Some (Inr out, s')"
    and "update_uploads s userId r = (uploads, r')"
  obtains cur p clear f where
    "row_by_id (sv_files s) fileId = Some cur"
    "update_dedup blake s uploads r' cur (update_patch now r') = (p, clear)"
    "sv_files s' = update_rows r' p clear fileId (sv_files s)"
    "index_ok (sv_files s')"
    "row_by_id (sv_files s') fileId = Some f" "ToFileOut f = Some out"
proof -
  from assms obtain cur where cur: "row_by_id (sv_files s) fileId = Some cur"
    by (auto simp: FilesUpdate_def split: option.splits)
  obtain p clear where d: "update_dedup blake s uploads r' cur (update_patch now r') = (p, clear)"
    by (cases "update_dedup blake s uploads r' cur (update_patch now r')")
  let ?rows = "update_rows r' p clear fileId (sv_files s)"
  have ok: "index_ok ?rows"
    by (rule ccontr) (use assms cur d in \<open>simp add: FilesUpdate_def Let_def\<close>)
  with assms cur d obtain f where f: "row_by_id ?rows fileId = Some f" "ToFileOut f = Some out" "sv_files s' = ?rows"
    by (auto simp: FilesUpdate_def Let_def split: option.splits if_splits)
  from that [OF cur d f(3)] f ok show thesis by simp
qed

lemma row_by_id_mem': "files_ok rows \<Longrightarrow> f \<in> set rows \<Longrightarrow> row_by_id rows (f_id f) = Some f"
  by (rule row_by_id_mem) (simp_all add: files_ok_def unique_ids_def)

lemma update_where_id_mem:
  assumes "\<And>f. f_id (g f) = f_id f" "f_id x \<noteq> i"
  shows "x \<in> set (update_where (\<lambda>f. f_id f = i) g rows) \<longleftrightarrow> x \<in> set rows"
  using assms by (auto simp: set_update_where)

lemma row_update_where:
  assumes "\<And>f. f_id (g f) = f_id f"
  shows "row_by_id (update_where (\<lambda>f. f_id f = i) g rows) i = map_option g (row_by_id rows i)"
  using assms by (induction rows) (auto simp: update_where_def row_by_id_def first_where_def)

lemma FindDeduplicateFile_Some:
  assumes "FindDeduplicateFile s uid h = Some e"
  shows "e \<in> set (sv_files s)" "f_user e = uid" "f_hash e = Some h" "f_encrypted e = Some False"
    "is_active e" "f_type e = FILE"
    "\<And>g. g \<in> set (sv_files s) \<Longrightarrow> f_user g = uid \<Longrightarrow> f_hash g = Some h \<Longrightarrow> f_encrypted g = Some False
      \<Longrightarrow> is_active g \<Longrightarrow> f_type g = FILE \<Longrightarrow> f_ref g = None \<Longrightarrow> f_ref e = None \<and> f_created e \<le> f_created g"
proof -
  let ?P = "\<lambda>f. f_user f = uid \<and> f_hash f = Some h \<and> f_encrypted f = Some False \<and> f_status f = ACTIVE \<and> f_type f = FILE"
  have s: "first_by (\<lambda>f. (f_ref f \<noteq> None, f_created f)) (filter ?P (sv_files s)) = Some e"
    using assms by (simp add: FindDeduplicateFile_def split: if_splits)
  from first_by_Some(1) [OF s]
  show "e \<in> set (sv_files s)" "f_user e = uid" "f_hash e = Some h" "f_encrypted e = Some False"
    "is_active e" "f_type e = FILE" by (simp_all add: is_active_def)
  fix g assume "g \<in> set (sv_files s)" "f_user g = uid" "f_hash g = Some h" "f_encrypted g = Some False"
    "is_active g" "f_type g = FILE" "f_ref g = None"
  then have "(f_ref e \<noteq> None, f_created e) \<le> (f_ref g \<noteq> None, f_created g)"
    by (intro first_by_Some(2) [OF s]) (simp add: is_active_def)
  with \<open>f_ref g = None\<close> show "f_ref e = None \<and> f_created e \<le> f_created g"
    by (auto simp: less_eq_prod_def)
qed

lemma update_dedup_fields:
  assumes "update_dedup blake s uploads r cur (update_patch now r) = (p, clear)" "is_content_update r"
  shows "pt_ref p \<noteq> None \<Longrightarrow> \<not> clear \<and> (\<exists>h e. pt_hash p = Some h \<and> pt_ref p = Some (f_id e)
      \<and> FindDeduplicateFile s (f_user cur) h = Some e \<and> f_id e \<noteq> f_id cur)"
    and "pt_ref p = None \<Longrightarrow> clear \<longleftrightarrow> opt_str (f_ref cur) \<noteq> ''''"
  using assms unfolding update_dedup_def
  by (auto simp: Let_def update_patch_def split: if_splits option.splits)

text \<open>
  C6. Copy on write. An update of the content of a file that was a reference to another one makes it
  independent: afterwards it refers to no file, or, when the new content is already stored, to another active
  file of the same owner with that content. Every other row, the former canonical copy included, is
  unchanged, and the table keeps its keys.
\<close>

theorem FilesUpdate_copy_on_write:
  assumes "files_ok (sv_files s)" "FilesUpdate blake now userId r fileId s = Some (Inr out, s')"
    and "is_content_update (snd (update_uploads s userId r))"
  shows "files_ok (sv_files s') \<and> (\<forall>g. f_id g \<noteq> fileId \<longrightarrow> (g \<in> set (sv_files s') \<longleftrightarrow> g \<in> set (sv_files s)))
    \<and> (\<exists>f \<in> set (sv_files s'). f_id f = fileId \<and> o_id out = fileId \<and>
        (opt_str (f_ref f) = '''' \<or> (\<exists>e \<in> set (sv_files s). f_ref f = Some (f_id e) \<and> f_id e \<noteq> fileId
            \<and> is_active e \<and> f_type e = FILE \<and> f_user e = f_user f \<and> f_hash e = f_hash f)))"
proof -
  obtain uploads r' where ur: "update_uploads s userId r = (uploads, r')" by (cases "update_uploads s userId r")
  with assms(3) have content: "is_content_update r'" by simp
  obtain cur p clear f where
    cur: "row_by_id (sv_files s) fileId = Some cur"
    and d: "update_dedup blake s uploads r' cur (update_patch now r') = (p, clear)"
    and fs: "sv_files s' = update_rows r' p clear fileId (sv_files s)"
    and ok: "index_ok (sv_files s')" and f: "row_by_id (sv_files s') fileId = Some f" "ToFileOut f = Some out"
    by (rule FilesUpdate_cases [OF assms(2) ur])
  have ids: "map f_id (sv_files s') = map f_id (sv_files s)"
    unfolding fs by (simp add: update_rows_def Let_def update_where_ids)
  have oth: "\<forall>g. f_id g \<noteq> fileId \<longrightarrow> (g \<in> set (sv_files s') \<longleftrightarrow> g \<in> set (sv_files s))"
    unfolding fs by (simp add: update_rows_def Let_def update_where_id_mem)
  have fv: "f = (if clear then (apply_patch False p cur)\<lparr> f_ref := None \<rparr> else apply_patch False p cur)"
    using f(1) cur content unfolding fs by (simp add: update_rows_def Let_def row_update_where split: if_splits)
  have cid: "f_id cur = fileId" using row_by_id_Some [OF cur] by simp
  have ref: "opt_str (f_ref f) = '''' \<or> (\<exists>e \<in> set (sv_files s). f_ref f = Some (f_id e) \<and> f_id e \<noteq> fileId
            \<and> is_active e \<and> f_type e = FILE \<and> f_user e = f_user f \<and> f_hash e = f_hash f)"
  proof (cases "pt_ref p")
    case None
    with update_dedup_fields(2) [OF d content] fv show ?thesis
      by (auto simp: apply_patch_def set_opt_def opt_str_def)
  next
    case (Some i)
    with update_dedup_fields(1) [OF d content] obtain h e where
      e: "\<not> clear" "pt_hash p = Some h" "pt_ref p = Some (f_id e)"
      "FindDeduplicateFile s (f_user cur) h = Some e" "f_id e \<noteq> f_id cur" by blast
    note fe = FindDeduplicateFile_Some [OF e(4)]
    have "f_ref f = Some (f_id e)" "f_user f = f_user cur" "f_hash f = Some h"
      using fv e(1-3) by (simp_all add: apply_patch_def set_opt_def)
    with fe e(5) cid show ?thesis by metis
  qed
  have "o_id out = f_id f" using f(2) by (auto simp: ToFileOut_def split: option.splits)
  with row_by_id_Some [OF f(1)] ref ids oth ok assms(1) show ?thesis
    unfolding files_ok_def by (intro conjI bexI [of _ f]) simp_all
qed

text \<open>
  A new modification time swallows the rest of the request. An update that sets \<open>updatedAt\<close> and does not
  change the content writes that column only: a new name, parent, channel or star in the same request is
  silently dropped, and the answer still reports success.
\<close>

theorem FilesUpdate_time_only:
  assumes "files_ok (sv_files s)" "FilesUpdate blake now userId r fileId s = Some (Inr out, s')"
    and "up_updated r \<noteq> Unset" "up_size r = None" "up_encrypted r = None" "opt_str (up_uploadId r) = ''''"
  shows "\<exists>f \<in> set (sv_files s). f_id f = fileId \<and> o_name out = f_name f \<and> o_parent out = f_parent f
    \<and> o_starred out = f_starred f \<and> f\<lparr> f_updated := time_or (up_updated r) now \<rparr> \<in> set (sv_files s')"
proof -
  have ur: "update_uploads s userId r = ([], r)" using assms(6) by (simp add: update_uploads_def)
  have nc: "\<not> is_content_update r"
    using assms(4,5) by (simp add: is_content_update_def update_parts_def nonzero_opt_def)
  obtain cur p clear f where
    cur: "row_by_id (sv_files s) fileId = Some cur"
    and d: "update_dedup blake s [] r cur (update_patch now r) = (p, clear)"
    and fs: "sv_files s' = update_rows r p clear fileId (sv_files s)"
    and f: "row_by_id (sv_files s') fileId = Some f" "ToFileOut f = Some out"
    by (rule FilesUpdate_cases [OF assms(2) ur])
  have pc: "p = update_patch now r" "\<not> clear"
    using d nc by (auto simp: update_dedup_def blockHashesCover_def Let_def)
  have fv: "f = cur\<lparr> f_updated := time_or (up_updated r) now \<rparr>"
    using f(1) cur nc pc assms(3) unfolding fs
    by (simp add: update_rows_def Let_def row_update_where apply_patch_def update_patch_def)
  note c = row_by_id_Some [OF cur]
  have "f \<in> set (sv_files s')" using row_by_id_Some [OF f(1)] by simp
  with c fv f(2) show ?thesis by (intro bexI [of _ cur]) (auto simp: ToFileOut_def split: option.splits)
qed

text \<open>
  Nobody is asked who they are. The rows \<open>FilesUpdate\<close> writes do not depend on the calling user (unless
  an upload session is named): any user who knows the id of a file can rename, move, star or truncate
  it.
\<close>

theorem FilesUpdate_no_owner_check:
  assumes "opt_str (up_uploadId r) = ''''"
  shows "map_option (\<lambda>(res, s'). (res, sv_files s')) (FilesUpdate blake now user1 r fileId s)
    = map_option (\<lambda>(res, s'). (res, sv_files s')) (FilesUpdate blake now user2 r fileId s)"
proof -
  have ur: "update_uploads s u r = ([], r)" for u using assms by (simp add: update_uploads_def)
  show ?thesis using assms
    by (simp add: FilesUpdate_def ur Let_def option.map_comp comp_def split: option.split prod.split)
qed

text \<open>
  New content under the old hash. When the content of a file is replaced by parts without recorded block
  hashes (no upload session, or one without hashing), the row gets the new parts and keeps the hash of the old
  content. A later upload of the old content is then deduplicated onto this row, that is, onto data it
  does not hold.
\<close>

theorem FilesUpdate_stale_hash:
  assumes "files_ok (sv_files s)" "FilesUpdate blake now userId r fileId s = Some (Inr out, s')"
    and "update_uploads s userId r = (uploads, r')" "update_parts r'" "\<not> blockHashesCover uploads (up_parts r')"
  shows "\<exists>f \<in> set (sv_files s'). \<exists>cur \<in> set (sv_files s). f_id f = fileId \<and> f_id cur = fileId
    \<and> f_parts f = Some (mapParts (up_parts r')) \<and> f_hash f = f_hash cur"
proof -
  obtain cur p clear f where
    cur: "row_by_id (sv_files s) fileId = Some cur"
    and d: "update_dedup blake s uploads r' cur (update_patch now r') = (p, clear)"
    and fs: "sv_files s' = update_rows r' p clear fileId (sv_files s)"
    and f: "row_by_id (sv_files s') fileId = Some f"
    by (rule FilesUpdate_cases [OF assms(2,3)])
  have content: "is_content_update r'" using assms(4) by (simp add: is_content_update_def)
  have p: "p = update_patch now r'" using d assms(5) by (simp add: update_dedup_def Let_def)
  have "f_parts f = Some (mapParts (up_parts r'))" "f_hash f = f_hash cur"
    using f cur content assms(4) unfolding fs p
    by (auto simp: update_rows_def Let_def row_update_where apply_patch_def update_patch_def set_opt_def
        split: if_splits)
  with row_by_id_Some [OF cur] row_by_id_Some [OF f] show ?thesis
    by (intro bexI [of _ f] bexI [of _ cur]) simp_all
qed

section \<open>Witnesses for updates\<close>

definition demo_ref :: FileRow where
  "demo_ref = (mk_row ''g'' ''b.txt'' FILE 1 (Some ''d''))\<lparr> f_ref := Some ''f'',
     f_parts := Some [\<lparr> part_ID = 11, part_Salt = '''' \<rparr>], f_hash := f_hash demo_file \<rparr>"

definition demo_svc2 :: svc where
  "demo_svc2 = demo_svc\<lparr> sv_files := sv_files demo_svc @ [demo_ref] \<rparr>"

definition no_update :: FileUpdate where
  "no_update = \<lparr> up_name = None, up_parent = None, up_channel = None, up_size = None, up_parts = [],
     up_encrypted = None, up_starred = None, up_updated = Unset, up_uploadId = None \<rparr>"

lemma demo_ok2: "files_ok (sv_files demo_svc2)"
  by (simp add: demo_svc2_def demo_ref_def demo_svc_def demo_file_def mk_row_def files_ok_def index_ok_def
      is_active_def index_key_def coalesce_parent_def)

lemma demo_row_g: "row_by_id (sv_files demo_svc2) ''g'' = Some demo_ref"
  by (simp add: row_by_id_def first_where_def demo_svc2_def demo_ref_def demo_svc_def demo_file_def mk_row_def)

lemma index_ok_update_same:
  assumes "index_ok rows" "\<And>f. is_active (g f) = is_active f \<and> index_key (g f) = index_key f"
  shows "index_ok (update_where P g rows)"
  using assms(1) unfolding index_ok_def by (subst update_where_key) (simp_all add: assms(2))

text \<open>An update that keeps name, parent and status succeeds.\<close>

lemma FilesUpdate_succeeds:
  assumes "files_ok (sv_files s)" "row_by_id (sv_files s) i = Some cur" "f_encrypted cur \<noteq> None"
    "up_name r = None" "up_parent r = None" "up_uploadId r = None"
  shows "\<exists>out s'. FilesUpdate blake now uid r i s = Some (Inr out, s')"
proof -
  have ur: "update_uploads s uid r = ([], r)" using assms by (simp add: update_uploads_def opt_str_def)
  obtain p clear where d: "update_dedup blake s [] r cur (update_patch now r) = (p, clear)"
    by (cases "update_dedup blake s [] r cur (update_patch now r)")
  then have p: "p = update_patch now r" by (simp add: update_dedup_def blockHashesCover_def Let_def)
  have k: "is_active (apply_patch b p f) = is_active f \<and> index_key (apply_patch b p f) = index_key f" for b f
    using assms(4,5) by (simp add: p apply_patch_def update_patch_def opt_str_def nonempty_opt_def set_opt_def
        is_active_def index_key_def)
  let ?rows = "update_rows r p clear i (sv_files s)"
  have "index_ok ?rows"
    using assms(1) k unfolding update_rows_def Let_def files_ok_def
    by (auto intro!: index_ok_update_same simp: is_active_def index_key_def)
  moreover
  define g where "g = apply_patch (up_updated r \<noteq> Unset \<and> \<not> is_content_update r) p cur"
  define f where "f = (if clear then g\<lparr> f_ref := None \<rparr> else g)"
  have f: "row_by_id ?rows i = Some f"
    using assms(2) by (simp add: update_rows_def Let_def row_update_where f_def g_def)
  have "f_encrypted g \<noteq> None"
    using assms(3) by (cases "up_encrypted r") (auto simp: g_def apply_patch_def set_opt_def p update_patch_def)
  then have "f_encrypted f \<noteq> None" by (simp add: f_def)
  then have "ToFileOut f \<noteq> None" by (auto simp: ToFileOut_def)
  ultimately show ?thesis using ur d assms(2) f by (auto simp: FilesUpdate_def Let_def)
qed

lemma demo_update_succeeds:
  assumes "up_name r = None" "up_parent r = None" "up_uploadId r = None"
  shows "\<exists>out s'. FilesUpdate blake now uid r ''g'' demo_svc2 = Some (Inr out, s')"
    "\<exists>out s'. FilesUpdate blake now uid r ''f'' demo_svc2 = Some (Inr out, s')"
proof -
  have rf: "row_by_id (sv_files demo_svc2) ''f'' = Some demo_file"
    by (simp add: row_by_id_def first_where_def demo_svc2_def demo_svc_def demo_file_def mk_row_def)
  show "\<exists>out s'. FilesUpdate blake now uid r ''g'' demo_svc2 = Some (Inr out, s')"
    by (rule FilesUpdate_succeeds [OF demo_ok2 demo_row_g]) (simp_all add: assms demo_ref_def mk_row_def)
  show "\<exists>out s'. FilesUpdate blake now uid r ''f'' demo_svc2 = Some (Inr out, s')"
    by (rule FilesUpdate_succeeds [OF demo_ok2 rf]) (simp_all add: assms demo_file_def mk_row_def)
qed

theorem FilesUpdate_copy_on_write_witness:
  "\<exists>out s'. FilesUpdate demo_blake 9 1 (no_update\<lparr> up_size := Some 0 \<rparr>) ''g'' demo_svc2 = Some (Inr out, s')
     \<and> files_ok (sv_files s') \<and> demo_file \<in> set (sv_files s') \<and> (\<exists>f \<in> set (sv_files s'). f_id f = ''g'')"
proof -
  let ?r = "no_update\<lparr> up_size := Some 0 \<rparr>"
  obtain out s' where u: "FilesUpdate demo_blake 9 1 ?r ''g'' demo_svc2 = Some (Inr out, s')"
    using demo_update_succeeds(1) [of ?r demo_blake 9 1] by (auto simp: no_update_def)
  have c: "is_content_update (snd (update_uploads demo_svc2 1 ?r))"
    by (simp add: is_content_update_def update_uploads_def no_update_def opt_str_def)
  have m: "demo_file \<in> set (sv_files demo_svc2)" "f_id demo_file \<noteq> ''g''"
    by (simp_all add: demo_svc2_def demo_svc_def demo_file_def mk_row_def)
  from FilesUpdate_copy_on_write [OF demo_ok2 u c] m u show ?thesis by blast
qed

theorem FilesUpdate_time_only_witness:
  "\<exists>out s'. FilesUpdate demo_blake 9 1 (no_update\<lparr> up_starred := Some True, up_updated := At 5 \<rparr>) ''g'' demo_svc2
     = Some (Inr out, s') \<and> o_starred out = Some False"
proof -
  let ?r = "no_update\<lparr> up_starred := Some True, up_updated := At 5 \<rparr>"
  obtain out s' where u: "FilesUpdate demo_blake 9 1 ?r ''g'' demo_svc2 = Some (Inr out, s')"
    using demo_update_succeeds(1) [of ?r demo_blake 9 1] by (auto simp: no_update_def)
  from FilesUpdate_time_only [OF demo_ok2 u] obtain f where
    f: "f \<in> set (sv_files demo_svc2)" "f_id f = ''g''" "o_starred out = f_starred f"
    by (auto simp: no_update_def opt_str_def)
  then have "f = demo_ref" by (auto simp: demo_svc2_def demo_svc_def demo_file_def mk_row_def)
  with f u show ?thesis by (auto simp: demo_ref_def mk_row_def)
qed

theorem FilesUpdate_stale_hash_witness:
  "\<exists>out s'. FilesUpdate demo_blake 9 1 (no_update\<lparr> up_size := Some 3, up_parts := [\<lparr> part_ID = 77, part_Salt = '''' \<rparr>] \<rparr>)
       ''f'' demo_svc2 = Some (Inr out, s')
     \<and> (\<exists>f \<in> set (sv_files s'). f_hash f = f_hash demo_file \<and> f_parts f \<noteq> f_parts demo_file)"
proof -
  let ?r = "no_update\<lparr> up_size := Some 3, up_parts := [\<lparr> part_ID = 77, part_Salt = '''' \<rparr>] \<rparr>"
  have rf: "row_by_id (sv_files demo_svc2) ''f'' = Some demo_file"
    by (simp add: row_by_id_def first_where_def demo_svc2_def demo_svc_def demo_file_def mk_row_def)
  obtain out s' where u: "FilesUpdate demo_blake 9 1 ?r ''f'' demo_svc2 = Some (Inr out, s')"
    using demo_update_succeeds(2) [of ?r demo_blake 9 1] by (auto simp: no_update_def)
  have ur: "update_uploads demo_svc2 1 ?r = ([], ?r)" by (simp add: update_uploads_def no_update_def opt_str_def)
  have "update_parts ?r" "\<not> blockHashesCover [] (up_parts ?r)"
    by (simp_all add: update_parts_def nonzero_opt_def no_update_def blockHashesCover_def)
  from FilesUpdate_stale_hash [OF demo_ok2 u ur this] obtain f cur where
    f: "f \<in> set (sv_files s')" "cur \<in> set (sv_files demo_svc2)" "f_id cur = ''f''"
      "f_parts f = Some (mapParts (up_parts ?r))" "f_hash f = f_hash cur" by blast
  then have "cur = demo_file" by (auto simp: demo_svc2_def demo_svc_def demo_ref_def mk_row_def)
  with f u show ?thesis by (auto simp: demo_file_def mk_row_def no_update_def mapParts_def)
qed

theorem FilesUpdate_no_owner_check_witness:
  "map_option (\<lambda>(res, s'). (res, sv_files s')) (FilesUpdate demo_blake 9 1 no_update ''g'' demo_svc2)
    = map_option (\<lambda>(res, s'). (res, sv_files s')) (FilesUpdate demo_blake 9 666 no_update ''g'' demo_svc2)"
  by (rule FilesUpdate_no_owner_check) (simp add: no_update_def opt_str_def)

end
