(* ===== verification/TgMessages.thy ===== *)
theory TgMessages
  imports PartReader FilesWrite
begin

text \<open>
  The messages that hold the parts of a file: \<open>GetMessages\<close>, \<open>DeleteMessages\<close>, \<open>GetMediaContent\<close> and
  \<open>GetLocation\<close> of internal/tgc/helpers.go, \<open>getParts\<close> of pkg/services/common.go and
  \<open>ComputeFileContentHash\<close> of pkg/services/dedup_backfill.go. The Telegram server is a parameter: a
  function from a channel and message ids to an answer or an error. The batches of an errgroup are taken
  in their order; the group returns the error of a batch if there is one.
\<close>

section \<open>What the server answers\<close>

record tg_document =
  doc_size :: int
  doc_id :: int

text \<open>\<open>None\<close> is a media document that is empty.\<close>

datatype tg_media = MediaDocument "tg_document option" | MediaOther

datatype tg_message = Message tg_media | MessageEmpty | MessageService

datatype tg_messages = ChannelMessages "tg_message list" | OtherMessages

text \<open>The document of a message, as the two type assertions of the code see it.\<close>

definition message_document :: "tg_message \<Rightarrow> tg_document option" where
  "message_document m = (case m of Message (MediaDocument (Some d)) \<Rightarrow> Some d | _ \<Rightarrow> None)"

section \<open>Batches\<close>

definition batch_count :: "nat \<Rightarrow> nat" where
  "batch_count n = (n + 99) div 100"

definition batch :: "nat \<Rightarrow> 'a list \<Rightarrow> 'a list" where
  "batch i ids = go_slice (i * 100) (min ((i + 1) * 100) (length ids)) ids"

definition batches :: "'a list \<Rightarrow> 'a list list" where
  "batches ids = map (\<lambda>i. batch i ids) [0..<batch_count (length ids)]"

text \<open>\<open>g.Wait()\<close>: all results, or an error.\<close>

fun all_results :: "('e + 'a) list \<Rightarrow> 'e + 'a list" where
  "all_results [] = Inr []"
| "all_results (Inl e # rs) = Inl e"
| "all_results (Inr x # rs) = (case all_results rs of Inl e \<Rightarrow> Inl e | Inr xs \<Rightarrow> Inr (x # xs))"

text \<open>\<open>getChannel\<close> is \<open>GetChannelById\<close>; \<open>request\<close> is the call \<open>ChannelsGetMessages\<close>.\<close>

definition getMessagesBatch ::
    "(int \<Rightarrow> int list \<Rightarrow> svc_err + tg_messages) \<Rightarrow> int \<Rightarrow> int list \<Rightarrow> svc_err + tg_message list" where
  "getMessagesBatch request channelId ids =
     (case request channelId (utils_Map ids (\<lambda>i. i)) of
        Inl e \<Rightarrow> Inl e
      | Inr OtherMessages \<Rightarrow> Inl (EMsg ''invalid channel messages'')
      | Inr (ChannelMessages ms) \<Rightarrow> Inr ms)"

definition GetMessages ::
    "(int \<Rightarrow> svc_err option) \<Rightarrow> (int \<Rightarrow> int list \<Rightarrow> svc_err + tg_messages) \<Rightarrow> int list \<Rightarrow> int
     \<Rightarrow> svc_err + tg_message list" where
  "GetMessages getChannel request ids channelId =
     (case getChannel channelId of
        Some e \<Rightarrow> Inl e
      | None \<Rightarrow>
          (case all_results (map (getMessagesBatch request channelId) (batches ids)) of
             Inl e \<Rightarrow> Inl e
           | Inr mss \<Rightarrow> Inr (concat mss)))"

text \<open>\<open>delete\<close> is the call \<open>ChannelsDeleteMessages\<close>, on the state of the server.\<close>

fun delete_batches :: "(int list \<Rightarrow> 's \<Rightarrow> svc_err option \<times> 's) \<Rightarrow> int list list \<Rightarrow> 's \<Rightarrow> svc_err option \<times> 's" where
  "delete_batches del [] s = (None, s)"
| "delete_batches del (b # bs) s =
     (case del b s of (e, s) \<Rightarrow> (case delete_batches del bs s of (e', s) \<Rightarrow>
        (case e of None \<Rightarrow> (e', s) | Some x \<Rightarrow> (Some x, s))))"

definition DeleteMessages ::
    "(int \<Rightarrow> svc_err option) \<Rightarrow> (int \<Rightarrow> int list \<Rightarrow> 's \<Rightarrow> svc_err option \<times> 's) \<Rightarrow> int \<Rightarrow> int list \<Rightarrow> 's
     \<Rightarrow> svc_err option \<times> 's" where
  "DeleteMessages getChannel delete channelId ids s =
     (case getChannel channelId of
        Some e \<Rightarrow> (Some e, s)
      | None \<Rightarrow> delete_batches (delete channelId) (batches ids) s)"

section \<open>Content of a small document, and its location\<close>

partial_function (option) media_loop ::
    "(int \<Rightarrow> int \<Rightarrow> io_error + bytes) \<Rightarrow> int \<Rightarrow> bytes \<Rightarrow> (bytes \<times> io_error option) option" where
  "media_loop getChunk offset buff =
     (case getChunk offset (1024 * 1024) of
        Inl e \<Rightarrow> Some (buff, Some e)
      | Inr r \<Rightarrow> if length r = 0 then Some (buff, None)
                else media_loop getChunk (offset + 1024 * 1024) (buff @ r))"

definition GetMediaContent :: "(int \<Rightarrow> int \<Rightarrow> io_error + bytes) \<Rightarrow> (bytes \<times> io_error option) option" where
  "GetMediaContent getChunk = media_loop getChunk 0 []"

text \<open>The outer \<open>None\<close> is a panic: an answer of another type, or a message without a document. The
  inner \<open>None\<close> is the nil location returned for a service message.\<close>

definition GetLocation ::
    "(int \<Rightarrow> svc_err option) \<Rightarrow> (int \<Rightarrow> int list \<Rightarrow> svc_err + tg_messages) \<Rightarrow> int \<Rightarrow> int
     \<Rightarrow> (svc_err + int option) option" where
  "GetLocation getChannel request channelId partId =
     (case getChannel channelId of
        Some e \<Rightarrow> Some (Inl e)
      | None \<Rightarrow>
          (case request channelId [partId] of
             Inl e \<Rightarrow> Some (Inl e)
           | Inr OtherMessages \<Rightarrow> None
           | Inr (ChannelMessages []) \<Rightarrow> Some (Inl (EMsg ''no messages found''))
           | Inr (ChannelMessages (m # _)) \<Rightarrow>
               (case m of
                  MessageEmpty \<Rightarrow> Some (Inl (EMsg ''no messages found''))
                | MessageService \<Rightarrow> Some (Inr None)
                | Message media \<Rightarrow>
                    (case message_document m of None \<Rightarrow> None | Some d \<Rightarrow> Some (Inr (Some (doc_id d)))))))"

section \<open>The parts of a file\<close>

definition part_of :: "bool \<Rightarrow> api_Part \<Rightarrow> tg_document \<Rightarrow> Part" where
  "part_of enc p d = \<lparr> DecryptedPartSize =
       (if enc then (case DecryptedSize (doc_size d) of Inl _ \<Rightarrow> 0 | Inr n \<Rightarrow> n) else 0),
     PartSize = doc_size d, PartSalt = part_Salt p, PartID = part_ID p \<rparr>"

text \<open>The loop over the messages; a document beyond the list of parts is an index panic.\<close>

fun parts_loop :: "bool \<Rightarrow> api_Part list \<Rightarrow> tg_message list \<Rightarrow> Part list option" where
  "parts_loop enc ps [] = Some []"
| "parts_loop enc ps (m # ms) =
     (case message_document m of
        None \<Rightarrow> parts_loop enc (tl ps) ms
      | Some d \<Rightarrow>
          (case ps of [] \<Rightarrow> None
           | p # ps \<Rightarrow> map_option (\<lambda>rest. part_of enc p d # rest) (parts_loop enc ps ms)))"

text \<open>The callback of the \<open>Fetch\<close> in \<open>getParts\<close>; \<open>None\<close> is a panic, also for a row without parts or channel.\<close>

definition getParts_fetch ::
    "(int \<Rightarrow> svc_err option) \<Rightarrow> (int \<Rightarrow> int list \<Rightarrow> svc_err + tg_messages) \<Rightarrow> FileRow
     \<Rightarrow> (svc_err + Part list) option" where
  "getParts_fetch getChannel request file =
     (case (f_parts file, f_channel file) of
        (Some ps, Some channelId) \<Rightarrow>
          (case GetMessages getChannel request (utils_Map ps part_ID) channelId of
             Inl e \<Rightarrow> Some (Inl e)
           | Inr ms \<Rightarrow>
               map_option (\<lambda>parts. if length parts \<noteq> length ps then Inl (EMsg ''file parts mismatch'') else Inr parts)
                 (parts_loop (IsEncrypted file) ps ms))
      | _ \<Rightarrow> None)"

section \<open>Hashing a stored file\<close>

text \<open>\<open>io.Copy\<close> into a writer that takes all it is given.\<close>

partial_function (option) io_CopyTo ::
    "'s read_fun \<Rightarrow> ('w \<Rightarrow> bytes \<Rightarrow> 'w option) \<Rightarrow> nat \<Rightarrow> 'w \<Rightarrow> 's \<Rightarrow> ('w \<times> io_error option \<times> 's) option" where
  "io_CopyTo rd wr k w s =
     Option.bind (rd k s) (\<lambda>(bs, e, s').
       Option.bind (if bs = [] then Some w else wr w bs) (\<lambda>w.
         case e of None \<Rightarrow> io_CopyTo rd wr k w s'
         | Some er \<Rightarrow> Some (w, if er = EOF then None else Some er, s')))"

text \<open>
  \<open>parts\<close> is the result of \<open>getParts\<close>, whose cache a file without id bypasses; \<open>opn\<close> and \<open>rd\<close> are
  the readers of its parts. The outer \<open>None\<close> is a panic or not ending.
\<close>

definition ComputeFileContentHash ::
    "hash_fun \<Rightarrow> 's open_part \<Rightarrow> 's read_fun \<Rightarrow> nat \<Rightarrow> (svc_err + Part list) option \<Rightarrow> FileRow
     \<Rightarrow> ((svc_err + io_error) + string) option" where
  "ComputeFileContentHash blake opn rd k partsRes file =
     (if f_size file = None \<or> f_size file = Some 0
      then Some (Inr (SumToHex (ComputeTreeHash blake [])))
      else Option.bind partsRes (\<lambda>res. case res of
        Inl e \<Rightarrow> Some (Inl (Inl e))
      | Inr parts \<Rightarrow>
          Option.bind (NewReader opn (IsEncrypted file) parts 0 (the (f_size file) - 1)) (\<lambda>res. case res of
            Inl e \<Rightarrow> Some (Inl (Inr e))
          | Inr lr \<Rightarrow>
              Option.bind (io_CopyTo (Reader_Read opn rd) (\<lambda>h p. bh_Write blake p h) k NewBlockHasher lr)
                (\<lambda>(h, e, _). case e of
                   Some e \<Rightarrow> Some (Inl (Inr e))
                 | None \<Rightarrow> Some (Inr (SumToHex (ComputeTreeHash blake (fst (bh_Sum blake h)))))))))"

section \<open>Batches partition the ids\<close>

lemma concat_batches_upto:
  "concat (map (\<lambda>i. batch i ids) [0..<m]) = take (min (m * 100) (length ids)) ids"
proof (induction m)
  case (Suc m)
  let ?n = "length ids"
  have "concat (map (\<lambda>i. batch i ids) [0..<Suc m])
      = go_slice 0 (min (m * 100) ?n) ids @ go_slice (m * 100) (min ((m + 1) * 100) ?n) ids"
    using Suc by (simp add: batch_def go_slice_def)
  also have "\<dots> = go_slice 0 (min (Suc m * 100) ?n) ids"
  proof (cases "m * 100 \<le> ?n")
    case True
    then show ?thesis using go_slice_append [of 0 "m * 100" "min ((m + 1) * 100) ?n" ids] by simp
  next
    case False
    then show ?thesis by (simp add: go_slice_def min_def)
  qed
  finally show ?case by (simp add: go_slice_def)
qed simp

lemma concat_batches [simp]: "concat (batches ids) = ids"
proof -
  have "length ids \<le> batch_count (length ids) * 100" unfolding batch_count_def by linarith
  then show ?thesis by (simp add: batches_def concat_batches_upto)
qed

lemma batch_length: "b \<in> set (batches ids) \<Longrightarrow> length b \<le> 100"
  by (auto simp: batches_def batch_def)

lemma all_results_Inr: "all_results (map (\<lambda>x. Inr (f x)) xs) = Inr (map f xs)"
  by (induction xs) auto

lemma GetMessages_map:
  assumes "getChannel c = None"
    and req: "\<forall>is. length is \<le> 100 \<longrightarrow> request c is = Inr (ChannelMessages (map look is))"
  shows "GetMessages getChannel request ids c = Inr (map look ids)"
proof -
  have "map (getMessagesBatch request c) (batches ids) = map (\<lambda>b. Inr (map look b)) (batches ids)"
    by (rule map_cong) (simp_all add: getMessagesBatch_def req batch_length)
  then have "all_results (map (getMessagesBatch request c) (batches ids)) = Inr (map (map look) (batches ids))"
    by (simp only: all_results_Inr)
  moreover have "concat (map (map look) (batches ids)) = map look ids"
    by (simp add: map_concat [symmetric])
  ultimately show ?thesis using assms(1) by (simp add: GetMessages_def)
qed

text \<open>
  Fetching messages. If the server answers each request for at most 100 ids with the messages of these
  ids in order, \<open>GetMessages\<close> returns the messages of all ids in order, however many there are, and
  asks for no more than 100 at a time.
\<close>

theorem GetMessages_in_order:
  assumes "getChannel c = None"
    and "\<forall>is. length is \<le> 100 \<longrightarrow> request c is = Inr (ChannelMessages (map look is))"
  shows "GetMessages getChannel request ids c = Inr (map look ids)"
  using GetMessages_map [where look = look and request = request and c = c] assms by blast

theorem GetMessages_in_order_witness:
  "GetMessages (\<lambda>_. None) (\<lambda>c is. Inr (ChannelMessages (map (\<lambda>i. Message MediaOther) is))) [1..250] 7
     = Inr (map (\<lambda>i. Message MediaOther) [1..250])"
  by (rule GetMessages_in_order) simp_all

lemma delete_batches_ok:
  assumes "\<And>b (s::'a set). length b \<le> 100 \<Longrightarrow> del b s = (None, s - f ` set b)" "\<forall>b \<in> set bs. length b \<le> 100"
  shows "delete_batches del bs s = (None, s - f ` set (concat bs))"
  using assms(2) by (induction bs arbitrary: s) (auto simp: assms(1))

text \<open>
  Deleting messages. If the server removes the messages of each request, \<open>DeleteMessages\<close> removes
  exactly the messages with the given ids of the channel.
\<close>

theorem DeleteMessages_exact:
  assumes "getChannel c = None"
    and "\<And>b s. length b \<le> 100 \<Longrightarrow> delete c b s = (None, s - (\<lambda>i. (c, i)) ` set b)"
  shows "DeleteMessages getChannel delete c ids s = (None, s - (\<lambda>i. (c, i)) ` set ids)"
proof -
  have "delete_batches (delete c) (batches ids) s = (None, s - (\<lambda>i. (c, i)) ` set (concat (batches ids)))"
    by (rule delete_batches_ok) (use assms(2) batch_length in auto)
  then show ?thesis using assms(1) by (simp add: DeleteMessages_def del: set_concat)
qed

theorem DeleteMessages_exact_witness:
  "DeleteMessages (\<lambda>_. None) (\<lambda>c b s. (None, s - (\<lambda>i. (c, i)) ` set b)) 7 [1, 2] {(7, 1), (7, 3), (8, 2)}
     = (None, {(7, 1), (7, 3), (8, 2)} - (\<lambda>i. (7, i)) ` set [1, 2])"
  by (rule DeleteMessages_exact) simp_all

section \<open>The parts follow the row\<close>

lemma parts_loop_documents:
  "length ps = length ds \<Longrightarrow>
     parts_loop enc ps (map (\<lambda>d. Message (MediaDocument (Some d))) ds) = Some (map2 (part_of enc) ps ds)"
  by (induction ps ds rule: list_induct2) (auto simp: message_document_def)

lemma parts_loop_missing:
  assumes "length ps = length ms" "\<exists>m \<in> set ms. message_document m = None"
  shows "\<exists>parts. parts_loop enc ps ms = Some parts \<and> length parts < length ps"
proof -
  have "\<exists>parts. parts_loop enc ps ms = Some parts \<and> length parts = length (filter (\<lambda>m. message_document m \<noteq> None) ms)"
    using assms(1)
  proof (induction ps ms rule: list_induct2)
    case (Cons p ps m ms)
    then obtain parts where "parts_loop enc ps ms = Some parts"
      "length parts = length (filter (\<lambda>m. message_document m \<noteq> None) ms)" by blast
    then show ?case by (cases "message_document m") simp_all
  qed simp
  moreover obtain m where "m \<in> set ms" "message_document m = None" using assms(2) by blast
  then have "length (filter (\<lambda>m. message_document m \<noteq> None) ms) < length ms"
    by (intro length_filter_less [of m]) simp_all
  ultimately show ?thesis using assms(1) by auto
qed

lemma getParts_spec:
  assumes "f_parts file = Some ps" "f_channel file = Some c" "getChannel c = None"
    and "\<forall>is. length is \<le> 100 \<longrightarrow> request c is = Inr (ChannelMessages (map look is))"
  shows "getParts_fetch getChannel request file =
    Some (if \<forall>p \<in> set ps. message_document (look (part_ID p)) \<noteq> None
          then Inr (map (\<lambda>p. part_of (IsEncrypted file) p (the (message_document (look (part_ID p))))) ps)
          else Inl (EMsg ''file parts mismatch''))"
proof -
  have ms: "GetMessages getChannel request (map part_ID ps) c = Inr (map (\<lambda>p. look (part_ID p)) ps)"
    using GetMessages_map [where look = look and request = request and c = c
        and ids = "map part_ID ps" and getChannel = getChannel] assms(3,4) by (simp add: comp_def)
  show ?thesis
  proof (cases "\<forall>p \<in> set ps. message_document (look (part_ID p)) \<noteq> None")
    case True
    define ds where "ds = map (\<lambda>p. the (message_document (look (part_ID p)))) ps"
    have "map (\<lambda>p. look (part_ID p)) ps = map (\<lambda>d. Message (MediaDocument (Some d))) ds"
      using True unfolding ds_def
      by (auto simp: message_document_def split: tg_message.splits tg_media.splits option.splits)
    moreover have "map2 (part_of (IsEncrypted file)) ps ds
        = map (\<lambda>p. part_of (IsEncrypted file) p (the (message_document (look (part_ID p))))) ps"
      by (simp add: ds_def zip_map2 zip_same_conv_map comp_def)
    moreover have "length ps = length ds" by (simp add: ds_def)
    ultimately show ?thesis using True assms(1,2) ms parts_loop_documents [of ps ds "IsEncrypted file"]
      by (simp add: getParts_fetch_def)
  next
    case False
    then have "\<exists>m \<in> set (map (\<lambda>p. look (part_ID p)) ps). message_document m = None" by auto
    from parts_loop_missing [OF _ this, of ps "IsEncrypted file"] obtain parts where
      "parts_loop (IsEncrypted file) ps (map (\<lambda>p. look (part_ID p)) ps) = Some parts" "length parts < length ps"
      by auto
    with False assms(1,2) ms show ?thesis by (auto simp: getParts_fetch_def)
  qed
qed

text \<open>
  The parts of a file. When the server still has the document of every part, \<open>getParts\<close> returns one
  part per entry of the row, in order, with the size of its document and the salt of the entry; when
  the message of a part is gone it returns an error and never a shorter file.
\<close>

theorem getParts_complete:
  assumes "f_parts file = Some ps" "f_channel file = Some c" "getChannel c = None"
    and "\<forall>is. length is \<le> 100 \<longrightarrow> request c is = Inr (ChannelMessages (map look is))"
  shows "getParts_fetch getChannel request file =
    Some (if \<forall>p \<in> set ps. message_document (look (part_ID p)) \<noteq> None
          then Inr (map (\<lambda>p. part_of (IsEncrypted file) p (the (message_document (look (part_ID p))))) ps)
          else Inl (EMsg ''file parts mismatch''))"
  using assms by (rule getParts_spec)

theorem getParts_complete_witness:
  "getParts_fetch (\<lambda>_. None) (\<lambda>c is. Inr (ChannelMessages (map (\<lambda>i. MessageEmpty) is))) demo_file
     = Some (Inl (EMsg ''file parts mismatch''))"
  using getParts_complete [of demo_file "[\<lparr> part_ID = 11, part_Salt = '''' \<rparr>]" 5 "\<lambda>_. None"
      "\<lambda>c is. Inr (ChannelMessages (map (\<lambda>i. MessageEmpty) is))" "\<lambda>_. MessageEmpty"]
  by (simp add: demo_file_def message_document_def)

section \<open>Hashing what was stored\<close>

lemma io_CopyTo_chunks:
  assumes "io_Copy rd k acc s = Some (res, e, s')"
  shows "\<exists>ps. res = acc @ concat ps \<and>
    (\<forall>h. io_CopyTo rd (\<lambda>h p. bh_Write blake p h) k h s = map_option (\<lambda>h. (h, e, s')) (bh_Writes blake ps h))"
proof -
  have bind_nil: "(if bs = [] then Some h else bh_Write blake bs h) = bh_Write blake bs h" for bs h
    by (cases "bs = []") (simp_all add: bh_Write.simps [of blake "[]"])
  let ?P = "\<lambda>acc s (res, e, s'). \<exists>ps. res = acc @ concat ps \<and>
    (\<forall>h. io_CopyTo rd (\<lambda>h p. bh_Write blake p h) k h s = map_option (\<lambda>h. (h, e, s')) (bh_Writes blake ps h))"
  have "?P acc s (res, e, s')"
  proof (rule io_Copy.raw_induct [of "\<lambda>rd' k' acc s r. rd' = rd \<longrightarrow> k' = k \<longrightarrow> ?P acc s r",
      OF _ assms, rule_format, OF _ refl refl])
    fix cp rd' k' acc s y
    assume IH: "\<And>rd' k' acc s y. cp rd' k' acc s = Some y \<Longrightarrow> rd' = rd \<Longrightarrow> k' = k \<Longrightarrow> ?P acc s y"
      and y: "Option.bind (rd' k' s) (\<lambda>(bs, e, s'). case e of None \<Rightarrow> cp rd' k' (acc @ bs) s'
         | Some er \<Rightarrow> Some (acc @ bs, if er = EOF then None else Some er, s')) = Some y"
      and eq: "rd' = rd" "k' = k"
    from y eq obtain bs e1 s1 where r: "rd k s = Some (bs, e1, s1)" by (cases "rd k s") auto
    show "?P acc s y"
    proof (cases e1)
      case (Some er)
      with y r eq have y': "y = (acc @ bs, if er = EOF then None else Some er, s1)" by simp
      have "io_CopyTo rd (\<lambda>h p. bh_Write blake p h) k h s
          = map_option (\<lambda>h. (h, if er = EOF then None else Some er, s1)) (bh_Writes blake [bs] h)" for h
        using r Some by (subst io_CopyTo.simps) (simp add: bind_nil split: option.split bind_split)
      then show ?thesis unfolding y' by (auto intro!: exI [of _ "[bs]"])
    next
      case None
      with y r eq have "cp rd k (acc @ bs) s1 = Some y" by simp
      from IH [OF this refl refl] obtain res e2 s2 ps where
        p: "y = (res, e2, s2)" "res = (acc @ bs) @ concat ps"
        "\<forall>h. io_CopyTo rd (\<lambda>h p. bh_Write blake p h) k h s1 = map_option (\<lambda>h. (h, e2, s2)) (bh_Writes blake ps h)"
        by (cases y) auto
      have "io_CopyTo rd (\<lambda>h p. bh_Write blake p h) k h s
          = map_option (\<lambda>h. (h, e2, s2)) (bh_Writes blake (bs # ps) h)" for h
        using r None p(3) by (subst io_CopyTo.simps) (simp add: bind_nil split: bind_split)
      then show ?thesis unfolding p(1) using p(2) by (auto intro!: exI [of _ "bs # ps"])
    qed
  qed
  then show ?thesis by simp
qed

lemma bh_sum_writes:
  "\<exists>h. bh_Writes blake ps NewBlockHasher = Some h
     \<and> fst (bh_Sum blake h) = concat (hash_blocks blake HashBlockSize (concat ps))"
proof -
  have B: "0 < HashBlockSize" by (simp add: HashBlockSize_def)
  from bh_Writes_holds [OF B bh_holds_New, of blake ps] obtain h where
    "bh_Writes blake ps NewBlockHasher = Some h" "bh_holds blake HashBlockSize (concat ps) h" by auto
  with bh_Sum_holds [OF B] show ?thesis by auto
qed

lemma ComputeFileContentHash_plain:
  assumes "plain_parts chunks doc parts plains" "uniform_parts S plains" "PartSize (parts ! 0) = int S"
    and "0 < conc" "0 < k" "\<not> IsEncrypted file" "f_size file = Some (int (length (concat plains)))"
    and "concat plains \<noteq> []"
  shows "ComputeFileContentHash blake (openPart chunks unseal keyof conc False parts) (part_Read chunks unseal) k
      (Some (Inr parts)) file
    = Some (Inr (tree_hash blake (concat (hash_blocks blake HashBlockSize (concat plains)))))"
proof -
  let ?opn = "openPart chunks unseal keyof conc False parts" and ?rd = "part_Read chunks unseal"
  let ?n = "length (concat plains)"
  have ne: "parts \<noteq> []" using assms(1,2) by (auto simp: plain_parts_def uniform_parts_def)
  have n: "(0::int) \<le> 0" "0 \<le> int ?n - 1" "int ?n - 1 < int ?n" using assms(8) by (cases plains, auto simp: Suc_le_eq)
  have "\<exists>r r'. NewReader ?opn False parts 0 (int ?n - 1) = Some (Inr r)
    \<and> io_Copy (Reader_Read ?opn ?rd) k [] r
      = Some (go_slice (nat 0) (nat (int ?n - 1 + 1)) (concat plains), None, r')"
    using part_source.NewReader_range [OF part_source_of assms(2) n, OF openPart_plain [OF assms(1,4)], of _ False]
      ne assms(3,5) by simp
  then obtain r r' where r: "NewReader ?opn False parts 0 (int ?n - 1) = Some (Inr r)"
    "io_Copy (Reader_Read ?opn ?rd) k [] r = Some (concat plains, None, r')"
    by (auto simp: go_slice_def)
  from io_CopyTo_chunks [OF r(2), of blake] obtain ps where
    ps: "concat plains = concat ps"
    "io_CopyTo (Reader_Read ?opn ?rd) (\<lambda>h p. bh_Write blake p h) k NewBlockHasher r
       = map_option (\<lambda>h. (h, None, r')) (bh_Writes blake ps NewBlockHasher)" by auto
  from bh_sum_writes [of blake ps] obtain h where
    h: "bh_Writes blake ps NewBlockHasher = Some h"
    "fst (bh_Sum blake h) = concat (hash_blocks blake HashBlockSize (concat ps))" by blast
  from r(1) ps h assms(6-8) show ?thesis
    by (auto simp: ComputeFileContentHash_def tree_hash_def)
qed




end
