(* ===== verification/FilesOps.thy ===== *)
theory FilesOps
  imports TgMessages
begin

text \<open>
  The other handlers of pkg/services/file.go that change or read the tree: \<open>FilesDelete\<close>, \<open>FilesMove\<close>,
  \<open>FilesMkdir\<close>, \<open>FilesCopy\<close>, \<open>FilesGetById\<close> and \<open>FilesCategoryStats\<close>. A result of \<open>None\<close> is a panic
  or a statement that does not end (a recursive query on a cycle of folders). \<open>isUUID\<close> is a
  parameter: the parser of google/uuid.
\<close>

section \<open>Deleting\<close>

definition FilesDelete :: "int \<Rightarrow> string list \<Rightarrow> svc \<Rightarrow> ((svc_err + unit) \<times> svc) option" where
  "FilesDelete userId ids s =
     (case ids of
        [] \<Rightarrow> Some (Inl (ApiErr (EMsg ''ids should not be empty'') 409), s)
      | i # _ \<Rightarrow>
          (case first_where (\<lambda>f. f_id f = i \<and> f_user f = userId) (sv_files s) of
             None \<Rightarrow> Some (Inl (ApiErr ERecordNotFound 0), s)
           | Some fileDB \<Rightarrow>
               map_option (\<lambda>rows.
                 let s = cascade rows s;
                     s = cache_Delete (concat (map (\<lambda>i. [KeyFile i, KeyFileMessages i]) ids)) s
                 in (Inr (), record_event OpDelete userId
                      \<lparr> src_id = f_id fileDB, src_type = f_type fileDB, src_name = f_name fileDB,
                        src_parent = opt_str (f_parent fileDB), src_dest = '''' \<rparr> s))
                 (deleteFilesBulk (sv_files s) ids userId)))"

section \<open>Moving\<close>

record FileMove =
  mv_ids :: "string list"
  mv_dest :: string
  mv_name :: string

text \<open>The children of \<open>existing\<close> whose names \<open>src\<close> does not have yet go to \<open>src\<close>.\<close>

definition merge_children :: "FileRow \<Rightarrow> FileRow \<Rightarrow> FileRow list \<Rightarrow> FileRow list" where
  "merge_children src existing rows =
     (let names = map f_name (filter (\<lambda>f. f_parent f = Some (f_id src) \<and> f_status f = ACTIVE) rows)
      in update_where (\<lambda>f. f_parent f = Some (f_id existing) \<and> f_status f = ACTIVE \<and> f_name f \<notin> set names)
           (\<lambda>f. f\<lparr> f_parent := Some (f_id src) \<rparr>) rows)"

text \<open>The transaction when one item gets a new name; the outer \<open>None\<close> is not ending.\<close>

definition move_renamed ::
    "int \<Rightarrow> FileRow \<Rightarrow> string \<Rightarrow> string \<Rightarrow> FileRow list \<Rightarrow> (svc_err + FileRow list) option" where
  "move_renamed userId src dest name rows =
     (let finish = (\<lambda>rows.
        let rows = update_where (\<lambda>f. f_id f = f_id src \<and> f_user f = userId)
              (\<lambda>f. f\<lparr> f_parent := Some dest, f_name := name \<rparr>) rows
        in if index_ok rows then Inr rows else Inl EKeyConflict)
      in case first_where (\<lambda>f. f_name f = name \<and> f_user f = userId \<and> f_status f = ACTIVE
                \<and> f_parent f = Some dest) rows of
           None \<Rightarrow> Some (finish rows)
         | Some existing \<Rightarrow>
             let merged = (if f_type src = FOLDER \<and> f_type existing = FOLDER
                           then merge_children src existing rows else rows)
             in if \<not> index_ok merged then Some (Inl EKeyConflict)
                else map_option finish (deleteFilesBulk merged [f_id existing] userId))"

definition move_plain :: "int \<Rightarrow> string list \<Rightarrow> string \<Rightarrow> FileRow list \<Rightarrow> svc_err + FileRow list" where
  "move_plain userId ids dest rows =
     (let rows = update_where (\<lambda>f. f_id f \<in> set ids \<and> f_user f = userId) (\<lambda>f. f\<lparr> f_parent := Some dest \<rparr>) rows
      in if index_ok rows then Inr rows else Inl EKeyConflict)"

definition FilesMove ::
    "(string \<Rightarrow> bool) \<Rightarrow> int \<Rightarrow> FileMove \<Rightarrow> svc \<Rightarrow> ((svc_err + unit) \<times> svc) option" where
  "FilesMove isUUID userId r s =
     (case (if \<not> isUUID (mv_dest r) then resolvePathID (sv_files s) (mv_dest r) userId else Some (mv_dest r)) of
        None \<Rightarrow> Some (Inl (ApiErr ERecordNotFound 0), s)
      | Some dest \<Rightarrow>
          (case mv_ids r of
             [] \<Rightarrow> None
           | i # rest \<Rightarrow>
               (case first_where (\<lambda>f. f_id f = i \<and> f_user f = userId) (sv_files s) of
                  None \<Rightarrow> Some (Inl (ApiErr ERecordNotFound 0), s)
                | Some src \<Rightarrow>
                    if rest = [] \<and> mv_name r \<noteq> '''' then
                      map_option (\<lambda>res. case res of
                          Inl e \<Rightarrow> (Inl (ApiErr e 0), s)
                        | Inr rows \<Rightarrow> (Inr (), cascade rows s))
                        (move_renamed userId src dest (mv_name r) (sv_files s))
                    else
                      (case move_plain userId (mv_ids r) dest (sv_files s) of
                         Inl e \<Rightarrow> Some (Inl (ApiErr e 0), s)
                       | Inr rows \<Rightarrow> Some (Inr (), record_event OpMove userId
                           \<lparr> src_id = dest, src_type = f_type src, src_name = f_name src,
                             src_parent = opt_str (f_parent src), src_dest = dest \<rparr>
                           (s\<lparr> sv_files := rows \<rparr>))))))"

section \<open>Directories and lookups\<close>

definition FilesMkdir :: "int \<Rightarrow> string list \<Rightarrow> int \<Rightarrow> string \<Rightarrow> svc \<Rightarrow> (svc_err + unit) \<times> svc" where
  "FilesMkdir now fresh userId path s =
     (let rows = snd (create_directories (sv_files s) userId now fresh path)
      in if index_ok rows then (Inr (), s\<lparr> sv_files := rows \<rparr>) else (Inl (ApiErr EKeyConflict 0), s))"

definition FilesGetById :: "string \<Rightarrow> svc \<Rightarrow> (svc_err + FileOut) option" where
  "FilesGetById fileId s =
     (case row_by_id (sv_files s) fileId of
        None \<Rightarrow> Some (Inl (ApiErr (EMsg ''file not found'') 404))
      | Some file \<Rightarrow>
          Option.bind (getFullPath (sv_files s) fileId) (\<lambda>path.
            map_option (\<lambda>out. Inr (out\<lparr> o_path := Some path, o_channel := f_channel file \<rparr>)) (ToFileOut file)))"

text \<open>Groups of the active files by category, in the order of the categories; NULL is last.\<close>

definition category_keys :: "FileRow list \<Rightarrow> string option list" where
  "category_keys rows =
     map Some (sort (remdups (List.map_filter f_category rows)))
       @ (if \<exists>f \<in> set rows. f_category f = None then [None] else [])"

definition FilesCategoryStats :: "int \<Rightarrow> svc \<Rightarrow> (string option \<times> nat \<times> int) list" where
  "FilesCategoryStats userId s =
     (let rows = filter (\<lambda>f. f_user f = userId \<and> f_type f = FILE \<and> f_status f = ACTIVE) (sv_files s)
      in map (\<lambda>c. let g = filter (\<lambda>f. f_category f = c) rows
                  in (c, length g, sum_list (map (\<lambda>f. case f_size f of None \<Rightarrow> 0 | Some n \<Rightarrow> n) g)))
           (category_keys rows))"

section \<open>Copying\<close>

record FileCopy =
  cp_dest :: string
  cp_name :: "string option"
  cp_updated :: opt_time

text \<open>
  \<open>send c d\<close> posts the document in the channel and returns the id of the new message. The loop
  panics on a message without a document.
\<close>

fun copy_loop ::
    "(int \<Rightarrow> tg_document \<Rightarrow> svc_err + int) \<Rightarrow> int \<Rightarrow> api_Part list \<Rightarrow> tg_message list
     \<Rightarrow> (svc_err + api_Part list) option" where
  "copy_loop send c ps [] = Some (Inr [])"
| "copy_loop send c ps (m # ms) =
     (case message_document m of
        None \<Rightarrow> None
      | Some d \<Rightarrow>
          (case send c d of
             Inl e \<Rightarrow> Some (Inl e)
           | Inr mid \<Rightarrow>
               (case ps of
                  [] \<Rightarrow> None
                | p # ps \<Rightarrow>
                    map_option (\<lambda>res. case res of Inl e \<Rightarrow> Inl e
                        | Inr rest \<Rightarrow> Inr (\<lparr> part_ID = mid,
                             part_Salt = (if part_Salt p \<noteq> '''' then part_Salt p else '''') \<rparr> # rest))
                      (copy_loop send c ps ms))))"

definition copy_parts ::
    "(int \<Rightarrow> svc_err option) \<Rightarrow> (int \<Rightarrow> int list \<Rightarrow> svc_err + tg_messages)
     \<Rightarrow> (int \<Rightarrow> tg_document \<Rightarrow> svc_err + int) \<Rightarrow> int \<Rightarrow> FileRow \<Rightarrow> (svc_err + api_Part list) option" where
  "copy_parts getChannel request send channelId file =
     (case (f_parts file, f_channel file) of
        (Some ps, Some c) \<Rightarrow>
          (case GetMessages getChannel request (utils_Map ps part_ID) c of
             Inl e \<Rightarrow> Some (Inl e)
           | Inr ms \<Rightarrow>
               (case getChannel channelId of
                  Some e \<Rightarrow> Some (Inl e)
                | None \<Rightarrow> copy_loop send channelId ps ms))
      | _ \<Rightarrow> None)"

definition copy_row :: "int \<Rightarrow> string \<Rightarrow> int \<Rightarrow> int \<Rightarrow> FileCopy \<Rightarrow> FileRow \<Rightarrow> api_Part list \<Rightarrow> FileRow" where
  "copy_row now new_id userId channelId r file newIds =
     \<lparr> f_id = new_id, f_name = (case cp_name r of None \<Rightarrow> f_name file | Some n \<Rightarrow> n), f_type = f_type file,
       f_mime = f_mime file, f_size = f_size file, f_category = f_category file,
       f_encrypted = (case f_encrypted file of None \<Rightarrow> Some False | Some e \<Rightarrow> Some e),
       f_starred = Some False, f_user = userId, f_status = ACTIVE, f_parent = None,
       f_parts = (if newIds \<noteq> [] then Some newIds else None), f_channel = Some channelId,
       f_hash = f_hash file, f_ref = None, f_created = now, f_updated = time_or (cp_updated r) now \<rparr>"

definition FilesCopy ::
    "(string \<Rightarrow> bool) \<Rightarrow> (int \<Rightarrow> svc_err option) \<Rightarrow> (int \<Rightarrow> int list \<Rightarrow> svc_err + tg_messages)
     \<Rightarrow> (int \<Rightarrow> tg_document \<Rightarrow> svc_err + int) \<Rightarrow> (int \<Rightarrow> svc_err + int) \<Rightarrow> int \<Rightarrow> string \<Rightarrow> string list
     \<Rightarrow> int \<Rightarrow> FileCopy \<Rightarrow> string \<Rightarrow> svc \<Rightarrow> ((svc_err + FileOut) \<times> svc) option" where
  "FilesCopy isUUID getChannel request send currentChannel now new_id fresh userId r fileId s =
     (case row_by_id (sv_files s) fileId of
        None \<Rightarrow> Some (Inl (ApiErr (EMsg ''file not found'') 404), s)
      | Some file \<Rightarrow>
          (case currentChannel userId of
             Inl e \<Rightarrow> Some (Inl (ApiErr e 0), s)
           | Inr channelId \<Rightarrow>
               Option.bind (copy_parts getChannel request send channelId file) (\<lambda>res. case res of
                 Inl e \<Rightarrow> Some (Inl (ApiErr e 0), s)
               | Inr newIds \<Rightarrow>
                   if length newIds \<noteq> length (the (f_parts file))
                   then Some (Inl (ApiErr (EMsg ''failed to copy all file parts'') 0), s)
                   else
                     (case (if isUUID (cp_dest r) then (Some (cp_dest r), sv_files s)
                            else create_directories (sv_files s) userId now fresh (cp_dest r)) of
                        (None, _) \<Rightarrow> None
                      | (Some parentId, rows) \<Rightarrow>
                          let row = (copy_row now new_id userId channelId r file newIds)\<lparr> f_parent := Some parentId \<rparr>;
                              rows = rows @ [row]
                          in if \<not> index_ok rows then Some (Inl (ApiErr EKeyConflict 0), s)
                             else map_option (\<lambda>out. (Inr out, record_event OpCopy userId
                                    \<lparr> src_id = f_id row, src_type = f_type row, src_name = f_name row,
                                      src_parent = parentId, src_dest = '''' \<rparr> (s\<lparr> sv_files := rows \<rparr>)))
                                  (ToFileOut row)))))"

section \<open>Cycles\<close>

text \<open>A set of rows whose parents are in the set again: the recursive queries never leave it.\<close>

definition parent_closed :: "FileRow list \<Rightarrow> string set \<Rightarrow> bool" where
  "parent_closed rows C \<longleftrightarrow> (\<forall>i \<in> C. \<exists>f p. row_by_id rows i = Some f \<and> f_parent f = Some p \<and> p \<in> C)"

lemma path_tree_diverges:
  assumes "parent_closed rows C" "i \<in> C"
  shows "path_tree rows i = None"
proof (rule ccontr)
  assume "path_tree rows i \<noteq> None"
  then obtain y where y: "path_tree rows i = Some y" by blast
  have "rows' = rows \<longrightarrow> i \<notin> C" if "path_tree rows' i = Some y" for rows' i y
  proof (rule path_tree.raw_induct [of "\<lambda>rows' i y. rows' = rows \<longrightarrow> i \<notin> C", OF _ that])
    fix pt rows' i y
    assume IH: "\<And>rows' i y. pt rows' i = Some y \<Longrightarrow> rows' = rows \<longrightarrow> i \<notin> C"
      and y: "(case row_by_id rows' i of None \<Rightarrow> Some [] | Some f \<Rightarrow> (case f_parent f of None \<Rightarrow> Some [f_name f]
        | Some p \<Rightarrow> Option.bind (pt rows' p) (\<lambda>ns. Some (ns @ [f_name f])))) = Some y"
    show "rows' = rows \<longrightarrow> i \<notin> C"
    proof (intro impI notI)
      assume r: "rows' = rows" and "i \<in> C"
      with assms(1) obtain f p where f: "row_by_id rows i = Some f" "f_parent f = Some p" "p \<in> C"
        unfolding parent_closed_def by blast
      with y r obtain ns where "pt rows p = Some ns" by (cases "pt rows p") auto
      with IH f(3) show False by blast
    qed
  qed
  with y assms(2) show False by blast
qed

definition child_closed :: "FileRow list \<Rightarrow> string set \<Rightarrow> bool" where
  "child_closed rows C \<longleftrightarrow> (\<forall>i \<in> C. \<exists>f \<in> set rows. f_parent f = Some i \<and> f_id f \<in> C)"

lemma target_levels_diverges:
  assumes "child_closed rows C" "set fr \<inter> C \<noteq> {}"
  shows "target_levels rows fr acc = None"
proof (rule ccontr)
  assume "target_levels rows fr acc \<noteq> None"
  then obtain y where y: "target_levels rows fr acc = Some y" by blast
  have "rows' = rows \<longrightarrow> set fr \<inter> C = {}" if "target_levels rows' fr acc = Some y" for rows' fr acc y
  proof (rule target_levels.raw_induct [of "\<lambda>rows' fr acc y. rows' = rows \<longrightarrow> set fr \<inter> C = {}", OF _ that])
    fix tl rows' fr acc y
    assume IH: "\<And>rows' fr acc y. tl rows' fr acc = Some y \<Longrightarrow> rows' = rows \<longrightarrow> set fr \<inter> C = {}"
      and y: "(if fr = [] then Some acc else tl rows' (children_ids rows' fr) (acc @ fr)) = Some y"
    show "rows' = rows \<longrightarrow> set fr \<inter> C = {}"
    proof (rule impI, rule ccontr)
      assume r: "rows' = rows" and ne: "set fr \<inter> C \<noteq> {}"
      then obtain i where i: "i \<in> set fr" "i \<in> C" by blast
      with y r have "tl rows (children_ids rows fr) (acc @ fr) = Some y" by (auto split: if_splits)
      with IH have "set (children_ids rows fr) \<inter> C = {}" by blast
      moreover obtain f where "f \<in> set rows" "f_parent f = Some i" "f_id f \<in> C"
        using assms(1) i(2) unfolding child_closed_def by blast
      ultimately show False using i(1) unfolding set_children_ids by blast
    qed
  qed
  with y assms(2) show False by blast
qed

text \<open>
  A folder moved into itself or into one of its own folders is lost: the move is accepted, and
  afterwards the query for its path and the deletion of it never end.
\<close>

theorem FilesMove_cycle:
  assumes "files_ok (sv_files s)" "isUUID dest" "f \<in> set (sv_files s)" "f_user f = uid"
    and "dest = f_id f \<or> (\<exists>d \<in> set (sv_files s). f_id d = dest \<and> f_parent d = Some (f_id f))"
    and "FilesMove isUUID uid \<lparr> mv_ids = [f_id f], mv_dest = dest, mv_name = '''' \<rparr> s = Some (Inr (), s')"
  shows "getFullPath (sv_files s') (f_id f) = None \<and> getFullPath (sv_files s') dest = None
    \<and> FilesDelete uid [f_id f] s' = None"
proof -
  have fw: "first_where (\<lambda>g. f_id g = f_id f \<and> f_user g = uid) (sv_files s) = Some f"
  proof -
    obtain g where g: "first_where (\<lambda>g. f_id g = f_id f \<and> f_user g = uid) (sv_files s) = Some g"
      using assms(3,4) first_where_None [of "\<lambda>g. f_id g = f_id f \<and> f_user g = uid" "sv_files s"]
      by (cases "first_where (\<lambda>g. f_id g = f_id f \<and> f_user g = uid) (sv_files s)") auto
    from row_eqI_where [OF g] ids_unique [OF assms(1) _ assms(3)] g show ?thesis by auto
  qed
  let ?g = "\<lambda>f :: FileRow. f\<lparr> f_parent := Some dest \<rparr>"
  define P where "P = (\<lambda>g :: FileRow. f_id g \<in> set [f_id f] \<and> f_user g = uid)"
  have rows: "sv_files s' = update_where P ?g (sv_files s)" "index_ok (sv_files s')"
    using assms(2,6) fw by (auto simp: FilesMove_def move_plain_def Let_def P_def split: if_splits)
  have ids: "map f_id (sv_files s') = map f_id (sv_files s)" unfolding rows by (rule update_where_ids) simp
  then have ok: "files_ok (sv_files s')" using assms(1) rows(2) by (simp add: files_ok_def)
  have "P f" using assms(4) by (simp add: P_def)
  then have "?g f \<in> set (sv_files s')" unfolding rows set_update_where using assms(3) by auto
  then have rf: "row_by_id (sv_files s') (f_id f) = Some (?g f)"
    using row_by_id_mem' [OF ok, of "?g f"] by simp
  have "parent_closed (sv_files s') {f_id f, dest} \<and> child_closed (sv_files s') {f_id f, dest}"
  proof (cases "dest = f_id f")
    case True
    with rf row_by_id_Some [OF rf] show ?thesis
      by (auto simp: parent_closed_def child_closed_def intro!: bexI [of _ "?g f"])
  next
    case False
    with assms(5) obtain d where d: "d \<in> set (sv_files s)" "f_id d = dest" "f_parent d = Some (f_id f)" by blast
    then have "\<not> P d" using False by (simp add: P_def)
    then have d': "d \<in> set (sv_files s')" unfolding rows set_update_where using d by auto
    then have rd: "row_by_id (sv_files s') dest = Some d" using row_by_id_mem' [OF ok, of d] d by simp
    have "child_closed (sv_files s') {f_id f, dest}"
      using d d' row_by_id_Some [OF rf] unfolding child_closed_def
      by (auto intro: bexI [of _ d] bexI [of _ "?g f"])
    moreover have "parent_closed (sv_files s') {f_id f, dest}"
      using rf d rd by (auto simp: parent_closed_def)
    ultimately show ?thesis by simp
  qed
  then have c: "parent_closed (sv_files s') {f_id f, dest}" "child_closed (sv_files s') {f_id f, dest}" by auto
  have m: "?g f \<in> set (sv_files s')" using row_by_id_Some [OF rf] by simp
  have "target_folders (sv_files s') [f_id f] uid = None"
    unfolding target_folders_def
    by (rule target_levels_diverges [OF c(2)]) (use m assms(4) in force)
  moreover have "first_where (\<lambda>g. f_id g = f_id f \<and> f_user g = uid) (sv_files s') \<noteq> None"
    unfolding first_where_None using m assms(4) by (auto intro!: bexI [of _ "?g f"])
  ultimately have "FilesDelete uid [f_id f] s' = None" by (auto simp: FilesDelete_def deleteFilesBulk_def)
  with path_tree_diverges [OF c(1)] show ?thesis by (simp add: getFullPath_def)
qed

theorem FilesMove_cycle_witness:
  "\<exists>s'. FilesMove (\<lambda>_. True) 1 \<lparr> mv_ids = [''d''], mv_dest = ''d'', mv_name = '''' \<rparr> demo_svc = Some (Inr (), s')
     \<and> getFullPath (sv_files s') ''d'' = None"
proof -
  let ?m = "\<lparr> mv_ids = [''d''], mv_dest = ''d'', mv_name = '''' \<rparr>" and ?d = "mk_row ''d'' ''docs'' FOLDER 1 (Some ''r'')"
  have d: "?d \<in> set (sv_files demo_svc)" "f_id ?d = ''d''" "f_user ?d = 1" by (simp_all add: demo_svc_def mk_row_def)
  obtain s' where s': "FilesMove (\<lambda>_. True) 1 ?m demo_svc = Some (Inr (), s')"
    by (simp add: FilesMove_def move_plain_def demo_svc_def demo_file_def mk_row_def first_where_def
        update_where_def index_ok_def is_active_def index_key_def coalesce_parent_def Let_def)
  from FilesMove_cycle [OF demo_ok(1), of "\<lambda>_. True" "''d''" ?d 1 s'] d s' show ?thesis by simp
qed

section \<open>Moves\<close>

lemma index_ok_pending:
  "index_ok rows \<Longrightarrow> index_ok (filter Q (update_where H (\<lambda>f. f\<lparr> f_status := PENDING \<rparr>) rows))"
proof -
  let ?u = "\<lambda>rows. filter Q (update_where H (\<lambda>f. f\<lparr> f_status := PENDING \<rparr>) rows)"
  have sub: "index_key ` set (filter is_active (?u rows)) \<subseteq> index_key ` set (filter is_active rows)" for rows
    by (auto simp: update_where_def is_active_def)
  show "index_ok rows \<Longrightarrow> index_ok (?u rows)"
  proof (induction rows)
    case (Cons f rows)
    then have "index_ok (?u rows)" by (auto simp: index_ok_def split: if_splits)
    moreover have "is_active f \<Longrightarrow> index_key f \<notin> index_key ` set (filter is_active (?u rows))"
      using Cons.prems sub [of rows] unfolding index_ok_def by auto
    ultimately show ?case by (auto simp: update_where_def index_ok_def is_active_def)
  qed (simp add: index_ok_def update_where_def)
qed

text \<open>
  A file renamed to the name it has is deleted. When a client moves a file to the folder it is in,
  under its own name, the handler takes the file itself for the entry that is in the way and deletes it:
  the answer is success, no event is recorded, and the file is marked for deletion.
\<close>

theorem FilesMove_onto_itself:
  assumes "files_ok (sv_files s)" "acyclic_rows (sv_files s)" "f \<in> set (sv_files s)" "is_active f"
    and "f_type f = FILE" "f_parent f = Some dest" "isUUID dest" "f_name f \<noteq> ''''"
  shows "\<exists>s'. FilesMove isUUID (f_user f) \<lparr> mv_ids = [f_id f], mv_dest = dest, mv_name = f_name f \<rparr> s
      = Some (Inr (), s') \<and> (\<exists>ref. f\<lparr> f_status := PENDING, f_ref := ref \<rparr> \<in> set (sv_files s')) \<and> sv_events s' = sv_events s"
proof -
  let ?rows = "sv_files s" and ?p = "f\<lparr> f_status := PENDING \<rparr>"
  have unique: "first_where P ?rows = Some f" if P: "P f" and u: "\<And>g. g \<in> set ?rows \<Longrightarrow> P g \<Longrightarrow> g = f" for P
  proof -
    obtain g where g: "first_where P ?rows = Some g"
      using P assms(3) first_where_None [of P ?rows] by (cases "first_where P ?rows") auto
    with row_eqI_where [OF g] u show ?thesis by auto
  qed
  have src: "first_where (\<lambda>g. f_id g = f_id f \<and> f_user g = f_user f) ?rows = Some f"
    by (rule unique) (use ids_unique [OF assms(1) _ assms(3)] in auto)
  have ex: "first_where (\<lambda>g. f_name g = f_name f \<and> f_user g = f_user f \<and> f_status g = ACTIVE
      \<and> f_parent g = Some dest) ?rows = Some f"
  proof (rule unique)
    show "f_name f = f_name f \<and> f_user f = f_user f \<and> f_status f = ACTIVE \<and> f_parent f = Some dest"
      using assms(4,6) by (simp add: is_active_def)
    fix g assume "g \<in> set ?rows" "f_name g = f_name f \<and> f_user g = f_user f \<and> f_status g = ACTIVE
      \<and> f_parent g = Some dest"
    then show "g = f" using index_ok_unique [of ?rows g f] assms(1,3,4,6)
      by (simp add: files_ok_def is_active_def index_key_def)
  qed
  obtain ts where ts: "target_folders ?rows [f_id f] (f_user f) = Some ts"
    using target_folders_ok [OF assms(2)] by blast
  define Q where "Q = (\<lambda>g :: FileRow. \<not> (f_id g \<in> set ts \<and> f_type g = FOLDER))"
  define H where "H = (\<lambda>g :: FileRow. ((case f_parent g of None \<Rightarrow> False | Some p \<Rightarrow> p \<in> set ts)
      \<or> f_id g \<in> set [f_id f]) \<and> f_type g = FILE)"
  define rows1 where "rows1 = filter Q (update_where H (\<lambda>g. g\<lparr> f_status := PENDING \<rparr>) ?rows)"
  have del: "deleteFilesBulk ?rows [f_id f] (f_user f) = Some rows1"
    unfolding deleteFilesBulk_def ts rows1_def Q_def H_def by simp
  have idx: "index_ok ?rows" "index_ok rows1"
    using assms(1) index_ok_pending unfolding rows1_def files_ok_def by auto
  have mem: "?p \<in> set rows1"
    using assms(3,5) by (auto simp: rows1_def set_update_where H_def Q_def)
  have only: "g = ?p" if "g \<in> set rows1" "f_id g = f_id f" for g
  proof -
    from that(1) obtain h where h: "h \<in> set ?rows" "g = (if H h then h\<lparr> f_status := PENDING \<rparr> else h)"
      by (auto simp: rows1_def update_where_def)
    then have "f_id h = f_id f" using that(2) by (auto split: if_splits)
    then have "h = f" using ids_unique [OF assms(1) h(1) assms(3)] by blast
    with h(2) assms(5) show ?thesis by (simp add: H_def)
  qed
  have "update_where (\<lambda>g. f_id g = f_id f \<and> f_user g = f_user f)
      (\<lambda>g. g\<lparr> f_parent := Some dest, f_name := f_name f \<rparr>) rows1 = rows1"
    unfolding update_where_def
  proof (rule map_idI)
    fix g assume "g \<in> set rows1"
    with only [of g] assms(6) show "(if f_id g = f_id f \<and> f_user g = f_user f
        then g\<lparr> f_parent := Some dest, f_name := f_name f \<rparr> else g) = g" by auto
  qed
  moreover have "\<exists>ref. f\<lparr> f_status := PENDING, f_ref := ref \<rparr> \<in> set (sv_files (cascade rows1 s))"
    using cascade_keeps [OF mem] by simp
  ultimately show ?thesis using src ex del idx assms(5,7,8) by (simp add: FilesMove_def move_renamed_def Let_def)
qed

theorem FilesMove_onto_itself_witness:
  "\<exists>s'. FilesMove (\<lambda>_. True) 1 \<lparr> mv_ids = [''f''], mv_dest = ''d'', mv_name = ''a.txt'' \<rparr> demo_svc = Some (Inr (), s')
     \<and> (\<exists>ref. demo_file\<lparr> f_status := PENDING, f_ref := ref \<rparr> \<in> set (sv_files s'))"
proof -
  have "acyclic_by (\<lambda>i. if i = ''d'' then 1 else if i = ''f'' then 2 else 0) (sv_files demo_svc)"
    by (simp add: acyclic_by_def demo_svc_def demo_file_def mk_row_def)
  then have ac: "acyclic_rows (sv_files demo_svc)" by (auto simp: acyclic_rows_def)
  from FilesMove_onto_itself [OF demo_ok(1) ac demo_holds(2), of "''d''" "\<lambda>_. True"] show ?thesis
    by (auto simp: demo_file_def mk_row_def is_active_def)
qed

text \<open>
  Moving items without renaming keeps the keys of the table and changes nothing but the parent of the
  caller's items among the given ids, and it is recorded as one event; a clash with an active entry of the
  destination is refused and leaves everything as it was.
\<close>

theorem FilesMove_plain_ok:
  assumes "files_ok (sv_files s)" "isUUID (mv_dest r)" "mv_name r = ''''"
    and "FilesMove isUUID uid r s = Some (res, s')"
  shows "(case res of Inl e \<Rightarrow> s' = s | Inr _ \<Rightarrow> files_ok (sv_files s')
      \<and> sv_files s' = map (\<lambda>f. if f_id f \<in> set (mv_ids r) \<and> f_user f = uid
          then f\<lparr> f_parent := Some (mv_dest r) \<rparr> else f) (sv_files s)
      \<and> map ev_type (sv_events s') = map ev_type (sv_events s) @ [OpMove])"
proof (cases res)
  case (Inl e)
  with assms show ?thesis
    by (auto simp: FilesMove_def move_plain_def Let_def split: list.splits option.splits if_splits)
next
  case (Inr u)
  with assms have rows: "sv_files s' = update_where (\<lambda>f. f_id f \<in> set (mv_ids r) \<and> f_user f = uid)
      (\<lambda>f. f\<lparr> f_parent := Some (mv_dest r) \<rparr>) (sv_files s)" "index_ok (sv_files s')"
    "map ev_type (sv_events s') = map ev_type (sv_events s) @ [OpMove]"
    by (auto simp: FilesMove_def move_plain_def Let_def split: list.splits option.splits if_splits)
  have "map f_id (sv_files s') = map f_id (sv_files s)" unfolding rows by (rule update_where_ids) simp
  with rows Inr assms(1) show ?thesis by (simp add: files_ok_def) (simp add: update_where_def)
qed

theorem FilesMove_plain_ok_witness:
  "\<exists>s'. FilesMove (\<lambda>_. True) 1 \<lparr> mv_ids = [''f''], mv_dest = ''r'', mv_name = '''' \<rparr> demo_svc = Some (Inr (), s')
     \<and> files_ok (sv_files s')"
proof -
  let ?m = "\<lparr> mv_ids = [''f''], mv_dest = ''r'', mv_name = '''' \<rparr>"
  obtain s' where s': "FilesMove (\<lambda>_. True) 1 ?m demo_svc = Some (Inr (), s')"
    by (simp add: FilesMove_def move_plain_def demo_svc_def demo_file_def mk_row_def first_where_def
        update_where_def index_ok_def is_active_def index_key_def coalesce_parent_def Let_def)
  have "files_ok (sv_files s')"
    using FilesMove_plain_ok [OF demo_ok(1), of "\<lambda>_. True" ?m 1 "Inr ()" s'] s'
    unfolding sum.case by (metis FileMove.select_convs(3))
  with s' show ?thesis by blast
qed

end
