(* ===== verification/Shares.thy ===== *)
theory Shares
  imports QueryBuilder FilesOps
begin

text \<open>
  pkg/services/share.go, the share handlers of pkg/services/file.go and pkg/services/shortlink.go: short codes,
  looking a share up, the check of its password, what it lists, and what a short link resolves to. bcrypt,
  random bytes, fresh ids and the parser of UUIDs are parameters; base64 and path escaping are defined here.
\<close>

section \<open>Short codes\<close>

definition shortCodeAlphabet :: string where
  "shortCodeAlphabet = ''23456789abcdefghijkmnpqrstuvwxyzABCDEFGHJKLMNPQRSTUVWXYZ''"

definition shortCodeMinLength :: nat where "shortCodeMinLength = 4"

definition shortCodeMaxLength :: nat where "shortCodeMaxLength = 255"

definition shortCodeGenRetries :: nat where "shortCodeGenRetries = 5"

definition code_alnum :: "char \<Rightarrow> bool" where
  "code_alnum c \<longleftrightarrow> (let n = of_char c :: nat in (48 \<le> n \<and> n \<le> 57) \<or> (65 \<le> n \<and> n \<le> 90) \<or> (97 \<le> n \<and> n \<le> 122))"

definition code_slug :: "char \<Rightarrow> bool" where
  "code_slug c \<longleftrightarrow> code_alnum c \<or> c = CHR ''.'' \<or> c = CHR ''_'' \<or> c = CHR ''-''"

definition shortCodePattern :: "string \<Rightarrow> bool" where
  "shortCodePattern code =
     (case code of [] \<Rightarrow> False
      | c # cs \<Rightarrow> code_alnum c \<and> (cs = [] \<or> (list_all code_slug (butlast cs) \<and> code_alnum (last cs))))"

definition reservedShortCodes :: "string list" where
  "reservedShortCodes = [''share'', ''shares'', ''api'', ''files'', ''auth'', ''admin'', ''static'', ''assets'',
     ''config'', ''login'', ''favicon.ico'', ''robots.txt'', ''health'']"

definition validateShortCode :: "(string \<Rightarrow> bool) \<Rightarrow> string \<Rightarrow> svc_err option" where
  "validateShortCode isUUID code =
     (if length code < shortCodeMinLength \<or> length code > shortCodeMaxLength
      then Some (EShortCodeInvalid ''must be between 4 and 255 characters'')
      else if \<not> shortCodePattern code
      then Some (EShortCodeInvalid ''only letters, numbers, dots, dashes and underscores are allowed, and it must start and end with a letter or number'')
      else if isUUID code then Some (EShortCodeInvalid ''can't be a uuid'')
      else if ToLower code \<in> set reservedShortCodes then Some (EShortCodeInvalid ''this code is reserved'')
      else None)"

text \<open>\<open>buf\<close> is what \<open>rand.Read\<close> fills in; only its first bytes are used.\<close>

definition code_length :: "int \<Rightarrow> nat" where
  "code_length n = (if n \<le> 0 then 7 else nat n)"

definition generateShortCode :: "int \<Rightarrow> bytes \<Rightarrow> string" where
  "generateShortCode n buf =
     map (\<lambda>b. shortCodeAlphabet ! (unat b mod length shortCodeAlphabet)) (take (code_length n) buf)"

definition share_with_code :: "string \<Rightarrow> FileShare list \<Rightarrow> bool" where
  "share_with_code code rows \<longleftrightarrow> (\<exists>sh \<in> set rows. sh_code sh = Some code)"

fun suggest_loop :: "int \<Rightarrow> bytes list \<Rightarrow> FileShare list \<Rightarrow> svc_err + string" where
  "suggest_loop n [] rows = Inl (EMsg ''failed to generate a unique shortlink code'')"
| "suggest_loop n (buf # bufs) rows =
     (let code = generateShortCode n buf
      in if \<not> share_with_code code rows then Inr code else suggest_loop n bufs rows)"

definition suggestUniqueShortCode :: "int \<Rightarrow> bytes list \<Rightarrow> svc \<Rightarrow> svc_err + string" where
  "suggestUniqueShortCode n bufs s = suggest_loop n (take shortCodeGenRetries bufs) (sv_shares s)"

definition FilesSuggestShareCode :: "int \<Rightarrow> bytes list \<Rightarrow> svc \<Rightarrow> svc_err + string" where
  "FilesSuggestShareCode n bufs s =
     (case suggestUniqueShortCode n bufs s of Inl e \<Rightarrow> Inl (ApiErr e 0) | Inr c \<Rightarrow> Inr c)"

section \<open>Creating, editing and deleting shares\<close>

record FileShareCreate =
  sc_password :: string
  sc_expires :: "int option"
  sc_code :: "string option"
  sc_block :: "bool option"
  sc_always :: "bool option"
  sc_zip :: "bool option"
  sc_clear :: "bool option"

definition Or :: "'a option \<Rightarrow> 'a \<Rightarrow> 'a" where
  "Or v d = (case v of None \<Rightarrow> d | Some x \<Rightarrow> x)"

text \<open>The unique index of the short codes.\<close>

definition shares_ok :: "FileShare list \<Rightarrow> bool" where
  "shares_ok rows \<longleftrightarrow> distinct (List.map_filter sh_code rows)"

definition share_insert :: "FileShare \<Rightarrow> FileShare list \<Rightarrow> svc_err + FileShare list" where
  "share_insert sh rows = (if shares_ok (rows @ [sh]) then Inr (rows @ [sh]) else Inl EKeyConflict)"

fun create_share_loop ::
    "int \<Rightarrow> bytes list \<Rightarrow> FileShare \<Rightarrow> FileShare list \<Rightarrow> svc_err + FileShare list" where
  "create_share_loop n [] sh rows = Inl (ApiErr (EMsg ''failed to generate a unique shortlink code'') 0)"
| "create_share_loop n (buf # bufs) sh rows =
     (case share_insert (sh\<lparr> sh_code := Some (generateShortCode n buf) \<rparr>) rows of
        Inr rows \<Rightarrow> Inr rows
      | Inl e \<Rightarrow> if e = EKeyConflict then create_share_loop n bufs sh rows else Inl (ApiErr e 0))"

text \<open>\<open>bcrypt\<close> is \<open>GenerateFromPassword\<close>.\<close>

definition FilesCreateShare ::
    "(string \<Rightarrow> bool) \<Rightarrow> (string \<Rightarrow> svc_err + string) \<Rightarrow> int \<Rightarrow> bytes list \<Rightarrow> string \<Rightarrow> int \<Rightarrow> FileShareCreate
     \<Rightarrow> string \<Rightarrow> svc \<Rightarrow> (svc_err + unit) \<times> svc" where
  "FilesCreateShare isUUID bcrypt codeLen bufs new_id userId r fileId s =
     (case (if sc_password r \<noteq> '''' then map_sum id Some (bcrypt (sc_password r)) else Inr None) of
        Inl e \<Rightarrow> (Inl (ApiErr e 0), s)
      | Inr pw \<Rightarrow>
          let block = Or (sc_block r) False;
              always = (if block \<and> Or (sc_always r) False then False else Or (sc_always r) False);
              sh = \<lparr> sh_id = new_id, sh_file = fileId, sh_password = pw, sh_expires = sc_expires r,
                     sh_code = None, sh_block = block, sh_always = always,
                     sh_zip = Or (sc_zip r) False, sh_user = userId \<rparr>
          in (case sc_code r of
                Some [] \<Rightarrow>
                  (case create_share_loop codeLen (take shortCodeGenRetries bufs) sh (sv_shares s) of
                     Inl e \<Rightarrow> (Inl e, s)
                   | Inr rows \<Rightarrow> (Inr (), s\<lparr> sv_shares := rows \<rparr>))
              | code \<Rightarrow>
                  (case (case code of None \<Rightarrow> None | Some c \<Rightarrow> validateShortCode isUUID c) of
                     Some e \<Rightarrow> (Inl (ApiErr e 400), s)
                   | None \<Rightarrow>
                       (case share_insert (sh\<lparr> sh_code := code \<rparr>) (sv_shares s) of
                          Inl e \<Rightarrow> (Inl (if e = EKeyConflict then ApiErr EShortCodeTaken 409 else ApiErr e 0), s)
                        | Inr rows \<Rightarrow> (Inr (), s\<lparr> sv_shares := rows \<rparr>)))))"

definition FilesDeleteShare :: "int \<Rightarrow> string \<Rightarrow> svc \<Rightarrow> (svc_err + unit) \<times> svc" where
  "FilesDeleteShare userId fileId s =
     (let del = (\<lambda>sh. sh_file sh = fileId \<and> sh_user sh = userId);
          s' = s\<lparr> sv_shares := filter (\<lambda>sh. \<not> del sh) (sv_shares s) \<rparr>
      in case first_where del (sv_shares s) of
           None \<Rightarrow> (Inr (), s')
         | Some sh \<Rightarrow> if sh_id sh \<noteq> '''' then
             (Inr (), cache_Delete (KeyShare (sh_id sh) #
                (case sh_code sh of None \<Rightarrow> [] | Some c \<Rightarrow> [KeyShare c])) s')
           else (Inr (), s'))"

text \<open>The map of updates, as a change of the row; \<open>code\<close> is the code \<open>applyUpdate\<close> pins.\<close>

definition share_updates :: "FileShareCreate \<Rightarrow> string option \<Rightarrow> string option \<Rightarrow> FileShare \<Rightarrow> FileShare" where
  "share_updates r pw code sh =
     (let block = Or (sc_block r) (sh_block sh);
          always = (if block \<and> Or (sc_always r) (sh_always sh) then False else Or (sc_always r) (sh_always sh));
          flags = (sc_block r \<noteq> None \<or> sc_always r \<noteq> None);
          new = sh\<lparr> sh_password := (if pw = None then sh_password sh else pw),
                    sh_expires := (if sc_expires r = None then sh_expires sh else sc_expires r),
                    sh_block := (if flags then block else sh_block sh),
                    sh_always := (if flags then always else sh_always sh),
                    sh_zip := Or (sc_zip r) (sh_zip sh) \<rparr>;
          new = (if Or (sc_clear r) False
                 then new\<lparr> sh_code := None, sh_block := False, sh_always := False, sh_zip := False \<rparr> else new)
      in case code of None \<Rightarrow> new | Some c \<Rightarrow> new\<lparr> sh_code := Some c \<rparr>)"

definition apply_share_update ::
    "FileShareCreate \<Rightarrow> string option \<Rightarrow> FileShare \<Rightarrow> string option \<Rightarrow> FileShare list \<Rightarrow> svc_err + FileShare list" where
  "apply_share_update r pw existing code rows =
     (let rows = update_where (\<lambda>sh. sh_id sh = sh_id existing) (\<lambda>_. share_updates r pw code existing) rows
      in if shares_ok rows then Inr rows else Inl EKeyConflict)"

fun edit_share_loop ::
    "(string \<Rightarrow> svc_err + FileShare list) \<Rightarrow> int \<Rightarrow> bytes list \<Rightarrow> svc_err + string \<times> FileShare list" where
  "edit_share_loop upd n [] = Inl (ApiErr (EMsg ''failed to generate a unique shortlink code'') 0)"
| "edit_share_loop upd n (buf # bufs) =
     (let gen = generateShortCode n buf
      in case upd gen of
           Inr rows \<Rightarrow> Inr (gen, rows)
         | Inl e \<Rightarrow> if e = EKeyConflict then edit_share_loop upd n bufs else Inl (ApiErr e 0))"

definition FilesEditShare ::
    "(string \<Rightarrow> bool) \<Rightarrow> (string \<Rightarrow> svc_err + string) \<Rightarrow> int \<Rightarrow> bytes list \<Rightarrow> int \<Rightarrow> FileShareCreate
     \<Rightarrow> string \<Rightarrow> svc \<Rightarrow> (svc_err + unit) \<times> svc" where
  "FilesEditShare isUUID bcrypt codeLen bufs userId r fileId s =
     (case first_where (\<lambda>sh. sh_file sh = fileId \<and> sh_user sh = userId) (sv_shares s) of
        None \<Rightarrow> (Inl (ApiErr ENotFound 404), s)
      | Some existing \<Rightarrow>
          (case (if sc_password r \<noteq> '''' then map_sum id Some (bcrypt (sc_password r)) else Inr None) of
             Inl e \<Rightarrow> (Inl (ApiErr e 0), s)
           | Inr pw \<Rightarrow>
               let upd = (\<lambda>code. apply_share_update r pw existing code (sv_shares s));
                   done = (\<lambda>newCode rows. (Inr (), cache_Delete (KeyShare (sh_id existing) #
                     (case sh_code existing of None \<Rightarrow> [] | Some c \<Rightarrow> [KeyShare c]) @
                     (case newCode of None \<Rightarrow> [] | Some c \<Rightarrow> [KeyShare c])) (s\<lparr> sv_shares := rows \<rparr>)))
               in if Or (sc_clear r) False then
                    (case upd None of Inl e \<Rightarrow> (Inl (ApiErr e 0), s) | Inr rows \<Rightarrow> done None rows)
                  else (case sc_code r of
                    None \<Rightarrow> (case upd None of Inl e \<Rightarrow> (Inl (ApiErr e 0), s) | Inr rows \<Rightarrow> done None rows)
                  | Some [] \<Rightarrow>
                      (case edit_share_loop (\<lambda>c. upd (Some c)) codeLen (take shortCodeGenRetries bufs) of
                         Inl e \<Rightarrow> (Inl e, s) | Inr (c, rows) \<Rightarrow> done (Some c) rows)
                  | Some code \<Rightarrow>
                      (case validateShortCode isUUID code of
                         Some e \<Rightarrow> (Inl (ApiErr e 400), s)
                       | None \<Rightarrow>
                           (case upd (Some code) of
                              Inl e \<Rightarrow> (Inl (if e = EKeyConflict then ApiErr EShortCodeTaken 409 else ApiErr e 0), s)
                            | Inr rows \<Rightarrow> done (Some code) rows)))))"

record ShareInfo =
  si_id :: string
  si_type :: string
  si_name :: string
  si_protected :: bool
  si_expires :: "int option"
  si_code :: "string option"
  si_block :: bool
  si_always :: bool
  si_zip :: bool

definition FilesShareByid :: "int \<Rightarrow> string \<Rightarrow> svc \<Rightarrow> svc_err + ShareInfo" where
  "FilesShareByid userId fileId s =
     (case first_where (\<lambda>sh. sh_file sh = fileId \<and> sh_user sh = userId) (sv_shares s) of
        None \<Rightarrow> Inl (ApiErr (EMsg ''invalid share'') 404)
      | Some sh \<Rightarrow> Inr (let f = row_by_id (sv_files s) (sh_file sh) in
          \<lparr> si_id = sh_id sh, si_type = (case f of None \<Rightarrow> '''' | Some f \<Rightarrow> f_type f),
            si_name = (case f of None \<Rightarrow> '''' | Some f \<Rightarrow> f_name f), si_protected = (sh_password sh \<noteq> None),
            si_expires = sh_expires sh, si_code = sh_code sh, si_block = sh_block sh,
            si_always = sh_always sh, si_zip = sh_zip sh \<rparr>))"

section \<open>Looking a share up\<close>

datatype share_column = ColId | ColCode

text \<open>\<open>None\<close> is a path query that does not end.\<close>

definition shareGetByColumn :: "int \<Rightarrow> svc \<Rightarrow> share_column \<Rightarrow> string \<Rightarrow> (svc_err + fileShare) option" where
  "shareGetByColumn now s col v =
     (case first_where (\<lambda>sh. (case col of ColId \<Rightarrow> sh_id sh = v | ColCode \<Rightarrow> sh_code sh = Some v)) (sv_shares s) of
        None \<Rightarrow> Some (Inl (ApiErr EShareNotFound 404))
      | Some sh \<Rightarrow>
          if (case sh_expires sh of None \<Rightarrow> False | Some t \<Rightarrow> t < now) then Some (Inl (ApiErr EShareExpired 404))
          else map_option (\<lambda>path. let f = row_by_id (sv_files s) (sh_file sh) in
                 Inr \<lparr> fs_row = sh, fs_type = (case f of None \<Rightarrow> '''' | Some f \<Rightarrow> f_type f),
                      fs_name = (case f of None \<Rightarrow> '''' | Some f \<Rightarrow> f_name f), fs_path = path \<rparr>)
               (getFullPath (sv_files s) (sh_file sh)))"

definition shareGetById :: "(string \<Rightarrow> bool) \<Rightarrow> int \<Rightarrow> svc \<Rightarrow> string \<Rightarrow> (svc_err + fileShare) option" where
  "shareGetById isUUID now s idOrCode =
     (if isUUID idOrCode then shareGetByColumn now s ColId idOrCode else shareGetByColumn now s ColCode idOrCode)"

definition shareGetByCode :: "int \<Rightarrow> svc \<Rightarrow> string \<Rightarrow> (svc_err + fileShare) option" where
  "shareGetByCode now s code = shareGetByColumn now s ColCode code"

text \<open>\<open>cache.FetchArg\<close> with a lookup as its callback; a cached value of another kind does not decode.\<close>

definition fetch_share ::
    "(svc \<Rightarrow> string \<Rightarrow> (svc_err + fileShare) option) \<Rightarrow> string \<Rightarrow> svc \<Rightarrow> ((svc_err + fileShare) \<times> svc) option" where
  "fetch_share lookup k s =
     (case cm_Get (KeyShare k) (sv_cache s) of
        Inr (CShare sh) \<Rightarrow> Some (Inr sh, s)
      | Inr _ \<Rightarrow> Some (Inl ECache, s)
      | Inl CacheErr \<Rightarrow> Some (Inl ECache, s)
      | Inl CacheMiss \<Rightarrow>
          map_option (\<lambda>res. case res of Inl e \<Rightarrow> (Inl e, s)
            | Inr sh \<Rightarrow> (Inr sh, s\<lparr> sv_cache := cm_Set (KeyShare k) (CShare sh) 0 (sv_cache s) \<rparr>)) (lookup s k))"

definition SharesGetById :: "(string \<Rightarrow> bool) \<Rightarrow> int \<Rightarrow> string \<Rightarrow> svc \<Rightarrow> (svc_err + ShareInfo) option" where
  "SharesGetById isUUID now i s =
     map_option (\<lambda>res. case res of Inl e \<Rightarrow> Inl e
       | Inr sh \<Rightarrow> Inr \<lparr> si_id = '''', si_type = fs_type sh, si_name = fs_name sh,
           si_protected = (sh_password (fs_row sh) \<noteq> None), si_expires = sh_expires (fs_row sh),
           si_code = sh_code (fs_row sh), si_block = False, si_always = False, si_zip = sh_zip (fs_row sh) \<rparr>)
       (shareGetById isUUID now s i)"

definition SharesUnlock ::
    "(string \<Rightarrow> bool) \<Rightarrow> (string \<Rightarrow> string \<Rightarrow> bool) \<Rightarrow> int \<Rightarrow> string \<Rightarrow> string \<Rightarrow> svc \<Rightarrow> (svc_err + unit) option" where
  "SharesUnlock isUUID compare_hash now i password s =
     map_option (\<lambda>res. case res of Inl e \<Rightarrow> Inl e
       | Inr sh \<Rightarrow>
           (case sh_password (fs_row sh) of
              None \<Rightarrow> Inl (ApiErr EInvalidPassword 403)
            | Some h \<Rightarrow> if \<not> compare_hash h password then Inl (ApiErr EInvalidPassword 403) else Inr ()))
       (shareGetById isUUID now s i)"

section \<open>Basic authentication\<close>

definition b64_value :: "char \<Rightarrow> nat option" where
  "b64_value c = (let n = of_char c :: nat in
     if 65 \<le> n \<and> n \<le> 90 then Some (n - 65) else if 97 \<le> n \<and> n \<le> 122 then Some (n - 71)
     else if 48 \<le> n \<and> n \<le> 57 then Some (n + 4) else if n = 43 then Some 62 else if n = 47 then Some 63 else None)"

text \<open>\<open>base64.StdEncoding\<close>: groups of four with padding in the last; line breaks are dropped before.\<close>

fun b64_groups :: "string \<Rightarrow> string option" where
  "b64_groups [] = Some []"
| "b64_groups (a # b # c # d # rest) =
     (case (b64_value a, b64_value b) of
        (Some x, Some y) \<Rightarrow>
          if c = CHR ''='' then
            (if d = CHR ''='' \<and> rest = [] then Some [char_of (x * 4 + y div 16)] else None)
          else (case b64_value c of None \<Rightarrow> None | Some z \<Rightarrow>
            if d = CHR ''='' then
              (if rest = [] then Some [char_of (x * 4 + y div 16), char_of ((y mod 16) * 16 + z div 4)] else None)
            else (case b64_value d of None \<Rightarrow> None | Some w \<Rightarrow>
              map_option (\<lambda>t. char_of (x * 4 + y div 16) # char_of ((y mod 16) * 16 + z div 4)
                # char_of ((z mod 4) * 64 + w) # t) (b64_groups rest)))
      | _ \<Rightarrow> None)"
| "b64_groups _ = None"

definition DecodeString :: "string \<Rightarrow> string option" where
  "DecodeString s = b64_groups (filter (\<lambda>c. c \<noteq> CHR 0x0A \<and> c \<noteq> CHR 0x0D) s)"

text \<open>The outer \<open>None\<close> is a panic: decoded credentials without a colon.\<close>

definition validFileShare ::
    "(string \<Rightarrow> bool) \<Rightarrow> (string \<Rightarrow> string \<Rightarrow> bool) \<Rightarrow> int \<Rightarrow> string \<Rightarrow> string \<Rightarrow> svc
     \<Rightarrow> ((svc_err + fileShare) \<times> svc) option" where
  "validFileShare isUUID compare_hash now authHeader i s =
     Option.bind (fetch_share (shareGetById isUUID now) i s) (\<lambda>(res, s). case res of
       Inl e \<Rightarrow> Some (Inl (ApiErr e 0), s)
     | Inr share \<Rightarrow>
         (case sh_password (fs_row share) of
            None \<Rightarrow> Some (Inr share, s)
          | Some h \<Rightarrow>
              if authHeader = '''' then Some (Inl (ApiErr EEmptyAuth 401), s)
              else (case DecodeString (TrimPrefix authHeader ''Basic '') of
                 None \<Rightarrow> Some (Inl (ApiErr (EMsg ''illegal base64 data'') 0), s)
               | Some creds \<Rightarrow>
                   (case Split creds CHR '':'' of
                      _ # password # _ \<Rightarrow>
                        if \<not> compare_hash h password then Some (Inl (ApiErr EInvalidPassword 401), s)
                        else Some (Inr share, s)
                    | _ \<Rightarrow> None))))"

record share_list_params =
  sl_path :: string
  sl_limit :: nat
  sl_page :: nat
  sl_order :: file_order
  sl_sort :: file_sort

definition SharesListFiles ::
    "(string \<Rightarrow> bool) \<Rightarrow> (string \<Rightarrow> string \<Rightarrow> bool) \<Rightarrow> (string \<Rightarrow> string) \<Rightarrow> int \<Rightarrow> string \<Rightarrow> string
     \<Rightarrow> share_list_params \<Rightarrow> svc \<Rightarrow> ((svc_err + FileList) \<times> svc) option" where
  "SharesListFiles isUUID compare_hash path_of now authHeader i p s =
     Option.bind (validFileShare isUUID compare_hash now authHeader i s) (\<lambda>(res, s). case res of
       Inl e \<Rightarrow> Some (Inl e, s)
     | Inr share \<Rightarrow>
         if fs_type share = FOLDER then
           map_option (\<lambda>r. (r, s)) (qb_execute (\<lambda>_ _ _. False) path_of
             \<lparr> q_status = ACTIVE, q_operation = OpList, q_path = fs_path share @ sl_path p, q_parent = '''',
               q_deep = False, q_query = '''', q_search = SearchOther, q_updated = '''', q_category = [],
               q_name = '''', q_type = '''', q_shared = False, q_starred = None, q_sort = sl_sort p,
               q_order = sl_order p, q_limit = sl_limit p, q_page = sl_page p \<rparr> (sh_user (fs_row share)) s)
         else
           (case row_by_id (sv_files s) (sh_file (fs_row share)) of
              None \<Rightarrow> Some (Inl (ApiErr ENotFound 404), s)
            | Some f \<Rightarrow> map_option (\<lambda>out. (Inr \<lparr> fl_items = [out], fl_count = 1, fl_pages = Some 1, fl_page = 1 \<rparr>, s))
                (ToFileOut f)))"

section \<open>Short links\<close>

datatype ShortlinkAction = ShortlinkNotFound | ShortlinkViewer | ShortlinkDirect | ShortlinkZip

definition decide :: "fileShare \<Rightarrow> bool \<Rightarrow> ShortlinkAction" where
  "decide share isBrowser =
     (if fs_type share = FOLDER \<and> \<not> sh_zip (fs_row share) then ShortlinkViewer
      else
        let directTarget = (if fs_type share = FOLDER then ShortlinkZip else ShortlinkDirect)
        in if sh_block (fs_row share) then ShortlinkViewer
           else if sh_always (fs_row share) then directTarget
           else if \<not> isBrowser then directTarget
           else ShortlinkViewer)"

definition ResolveShortlink ::
    "int \<Rightarrow> string \<Rightarrow> string \<Rightarrow> svc \<Rightarrow> ((svc_err + ShortlinkAction \<times> fileShare option) \<times> svc) option" where
  "ResolveShortlink now code userAgent s =
     map_option (\<lambda>(res, s). case res of
         Inl e \<Rightarrow> if err_Is e EShareNotFound \<or> err_Is e EShareExpired then (Inr (ShortlinkNotFound, None), s)
                  else (Inl e, s)
       | Inr share \<Rightarrow> (Inr (decide share (LooksLikeBrowser userAgent), Some share), s))
       (fetch_share (shareGetByCode now) code s)"

text \<open>\<open>url.PathEscape\<close>.\<close>

definition path_unreserved :: "char \<Rightarrow> bool" where
  "path_unreserved c \<longleftrightarrow> code_alnum c \<or> c \<in> set ''-_.~$&+:=@''"

definition upper_hex :: "nat \<Rightarrow> char" where
  "upper_hex n = (if n < 10 then char_of (48 + n) else char_of (55 + n))"

definition PathEscape :: "string \<Rightarrow> string" where
  "PathEscape s = concat (map (\<lambda>c. if path_unreserved c then [c]
     else [CHR ''%'', upper_hex (of_char c div 16), upper_hex (of_char c mod 16)]) s)"

text \<open>\<open>None\<close> is the dereference of a missing share.\<close>

definition ShortlinkRedirectPath :: "string \<Rightarrow> ShortlinkAction \<times> fileShare option \<Rightarrow> string option" where
  "ShortlinkRedirectPath token res =
     (case res of
        (ShortlinkDirect, sh) \<Rightarrow> map_option (\<lambda>share. ''/api/shares/'' @ token @ ''/files/''
            @ sh_file (fs_row share) @ ''/'' @ PathEscape (fs_name share)) sh
      | (ShortlinkZip, _) \<Rightarrow> Some (''/api/shares/'' @ token @ ''/zip'')
      | _ \<Rightarrow> Some (''/share/'' @ token))"

text \<open>The listener of the short domain (cmd/shortlink_server.go): proxy to a path, or redirect.\<close>

datatype sl_response = SLProxy string bool | SLRedirect string

definition shortlink_resolve ::
    "string \<Rightarrow> int \<Rightarrow> string \<Rightarrow> string \<Rightarrow> svc \<Rightarrow> (sl_response \<times> svc) option" where
  "shortlink_resolve baseURL now code userAgent s =
     (let base = TrimSuffix baseURL ''/''; home = SLRedirect (base @ ''/'') in
      if code = '''' then Some (home, s)
      else Option.bind (ResolveShortlink now code userAgent s) (\<lambda>(res, s). case res of
        Inl e \<Rightarrow> Some (home, s)
      | Inr (action, share) \<Rightarrow>
          Option.bind (ShortlinkRedirectPath code (action, share)) (\<lambda>path. case action of
            ShortlinkDirect \<Rightarrow> Some (SLProxy path (case share of None \<Rightarrow> False
               | Some sh \<Rightarrow> sh_password (fs_row sh) = None), s)
          | ShortlinkZip \<Rightarrow> Some (SLProxy path (case share of None \<Rightarrow> False
               | Some sh \<Rightarrow> sh_password (fs_row sh) = None), s)
          | ShortlinkViewer \<Rightarrow> Some (SLRedirect (base @ path), s)
          | ShortlinkNotFound \<Rightarrow> Some (home, s))))"

end
