(* ===== verification/ShareTheorems.thy ===== *)
theory ShareTheorems
  imports Shares
begin

text \<open>
  What the shares promise: the invariant of the table, generated codes that are valid, who gets past
  \<open>validFileShare\<close>, and how the cache shared by the lookups outlives expiry and mixes ids with codes.
\<close>

section \<open>Generated codes\<close>

lemma alphabet_list: "list_all (\<lambda>c. code_alnum c \<and> c \<noteq> CHR ''.'') shortCodeAlphabet"
  by (simp add: shortCodeAlphabet_def code_alnum_def Let_def)

lemma alphabet_char: "c \<in> set shortCodeAlphabet \<Longrightarrow> code_alnum c \<and> c \<noteq> CHR ''.''"
  using alphabet_list by (auto simp: list_all_iff)

lemma alphabet_length: "0 < length shortCodeAlphabet"
  by (simp add: shortCodeAlphabet_def)

lemma generate_alphabet: "c \<in> set (generateShortCode n buf) \<Longrightarrow> c \<in> set shortCodeAlphabet"
  using alphabet_length unfolding generateShortCode_def by (auto intro!: nth_mem)

lemma generate_length: "code_length n \<le> length buf \<Longrightarrow> length (generateShortCode n buf) = code_length n"
  by (simp add: generateShortCode_def)

lemma pattern_alnum:
  assumes "s \<noteq> []" "\<forall>c \<in> set s. code_alnum c"
  shows "shortCodePattern s"
proof (cases s)
  case (Cons c cs)
  with assms show ?thesis
    by (auto simp: shortCodePattern_def code_slug_def list_all_iff dest!: in_set_butlastD)
qed (use assms in simp)

lemma lower_char_dot: "lower_char c = CHR ''.'' \<Longrightarrow> c = CHR ''.''"
proof (cases "65 \<le> (of_char c :: nat) \<and> (of_char c :: nat) \<le> 90")
  case True
  assume h: "lower_char c = CHR ''.''"
  from True have "of_char (lower_char c) = (of_char c + 32 :: nat)"
    by (simp add: lower_char_def Let_def)
  moreover have "of_char (CHR ''.'') = (46 :: nat)" by simp
  ultimately show ?thesis using h True by simp
next
  case False
  then show "lower_char c = CHR ''.'' \<Longrightarrow> c = CHR ''.''" by (auto simp: lower_char_def Let_def)
qed

lemma ToLower_dot: "CHR ''.'' \<in> set (ToLower s) \<Longrightarrow> CHR ''.'' \<in> set s"
  unfolding ToLower_def set_map by (metis imageE lower_char_dot)

lemma reserved_long: "w \<in> set reservedShortCodes \<Longrightarrow> 7 \<le> length w \<Longrightarrow> CHR ''.'' \<in> set w"
proof -
  have "list_all (\<lambda>w. 7 \<le> length w \<longrightarrow> CHR ''.'' \<in> set w) reservedShortCodes"
    by (simp add: reservedShortCodes_def)
  then show "w \<in> set reservedShortCodes \<Longrightarrow> 7 \<le> length w \<Longrightarrow> CHR ''.'' \<in> set w"
    by (auto simp: list_all_iff)
qed

lemma generate_reserved:
  assumes "7 \<le> length (generateShortCode n buf)"
  shows "ToLower (generateShortCode n buf) \<notin> set reservedShortCodes"
proof
  assume "ToLower (generateShortCode n buf) \<in> set reservedShortCodes"
  with assms reserved_long ToLower_dot have "CHR ''.'' \<in> set (generateShortCode n buf)" by simp
  then show False using generate_alphabet alphabet_char by blast
qed

text \<open>
  A generated code is stored without being validated, and that is sound for the lengths from 7 (the
  default) to 31: it then passes every check a code chosen by a user has to pass. The parser of UUIDs accepts
  nothing shorter than 32 characters.
\<close>

theorem generateShortCode_valid:
  assumes "\<And>c. isUUID c \<Longrightarrow> 32 \<le> length c" "7 \<le> code_length n" "code_length n < 32" "code_length n \<le> length buf"
  shows "validateShortCode isUUID (generateShortCode n buf) = None"
proof -
  let ?c = "generateShortCode n buf"
  have l: "length ?c = code_length n" by (rule generate_length [OF assms(4)])
  have "shortCodePattern ?c"
    using l assms(2) generate_alphabet alphabet_char by (intro pattern_alnum) auto
  moreover have "\<not> isUUID ?c" using assms(1) [of ?c] l assms(3) by auto
  ultimately show ?thesis
    using l assms(2,3) generate_reserved [of n buf]
    by (simp add: validateShortCode_def shortCodeMinLength_def shortCodeMaxLength_def)
qed

theorem generateShortCode_valid_witness:
  "validateShortCode (\<lambda>c. length c = 36) (generateShortCode 0 [0, 1, 2, 100, 200, 255, 7]) = None"
  by (rule generateShortCode_valid) (simp_all add: code_length_def)

text \<open>Below the default length a generated code can be a reserved word.\<close>

lemma generateShortCode_reserved:
  "validateShortCode (\<lambda>_. False) (generateShortCode 5 [24, 15, 8, 23, 12]) =
     Some (EShortCodeInvalid ''this code is reserved'')"
  by (simp add: generateShortCode_def code_length_def shortCodeAlphabet_def validateShortCode_def
      shortCodeMinLength_def shortCodeMaxLength_def shortCodePattern_def code_slug_def code_alnum_def
      reservedShortCodes_def ToLower_def lower_char_def)

section \<open>The table of shares\<close>

text \<open>Distinct ids and codes; a direct link is never both blocked and forced.\<close>

definition shares_inv :: "FileShare list \<Rightarrow> bool" where
  "shares_inv rows \<longleftrightarrow> distinct (map sh_id rows) \<and> shares_ok rows
     \<and> (\<forall>sh \<in> set rows. \<not> (sh_block sh \<and> sh_always sh))"

lemma share_insert_inv:
  assumes "share_insert sh rows = Inr rows'" "shares_inv rows" "sh_id sh \<notin> sh_id ` set rows"
    "\<not> (sh_block sh \<and> sh_always sh)"
  shows "shares_inv rows'"
  using assms by (auto simp: share_insert_def shares_inv_def split: if_splits)

lemma create_share_loop_inv:
  assumes "create_share_loop n bufs sh rows = Inr rows'" "shares_inv rows" "sh_id sh \<notin> sh_id ` set rows"
    "\<not> (sh_block sh \<and> sh_always sh)"
  shows "shares_inv rows'"
  using assms(1)
proof (induction bufs)
  case (Cons buf bufs)
  show ?case
  proof (cases "share_insert (sh\<lparr> sh_code := Some (generateShortCode n buf) \<rparr>) rows")
    case (Inl e)
    with Cons show ?thesis by (simp split: if_splits)
  next
    case (Inr rows1)
    with Cons.prems have "rows1 = rows'" by simp
    with Inr share_insert_inv [OF Inr assms(2)] assms(3,4) show ?thesis by simp
  qed
qed simp

lemma FilesCreateShare_inv:
  assumes "FilesCreateShare isUUID bcrypt codeLen bufs new_id userId r fileId s = (res, s')"
    "shares_inv (sv_shares s)" "new_id \<notin> sh_id ` set (sv_shares s)"
  shows "shares_inv (sv_shares s')"
proof -
  define block where "block = Or (sc_block r) False"
  define always where "always = (if block \<and> Or (sc_always r) False then False else Or (sc_always r) False)"
  have ba: "\<not> (block \<and> always)" by (simp add: always_def)
  show ?thesis
    using assms(1,2) ba create_share_loop_inv share_insert_inv assms(3)
    unfolding FilesCreateShare_def block_def [symmetric] Let_def always_def [symmetric]
    by (auto split: sum.splits option.splits list.splits if_splits)
qed

lemma share_updates_row:
  "sh_id (share_updates r pw code sh) = sh_id sh"
  "\<not> (sh_block sh \<and> sh_always sh) \<Longrightarrow>
     \<not> (sh_block (share_updates r pw code sh) \<and> sh_always (share_updates r pw code sh))"
  by (auto simp: share_updates_def Let_def Or_def split: option.splits)

lemma apply_share_update_inv:
  assumes "apply_share_update r pw existing code rows = Inr rows'" "shares_inv rows" "existing \<in> set rows"
  shows "shares_inv rows'"
proof -
  let ?u = "update_where (\<lambda>sh. sh_id sh = sh_id existing) (\<lambda>_. share_updates r pw code existing) rows"
  have u: "rows' = ?u" "shares_ok ?u" using assms(1) by (auto simp: apply_share_update_def Let_def split: if_splits)
  have "map sh_id ?u = map sh_id rows"
    by (auto simp: update_where_def share_updates_row)
  moreover have "\<forall>sh \<in> set ?u. \<not> (sh_block sh \<and> sh_always sh)"
    using assms(2,3) share_updates_row(2) [of existing] by (auto simp: set_update_where shares_inv_def)
  ultimately show ?thesis using u assms(2) by (simp add: shares_inv_def)
qed

lemma edit_share_loop_Inr:
  "edit_share_loop upd n bufs = Inr (c, rows) \<Longrightarrow> \<exists>c. upd c = Inr rows"
  by (induction bufs) (auto simp: Let_def split: sum.splits if_splits)

lemma FilesEditShare_inv:
  assumes "FilesEditShare isUUID bcrypt codeLen bufs userId r fileId s = (res, s')" "shares_inv (sv_shares s)"
  shows "shares_inv (sv_shares s')"
proof (cases "first_where (\<lambda>sh. sh_file sh = fileId \<and> sh_user sh = userId) (sv_shares s)")
  case None
  with assms show ?thesis by (simp add: FilesEditShare_def)
next
  case (Some existing)
  have e: "existing \<in> set (sv_shares s)" using row_eqI_where [OF Some] by simp
  show ?thesis
  proof (cases "if sc_password r \<noteq> '''' then map_sum id Some (bcrypt (sc_password r)) else Inr None")
    case (Inl e)
    with assms Some show ?thesis by (simp add: FilesEditShare_def)
  next
    case (Inr pw)
    let ?upd = "\<lambda>code. apply_share_update r pw existing code (sv_shares s)"
    have inv: "?upd c = Inr rows \<Longrightarrow> shares_inv rows" for c rows
      using apply_share_update_inv [OF _ assms(2) e] by simp
    have l: "edit_share_loop (\<lambda>c. ?upd (Some c)) n bs = Inr (c, rows) \<Longrightarrow> shares_inv rows" for n bs c rows
      using edit_share_loop_Inr inv by blast
    note eq = assms(1) [unfolded FilesEditShare_def Some Inr option.case sum.case Let_def]
    consider "Or (sc_clear r) False \<or> sc_code r = None" | "\<not> Or (sc_clear r) False" "sc_code r = Some ''''"
      | c cs where "\<not> Or (sc_clear r) False" "sc_code r = Some (c # cs)"
      by (metis list.exhaust option.exhaust)
    then show ?thesis
    proof cases
      case 1
      with eq assms(2) inv [of None] show ?thesis by (cases "?upd None") (auto split: if_splits)
    next
      case 2
      with eq assms(2) l [of codeLen "take shortCodeGenRetries bufs"] show ?thesis
        by (cases "edit_share_loop (\<lambda>c. ?upd (Some c)) codeLen (take shortCodeGenRetries bufs)") auto
    next
      case 3
      with eq assms(2) inv [of "Some (c # cs)"] show ?thesis
        by (cases "?upd (Some (c # cs))") (auto split: option.splits)
    qed
  qed
qed

lemma FilesDeleteShare_shares:
  "sv_shares (snd (FilesDeleteShare userId fileId s)) =
     filter (\<lambda>sh. \<not> (sh_file sh = fileId \<and> sh_user sh = userId)) (sv_shares s)"
  by (auto simp: FilesDeleteShare_def Let_def split: option.splits)

lemma shares_inv_filter: "shares_inv rows \<Longrightarrow> shares_inv (filter P rows)"
proof -
  have "distinct (List.map_filter g xs) \<Longrightarrow> distinct (List.map_filter g (filter P xs))" for g :: "FileShare \<Rightarrow> string option" and xs
  proof (induction xs)
    case (Cons x xs)
    have "set (List.map_filter g (filter P xs)) \<subseteq> set (List.map_filter g xs)"
      by (auto simp: List.map_filter_def)
    with Cons show ?case by (auto simp: List.map_filter_simps split: option.splits)
  qed (simp add: List.map_filter_simps)
  then show "shares_inv rows \<Longrightarrow> shares_inv (filter P rows)"
    by (auto simp: shares_inv_def shares_ok_def distinct_map_filter)
qed

text \<open>
  Creating, editing and deleting a share, whatever the outcome, keep the ids and the short codes distinct
  and never leave a share whose direct link is both blocked and forced. Ids come fresh from the database.
\<close>

theorem shares_ops_inv:
  assumes "shares_inv (sv_shares s)" "new_id \<notin> sh_id ` set (sv_shares s)"
  shows "shares_inv (sv_shares (snd (FilesCreateShare isUUID bcrypt codeLen bufs new_id userId r fileId s)))
    \<and> shares_inv (sv_shares (snd (FilesEditShare isUUID bcrypt codeLen bufs userId r fileId s)))
    \<and> shares_inv (sv_shares (snd (FilesDeleteShare userId fileId s)))"
  using FilesCreateShare_inv [OF surjective_pairing assms] FilesEditShare_inv [OF surjective_pairing assms(1)]
    shares_inv_filter [OF assms(1)] by (simp add: FilesDeleteShare_shares)

section \<open>Access\<close>

lemma fetch_share_cases:
  assumes "fetch_share lookup k s = Some (Inr share, s')"
  shows "(sv_cache s (KeyShare k) = Some (CShare share) \<and> s' = s)
    \<or> (sv_cache s (KeyShare k) = None \<and> lookup s k = Some (Inr share)
       \<and> s' = s\<lparr> sv_cache := (sv_cache s)(KeyShare k \<mapsto> CShare share) \<rparr>)"
  using assms
  by (cases "lookup s k"; cases "the (lookup s k)")
    (auto simp: fetch_share_def cm_Get_def cm_Set_def split: option.splits cval.splits)

lemma fetch_share_hit: "sv_cache s (KeyShare k) = Some (CShare share) \<Longrightarrow> fetch_share lookup k s = Some (Inr share, s)"
  by (simp add: fetch_share_def cm_Get_def)

lemma shareGetByColumn_ok:
  assumes "shareGetByColumn now s col v = Some (Inr share)"
  shows "fs_row share \<in> set (sv_shares s)"
    "(case col of ColId \<Rightarrow> sh_id (fs_row share) = v | ColCode \<Rightarrow> sh_code (fs_row share) = Some v)"
    "sh_expires (fs_row share) = Some t \<Longrightarrow> now \<le> t"
proof -
  let ?P = "\<lambda>sh. (case col of ColId \<Rightarrow> sh_id sh = v | ColCode \<Rightarrow> sh_code sh = Some v)"
  obtain sh where sh: "first_where ?P (sv_shares s) = Some sh"
    using assms by (auto simp: shareGetByColumn_def split: option.splits)
  with assms have f: "fs_row share = sh" "\<not> (case sh_expires sh of None \<Rightarrow> False | Some t \<Rightarrow> t < now)"
    by (auto simp: shareGetByColumn_def Let_def split: if_splits)
  from row_eqI_where [OF sh] f show "fs_row share \<in> set (sv_shares s)"
    "(case col of ColId \<Rightarrow> sh_id (fs_row share) = v | ColCode \<Rightarrow> sh_code (fs_row share) = Some v)"
    by (simp_all split: share_column.splits)
  from f show "sh_expires (fs_row share) = Some t \<Longrightarrow> now \<le> t" by auto
qed

lemma shareGetById_ok:
  assumes "shareGetById isUUID now s i = Some (Inr share)"
  shows "fs_row share \<in> set (sv_shares s)"
    "(if isUUID i then sh_id (fs_row share) = i else sh_code (fs_row share) = Some i)"
    "sh_expires (fs_row share) = Some t \<Longrightarrow> now \<le> t"
  using assms shareGetByColumn_ok [of now s ColId i share] shareGetByColumn_ok [of now s ColCode i share]
  by (auto simp: shareGetById_def split: if_splits)

text \<open>The credentials of the header open the share.\<close>

definition opens :: "(string \<Rightarrow> string \<Rightarrow> bool) \<Rightarrow> string \<Rightarrow> fileShare \<Rightarrow> bool" where
  "opens compare_hash authHeader share \<longleftrightarrow>
     (case sh_password (fs_row share) of None \<Rightarrow> True
      | Some h \<Rightarrow> \<exists>creds user password rest. authHeader \<noteq> '''' \<and>
          DecodeString (TrimPrefix authHeader ''Basic '') = Some creds \<and>
          Split creds CHR '':'' = user # password # rest \<and> compare_hash h password)"

lemma validFileShare_iff:
  "validFileShare isUUID compare_hash now authHeader i s = Some (Inr share, s') \<longleftrightarrow>
     fetch_share (shareGetById isUUID now) i s = Some (Inr share, s') \<and> opens compare_hash authHeader share"
  by (cases "fetch_share (shareGetById isUUID now) i s")
    (auto simp: validFileShare_def opens_def split: option.splits list.splits sum.splits if_splits)


text \<open>
  What the cache keeps. Entries of shares have no lifetime, and both kinds of lookup use the same key: once a
  request for an id or code was accepted, every later request with the same credentials is, whatever the time
  and whatever happened to the tables, until the key is deleted, and the short link resolver, meant
  for codes only, resolves it as well.
\<close>

theorem cached_share_outlives:
  assumes "validFileShare isUUID compare_hash now authHeader i s = Some (Inr share, s')"
    and "sv_cache t (KeyShare i) = sv_cache s' (KeyShare i)"
  shows "validFileShare isUUID compare_hash now' authHeader i t = Some (Inr share, t)
    \<and> ResolveShortlink now' i userAgent t = Some (Inr (decide share (LooksLikeBrowser userAgent), Some share), t)"
proof -
  from assms(1) have f: "fetch_share (shareGetById isUUID now) i s = Some (Inr share, s')"
    and o: "opens compare_hash authHeader share" by (simp_all add: validFileShare_iff)
  have "sv_cache t (KeyShare i) = Some (CShare share)"
    using fetch_share_cases [OF f] assms(2) by auto
  with o show ?thesis by (simp add: validFileShare_iff fetch_share_hit ResolveShortlink_def)
qed

section \<open>Witnesses\<close>

text \<open>A folder and its sibling; a share of the folder with an id, no code, a lifetime and a password.\<close>

definition share_rows :: "FileRow list" where
  "share_rows = [mk_row ''r'' ''root'' FOLDER 1 None, mk_row ''d'' ''docs'' FOLDER 1 (Some ''r''),
     mk_row ''e'' ''docs2'' FOLDER 1 (Some ''r''), mk_row ''f'' ''a.txt'' FILE 1 (Some ''d''),
     mk_row ''g'' ''secret.txt'' FILE 1 (Some ''e'')]"

definition demo_share :: FileShare where
  "demo_share = \<lparr> sh_id = ''3f'', sh_file = ''d'', sh_password = Some ''pw'', sh_expires = Some 10, sh_code = None,
     sh_block = False, sh_always = False, sh_zip = True, sh_user = 1 \<rparr>"

definition share_svc :: svc where
  "share_svc = \<lparr> sv_files = share_rows, sv_uploads = [], sv_shares = [demo_share], sv_cache = (\<lambda>_. None), sv_events = [] \<rparr>"

definition demo_fileShare :: fileShare where
  "demo_fileShare = \<lparr> fs_row = demo_share, fs_type = FOLDER, fs_name = ''docs'', fs_path = ''/docs'' \<rparr>"

definition share_svc' :: svc where
  "share_svc' = share_svc\<lparr> sv_cache := (\<lambda>_. None)(KeyShare ''3f'' \<mapsto> CShare demo_fileShare) \<rparr>"

lemma share_path: "getFullPath share_rows ''d'' = Some ''/docs''"
  by (simp add: getFullPath_def path_tree.simps share_rows_def mk_row_simps row_by_id_def first_where_def
      HasPrefix_def TrimPrefix_def Let_def)

text \<open>\<open>YTpwdw==\<close> is \<open>a:pw\<close>.\<close>

lemma share_valid:
  "validFileShare (\<lambda>i. i = ''3f'') (=) 5 ''Basic YTpwdw=='' ''3f'' share_svc = Some (Inr demo_fileShare, share_svc')"
proof -
  have "shareGetById (\<lambda>i. i = ''3f'') 5 share_svc ''3f'' = Some (Inr demo_fileShare)"
    using share_path
    by (simp add: shareGetById_def shareGetByColumn_def share_svc_def first_where_def demo_share_def
        row_by_id_def demo_fileShare_def share_rows_def mk_row_simps Let_def)
  then have "fetch_share (shareGetById (\<lambda>i. i = ''3f'') 5) ''3f'' share_svc = Some (Inr demo_fileShare, share_svc')"
    by (simp add: fetch_share_def cm_Get_def cm_Set_def share_svc_def share_svc'_def)
  moreover have "DecodeString ''YTpwdw=='' = Some ''a:pw''"
    by code_simp
  then have "opens (=) ''Basic YTpwdw=='' demo_fileShare"
    by (simp add: opens_def demo_fileShare_def demo_share_def TrimPrefix_def HasPrefix_def)
  ultimately show ?thesis by (simp add: validFileShare_iff)
qed

theorem shares_ops_inv_witness:
  "shares_inv (sv_shares (snd (FilesDeleteShare 1 ''d'' share_svc)))"
proof -
  have "shares_inv (sv_shares share_svc)" "''new'' \<notin> sh_id ` set (sv_shares share_svc)"
    by (simp_all add: shares_inv_def shares_ok_def List.map_filter_simps share_svc_def demo_share_def)
  from shares_ops_inv [OF this] show ?thesis by blast
qed


text \<open>After its end and its deletion, the share is served, and its id resolves as a short link.\<close>

theorem cached_share_outlives_witness:
  "validFileShare (\<lambda>i. i = ''3f'') (=) 1000 ''Basic YTpwdw=='' ''3f'' (share_svc'\<lparr> sv_shares := [] \<rparr>)
     = Some (Inr demo_fileShare, share_svc'\<lparr> sv_shares := [] \<rparr>)
   \<and> ResolveShortlink 1000 ''3f'' ''curl/8.0'' (share_svc'\<lparr> sv_shares := [] \<rparr>)
     = Some (Inr (ShortlinkZip, Some demo_fileShare), share_svc'\<lparr> sv_shares := [] \<rparr>)"
proof -
  have "decide demo_fileShare (LooksLikeBrowser ''curl/8.0'') = ShortlinkZip"
    by (simp add: decide_def demo_fileShare_def demo_share_def LooksLikeBrowser_def knownDirectClients_def
        ToLower_def lower_char_def Let_def HasPrefix_def)
  with cached_share_outlives [OF share_valid, of "share_svc'\<lparr> sv_shares := [] \<rparr>" 1000 "''curl/8.0''"]
  show ?thesis by simp
qed

end
