(* ===== verification/ShareListing.thy ===== *)
theory ShareListing
  imports ShareTheorems
begin

text \<open>
  What a visitor of a shared folder can list: the handler glues the requested path to the path of the share
  and resolves the result. For paths that start with a slash the listing stays in the shared folder;
  for others it can leave it.
\<close>

section \<open>Resolving below a folder\<close>

lemma descend_append: "descend rows ids (ms @ ns) = descend rows (descend rows ids ms) ns"
  by (induction ms arbitrary: ids) auto

lemma descend_subtree:
  "set ids \<subseteq> subtree rows S \<Longrightarrow> set (descend rows ids ns) \<subseteq> subtree rows S"
proof (induction ns arbitrary: ids)
  case (Cons n ns)
  have "set (child_ids rows n ids) \<subseteq> subtree rows S"
    using Cons.prems by (auto simp: child_ids_def intro: subtree.step)
  then show ?case by (simp add: Cons.IH)
qed simp

lemma Split_append: "Split (a @ c # b) c = Split a c @ Split b c"
proof (induction a)
  case (Cons d a)
  then show ?case by (cases "Split a c") (auto split: list.splits)
qed simp

lemma TrimLeftC_append: "a \<noteq> [] \<Longrightarrow> hd a \<noteq> c \<Longrightarrow> TrimLeftC (a @ b) c = a @ b"
  by (cases a) (simp_all add: TrimLeftC_def)

lemma trim_right_append:
  assumes "a \<noteq> []" "last a \<noteq> c"
  shows "rev (TrimLeftC (rev (a @ b)) c) = a @ rev (TrimLeftC (rev b) c)"
proof -
  obtain d a' where "rev a = d # a'" "d \<noteq> c"
    using assms by (cases a rule: rev_cases) auto
  then have "dropWhile (\<lambda>d. d = c) (rev b @ rev a) = dropWhile (\<lambda>d. d = c) (rev b) @ rev a"
    by (induction "rev b" arbitrary: b) (auto simp: dropWhile_append)
  then show ?thesis by (simp add: TrimLeftC_def)
qed

lemma trim_right_head: "b = [] \<or> hd b = c \<Longrightarrow> rev (TrimLeftC (rev b) c) = [] \<or> hd (rev (TrimLeftC (rev b) c)) = c"
proof -
  assume h: "b = [] \<or> hd b = c"
  obtain k where "rev (TrimLeftC (rev b) c) = take k b"
    unfolding TrimLeftC_def by (metis dropWhile_eq_drop rev_drop rev_rev_ident)
  then show ?thesis using h by (cases b; cases k) auto
qed

lemma trim_right_last: "rev (TrimLeftC (rev b) c) = [] \<or> last (rev (TrimLeftC (rev b) c)) \<noteq> c"
  unfolding TrimLeftC_def last_rev by (metis (mono_tags) hd_dropWhile rev.simps(1))

text \<open>The parts of a share's path with a path glued to it that is empty or starts with a slash.\<close>

lemma path_parts_glued:
  assumes "ns \<noteq> []" "\<forall>n \<in> set ns. name_ok n" "p = '''' \<or> hd p = CHR ''/''"
  shows "\<exists>rest. path_parts (''/root/'' @ TrimC (CHR ''/'' # Join ns ''/'' @ p) CHR ''/'') = ''root'' # ns @ rest"
proof -
  define t where "t = rev (TrimLeftC (rev p) CHR ''/'')"
  let ?J = "Join ns ''/''"
  note e = Join_ends [OF assms(1,2)]
  have "TrimC (CHR ''/'' # ?J @ p) CHR ''/'' = rev (TrimLeftC (rev (?J @ p)) CHR ''/'')"
    using e TrimLeftC_append [of ?J "CHR ''/''" p] unfolding TrimC_slash by (simp add: TrimC_def)
  also have "\<dots> = ?J @ t" unfolding t_def using e by (intro trim_right_append) auto
  finally have j: "TrimC (CHR ''/'' # ?J @ p) CHR ''/'' = ?J @ t" .
  have th: "t = [] \<or> hd t = CHR ''/''" using assms(3) trim_right_head unfolding t_def by blast
  have tl: "t = [] \<or> last t \<noteq> CHR ''/''" unfolding t_def by (rule trim_right_last)
  have "TrimC (''root/'' @ ?J @ t) CHR ''/'' = ''root/'' @ ?J @ t"
    using e tl by (intro TrimC_id) (auto simp: last_append)
  then have "TrimC (''/root/'' @ ?J @ t) CHR ''/'' = ''root'' @ CHR ''/'' # ?J @ t"
    using TrimC_slash [of "CHR ''/''" "''root/'' @ ?J @ t"] by simp
  then have "path_parts (''/root/'' @ ?J @ t) = ''root'' # Split (?J @ t) CHR ''/''"
    using Split_append [of "''root''" "CHR ''/''" "?J @ t"] by (simp add: path_parts_def Let_def)
  moreover have "\<exists>rest. Split (?J @ t) CHR ''/'' = ns @ rest"
  proof -
    have s: "Split ?J CHR ''/'' = ns" using Split_Join assms(1,2) by (auto simp: name_ok_def)
    show ?thesis
    proof (cases t)
      case Nil
      with s show ?thesis by simp
    next
      case (Cons c u)
      with th Split_append [of ?J "CHR ''/''" u] s show ?thesis by simp
    qed
  qed
  ultimately show ?thesis unfolding j by auto
qed

lemma not_root_prefix:
  assumes "\<not> HasPrefix a ''/root''" "p = '''' \<or> hd p = CHR ''/''" "2 \<le> length a"
  shows "\<not> HasPrefix (a @ p) ''/root''"
proof
  assume "HasPrefix (a @ p) ''/root''"
  then obtain t where t: "a @ p = ''/root'' @ t" by (auto simp: HasPrefix_iff)
  have n: "a \<noteq> ''/root'' @ u" for u using assms(1) by (metis HasPrefix_append)
  from t [unfolded append_eq_append_conv2] consider u where "a = ''/root'' @ u"
    | u where "''/root'' = a @ u" "p = u @ t" by metis
  then show False
  proof cases
    case 1
    with n show ?thesis by blast
  next
    case 2
    have "u \<noteq> ''''" using 2(1) n [of "''''"] by auto
    from 2 have "u = drop (length a) ''/root''" by (metis append_eq_conv_conj)
    moreover have "CHR ''/'' \<in> set u" using 2 assms(2) \<open>u \<noteq> ''''\<close> by (cases u) auto
    moreover obtain k where k: "length a = Suc k" using assms(3) by (cases a) auto
    ultimately have "CHR ''/'' \<in> set (drop k ''root'')" by simp
    then show False by (auto dest: in_set_dropD)
  qed
qed

section \<open>The listing\<close>

lemma resolve_glued:
  assumes inv: "unique_ids rows" "unique_active rows" "same_user rows"
    and p: "active_path rows uid d (''root'' # ns)" "ns \<noteq> []" "\<forall>n \<in> set ns. name_ok n"
    and a: "\<not> HasPrefix (CHR ''/'' # Join ns ''/'') ''/root''" "q = '''' \<or> hd q = CHR ''/''"
    and r: "resolvePathID rows ((CHR ''/'' # Join ns ''/'') @ q) uid = Some i"
  shows "i \<in> subtree rows {d}"
proof -
  let ?path = "(CHR ''/'' # Join ns ''/'') @ q"
  have "2 \<le> length (CHR ''/'' # Join ns ''/'')" using Join_ends [OF p(2,3)] by (cases "Join ns ''/''") auto
  then have n: "\<not> HasPrefix ?path ''/root''" using not_root_prefix [OF a] by simp
  obtain rest where rest: "path_parts (''/root/'' @ TrimC ?path CHR ''/'') = ''root'' # ns @ rest"
    using path_parts_glued [OF p(2,3) a(2)] by auto
  have d: "descend rows (root_ids rows uid ''root'') ns = [d]"
    using descend_active_path [OF inv p(1)] by simp
  have "i \<in> set (descend rows (root_ids rows uid ''root'') (ns @ rest))"
    using r n rest by (auto simp: resolvePathID_def Let_def split: list.splits if_splits)
  then have "i \<in> set (descend rows [d] rest)" by (simp add: descend_append d)
  then show ?thesis using descend_subtree [of "[d]" rows "{d}" rest] by (auto intro: subtree.base)
qed

lemma buildFileQuery_rows: "set (fst (buildFileQuery c q rows)) \<subseteq> {f \<in> set rows. c f}"
  by (auto simp: buildFileQuery_def Let_def dest: in_set_takeD)

lemma ToFileOut_id: "ToFileOut f = Some ob \<Longrightarrow> o_id ob = f_id f"
  by (auto simp: ToFileOut_def split: option.splits)

lemma qb_execute_rows:
  assumes "qb_execute search path_of q uid s = Some (Inr out)" "q_operation q = OpList" "it \<in> set (fl_items out)"
  shows "\<exists>f \<in> set (sv_files s). o_id it = f_id f \<and> f_user f = uid \<and> f_status f = q_status q
    \<and> applyListFilters (if q_path q = '''' then None else resolvePathID (sv_files s) (q_path q) uid) q f"
proof -
  let ?r = "if q_path q = '''' then None else resolvePathID (sv_files s) (q_path q) uid"
  let ?c = "file_conditions search ?r [] (map sh_file (filter (\<lambda>sh. sh_user sh = uid) (sv_shares s))) q uid"
  obtain res total where b: "buildFileQuery ?c q (sv_files s) = (res, total)" by fastforce
  with assms have l: "list_all (\<lambda>f. ToFileOut f \<noteq> None) res"
    and i: "fl_items out = map (\<lambda>f. (the (ToFileOut f))\<lparr> o_path := Some (path_of (f_id f)) \<rparr>) res"
    by (auto simp: qb_execute_def Let_def split: if_splits)
  from i assms(3) obtain f where f: "f \<in> set res" "it = (the (ToFileOut f))\<lparr> o_path := Some (path_of (f_id f)) \<rparr>"
    by auto
  from f(1) l obtain ob where "ToFileOut f = Some ob" by (auto simp: list_all_iff)
  with f(2) ToFileOut_id have "o_id it = f_id f" by auto
  moreover have "f \<in> set (sv_files s)" "?c f"
    using buildFileQuery_rows [of ?c q "sv_files s"] b f(1) by auto
  ultimately show ?thesis using assms(2) unfolding file_conditions_def by auto
qed

text \<open>
  A visitor stays inside. For a shared folder below the owner's root, whose path does not begin with
  \<open>/root\<close>, and a requested path that is empty or starts with a slash, every listed entry is an active file or folder
  whose parent is the shared folder or a folder below it.
\<close>

theorem SharesListFiles_within:
  assumes "unique_ids (sv_files s)" "unique_active (sv_files s)" "same_user (sv_files s)"
    and "validFileShare isUUID compare_hash now authHeader i s = Some (Inr share, s1)"
    and "fs_type share = FOLDER"
    and "active_path (sv_files s) (sh_user (fs_row share)) (sh_file (fs_row share)) (''root'' # ns)"
    and "ns \<noteq> []" "\<forall>n \<in> set ns. name_ok n"
    and "fs_path share = CHR ''/'' # Join ns ''/''" "\<not> HasPrefix (fs_path share) ''/root''"
    and "sl_path p = '''' \<or> hd (sl_path p) = CHR ''/''"
    and "SharesListFiles isUUID compare_hash path_of now authHeader i p s = Some (Inr out, s2)"
    and "it \<in> set (fl_items out)"
  shows "\<exists>f \<in> set (sv_files s). o_id it = f_id f \<and> f_status f = ACTIVE
    \<and> (\<exists>d \<in> subtree (sv_files s) {sh_file (fs_row share)}. f_parent f = Some d)"
proof -
  have s1: "sv_files s1 = sv_files s"
    using assms(4) unfolding validFileShare_iff by (auto dest!: fetch_share_cases)
  let ?path = "(CHR ''/'' # Join ns ''/'') @ sl_path p"
  define q where "q = \<lparr> q_status = ACTIVE, q_operation = OpList, q_path = fs_path share @ sl_path p, q_parent = '''',
    q_deep = False, q_query = '''', q_search = SearchOther, q_updated = '''', q_category = [],
    q_name = '''', q_type = '''', q_shared = False, q_starred = None, q_sort = sl_sort p,
    q_order = sl_order p, q_limit = sl_limit p, q_page = sl_page p \<rparr>"
  have q: "q_operation q = OpList" "q_path q = ?path" "q_parent q = ''''" "q_status q = ACTIVE"
    by (simp_all add: q_def assms(9))
  have e: "qb_execute (\<lambda>_ _ _. False) path_of q (sh_user (fs_row share)) s1 = Some (Inr out)"
    using assms(4,5,12) by (auto simp: SharesListFiles_def q_def)
  from qb_execute_rows [OF e q(1) assms(13)] q s1 obtain f where
    f: "f \<in> set (sv_files s)" "o_id it = f_id f" "f_status f = ACTIVE"
      "applyListFilters (resolvePathID (sv_files s) ?path (sh_user (fs_row share))) q f" by auto
  then obtain d where "resolvePathID (sv_files s) ?path (sh_user (fs_row share)) = Some d" "f_parent f = Some d"
    using q by (auto simp: applyListFilters_def parent_cond_def split: option.splits)
  with resolve_glued [OF assms(1-3,6-8) _ assms(11)] assms(9,10) f show ?thesis by auto
qed

section \<open>Witnesses\<close>

definition list_at :: "string \<Rightarrow> share_list_params" where
  "list_at p = \<lparr> sl_path = p, sl_limit = 10, sl_page = 1, sl_order = Asc, sl_sort = SortName \<rparr>"

definition listed :: "FileRow \<Rightarrow> FileList" where
  "listed f = \<lparr> fl_items = [(the (ToFileOut f))\<lparr> o_path := Some '''' \<rparr>], fl_count = 1, fl_pages = Some 1, fl_page = 1 \<rparr>"

definition share_query :: "string \<Rightarrow> FilesListParams" where
  "share_query path = \<lparr> q_status = ACTIVE, q_operation = OpList, q_path = path, q_parent = '''', q_deep = False,
     q_query = '''', q_search = SearchOther, q_updated = '''', q_category = [], q_name = '''', q_type = '''',
     q_shared = False, q_starred = None, q_sort = SortName, q_order = Asc, q_limit = 10, q_page = 1 \<rparr>"

lemma list_one:
  assumes "path \<noteq> ''''" "resolvePathID (sv_files s) path uid = Some d" "ToFileOut f \<noteq> None"
    "filter (\<lambda>f. f_user f = uid \<and> f_status f = ACTIVE \<and> f_parent f = Some d) (sv_files s) = [f]"
  shows "qb_execute (\<lambda>_ _ _. False) (\<lambda>_. '''') (share_query path) uid s = Some (Inr (listed f))"
proof -
  have c: "file_conditions (\<lambda>_ _ _. False) (Some d) [] sh (share_query path) uid
      = (\<lambda>f. f_user f = uid \<and> f_status f = ACTIVE \<and> f_parent f = Some d)" for sh
    using assms(1) by (auto simp: fun_eq_iff file_conditions_def applyListFilters_def parent_cond_def share_query_def)
  have o: "order_operation (share_query path) (sort_val SortName f) (sort_val SortName f)"
    by (simp add: order_operation_def share_query_def getValidOrderDirection_def)
  have "filter (\<lambda>g. order_operation (share_query path) (sort_val SortName g) (sort_val SortName f)
      \<and> f_user g = uid \<and> f_status g = ACTIVE \<and> f_parent g = Some d) (sv_files s)
    = filter (\<lambda>g. order_operation (share_query path) (sort_val SortName g) (sort_val SortName f)) [f]"
    unfolding assms(4) [symmetric] filter_filter by (rule filter_cong) auto
  with o have "buildFileQuery (\<lambda>f. f_user f = uid \<and> f_status f = ACTIVE \<and> f_parent f = Some d) (share_query path) (sv_files s)
      = ([f], 1)"
    using assms(4) unfolding buildFileQuery_def
    by (simp add: share_query_def getValidSortField_def getValidOrderDirection_def order_rows_def rank_value_def Let_def)
  with c assms(1-3) show ?thesis
    by (simp add: qb_execute_def Let_def share_query_def listed_def)
qed

lemma list_share_svc:
  assumes "resolvePathID share_rows (''/docs'' @ p) 1 = Some d" "ToFileOut f \<noteq> None"
    "filter (\<lambda>f. f_user f = 1 \<and> f_status f = ACTIVE \<and> f_parent f = Some d) share_rows = [f]"
  shows "SharesListFiles (\<lambda>i. i = ''3f'') (=) (\<lambda>_. '''') 5 ''Basic YTpwdw=='' ''3f'' (list_at p) share_svc
     = Some (Inr (listed f), share_svc')"
proof -
  have "sv_files share_svc' = share_rows" by (simp add: share_svc'_def share_svc_def)
  then have "qb_execute (\<lambda>_ _ _. False) (\<lambda>_. '''') (share_query (''/docs'' @ p)) 1 share_svc' = Some (Inr (listed f))"
    using assms by (intro list_one) simp_all
  then show ?thesis
    using share_valid by (simp add: SharesListFiles_def share_query_def list_at_def demo_fileShare_def demo_share_def)
qed

definition doc_row :: FileRow where "doc_row = mk_row ''f'' ''a.txt'' FILE 1 (Some ''d'')"

definition secret_row :: FileRow where "secret_row = mk_row ''g'' ''secret.txt'' FILE 1 (Some ''e'')"

lemma list_docs:
  "SharesListFiles (\<lambda>i. i = ''3f'') (=) (\<lambda>_. '''') 5 ''Basic YTpwdw=='' ''3f'' (list_at '''') share_svc
     = Some (Inr (listed doc_row), share_svc')"
proof (rule list_share_svc)
  show "resolvePathID share_rows (''/docs'' @ '''') 1 = Some ''d''" by code_simp
qed (simp_all add: share_rows_def mk_row_simps doc_row_def ToFileOut_def)

text \<open>
  A path that does not start with a slash is glued to the name of the shared folder: a visitor of the share of
  \<open>/docs\<close> asks for \<open>2\<close> and gets the files of \<open>/docs2\<close>, which was never shared.
\<close>

theorem SharesListFiles_sibling:
  "SharesListFiles (\<lambda>i. i = ''3f'') (=) (\<lambda>_. '''') 5 ''Basic YTpwdw=='' ''3f'' (list_at ''2'') share_svc
     = Some (Inr (listed secret_row), share_svc')
   \<and> ''e'' \<notin> subtree (sv_files share_svc) {''d''}"
proof
  have c: "f_parent f \<noteq> Some ''f'' \<and> (f_parent f = Some ''d'' \<longrightarrow> f_id f = ''f'')" if "f \<in> set share_rows" for f
    using that by (auto simp: share_rows_def mk_row_simps)
  have "i = ''d'' \<or> i = ''f''" if "i \<in> subtree share_rows {''d''}" for i
    using that by (induction rule: subtree.induct) (use c in auto)
  then show "''e'' \<notin> subtree (sv_files share_svc) {''d''}" by (auto simp: share_svc_def)
  show "SharesListFiles (\<lambda>i. i = ''3f'') (=) (\<lambda>_. '''') 5 ''Basic YTpwdw=='' ''3f'' (list_at ''2'') share_svc
     = Some (Inr (listed secret_row), share_svc')"
  proof (rule list_share_svc)
    show "resolvePathID share_rows (''/docs'' @ ''2'') 1 = Some ''e''" by code_simp
  qed (simp_all add: share_rows_def mk_row_simps secret_row_def ToFileOut_def)
qed

lemma share_rows_inv: "unique_ids share_rows" "unique_active share_rows" "same_user share_rows"
  by (simp_all add: unique_ids_def unique_active_def same_user_def share_rows_def mk_row_simps)

lemma share_folder: "active_path share_rows 1 ''d'' (''root'' # [''docs''])"
proof -
  have "active_path share_rows 1 ''r'' [''root'']"
    using active_path.root [of "mk_row ''r'' ''root'' FOLDER 1 None" share_rows 1]
    by (simp add: share_rows_def mk_row_simps)
  then show ?thesis
    using active_path.child [of share_rows 1 "''r''" "[''root'']" "mk_row ''d'' ''docs'' FOLDER 1 (Some ''r'')"]
    by (simp add: share_rows_def mk_row_simps)
qed

theorem SharesListFiles_within_witness:
  "\<exists>f \<in> set share_rows. ''f'' = f_id f \<and> f_status f = ACTIVE
     \<and> (\<exists>d \<in> subtree share_rows {''d''}. f_parent f = Some d)"
proof -
  have s: "sv_files share_svc = share_rows" by (simp add: share_svc_def)
  let ?o = "(the (ToFileOut doc_row))\<lparr> o_path := Some '''' \<rparr>"
  have o: "?o \<in> set (fl_items (listed doc_row))" "o_id ?o = ''f''"
    by (simp_all add: listed_def doc_row_def mk_row_simps ToFileOut_def)
  have d: "fs_type demo_fileShare = FOLDER" "sh_user (fs_row demo_fileShare) = 1" "sh_file (fs_row demo_fileShare) = ''d''"
    "fs_path demo_fileShare = CHR ''/'' # Join [''docs''] ''/''"
    "\<not> HasPrefix (fs_path demo_fileShare) ''/root''" "sl_path (list_at '''') = ''''"
    by (simp_all add: demo_fileShare_def demo_share_def HasPrefix_def list_at_def)
  have "\<exists>f \<in> set (sv_files share_svc). o_id ?o = f_id f \<and> f_status f = ACTIVE
      \<and> (\<exists>x \<in> subtree (sv_files share_svc) {sh_file (fs_row demo_fileShare)}. f_parent f = Some x)"
    by (rule SharesListFiles_within [OF _ _ _ share_valid d(1) _ _ _ d(4,5) _ list_docs o(1)])
      (simp_all add: s share_rows_inv d share_folder name_ok_def del: d(4))
  then show ?thesis unfolding s o(2) d(3) .
qed

end
