(* ===== verification/ZipShare.thy ===== *)
theory ZipShare
  imports ShareListing TgMessages
begin

text \<open>
  Zip downloads (pkg/services/file.go): collecting the files below the requested ids, the checks of the
  handlers, the names of the entries and the stream of the archive. bots, clients and the reader of a part are
  parameters; a slot of \<open>zipSlots\<close> is a count of the archives being streamed.
\<close>

section \<open>Collecting files\<close>

text \<open>The state of one round: the ids processed, the files found, the ids of the next round.\<close>

fun collect_batch ::
    "FileRow list \<Rightarrow> int \<Rightarrow> FileRow list \<Rightarrow> string list \<times> FileRow list \<times> string list
     \<Rightarrow> string list \<times> FileRow list \<times> string list" where
  "collect_batch rows uid [] st = st"
| "collect_batch rows uid (file # found) (processed, files, next) =
     (if f_id file \<in> set processed then collect_batch rows uid found (processed, files, next)
      else if f_type file = FILE then collect_batch rows uid found (f_id file # processed, files @ [file], next)
      else if f_type file = FOLDER then
        collect_batch rows uid found (f_id file # processed, files,
          next @ map f_id (filter (\<lambda>c. f_parent c = Some (f_id file) \<and> f_user c = uid \<and> f_status c = ACTIVE) rows))
      else collect_batch rows uid found (f_id file # processed, files, next))"

definition current_batch :: "FileRow list \<Rightarrow> int \<Rightarrow> string list \<Rightarrow> FileRow list" where
  "current_batch rows uid ids = filter (\<lambda>f. f_id f \<in> set ids \<and> f_user f = uid \<and> f_status f = ACTIVE) rows"

text \<open>A round marks an id or finds nothing to go on with.\<close>

lemma collect_batch_progress:
  "collect_batch rows uid found (pr, fs, nx) = (pr', fs', nx') \<Longrightarrow>
     set pr \<subseteq> set pr' \<and> set pr' = set pr \<union> f_id ` set found \<and> (set pr' = set pr \<longrightarrow> nx' = nx)"
proof (induction found arbitrary: pr fs nx)
  case (Cons f found)
  show ?case
  proof (cases "f_id f \<in> set pr")
    case True
    with Cons.IH [of pr fs nx] Cons.prems show ?thesis by auto
  next
    case False
    obtain fs1 nx1 where r: "collect_batch rows uid found (f_id f # pr, fs1, nx1) = (pr', fs', nx')"
      using Cons.prems False by (auto split: if_splits)
    from Cons.IH [OF r] False show ?thesis by auto
  qed
qed simp

function collect_loop ::
    "FileRow list \<Rightarrow> int \<Rightarrow> string list \<Rightarrow> string list \<Rightarrow> FileRow list \<Rightarrow> FileRow list" where
  "collect_loop rows uid toProcess processed files =
     (if toProcess = [] then files
      else let (processed', files', next) = collect_batch rows uid (current_batch rows uid toProcess) (processed, files, [])
           in collect_loop rows uid next processed' files')"
  by pat_completeness auto

termination
proof (relation "measures [\<lambda>(rows, uid, ids, pr, fs). card (f_id ` set rows - set pr), \<lambda>(rows, uid, ids, pr, fs). length ids]")
  fix rows uid toProcess processed files x processed' y files' nx
  assume ne: "toProcess \<noteq> []"
    and x: "x = collect_batch rows uid (current_batch rows uid toProcess) (processed, files, [])"
    and "(processed', y) = x" "(files', nx) = y"
  then have c: "collect_batch rows uid (current_batch rows uid toProcess) (processed, files, []) = (processed', files', nx)"
    by simp
  note p = collect_batch_progress [OF c]
  have sub: "f_id ` set (current_batch rows uid toProcess) \<subseteq> f_id ` set rows" by (auto simp: current_batch_def)
  show "((rows, uid, nx, processed', files'), rows, uid, toProcess, processed, files)
      \<in> measures [\<lambda>(rows, uid, ids, pr, fs). card (f_id ` set rows - set pr), \<lambda>(rows, uid, ids, pr, fs). length ids]"
  proof (cases "set processed' = set processed")
    case True
    with p have "nx = []" by blast
    with True ne show ?thesis by simp
  next
    case False
    from p have s: "set processed \<subseteq> set processed'" by blast
    with False obtain i where i: "i \<in> set processed'" "i \<notin> set processed" by blast
    with p sub have "i \<in> f_id ` set rows" by auto
    with i have "i \<in> f_id ` set rows - set processed" "i \<notin> f_id ` set rows - set processed'" by auto
    with s have "f_id ` set rows - set processed' \<subset> f_id ` set rows - set processed" by blast
    then have "card (f_id ` set rows - set processed') < card (f_id ` set rows - set processed)"
      by (intro psubset_card_mono) auto
    then show ?thesis by simp
  qed
qed simp

declare collect_loop.simps [simp del]

definition collectFilesRecursive :: "FileRow list \<Rightarrow> string list \<Rightarrow> int \<Rightarrow> FileRow list" where
  "collectFilesRecursive rows ids userId = collect_loop rows userId ids [] []"

section \<open>Names and limits\<close>

text \<open>Up to the root folder; \<open>None\<close> is a cycle of parents.\<close>

partial_function (option) relative_parts ::
    "FileRow list \<Rightarrow> string \<Rightarrow> string \<Rightarrow> string list \<Rightarrow> (svc_err + string list) option" where
  "relative_parts rows rootFolderId currentId pathParts =
     (case row_by_id rows currentId of
        None \<Rightarrow> Some (Inl ERecordNotFound)
      | Some f \<Rightarrow>
          (case f_parent f of
             None \<Rightarrow> Some (Inr (f_name f # pathParts))
           | Some p \<Rightarrow>
               if p = '''' \<or> p = rootFolderId then Some (Inr (f_name f # pathParts))
               else relative_parts rows rootFolderId p (f_name f # pathParts)))"

definition buildRelativePath :: "FileRow list \<Rightarrow> string \<Rightarrow> string \<Rightarrow> (svc_err + string) option" where
  "buildRelativePath rows fileId rootFolderId =
     map_option (\<lambda>res. case res of Inl e \<Rightarrow> Inl e | Inr parts \<Rightarrow> Inr (Join parts ''/''))
       (relative_parts rows rootFolderId fileId [])"

definition pathWithinShare :: "string \<Rightarrow> string \<Rightarrow> bool" where
  "pathWithinShare sharePath filePath =
     (let sharePath = TrimSuffix sharePath ''/''
      in if sharePath = '''' then True else filePath = sharePath \<or> HasPrefix filePath (sharePath @ ''/''))"

definition zip_total :: "FileRow list \<Rightarrow> int" where
  "zip_total files = foldl (\<lambda>total f. case f_size f of None \<Rightarrow> total | Some n \<Rightarrow> i64 (total + n)) 0 files"

definition checkZipLimits :: "FileRow list \<Rightarrow> int \<Rightarrow> int \<Rightarrow> svc_err option" where
  "checkZipLimits files maxFiles maxSize =
     (if maxFiles > 0 \<and> int (length files) > maxFiles
      then Some (EMsg (''zip download has '' @ show_int (int (length files)) @ '' files, limit is '' @ show_int maxFiles))
      else if maxSize > 0 \<and> zip_total files > maxSize
      then Some (EMsg (''zip download is '' @ show_int (zip_total files) @ '' bytes, limit is '' @ show_int maxSize))
      else None)"

text \<open>\<open>None\<close> is a path query that does not end.\<close>

fun assert_ids :: "svc \<Rightarrow> fileShare \<Rightarrow> string list \<Rightarrow> svc_err option option" where
  "assert_ids s share [] = Some None"
| "assert_ids s share (i # ids) =
     (case first_where (\<lambda>f. f_id f = i \<and> f_user f = sh_user (fs_row share)) (sv_files s) of
        None \<Rightarrow> Some (Some (ApiErr (EMsg ''file is not part of this share'') 403))
      | Some _ \<Rightarrow>
          Option.bind (getFullPath (sv_files s) i) (\<lambda>path.
            if \<not> pathWithinShare (fs_path share) path
            then Some (Some (ApiErr (EMsg ''file is not part of this share'') 403))
            else assert_ids s share ids))"

definition assertIdsWithinShare :: "svc \<Rightarrow> fileShare \<Rightarrow> string list \<Rightarrow> svc_err option option" where
  "assertIdsWithinShare s share ids =
     (if fs_type share = FILE
      then (if list_ex (\<lambda>i. i \<noteq> sh_file (fs_row share)) ids
            then Some (Some (ApiErr (EMsg ''file is not part of this share'') 403)) else Some None)
      else assert_ids s share ids)"

definition shareZipName :: "fileShare \<Rightarrow> string list \<Rightarrow> string \<times> bool" where
  "shareZipName share ids =
     (if ids = [sh_file (fs_row share)] then (fs_name share @ ''.zip'', fs_type share = FOLDER)
      else (''download.zip'', False))"

definition getZipMetadata :: "FileRow list \<Rightarrow> string list \<Rightarrow> int \<Rightarrow> string \<times> bool" where
  "getZipMetadata rows ids userId =
     (case ids of
        [i] \<Rightarrow>
          (case first_where (\<lambda>f. f_id f = i \<and> f_user f = userId) rows of
             None \<Rightarrow> (''download.zip'', False)
           | Some item \<Rightarrow>
               if f_type item = FOLDER then (f_name item @ ''.zip'', True)
               else (case Option.bind (f_parent item) (row_by_id rows) of
                       None \<Rightarrow> (''download.zip'', False)
                     | Some parent \<Rightarrow> (f_name parent @ ''.zip'', False)))
      | _ \<Rightarrow> (''download.zip'', False))"

section \<open>The archive\<close>

record zip_entry =
  ze_name :: string
  ze_method :: zip_method
  ze_data :: bytes

text \<open>\<open>usedNames\<close>, from a name to how often it was repeated, and the name given to the entry.\<close>

definition dedup_name :: "(string \<Rightarrow> nat option) \<Rightarrow> string \<Rightarrow> string \<times> (string \<Rightarrow> nat option)" where
  "dedup_name used name =
     (case used name of
        Some n \<Rightarrow>
          ((case LastIndex name CHR ''.'' of
              Some ext \<Rightarrow>
                if ext > 0 then take ext name @ '' ('' @ show_nat (n + 1) @ '')'' @ drop ext name
                else name @ '' ('' @ show_nat (n + 1) @ '')''
            | None \<Rightarrow> name @ '' ('' @ show_nat (n + 1) @ '')''), used(name \<mapsto> n + 1))
      | None \<Rightarrow> (name, used(name \<mapsto> 0)))"

definition entry_name :: "FileRow list \<Rightarrow> (string \<times> string) option \<Rightarrow> FileRow \<Rightarrow> string option" where
  "entry_name rows folder file =
     (case folder of
        Some (folderName, folderID) \<Rightarrow>
          map_option (\<lambda>res. case res of
              Inr rel \<Rightarrow> if rel \<noteq> '''' then folderName @ ''/'' @ rel else folderName @ ''/'' @ f_name file
            | Inl _ \<Rightarrow> folderName @ ''/'' @ f_name file) (buildRelativePath rows (f_id file) folderID)
      | None \<Rightarrow> Some (f_name file))"

text \<open>The folder whose name the entries carry.\<close>

definition zip_folder :: "FileRow list \<Rightarrow> string list \<Rightarrow> bool \<Rightarrow> (string \<times> string) option" where
  "zip_folder rows selectedIds isSingleFolder =
     (case selectedIds of
        i # _ \<Rightarrow> if isSingleFolder then
            (case row_by_id rows i of Some f \<Rightarrow> if f_name f \<noteq> '''' then Some (f_name f, f_id f) else None | None \<Rightarrow> None)
          else None
      | [] \<Rightarrow> None)"

text \<open>
  The loop of the streaming goroutine: the entries written, with the error that ended it; the last entry
  holds what was copied when the copy fails. \<open>parts_of\<close> is \<open>getParts\<close>, \<open>opn\<close> and \<open>rd\<close> open and
  read a part. \<open>None\<close> is not ending or a panic.
\<close>

fun zip_entries ::
    "(FileRow \<Rightarrow> Part list \<Rightarrow> 's open_part) \<Rightarrow> (FileRow \<Rightarrow> 's read_fun) \<Rightarrow> nat \<Rightarrow> (FileRow \<Rightarrow> (svc_err + Part list) option) \<Rightarrow> FileRow list
     \<Rightarrow> (string \<times> string) option \<Rightarrow> (string \<Rightarrow> nat option) \<Rightarrow> FileRow list
     \<Rightarrow> (zip_entry list \<times> (svc_err + io_error) option) option" where
  "zip_entries opn rd k parts_of rows folder used [] = Some ([], None)"
| "zip_entries opn rd k parts_of rows folder used (file # files) =
     Option.bind (entry_name rows folder file) (\<lambda>name.
       let (name, used) = dedup_name used name;
           more = (\<lambda>e. map_option (\<lambda>(es, err). (e # es, err)) (zip_entries opn rd k parts_of rows folder used files))
       in if f_size file = None \<or> f_size file = Some 0 then more \<lparr> ze_name = name, ze_method = Deflate, ze_data = [] \<rparr>
          else Option.bind (parts_of file) (\<lambda>res. case res of
            Inl e \<Rightarrow> Some ([], Some (Inl e))
          | Inr parts \<Rightarrow>
              Option.bind (NewReader (opn file parts) (IsEncrypted file) parts 0 (the (f_size file) - 1)) (\<lambda>res. case res of
                Inl e \<Rightarrow> Some ([], Some (Inr e))
              | Inr lr \<Rightarrow>
                  Option.bind (io_CopyTo (Reader_Read (opn file parts) (rd file)) (\<lambda>w p. Some (w @ p)) k [] lr) (\<lambda>(w, e, _).
                    let entry = \<lparr> ze_name = name, ze_method = zipCompressionMethod name, ze_data = w \<rparr>
                    in case e of Some e \<Rightarrow> Some ([entry], Some (Inr e)) | None \<Rightarrow> more entry))))"

end
