(* ===== verification/ZipTheorems.thy ===== *)
theory ZipTheorems
  imports ZipShare
begin

text \<open>
  What a zip download collects: exactly the active files below the requested ids, each once; and for a share only
  what lies below the shared folder.
\<close>

section \<open>Collecting\<close>

text \<open>The rows reached from the ids through active folders of the user.\<close>

inductive_set below :: "FileRow list \<Rightarrow> int \<Rightarrow> string set \<Rightarrow> FileRow set" for rows uid S where
  base: "f \<in> set rows \<Longrightarrow> f_id f \<in> S \<Longrightarrow> f_user f = uid \<Longrightarrow> f_status f = ACTIVE \<Longrightarrow> f \<in> below rows uid S"
| step: "d \<in> below rows uid S \<Longrightarrow> f_type d = FOLDER \<Longrightarrow> f \<in> set rows \<Longrightarrow> f_parent f = Some (f_id d)
    \<Longrightarrow> f_user f = uid \<Longrightarrow> f_status f = ACTIVE \<Longrightarrow> f \<in> below rows uid S"

definition children :: "FileRow list \<Rightarrow> int \<Rightarrow> FileRow \<Rightarrow> FileRow set" where
  "children rows uid d = {c \<in> set rows. f_parent c = Some (f_id d) \<and> f_user c = uid \<and> f_status c = ACTIVE}"

lemma below_row: "f \<in> below rows uid S \<Longrightarrow> f \<in> set rows \<and> f_user f = uid \<and> f_status f = ACTIVE"
  by (induction rule: below.induct) auto

lemma collect_batch_result:
  assumes "distinct (map f_id batch')" "collect_batch rows uid batch' (pr, fs, nx) = (pr', fs', nx')"
  shows "set pr' = set pr \<union> f_id ` set batch'
    \<and> set fs' = set fs \<union> {f \<in> set batch'. f_id f \<notin> set pr \<and> f_type f = FILE}
    \<and> set nx' = set nx \<union> (\<Union>d \<in> {d \<in> set batch'. f_id d \<notin> set pr \<and> f_type d = FOLDER}. f_id ` children rows uid d)
    \<and> (distinct (map f_id fs) \<and> f_id ` set fs \<subseteq> set pr \<longrightarrow> distinct (map f_id fs') \<and> f_id ` set fs' \<subseteq> set pr')"
  using assms
proof (induction batch' arbitrary: pr fs nx)
  case (Cons f batch')
  show ?case
  proof (cases "f_id f \<in> set pr")
    case True
    have r: "collect_batch rows uid batch' (pr, fs, nx) = (pr', fs', nx')" using Cons.prems True by simp
    have d: "distinct (map f_id batch')" using Cons.prems by simp
    have e: "{g \<in> set (f # batch'). f_id g \<notin> set pr \<and> f_type g = T} = {g \<in> set batch'. f_id g \<notin> set pr \<and> f_type g = T}" for T
      using True by auto
    have s: "set pr \<union> f_id ` set (f # batch') = set pr \<union> f_id ` set batch'" using True by auto
    show ?thesis unfolding e s by (rule Cons.IH [OF d r])
  next
    case False
    have d: "distinct (map f_id batch')" and nf: "f_id f \<notin> f_id ` set batch'" using Cons.prems by auto
    define fs1 where "fs1 = (if f_type f = FILE then fs @ [f] else fs)"
    define nx1 where "nx1 = (if f_type f = FILE then nx else if f_type f = FOLDER then
      nx @ map f_id (filter (\<lambda>c. f_parent c = Some (f_id f) \<and> f_user c = uid \<and> f_status c = ACTIVE) rows) else nx)"
    have r: "collect_batch rows uid batch' (f_id f # pr, fs1, nx1) = (pr', fs', nx')"
      using Cons.prems False by (simp add: fs1_def nx1_def split: if_splits)
    note I = Cons.IH [OF d r]
    have b: "{g \<in> set batch'. f_id g \<notin> set (f_id f # pr) \<and> f_type g = T} = {g \<in> set batch'. f_id g \<notin> set pr \<and> f_type g = T}" for T
      using nf by (intro Collect_cong) (metis image_eqI list.set_intros(2) set_ConsD)
    have "set pr' = set pr \<union> f_id ` set (f # batch')" using I by auto
    moreover have "set fs' = set fs \<union> {g \<in> set (f # batch'). f_id g \<notin> set pr \<and> f_type g = FILE}"
      using I False unfolding b by (auto simp: fs1_def)
    moreover have "set nx' = set nx \<union> (\<Union>d \<in> {d \<in> set (f # batch'). f_id d \<notin> set pr \<and> f_type d = FOLDER}. f_id ` children rows uid d)"
    proof -
      have "{d \<in> set (f # batch'). f_id d \<notin> set pr \<and> f_type d = FOLDER}
        = {d \<in> set batch'. f_id d \<notin> set pr \<and> f_type d = FOLDER} \<union> (if f_type f = FOLDER then {f} else {})"
        using False by auto
      moreover have "set nx1 = set nx \<union> (if f_type f = FOLDER then f_id ` children rows uid f else {})"
        by (auto simp: nx1_def children_def)
      ultimately show ?thesis using I unfolding b by auto
    qed
    moreover have "distinct (map f_id fs) \<and> f_id ` set fs \<subseteq> set pr \<longrightarrow> distinct (map f_id fs1) \<and> f_id ` set fs1 \<subseteq> set (f_id f # pr)"
      using False by (auto simp: fs1_def)
    ultimately show ?thesis using I by blast
  qed
qed auto

definition collect_inv :: "FileRow list \<Rightarrow> int \<Rightarrow> string set \<Rightarrow> string list \<Rightarrow> string list \<Rightarrow> FileRow list \<Rightarrow> bool" where
  "collect_inv rows uid S todo pr fs \<longleftrightarrow>
     set fs = {f \<in> below rows uid S. f_id f \<in> set pr \<and> f_type f = FILE} \<and> distinct (map f_id fs) \<and> f_id ` set fs \<subseteq> set pr
     \<and> (\<forall>f \<in> set rows. f_id f \<in> set todo \<and> f_user f = uid \<and> f_status f = ACTIVE \<longrightarrow> f \<in> below rows uid S)
     \<and> (\<forall>d \<in> below rows uid S. f_id d \<in> set pr \<and> f_type d = FOLDER \<longrightarrow> f_id ` children rows uid d \<subseteq> set pr \<union> set todo)
     \<and> (\<forall>f \<in> set rows. f_id f \<in> S \<and> f_user f = uid \<and> f_status f = ACTIVE \<longrightarrow> f_id f \<in> set pr \<union> set todo)"

lemma collect_inv_step:
  assumes u: "unique_ids rows" and inv: "collect_inv rows uid S todo pr fs"
    and r: "collect_batch rows uid (current_batch rows uid todo) (pr, fs, []) = (pr', fs', nx)"
  shows "collect_inv rows uid S nx pr' fs'"
proof -
  let ?B = "below rows uid S" and ?b = "current_batch rows uid todo"
  have d: "distinct (map f_id ?b)" using u by (simp add: unique_ids_def current_batch_def distinct_map_filter)
  note R = collect_batch_result [OF d r]
  have bB: "set ?b \<subseteq> ?B" using inv by (auto simp: collect_inv_def current_batch_def)
  have same: "f = g" if "f \<in> set rows" "g \<in> set rows" "f_id f = f_id g" for f g
    using u that by (auto simp: unique_ids_def distinct_map inj_on_def)
  have inb: "f \<in> set ?b" if "f \<in> ?B" "f_id f \<in> f_id ` set ?b" for f
  proof -
    from that obtain g where "g \<in> set ?b" "f_id f = f_id g" by auto
    moreover from this bB below_row that(1) have "f = g" using same by blast
    ultimately show ?thesis by simp
  qed
  have todo: "f_id f \<in> f_id ` set ?b" if "f \<in> set rows" "f_user f = uid" "f_status f = ACTIVE" "f_id f \<in> set todo" for f
    using that by (auto simp: current_batch_def)
  have "set fs' = {f \<in> ?B. f_id f \<in> set pr' \<and> f_type f = FILE}"
  proof -
    have "set fs' = {f \<in> ?B. f_id f \<in> set pr \<and> f_type f = FILE} \<union> {f \<in> set ?b. f_id f \<notin> set pr \<and> f_type f = FILE}"
      using R inv by (simp add: collect_inv_def)
    also have "\<dots> = {f \<in> ?B. f_id f \<in> set pr' \<and> f_type f = FILE}" using R bB inb by auto
    finally show ?thesis .
  qed
  moreover have "distinct (map f_id fs) \<and> f_id ` set fs \<subseteq> set pr"
    using inv unfolding collect_inv_def by (elim conjE) (intro conjI; assumption)
  then have "distinct (map f_id fs') \<and> f_id ` set fs' \<subseteq> set pr'"
    by (rule R [THEN conjunct2, THEN conjunct2, THEN conjunct2, THEN mp])
  moreover note p = R [THEN conjunct1]
  note n = R [THEN conjunct2, THEN conjunct2, THEN conjunct1]
  have nx: "\<exists>d \<in> set ?b. f_type d = FOLDER \<and> i \<in> f_id ` children rows uid d" if "i \<in> set nx" for i
    using R that by auto
  have "\<forall>f \<in> set rows. f_id f \<in> set nx \<and> f_user f = uid \<and> f_status f = ACTIVE \<longrightarrow> f \<in> ?B"
  proof (intro ballI impI)
    fix f assume f: "f \<in> set rows" "f_id f \<in> set nx \<and> f_user f = uid \<and> f_status f = ACTIVE"
    with nx obtain d c where d: "d \<in> set ?b" "f_type d = FOLDER" "c \<in> children rows uid d" "f_id f = f_id c" by fastforce
    with same f(1) have "f = c" by (auto simp: children_def)
    with d bB f show "f \<in> ?B" by (auto simp: children_def intro: below.step)
  qed
  moreover have "\<forall>d \<in> ?B. f_id d \<in> set pr' \<and> f_type d = FOLDER \<longrightarrow> f_id ` children rows uid d \<subseteq> set pr' \<union> set nx"
  proof (intro ballI impI)
    fix d assume dB: "d \<in> ?B" and dp: "f_id d \<in> set pr' \<and> f_type d = FOLDER"
    show "f_id ` children rows uid d \<subseteq> set pr' \<union> set nx"
    proof (cases "f_id d \<in> set pr")
      case True
      with inv dB dp have "f_id ` children rows uid d \<subseteq> set pr \<union> set todo" by (auto simp: collect_inv_def)
      moreover have "f_id c \<in> f_id ` set ?b" if "c \<in> children rows uid d" "f_id c \<in> set todo" for c
        using that by (intro todo) (auto simp: children_def)
      ultimately show ?thesis unfolding p by blast
    next
      case False
      with dp p have "f_id d \<in> f_id ` set ?b" by auto
      with inb dB have "d \<in> set ?b" by blast
      with False dp show ?thesis unfolding n by blast
    qed
  qed
  moreover have "\<forall>f \<in> set rows. f_id f \<in> S \<and> f_user f = uid \<and> f_status f = ACTIVE \<longrightarrow> f_id f \<in> set pr' \<union> set nx"
  proof -
    have "\<forall>f \<in> set rows. f_id f \<in> S \<and> f_user f = uid \<and> f_status f = ACTIVE \<longrightarrow> f_id f \<in> set pr \<union> set todo"
      using inv unfolding collect_inv_def by (elim conjE)
    with todo show ?thesis unfolding p by blast
  qed
  ultimately show ?thesis unfolding collect_inv_def by blast
qed

lemma collect_loop_result:
  "unique_ids rows \<Longrightarrow> collect_inv rows uid S todo pr fs \<Longrightarrow>
    set (collect_loop rows uid todo pr fs) = {f \<in> below rows uid S. f_type f = FILE}
    \<and> distinct (map f_id (collect_loop rows uid todo pr fs))"
proof (induction rows uid todo pr fs rule: collect_loop.induct)
  case (1 rows uid todo pr fs)
  show ?case
  proof (cases "todo = []")
    case True
    have "f_id f \<in> set pr" if "f \<in> below rows uid S" for f
      using that
    proof (induction rule: below.induct)
      case (base f)
      with "1.prems" True show ?case by (auto simp: collect_inv_def)
    next
      case (step d f)
      with "1.prems" True have "f_id ` children rows uid d \<subseteq> set pr" by (auto simp: collect_inv_def)
      with step show ?case by (auto simp: children_def)
    qed
    with "1.prems"(2) True show ?thesis by (subst (1 2) collect_loop.simps) (auto simp: collect_inv_def)
  next
    case False
    obtain pr' fs' nx where r: "collect_batch rows uid (current_batch rows uid todo) (pr, fs, []) = (pr', fs', nx)"
      by (metis prod_cases3)
    then have "collect_loop rows uid todo pr fs = collect_loop rows uid nx pr' fs'"
      using False by (subst collect_loop.simps) simp
    with "1.IH" [OF False r [symmetric] refl refl] collect_inv_step [OF "1.prems" r] "1.prems"(1) show ?thesis by simp
  qed
qed

text \<open>
  C22. What is zipped. Whatever ids are asked for, in whatever order and however often, on any tree (a cycle of folders
  included) the collection ends with exactly the active files of the user that are named or lie below a
  named folder through active folders, each of them once.
\<close>

theorem collectFilesRecursive_exact:
  assumes "unique_ids rows"
  shows "set (collectFilesRecursive rows ids uid) = {f \<in> below rows uid (set ids). f_type f = FILE}
    \<and> distinct (map f_id (collectFilesRecursive rows ids uid))"
proof -
  have "collect_inv rows uid (set ids) ids [] []"
    by (auto simp: collect_inv_def intro: below.base)
  from collect_loop_result [OF assms this] show ?thesis by (simp add: collectFilesRecursive_def)
qed

section \<open>Within the share\<close>

lemma collect_below: "unique_ids rows \<Longrightarrow> f \<in> set (collectFilesRecursive rows ids uid) \<Longrightarrow> f \<in> below rows uid (set ids)"
proof -
  assume u: "unique_ids rows" and f: "f \<in> set (collectFilesRecursive rows ids uid)"
  have "collect_inv rows uid (set ids) ids [] []" by (auto simp: collect_inv_def intro: below.base)
  from collect_loop_result [OF u this] f show ?thesis by (auto simp: collectFilesRecursive_def)
qed

text \<open>The rows of the user hang below the folder \<open>root\<close>, under names without slashes.\<close>

definition rooted :: "FileRow list \<Rightarrow> int \<Rightarrow> bool" where
  "rooted rows uid \<longleftrightarrow> (\<forall>f \<in> set rows. f_user f = uid \<and> f_status f = ACTIVE \<longrightarrow>
     (\<exists>ns. active_path rows uid (f_id f) (''root'' # ns) \<and> (\<forall>n \<in> set ns. name_ok n)))"

lemma active_path_through:
  "active_path rows uid i ms \<Longrightarrow> ms = as @ bs \<Longrightarrow> as \<noteq> [] \<Longrightarrow> \<exists>j. active_path rows uid j as \<and> i \<in> subtree rows {j}"
proof (induction arbitrary: bs rule: active_path.induct)
  case (root f)
  then have "as = [f_name f]" by (cases as) auto
  with root.hyps show ?case by (auto intro: active_path.root subtree.base)
next
  case (child p ns f)
  show ?case
  proof (cases bs rule: rev_cases)
    case Nil
    with child.prems child.hyps show ?thesis by (auto intro: active_path.child subtree.base)
  next
    case (snoc cs b)
    with child.prems have "ns = as @ cs" by auto
    from child.IH [OF this child.prems(2)] child.hyps show ?thesis by (auto intro: subtree.step)
  qed
qed

lemma pathWithinShare_names:
  assumes "ns \<noteq> []" "\<forall>n \<in> set ns. name_ok n" "\<forall>n \<in> set ms. name_ok n"
    and "pathWithinShare (CHR ''/'' # Join ns ''/'') (if ms = [] then '''' else CHR ''/'' # Join ms ''/'')"
  shows "\<exists>rest. ms = ns @ rest"
proof -
  let ?J = "Join ns ''/''"
  note e = Join_ends [OF assms(1,2)]
  have l: "\<not> HasSuffix (CHR ''/'' # ?J) ''/''"
  proof
    assume "HasSuffix (CHR ''/'' # ?J) ''/''"
    then obtain t where "CHR ''/'' # ?J = t @ ''/''" by (auto simp: HasSuffix_iff)
    then have "last (CHR ''/'' # ?J) = CHR ''/''" by (metis last_snoc)
    with e show False by simp
  qed
  then have w: "(if ms = [] then '''' else CHR ''/'' # Join ms ''/'') = CHR ''/'' # ?J
      \<or> HasPrefix (if ms = [] then '''' else CHR ''/'' # Join ms ''/'') ((CHR ''/'' # ?J) @ ''/'')"
    using assms(4) by (simp add: pathWithinShare_def TrimSuffix_def Let_def del: append_Cons)
  then have ne: "ms \<noteq> []" by (auto simp: HasPrefix_def)
  have s: "Split (Join ws ''/'') CHR ''/'' = ws" if "ws \<noteq> []" "\<forall>n \<in> set ws. name_ok n" for ws
    using that Split_Join [of ws "CHR ''/''"] by (auto simp: name_ok_def)
  from w ne consider "Join ms ''/'' = ?J" | t where "Join ms ''/'' = ?J @ CHR ''/'' # t"
    by (auto simp: HasPrefix_iff)
  then show ?thesis
  proof cases
    case 1
    then show ?thesis using s [OF assms(1,2)] s [OF ne assms(3)] by auto
  next
    case 2
    then have "ms = ns @ Split t CHR ''/''"
      using s [OF ne assms(3)] s [OF assms(1,2)] Split_append [of ?J "CHR ''/''" t] by simp
    then show ?thesis by blast
  qed
qed

lemma assert_ids_ok:
  "assert_ids s share ids = Some None \<Longrightarrow> i \<in> set ids \<Longrightarrow>
     \<exists>path. getFullPath (sv_files s) i = Some path \<and> pathWithinShare (fs_path share) path"
proof (induction ids)
  case (Cons j ids)
  from Cons.prems obtain path where "getFullPath (sv_files s) j = Some path" "pathWithinShare (fs_path share) path"
    "assert_ids s share ids = Some None"
    by (auto split: option.splits if_splits simp: bind_eq_Some_conv)
  with Cons show ?case by auto
qed simp

text \<open>
  What a visitor can zip. If the ids of a request pass \<open>assertIdsWithinShare\<close> for a share below the owner's
  root, every file collected for the archive is an active file of the owner in the subtree of the shared
  node.
\<close>

theorem assertIdsWithinShare_collect:
  assumes "unique_ids (sv_files s)" "unique_active (sv_files s)" "same_user (sv_files s)"
    and "rooted (sv_files s) (sh_user (fs_row share))"
    and "active_path (sv_files s) (sh_user (fs_row share)) (sh_file (fs_row share)) (''root'' # ns)"
    and "ns \<noteq> []" "\<forall>n \<in> set ns. name_ok n" "fs_path share = CHR ''/'' # Join ns ''/''"
    and "assertIdsWithinShare s share ids = Some None"
    and "f \<in> set (collectFilesRecursive (sv_files s) ids (sh_user (fs_row share)))"
  shows "f_id f \<in> subtree (sv_files s) {sh_file (fs_row share)} \<and> f_user f = sh_user (fs_row share) \<and> f_status f = ACTIVE"
proof -
  let ?rows = "sv_files s" and ?uid = "sh_user (fs_row share)" and ?d = "sh_file (fs_row share)"
  have b: "f \<in> below ?rows ?uid (set ids)" by (rule collect_below [OF assms(1,10)])
  have "f_id g \<in> subtree ?rows {?d}" if "g \<in> below ?rows ?uid (set ids)" for g
    using that
  proof (induction rule: below.induct)
    case (base g)
    show ?case
    proof (cases "fs_type share = FILE")
      case True
      with assms(9) base have "f_id g = ?d" by (auto simp: assertIdsWithinShare_def list_ex_iff split: if_splits)
      then show ?thesis by (simp add: subtree.base)
    next
      case False
      with assms(9) base assert_ids_ok obtain path where
        p: "getFullPath ?rows (f_id g) = Some path" "pathWithinShare (fs_path share) path"
        by (fastforce simp: assertIdsWithinShare_def)
      from assms(4) base obtain ms where ms: "active_path ?rows ?uid (f_id g) (''root'' # ms)" "\<forall>n \<in> set ms. name_ok n"
        by (auto simp: rooted_def)
      with p getFullPath_active [OF assms(1) ms(1)] assms(8)
      have "pathWithinShare (CHR ''/'' # Join ns ''/'') (if ms = [] then '''' else CHR ''/'' # Join ms ''/'')" by simp
      from pathWithinShare_names [OF assms(6,7) ms(2) this] obtain rest where "ms = ns @ rest" by blast
      with active_path_through [OF ms(1), of "''root'' # ns" rest] obtain j where
        j: "active_path ?rows ?uid j (''root'' # ns)" "f_id g \<in> subtree ?rows {j}" by auto
      from descend_active_path [OF assms(1-3) j(1)] descend_active_path [OF assms(1-3,5)] have "j = ?d" by simp
      with j(2) show ?thesis by simp
    qed
  next
    case (step d g)
    then show ?case by (auto intro: subtree.step)
  qed
  with b below_row [OF b] show ?thesis by auto
qed

section \<open>Witnesses\<close>

theorem collectFilesRecursive_exact_witness:
  "distinct (map f_id (collectFilesRecursive share_rows [''d'', ''f'', ''d''] 1))"
  using collectFilesRecursive_exact [OF share_rows_inv(1)] by blast

lemma share_rows_active:
  "active_path share_rows 1 ''r'' (''root'' # [])" "active_path share_rows 1 ''d'' (''root'' # [''docs''])"
  "active_path share_rows 1 ''f'' (''root'' # [''docs'', ''a.txt''])"
  "active_path share_rows 1 ''e'' (''root'' # [''docs2''])" "active_path share_rows 1 ''g'' (''root'' # [''docs2'', ''secret.txt''])"
proof -
  have r: "active_path share_rows 1 ''r'' [''root'']"
    using active_path.root [of "mk_row ''r'' ''root'' FOLDER 1 None" share_rows 1] by (simp add: share_rows_def mk_row_simps)
  then show "active_path share_rows 1 ''r'' (''root'' # [])" .
  show "active_path share_rows 1 ''d'' (''root'' # [''docs''])" by (rule share_folder)
  then show "active_path share_rows 1 ''f'' (''root'' # [''docs'', ''a.txt''])"
    using active_path.child [of share_rows 1 "''d''" "[''root'', ''docs'']" "mk_row ''f'' ''a.txt'' FILE 1 (Some ''d'')"]
    by (simp add: share_rows_def mk_row_simps)
  show e: "active_path share_rows 1 ''e'' (''root'' # [''docs2''])"
    using active_path.child [OF r, of "mk_row ''e'' ''docs2'' FOLDER 1 (Some ''r'')"] by (simp add: share_rows_def mk_row_simps)
  then show "active_path share_rows 1 ''g'' (''root'' # [''docs2'', ''secret.txt''])"
    using active_path.child [of share_rows 1 "''e''" "[''root'', ''docs2'']" "mk_row ''g'' ''secret.txt'' FILE 1 (Some ''e'')"]
    by (simp add: share_rows_def mk_row_simps)
qed

lemma share_rows_rooted: "rooted share_rows 1"
proof -
  have "\<exists>ns. active_path share_rows 1 (f_id f) (''root'' # ns) \<and> (\<forall>n \<in> set ns. name_ok n)" if f: "f \<in> set share_rows" for f
  proof -
    from f have "f_id f = ''r'' \<or> f_id f = ''d'' \<or> f_id f = ''e'' \<or> f_id f = ''f'' \<or> f_id f = ''g''"
      by (auto simp: share_rows_def mk_row_simps)
    moreover have "\<forall>n \<in> set []. name_ok n" "\<forall>n \<in> set [''docs'']. name_ok n" "\<forall>n \<in> set [''docs2'']. name_ok n"
      "\<forall>n \<in> set [''docs'', ''a.txt'']. name_ok n" "\<forall>n \<in> set [''docs2'', ''secret.txt'']. name_ok n"
      by (simp_all add: name_ok_def)
    ultimately show ?thesis using share_rows_active by metis
  qed
  then show ?thesis by (auto simp: rooted_def)
qed

theorem assertIdsWithinShare_collect_witness:
  "mk_row ''f'' ''a.txt'' FILE 1 (Some ''d'') \<in> set (collectFilesRecursive share_rows [''f''] 1)
   \<and> ''f'' \<in> subtree share_rows {''d''}"
proof -
  let ?f = "mk_row ''f'' ''a.txt'' FILE 1 (Some ''d'')"
  have s: "sv_files share_svc = share_rows" "sh_user (fs_row demo_fileShare) = 1" "sh_file (fs_row demo_fileShare) = ''d''"
    "fs_path demo_fileShare = CHR ''/'' # Join [''docs''] ''/''"
    by (simp_all add: share_svc_def demo_fileShare_def demo_share_def)
  have m: "?f \<in> set (collectFilesRecursive share_rows [''f''] 1)"
    by (simp add: collectFilesRecursive_def collect_loop.simps current_batch_def share_rows_def mk_row_simps)
  have p: "getFullPath share_rows ''f'' = Some ''/docs/a.txt''"
    using getFullPath_active [OF share_rows_inv(1) share_rows_active(3)] by simp
  have a: "assertIdsWithinShare share_svc demo_fileShare [''f''] = Some None"
    using p by (simp add: assertIdsWithinShare_def share_svc_def share_rows_def mk_row_simps first_where_def demo_fileShare_def
        demo_share_def pathWithinShare_def TrimSuffix_def HasSuffix_def HasPrefix_def Let_def)
  have "f_id ?f \<in> subtree (sv_files share_svc) {sh_file (fs_row demo_fileShare)} \<and> f_user ?f = sh_user (fs_row demo_fileShare)
      \<and> f_status ?f = ACTIVE"
    by (rule assertIdsWithinShare_collect [OF _ _ _ _ _ _ _ s(4) a])
      (simp_all add: s(1-3) share_rows_inv share_rows_rooted share_folder m name_ok_def del: Join.simps)
  with m show ?thesis by (simp add: s mk_row_simps)
qed

end
