(* ===== verification/Dedup.thy ===== *)
theory Dedup
  imports FilesWrite Retry
begin

text \<open>
  Deduplication runs (pkg/services/dedup_core.go) and the jobs that track them (pkg/services/dedup.go). The state of
  a run is the table of files, the statistics, the calls of the hooks and an environment \<open>'o\<close> that decides which
  statements fail; the order in which Go walks the map of groups is a parameter.
\<close>

section \<open>State of a run\<close>

record DedupStats =
  ds_users :: nat
  ds_groups :: nat
  ds_linked :: nat
  ds_backfilled :: nat
  ds_skipped :: nat

datatype dedup_phase = DedupLoading | DedupBackfilling | DedupGrouping | DedupLinking | DedupDone

datatype dedup_hook =
    OnPhase dedup_phase nat
  | OnProgress dedup_phase nat nat
  | OnGroup string nat FileRow
  | OnLinked FileRow FileRow
  | OnBackfilled FileRow
  | OnSkipped FileRow go_err

record 'o dedup_run =
  dr_rows :: "FileRow list"
  dr_env :: 'o
  dr_stats :: DedupStats
  dr_hooks :: "dedup_hook list"

definition call_hook :: "dedup_hook \<Rightarrow> 'o dedup_run \<Rightarrow> 'o dedup_run" where
  "call_hook h r = r\<lparr> dr_hooks := dr_hooks r @ [h] \<rparr>"

definition count_linked :: "'o dedup_run \<Rightarrow> 'o dedup_run" where
  "count_linked r = r\<lparr> dr_stats := (dr_stats r)\<lparr> ds_linked := ds_linked (dr_stats r) + 1 \<rparr> \<rparr>"

definition count_skipped :: "'o dedup_run \<Rightarrow> 'o dedup_run" where
  "count_skipped r = r\<lparr> dr_stats := (dr_stats r)\<lparr> ds_skipped := ds_skipped (dr_stats r) + 1 \<rparr> \<rparr>"

definition count_group :: "'o dedup_run \<Rightarrow> 'o dedup_run" where
  "count_group r = r\<lparr> dr_stats := (dr_stats r)\<lparr> ds_groups := ds_groups (dr_stats r) + 1 \<rparr> \<rparr>"

definition count_backfilled :: "'o dedup_run \<Rightarrow> 'o dedup_run" where
  "count_backfilled r = r\<lparr> dr_stats := (dr_stats r)\<lparr> ds_backfilled := ds_backfilled (dr_stats r) + 1 \<rparr> \<rparr>"

definition dedupLockRetries :: int where "dedupLockRetries = 5"

text \<open>An update of the rows with an id: \<open>fail\<close> is the outcome of the statement, which changes nothing when it fails.\<close>

definition try_update ::
    "('o \<Rightarrow> go_err option \<times> 'o) \<Rightarrow> string \<Rightarrow> (FileRow \<Rightarrow> FileRow) \<Rightarrow> FileRow list \<times> 'o \<Rightarrow> go_err option \<times> (FileRow list \<times> 'o)" where
  "try_update fail i g st =
     (case st of (rows, env) \<Rightarrow>
       (case fail env of
          (Some e, env) \<Rightarrow> (Some e, (rows, env))
        | (None, env) \<Rightarrow> (None, (update_where (\<lambda>f. f_id f = i) g rows, env))))"

definition retried_update ::
    "(nat \<Rightarrow> bool) \<Rightarrow> ('o \<Rightarrow> go_err option \<times> 'o) \<Rightarrow> string \<Rightarrow> (FileRow \<Rightarrow> FileRow) \<Rightarrow> 'o dedup_run \<Rightarrow> go_err option \<times> 'o dedup_run" where
  "retried_update cancelled fail i g r =
     (case RetryTransientLock cancelled dedupLockRetries (try_update fail i g) (dr_rows r, dr_env r) of
        (e, (rows, env), _) \<Rightarrow> (e, r\<lparr> dr_rows := rows, dr_env := env \<rparr>))"

text \<open>A query for the rows that satisfy a condition.\<close>

definition load_rows ::
    "('o \<Rightarrow> go_err option \<times> 'o) \<Rightarrow> (FileRow \<Rightarrow> bool) \<Rightarrow> 'o dedup_run \<Rightarrow> (go_err + FileRow list) \<times> 'o dedup_run" where
  "load_rows fail P r =
     (case fail (dr_env r) of
        (Some e, env) \<Rightarrow> (Inl e, r\<lparr> dr_env := env \<rparr>)
      | (None, env) \<Rightarrow> (Inr (filter P (dr_rows r)), r\<lparr> dr_env := env \<rparr>))"

section \<open>Backfilling hashes\<close>

definition needs_hash :: "int \<Rightarrow> FileRow \<Rightarrow> bool" where
  "needs_hash uid f \<longleftrightarrow> f_user f = uid \<and> opt_str (f_hash f) = '''' \<and> f_encrypted f = Some False
     \<and> f_status f = ACTIVE \<and> f_type f = FILE"

text \<open>\<open>resolve\<close> is the error of \<open>resolveClient\<close>, \<open>compute\<close> the content hash read through the client.\<close>

definition backfill_hash :: "hash_fun \<Rightarrow> go_err option \<Rightarrow> (FileRow \<Rightarrow> go_err + string) \<Rightarrow> FileRow \<Rightarrow> go_err + string" where
  "backfill_hash blake resolve compute file =
     (if f_size file = None \<or> f_size file = Some 0 then Inr (SumToHex (ComputeTreeHash blake []))
      else case resolve of Some e \<Rightarrow> Inl e | None \<Rightarrow> compute file)"

fun backfill_loop ::
    "(nat \<Rightarrow> bool) \<Rightarrow> ('o \<Rightarrow> go_err option \<times> 'o) \<Rightarrow> (FileRow \<Rightarrow> go_err + string) \<Rightarrow> bool \<Rightarrow> nat \<Rightarrow> nat
     \<Rightarrow> FileRow list \<Rightarrow> FileRow list \<Rightarrow> 'o dedup_run \<Rightarrow> FileRow list \<times> 'o dedup_run" where
  "backfill_loop cancelled fail hashf dryRun tot i [] backfilled r = (backfilled, r)"
| "backfill_loop cancelled fail hashf dryRun tot i (file # files) backfilled r =
     (let skip = (\<lambda>e r. backfill_loop cancelled fail hashf dryRun tot (i + 1) files backfilled
                  (call_hook (OnProgress DedupBackfilling (i + 1) tot) (call_hook (OnSkipped file e) (count_skipped r))))
      in case hashf file of
           Inl e \<Rightarrow> skip e r
         | Inr newHash \<Rightarrow>
             (case (if dryRun then (None, r) else retried_update cancelled fail (f_id file) (\<lambda>f. f\<lparr> f_hash := Some newHash \<rparr>) r) of
                (Some e, r) \<Rightarrow> skip e r
              | (None, r) \<Rightarrow>
                  let file = file\<lparr> f_hash := Some newHash \<rparr>
                  in backfill_loop cancelled fail hashf dryRun tot (i + 1) files (backfilled @ [file])
                       (call_hook (OnProgress DedupBackfilling (i + 1) tot) (call_hook (OnBackfilled file) (count_backfilled r)))))"

definition backfillUserHashes ::
    "(nat \<Rightarrow> bool) \<Rightarrow> ('o \<Rightarrow> go_err option \<times> 'o) \<Rightarrow> (FileRow \<Rightarrow> go_err + string) \<Rightarrow> int \<Rightarrow> bool \<Rightarrow> 'o dedup_run
     \<Rightarrow> (go_err + FileRow list) \<times> 'o dedup_run" where
  "backfillUserHashes cancelled fail hashf userID dryRun r =
     (case load_rows fail (needs_hash userID) r of
        (Inl e, r) \<Rightarrow> (Inl e, r)
      | (Inr files, r) \<Rightarrow>
          if files = [] then (Inr [], r)
          else (case backfill_loop cancelled fail hashf dryRun (length files) 0 files []
                       (call_hook (OnPhase DedupBackfilling (length files)) r) of
                  (backfilled, r) \<Rightarrow> (Inr backfilled, r)))"

section \<open>Linking\<close>

definition dedup_eligible :: "int \<Rightarrow> FileRow \<Rightarrow> bool" where
  "dedup_eligible uid f \<longleftrightarrow> f_user f = uid \<and> opt_str (f_hash f) \<noteq> '''' \<and> f_encrypted f = Some False
     \<and> f_status f = ACTIVE \<and> f_type f = FILE"

definition link_row :: "FileRow \<Rightarrow> FileRow \<Rightarrow> FileRow" where
  "link_row canonical f = f\<lparr> f_ref := Some (f_id canonical), f_parts := f_parts canonical, f_channel := f_channel canonical \<rparr>"

definition hash_group :: "FileRow list \<Rightarrow> string \<Rightarrow> FileRow list" where
  "hash_group files h = filter (\<lambda>f. f_hash f = Some h) files"

text \<open>\<open>n\<close> counts the links done in the phase (\<open>advance\<close>).\<close>

fun link_group ::
    "(nat \<Rightarrow> bool) \<Rightarrow> ('o \<Rightarrow> go_err option \<times> 'o) \<Rightarrow> bool \<Rightarrow> nat \<Rightarrow> FileRow \<Rightarrow> FileRow list \<Rightarrow> nat \<Rightarrow> 'o dedup_run
     \<Rightarrow> go_err option \<times> nat \<times> 'o dedup_run" where
  "link_group cancelled fail dryRun tot canonical [] n r = (None, n, r)"
| "link_group cancelled fail dryRun tot canonical (dup # dups) n r =
     (case (if dryRun then (None, r) else retried_update cancelled fail (f_id dup) (link_row canonical) r) of
        (Some e, r) \<Rightarrow>
          if IsTransientLockErr (Some e) then
            link_group cancelled fail dryRun tot canonical dups (n + 1)
              (call_hook (OnProgress DedupLinking (n + 1) tot) (call_hook (OnSkipped dup e) (count_skipped r)))
          else (Some e, n, r)
      | (None, r) \<Rightarrow>
          link_group cancelled fail dryRun tot canonical dups (n + 1)
            (call_hook (OnProgress DedupLinking (n + 1) tot) (call_hook (OnLinked dup canonical) (count_linked r))))"

fun link_groups ::
    "(nat \<Rightarrow> bool) \<Rightarrow> ('o \<Rightarrow> go_err option \<times> 'o) \<Rightarrow> bool \<Rightarrow> nat \<Rightarrow> FileRow list \<Rightarrow> string list \<Rightarrow> nat \<Rightarrow> 'o dedup_run
     \<Rightarrow> go_err option \<times> 'o dedup_run" where
  "link_groups cancelled fail dryRun tot files [] n r = (None, r)"
| "link_groups cancelled fail dryRun tot files (h # hs) n r =
     (case hash_group files h of
        canonical # dup # dups \<Rightarrow>
          (case link_group cancelled fail dryRun tot canonical (dup # dups) n
                  (call_hook (OnGroup h (length (dup # dups) + 1) canonical) (count_group r)) of
             (Some e, n, r) \<Rightarrow> (Some e, r)
           | (None, n, r) \<Rightarrow> link_groups cancelled fail dryRun tot files hs n r)
      | _ \<Rightarrow> link_groups cancelled fail dryRun tot files hs n r)"

definition total_links :: "FileRow list \<Rightarrow> string list \<Rightarrow> nat" where
  "total_links files hs = sum_list (map (\<lambda>h. length (hash_group files h) - 1) hs)"

text \<open>\<open>hs\<close> are the keys of the map of groups in the order the two loops meet them.\<close>

definition RunDedupForUser ::
    "(nat \<Rightarrow> bool) \<Rightarrow> ('o \<Rightarrow> go_err option \<times> 'o) \<Rightarrow> (FileRow \<Rightarrow> go_err + string) \<Rightarrow> int \<Rightarrow> bool \<Rightarrow> bool
     \<Rightarrow> (FileRow list \<Rightarrow> string list) \<Rightarrow> 'o dedup_run \<Rightarrow> go_err option \<times> 'o dedup_run" where
  "RunDedupForUser cancelled fail hashf userID dryRun backfill order r =
     (case load_rows fail (dedup_eligible userID) (call_hook (OnPhase DedupLoading 0) r) of
        (Inl e, r) \<Rightarrow> (Some e, r)
      | (Inr files, r) \<Rightarrow>
          (case (if backfill then backfillUserHashes cancelled fail hashf userID dryRun r else (Inr [], r)) of
             (Inl e, r) \<Rightarrow> (Some e, r)
           | (Inr found, r) \<Rightarrow>
               let files = filter (\<lambda>f. opt_str (f_hash f) \<noteq> '''') (files @ found);
                   r = call_hook (OnPhase DedupGrouping 0) r;
                   hs = order files; tot = total_links files hs;
                   r = call_hook (OnPhase DedupLinking tot) r
               in case link_groups cancelled fail dryRun tot files hs 0 r of
                    (Some e, r) \<Rightarrow> (Some e, r)
                  | (None, r) \<Rightarrow> (None, call_hook (OnPhase DedupDone 0) r)))"

section \<open>What a run does\<close>

lemma retry_update_rows:
  "retry_loop cancelled m (try_update fail i g) a b (rows, env) = (e, (rows', env'), ws) \<Longrightarrow>
     rows' = (if e = None then update_where (\<lambda>f. f_id f = i) g rows else rows)
     \<and> ((\<forall>env. fst (fail env) = None) \<longrightarrow> e = None)"
proof (induction "nat (m - int a)" arbitrary: a b env ws rule: less_induct)
  case less
  obtain e1 env1 where f: "fail env = (e1, env1)" by fastforce
  show ?case
  proof (cases e1)
    case None
    with f less.prems show ?thesis
      by (subst (asm) retry_loop.simps) (auto simp: try_update_def)
  next
    case (Some x)
    with f have fn: "try_update fail i g (rows, env) = (Some x, (rows, env1))" by (simp add: try_update_def)
    have nf: "\<not> (\<forall>env. fst (fail env) = None)" using f Some by (metis fst_conv option.distinct(1))
    show ?thesis
    proof (cases "\<not> IsTransientLockErr (Some x) \<or> int a \<ge> m \<or> cancelled a")
      case True
      with fn less.prems nf show ?thesis by (subst (asm) retry_loop.simps) (auto split: if_splits)
    next
      case False
      obtain e2 st2 ws2 where r: "retry_loop cancelled m (try_update fail i g) (a + 1) (b * 2) (rows, env1) = (e2, st2, ws2)"
        by (metis prod_cases3)
      with fn False less.prems have eq: "e = e2" "st2 = (rows', env')"
        by (subst (asm) (2) retry_loop.simps, simp)+
      have "nat (m - int (a + 1)) < nat (m - int a)" using False by auto
      from less.hyps [OF this r [unfolded eq(2), folded eq(1)]] show ?thesis .
    qed
  qed
qed

lemma retried_update_rows:
  assumes "retried_update cancelled fail i g r = (e, r')"
  shows "dr_rows r' = (if e = None then update_where (\<lambda>f. f_id f = i) g (dr_rows r) else dr_rows r)"
    "dr_stats r' = dr_stats r" "(\<forall>env. fst (fail env) = None) \<Longrightarrow> e = None"
proof -
  obtain e1 rows env ws where R: "RetryTransientLock cancelled dedupLockRetries (try_update fail i g) (dr_rows r, dr_env r)
      = (e1, (rows, env), ws)" by (metis prod.collapse)
  with assms have eq: "e = e1" "r' = r\<lparr> dr_rows := rows, dr_env := env \<rparr>" by (auto simp: retried_update_def)
  note U = retry_update_rows [OF R [unfolded RetryTransientLock_def]]
  from U eq show "dr_rows r' = (if e = None then update_where (\<lambda>f. f_id f = i) g (dr_rows r) else dr_rows r)"
    "dr_stats r' = dr_stats r" "(\<forall>env. fst (fail env) = None) \<Longrightarrow> e = None" by simp_all
qed

lemma hook_simps [simp]:
  "dr_env (call_hook h r) = dr_env r"
  "dr_rows (call_hook h r) = dr_rows r" "dr_stats (call_hook h r) = dr_stats r"
  "dr_rows (count_linked r) = dr_rows r" "dr_rows (count_skipped r) = dr_rows r" "dr_rows (count_group r) = dr_rows r"
  "ds_linked (dr_stats (count_linked r)) = ds_linked (dr_stats r) + 1" "ds_skipped (dr_stats (count_linked r)) = ds_skipped (dr_stats r)"
  "ds_linked (dr_stats (count_skipped r)) = ds_linked (dr_stats r)" "ds_skipped (dr_stats (count_skipped r)) = ds_skipped (dr_stats r) + 1"
  "ds_linked (dr_stats (count_group r)) = ds_linked (dr_stats r)" "ds_skipped (dr_stats (count_group r)) = ds_skipped (dr_stats r)"
  by (simp_all add: call_hook_def count_linked_def count_skipped_def count_group_def)

text \<open>The canonical row of a row's group, and the rows with a set of ids linked.\<close>

definition canonical_of :: "FileRow list \<Rightarrow> FileRow \<Rightarrow> FileRow" where
  "canonical_of files f = hd (hash_group files (opt_str (f_hash f)))"

definition linked_rows :: "FileRow list \<Rightarrow> string set \<Rightarrow> FileRow list \<Rightarrow> FileRow list" where
  "linked_rows files L rows = map (\<lambda>f. if f_id f \<in> L then link_row (canonical_of files f) f else f) rows"

lemma linked_rows_insert:
  assumes "unique_ids rows" "dup \<in> set rows" "f_id dup \<notin> L" "canonical_of files dup = canonical"
  shows "update_where (\<lambda>f. f_id f = f_id dup) (link_row canonical) (linked_rows files L rows)
    = linked_rows files (insert (f_id dup) L) rows"
proof -
  have u: "f = dup" if "f \<in> set rows" "f_id f = f_id dup" for f
    using assms(1,2) that by (auto simp: unique_ids_def distinct_map inj_on_def)
  have i: "f_id (link_row c f) = f_id f" for c f by (simp add: link_row_def)
  show ?thesis
    unfolding update_where_def linked_rows_def map_map
  proof (rule map_cong [OF refl])
    fix f assume f: "f \<in> set rows"
    show "((\<lambda>r. if f_id r = f_id dup then link_row canonical r else r)
        \<circ> (\<lambda>f. if f_id f \<in> L then link_row (canonical_of files f) f else f)) f
      = (if f_id f \<in> insert (f_id dup) L then link_row (canonical_of files f) f else f)"
    proof (cases "f_id f = f_id dup")
      case True
      with u f have "f = dup" by blast
      with assms(3,4) show ?thesis by simp
    next
      case False
      then show ?thesis by (simp add: i)
    qed
  qed
qed

lemma link_group_result:
  assumes "unique_ids rows"
  shows "link_group cancelled fail False tot canonical dups n r = (e, n', r') \<Longrightarrow>
    dr_rows r = linked_rows files L rows \<Longrightarrow> set dups \<subseteq> set rows \<Longrightarrow> distinct (map f_id dups) \<Longrightarrow>
    f_id ` set dups \<inter> L = {} \<Longrightarrow> (\<forall>d \<in> set dups. canonical_of files d = canonical) \<Longrightarrow>
    \<exists>L'. L' \<subseteq> f_id ` set dups \<and> dr_rows r' = linked_rows files (L \<union> L') rows
      \<and> ds_linked (dr_stats r') = ds_linked (dr_stats r) + card L'
      \<and> (e = None \<longrightarrow> ds_linked (dr_stats r') + ds_skipped (dr_stats r')
          = ds_linked (dr_stats r) + ds_skipped (dr_stats r) + length dups)
      \<and> ((\<forall>env. fst (fail env) = None) \<longrightarrow> e = None \<and> L' = f_id ` set dups)"
proof (induction dups arbitrary: n r L)
  case (Cons d dups)
  obtain e1 r1 where u: "retried_update cancelled fail (f_id d) (link_row canonical) r = (e1, r1)" by fastforce
  note U = retried_update_rows [OF u]
  have d: "d \<in> set rows" "f_id d \<notin> L" "canonical_of files d = canonical" using Cons.prems by auto
  have dups: "set dups \<subseteq> set rows" "distinct (map f_id dups)" "f_id ` set dups \<inter> L = {}" "f_id d \<notin> f_id ` set dups"
    "\<forall>x \<in> set dups. canonical_of files x = canonical"
    using Cons.prems by auto
  show ?case
  proof (cases e1)
    case None
    then have rows1: "dr_rows r1 = linked_rows files (insert (f_id d) L) rows"
      using U(1) Cons.prems(2) linked_rows_insert [OF assms d] by simp
    let ?r = "call_hook (OnProgress DedupLinking (n + 1) tot) (call_hook (OnLinked d canonical) (count_linked r1))"
    have g: "link_group cancelled fail False tot canonical dups (n + 1) ?r = (e, n', r')"
      using Cons.prems(1) u None by simp
    have "dr_rows ?r = linked_rows files (insert (f_id d) L) rows" using rows1 by simp
    moreover have "f_id ` set dups \<inter> insert (f_id d) L = {}" using dups(3,4) by auto
    note IH = Cons.IH [OF g calculation(1) dups(1,2) this dups(5)]
    then obtain L' where L': "L' \<subseteq> f_id ` set dups" "dr_rows r' = linked_rows files (insert (f_id d) L \<union> L') rows"
      "ds_linked (dr_stats r') = ds_linked (dr_stats ?r) + card L'"
      "e = None \<longrightarrow> ds_linked (dr_stats r') + ds_skipped (dr_stats r') = ds_linked (dr_stats ?r) + ds_skipped (dr_stats ?r) + length dups"
      "(\<forall>env. fst (fail env) = None) \<longrightarrow> e = None \<and> L' = f_id ` set dups"
      by - (elim exE conjE, rule that; assumption)
    have c: "card (insert (f_id d) L') = Suc (card L')"
      using L'(1) dups(4) by (intro card_insert_disjoint) (auto intro: finite_subset)
    have s: "ds_linked (dr_stats ?r) = ds_linked (dr_stats r) + 1" "ds_skipped (dr_stats ?r) = ds_skipped (dr_stats r)"
      using U(2) by simp_all
    show ?thesis
    proof (intro exI conjI)
      show "insert (f_id d) L' \<subseteq> f_id ` set (d # dups)" using L'(1) by auto
      show "dr_rows r' = linked_rows files (L \<union> insert (f_id d) L') rows" using L'(2) by simp
      show "ds_linked (dr_stats r') = ds_linked (dr_stats r) + card (insert (f_id d) L')" unfolding c L'(3) s by simp
      show "e = None \<longrightarrow> ds_linked (dr_stats r') + ds_skipped (dr_stats r')
          = ds_linked (dr_stats r) + ds_skipped (dr_stats r) + length (d # dups)" using L'(4) unfolding s by simp
      show "(\<forall>env. fst (fail env) = None) \<longrightarrow> e = None \<and> insert (f_id d) L' = f_id ` set (d # dups)"
        using L'(5) by simp
    qed
  next
    case (Some x)
    show ?thesis
    proof (cases "IsTransientLockErr (Some x)")
      case True
      let ?r = "call_hook (OnProgress DedupLinking (n + 1) tot) (call_hook (OnSkipped d x) (count_skipped r1))"
      have g: "link_group cancelled fail False tot canonical dups (n + 1) ?r = (e, n', r')"
        using Cons.prems(1) u Some True by simp
      have "dr_rows ?r = linked_rows files L rows" using U(1) Some Cons.prems(2) by simp
      from Cons.IH [OF g this dups(1,2,3,5)] obtain L' where L': "L' \<subseteq> f_id ` set dups"
        "dr_rows r' = linked_rows files (L \<union> L') rows" "ds_linked (dr_stats r') = ds_linked (dr_stats ?r) + card L'"
        "e = None \<longrightarrow> ds_linked (dr_stats r') + ds_skipped (dr_stats r') = ds_linked (dr_stats ?r) + ds_skipped (dr_stats ?r) + length dups"
        by blast
      have nf: "\<not> (\<forall>env. fst (fail env) = None)" using U(3) Some by (metis option.distinct(1))
      show ?thesis
        by (rule exI [of _ L'], intro conjI) (use L' U(1,2) nf in auto)
    next
      case False
      then have eq: "e = Some x" "r' = r1" using Cons.prems(1) u Some by simp_all
      have nf: "\<not> (\<forall>env. fst (fail env) = None)" using U(3) Some by (metis option.distinct(1))
      show ?thesis
        by (rule exI [of _ "{}"], intro conjI) (use eq U(1,2) nf Some Cons.prems(2) in auto)
    qed
  qed
qed auto

definition dup_ids :: "FileRow list \<Rightarrow> string list \<Rightarrow> string set" where
  "dup_ids files hs = (\<Union>h \<in> set hs. f_id ` set (tl (hash_group files h)))"

lemma tl_group: "f \<in> set (tl (hash_group files h)) \<Longrightarrow> f \<in> set files \<and> f_hash f = Some h"
proof -
  assume "f \<in> set (tl (hash_group files h))"
  then have "f \<in> set (hash_group files h)" by (cases "hash_group files h") auto
  then show ?thesis by (simp add: hash_group_def)
qed

lemma dup_ids_disjoint:
  assumes "unique_ids files" "h \<notin> set hs"
  shows "f_id ` set (tl (hash_group files h)) \<inter> dup_ids files hs = {}"
proof -
  have False if "f \<in> set (tl (hash_group files h))" "g \<in> set (tl (hash_group files k))" "k \<in> set hs" "f_id f = f_id g" for f g k
  proof -
    from that tl_group have "f \<in> set files" "g \<in> set files" "f_hash f = Some h" "f_hash g = Some k" by blast+
    with assms(1) that(4) have "f = g" by (auto simp: unique_ids_def distinct_map inj_on_def)
    with \<open>f_hash f = Some h\<close> \<open>f_hash g = Some k\<close> assms(2) that(3) show False by simp
  qed
  then show ?thesis by (fastforce simp: dup_ids_def)
qed

lemma link_groups_result:
  assumes u: "unique_ids rows" "unique_ids files" "set files \<subseteq> set rows"
  shows "link_groups cancelled fail False tot files hs n r = (e, r') \<Longrightarrow> distinct hs \<Longrightarrow>
    dr_rows r = linked_rows files L rows \<Longrightarrow> dup_ids files hs \<inter> L = {} \<Longrightarrow>
    \<exists>L'. L' \<subseteq> dup_ids files hs \<and> dr_rows r' = linked_rows files (L \<union> L') rows
      \<and> ds_linked (dr_stats r') = ds_linked (dr_stats r) + card L'
      \<and> (e = None \<longrightarrow> ds_linked (dr_stats r') + ds_skipped (dr_stats r')
          = ds_linked (dr_stats r) + ds_skipped (dr_stats r) + total_links files hs)
      \<and> ((\<forall>env. fst (fail env) = None) \<longrightarrow> e = None \<and> L' = dup_ids files hs)"
proof (induction hs arbitrary: n r L)
  case Nil
  then show ?case by (intro exI [of _ "{}"]) (simp add: dup_ids_def total_links_def)
next
  case (Cons h hs)
  have tot: "total_links files (h # hs) = (length (hash_group files h) - 1) + total_links files hs"
    by (simp add: total_links_def)
  have ids: "dup_ids files (h # hs) = f_id ` set (tl (hash_group files h)) \<union> dup_ids files hs"
    by (simp add: dup_ids_def)
  consider "tl (hash_group files h) = []" | c d ds where "hash_group files h = c # d # ds"
    by (cases "tl (hash_group files h)"; cases "hash_group files h") auto
  then show ?case
  proof cases
    case 1
    then have s: "length (hash_group files h) - 1 = 0" by (cases "hash_group files h") auto
    have g: "link_groups cancelled fail False tot files hs n r = (e, r')"
      using Cons.prems(1) 1 by (cases "hash_group files h") auto
    have "dup_ids files hs \<inter> L = {}" using Cons.prems(4) ids by auto
    from Cons.IH [OF g _ Cons.prems(3) this] Cons.prems(2) 1 s show ?thesis by (simp add: tot ids)
  next
    case (2 c d ds)
    let ?r = "call_hook (OnGroup h (length (d # ds) + 1) c) (count_group r)"
    obtain e1 n1 r1 where g: "link_group cancelled fail False tot c (d # ds) n ?r = (e1, n1, r1)" by (metis prod_cases3)
    have grp: "tl (hash_group files h) = d # ds" using 2 by simp
    have mem: "f \<in> set files \<and> f_hash f = Some h" if "f \<in> set (d # ds)" for f using tl_group [of f files h] grp that by simp
    have "distinct (map f_id (hash_group files h))" using u(2) by (simp add: unique_ids_def hash_group_def distinct_map_filter)
    then have dist: "distinct (map f_id (d # ds))" using 2 by simp
    have sub: "set (d # ds) \<subseteq> set rows" using mem u(3) by blast
    have can: "\<forall>f \<in> set (d # ds). canonical_of files f = c" using mem 2 by (auto simp: canonical_of_def opt_str_def)
    have disj: "f_id ` set (d # ds) \<inter> L = {}" using Cons.prems(4) ids grp by auto
    have rows: "dr_rows ?r = linked_rows files L rows" using Cons.prems(3) by simp
    have sr: "ds_linked (dr_stats ?r) = ds_linked (dr_stats r)" "ds_skipped (dr_stats ?r) = ds_skipped (dr_stats r)" by simp_all
    from link_group_result [OF u(1) g rows sub dist disj can, unfolded sr] obtain L1 where L1:
      "L1 \<subseteq> f_id ` set (d # ds)" "dr_rows r1 = linked_rows files (L \<union> L1) rows"
      "ds_linked (dr_stats r1) = ds_linked (dr_stats r) + card L1"
      "e1 = None \<longrightarrow> ds_linked (dr_stats r1) + ds_skipped (dr_stats r1) = ds_linked (dr_stats r) + ds_skipped (dr_stats r) + length (d # ds)"
      "(\<forall>env. fst (fail env) = None) \<longrightarrow> e1 = None \<and> L1 = f_id ` set (d # ds)"
      by - (elim exE conjE, rule that; assumption)
    have L1d: "L1 \<subseteq> dup_ids files (h # hs)" using L1(1) ids grp by auto
    show ?thesis
    proof (cases e1)
      case None
      then have g2: "link_groups cancelled fail False tot files hs n1 r1 = (e, r')" using Cons.prems(1) 2 g by simp
      have d2: "dup_ids files hs \<inter> (L \<union> L1) = {}"
      proof -
        have "f_id ` set (d # ds) \<inter> dup_ids files hs = {}"
          using dup_ids_disjoint [OF u(2), of h hs] Cons.prems(2) unfolding grp by simp
        moreover have "dup_ids files hs \<inter> L = {}" using Cons.prems(4) ids by auto
        ultimately show ?thesis using L1(1) by blast
      qed
      have dh: "distinct hs" using Cons.prems(2) by simp
      from Cons.IH [OF g2 dh L1(2) d2] obtain L2 where L2:
        "L2 \<subseteq> dup_ids files hs" "dr_rows r' = linked_rows files (L \<union> L1 \<union> L2) rows"
        "ds_linked (dr_stats r') = ds_linked (dr_stats r1) + card L2"
        "e = None \<longrightarrow> ds_linked (dr_stats r') + ds_skipped (dr_stats r') = ds_linked (dr_stats r1) + ds_skipped (dr_stats r1) + total_links files hs"
        "(\<forall>env. fst (fail env) = None) \<longrightarrow> e = None \<and> L2 = dup_ids files hs" by blast
      have "finite (dup_ids files hs)" by (simp add: dup_ids_def)
      then have "finite L1" "finite L2" using L1(1) L2(1) by (auto intro: finite_subset)
      moreover have "L1 \<inter> L2 = {}" using d2 L2(1) by blast
      ultimately have c: "card (L1 \<union> L2) = card L1 + card L2" by (rule card_Un_disjoint)
      show ?thesis
      proof (intro exI conjI)
        show "L1 \<union> L2 \<subseteq> dup_ids files (h # hs)" using L1d L2(1) ids by auto
        show "dr_rows r' = linked_rows files (L \<union> (L1 \<union> L2)) rows" using L2(2) by (simp add: Un_assoc)
        show "ds_linked (dr_stats r') = ds_linked (dr_stats r) + card (L1 \<union> L2)" unfolding c L2(3) L1(3) by simp
        show "e = None \<longrightarrow> ds_linked (dr_stats r') + ds_skipped (dr_stats r')
          = ds_linked (dr_stats r) + ds_skipped (dr_stats r) + total_links files (h # hs)"
          using L2(4) L1(4) None 2 tot by simp
        show "(\<forall>env. fst (fail env) = None) \<longrightarrow> e = None \<and> L1 \<union> L2 = dup_ids files (h # hs)"
          using L1(5) L2(5) ids grp by simp
      qed
    next
      case (Some x)
      then have eq: "e = Some x" "r' = r1" using Cons.prems(1) 2 g by simp_all
      show ?thesis
      proof (intro exI conjI)
        show "L1 \<subseteq> dup_ids files (h # hs)" by (rule L1d)
        show "dr_rows r' = linked_rows files (L \<union> L1) rows" using L1(2) eq by simp
        show "ds_linked (dr_stats r') = ds_linked (dr_stats r) + card L1" using L1(3) eq by simp
      qed (use eq L1(5) Some in auto)
    qed
  qed
qed

lemma run_links:
  fixes r :: "'o dedup_run"
  assumes "unique_ids (dr_rows r)" "files = filter (dedup_eligible uid) (dr_rows r)" "distinct (order files)"
    and "RunDedupForUser cancelled fail hashf uid False False order r = (e, r')"
  shows "\<exists>L \<subseteq> dup_ids files (order files). dr_rows r' = linked_rows files L (dr_rows r)
    \<and> ds_linked (dr_stats r') = ds_linked (dr_stats r) + card L
    \<and> (e = None \<longrightarrow> ds_linked (dr_stats r') + ds_skipped (dr_stats r')
        = ds_linked (dr_stats r) + ds_skipped (dr_stats r) + total_links files (order files))
    \<and> ((\<forall>env. fst (fail env) = None) \<longrightarrow> e = None \<and> L = dup_ids files (order files))"
proof -
  have f: "filter (\<lambda>f. opt_str (f_hash f) \<noteq> '''') files = files"
    unfolding assms(2) filter_filter by (rule filter_cong) (auto simp: dedup_eligible_def)
  let ?r = "call_hook (OnPhase DedupLoading 0) r"
  show ?thesis
  proof (cases "fail (dr_env r)")
    case (Pair err env)
    show ?thesis
    proof (cases err)
      case (Some x)
      have "load_rows fail (dedup_eligible uid) ?r = (Inl x, ?r\<lparr> dr_env := env \<rparr>)" using Pair Some by (simp add: load_rows_def)
      then have eq: "e = Some x" "r' = ?r\<lparr> dr_env := env \<rparr>" using assms(4) by (simp_all add: RunDedupForUser_def)
      have nf: "\<not> (\<forall>env. fst (fail env) = None)" using Pair Some by (metis fst_conv option.distinct(1))
      show ?thesis by (intro exI [of _ "{}"] conjI) (use eq nf in \<open>auto simp: linked_rows_def\<close>)
    next
      case None
      define r0 where "r0 = call_hook (OnPhase DedupLinking (total_links files (order files)))
        (call_hook (OnPhase DedupGrouping 0) (?r\<lparr> dr_env := env \<rparr>))"
      have l: "load_rows fail (dedup_eligible uid) ?r = (Inr files, ?r\<lparr> dr_env := env \<rparr>)"
        using Pair None by (simp add: load_rows_def assms(2))
      obtain e1 r1 where g: "link_groups cancelled fail False (total_links files (order files)) files (order files) 0 r0 = (e1, r1)"
        by fastforce
      have eq: "e = e1" "dr_rows r' = dr_rows r1" "dr_stats r' = dr_stats r1"
        using assms(4) g unfolding RunDedupForUser_def l
        by (auto simp: f r0_def Let_def split: option.splits)
      have u: "unique_ids files" using assms(1,2) by (simp add: unique_ids_def distinct_map_filter)
      have s: "set files \<subseteq> set (dr_rows r)" by (auto simp: assms(2))
      have r0: "dr_rows r0 = linked_rows files {} (dr_rows r)" "dr_stats r0 = dr_stats r"
        by (simp_all add: r0_def linked_rows_def)
      have "dup_ids files (order files) \<inter> {} = {}" by simp
      from link_groups_result [OF assms(1) u s g assms(3) r0(1) this] show ?thesis
        unfolding eq r0(2) Un_empty_left .
    qed
  qed
qed

text \<open>
  C24. A run. Whatever statements fail and in whatever order the groups come, a run without backfill only links: the table is the
  old one with some duplicates (never the first file of a group) turned into references with the parts and channel of the
  first file of their group, and the statistics count them; a run that returns no error has linked or skipped
  every duplicate, and if no statement fails it has linked them all.
\<close>

theorem RunDedupForUser_links:
  fixes r :: "'o dedup_run"
  assumes "unique_ids (dr_rows r)" "files = filter (dedup_eligible uid) (dr_rows r)" "distinct (order files)"
    and "RunDedupForUser cancelled fail hashf uid False False order r = (e, r')"
  shows "\<exists>L \<subseteq> dup_ids files (order files). dr_rows r' = linked_rows files L (dr_rows r)
    \<and> ds_linked (dr_stats r') = ds_linked (dr_stats r) + card L
    \<and> (e = None \<longrightarrow> ds_linked (dr_stats r') + ds_skipped (dr_stats r')
        = ds_linked (dr_stats r) + ds_skipped (dr_stats r) + total_links files (order files))
    \<and> ((\<forall>env. fst (fail env) = None) \<longrightarrow> e = None \<and> L = dup_ids files (order files))"
  by (rule run_links [OF assms])

text \<open>
  Losing the original. The first file of a group becomes canonical even when it is itself a reference, since the files come
  without an order: if nothing fails, after the run every file of such a group is a reference and none of them is the
  original, and when the first referred to another file of the group the two refer to each other.
\<close>

theorem RunDedupForUser_loses_canonical:
  fixes r :: "'o dedup_run"
  assumes "unique_ids (dr_rows r)" "files = filter (dedup_eligible uid) (dr_rows r)" "distinct (order files)"
    and "RunDedupForUser cancelled fail hashf uid False False order r = (e, r')" "\<forall>env. fst (fail env) = None"
    and "h \<in> set (order files)" "hash_group files h = c # ds" "f_ref c = Some i" "d \<in> set ds" "i = f_id d"
  shows "{f \<in> set (dr_rows r'). dedup_eligible uid f \<and> f_hash f = Some h \<and> f_ref f = None} = {}
    \<and> f_ref (link_row c d) = Some (f_id c) \<and> link_row c d \<in> set (dr_rows r') \<and> c \<in> set (dr_rows r')"
proof -
  from run_links [OF assms(1-4)] assms(5) have rows: "dr_rows r' = linked_rows files (dup_ids files (order files)) (dr_rows r)"
    by blast
  let ?L = "dup_ids files (order files)"
  have same: "f = g" if "f \<in> set (dr_rows r)" "g \<in> set (dr_rows r)" "f_id f = f_id g" for f g
    using assms(1) that by (auto simp: unique_ids_def distinct_map inj_on_def)
  have grp: "f \<in> set files \<and> f_hash f = Some h" if "f \<in> set (c # ds)" for f
    using that unfolding assms(7) [symmetric] by (simp add: hash_group_def)
  have dL: "f_id f \<in> ?L" if "f \<in> set ds" for f
    using that assms(6,7) by (auto simp: dup_ids_def intro!: bexI [of _ h])
  have "f_ref f \<noteq> None" if f: "f \<in> set (dr_rows r')" "dedup_eligible uid f" "f_hash f = Some h" for f
  proof -
    from f(1) obtain g where g: "g \<in> set (dr_rows r)" "f = (if f_id g \<in> ?L then link_row (canonical_of files g) g else g)"
      by (auto simp: rows linked_rows_def)
    show ?thesis
    proof (cases "f_id g \<in> ?L")
      case True
      with g show ?thesis by (simp add: link_row_def)
    next
      case False
      with f g have "g \<in> set (hash_group files h)" by (simp add: hash_group_def assms(2))
      with False dL assms(7) have "g = c" by auto
      with False g assms(8) show ?thesis by simp
    qed
  qed
  moreover have "link_row c d \<in> set (dr_rows r')"
  proof -
    have "d \<in> set (dr_rows r)" "canonical_of files d = c"
      using grp [of d] assms(2,7,9) by (auto simp: canonical_of_def opt_str_def)
    then show ?thesis using dL [OF assms(9)] by (auto simp: rows linked_rows_def image_iff intro!: bexI [of _ d])
  qed
  moreover have "c \<in> set (dr_rows r')"
  proof -
    have c: "c \<in> set (dr_rows r)" using grp [of c] assms(2) by auto
    have "f_id c \<notin> ?L"
    proof
      assume "f_id c \<in> ?L"
      then obtain k f where k: "f \<in> set (tl (hash_group files k))" "f_id f = f_id c" by (auto simp: dup_ids_def)
      from tl_group [OF k(1)] have "f \<in> set (dr_rows r)" "f_hash f = Some k" by (simp_all add: assms(2))
      with same [OF _ c k(2)] grp [of c] have "f = c" "k = h" by auto
      with k assms(7) have "c \<in> set ds" by simp
      moreover have "distinct (hash_group files h)"
        using assms(1,2) by (auto simp: hash_group_def unique_ids_def dest: distinct_map [THEN iffD1])
      ultimately show False using assms(7) by simp
    qed
    with c show ?thesis by (auto simp: rows linked_rows_def image_iff intro!: bexI [of _ c])
  qed
  ultimately show ?thesis by (auto simp: link_row_def)
qed

section \<open>Example runs\<close>

text \<open>Two files of one user with the same content; the first refers to the second.\<close>

definition dup_row :: "string \<Rightarrow> string \<Rightarrow> string option \<Rightarrow> FileRow" where
  "dup_row i name ref = (mk_row i name FILE 1 (Some ''r''))\<lparr> f_hash := Some ''h'', f_encrypted := Some False, f_ref := ref \<rparr>"

definition dup_rows :: "FileRow list" where
  "dup_rows = [dup_row ''a'' ''a.txt'' (Some ''b''), dup_row ''b'' ''b.txt'' None]"

definition dup_run :: "nat dedup_run" where
  "dup_run = \<lparr> dr_rows = dup_rows, dr_env = 0,
     dr_stats = \<lparr> ds_users = 1, ds_groups = 0, ds_linked = 0, ds_backfilled = 0, ds_skipped = 0 \<rparr>, dr_hooks = [] \<rparr>"

text \<open>No statement fails.\<close>

definition never_fails :: "nat \<Rightarrow> go_err option \<times> nat" where
  "never_fails n = (None, n + 1)"

definition dup_after :: "nat dedup_run" where
  "dup_after = snd (RunDedupForUser (\<lambda>_. False) never_fails (\<lambda>_. Inr '''') 1 False False (\<lambda>_. [''h'']) dup_run)"

lemma dup_facts:
  "unique_ids (dr_rows dup_run)" "filter (dedup_eligible 1) (dr_rows dup_run) = dup_rows"
  "hash_group dup_rows ''h'' = dup_rows" "\<forall>env. fst (never_fails env) = None"
  by (simp_all add: unique_ids_def dup_run_def dup_rows_def dup_row_def mk_row_def dedup_eligible_def opt_str_def
      hash_group_def never_fails_def)

theorem RunDedupForUser_links_witness:
  "dr_rows dup_after = linked_rows dup_rows {''b''} dup_rows \<and> ds_linked (dr_stats dup_after) = 1"
proof -
  have "dup_ids dup_rows [''h''] = {''b''}" by (simp add: dup_ids_def dup_facts) (simp add: dup_rows_def dup_row_def mk_row_def)
  moreover obtain e r' where "RunDedupForUser (\<lambda>_. False) never_fails (\<lambda>_. Inr '''') 1 False False (\<lambda>_. [''h'']) dup_run = (e, r')"
    by fastforce
  ultimately show ?thesis
    using RunDedupForUser_links [OF dup_facts(1) dup_facts(2) [symmetric], of "\<lambda>_. [''h'']"
        "\<lambda>_. False" never_fails "\<lambda>_. Inr ''''" e r'] dup_facts(4)
    by (auto simp: dup_after_def dup_run_def)
qed

theorem RunDedupForUser_loses_canonical_witness:
  "{f \<in> set (dr_rows dup_after). dedup_eligible 1 f \<and> f_hash f = Some ''h'' \<and> f_ref f = None} = {}"
proof -
  obtain e r' where r: "RunDedupForUser (\<lambda>_. False) never_fails (\<lambda>_. Inr '''') 1 False False (\<lambda>_. [''h'']) dup_run = (e, r')"
    by fastforce
  have g: "hash_group dup_rows ''h'' = dup_row ''a'' ''a.txt'' (Some ''b'') # [dup_row ''b'' ''b.txt'' None]"
    by (simp add: dup_facts) (simp add: dup_rows_def)
  have s: "f_ref (dup_row ''a'' ''a.txt'' (Some ''b'')) = Some ''b''" "''b'' = f_id (dup_row ''b'' ''b.txt'' None)"
    "dup_row ''b'' ''b.txt'' None \<in> set [dup_row ''b'' ''b.txt'' None]" "distinct [''h'']" "''h'' \<in> set [''h'']"
    by (simp_all add: dup_row_def mk_row_def)
  from RunDedupForUser_loses_canonical [OF dup_facts(1) dup_facts(2) [symmetric] s(4) r dup_facts(4) s(5) g s(1) s(3) s(2)]
  show ?thesis by (simp add: dup_after_def r)
qed

end
