(* ===== verification/DedupJobs.thy ===== *)
theory DedupJobs
  imports Dedup
begin

text \<open>
  The in-memory store of deduplication jobs and the handlers around it (pkg/services/dedup.go). The store is a list of
  records in the order Go meets them; times are numbers.
\<close>

section \<open>The store\<close>

datatype job_status = JobPending | JobRunning | JobCompleted | JobFailed

record DedupJobOptions =
  jo_user :: string
  jo_all :: bool
  jo_dry :: bool
  jo_backfill :: bool

record dedupJobRecord =
  dj_user :: int
  dj_id :: string
  dj_status :: job_status
  dj_options :: DedupJobOptions
  dj_stats :: DedupStats
  dj_progress :: "(dedup_phase \<times> nat \<times> nat) option"
  dj_error :: "go_err option"
  dj_started :: int
  dj_finished :: "int option"

definition maxDedupJobsPerUser :: nat where "maxDedupJobsPerUser = 20"

definition no_stats :: DedupStats where
  "no_stats = \<lparr> ds_users = 0, ds_groups = 0, ds_linked = 0, ds_backfilled = 0, ds_skipped = 0 \<rparr>"

text \<open>The index of the first job no other started before.\<close>

definition oldestIdx :: "dedupJobRecord list \<Rightarrow> nat" where
  "oldestIdx owned =
     foldl (\<lambda>oldest i. if dj_started (owned ! i) < dj_started (owned ! oldest) then i else oldest) 0 [0..<length owned]"

lemma oldest_fold:
  assumes "owned \<noteq> []" "k \<le> length owned"
  shows "(let b = foldl (\<lambda>oldest i. if dj_started (owned ! i) < dj_started (owned ! oldest) then i else oldest) 0 [0..<k]
    in b < length owned \<and> (\<forall>i < k. dj_started (owned ! b) \<le> dj_started (owned ! i)))"
  using assms(2)
proof (induction k)
  case 0
  with assms(1) show ?case by simp
next
  case (Suc k)
  then show ?case by (auto simp: Let_def less_Suc_eq)
qed

lemma oldestIdx_less: "owned \<noteq> [] \<Longrightarrow> oldestIdx owned < length owned"
  using oldest_fold [of owned "length owned"] by (simp add: oldestIdx_def Let_def)

lemma oldestIdx_least: "j \<in> set owned \<Longrightarrow> dj_started (owned ! oldestIdx owned) \<le> dj_started j"
proof -
  assume "j \<in> set owned"
  then obtain i where i: "i < length owned" "owned ! i = j" by (auto simp: in_set_conv_nth)
  then have "owned \<noteq> []" by auto
  from oldest_fold [OF this order.refl] i show ?thesis unfolding oldestIdx_def Let_def by blast
qed

definition remove_at :: "nat \<Rightarrow> 'a list \<Rightarrow> 'a list" where
  "remove_at i xs = take i xs @ drop (Suc i) xs"

lemma length_remove_at [simp]: "i < length xs \<Longrightarrow> length (remove_at i xs) = length xs - 1"
  by (simp add: remove_at_def)

function prune_loop :: "dedupJobRecord list \<Rightarrow> dedupJobRecord list \<Rightarrow> dedupJobRecord list" where
  "prune_loop owned jobs =
     (if length owned \<le> maxDedupJobsPerUser then jobs
      else prune_loop (remove_at (oldestIdx owned) owned)
             (filter (\<lambda>j. dj_id j \<noteq> dj_id (owned ! oldestIdx owned)) jobs))"
  by pat_completeness auto

termination
proof (relation "measure (\<lambda>(owned, jobs). length owned)")
  fix owned jobs :: "dedupJobRecord list"
  assume "\<not> length owned \<le> maxDedupJobsPerUser"
  then have "owned \<noteq> []" by auto
  then have "oldestIdx owned < length owned" "0 < length owned" by (simp_all add: oldestIdx_less)
  then show "((remove_at (oldestIdx owned) owned, filter (\<lambda>j. dj_id j \<noteq> dj_id (owned ! oldestIdx owned)) jobs), owned, jobs)
      \<in> measure (\<lambda>(owned, jobs). length owned)" by simp
qed simp

declare prune_loop.simps [simp del]

definition pruneLocked :: "int \<Rightarrow> dedupJobRecord list \<Rightarrow> dedupJobRecord list" where
  "pruneLocked userID jobs = prune_loop (filter (\<lambda>j. dj_user j = userID) jobs) jobs"

text \<open>\<open>new_id\<close> is a fresh UUID.\<close>

definition dedup_create :: "string \<Rightarrow> int \<Rightarrow> int \<Rightarrow> DedupJobOptions \<Rightarrow> dedupJobRecord list \<Rightarrow> dedupJobRecord \<times> dedupJobRecord list" where
  "dedup_create new_id now userID opts jobs =
     (let job = \<lparr> dj_user = userID, dj_id = new_id, dj_status = JobPending, dj_options = opts, dj_stats = no_stats,
                  dj_progress = None, dj_error = None, dj_started = now, dj_finished = None \<rparr>
      in (job, pruneLocked userID (jobs @ [job])))"

definition dedup_update :: "string \<Rightarrow> (dedupJobRecord \<Rightarrow> dedupJobRecord) \<Rightarrow> dedupJobRecord list \<Rightarrow> dedupJobRecord list" where
  "dedup_update i fn jobs = update_where (\<lambda>j. dj_id j = i) fn jobs"

definition dedup_get :: "int \<Rightarrow> string \<Rightarrow> dedupJobRecord list \<Rightarrow> dedupJobRecord option" where
  "dedup_get userID i jobs =
     (case first_where (\<lambda>j. dj_id j = i) jobs of
        None \<Rightarrow> None
      | Some rec \<Rightarrow> if dj_user rec \<noteq> userID then None else Some rec)"

definition dedup_list :: "int \<Rightarrow> dedupJobRecord list \<Rightarrow> dedupJobRecord list" where
  "dedup_list userID jobs = filter (\<lambda>j. dj_user j = userID) jobs"

section \<open>The handlers\<close>

text \<open>The job started; its run is \<open>runDedupJob\<close>.\<close>

definition DedupStartJob ::
    "string \<Rightarrow> int \<Rightarrow> int \<Rightarrow> DedupJobOptions \<Rightarrow> dedupJobRecord list \<Rightarrow> (svc_err + dedupJobRecord) \<times> dedupJobRecord list" where
  "DedupStartJob new_id now userID req jobs =
     (if jo_user req \<noteq> '''' \<or> jo_all req
      then (Inl (ApiErr (EMsg ''targeting another user or all users is admin only and not enabled'') 403), jobs)
      else let (job, jobs) = dedup_create new_id now userID req jobs in (Inr job, jobs))"

definition DedupGetJob :: "int \<Rightarrow> string \<Rightarrow> dedupJobRecord list \<Rightarrow> svc_err + dedupJobRecord" where
  "DedupGetJob userID i jobs =
     (case dedup_get userID i jobs of None \<Rightarrow> Inl (ApiErr (EMsg ''dedup job not found'') 404) | Some j \<Rightarrow> Inr j)"

text \<open>What the hooks of a job publish: phases and progress, with the statistics of that moment.\<close>

definition publish :: "string \<Rightarrow> DedupStats \<Rightarrow> dedup_phase \<Rightarrow> nat \<Rightarrow> nat \<Rightarrow> dedupJobRecord list \<Rightarrow> dedupJobRecord list" where
  "publish i stats phase cur tot jobs =
     dedup_update i (\<lambda>j. j\<lparr> dj_stats := stats, dj_progress := Some (phase, cur, tot) \<rparr>) jobs"

definition job_running :: "string \<Rightarrow> dedupJobRecord list \<Rightarrow> dedupJobRecord list" where
  "job_running i jobs = dedup_update i (\<lambda>j. j\<lparr> dj_status := JobRunning \<rparr>) jobs"

definition job_finished :: "string \<Rightarrow> go_err option \<Rightarrow> DedupStats \<Rightarrow> int \<Rightarrow> dedupJobRecord list \<Rightarrow> dedupJobRecord list" where
  "job_finished i err stats now jobs =
     (case err of
        Some e \<Rightarrow> dedup_update i (\<lambda>j. j\<lparr> dj_status := JobFailed, dj_error := Some e, dj_stats := stats,
                    dj_progress := None, dj_finished := Some now \<rparr>) jobs
      | None \<Rightarrow> dedup_update i (\<lambda>j. j\<lparr> dj_status := JobCompleted, dj_stats := stats,
                    dj_progress := None, dj_finished := Some now \<rparr>) jobs)"

definition runDedupJob ::
    "(nat \<Rightarrow> bool) \<Rightarrow> ('o \<Rightarrow> go_err option \<times> 'o) \<Rightarrow> (FileRow \<Rightarrow> go_err + string) \<Rightarrow> (FileRow list \<Rightarrow> string list) \<Rightarrow> int
     \<Rightarrow> string \<Rightarrow> int \<Rightarrow> DedupJobOptions \<Rightarrow> FileRow list \<Rightarrow> 'o \<Rightarrow> dedupJobRecord list
     \<Rightarrow> FileRow list \<times> 'o \<times> dedupJobRecord list" where
  "runDedupJob cancelled fail hashf order now i userID opts rows env jobs =
     (case RunDedupForUser cancelled fail hashf userID (jo_dry opts) (jo_backfill opts) order
             \<lparr> dr_rows = rows, dr_env = env, dr_stats = no_stats\<lparr> ds_users := 1 \<rparr>, dr_hooks = [] \<rparr> of
        (err, r) \<Rightarrow> (dr_rows r, dr_env r, job_finished i err (dr_stats r) now (job_running i jobs)))"

text \<open>\<open>None\<close> is the missing flag \<open>ToFileOut\<close> dereferences.\<close>

definition FilesDuplicates :: "int \<Rightarrow> string \<Rightarrow> svc \<Rightarrow> svc_err + FileOut option list" where
  "FilesDuplicates userID i s =
     (case first_where (\<lambda>f. f_id f = i \<and> f_user f = userID) (sv_files s) of
        None \<Rightarrow> Inl (ApiErr (EMsg ''file not found'') 404)
      | Some source \<Rightarrow>
          if opt_str (f_hash source) = '''' then Inr []
          else Inr (map ToFileOut (filter (\<lambda>f. f_user f = userID \<and> f_hash f = f_hash source \<and> f_id f \<noteq> i
                 \<and> f_encrypted f = Some False \<and> f_status f = ACTIVE) (sv_files s))))"

definition currentDedupStats :: "int \<Rightarrow> svc \<Rightarrow> DedupStats" where
  "currentDedupStats userID s =
     (let files = filter (dedup_eligible userID) (sv_files s);
          hashes = remdups (map (\<lambda>f. opt_str (f_hash f)) files)
      in \<lparr> ds_users = 1, ds_groups = length (filter (\<lambda>h. length (hash_group files h) > 1) hashes),
           ds_linked = length (filter (\<lambda>f. f_user f = userID \<and> f_ref f \<noteq> None \<and> f_status f = ACTIVE) (sv_files s)),
           ds_backfilled = 0, ds_skipped = 0 \<rparr>)"

section \<open>Pruning\<close>

lemma remove_at_parts: "i < length xs \<Longrightarrow> xs = take i xs @ (xs ! i) # drop (Suc i) xs"
  by (simp add: id_take_nth_drop)

lemma set_remove_at: "distinct xs \<Longrightarrow> i < length xs \<Longrightarrow> set (remove_at i xs) = set xs - {xs ! i}"
proof -
  assume d: "distinct xs" and i: "i < length xs"
  have "distinct (take i xs @ (xs ! i) # drop (Suc i) xs)" "set xs = set (take i xs @ (xs ! i) # drop (Suc i) xs)"
    using d remove_at_parts [OF i] by simp_all
  then show ?thesis by (auto simp: remove_at_def)
qed

lemma distinct_remove_at: "distinct xs \<Longrightarrow> i < length xs \<Longrightarrow> distinct (remove_at i xs)"
  using remove_at_parts [of i xs] by (metis distinct_append distinct.simps(2) remove_at_def disjoint_insert(1) list.simps(15))

lemma prune_loop_result:
  "distinct (map dj_id jobs) \<Longrightarrow> distinct owned \<Longrightarrow> set owned \<subseteq> set jobs \<Longrightarrow>
   \<exists>gone \<subseteq> set owned. prune_loop owned jobs = filter (\<lambda>j. j \<notin> gone) jobs
     \<and> card (set owned - gone) = min (length owned) maxDedupJobsPerUser
     \<and> (\<forall>g \<in> gone. \<forall>k \<in> set owned - gone. dj_started g \<le> dj_started k)"
proof (induction owned jobs rule: prune_loop.induct)
  case (1 owned jobs)
  show ?case
  proof (cases "length owned \<le> maxDedupJobsPerUser")
    case True
    then show ?thesis
      using "1.prems"(2) by (intro exI [of _ "{}"]) (simp add: prune_loop.simps [of owned] distinct_card)
  next
    case False
    let ?i = "oldestIdx owned"
    let ?o = "owned ! ?i" and ?jobs = "filter (\<lambda>j. dj_id j \<noteq> dj_id (owned ! ?i)) jobs"
    have i: "?i < length owned" using False by (intro oldestIdx_less) auto
    then have o: "?o \<in> set owned" by simp
    have inj: "j = k" if "j \<in> set jobs" "k \<in> set jobs" "dj_id j = dj_id k" for j k
      using "1.prems"(1) that by (auto simp: distinct_map inj_on_def)
    have jobs: "?jobs = filter (\<lambda>j. j \<noteq> ?o) jobs"
      using inj o "1.prems"(3) by (intro filter_cong) auto
    have sub: "set (remove_at ?i owned) \<subseteq> set ?jobs"
      unfolding jobs using set_remove_at [OF "1.prems"(2) i] "1.prems"(3) by auto
    have dj: "distinct (map dj_id ?jobs)" using "1.prems"(1) by (simp add: distinct_map_filter)
    have do: "distinct (remove_at ?i owned)" by (rule distinct_remove_at [OF "1.prems"(2) i])
    from "1.IH" [OF False dj do sub] obtain gone where g: "gone \<subseteq> set (remove_at ?i owned)"
      "prune_loop (remove_at ?i owned) ?jobs = filter (\<lambda>j. j \<notin> gone) ?jobs"
      "card (set (remove_at ?i owned) - gone) = min (length (remove_at ?i owned)) maxDedupJobsPerUser"
      "\<forall>g \<in> gone. \<forall>k \<in> set (remove_at ?i owned) - gone. dj_started g \<le> dj_started k" by blast
    have r: "set (remove_at ?i owned) = set owned - {?o}" by (rule set_remove_at [OF "1.prems"(2) i])
    have e: "set owned - insert ?o gone = set (remove_at ?i owned) - gone" unfolding r by blast
    have m: "min (length (remove_at ?i owned)) maxDedupJobsPerUser = min (length owned) maxDedupJobsPerUser"
      using False i by simp
    show ?thesis
    proof (intro exI conjI)
      show "insert ?o gone \<subseteq> set owned" using g(1) r o by auto
      have "prune_loop owned jobs = prune_loop (remove_at ?i owned) ?jobs" using False by (subst prune_loop.simps) simp
      also have "\<dots> = filter (\<lambda>j. j \<notin> insert ?o gone) jobs"
        unfolding g(2) unfolding jobs filter_filter by (rule filter_cong) auto
      finally show "prune_loop owned jobs = filter (\<lambda>j. j \<notin> insert ?o gone) jobs" .
      show "card (set owned - insert ?o gone) = min (length owned) maxDedupJobsPerUser" unfolding e using g(3) m by simp
      show "\<forall>g \<in> insert ?o gone. \<forall>k \<in> set owned - insert ?o gone. dj_started g \<le> dj_started k"
        unfolding e using g(4) r oldestIdx_least [of _ owned] by auto
    qed
  qed
qed

section \<open>The store stays bounded\<close>

text \<open>Creating a job never touches the jobs of other users, and prunes only the oldest of the user's own.\<close>

theorem dedup_create_bounded:
  assumes "distinct (map dj_id jobs)" "new_id \<notin> dj_id ` set jobs"
    and "dedup_create new_id now userID opts jobs = (job, jobs')"
  shows "distinct (map dj_id jobs') \<and> set jobs' \<subseteq> insert job (set jobs)
    \<and> (\<forall>v. v \<noteq> userID \<longrightarrow> dedup_list v jobs' = dedup_list v jobs)
    \<and> length (dedup_list userID jobs') = min (length (dedup_list userID jobs) + 1) maxDedupJobsPerUser
    \<and> (\<forall>old \<in> insert job (set jobs) - set jobs'. dj_user old = userID
         \<and> (\<forall>kept \<in> set (dedup_list userID jobs'). dj_started old \<le> dj_started kept))"
proof -
  let ?all = "jobs @ [job]" and ?owned = "filter (\<lambda>j. dj_user j = userID) (jobs @ [job])"
  have job: "dj_id job = new_id" "dj_user job = userID" "jobs' = prune_loop ?owned ?all"
    using assms(3) by (auto simp: dedup_create_def pruneLocked_def Let_def)
  have d: "distinct (map dj_id ?all)" using assms(1,2) job(1) by auto
  then have da: "distinct ?all" by (simp only: distinct_map)
  then have "distinct ?owned" by (rule distinct_filter)
  from prune_loop_result [OF d this] obtain gone where g: "gone \<subseteq> set ?owned"
    "jobs' = filter (\<lambda>j. j \<notin> gone) ?all" "card (set ?owned - gone) = min (length ?owned) maxDedupJobsPerUser"
    "\<forall>g \<in> gone. \<forall>k \<in> set ?owned - gone. dj_started g \<le> dj_started k"
    unfolding job(3) by (auto simp del: filter_append)
  have own: "set (dedup_list userID jobs') = set ?owned - gone" unfolding dedup_list_def g(2) by auto
  have mine: "dj_user j = userID" if "j \<in> gone" for j using g(1) that job(2) by auto
  have "distinct (map dj_id jobs')" unfolding g(2) by (rule distinct_map_filter [OF d])
  moreover have "set jobs' \<subseteq> insert job (set jobs)" unfolding g(2) by auto
  moreover have "dedup_list v jobs' = dedup_list v jobs" if "v \<noteq> userID" for v
  proof -
    have "dedup_list v jobs' = filter (\<lambda>j. dj_user j = v) ?all"
      unfolding dedup_list_def g(2) filter_filter using mine that by (intro filter_cong) auto
    with job(2) that show ?thesis by (simp add: dedup_list_def)
  qed
  moreover have "length (dedup_list userID jobs') = min (length (dedup_list userID jobs) + 1) maxDedupJobsPerUser"
  proof -
    have "distinct (dedup_list userID jobs')" unfolding dedup_list_def g(2) using da by (intro distinct_filter)
    from distinct_card [OF this] have "length (dedup_list userID jobs') = card (set ?owned - gone)" unfolding own by (rule sym)
    moreover have "length ?owned = length (dedup_list userID jobs) + 1" using job(2) by (simp add: dedup_list_def)
    ultimately show ?thesis using g(3) by simp
  qed
  moreover have "dj_user old = userID \<and> (\<forall>kept \<in> set (dedup_list userID jobs'). dj_started old \<le> dj_started kept)"
    if "old \<in> insert job (set jobs) - set jobs'" for old
  proof -
    have "old \<in> gone" using that unfolding g(2) by (auto split: if_splits)
    then show ?thesis using mine g(4) unfolding own by simp
  qed
  ultimately show ?thesis by blast
qed

definition demo_job :: "string \<Rightarrow> int \<Rightarrow> int \<Rightarrow> dedupJobRecord" where
  "demo_job i uid t = \<lparr> dj_user = uid, dj_id = i, dj_status = JobCompleted,
     dj_options = \<lparr> jo_user = '''', jo_all = False, jo_dry = True, jo_backfill = False \<rparr>, dj_stats = no_stats,
     dj_progress = None, dj_error = None, dj_started = t, dj_finished = Some t \<rparr>"

definition demo_jobs :: "dedupJobRecord list" where
  "demo_jobs = demo_job ''other'' 8 0 # map (\<lambda>n. demo_job (replicate n CHR ''j'') 7 (int n)) [1..<21]"

theorem dedup_create_bounded_witness:
  "length (dedup_list 7 (snd (dedup_create ''new'' 50 7 (dj_options (demo_job '''' 7 0)) demo_jobs))) = 20
   \<and> dedup_list 8 (snd (dedup_create ''new'' 50 7 (dj_options (demo_job '''' 7 0)) demo_jobs)) = [demo_job ''other'' 8 0]"
proof -
  have "distinct (map dj_id demo_jobs) \<and> ''new'' \<notin> dj_id ` set demo_jobs" by code_simp
  moreover have "length (dedup_list 7 demo_jobs) = 20 \<and> dedup_list 8 demo_jobs = [demo_job ''other'' 8 0]" by code_simp
  ultimately show ?thesis
    using dedup_create_bounded [of demo_jobs "''new''" 50 7 "dj_options (demo_job '''' 7 0)"
        "fst (dedup_create ''new'' 50 7 (dj_options (demo_job '''' 7 0)) demo_jobs)"
        "snd (dedup_create ''new'' 50 7 (dj_options (demo_job '''' 7 0)) demo_jobs)"]
    by (simp add: maxDedupJobsPerUser_def)
qed

end
