(* ===== verification/BotSelector.thy ===== *)
theory BotSelector
  imports Service HttpRange
begin

text \<open>
  Which bot serves the next request (internal/tgc/bot_selector.go): a counter per user and kind of
  operation, in memory or in Redis, read as an index into the list of bots. The promise of both is stated once, as the
  locale \<open>round_robin\<close> over the steps of one counter.
\<close>

section \<open>The selectors\<close>

datatype BotOp = BotOpStream | BotOpUpload

definition op_string :: "BotOp \<Rightarrow> string" where
  "op_string op = (case op of BotOpStream \<Rightarrow> ''stream'' | BotOpUpload \<Rightarrow> ''upload'')"

definition selectorKey :: "BotOp \<Rightarrow> int \<Rightarrow> string" where
  "selectorKey op userID = op_string op @ '':'' @ show_int userID"

text \<open>\<open>currIdx\<close>: a missing key counts 0.\<close>

type_synonym currIdx = "string \<Rightarrow> nat"

text \<open>
  The result of \<open>Next\<close>; \<open>NextPanic\<close> is the index out of range, after which the counter has been set.
\<close>

datatype next_result = NextErr string | NextPanic | NextBot string nat

definition MemoryBotSelector_Next :: "BotOp \<Rightarrow> int \<Rightarrow> string list \<Rightarrow> currIdx \<Rightarrow> next_result \<times> currIdx" where
  "MemoryBotSelector_Next op userID bots m =
     (if bots = [] then (NextErr ''no bots available'', m)
      else
        let key = selectorKey op userID;
            idx = m key;
            m' = m(key := (idx + 1) mod length bots)
        in (if idx < length bots then NextBot (bots ! idx) idx else NextPanic, m'))"

definition redis_key :: "BotOp \<Rightarrow> int \<Rightarrow> string" where
  "redis_key op uid = ''teldrive:bot_idx:'' @ op_string op @ '':'' @ show_int uid"

text \<open>\<open>incr\<close> is the server's \<open>INCR\<close>: the new value of a counter, or an error.\<close>

definition RedisBotSelector_Next ::
    "(string \<Rightarrow> 'r \<Rightarrow> (string + int) \<times> 'r) \<Rightarrow> BotOp \<Rightarrow> int \<Rightarrow> string list \<Rightarrow> 'r \<Rightarrow> next_result \<times> 'r" where
  "RedisBotSelector_Next incr op userID bots r =
     (if bots = [] then (NextErr ''no bots available'', r)
      else
        (case incr (redis_key op userID) r of
           (Inl e, r) \<Rightarrow> (NextErr (''redis incr failed: '' @ e), r)
         | (Inr idx, r) \<Rightarrow>
             let actualIdx = go_mod (i64 (idx - 1)) (int (length bots))
             in (if 0 \<le> actualIdx \<and> nat actualIdx < length bots
                 then NextBot (bots ! nat actualIdx) (nat actualIdx) else NextPanic, r)))"

section \<open>Keys\<close>

lemma show_nat_inject: "show_nat m = show_nat n \<Longrightarrow> m = n"
  by (metis show_nat_digits)

lemma show_int_inject: "show_int m = show_int n \<Longrightarrow> m = n"
proof -
  assume h: "show_int m = show_int n"
  have no: "show_nat a \<noteq> CHR ''-'' # b" for a b
    using show_nat_no_sep(1) [of a] by auto
  show ?thesis
  proof (cases "m < 0"; cases "n < 0")
    assume "m < 0" "n < 0"
    with h have "show_nat (nat (- m)) = show_nat (nat (- n))" by (simp add: show_int_def)
    then have "nat (- m) = nat (- n)" by (rule show_nat_inject)
    with \<open>m < 0\<close> \<open>n < 0\<close> show ?thesis by simp
  next
    assume "\<not> m < 0" "\<not> n < 0"
    with h have "show_nat (nat m) = show_nat (nat n)" by (simp add: show_int_def)
    then have "nat m = nat n" by (rule show_nat_inject)
    with \<open>\<not> m < 0\<close> \<open>\<not> n < 0\<close> show ?thesis by simp
  next
    assume "m < 0" "\<not> n < 0"
    with h no [of "nat n" "show_nat (nat (- m))"] show ?thesis by (auto simp: show_int_def)
  next
    assume "\<not> m < 0" "n < 0"
    with h no show ?thesis by (simp add: show_int_def)
  qed
qed

lemma selectorKey_inject: "selectorKey op u = selectorKey op' u' \<longleftrightarrow> op = op' \<and> u = u'"
  by (auto simp: selectorKey_def op_string_def split: BotOp.splits dest: show_int_inject)

section \<open>Round robin\<close>

text \<open>
  The contract of one counter over \<open>n\<close> bots: a step returns the position of the counter and moves it on by one. What it
  promises is proved once: \<open>k\<close> steps return the \<open>k\<close> positions that follow, so \<open>n\<close> of them visit every bot once.
\<close>

locale round_robin =
  fixes step :: "'s \<Rightarrow> nat option \<times> 's" and pos :: "'s \<Rightarrow> nat" and ok :: "'s \<Rightarrow> bool" and n :: nat
  assumes n_pos: "0 < n"
    and step_result: "ok s \<Longrightarrow> fst (step s) = Some (pos s)"
    and step_pos: "ok s \<Longrightarrow> pos (snd (step s)) = (pos s + 1) mod n"
    and step_ok: "ok s \<Longrightarrow> ok (snd (step s))"
    and pos_less: "ok s \<Longrightarrow> pos s < n"
begin

fun steps :: "nat \<Rightarrow> 's \<Rightarrow> nat option list \<times> 's" where
  "steps 0 s = ([], s)"
| "steps (Suc k) s = (let (r, s) = step s; (rs, s) = steps k s in (r # rs, s))"

lemma steps_results:
  "ok s \<Longrightarrow> fst (steps k s) = map (\<lambda>j. Some ((pos s + j) mod n)) [0..<k] \<and> ok (snd (steps k s))"
proof (induction k arbitrary: s)
  case (Suc k)
  obtain r s' where s': "step s = (r, s')" by fastforce
  with Suc.prems have r: "r = Some (pos s)" "pos s' = (pos s + 1) mod n" "ok s'"
    using step_result step_pos step_ok by (metis fst_conv, metis snd_conv, metis snd_conv)
  have "map (\<lambda>j. Some ((pos s' + j) mod n)) [0..<k] = map (\<lambda>j. Some ((pos s + j) mod n)) (map Suc [0..<k])"
    by (simp add: r(2) mod_add_left_eq comp_def)
  moreover have "[0..<Suc k] = 0 # map Suc [0..<k]" by (simp only: map_Suc_upt upt_conv_Cons zero_less_Suc)
  moreover have "pos s mod n = pos s" using pos_less [OF Suc.prems] by simp
  ultimately show ?case using Suc.IH [OF r(3)] s' r(1) by (simp add: split_beta del: upt_Suc)
qed simp

lemma round_permutes:
  assumes "ok s" shows "distinct (fst (steps n s)) \<and> set (fst (steps n s)) = Some ` {0..<n}"
proof -
  let ?f = "\<lambda>j. (pos s + j) mod n"
  have inj: "inj_on ?f {0..<n}"
  proof (rule inj_onI)
    fix i j assume ij: "i \<in> {0..<n}" "j \<in> {0..<n}" "?f i = ?f j"
    then obtain q r where "pos s + i + n * q = pos s + j + n * r" unfolding nat_mod_eq_iff by blast
    then have "i + n * q = j + n * r" by simp
    then have "i mod n = j mod n" unfolding nat_mod_eq_iff by blast
    with ij show "i = j" by simp
  qed
  moreover have "?f ` {0..<n} \<subseteq> {0..<n}" using n_pos by auto
  ultimately have e: "?f ` {0..<n} = {0..<n}" by (simp add: endo_inj_surj)
  have "(\<lambda>j. Some (?f j)) ` {0..<n} = Some ` (?f ` {0..<n})" by (rule image_image [symmetric])
  then have "(\<lambda>j. Some (?f j)) ` {0..<n} = Some ` {0..<n}" unfolding e .
  moreover have "inj_on (\<lambda>j. Some (?f j)) {0..<n}"
    by (rule inj_onI) (simp only: option.inject inj_onD [OF inj])
  moreover have "fst (steps n s) = map (\<lambda>j. Some (?f j)) [0..<n]" using steps_results [OF assms] by blast
  ultimately show ?thesis by (simp only: distinct_map set_map set_upt distinct_upt simp_thms)
qed

end

section \<open>Both selectors are round robin\<close>

definition bot_index :: "next_result \<Rightarrow> nat option" where
  "bot_index r = (case r of NextBot _ i \<Rightarrow> Some i | _ \<Rightarrow> None)"

definition memory_step :: "BotOp \<Rightarrow> int \<Rightarrow> string list \<Rightarrow> currIdx \<Rightarrow> nat option \<times> currIdx" where
  "memory_step op uid bots m = (let (r, m) = MemoryBotSelector_Next op uid bots m in (bot_index r, m))"

text \<open>Any list of bots, written as its head and tail since it must not be empty.\<close>

interpretation memory_rr: round_robin "memory_step op uid (b # bs)" "\<lambda>m. m (selectorKey op uid)"
    "\<lambda>m. m (selectorKey op uid) < length (b # bs)" "length (b # bs)" for op uid b bs
  by unfold_locales (simp_all add: memory_step_def MemoryBotSelector_Next_def bot_index_def Let_def)

text \<open>A server whose counters are a map; \<open>INCR\<close> refuses to overflow.\<close>

definition redis_incr :: "string \<Rightarrow> (string \<Rightarrow> int) \<Rightarrow> (string + int) \<times> (string \<Rightarrow> int)" where
  "redis_incr k r = (if r k < max_int64 then (Inr (r k + 1), r(k := r k + 1))
     else (Inl ''ERR increment or decrement would overflow'', r))"

lemma redis_next:
  assumes "bots \<noteq> []" "0 \<le> r (redis_key op uid)" "r (redis_key op uid) < max_int64"
  shows "RedisBotSelector_Next redis_incr op uid bots r =
    (let i = nat (r (redis_key op uid)) mod length bots
     in (NextBot (bots ! i) i, r(redis_key op uid := r (redis_key op uid) + 1)))"
proof -
  let ?c = "r (redis_key op uid)" and ?n = "int (length bots)"
  have n: "0 < ?n" using assms(1) by simp
  have "i64 ?c = ?c" using assms(2,3) by (intro i64_id) (simp_all add: max_int64_def)
  then have g: "go_mod (i64 ?c) ?n = ?c mod ?n" using assms(2) n by simp
  have "nat (?c mod ?n) = nat ?c mod length bots" using assms(2) by (simp add: nat_mod_distrib)
  moreover have "nat ?c mod length bots < length bots" using assms(1) by simp
  ultimately show ?thesis
    using assms g n by (simp add: RedisBotSelector_Next_def redis_incr_def Let_def)
qed

lemma memory_round:
  assumes "m (selectorKey op uid) < length (b # bs)"
  shows "set (fst (round_robin.steps (memory_step op uid (b # bs)) (length (b # bs)) m)) = Some ` {0..<length (b # bs)}"
  using memory_rr.round_permutes [where s = m and op = op and uid = uid and b = b and bs = bs] assms by blast

text \<open>Interleaved requests: each names its operation and user; all requests of a user and operation come with the same bots.\<close>

fun memory_run :: "(BotOp \<times> int) list \<Rightarrow> (BotOp \<times> int \<Rightarrow> string list) \<Rightarrow> currIdx \<Rightarrow> (BotOp \<times> int \<times> next_result) list" where
  "memory_run [] bots m = []"
| "memory_run ((op, uid) # reqs) bots m =
     (let (r, m) = MemoryBotSelector_Next op uid (bots (op, uid)) m in (op, uid, r) # memory_run reqs bots m)"

lemma memory_next:
  assumes "m (selectorKey op uid) < length bs"
  shows "MemoryBotSelector_Next op uid bs m = (NextBot (bs ! m (selectorKey op uid)) (m (selectorKey op uid)),
    m(selectorKey op uid := (m (selectorKey op uid) + 1) mod length bs))"
  using assms by (auto simp: MemoryBotSelector_Next_def Let_def)

text \<open>
  Fairness. However the requests of users and operations interleave, the requests of one user for one
  operation get the bots of their list in turn, from where the counter stands: other users
  and the other operation do not disturb it, so over any run each bot is used equally often up to one.
\<close>

theorem memory_selector_fair:
  assumes "m (selectorKey op uid) < length (bots (op, uid))"
  shows "map (\<lambda>(_, _, r). r) (filter (\<lambda>(o', u, _). o' = op \<and> u = uid) (memory_run reqs bots m)) =
    map (\<lambda>j. let i = (m (selectorKey op uid) + j) mod length (bots (op, uid)) in NextBot (bots (op, uid) ! i) i)
      [0..<length (filter (\<lambda>q. q = (op, uid)) reqs)]"
  using assms
proof (induction reqs arbitrary: m)
  case (Cons q reqs)
  obtain o' u where q: "q = (o', u)" by fastforce
  let ?k = "selectorKey op uid" and ?n = "length (bots (op, uid))"
  show ?case
  proof (cases "o' = op \<and> u = uid")
    case True
    let ?m = "m(?k := (m ?k + 1) mod ?n)"
    have n: "0 < ?n" using Cons.prems by (cases "bots (op, uid)") auto
    then have I: "map (\<lambda>(_, _, r). r) (filter (\<lambda>(o', u, _). o' = op \<and> u = uid) (memory_run reqs bots ?m)) =
      map (\<lambda>j. let i = (?m ?k + j) mod ?n in NextBot (bots (op, uid) ! i) i) [0..<length (filter (\<lambda>q. q = (op, uid)) reqs)]"
      by (intro Cons.IH) simp
    have "[0..<Suc (length (filter (\<lambda>q. q = (op, uid)) reqs))] = 0 # map Suc [0..<length (filter (\<lambda>q. q = (op, uid)) reqs)]"
      by (simp only: map_Suc_upt upt_conv_Cons zero_less_Suc)
    with True q I Cons.prems show ?thesis
      by (simp add: memory_next Let_def mod_add_left_eq comp_def del: upt_Suc)
  next
    case False
    define r m' where "r = fst (MemoryBotSelector_Next o' u (bots (o', u)) m)"
      and "m' = snd (MemoryBotSelector_Next o' u (bots (o', u)) m)"
    have "m' ?k = m ?k"
      using False selectorKey_inject [of op uid o' u]
      by (auto simp: m'_def MemoryBotSelector_Next_def Let_def)
    with False q Cons.IH [of m'] Cons.prems show ?thesis
      by (auto simp: split_beta r_def m'_def)
  qed
qed simp

text \<open>
  The counter is an index into the list of the previous request: when the user has fewer bots than then (bots were
  removed, or the limit for streams is lower), the next request indexes out of range.
\<close>

lemma memory_selector_shrink:
  assumes "bots \<noteq> []" "length bots \<le> m (selectorKey op uid)"
  shows "fst (MemoryBotSelector_Next op uid bots m) = NextPanic"
  using assms by (simp add: MemoryBotSelector_Next_def Let_def)

theorem memory_selector_fair_witness:
  "map (\<lambda>(_, _, r). r) (filter (\<lambda>(o', u, _). o' = BotOpStream \<and> u = 7)
      (memory_run [(BotOpStream, 7), (BotOpUpload, 7), (BotOpStream, 7), (BotOpStream, 8), (BotOpStream, 7)]
         (\<lambda>_. [''a:1'', ''b:2'']) (\<lambda>_. 0)))
    = [NextBot ''a:1'' 0, NextBot ''b:2'' 1, NextBot ''a:1'' 0]"
proof -
  have "[0..<3] = [0, 1, 2::nat]" by (simp add: upt_rec)
  with memory_selector_fair [of "\<lambda>_. 0" BotOpStream 7 "\<lambda>_. [''a:1'', ''b:2'']"
     "[(BotOpStream, 7), (BotOpUpload, 7), (BotOpStream, 7), (BotOpStream, 8), (BotOpStream, 7)]"]
  show ?thesis by (simp add: numeral_eq_Suc del: upt_Suc)
qed

end
