(* ===== verification/Sessions.thy ===== *)
theory Sessions
  imports BotSelector
begin

text \<open>
  Users, sessions, bots and channels: internal/auth/auth.go, the database part of pkg/services/auth.go and
  pkg/services/user.go, and the lookups of internal/tgc/channel_manager.go. The JWT library, MD5 and the calls to
  Telegram are parameters.
\<close>

section \<open>State\<close>

record app =
  ap_svc :: svc
  ap_users :: "UserRow list"
  ap_sessions :: "SessionRow list"
  ap_bots :: "BotRow list"
  ap_channels :: "ChannelRow list"

definition app_cache :: "app \<Rightarrow> cval cmap" where "app_cache a = sv_cache (ap_svc a)"

definition app_Set :: "string \<Rightarrow> cval \<Rightarrow> app \<Rightarrow> app" where
  "app_Set k v a = a\<lparr> ap_svc := (ap_svc a)\<lparr> sv_cache := cm_Set k v 0 (app_cache a) \<rparr> \<rparr>"

definition app_Delete :: "string list \<Rightarrow> app \<Rightarrow> app" where
  "app_Delete ks a = a\<lparr> ap_svc := cache_Delete ks (ap_svc a) \<rparr>"

lemma app_cache_simps [simp]:
  "app_cache (app_Set k v a) = (app_cache a)(k \<mapsto> v)"
  "app_cache (app_Delete ks a) = (\<lambda>k. if k \<in> set ks then None else app_cache a k)"
  "ap_sessions (app_Set k v a) = ap_sessions a" "ap_sessions (app_Delete ks a) = ap_sessions a"
  "ap_bots (app_Set k v a) = ap_bots a" "ap_bots (app_Delete ks a) = ap_bots a"
  "ap_channels (app_Set k v a) = ap_channels a" "ap_channels (app_Delete ks a) = ap_channels a"
  "app_cache (a\<lparr> ap_sessions := ss \<rparr>) = app_cache a" "app_cache (a\<lparr> ap_bots := bs \<rparr>) = app_cache a"
  "app_cache (a\<lparr> ap_channels := cs \<rparr>) = app_cache a"
  by (simp_all add: app_cache_def app_Set_def app_Delete_def cm_Set_def cm_Delete_def cong: if_cong)

section \<open>Sessions (internal/auth)\<close>

record JWTClaims =
  jc_subject :: string
  jc_name :: string
  jc_userName :: string
  jc_premium :: bool
  jc_hash :: string
  jc_tgSession :: string
  jc_issued :: int
  jc_expires :: int

text \<open>\<open>parse\<close> is \<open>jwt.ParseWithClaims\<close>: the claims and whether the token is valid.\<close>

definition Decode :: "(string \<Rightarrow> string \<Rightarrow> svc_err + JWTClaims \<times> bool) \<Rightarrow> string \<Rightarrow> string \<Rightarrow> svc_err + JWTClaims" where
  "Decode parse secret token =
     (case parse secret token of
        Inl e \<Rightarrow> Inl e
      | Inr (claims, valid) \<Rightarrow> if \<not> valid then Inl (EMsg ''invalid token'') else Inr claims)"

text \<open>The number \<open>strconv.ParseInt\<close> returns beside its error: 0, or the bound when out of range.\<close>

definition subject_id :: "string \<Rightarrow> int" where
  "subject_id sub =
     (case ParseInt sub of
        Some n \<Rightarrow> n
      | None \<Rightarrow>
          let neg = HasPrefix sub ''-''; ds = (if neg \<or> HasPrefix sub ''+'' then tl sub else sub)
          in if ds = [] \<or> \<not> list_all is_digit ds then 0 else if neg then min_int64 else max_int64)"

definition GetUser :: "JWTClaims option \<Rightarrow> int" where
  "GetUser c = (case c of None \<Rightarrow> 0 | Some claims \<Rightarrow> subject_id (jc_subject claims))"

text \<open>An entry that does not decode as a session is a miss as well.\<close>

definition GetSessionByHash :: "string \<Rightarrow> app \<Rightarrow> (svc_err + SessionRow) \<times> app" where
  "GetSessionByHash h a =
     (let key = ''sessions:'' @ h in
      case cm_Get key (app_cache a) of
        Inr (CSession s) \<Rightarrow> (Inr s, a)
      | _ \<Rightarrow>
          (case first_where (\<lambda>s. se_hash s = h) (ap_sessions a) of
             None \<Rightarrow> (Inl ERecordNotFound, a)
           | Some s \<Rightarrow> (Inr s, app_Set key (CSession s) a)))"

text \<open>The newest session: the first row among those with the latest time.\<close>

definition newest_session :: "SessionRow list \<Rightarrow> SessionRow option" where
  "newest_session ss = first_where (\<lambda>s. \<forall>t \<in> set ss. se_created t \<le> se_created s) ss"

definition GetSessionByUserId :: "int \<Rightarrow> app \<Rightarrow> (svc_err + SessionRow) \<times> app" where
  "GetSessionByUserId userId a =
     (let key = KeySessionUser userId in
      case cm_Get key (app_cache a) of
        Inr (CSession s) \<Rightarrow> (Inr s, a)
      | _ \<Rightarrow>
          (case newest_session (filter (\<lambda>s. se_user s = userId) (ap_sessions a)) of
             None \<Rightarrow> (Inl ERecordNotFound, a)
           | Some s \<Rightarrow> (Inr s, app_Set key (CSession s) a)))"

definition VerifyUser ::
    "(string \<Rightarrow> string \<Rightarrow> svc_err + JWTClaims \<times> bool) \<Rightarrow> string \<Rightarrow> string \<Rightarrow> app \<Rightarrow> (svc_err + JWTClaims) \<times> app" where
  "VerifyUser parse secret authCookie a =
     (case Decode parse secret authCookie of
        Inl e \<Rightarrow> (Inl e, a)
      | Inr claims \<Rightarrow>
          (case GetSessionByHash (jc_hash claims) a of
             (Inl e, a) \<Rightarrow> (Inl (EMsg ''invalid session''), a)
           | (Inr s, a) \<Rightarrow> (Inr (claims\<lparr> jc_tgSession := se_session s \<rparr>), a)))"

text \<open>Both security handlers; the error is the \<open>SecurityError\<close> around the one given.\<close>

definition handleAuth ::
    "(string \<Rightarrow> string \<Rightarrow> svc_err + JWTClaims \<times> bool) \<Rightarrow> string \<Rightarrow> string \<Rightarrow> app \<Rightarrow> (svc_err + JWTClaims) \<times> app" where
  "handleAuth parse secret token a = VerifyUser parse secret token a"

section \<open>Logging in and out (pkg/services/auth.go)\<close>

definition checkUserIsAllowed :: "string list \<Rightarrow> string \<Rightarrow> bool" where
  "checkUserIsAllowed allowedUsers userName = (if allowedUsers \<noteq> [] then userName \<in> set allowedUsers else True)"

record SessionCreate =
  cr_session :: string
  cr_userId :: int
  cr_userName :: string
  cr_name :: string
  cr_premium :: bool

text \<open>The user and the root folder, both inserted unless there is a conflict.\<close>

definition login_rows :: "SessionCreate \<Rightarrow> string \<Rightarrow> int \<Rightarrow> app \<Rightarrow> app" where
  "login_rows session new_id now a =
     (let users = (if cr_userId session \<in> us_id ` set (ap_users a) then ap_users a
                   else ap_users a @ [\<lparr> us_id = cr_userId session, us_name = cr_name session,
                          us_userName = cr_userName session, us_premium = cr_premium session \<rparr>]);
          root = new_folder new_id ''root'' None (cr_userId session) now;
          files = sv_files (ap_svc a);
          files' = (if index_ok (files @ [root]) then files @ [root] else files)
      in a\<lparr> ap_users := users, ap_svc := (ap_svc a)\<lparr> sv_files := files' \<rparr> \<rparr>)"

text \<open>
  \<open>md5hex\<close> and \<open>sign\<close> are MD5 in hex and the JWT signature, \<open>authorizations\<close> what Telegram says of the session: the date of
  the current authorization, \<open>Inr None\<close> if none is current. The outer \<open>None\<close> is the dereference of that missing
  authorization; the rows inserted before stay.
\<close>

definition AuthLogin ::
    "string list \<Rightarrow> int \<Rightarrow> (string \<Rightarrow> string) \<Rightarrow> (JWTClaims \<Rightarrow> svc_err + string) \<Rightarrow> (string \<Rightarrow> svc_err + int option)
     \<Rightarrow> string \<Rightarrow> int \<Rightarrow> SessionCreate \<Rightarrow> app \<Rightarrow> (svc_err + string) option \<times> app" where
  "AuthLogin allowed sessionTime md5hex sign authorizations new_id now session a =
     (if \<not> checkUserIsAllowed allowed (cr_userName session) then (Some (Inl (ApiErr (EMsg ''user not allowed'') 403)), a)
      else
        let h = md5hex (cr_session session);
            claims = \<lparr> jc_subject = show_int (cr_userId session), jc_name = cr_name session,
              jc_userName = cr_userName session, jc_premium = cr_premium session, jc_hash = h, jc_tgSession = '''',
              jc_issued = now, jc_expires = now + sessionTime \<rparr>
        in case sign claims of
             Inl e \<Rightarrow> (Some (Inl (ApiErr e 0)), a)
           | Inr token \<Rightarrow>
               let a = login_rows session new_id now a
               in case authorizations (cr_session session) of
                    Inl e \<Rightarrow> (Some (Inl (ApiErr e 0)), a)
                  | Inr None \<Rightarrow> (None, a)
                  | Inr (Some date) \<Rightarrow>
                      if (cr_session session, h) \<in> (\<lambda>s. (se_session s, se_hash s)) ` set (ap_sessions a)
                      then (Some (Inl (ApiErr EKeyConflict 0)), a)
                      else
                        let row = \<lparr> se_user = cr_userId session, se_hash = h, se_date = date,
                                    se_session = cr_session session, se_created = now \<rparr>
                        in (Some (Inr token),
                            app_Delete [KeyUserSessions (cr_userId session), KeySessionUser (cr_userId session)]
                              (a\<lparr> ap_sessions := ap_sessions a @ [row] \<rparr>)))"

text \<open>Telegram's answer to the log out is ignored.\<close>

definition AuthLogout :: "JWTClaims \<Rightarrow> app \<Rightarrow> app" where
  "AuthLogout authUser a =
     (let userId = subject_id (jc_subject authUser)
      in app_Delete [KeySessionHash (jc_hash authUser), KeyUserSessions userId, KeySessionUser userId]
           (a\<lparr> ap_sessions := filter (\<lambda>s. se_hash s \<noteq> jc_hash authUser) (ap_sessions a) \<rparr>))"

definition AuthSession ::
    "(string \<Rightarrow> string \<Rightarrow> svc_err + JWTClaims \<times> bool) \<Rightarrow> (JWTClaims \<Rightarrow> svc_err + string) \<Rightarrow> string \<Rightarrow> int \<Rightarrow> int \<Rightarrow> string \<Rightarrow> app
     \<Rightarrow> (string \<times> JWTClaims) option \<times> app" where
  "AuthSession parse sign secret sessionTime now accessToken a =
     (if accessToken = '''' then (None, a)
      else case VerifyUser parse secret accessToken a of
        (Inl e, a) \<Rightarrow> (None, a)
      | (Inr claims, a) \<Rightarrow>
          let claims = claims\<lparr> jc_tgSession := '''', jc_issued := now, jc_expires := now + sessionTime \<rparr>
          in case sign claims of Inl e \<Rightarrow> (None, a) | Inr token \<Rightarrow> (Some (token, claims), a))"

section \<open>Users (pkg/services/user.go)\<close>

text \<open>\<open>None\<close> is no such session.\<close>

definition UsersRemoveSession :: "int \<Rightarrow> string \<Rightarrow> app \<Rightarrow> (svc_err + unit) \<times> app" where
  "UsersRemoveSession userId h a =
     (case first_where (\<lambda>s. se_user s = userId \<and> se_hash s = h) (ap_sessions a) of
        None \<Rightarrow> (Inl (ApiErr ERecordNotFound 0), a)
      | Some session \<Rightarrow>
          (Inr (), app_Delete [KeyUserSessions userId, KeySessionUser userId]
             (a\<lparr> ap_sessions := filter (\<lambda>s. \<not> (se_user s = userId \<and> se_hash s = se_hash session)) (ap_sessions a) \<rparr>)))"

definition CurrentChannel :: "int \<Rightarrow> app \<Rightarrow> (svc_err + int) \<times> app" where
  "CurrentChannel userID a =
     (let key = KeyUserChannel userID in
      case cm_Get key (app_cache a) of
        Inr (CNum c) \<Rightarrow> (Inr c, a)
      | Inr _ \<Rightarrow> (Inl ECache, a)
      | Inl CacheErr \<Rightarrow> (Inl ECache, a)
      | Inl CacheMiss \<Rightarrow>
          (case first_where (\<lambda>c. ch_user c = userID \<and> ch_selected c) (ap_channels a) of
             None \<Rightarrow> (Inl (EMsg ''no default channel found''), a)
           | Some c \<Rightarrow> (Inr (ch_id c), app_Set key (CNum (ch_id c)) a)))"

definition BotTokens :: "int \<Rightarrow> app \<Rightarrow> (svc_err + string list) \<times> app" where
  "BotTokens userID a =
     (let key = KeyUserBots userID in
      case cm_Get key (app_cache a) of
        Inr (CTokens ts) \<Rightarrow> (Inr ts, a)
      | Inr _ \<Rightarrow> (Inl ECache, a)
      | Inl CacheErr \<Rightarrow> (Inl ECache, a)
      | Inl CacheMiss \<Rightarrow>
          let ts = map bo_token (filter (\<lambda>b. bo_user b = userID) (ap_bots a))
          in (Inr ts, app_Set key (CTokens ts) a))"

definition add_bot :: "BotRow list \<Rightarrow> BotRow \<Rightarrow> BotRow list" where
  "add_bot rows b = (if (bo_user b, bo_token b) \<in> (\<lambda>b. (bo_user b, bo_token b)) ` set rows then rows else rows @ [b])"

text \<open>The bots are also made administrators of the user's channels; the result of that is ignored.\<close>

definition UsersAddBots :: "int \<Rightarrow> string list \<Rightarrow> app \<Rightarrow> app" where
  "UsersAddBots userID tokens a =
     (if tokens = [] then a
      else app_Delete [KeyUserBots userID]
             (a\<lparr> ap_bots := foldl add_bot (ap_bots a) (map (\<lambda>t. \<lparr> bo_token = t, bo_user = userID, bo_id = 0 \<rparr>) tokens) \<rparr>))"

definition UsersRemoveBots :: "int \<Rightarrow> app \<Rightarrow> app" where
  "UsersRemoveBots userId a =
     app_Delete [KeyUserBots userId] (a\<lparr> ap_bots := filter (\<lambda>b. bo_user b \<noteq> userId) (ap_bots a) \<rparr>)"

definition UsersStats :: "int \<Rightarrow> app \<Rightarrow> (int \<times> string list) \<times> app" where
  "UsersStats userId a =
     (let (c, a) = CurrentChannel userId a; (ts, a) = BotTokens userId a
      in (((case c of Inl _ \<Rightarrow> 0 | Inr c \<Rightarrow> c), (case ts of Inl _ \<Rightarrow> [] | Inr ts \<Rightarrow> ts)), a))"

text \<open>The upsert on \<open>channel_id\<close> and the statement that deselects the others.\<close>

definition UsersUpdateChannel :: "int \<Rightarrow> int \<Rightarrow> string \<Rightarrow> int \<Rightarrow> app \<Rightarrow> app" where
  "UsersUpdateChannel userId channelId channelName now a =
     (let rows = ap_channels a;
          rows = (if channelId \<in> ch_id ` set rows
                  then update_where (\<lambda>c. ch_id c = channelId) (\<lambda>c. c\<lparr> ch_selected := True \<rparr>) rows
                  else rows @ [\<lparr> ch_id = channelId, ch_name = channelName, ch_user = userId, ch_selected = True,
                                 ch_created = now \<rparr>]);
          rows = update_where (\<lambda>c. ch_id c \<noteq> channelId \<and> ch_user c = userId) (\<lambda>c. c\<lparr> ch_selected := False \<rparr>) rows
      in app_Set (KeyUserChannel userId) (CNum channelId) (a\<lparr> ap_channels := rows \<rparr>))"

text \<open>The rows of the session list: of the database, marked as current and as known to Telegram.\<close>

record Authorization =
  au_date :: int
  au_app :: string
  au_country :: string
  au_official :: bool

record UserSession =
  ul_hash :: string
  ul_created :: int
  ul_current :: bool
  ul_app :: "string option"
  ul_location :: "string option"
  ul_official :: "bool option"
  ul_valid :: bool

text \<open>\<open>strings.ReplaceAll\<close> of a word that is not empty.\<close>

function ReplaceAll :: "string \<Rightarrow> string \<Rightarrow> string \<Rightarrow> string" where
  "ReplaceAll s w new =
     (if s = [] \<or> w = [] then s
      else if HasPrefix s w then new @ ReplaceAll (drop (length w) s) w new
      else hd s # ReplaceAll (tl s) w new)"
  by pat_completeness auto
termination by (relation "measure (\<lambda>(s, w, new). length s)") auto

declare ReplaceAll.simps [simp del]

definition list_session :: "string \<Rightarrow> Authorization list option \<Rightarrow> SessionRow \<Rightarrow> UserSession" where
  "list_session userSession auths s =
     (let u = \<lparr> ul_hash = se_hash s, ul_created = se_created s, ul_current = (se_session s = userSession),
               ul_app = None, ul_location = None, ul_official = None, ul_valid = False \<rparr>
      in case Option.bind auths (first_where (\<lambda>x. se_date s = au_date x)) of
           None \<Rightarrow> u
         | Some x \<Rightarrow> u\<lparr> ul_app := Some (TrimC (ReplaceAll (au_app x) ''Telegram'' '''') CHR '' ''), ul_location := Some (au_country x),
                        ul_official := Some (au_official x), ul_valid := True \<rparr>)"

section \<open>Theorems\<close>

lemma KeySessionHash_literal: "KeySessionHash h = ''sessions:'' @ h"
  by (simp add: KeySessionHash_def Key_def)

lemma GetSessionByHash_hit:
  "app_cache a (KeySessionHash h) = Some (CSession s) \<Longrightarrow> GetSessionByHash h a = (Inr s, a)"
  by (simp add: GetSessionByHash_def KeySessionHash_literal cm_Get_def Let_def)

lemma GetSessionByHash_gone:
  assumes "app_cache a (KeySessionHash h) = None" "\<forall>s \<in> set (ap_sessions a). se_hash s \<noteq> h"
  shows "GetSessionByHash h a = (Inl ERecordNotFound, a)"
proof -
  have "first_where (\<lambda>s. se_hash s = h) (ap_sessions a) = None" using assms(2) by (simp add: first_where_None)
  with assms(1) show ?thesis by (simp add: GetSessionByHash_def KeySessionHash_literal cm_Get_def Let_def)
qed

text \<open>
  Logging out. After \<open>AuthLogout\<close> no token with the hash of the session authenticates, whoever signed it and
  whatever the cache held: neither the row nor the cached session is left.
\<close>

theorem AuthLogout_revokes:
  assumes "parse secret token = Inr (claims, True)" "jc_hash claims = jc_hash user"
  shows "fst (VerifyUser parse secret token (AuthLogout user a)) = Inl (EMsg ''invalid session'')"
proof -
  let ?a = "AuthLogout user a"
  have "GetSessionByHash (jc_hash claims) ?a = (Inl ERecordNotFound, ?a)"
    by (rule GetSessionByHash_gone) (auto simp: AuthLogout_def assms(2) Let_def)
  then show ?thesis by (simp add: VerifyUser_def Decode_def assms(1))
qed

lemma VerifyUser_ok:
  assumes "parse secret token = Inr (claims, True)" "VerifyUser parse secret token a = (Inr c, a1)"
  shows "\<exists>s. app_cache a1 (KeySessionHash (jc_hash claims)) = Some (CSession s) \<and> c = claims\<lparr> jc_tgSession := se_session s \<rparr>
    \<and> ap_sessions a1 = ap_sessions a"
  using assms
  by (auto simp: VerifyUser_def Decode_def GetSessionByHash_def KeySessionHash_literal cm_Get_def Let_def
      split: sum.splits option.splits cval.splits)

lemma session_keys:
  assumes "CHR '':'' \<notin> set h"
  shows "KeyUserSessions u \<noteq> KeySessionHash h" "KeySessionUser u \<noteq> KeySessionHash h"
proof -
  show "KeyUserSessions u \<noteq> KeySessionHash h" by (simp add: KeyUserSessions_def KeySessionHash_def Key_def)
  show "KeySessionUser u \<noteq> KeySessionHash h"
  proof
    assume "KeySessionUser u = KeySessionHash h"
    then have "h = ''user'' @ '':'' @ show_int u" by (simp add: KeySessionUser_def KeySessionHash_def Key_def)
    with assms show False by simp
  qed
qed

text \<open>
  Removing a session. \<open>UsersRemoveSession\<close> deletes the row but not the entry \<open>sessions:<hash>\<close>, which
  never expires: a token of the removed session that was accepted before still authenticates afterwards, with the
  Telegram session of the row that is gone.
\<close>

theorem UsersRemoveSession_keeps_token:
  assumes "parse secret token = Inr (claims, True)" "CHR '':'' \<notin> set (jc_hash claims)"
    and "VerifyUser parse secret token a = (Inr c, a1)"
    and "UsersRemoveSession userId (jc_hash claims) a1 = (Inr (), a2)"
  shows "VerifyUser parse secret token a2 = (Inr c, a2)
    \<and> {s \<in> set (ap_sessions a2). se_user s = userId \<and> se_hash s = jc_hash claims} = {}"
proof -
  let ?h = "jc_hash claims"
  obtain s where s: "app_cache a1 (KeySessionHash ?h) = Some (CSession s)" "c = claims\<lparr> jc_tgSession := se_session s \<rparr>"
    using VerifyUser_ok [where parse = parse, OF assms(1,3)] by blast
  obtain row where row: "first_where (\<lambda>s. se_user s = userId \<and> se_hash s = ?h) (ap_sessions a1) = Some row"
    using assms(4) by (auto simp: UsersRemoveSession_def split: option.splits)
  then have "se_hash row = ?h" using row_eqI_where [OF row] by simp
  with assms(4) row have a2: "a2 = app_Delete [KeyUserSessions userId, KeySessionUser userId]
      (a1\<lparr> ap_sessions := filter (\<lambda>s. \<not> (se_user s = userId \<and> se_hash s = ?h)) (ap_sessions a1) \<rparr>)"
    by (simp add: UsersRemoveSession_def)
  then have "app_cache a2 (KeySessionHash ?h) = Some (CSession s)"
    using s(1) session_keys [OF assms(2), of userId] by (auto simp: a2)
  then have "VerifyUser parse secret token a2 = (Inr c, a2)"
    by (simp add: VerifyUser_def Decode_def assms(1) GetSessionByHash_hit s(2))
  then show ?thesis by (auto simp: a2)
qed

text \<open>
  Choosing a channel. When the channel is new or the user's own, exactly the rows of that channel are selected among the
  user's, \<open>CurrentChannel\<close> answers it, and other users' rows are untouched.
\<close>

theorem UsersUpdateChannel_selects:
  assumes "\<forall>c \<in> set (ap_channels a). ch_id c = channelId \<longrightarrow> ch_user c = userId"
  shows "{ch_id c | c. c \<in> set (ap_channels (UsersUpdateChannel userId channelId name now a)) \<and> ch_user c = userId \<and> ch_selected c}
      = {channelId}
    \<and> fst (CurrentChannel userId (UsersUpdateChannel userId channelId name now a)) = Inr channelId
    \<and> filter (\<lambda>c. ch_user c \<noteq> userId) (ap_channels (UsersUpdateChannel userId channelId name now a))
      = filter (\<lambda>c. ch_user c \<noteq> userId) (ap_channels a)"
proof -
  define rows where "rows = (if channelId \<in> ch_id ` set (ap_channels a)
      then update_where (\<lambda>c. ch_id c = channelId) (\<lambda>c. c\<lparr> ch_selected := True \<rparr>) (ap_channels a)
      else ap_channels a @ [\<lparr> ch_id = channelId, ch_name = name, ch_user = userId, ch_selected = True, ch_created = now \<rparr>])"
  define rows' where "rows' = update_where (\<lambda>c. ch_id c \<noteq> channelId \<and> ch_user c = userId) (\<lambda>c. c\<lparr> ch_selected := False \<rparr>) rows"
  have u: "ap_channels (UsersUpdateChannel userId channelId name now a) = rows'"
    by (simp add: UsersUpdateChannel_def rows_def rows'_def Let_def)
  have sel: "\<exists>c \<in> set rows. ch_id c = channelId \<and> ch_user c = userId \<and> ch_selected c"
  proof (cases "channelId \<in> ch_id ` set (ap_channels a)")
    case True
    then obtain c where c: "c \<in> set (ap_channels a)" "ch_id c = channelId" by auto
    with True have "c\<lparr> ch_selected := True \<rparr> \<in> set rows" by (auto simp: rows_def set_update_where)
    with c assms show ?thesis by (intro bexI [of _ "c\<lparr> ch_selected := True \<rparr>"]) auto
  next
    case False
    then show ?thesis by (simp add: rows_def)
  qed
  have "{ch_id c | c. c \<in> set rows' \<and> ch_user c = userId \<and> ch_selected c} = {channelId}"
  proof
    have "ch_id c = channelId" if "c \<in> set rows'" "ch_user c = userId" "ch_selected c" for c
      using that(1) unfolding rows'_def set_update_where
    proof
      assume "c \<in> {f \<in> set rows. \<not> (ch_id f \<noteq> channelId \<and> ch_user f = userId)}"
      with that(2) show ?thesis by simp
    next
      assume "c \<in> (\<lambda>c. c\<lparr> ch_selected := False \<rparr>) ` {f \<in> set rows. ch_id f \<noteq> channelId \<and> ch_user f = userId}"
      with that(3) show ?thesis by (elim imageE) simp
    qed
    then show "{ch_id c | c. c \<in> set rows' \<and> ch_user c = userId \<and> ch_selected c} \<subseteq> {channelId}"
      by (intro subsetI) (elim CollectE exE conjE, simp)
    from sel obtain c where c: "c \<in> set rows" "ch_id c = channelId" "ch_user c = userId" "ch_selected c" by blast
    then have "c \<in> set rows'" by (simp add: rows'_def set_update_where)
    with c have "\<exists>d. channelId = ch_id d \<and> d \<in> set rows' \<and> ch_user d = userId \<and> ch_selected d" by (intro exI [of _ c]) simp
    then show "{channelId} \<subseteq> {ch_id c | c. c \<in> set rows' \<and> ch_user c = userId \<and> ch_selected c}" by simp
  qed
  moreover have "filter (\<lambda>c. ch_user c \<noteq> userId) rows' = filter (\<lambda>c. ch_user c \<noteq> userId) rows"
    unfolding rows'_def by (induction rows) (auto simp: update_where_def)
  moreover have "filter (\<lambda>c. ch_user c \<noteq> userId) rows = filter (\<lambda>c. ch_user c \<noteq> userId) (ap_channels a)"
  proof -
    have w: "filter (\<lambda>c. ch_user c \<noteq> userId) (update_where (\<lambda>c. ch_id c = channelId) (\<lambda>c. c\<lparr> ch_selected := True \<rparr>) cs)
        = filter (\<lambda>c. ch_user c \<noteq> userId) cs" if "\<forall>c \<in> set cs. ch_id c = channelId \<longrightarrow> ch_user c = userId" for cs
      using that by (induction cs) (auto simp: update_where_def)
    from w [OF assms] show ?thesis by (simp add: rows_def)
  qed
  moreover have "fst (CurrentChannel userId (UsersUpdateChannel userId channelId name now a)) = Inr channelId"
    by (simp add: CurrentChannel_def UsersUpdateChannel_def cm_Get_def Let_def)
  ultimately show ?thesis by (simp add: u)
qed

text \<open>The upsert does not look at the owner: choosing a channel of another user selects it for that user.\<close>

lemma UsersUpdateChannel_foreign:
  assumes "c \<in> set (ap_channels a)" "ch_id c = channelId" "ch_user c \<noteq> userId"
  shows "c\<lparr> ch_selected := True \<rparr> \<in> set (ap_channels (UsersUpdateChannel userId channelId name now a))"
proof -
  have "channelId \<in> ch_id ` set (ap_channels a)" using assms by auto
  with assms show ?thesis by (auto simp: UsersUpdateChannel_def set_update_where Let_def)
qed

section \<open>Witnesses\<close>

definition demo_session :: SessionRow where
  "demo_session = \<lparr> se_user = 7, se_hash = ''ab'', se_date = 1, se_session = ''tg'', se_created = 5 \<rparr>"

definition demo_app :: app where
  "demo_app = \<lparr> ap_svc = \<lparr> sv_files = [], sv_uploads = [], sv_shares = [], sv_cache = (\<lambda>_. None), sv_events = [] \<rparr>,
     ap_users = [], ap_sessions = [demo_session], ap_bots = [],
     ap_channels = [\<lparr> ch_id = 1, ch_name = ''a'', ch_user = 7, ch_selected = True, ch_created = 0 \<rparr>,
                    \<lparr> ch_id = 2, ch_name = ''b'', ch_user = 7, ch_selected = False, ch_created = 1 \<rparr>] \<rparr>"

definition demo_claims :: JWTClaims where
  "demo_claims = \<lparr> jc_subject = ''7'', jc_name = '''', jc_userName = '''', jc_premium = False, jc_hash = ''ab'',
     jc_tgSession = '''', jc_issued = 0, jc_expires = 9 \<rparr>"

theorem AuthLogout_revokes_witness:
  "fst (VerifyUser (\<lambda>_ _. Inr (demo_claims, True)) ''k'' ''t'' (AuthLogout demo_claims demo_app)) = Inl (EMsg ''invalid session'')"
  by (rule AuthLogout_revokes) simp_all

theorem UsersRemoveSession_keeps_token_witness:
  "\<exists>a1 a2 c. VerifyUser (\<lambda>_ _. Inr (demo_claims, True)) ''k'' ''t'' demo_app = (Inr c, a1)
     \<and> UsersRemoveSession 7 ''ab'' a1 = (Inr (), a2)
     \<and> VerifyUser (\<lambda>_ _. Inr (demo_claims, True)) ''k'' ''t'' a2 = (Inr c, a2)"
proof -
  let ?p = "\<lambda>_ _. Inr (demo_claims, True)"
  obtain c a1 where v: "VerifyUser ?p ''k'' ''t'' demo_app = (Inr c, a1)" "ap_sessions a1 = [demo_session]"
    by (simp add: VerifyUser_def Decode_def GetSessionByHash_def demo_app_def demo_claims_def demo_session_def
        app_cache_def cm_Get_def first_where_def app_Set_def Let_def)
  obtain a2 where r: "UsersRemoveSession 7 (jc_hash demo_claims) a1 = (Inr (), a2)"
    using v(2) by (simp add: UsersRemoveSession_def first_where_def demo_session_def demo_claims_def)
  have "CHR '':'' \<notin> set (jc_hash demo_claims)" by (simp add: demo_claims_def)
  from UsersRemoveSession_keeps_token [where parse = ?p, OF refl this v(1) r] v(1) r
  show ?thesis by (auto simp: demo_claims_def)
qed

theorem UsersUpdateChannel_selects_witness:
  "fst (CurrentChannel 7 (UsersUpdateChannel 7 2 ''b'' 3 demo_app)) = Inr 2"
proof -
  have "\<forall>c \<in> set (ap_channels demo_app). ch_id c = 2 \<longrightarrow> ch_user c = 7" by (simp add: demo_app_def)
  from UsersUpdateChannel_selects [OF this] show ?thesis by blast
qed

end
