(* ===== verification/Cron.thy ===== *)
theory Cron
  imports Sessions FilesOps
begin

text \<open>
  The jobs of pkg/cron/cron.go: removing files marked for deletion together with their messages, removing uploads that were
  never committed, and computing the sizes of folders. The state is the database and the state \<open>'s\<close> of the Telegram server.
  \<open>auth\<close> says whether a session string makes a client, \<open>getChannel\<close> is the error of running that client and finding the
  channel, \<open>del\<close> the call that deletes messages; the order in which a query without one returns its groups is a
  parameter. The scheduler and its lock are a library.
\<close>

section \<open>The newest sessions of a user\<close>

text \<open>The two left joins: \<open>None\<close> is no row, and sessions of the same time give several rows.\<close>

definition user_sessions :: "app \<Rightarrow> int \<Rightarrow> string option list" where
  "user_sessions a uid =
     (let own = filter (\<lambda>s. se_user s = uid) (ap_sessions a);
          newest = filter (\<lambda>s. \<forall>t \<in> set own. se_created t \<le> se_created s) own
      in if uid \<notin> us_id ` set (ap_users a) \<or> newest = [] then [None] else map (\<lambda>s. Some (se_session s)) newest)"

type_synonym clean_key = "int option \<times> int \<times> string option"

section \<open>Cleaning files\<close>

definition to_clean :: "FileRow \<Rightarrow> bool" where
  "to_clean f \<longleftrightarrow> f_type f = FILE \<and> f_status f = PENDING"

record clean_result =
  cl_files :: "FileRow list"
  cl_channel :: int
  cl_user :: int
  cl_session :: string

text \<open>A NULL channel or session scans as the zero value.\<close>

definition clean_joined :: "app \<Rightarrow> (FileRow \<times> clean_key) list" where
  "clean_joined a =
     concat (map (\<lambda>f. map (\<lambda>s. (f, (f_channel f, f_user f, s))) (user_sessions a (f_user f)))
       (filter to_clean (sv_files (ap_svc a))))"

definition clean_results :: "(clean_key list \<Rightarrow> clean_key list) \<Rightarrow> app \<Rightarrow> clean_result list" where
  "clean_results order a =
     (let joined = clean_joined a
      in map (\<lambda>k. \<lparr> cl_files = map fst (filter (\<lambda>x. snd x = k) joined),
                    cl_channel = (case fst k of None \<Rightarrow> 0 | Some c \<Rightarrow> c), cl_user = fst (snd k),
                    cl_session = opt_str (snd (snd k)) \<rparr>)
           (order (remdups (map snd joined))))"

definition part_ids :: "FileRow \<Rightarrow> int list" where
  "part_ids f = (case f_parts f of None \<Rightarrow> [] | Some ps \<Rightarrow> map part_ID ps)"

definition delete_files :: "string list \<Rightarrow> app \<Rightarrow> app" where
  "delete_files ids a = a\<lparr> ap_svc := cascade (filter (\<lambda>f. f_id f \<notin> set ids) (sv_files (ap_svc a))) (ap_svc a) \<rparr>"

text \<open>The flag says whether the loop panicked: a session that makes no client is used without a check.\<close>

fun clean_loop ::
    "(string \<Rightarrow> bool) \<Rightarrow> (string \<Rightarrow> int \<Rightarrow> svc_err option) \<Rightarrow> (string \<Rightarrow> int \<Rightarrow> int list \<Rightarrow> 's \<Rightarrow> svc_err option \<times> 's)
     \<Rightarrow> clean_result list \<Rightarrow> app \<times> 's \<Rightarrow> bool \<times> app \<times> 's" where
  "clean_loop auth getChannel del [] st = (False, st)"
| "clean_loop auth getChannel del (row # rows) (a, srv) =
     (if cl_session row = '''' then (False, a, srv)
      else
        let ids = concat (map part_ids (cl_files row)); fileIds = map f_id (cl_files row)
        in if \<not> auth (cl_session row) then (True, a, srv)
           else case DeleteMessages (getChannel (cl_session row)) (del (cl_session row)) (cl_channel row) ids srv of
                  (Some e, srv) \<Rightarrow> (False, a, srv)
                | (None, srv) \<Rightarrow> clean_loop auth getChannel del rows (delete_files fileIds a, srv))"

definition cleanFiles ::
    "(string \<Rightarrow> bool) \<Rightarrow> (string \<Rightarrow> int \<Rightarrow> svc_err option) \<Rightarrow> (string \<Rightarrow> int \<Rightarrow> int list \<Rightarrow> 's \<Rightarrow> svc_err option \<times> 's)
     \<Rightarrow> (clean_key list \<Rightarrow> clean_key list) \<Rightarrow> app \<times> 's \<Rightarrow> bool \<times> app \<times> 's" where
  "cleanFiles auth getChannel del order st = clean_loop auth getChannel del (clean_results order (fst st)) st"

section \<open>Cleaning uploads\<close>

record upload_result =
  ur_parts :: "int list"
  ur_session :: string
  ur_user :: int
  ur_channel :: int

type_synonym upload_key = "int \<times> int \<times> string option"

definition upload_results :: "(upload_key list \<Rightarrow> upload_key list) \<Rightarrow> int \<Rightarrow> int \<Rightarrow> app \<Rightarrow> upload_result list" where
  "upload_results order now retention a =
     (let joined = concat (map (\<lambda>u. map (\<lambda>s. (u, (u_channel u, u_user u, s))) (user_sessions a (u_user u)))
                     (filter (\<lambda>u. u_created u < now - retention) (sv_uploads (ap_svc a))))
      in map (\<lambda>k. \<lparr> ur_parts = map (\<lambda>x. u_partId (fst x)) (filter (\<lambda>x. snd x = k) joined),
                    ur_session = opt_str (snd (snd k)), ur_user = fst (snd k), ur_channel = fst k \<rparr>)
           (order (remdups (map snd joined))))"

definition delete_upload_rows :: "upload_result \<Rightarrow> app \<Rightarrow> app" where
  "delete_upload_rows r a = a\<lparr> ap_svc := (ap_svc a)\<lparr> sv_uploads :=
     filter (\<lambda>u. \<not> (u_partId u \<in> set (ur_parts r) \<and> u_channel u = ur_channel r \<and> u_user u = ur_user r)) (sv_uploads (ap_svc a)) \<rparr> \<rparr>"

fun upload_loop ::
    "(string \<Rightarrow> bool) \<Rightarrow> (string \<Rightarrow> int \<Rightarrow> svc_err option) \<Rightarrow> (string \<Rightarrow> int \<Rightarrow> int list \<Rightarrow> 's \<Rightarrow> svc_err option \<times> 's)
     \<Rightarrow> upload_result list \<Rightarrow> app \<times> 's \<Rightarrow> bool \<times> app \<times> 's" where
  "upload_loop auth getChannel del [] st = (False, st)"
| "upload_loop auth getChannel del (r # rs) (a, srv) =
     (if ur_session r \<noteq> '''' \<and> ur_parts r \<noteq> [] then
        if \<not> auth (ur_session r) then (True, a, srv)
        else case DeleteMessages (getChannel (ur_session r)) (del (ur_session r)) (ur_channel r) (ur_parts r) srv of
               (Some e, srv) \<Rightarrow> (False, a, srv)
             | (None, srv) \<Rightarrow> upload_loop auth getChannel del rs (delete_upload_rows r a, srv)
      else upload_loop auth getChannel del rs (delete_upload_rows r a, srv))"

definition cleanUploads ::
    "(string \<Rightarrow> bool) \<Rightarrow> (string \<Rightarrow> int \<Rightarrow> svc_err option) \<Rightarrow> (string \<Rightarrow> int \<Rightarrow> int list \<Rightarrow> 's \<Rightarrow> svc_err option \<times> 's)
     \<Rightarrow> (upload_key list \<Rightarrow> upload_key list) \<Rightarrow> int \<Rightarrow> int \<Rightarrow> app \<times> 's \<Rightarrow> bool \<times> app \<times> 's" where
  "cleanUploads auth getChannel del order now retention st =
     upload_loop auth getChannel del (upload_results order now retention (fst st)) st"

section \<open>Folder sizes\<close>

text \<open>
  \<open>folder_sizes\<close> of one folder: the sum over the active files the recursion reaches. The inner \<open>None\<close> is no row in that
  query, the outer one a recursion that does not end.
\<close>

definition folder_total :: "FileRow list \<Rightarrow> string \<Rightarrow> int option option" where
  "folder_total rows i =
     map_option (\<lambda>ids.
       let fs = concat (map (\<lambda>j. filter (\<lambda>f. f_id f = j \<and> f_type f = FILE \<and> f_status f = ACTIVE) rows) ids)
       in if fs = [] then None else Some (sum_list (map (\<lambda>f. case f_size f of None \<Rightarrow> 0 | Some n \<Rightarrow> n) fs)))
       (target_levels rows [i] [])"

text \<open>All folders are roots of the one recursive query.\<close>

definition updateFolderSize :: "FileRow list \<Rightarrow> FileRow list option" where
  "updateFolderSize rows =
     (if \<forall>f \<in> set rows. f_type f = FOLDER \<longrightarrow> folder_total rows (f_id f) \<noteq> None
      then Some (map (\<lambda>f. if f_type f = FOLDER
                          then (case folder_total rows (f_id f) of Some (Some n) \<Rightarrow> f\<lparr> f_size := Some n \<rparr> | _ \<Rightarrow> f)
                          else f) rows)
      else None)"

section \<open>What cleaning files does\<close>

lemma delete_files_append: "delete_files js (delete_files is a) = delete_files (is @ js) a"
proof -
  let ?s = "ap_svc a"
  let ?D = "\<lambda>ks. f_id ` set (sv_files ?s) - f_id ` set (filter (\<lambda>f. f_id f \<notin> set ks) (sv_files ?s))"
  have D: "?D ks = f_id ` set (sv_files ?s) \<inter> set ks" for ks by auto
  let ?r = "cascade (filter (\<lambda>f. f_id f \<notin> set is) (sv_files ?s)) ?s"
  have f: "filter (\<lambda>f. f_id f \<notin> set js) (map (unref E) xs) = map (unref E) (filter (\<lambda>f. f_id f \<notin> set js) xs)" for E xs
    by (induction xs) simp_all
  have E: "f_id ` set (sv_files ?r) - f_id ` set (filter (\<lambda>f. f_id f \<notin> set js) (sv_files ?r))
      = f_id ` set (sv_files ?s) \<inter> set js - set is" by (auto simp: image_iff)
  have u: "f_id ` set (sv_files ?s) \<inter> set is \<union> (f_id ` set (sv_files ?s) \<inter> set js - set is)
      = f_id ` set (sv_files ?s) \<inter> set (is @ js)" by auto
  have "cascade (filter (\<lambda>f. f_id f \<notin> set js) (sv_files ?r)) ?r = cascade (filter (\<lambda>f. f_id f \<notin> set (is @ js)) (sv_files ?s)) ?s"
  proof (rule svc.equality)
    show "sv_files (cascade (filter (\<lambda>f. f_id f \<notin> set js) (sv_files ?r)) ?r)
        = sv_files (cascade (filter (\<lambda>f. f_id f \<notin> set (is @ js)) (sv_files ?s)) ?s)"
      unfolding cascade_simps(1) [of "filter (\<lambda>f. f_id f \<notin> set js) (sv_files ?r)"] E
      unfolding cascade_simps(1) D f map_map comp_def unref_unref u by simp
    show "sv_shares (cascade (filter (\<lambda>f. f_id f \<notin> set js) (sv_files ?r)) ?r)
        = sv_shares (cascade (filter (\<lambda>f. f_id f \<notin> set (is @ js)) (sv_files ?s)) ?s)"
      unfolding cascade_simps(2) [of "filter (\<lambda>f. f_id f \<notin> set js) (sv_files ?r)"] E
      unfolding cascade_simps(2) D filter_filter by (rule filter_cong) auto
  qed simp_all
  then show ?thesis by (simp add: delete_files_def del: cascade_simps)
qed

lemma delete_files_Nil [simp]: "delete_files [] a = a"
  by (simp add: delete_files_def cascade_def map_idI)

lemma user_sessions_nonempty: "user_sessions a uid \<noteq> []"
  by (simp add: user_sessions_def Let_def)

lemma clean_joined_files: "fst ` set (clean_joined a) = {f \<in> set (sv_files (ap_svc a)). to_clean f}"
proof
  show "fst ` set (clean_joined a) \<subseteq> {f \<in> set (sv_files (ap_svc a)). to_clean f}" by (auto simp: clean_joined_def)
  show "{f \<in> set (sv_files (ap_svc a)). to_clean f} \<subseteq> fst ` set (clean_joined a)"
  proof
    fix f assume f: "f \<in> {f \<in> set (sv_files (ap_svc a)). to_clean f}"
    obtain s where "s \<in> set (user_sessions a (f_user f))" using user_sessions_nonempty [of a "f_user f"] by (meson last_in_set)
    with f have "(f, (f_channel f, f_user f, s)) \<in> set (clean_joined a)" by (auto simp: clean_joined_def)
    then show "f \<in> fst ` set (clean_joined a)" by (rule image_eqI [rotated]) simp
  qed
qed

definition chan0 :: "FileRow \<Rightarrow> int" where
  "chan0 f = (case f_channel f of None \<Rightarrow> 0 | Some c \<Rightarrow> c)"

text \<open>The messages that hold the parts of a file.\<close>

definition messages_of :: "FileRow \<Rightarrow> (int \<times> int) set" where
  "messages_of f = Pair (chan0 f) ` set (part_ids f)"

lemma clean_results_set:
  assumes "\<forall>ks. set (order ks) = set ks"
  shows "(\<Union>r \<in> set (clean_results order a). set (cl_files r)) = {f \<in> set (sv_files (ap_svc a)). to_clean f}"
    and "r \<in> set (clean_results order a) \<Longrightarrow> f \<in> set (cl_files r) \<Longrightarrow> chan0 f = cl_channel r"
    and "r \<in> set (clean_results order a) \<Longrightarrow> \<exists>f s. f \<in> set (sv_files (ap_svc a)) \<and> to_clean f
      \<and> s \<in> set (user_sessions a (f_user f)) \<and> cl_session r = opt_str s"
proof -
  have "(\<Union>r \<in> set (clean_results order a). set (cl_files r)) = fst ` set (clean_joined a)"
    using assms by (force simp: clean_results_def Let_def)
  then show "(\<Union>r \<in> set (clean_results order a). set (cl_files r)) = {f \<in> set (sv_files (ap_svc a)). to_clean f}"
    by (simp only: clean_joined_files)
  show "r \<in> set (clean_results order a) \<Longrightarrow> f \<in> set (cl_files r) \<Longrightarrow> chan0 f = cl_channel r"
    by (auto simp: clean_results_def clean_joined_def chan0_def Let_def)
  show "r \<in> set (clean_results order a) \<Longrightarrow> \<exists>f s. f \<in> set (sv_files (ap_svc a)) \<and> to_clean f
      \<and> s \<in> set (user_sessions a (f_user f)) \<and> cl_session r = opt_str s"
    using assms by (fastforce simp: clean_results_def clean_joined_def Let_def)
qed

lemma clean_loop_ok:
  assumes "\<forall>r \<in> set rs. cl_session r \<noteq> '''' \<and> auth (cl_session r)"
    and "\<forall>s c. getChannel s c = None"
    and del: "\<forall>s c b srv. length b \<le> 100 \<longrightarrow> del s c b srv = (None, srv - Pair c ` set b)"
  shows "clean_loop auth getChannel del rs (a, srv) =
    (False, delete_files (concat (map (\<lambda>r. map f_id (cl_files r)) rs)) a,
     srv - (\<Union>r \<in> set rs. Pair (cl_channel r) ` (\<Union>f \<in> set (cl_files r). set (part_ids f))))"
  using assms(1)
proof (induction rs arbitrary: a srv)
  case (Cons r rs)
  let ?ids = "concat (map part_ids (cl_files r))"
  have "DeleteMessages (getChannel (cl_session r)) (del (cl_session r)) (cl_channel r) ?ids srv
      = (None, srv - Pair (cl_channel r) ` set ?ids)"
    using DeleteMessages_exact [of "getChannel (cl_session r)" "cl_channel r" "del (cl_session r)" ?ids srv] assms(2) del by simp
  with Cons show ?case by (simp add: Let_def delete_files_append Diff_eq Int_assoc)
qed simp

lemma clean_run:
  assumes "\<forall>ks. set (order ks) = set ks"
    and "\<forall>f \<in> set (sv_files (ap_svc a)). to_clean f \<longrightarrow>
          (\<forall>s \<in> set (user_sessions a (f_user f)). opt_str s \<noteq> '''' \<and> auth (opt_str s))"
    and "\<forall>s c. getChannel s c = None"
    and "\<forall>s c b srv. length b \<le> 100 \<longrightarrow> del s c b srv = (None, srv - Pair c ` set b)"
  shows "\<exists>ids. set ids = f_id ` {f \<in> set (sv_files (ap_svc a)). to_clean f}
    \<and> cleanFiles auth getChannel del order (a, srv) =
        (False, delete_files ids a, srv - (\<Union>f \<in> {f \<in> set (sv_files (ap_svc a)). to_clean f}. messages_of f))"
proof -
  let ?rs = "clean_results order a" and ?P = "{f \<in> set (sv_files (ap_svc a)). to_clean f}"
  have s: "\<forall>r \<in> set ?rs. cl_session r \<noteq> '''' \<and> auth (cl_session r)"
    using clean_results_set(3) [OF assms(1)] assms(2) by metis
  note U = clean_results_set(1) [OF assms(1), of a]
  have i: "set (concat (map (\<lambda>r. map f_id (cl_files r)) ?rs)) = f_id ` ?P"
    unfolding U [symmetric] by auto
  have m: "(\<Union>r \<in> set ?rs. Pair (cl_channel r) ` (\<Union>f \<in> set (cl_files r). set (part_ids f))) = (\<Union>f \<in> ?P. messages_of f)"
    unfolding U [symmetric] messages_of_def using clean_results_set(2) [OF assms(1), of _ a] by fastforce
  show ?thesis
    using clean_loop_ok [OF s assms(3,4), of a srv] i unfolding m cleanFiles_def fst_conv by blast
qed

lemma delete_files_rows:
  assumes "files_ok (sv_files (ap_svc a))" "set ids = f_id ` {f \<in> set (sv_files (ap_svc a)). to_clean f}"
  shows "sv_files (ap_svc (delete_files ids a)) = map (unref (f_id ` {f \<in> set (sv_files (ap_svc a)). to_clean f}))
    (filter (\<lambda>f. \<not> to_clean f) (sv_files (ap_svc a)))"
proof -
  let ?rows = "sv_files (ap_svc a)"
  have k: "f_id f \<notin> set ids \<longleftrightarrow> \<not> to_clean f" if "f \<in> set ?rows" for f
    using that ids_unique [OF assms(1)] unfolding assms(2) by blast
  have e: "filter (\<lambda>f. f_id f \<notin> set ids) ?rows = filter (\<lambda>f. \<not> to_clean f) ?rows"
    by (rule filter_cong [OF refl]) (simp add: k)
  have "f_id ` set ?rows - f_id ` set (filter (\<lambda>f. \<not> to_clean f) ?rows) = f_id ` {f \<in> set ?rows. to_clean f}"
    using ids_unique [OF assms(1)] by auto
  then show ?thesis by (simp add: delete_files_def e)
qed

text \<open>
  C26. Cleaning. If every owner of a file marked for deletion has a session that works and the server deletes what it is asked to,
  one run of \<open>cleanFiles\<close>, in whatever order the groups come, deletes exactly the rows of the marked files, clears exactly
  the references to them, and deletes exactly the messages their parts name.
\<close>

theorem cleanFiles_exact:
  assumes "\<forall>ks. set (order ks) = set ks" "files_ok (sv_files (ap_svc a))"
    and "\<forall>f \<in> set (sv_files (ap_svc a)). to_clean f \<longrightarrow>
          (\<forall>s \<in> set (user_sessions a (f_user f)). opt_str s \<noteq> '''' \<and> auth (opt_str s))"
    and "\<forall>s c. getChannel s c = None"
    and "\<forall>s c b srv. length b \<le> 100 \<longrightarrow> del s c b srv = (None, srv - Pair c ` set b)"
  shows "\<exists>a'. cleanFiles auth getChannel del order (a, srv) =
        (False, a', srv - (\<Union>f \<in> {f \<in> set (sv_files (ap_svc a)). to_clean f}. messages_of f))
    \<and> sv_files (ap_svc a') = map (unref (f_id ` {f \<in> set (sv_files (ap_svc a)). to_clean f}))
        (filter (\<lambda>f. \<not> to_clean f) (sv_files (ap_svc a)))"
proof -
  let ?P = "{f \<in> set (sv_files (ap_svc a)). to_clean f}"
  from clean_run [OF assms(1,3-5)] obtain ids where ids: "set ids = f_id ` ?P"
    "cleanFiles auth getChannel del order (a, srv) = (False, delete_files ids a, srv - (\<Union>f \<in> ?P. messages_of f))" by blast
  have "sv_files (ap_svc (delete_files ids a)) = map (unref (f_id ` ?P)) (filter (\<lambda>f. \<not> to_clean f) (sv_files (ap_svc a)))"
    by (rule delete_files_rows [OF assms(2) ids(1)])
  with ids(2) show ?thesis by blast
qed

lemma FilesDelete_file:
  assumes "acyclic_rows (sv_files s)" "c \<in> set (sv_files s)" "files_ok (sv_files s)" "f_type c = FILE"
    and "\<forall>f \<in> set (sv_files s). f_parent f \<noteq> Some (f_id c)"
  shows "\<exists>s'. FilesDelete (f_user c) [f_id c] s = Some (Inr (), s') \<and>
    sv_files s' = update_where (\<lambda>f. f_id f = f_id c) (\<lambda>f. f\<lparr> f_status := PENDING \<rparr>) (sv_files s)"
proof -
  let ?rows = "sv_files s"
  have same: "f = c" if "f \<in> set ?rows" "f_id f = f_id c" for f using ids_unique [OF assms(3) that(1) assms(2)] that(2) by blast
  obtain ts where ts: "target_folders ?rows [f_id c] (f_user c) = Some ts"
    "set ts = subtree ?rows (owned_ids ?rows [f_id c] (f_user c))" using target_folders_ok [OF assms(1)] by blast
  have "owned_ids ?rows [f_id c] (f_user c) = {f_id c}" using assms(2) same by (auto simp: owned_ids_def)
  moreover have "i = f_id c" if "i \<in> subtree ?rows {f_id c}" for i
    using that by (induction rule: subtree.induct) (use assms(5) in auto)
  ultimately have T: "set ts = {f_id c}" using ts(2) by (auto intro: subtree.base)
  define rows' where "rows' = update_where (\<lambda>f. f_id f = f_id c) (\<lambda>f. f\<lparr> f_status := PENDING \<rparr>) ?rows"
  have upd: "update_where (\<lambda>f. ((case f_parent f of None \<Rightarrow> False | Some p \<Rightarrow> p \<in> set ts) \<or> f_id f \<in> set [f_id c]) \<and> f_type f = FILE)
      (\<lambda>f. f\<lparr> f_status := PENDING \<rparr>) ?rows = rows'"
    unfolding rows'_def update_where_def T using assms(4,5) same by (intro map_cong) (auto split: option.splits)
  have "filter (\<lambda>f. \<not> (f_id f \<in> set ts \<and> f_type f = FOLDER)) rows' = rows'"
    unfolding filter_id_conv T rows'_def set_update_where using same assms(4) by fastforce
  with upd have d: "deleteFilesBulk ?rows [f_id c] (f_user c) = Some rows'" by (simp add: deleteFilesBulk_def ts(1))
  have "map f_id rows' = map f_id ?rows" unfolding rows'_def by (rule update_where_ids) simp
  then have ids: "f_id ` set rows' = f_id ` set ?rows" by (metis list.set_map)
  obtain g where g: "first_where (\<lambda>f. f_id f = f_id c \<and> f_user f = f_user c) ?rows = Some g"
    using assms(2) first_where_None [of "\<lambda>f. f_id f = f_id c \<and> f_user f = f_user c" ?rows]
    by (cases "first_where (\<lambda>f. f_id f = f_id c \<and> f_user f = f_user c) ?rows") auto
  show ?thesis by (simp add: FilesDelete_def g d ids rows'_def [symmetric] map_idI Let_def)
qed

lemma delete_files_keeps:
  assumes "r \<in> set (sv_files (ap_svc a))" "f_id r \<notin> set ids"
  shows "\<exists>D. unref D r \<in> set (sv_files (ap_svc (delete_files ids a)))"
proof -
  have "r \<in> set (filter (\<lambda>f. f_id f \<notin> set ids) (sv_files (ap_svc a)))" using assms by simp
  then show ?thesis unfolding delete_files_def by (simp del: set_filter filter_set) blast
qed

lemma parts_gone:
  assumes "f_parts g = Some (p # ps)" "f_channel g = Some ch" "getCh ch = None"
    and "\<forall>is. length is \<le> 100 \<longrightarrow> request ch is = Inr (ChannelMessages (map look is))"
    and "message_document (look (part_ID p)) = None"
  shows "getParts_fetch getCh request g = Some (Inl (EMsg ''file parts mismatch''))"
proof -
  have ms: "GetMessages getCh request (map part_ID (p # ps)) ch = Inr (map look (map part_ID (p # ps)))"
    by (rule GetMessages_map [where getChannel = getCh and request = request and look = look and c = ch, OF assms(3,4)])
  obtain parts where "parts_loop (IsEncrypted g) (p # ps) (map look (map part_ID (p # ps))) = Some parts" "length parts < length (p # ps)"
    using parts_loop_missing [of "p # ps" "map look (map part_ID (p # ps))" "IsEncrypted g"] assms(5) by auto
  with ms assms(1,2) show ?thesis by (simp add: getParts_fetch_def)
qed

text \<open>
  C25. Deleting a file and cleaning up loses every deduplicated copy of it. Let an active file have the parts and channel of
  another, as linking makes them. After the owner deletes that other file and one run of \<open>cleanFiles\<close> the copy is still
  active with the same parts, but their messages are gone from the server and \<open>getParts\<close> on it is an error.
\<close>

theorem delete_and_clean_loses_copies:
  assumes "files_ok (sv_files (ap_svc a))" "acyclic_rows (sv_files (ap_svc a))"
    and "c \<in> set (sv_files (ap_svc a))" "f_type c = FILE" "\<forall>f \<in> set (sv_files (ap_svc a)). f_parent f \<noteq> Some (f_id c)"
    and copy: "r \<in> set (sv_files (ap_svc a))" "f_id r \<noteq> f_id c" "is_active r"
      "f_parts c = Some (p # ps)" "f_channel c = Some ch" "f_parts r = f_parts c" "f_channel r = f_channel c"
    and "\<forall>ks. set (order ks) = set ks"
    and "\<forall>f \<in> set (sv_files (ap_svc a)). \<forall>s \<in> set (user_sessions a (f_user f)). opt_str s \<noteq> '''' \<and> auth (opt_str s)"
    and "\<forall>s c. getChannel s c = None"
    and "\<forall>s c b srv. length b \<le> 100 \<longrightarrow> del s c b srv = (None, srv - Pair c ` set b)"
    and answers: "\<forall>srv is. length is \<le> 100 \<longrightarrow> request srv ch is =
      Inr (ChannelMessages (map (\<lambda>i. if (ch, i) \<in> srv then m i else MessageEmpty) is))"
  shows "\<exists>s' a' srv' g. FilesDelete (f_user c) [f_id c] (ap_svc a) = Some (Inr (), s')
    \<and> cleanFiles auth getChannel del order (a\<lparr> ap_svc := s' \<rparr>, srv) = (False, a', srv')
    \<and> g \<in> set (sv_files (ap_svc a')) \<and> f_id g = f_id r \<and> is_active g \<and> f_parts g = f_parts r
    \<and> getParts_fetch (\<lambda>_. None) (request srv') g = Some (Inl (EMsg ''file parts mismatch''))"
proof -
  let ?rows = "sv_files (ap_svc a)" and ?c = "c\<lparr> f_status := PENDING \<rparr>"
  from FilesDelete_file [OF assms(2,3,1,4,5)] obtain s' where s': "FilesDelete (f_user c) [f_id c] (ap_svc a) = Some (Inr (), s')"
    "sv_files s' = update_where (\<lambda>f. f_id f = f_id c) (\<lambda>f. f\<lparr> f_status := PENDING \<rparr>) ?rows" by blast
  let ?a = "a\<lparr> ap_svc := s' \<rparr>"
  have us: "user_sessions ?a u = user_sessions a u" for u by (simp add: user_sessions_def)
  have own: "\<exists>g \<in> set ?rows. f_user g = f_user f" if "f \<in> set (sv_files (ap_svc ?a))" for f
    using that by (auto simp: s'(2) set_update_where)
  have sess: "\<forall>f \<in> set (sv_files (ap_svc ?a)). to_clean f \<longrightarrow>
      (\<forall>s \<in> set (user_sessions ?a (f_user f)). opt_str s \<noteq> '''' \<and> auth (opt_str s))"
    using own assms(14) unfolding us by metis
  let ?P = "{f \<in> set (sv_files (ap_svc ?a)). to_clean f}"
  from clean_run [OF assms(13) sess assms(15,16)] obtain ids where ids: "set ids = f_id ` ?P"
    "cleanFiles auth getChannel del order (?a, srv) = (False, delete_files ids ?a, srv - (\<Union>f \<in> ?P. messages_of f))" by blast
  let ?srv = "srv - (\<Union>f \<in> ?P. messages_of f)"
  have c: "?c \<in> ?P" using assms(3,4) by (simp add: s'(2) set_update_where to_clean_def)
  have "messages_of ?c = Pair ch ` set (map part_ID (p # ps))" by (simp add: messages_of_def chan0_def part_ids_def copy(4,5))
  then have gone: "(ch, part_ID p) \<notin> ?srv" using c by auto
  have r: "r \<in> set (sv_files (ap_svc ?a))" using copy(1,2) by (simp add: s'(2) set_update_where)
  have "f_id r \<notin> set ids"
  proof
    assume "f_id r \<in> set ids"
    then obtain f where f: "f \<in> ?P" "f_id f = f_id r" by (auto simp: ids(1))
    then have "f \<in> set ?rows" using copy(2) by (auto simp: s'(2) set_update_where)
    with f(2) have "f = r" using ids_unique [OF assms(1) _ copy(1)] by blast
    with f(1) copy(3) show False by (simp add: to_clean_def is_active_def)
  qed
  from delete_files_keeps [OF r this] obtain D where D: "unref D r \<in> set (sv_files (ap_svc (delete_files ids ?a)))" by blast
  define g where "g = unref D r"
  have g: "g \<in> set (sv_files (ap_svc (delete_files ids ?a)))" unfolding g_def by (rule D)
  have fields: "f_id g = f_id r" "is_active g" "f_parts g = f_parts r" "f_channel g = f_channel r"
    using copy(3) by (simp_all add: g_def is_active_def)
  have "getParts_fetch (\<lambda>_. None) (request ?srv) g = Some (Inl (EMsg ''file parts mismatch''))"
  proof (rule parts_gone [where p = p and ps = ps and ch = ch and look = "\<lambda>i. if (ch, i) \<in> ?srv then m i else MessageEmpty"])
    show "f_parts g = Some (p # ps)" "f_channel g = Some ch" using fields copy by simp_all
    show "\<forall>is. length is \<le> 100 \<longrightarrow> request ?srv ch is =
        Inr (ChannelMessages (map (\<lambda>i. if (ch, i) \<in> ?srv then m i else MessageEmpty) is))" using answers by blast
    show "message_document (if (ch, part_ID p) \<in> ?srv then m (part_ID p) else MessageEmpty) = None"
      unfolding if_not_P [OF gone] by (simp add: message_document_def)
  qed simp
  then show ?thesis using s'(1) ids(2) g fields by (intro exI conjI)
qed

section \<open>What the folder sizes are\<close>

lemma subtree_children_sub: "subtree rows (set (children_ids rows fr)) \<subseteq> subtree rows (set fr)"
  using subtree_children [of rows fr] by blast

lemma parent_unique:
  "unique_ids rows \<Longrightarrow> f \<in> set rows \<Longrightarrow> g \<in> set rows \<Longrightarrow> f_id f = f_id g \<Longrightarrow> f_parent f = f_parent g"
  by (auto simp: unique_ids_def distinct_map inj_on_def)

lemma distinct_children_ids: "unique_ids rows \<Longrightarrow> distinct fr \<Longrightarrow> distinct (children_ids rows fr)"
proof (induction fr)
  case (Cons i fr)
  have "distinct (map f_id (filter (\<lambda>f. f_parent f = Some i) rows))"
    using Cons.prems(1) by (simp add: unique_ids_def distinct_map_filter)
  moreover have "set (map f_id (filter (\<lambda>f. f_parent f = Some i) rows)) \<inter> set (children_ids rows fr) = {}"
  proof -
    have False if x: "x \<in> set (map f_id (filter (\<lambda>f. f_parent f = Some i) rows))" "x \<in> set (children_ids rows fr)" for x
    proof -
      from x(1) obtain f where f: "f \<in> set rows" "f_parent f = Some i" "f_id f = x" by auto
      from x(2) obtain g p where g: "g \<in> set rows" "f_parent g = Some p" "p \<in> set fr" "f_id g = x" by (auto simp: set_children_ids)
      from parent_unique [OF Cons.prems(1) f(1) g(1)] f g Cons.prems(2) show False by simp
    qed
    then show ?thesis by blast
  qed
  ultimately show ?case using Cons by (simp add: children_ids_def)
qed (simp add: children_ids_def)

lemma antichain_children:
  assumes "unique_ids rows" "set fr \<inter> subtree rows (set (children_ids rows fr)) = {}"
  shows "set (children_ids rows fr) \<inter> subtree rows (set (children_ids rows (children_ids rows fr))) = {}"
proof -
  let ?fr' = "children_ids rows fr"
  have False if x: "x \<in> set ?fr'" "x \<in> subtree rows (set (children_ids rows ?fr'))" for x
  proof -
    from x(1) obtain f p where f: "f \<in> set rows" "f_id f = x" "f_parent f = Some p" "p \<in> set fr"
      by (auto simp: set_children_ids)
    from x(2) have "\<exists>g q. g \<in> set rows \<and> f_id g = x \<and> f_parent g = Some q \<and> q \<in> subtree rows (set ?fr')"
    proof cases
      case base
      then show ?thesis unfolding set_children_ids [of rows ?fr'] by (blast intro: subtree.base)
    next
      case (step q g)
      then show ?thesis using subtree_children_sub [of rows ?fr'] by blast
    qed
    then obtain g q where g: "g \<in> set rows" "f_id g = x" "f_parent g = Some q" "q \<in> subtree rows (set ?fr')" by blast
    with parent_unique [OF assms(1) f(1) g(1)] f have "p = q" by simp
    with g(4) f(4) assms(2) show False by blast
  qed
  then show ?thesis by blast
qed

definition level_inv :: "FileRow list \<Rightarrow> string list \<Rightarrow> string list \<Rightarrow> bool" where
  "level_inv rows fr acc \<longleftrightarrow> unique_ids rows \<and> distinct acc \<and> distinct fr \<and> set acc \<inter> subtree rows (set fr) = {}
     \<and> set fr \<inter> subtree rows (set (children_ids rows fr)) = {}"

lemma level_inv_next: "level_inv rows fr acc \<Longrightarrow> level_inv rows (children_ids rows fr) (acc @ fr)"
proof -
  assume inv: "level_inv rows fr acc"
  then have "unique_ids rows" "distinct fr" "distinct acc" "set acc \<inter> subtree rows (set fr) = {}"
    "set fr \<inter> subtree rows (set (children_ids rows fr)) = {}" by (simp_all add: level_inv_def)
  moreover have "set fr \<subseteq> subtree rows (set fr)" by (auto intro: subtree.base)
  ultimately show ?thesis
    using distinct_children_ids [of rows fr] antichain_children [of rows fr] subtree_children_sub [of rows fr]
    unfolding level_inv_def distinct_append set_append by blast
qed

lemma target_levels_distinct:
  assumes "target_levels rows fr acc = Some ts" "level_inv rows fr acc"
  shows "distinct ts"
proof -
  have "level_inv rows fr acc \<longrightarrow> distinct ts"
  proof (rule target_levels.raw_induct [OF _ assms(1)])
    fix tl rows fr acc ts
    assume IH: "\<And>rows fr acc ts. tl rows fr acc = Some ts \<Longrightarrow> level_inv rows fr acc \<longrightarrow> distinct ts"
      and r: "(if fr = [] then Some acc else tl rows (children_ids rows fr) (acc @ fr)) = Some ts"
    show "level_inv rows fr acc \<longrightarrow> distinct ts"
      using r IH level_inv_next [of rows fr acc] by (cases "fr = []") (auto simp: level_inv_def)
  qed
  with assms(2) show ?thesis by blast
qed

lemma level_inv_root:
  assumes "acyclic_by rank rows" "unique_ids rows" "i \<in> f_id ` set rows"
  shows "level_inv rows [i] []"
proof -
  have "rank i < rank j \<and> j \<in> f_id ` set rows" if "j \<in> subtree rows (set (children_ids rows [i]))" for j
    using that
  proof (induction rule: subtree.induct)
    case (base j)
    then show ?case using assms(1,3) by (auto simp: set_children_ids acyclic_by_def)
  next
    case (step p f)
    then show ?case using assms(1) by (fastforce simp: acyclic_by_def)
  qed
  then show ?thesis using assms(2) by (auto simp: level_inv_def)
qed

text \<open>The active files below a folder.\<close>

definition files_below :: "FileRow list \<Rightarrow> string \<Rightarrow> FileRow set" where
  "files_below rows i = {f \<in> set rows. f_id f \<in> subtree rows {i} \<and> f_type f = FILE \<and> f_status f = ACTIVE}"

definition size_of :: "FileRow \<Rightarrow> int" where
  "size_of f = (case f_size f of None \<Rightarrow> 0 | Some n \<Rightarrow> n)"

lemma distinct_rows_of:
  "unique_ids rows \<Longrightarrow> distinct ids \<Longrightarrow> distinct (concat (map (\<lambda>j. filter (\<lambda>f. f_id f = j \<and> P f) rows) ids))"
proof (induction ids)
  case (Cons j ids)
  then have "distinct rows" by (simp add: unique_ids_def distinct_map)
  with Cons show ?case by auto
qed simp

lemma folder_total_sum:
  assumes "acyclic_by rank rows" "unique_ids rows" "i \<in> f_id ` set rows"
  shows "folder_total rows i = Some (if files_below rows i = {} then None else Some (\<Sum>f \<in> files_below rows i. size_of f))"
proof -
  have N: "\<forall>f \<in> set rows. rank (f_id f) < Suc (Max (rank ` f_id ` set rows))"
    by (auto simp: less_Suc_eq_le intro!: Max_ge)
  obtain ts where ts: "target_levels rows [i] [] = Some ts" "set ts = subtree rows {i}"
    using target_levels_ok [OF assms(1) N, of "[i]" 0 "[]"] assms(3) by auto
  let ?fs = "concat (map (\<lambda>j. filter (\<lambda>f. f_id f = j \<and> f_type f = FILE \<and> f_status f = ACTIVE) rows) ts)"
  have d: "distinct ?fs"
    by (rule distinct_rows_of [OF assms(2) target_levels_distinct [OF ts(1) level_inv_root [OF assms]]])
  have s: "set ?fs = files_below rows i" using ts(2) by (auto simp: files_below_def)
  have "sum_list (map size_of ?fs) = (\<Sum>f \<in> files_below rows i. size_of f)"
    unfolding s [symmetric] using d by (rule sum_list_distinct_conv_sum_set)
  moreover have "?fs = [] \<longleftrightarrow> files_below rows i = {}" unfolding s [symmetric] by (simp only: set_empty)
  ultimately show ?thesis by (simp add: folder_total_def ts(1) Let_def size_of_def [abs_def] del: concat_eq_Nil_conv)
qed

text \<open>
  The sizes of folders. On a tree without cycles \<open>updateFolderSize\<close> ends and gives every folder with an active file somewhere
  below it the sum of the sizes of these files; a folder without one keeps the size it had, so an emptied folder
  keeps its last size.
\<close>

theorem updateFolderSize_sums:
  assumes "acyclic_rows rows" "unique_ids rows"
  shows "updateFolderSize rows = Some (map (\<lambda>f.
    if f_type f = FOLDER \<and> files_below rows (f_id f) \<noteq> {}
    then f\<lparr> f_size := Some (\<Sum>g \<in> files_below rows (f_id f). size_of g) \<rparr> else f) rows)"
proof -
  obtain rank where "acyclic_by rank rows" using assms(1) by (auto simp: acyclic_rows_def)
  note t = folder_total_sum [OF this assms(2)]
  then have "\<forall>f \<in> set rows. folder_total rows (f_id f) \<noteq> None" by simp
  then show ?thesis unfolding updateFolderSize_def by (auto simp: t intro!: map_cong)
qed

section \<open>An example state\<close>

definition part_file :: "string \<Rightarrow> string \<Rightarrow> string option \<Rightarrow> FileRow" where
  "part_file i name ref = (mk_row i name FILE 1 (Some ''r''))\<lparr> f_parts := Some [\<lparr> part_ID = 11, part_Salt = '''' \<rparr>],
     f_channel := Some 5, f_ref := ref, f_size := Some 7 \<rparr>"

definition cron_rows :: "FileRow list" where
  "cron_rows = [mk_row ''r'' ''root'' FOLDER 1 None, mk_row ''e'' ''empty'' FOLDER 1 (Some ''r''),
     part_file ''c'' ''a.txt'' None, part_file ''k'' ''b.txt'' (Some ''c'')]"

definition cron_app :: "FileRow list \<Rightarrow> app" where
  "cron_app rows = \<lparr> ap_svc = \<lparr> sv_files = rows, sv_uploads = [], sv_shares = [], sv_cache = (\<lambda>_. None), sv_events = [] \<rparr>,
     ap_users = [\<lparr> us_id = 1, us_name = ''n'', us_userName = ''u'', us_premium = False \<rparr>],
     ap_sessions = [\<lparr> se_user = 1, se_hash = ''h'', se_date = 0, se_session = ''s'', se_created = 0 \<rparr>],
     ap_bots = [], ap_channels = [] \<rparr>"

definition exact_del :: "string \<Rightarrow> int \<Rightarrow> int list \<Rightarrow> (int \<times> int) set \<Rightarrow> svc_err option \<times> (int \<times> int) set" where
  "exact_del s c b srv = (None, srv - Pair c ` set b)"

definition stored :: "(int \<times> int) set \<Rightarrow> int \<Rightarrow> int list \<Rightarrow> svc_err + tg_messages" where
  "stored srv c is = Inr (ChannelMessages (map (\<lambda>i. if (c, i) \<in> srv
     then Message (MediaDocument (Some \<lparr> doc_size = 7, doc_id = i \<rparr>)) else MessageEmpty) is))"

lemma cron_facts:
  "files_ok cron_rows" "acyclic_rows cron_rows" "unique_ids cron_rows"
  "user_sessions (cron_app rows) 1 = [Some ''s'']"
proof -
  show "files_ok cron_rows" "unique_ids cron_rows" "user_sessions (cron_app rows) 1 = [Some ''s'']"
    by (simp_all add: files_ok_def index_ok_def is_active_def index_key_def coalesce_parent_def unique_ids_def
        cron_rows_def part_file_def mk_row_def user_sessions_def cron_app_def)
  have "acyclic_by (\<lambda>i. if i = ''r'' then 0 else 1) cron_rows"
    by (simp add: acyclic_by_def cron_rows_def part_file_def mk_row_def)
  then show "acyclic_rows cron_rows" by (auto simp: acyclic_rows_def)
qed

theorem updateFolderSize_sums_witness:
  "map_option (map f_size) (updateFolderSize cron_rows) = Some [Some 14, Some 1, Some 7, Some 7]"
proof -
  have below: "subtree cron_rows {''r''} = {''r'', ''e'', ''c'', ''k''}" "subtree cron_rows {''e''} = {''e''}"
  proof -
    have upper: "i \<in> {''r'', ''e'', ''c'', ''k''}" if "i \<in> subtree cron_rows {''r''}" for i
      using that by (induction rule: subtree.induct) (auto simp: cron_rows_def part_file_def mk_row_def)
    have b: "''r'' \<in> subtree cron_rows {''r''}" by (rule subtree.base) simp
    have lower: "f_id f \<in> subtree cron_rows {''r''}" if "f \<in> set cron_rows" for f
    proof -
      have "f_id f = ''r'' \<or> f_parent f = Some ''r''" using that by (auto simp: cron_rows_def part_file_def mk_row_def)
      then show ?thesis using b subtree.step [OF b that] by auto
    qed
    have "{''r'', ''e'', ''c'', ''k''} = f_id ` set cron_rows" by (simp add: cron_rows_def part_file_def mk_row_def)
    also have "\<dots> \<subseteq> subtree cron_rows {''r''}" by (rule image_subsetI) (rule lower)
    finally show "subtree cron_rows {''r''} = {''r'', ''e'', ''c'', ''k''}"
      by (intro equalityI subsetI upper) (assumption, erule (1) subsetD)
    have "i \<in> {''e''}" if "i \<in> subtree cron_rows {''e''}" for i
      using that by (induction rule: subtree.induct) (auto simp: cron_rows_def part_file_def mk_row_def)
    then show "subtree cron_rows {''e''} = {''e''}" by (auto intro: subtree.base)
  qed
  have fb: "files_below cron_rows ''r'' = {part_file ''c'' ''a.txt'' None, part_file ''k'' ''b.txt'' (Some ''c'')}"
    "files_below cron_rows ''e'' = {}"
  proof -
    have set_eq: "files_below cron_rows i = set (filter (\<lambda>f. f_id f \<in> subtree cron_rows {i} \<and> f_type f = FILE \<and> f_status f = ACTIVE) cron_rows)"
      for i by (simp only: files_below_def set_filter)
    have "filter (\<lambda>f. f_id f \<in> {''r'', ''e'', ''c'', ''k''} \<and> f_type f = FILE \<and> f_status f = ACTIVE) cron_rows
        = [part_file ''c'' ''a.txt'' None, part_file ''k'' ''b.txt'' (Some ''c'')]"
      "filter (\<lambda>f. f_id f \<in> {''e''} \<and> f_type f = FILE \<and> f_status f = ACTIVE) cron_rows = []"
      by (simp_all add: cron_rows_def part_file_def mk_row_def)
    then show "files_below cron_rows ''r'' = {part_file ''c'' ''a.txt'' None, part_file ''k'' ''b.txt'' (Some ''c'')}"
      "files_below cron_rows ''e'' = {}"
      unfolding set_eq below by (simp_all only: list.set)
  qed
  have "part_file ''c'' ''a.txt'' None \<noteq> part_file ''k'' ''b.txt'' (Some ''c'')" by (simp add: part_file_def mk_row_def)
  then have "(\<Sum>f \<in> files_below cron_rows ''r''. size_of f) = 14" unfolding fb by (simp add: size_of_def part_file_def)
  then show ?thesis
    unfolding updateFolderSize_sums [OF cron_facts(2,3)] using fb
    by (simp add: cron_rows_def part_file_def mk_row_def)
qed

theorem cleanFiles_exact_witness:
  "\<exists>a'. cleanFiles (\<lambda>s. s = ''s'') (\<lambda>_ _. None) exact_del (\<lambda>ks. ks)
      (cron_app (update_where (\<lambda>f. f_id f = ''c'') (\<lambda>f. f\<lparr> f_status := PENDING \<rparr>) cron_rows), {(5, 11), (5, 12)}) = (False, a', {(5, 12)})
     \<and> map f_ref (sv_files (ap_svc a')) = [None, None, None]"
proof -
  let ?rows = "update_where (\<lambda>f. f_id f = ''c'') (\<lambda>f. f\<lparr> f_status := PENDING \<rparr>) cron_rows"
  let ?c = "(part_file ''c'' ''a.txt'' None)\<lparr> f_status := PENDING \<rparr>"
  have rows: "?rows = [mk_row ''r'' ''root'' FOLDER 1 None, mk_row ''e'' ''empty'' FOLDER 1 (Some ''r''), ?c,
      part_file ''k'' ''b.txt'' (Some ''c'')]"
    by (simp add: update_where_def cron_rows_def part_file_def mk_row_def)
  have files: "sv_files (ap_svc (cron_app ?rows)) = ?rows" by (simp add: cron_app_def)
  have ok: "files_ok ?rows"
    unfolding rows by (simp add: files_ok_def index_ok_def is_active_def index_key_def coalesce_parent_def part_file_def mk_row_def)
  have P: "{f \<in> set ?rows. to_clean f} = {?c}"
    unfolding rows by (auto simp: to_clean_def part_file_def mk_row_def)
  have sess: "\<forall>f \<in> set ?rows. to_clean f \<longrightarrow>
      (\<forall>s \<in> set (user_sessions (cron_app ?rows) (f_user f)). opt_str s \<noteq> '''' \<and> opt_str s = ''s'')"
  proof (intro ballI impI)
    fix f s assume "f \<in> set ?rows" "to_clean f" "s \<in> set (user_sessions (cron_app ?rows) (f_user f))"
    then have "f = ?c" using P by blast
    with \<open>s \<in> _\<close> show "opt_str s \<noteq> '''' \<and> opt_str s = ''s''"
      using cron_facts(4) [of ?rows] by (simp add: part_file_def mk_row_def opt_str_def)
  qed
  have m: "messages_of ?c = {(5, 11)}" by (simp add: messages_of_def chan0_def part_ids_def part_file_def)
  from cleanFiles_exact [of "\<lambda>ks. ks" "cron_app ?rows" "\<lambda>s. s = ''s''" "\<lambda>_ _. None" exact_del "{(5, 11), (5, 12)}",
      unfolded files, OF _ ok sess] obtain a' where
    a': "cleanFiles (\<lambda>s. s = ''s'') (\<lambda>_ _. None) exact_del (\<lambda>ks. ks) (cron_app ?rows, {(5, 11), (5, 12)})
        = (False, a', {(5, 11), (5, 12)} - (\<Union>f \<in> {?c}. messages_of f))"
    "sv_files (ap_svc a') = map (unref (f_id ` {?c})) (filter (\<lambda>f. \<not> to_clean f) ?rows)"
    unfolding P by (auto simp: exact_del_def)
  have "{(5, 11), (5, 12)} - (\<Union>f \<in> {?c}. messages_of f) = {(5 :: int, 12 :: int)}" using m by auto
  moreover have "map f_ref (sv_files (ap_svc a')) = [None, None, None]"
    unfolding a'(2) rows by (simp add: to_clean_def part_file_def mk_row_def unref_def)
  ultimately show ?thesis using a'(1) by metis
qed

theorem delete_and_clean_loses_copies_witness:
  "\<exists>s' a' srv' g. FilesDelete 1 [''c''] (ap_svc (cron_app cron_rows)) = Some (Inr (), s')
    \<and> cleanFiles (\<lambda>s. s = ''s'') (\<lambda>_ _. None) exact_del (\<lambda>ks. ks) ((cron_app cron_rows)\<lparr> ap_svc := s' \<rparr>, {(5, 11)}) = (False, a', srv')
    \<and> g \<in> set (sv_files (ap_svc a')) \<and> f_id g = ''k'' \<and> is_active g
    \<and> getParts_fetch (\<lambda>_. None) (stored srv') g = Some (Inl (EMsg ''file parts mismatch''))"
proof -
  let ?a = "cron_app cron_rows" and ?c = "part_file ''c'' ''a.txt'' None" and ?k = "part_file ''k'' ''b.txt'' (Some ''c'')"
  have files: "sv_files (ap_svc ?a) = cron_rows" by (simp add: cron_app_def)
  have c: "?c \<in> set cron_rows" "f_type ?c = FILE" "\<forall>f \<in> set cron_rows. f_parent f \<noteq> Some (f_id ?c)"
    by (simp_all add: cron_rows_def part_file_def mk_row_def)
  have k: "?k \<in> set cron_rows" "f_id ?k \<noteq> f_id ?c" "is_active ?k" "f_parts ?c = Some (\<lparr> part_ID = 11, part_Salt = '''' \<rparr> # [])"
    "f_channel ?c = Some 5" "f_parts ?k = f_parts ?c" "f_channel ?k = f_channel ?c"
    by (simp_all add: cron_rows_def part_file_def mk_row_def is_active_def)
  have sess: "\<forall>f \<in> set cron_rows. \<forall>s \<in> set (user_sessions ?a (f_user f)). opt_str s \<noteq> '''' \<and> opt_str s = ''s''"
  proof (intro ballI)
    fix f s assume "f \<in> set cron_rows" "s \<in> set (user_sessions ?a (f_user f))"
    moreover from this(1) have "f_user f = 1" by (auto simp: cron_rows_def part_file_def mk_row_def)
    ultimately show "opt_str s \<noteq> '''' \<and> opt_str s = ''s''" using cron_facts(4) by (simp add: opt_str_def)
  qed
  have ids: "f_id ?c = ''c''" "f_user ?c = 1" "f_id ?k = ''k''" by (simp_all add: part_file_def mk_row_def)
  have o: "\<forall>ks :: clean_key list. set ks = set ks" by simp
  have g: "\<forall>(s :: string) (c :: int). (None :: svc_err option) = None" by simp
  have d: "\<forall>s c b srv. length b \<le> 100 \<longrightarrow> exact_del s c b srv = (None, srv - Pair c ` set b)" by (simp add: exact_del_def)
  have r: "\<forall>srv is. length is \<le> 100 \<longrightarrow> stored srv 5 is = Inr (ChannelMessages (map (\<lambda>i. if (5, i) \<in> srv
      then Message (MediaDocument (Some \<lparr> doc_size = 7, doc_id = i \<rparr>)) else MessageEmpty) is))" by (simp add: stored_def)
  show ?thesis
    using delete_and_clean_loses_copies [where a = ?a and c = ?c and r = ?k and order = "\<lambda>ks. ks" and auth = "\<lambda>s. s = ''s''"
        and getChannel = "\<lambda>_ _. None" and del = exact_del and request = stored and srv = "{(5, 11)}"
        and m = "\<lambda>i. Message (MediaDocument (Some \<lparr> doc_size = 7, doc_id = i \<rparr>))", unfolded files,
        OF cron_facts(1,2) c k o sess g d r]
    unfolding ids by blast
qed

end
