(* ===== verification/DeleteRace.thy ===== *)
theory DeleteRace
  imports TgMessages
begin

text \<open>
  The goroutines of \<open>DeleteMessages\<close> (internal/tgc/helpers.go), one per batch, at most \<open>lim\<close> at a time. They share the variable
  \<open>err\<close> of the enclosing function: each assigns the outcome of its call to it and then returns what the variable holds, which
  another goroutine may have assigned in between. The group keeps the first error returned to it.
\<close>

section \<open>The goroutines\<close>

record 's del_state =
  dm_todo :: "int list list"
  dm_called :: nat
  dm_err :: "svc_err option"
  dm_group :: "svc_err option"
  dm_srv :: 's

inductive del_step :: "nat \<Rightarrow> (int list \<Rightarrow> 's \<Rightarrow> svc_err option \<times> 's) \<Rightarrow> 's del_state \<Rightarrow> 's del_state \<Rightarrow> bool"
  for lim del where
  call: "dm_todo s = xs @ b # ys \<Longrightarrow> length xs + dm_called s < lim \<Longrightarrow> del b (dm_srv s) = (e, srv) \<Longrightarrow>
    del_step lim del s (s\<lparr> dm_todo := xs @ ys, dm_called := dm_called s + 1, dm_err := e, dm_srv := srv \<rparr>)"
| return: "dm_called s = Suc n \<Longrightarrow>
    del_step lim del s (s\<lparr> dm_called := n, dm_group := (case dm_group s of None \<Rightarrow> dm_err s | Some e \<Rightarrow> Some e) \<rparr>)"

abbreviation del_run :: "nat \<Rightarrow> (int list \<Rightarrow> 's \<Rightarrow> svc_err option \<times> 's) \<Rightarrow> 's del_state \<Rightarrow> 's del_state \<Rightarrow> bool" where
  "del_run lim del \<equiv> (del_step lim del)\<^sup>*\<^sup>*"

definition del_start :: "int list \<Rightarrow> 's \<Rightarrow> 's del_state" where
  "del_start ids srv = \<lparr> dm_todo = batches ids, dm_called = 0, dm_err = None, dm_group = None, dm_srv = srv \<rparr>"

text \<open>\<open>g.Wait()\<close> returns when every goroutine has; its result is the error of the group.\<close>

definition del_done :: "'s del_state \<Rightarrow> bool" where
  "del_done s \<longleftrightarrow> dm_todo s = [] \<and> dm_called s = 0"

section \<open>Runs\<close>

lemma del_step_measure:
  "del_step lim del s t \<Longrightarrow> 2 * length (dm_todo t) + dm_called t < 2 * length (dm_todo s) + dm_called s"
  by (induction rule: del_step.induct) auto

text \<open>Every interleaving ends, with no goroutine left, as long as one may run at all.\<close>

lemma del_step_enabled:
  assumes "\<not> del_done s" "0 < lim"
  shows "\<exists>t. del_step lim del s t"
proof (cases "dm_called s")
  case 0
  then obtain b bs where "dm_todo s = [] @ b # bs" using assms(1) by (cases "dm_todo s") (auto simp: del_done_def)
  moreover obtain e srv where "del b (dm_srv s) = (e, srv)" by fastforce
  ultimately show ?thesis using 0 assms(2) del_step.call [of s "[]" b bs lim del] by fastforce
next
  case (Suc n)
  then show ?thesis by (blast intro: del_step.return)
qed

lemma del_run_ends:
  assumes "0 < lim"
  shows "\<exists>t. del_run lim del s t \<and> del_done t"
proof (induction "2 * length (dm_todo s) + dm_called s" arbitrary: s rule: less_induct)
  case less
  show ?case
  proof (cases "del_done s")
    case False
    then obtain t where t: "del_step lim del s t" using del_step_enabled [OF _ assms] by blast
    then obtain u where "del_run lim del t u" "del_done u" using less [OF del_step_measure] by blast
    with t show ?thesis by (meson converse_rtranclp_into_rtranclp)
  qed blast
qed

lemma del_run_no_error:
  assumes "del_run lim del s t" "\<forall>b srv. fst (del b srv) = None"
  shows "dm_err s = None \<Longrightarrow> dm_group s = None \<Longrightarrow> dm_err t = None \<and> dm_group t = None"
  using assms(1)
proof (induction rule: rtranclp_induct)
  case (step t u)
  then have t: "dm_err t = None" "dm_group t = None" by blast+
  from step(2) show ?case
  proof cases
    case (call xs b ys e srv)
    then have "e = None" using assms(2) by (metis fst_conv)
    with call t show ?thesis by simp
  next
    case (return n)
    with t show ?thesis by simp
  qed
qed simp

text \<open>Every batch is asked for exactly once: what a server that removes what it is asked to has lost at the end.\<close>

lemma del_run_deletes:
  assumes "del_run lim del s t" "\<forall>b srv. del b srv = (None, srv - f ` set b)"
  shows "dm_srv t - f ` set (concat (dm_todo t)) = dm_srv s - f ` set (concat (dm_todo s))"
  using assms(1)
proof (induction rule: rtranclp_induct)
  case (step t u)
  from step(2) show ?case
  proof cases
    case (call xs b ys e srv)
    then have "srv = dm_srv t - f ` set b" using assms(2) by simp
    then have "dm_srv u - f ` set (concat (dm_todo u)) = dm_srv t - f ` set (concat (dm_todo t))"
      using call by (simp add: image_Un Diff_eq Un_assoc Un_left_commute Int_assoc)
    with step(3) show ?thesis by simp
  next
    case (return n)
    with step(3) show ?thesis by simp
  qed
qed simp

text \<open>
  C27. Deleting with goroutines. Whatever the limit and however the goroutines interleave, if the server does what it is asked to,
  every complete run of \<open>DeleteMessages\<close> returns no error and has deleted exactly the messages asked for.
\<close>

theorem DeleteMessages_interleaved:
  assumes "\<forall>b srv. del b srv = (None, srv - f ` set b)"
    and "del_run lim del (del_start ids srv) t" "del_done t"
  shows "dm_group t = None \<and> dm_srv t = srv - f ` set ids"
  using del_run_no_error [OF assms(2)] del_run_deletes [OF assms(2,1)] assms(1,3)
  by (simp add: del_start_def del_done_def del: set_concat)

text \<open>
  An error can be lost. With two goroutines at a time there is a run in which the call for the first batch fails, the
  call for the second succeeds before the first goroutine returns, and \<open>DeleteMessages\<close> reports success while
  nothing of the first batch was deleted.
\<close>

theorem DeleteMessages_loses_error:
  assumes "2 \<le> lim" "batches ids = [b1, b2]" "del b1 srv = (Some e, srv)" "del b2 srv = (None, srv2)"
  shows "\<exists>t. del_run lim del (del_start ids srv) t \<and> del_done t \<and> dm_group t = None \<and> dm_srv t = srv2"
proof -
  let ?s = "\<lambda>todo n err srv. \<lparr> dm_todo = todo, dm_called = n, dm_err = err, dm_group = None, dm_srv = srv \<rparr>"
  have "del_step lim del (?s [b1, b2] 0 None srv) (?s [b2] 1 (Some e) srv)"
    using del_step.call [of "?s [b1, b2] 0 None srv" "[]" b1 "[b2]" lim del "Some e" srv] assms by simp
  moreover have "del_step lim del (?s [b2] 1 (Some e) srv) (?s [] 2 None srv2)"
    using del_step.call [of "?s [b2] 1 (Some e) srv" "[]" b2 "[]" lim del None srv2] assms by (simp add: numeral_2_eq_2)
  moreover have "del_step lim del (?s [] 2 None srv2) (?s [] 1 None srv2)"
    using del_step.return [of "?s [] 2 None srv2" 1 lim del] by simp
  moreover have "del_step lim del (?s [] 1 None srv2) (?s [] 0 None srv2)"
    using del_step.return [of "?s [] 1 None srv2" 0 lim del] by simp
  ultimately have "del_run lim del (?s [b1, b2] 0 None srv) (?s [] 0 None srv2)"
    by (meson converse_rtranclp_into_rtranclp r_into_rtranclp)
  then show ?thesis unfolding del_start_def assms(2)
    by (intro exI [of _ "?s [] 0 None srv2"]) (simp add: del_done_def)
qed

section \<open>Example\<close>

text \<open>A server that refuses to delete message 1.\<close>

definition refuse_one :: "int list \<Rightarrow> int set \<Rightarrow> svc_err option \<times> int set" where
  "refuse_one b srv = (if 1 \<in> set b then (Some (EMsg ''MESSAGE_DELETE_FORBIDDEN''), srv) else (None, srv - set b))"

lemma batches_150: "batches [1..150] = [[1..100], [101..150]]"
  by code_simp

theorem DeleteMessages_interleaved_witness:
  "\<exists>t. del_run 3 (\<lambda>b srv. (None, srv - set b)) (del_start [1..150] {7, 200}) t \<and> dm_group t = None \<and> dm_srv t = {200}"
proof -
  obtain t where t: "del_run 3 (\<lambda>b srv. (None, srv - set b)) (del_start [1..150] {7, 200 :: int}) t" "del_done t"
    using del_run_ends [of 3] by auto
  then have "dm_group t = None \<and> dm_srv t = {7, 200} - id ` set [1..150]"
    by (intro DeleteMessages_interleaved [of "\<lambda>b srv. (None, srv - set b)" id]) auto
  then show ?thesis using t(1) by auto
qed

theorem DeleteMessages_loses_error_witness:
  "\<exists>t. del_run 2 refuse_one (del_start [1..150] {1, 2, 120}) t \<and> del_done t \<and> dm_group t = None \<and> dm_srv t = {1, 2}"
  by (rule DeleteMessages_loses_error [OF order.refl batches_150]) (auto simp: refuse_one_def)

end
