(* ===== verification/Events.thy ===== *)
theory Events
  imports Service
begin

text \<open>
  Event broadcasting (internal/events). The base broadcaster keeps the subscriptions, the buffered channel of each, the
  queue of events for the database and the ids seen of late; the polling broadcaster adds the poller, the
  Redis broadcaster the messages on their way back from Redis. Every operation runs under the locks of the code as one step; times
  are nanoseconds; the goroutines are steps that may happen at any time. Logging is not modelled.
\<close>

section \<open>The base broadcaster\<close>

record EventRow =
  er_id :: string
  er_event :: Event
  er_created :: int

text \<open>\<open>bc_subs\<close> lists user and channel in the order of subscription; the map of the code has the channels of a user in that order.\<close>

record bcast =
  bc_subs :: "(int \<times> nat) list"
  bc_chans :: "nat \<Rightarrow> EventRow list"
  bc_next :: nat
  bc_queue :: "EventRow list"
  bc_table :: "EventRow list"
  bc_recent :: "(string \<times> int) list"

record BroadcasterConfig =
  bf_DBWorkers :: int
  bf_DBBufferSize :: int
  bf_DeduplicationTTL :: int

definition DefaultBroadcasterConfig :: BroadcasterConfig where
  "DefaultBroadcasterConfig = \<lparr> bf_DBWorkers = 10, bf_DBBufferSize = 1000, bf_DeduplicationTTL = 30 * 60 * 1000000000 \<rparr>"

definition apply_defaults :: "BroadcasterConfig \<Rightarrow> BroadcasterConfig" where
  "apply_defaults c = \<lparr>
     bf_DBWorkers = (if bf_DBWorkers c \<le> 0 then bf_DBWorkers DefaultBroadcasterConfig else bf_DBWorkers c),
     bf_DBBufferSize = (if bf_DBBufferSize c \<le> 0 then bf_DBBufferSize DefaultBroadcasterConfig else bf_DBBufferSize c),
     bf_DeduplicationTTL = (if bf_DeduplicationTTL c \<le> 0 then bf_DeduplicationTTL DefaultBroadcasterConfig
                            else bf_DeduplicationTTL c) \<rparr>"

definition cleanupOldEvents :: "int \<Rightarrow> int \<Rightarrow> (string \<times> int) list \<Rightarrow> (string \<times> int) list" where
  "cleanupOldEvents ttl now recent = filter (\<lambda>(i, ts). \<not> now - ts > ttl) recent"

definition mark_recent :: "int \<Rightarrow> int \<Rightarrow> string \<Rightarrow> (string \<times> int) list \<Rightarrow> (string \<times> int) list" where
  "mark_recent ttl now i recent =
     (let recent = (i, now) # filter (\<lambda>x. fst x \<noteq> i) recent
      in if length recent mod 100 = 0 then cleanupOldEvents ttl now recent else recent)"

definition shouldProcess :: "int \<Rightarrow> int \<Rightarrow> string \<Rightarrow> 'z bcast_scheme \<Rightarrow> bool \<times> 'z bcast_scheme" where
  "shouldProcess ttl now i b =
     (case map_of (bc_recent b) i of
        Some ts \<Rightarrow> if now - ts < ttl then (False, b) else (True, b\<lparr> bc_recent := mark_recent ttl now i (bc_recent b) \<rparr>)
      | None \<Rightarrow> (True, b\<lparr> bc_recent := mark_recent ttl now i (bc_recent b) \<rparr>))"

text \<open>A channel holds 100 events; one that is full misses the event.\<close>

definition send :: "EventRow \<Rightarrow> nat \<Rightarrow> (nat \<Rightarrow> EventRow list) \<Rightarrow> nat \<Rightarrow> EventRow list" where
  "send evt ch chans = (if length (chans ch) < 100 then chans(ch := chans ch @ [evt]) else chans)"

definition subs_of :: "int \<Rightarrow> (int \<times> nat) list \<Rightarrow> nat list" where
  "subs_of uid subs = map snd (filter (\<lambda>s. fst s = uid) subs)"

definition broadcast :: "EventRow \<Rightarrow> 'z bcast_scheme \<Rightarrow> 'z bcast_scheme" where
  "broadcast evt b =
     b\<lparr> bc_chans := fold (send evt) (subs_of (ev_user (er_event evt)) (bc_subs b)) (bc_chans b) \<rparr>"

definition base_Subscribe :: "int \<Rightarrow> 'z bcast_scheme \<Rightarrow> nat \<times> 'z bcast_scheme" where
  "base_Subscribe uid b =
     (bc_next b, b\<lparr> bc_subs := bc_subs b @ [(uid, bc_next b)], bc_chans := (bc_chans b)(bc_next b := []),
                    bc_next := bc_next b + 1 \<rparr>)"

text \<open>The channel is drained and closed.\<close>

definition base_Unsubscribe :: "int \<Rightarrow> nat \<Rightarrow> 'z bcast_scheme \<Rightarrow> 'z bcast_scheme" where
  "base_Unsubscribe uid ch b =
     b\<lparr> bc_subs := remove1 (uid, ch) (bc_subs b), bc_chans := (bc_chans b)(ch := []) \<rparr>"

definition queueForDB :: "nat \<Rightarrow> EventRow \<Rightarrow> 'z bcast_scheme \<Rightarrow> bool \<times> 'z bcast_scheme" where
  "queueForDB bufSize evt b =
     (if length (bc_queue b) < bufSize then (True, b\<lparr> bc_queue := bc_queue b @ [evt] \<rparr>) else (False, b))"

text \<open>One event taken by a worker; the insert fails on an id the table has.\<close>

definition dbWorker :: "'z bcast_scheme \<Rightarrow> 'z bcast_scheme" where
  "dbWorker b =
     (case bc_queue b of
        [] \<Rightarrow> b
      | evt # q \<Rightarrow> b\<lparr> bc_queue := q,
          bc_table := (if er_id evt \<in> er_id ` set (bc_table b) then bc_table b else bc_table b @ [evt]) \<rparr>)"

definition createEvent :: "string \<Rightarrow> int \<Rightarrow> event_op \<Rightarrow> int \<Rightarrow> Source \<Rightarrow> EventRow" where
  "createEvent new_id now op uid src =
     \<lparr> er_id = new_id, er_event = \<lparr> ev_type = op, ev_user = uid, ev_source = src \<rparr>, er_created = now \<rparr>"

text \<open>A client of the stream takes the next event of its channel.\<close>

definition receive :: "nat \<Rightarrow> 'z bcast_scheme \<Rightarrow> 'z bcast_scheme" where
  "receive ch b = b\<lparr> bc_chans := (bc_chans b)(ch := tl (bc_chans b ch)) \<rparr>"

section \<open>The polling broadcaster\<close>

text \<open>\<open>pb_pollers\<close> counts the goroutines in the loop of \<open>poll\<close>.\<close>

record polling = bcast +
  pb_last :: int
  pb_polling :: bool
  pb_pollers :: nat

definition startPolling :: "int \<Rightarrow> polling \<Rightarrow> polling" where
  "startPolling now b =
     (if pb_polling b then b else b\<lparr> pb_polling := True, pb_last := now, pb_pollers := pb_pollers b + 1 \<rparr>)"

definition stopPolling :: "polling \<Rightarrow> polling" where
  "stopPolling b = (if \<not> pb_polling b then b else b\<lparr> pb_polling := False \<rparr>)"

definition getTotalSubscribers :: "'z bcast_scheme \<Rightarrow> nat" where
  "getTotalSubscribers b = length (bc_subs b)"

definition poll_rows :: "polling \<Rightarrow> EventRow list" where
  "poll_rows b = take 1000 (sort_key er_created (filter (\<lambda>e. er_created e > pb_last b) (bc_table b)))"

definition process_event :: "int \<Rightarrow> int \<Rightarrow> EventRow \<Rightarrow> 'z bcast_scheme \<Rightarrow> 'z bcast_scheme" where
  "process_event ttl now evt b = (case shouldProcess ttl now (er_id evt) b of (ok, b) \<Rightarrow> if ok then broadcast evt b else b)"

definition checkForNewEvents :: "int \<Rightarrow> int \<Rightarrow> polling \<Rightarrow> polling" where
  "checkForNewEvents ttl now b = fold (process_event ttl now) (poll_rows b) (b\<lparr> pb_last := now \<rparr>)"

text \<open>One tick of a poller: it ends when polling was stopped.\<close>

definition poll :: "int \<Rightarrow> int \<Rightarrow> polling \<Rightarrow> polling" where
  "poll ttl now b =
     (if pb_pollers b = 0 then b
      else if \<not> pb_polling b then b\<lparr> pb_pollers := pb_pollers b - 1 \<rparr> else checkForNewEvents ttl now b)"

definition Subscribe :: "int \<Rightarrow> int \<Rightarrow> polling \<Rightarrow> nat \<times> polling" where
  "Subscribe now uid b =
     (case base_Subscribe uid b of (ch, b) \<Rightarrow> (ch, if getTotalSubscribers b = 1 then startPolling now b else b))"

definition Unsubscribe :: "int \<Rightarrow> nat \<Rightarrow> polling \<Rightarrow> polling" where
  "Unsubscribe uid ch b =
     (let b = base_Unsubscribe uid ch b in if getTotalSubscribers b = 0 then stopPolling b else b)"

definition Record_polling :: "nat \<Rightarrow> string \<Rightarrow> int \<Rightarrow> event_op \<Rightarrow> int \<Rightarrow> Source \<Rightarrow> polling \<Rightarrow> polling" where
  "Record_polling bufSize new_id now op uid src b =
     (let evt = createEvent new_id now op uid src in snd (queueForDB bufSize evt (broadcast evt b)))"

section \<open>The Redis broadcaster\<close>

text \<open>\<open>rb_flight\<close> are the events published and not yet received; an event is published in a goroutine, which may fail.\<close>

record redis_bcast = bcast +
  rb_publish :: "EventRow list"
  rb_flight :: "EventRow list"

definition Record_redis :: "nat \<Rightarrow> string \<Rightarrow> int \<Rightarrow> event_op \<Rightarrow> int \<Rightarrow> Source \<Rightarrow> redis_bcast \<Rightarrow> redis_bcast" where
  "Record_redis bufSize new_id now op uid src b =
     (let evt = createEvent new_id now op uid src; b = snd (queueForDB bufSize evt b)
      in b\<lparr> rb_publish := rb_publish b @ [evt] \<rparr>)"

definition redis_receive :: "int \<Rightarrow> int \<Rightarrow> redis_bcast \<Rightarrow> redis_bcast" where
  "redis_receive ttl now b =
     (case rb_flight b of [] \<Rightarrow> b | evt # es \<Rightarrow> process_event ttl now evt (b\<lparr> rb_flight := es \<rparr>))"

section \<open>Reading events (pkg/services/api.go)\<close>

text \<open>The newest events first, of the last ten minutes; the bound is formatted without fractions of a second.\<close>

definition sec :: int where "sec = 1000000000"

definition EventsGetEvents :: "int \<Rightarrow> int \<Rightarrow> EventRow list \<Rightarrow> EventRow list" where
  "EventsGetEvents now uid rows =
     rev (sort_key er_created (rev (filter (\<lambda>e. er_created e > (now - 600 * sec) div sec * sec \<and> ev_user (er_event e) = uid) rows)))"

text \<open>\<open>cleanOldEvents\<close> of pkg/cron/cron.go.\<close>

definition cleanOldEvents :: "int \<Rightarrow> EventRow list \<Rightarrow> EventRow list" where
  "cleanOldEvents now rows = filter (\<lambda>e. \<not> er_created e < now - 5 * 24 * 3600 * sec) rows"

section \<open>Delivery\<close>

lemma in_set_tl: "x \<in> set (tl xs) \<Longrightarrow> x \<in> set xs"
  by (cases xs) auto

lemma fold_send:
  "distinct chs \<Longrightarrow> fold (send evt) chs chans ch =
     (if ch \<in> set chs \<and> length (chans ch) < 100 then chans ch @ [evt] else chans ch)"
  by (induction chs arbitrary: chans) (auto simp: send_def)

lemma distinct_subs_of: "distinct (map snd subs) \<Longrightarrow> distinct (subs_of uid subs)"
  by (simp add: subs_of_def distinct_map_filter)

lemma subs_of_set: "ch \<in> set (subs_of uid subs) \<longleftrightarrow> (uid, ch) \<in> set subs"
  by (auto simp: subs_of_def image_iff)

lemma broadcast_chans:
  assumes "distinct (map snd (bc_subs b))"
  shows "bc_chans (broadcast evt b) ch =
    (if (ev_user (er_event evt), ch) \<in> set (bc_subs b) \<and> length (bc_chans b ch) < 100 then bc_chans b ch @ [evt] else bc_chans b ch)"
  using fold_send [OF distinct_subs_of [OF assms]] by (simp add: broadcast_def subs_of_set)

lemma broadcast_fields [simp]:
  "bc_subs (broadcast evt b) = bc_subs b" "bc_next (broadcast evt b) = bc_next b" "bc_queue (broadcast evt b) = bc_queue b"
  "bc_table (broadcast evt b) = bc_table b" "bc_recent (broadcast evt b) = bc_recent b"
  by (simp_all add: broadcast_def)

text \<open>
  The invariant of the subscriptions: every channel belongs to one subscription, holds at most 100 events, and only
  events of its user.
\<close>

definition bcast_inv :: "'z bcast_scheme \<Rightarrow> bool" where
  "bcast_inv b \<longleftrightarrow> distinct (map snd (bc_subs b)) \<and>
     (\<forall>(uid, ch) \<in> set (bc_subs b). ch < bc_next b \<and> length (bc_chans b ch) \<le> 100
        \<and> (\<forall>e \<in> set (bc_chans b ch). ev_user (er_event e) = uid))"

lemma bcast_inv_cong:
  "bcast_inv b \<Longrightarrow> bc_subs c = bc_subs b \<Longrightarrow> bc_chans c = bc_chans b \<Longrightarrow> bc_next c = bc_next b \<Longrightarrow> bcast_inv c"
  by (simp add: bcast_inv_def)

lemma broadcast_inv: "bcast_inv b \<Longrightarrow> bcast_inv (broadcast evt b)"
proof -
  assume inv: "bcast_inv b"
  then have d: "distinct (map snd (bc_subs b))" by (simp add: bcast_inv_def)
  have one: "u = v" if "(u, ch) \<in> set (bc_subs b)" "(v, ch) \<in> set (bc_subs b)" for u v ch
    using d that inj_onD [of snd "set (bc_subs b)" "(u, ch)" "(v, ch)"] by (simp add: distinct_map)
  show ?thesis
    using inv one by (auto simp: bcast_inv_def broadcast_chans [OF d])
qed

lemma base_Subscribe_inv: "bcast_inv b \<Longrightarrow> bcast_inv (snd (base_Subscribe uid b))"
  by (fastforce simp: bcast_inv_def base_Subscribe_def)

lemma base_Unsubscribe_inv: "bcast_inv b \<Longrightarrow> bcast_inv (base_Unsubscribe uid ch b)"
proof -
  assume inv: "bcast_inv b"
  have "distinct (map snd (remove1 (uid, ch) (bc_subs b)))"
    using inv by (auto simp: bcast_inv_def distinct_map intro: inj_on_subset [OF _ Diff_subset])
  then show ?thesis
    using inv set_remove1_subset [of "(uid, ch)" "bc_subs b"] by (fastforce simp: bcast_inv_def base_Unsubscribe_def)
qed

lemma receive_inv: "bcast_inv b \<Longrightarrow> bcast_inv (receive ch b)"
  using in_set_tl [of _ "bc_chans b ch"] by (fastforce simp: bcast_inv_def receive_def)

lemma process_event_inv: "bcast_inv b \<Longrightarrow> bcast_inv (process_event ttl now evt b)"
proof -
  assume inv: "bcast_inv b"
  obtain ok c where s: "shouldProcess ttl now (er_id evt) b = (ok, c)" by fastforce
  then have "bcast_inv c"
    by (auto simp: shouldProcess_def intro: bcast_inv_cong [OF inv] split: option.splits if_splits)
  with s show ?thesis by (simp add: process_event_def broadcast_inv)
qed

lemma fold_process_inv: "bcast_inv b \<Longrightarrow> bcast_inv (fold (process_event ttl now) es b)"
  by (induction es arbitrary: b) (simp_all add: process_event_inv)

lemma queueForDB_inv: "bcast_inv b \<Longrightarrow> bcast_inv (snd (queueForDB n evt b))"
  by (auto simp: queueForDB_def intro: bcast_inv_cong)

lemma dbWorker_inv: "bcast_inv b \<Longrightarrow> bcast_inv (dbWorker b)"
  by (auto simp: dbWorker_def intro: bcast_inv_cong split: list.splits)

lemmas bcast_invs = broadcast_inv base_Subscribe_inv base_Unsubscribe_inv receive_inv process_event_inv fold_process_inv
  queueForDB_inv dbWorker_inv

section \<open>Steps of the polling broadcaster\<close>

inductive poll_step :: "int \<Rightarrow> nat \<Rightarrow> polling \<Rightarrow> polling \<Rightarrow> bool" for ttl bufSize where
  subscribe: "poll_step ttl bufSize b (snd (Subscribe now uid b))"
| unsubscribe: "poll_step ttl bufSize b (Unsubscribe uid ch b)"
| recorded: "poll_step ttl bufSize b (Record_polling bufSize new_id now op uid src b)"
| worker: "poll_step ttl bufSize b (dbWorker b)"
| tick: "poll_step ttl bufSize b (poll ttl now b)"
| received: "poll_step ttl bufSize b (receive ch b)"

definition polling_start :: "EventRow list \<Rightarrow> int \<Rightarrow> polling" where
  "polling_start table now = \<lparr> bc_subs = [], bc_chans = (\<lambda>_. []), bc_next = 0, bc_queue = [], bc_table = table, bc_recent = [],
     pb_last = now, pb_polling = False, pb_pollers = 0 \<rparr>"

text \<open>Someone subscribed means polling, and polling means that a poller runs.\<close>

definition polling_inv :: "polling \<Rightarrow> bool" where
  "polling_inv b \<longleftrightarrow> bcast_inv b \<and> (pb_polling b \<longleftrightarrow> bc_subs b \<noteq> []) \<and> (pb_polling b \<longrightarrow> pb_pollers b > 0)"

lemma fold_process_polling:
  fixes b :: polling
  shows "bc_subs (fold (process_event ttl now) es b) = bc_subs b \<and> pb_polling (fold (process_event ttl now) es b) = pb_polling b
    \<and> pb_pollers (fold (process_event ttl now) es b) = pb_pollers b \<and> pb_last (fold (process_event ttl now) es b) = pb_last b
    \<and> bc_table (fold (process_event ttl now) es b) = bc_table b"
  by (induction es arbitrary: b)
     (auto simp: process_event_def shouldProcess_def broadcast_def split: option.splits prod.splits if_splits)

lemma poll_step_inv: "poll_step ttl bufSize b c \<Longrightarrow> polling_inv b \<Longrightarrow> polling_inv c"
proof (induction rule: poll_step.induct)
  case (subscribe b now uid)
  then have "bcast_inv (snd (base_Subscribe uid b))" by (simp add: polling_inv_def bcast_invs)
  moreover have "length (bc_subs b) = 0 \<longleftrightarrow> bc_subs b = []" by simp
  ultimately show ?case using subscribe
    by (auto simp: polling_inv_def Subscribe_def base_Subscribe_def startPolling_def getTotalSubscribers_def
        intro: bcast_inv_cong)
next
  case (unsubscribe b uid ch)
  then have "bcast_inv (base_Unsubscribe uid ch b)" by (simp add: polling_inv_def bcast_invs)
  with unsubscribe show ?case
    by (auto simp: polling_inv_def Unsubscribe_def base_Unsubscribe_def stopPolling_def getTotalSubscribers_def Let_def
        intro: bcast_inv_cong)
next
  case (recorded b new_id now op uid src)
  then have "bcast_inv (snd (queueForDB bufSize (createEvent new_id now op uid src) (broadcast (createEvent new_id now op uid src) b)))"
    by (simp add: polling_inv_def bcast_invs)
  with recorded show ?case
    by (auto simp: polling_inv_def Record_polling_def Let_def queueForDB_def broadcast_def)
next
  case (worker b)
  then show ?case by (auto simp: polling_inv_def dbWorker_def intro: bcast_inv_cong split: list.splits)
next
  case (tick b now)
  have "bcast_inv (b\<lparr> pb_last := now \<rparr>)" using tick by (auto simp: polling_inv_def intro: bcast_inv_cong)
  then have "bcast_inv (checkForNewEvents ttl now b)" by (simp add: checkForNewEvents_def bcast_invs)
  moreover have "bcast_inv (b\<lparr> pb_pollers := pb_pollers b - 1 \<rparr>)" using tick by (auto simp: polling_inv_def intro: bcast_inv_cong)
  ultimately show ?case using tick by (auto simp: polling_inv_def poll_def checkForNewEvents_def fold_process_polling)
next
  case (received b ch)
  then have "bcast_inv (receive ch b)" by (simp add: polling_inv_def bcast_invs)
  with received show ?case by (auto simp: polling_inv_def receive_def)
qed


section \<open>Deduplication\<close>

text \<open>The answers to a stream of ids and times, and the reference: an id is new unless it was let through within the TTL.\<close>

fun process_ids :: "int \<Rightarrow> (string \<times> int) list \<Rightarrow> 'z bcast_scheme \<Rightarrow> bool list" where
  "process_ids ttl [] b = []"
| "process_ids ttl ((i, now) # xs) b = (case shouldProcess ttl now i b of (ok, b) \<Rightarrow> ok # process_ids ttl xs b)"

fun reference_ids :: "int \<Rightarrow> (string \<times> int) set \<Rightarrow> (string \<times> int) list \<Rightarrow> bool list" where
  "reference_ids ttl seen [] = []"
| "reference_ids ttl seen ((i, now) # xs) =
     (let ok = (\<forall>(j, s) \<in> seen. j = i \<longrightarrow> \<not> now - s < ttl)
      in ok # reference_ids ttl (if ok then insert (i, now) seen else seen) xs)"

definition recent_inv :: "int \<Rightarrow> int \<Rightarrow> (string \<times> int) set \<Rightarrow> (string \<times> int) list \<Rightarrow> bool" where
  "recent_inv ttl now seen recent \<longleftrightarrow> distinct (map fst recent) \<and> set recent \<subseteq> seen
     \<and> (\<forall>(i, s) \<in> seen. s \<le> now \<and> (now - s < ttl \<longrightarrow> (\<exists>ts \<ge> s. (i, ts) \<in> set recent)))"

lemma recent_inv_later: "recent_inv ttl now seen recent \<Longrightarrow> now \<le> t \<Longrightarrow> recent_inv ttl t seen recent"
  by (fastforce simp: recent_inv_def)

lemma shouldProcess_iff:
  assumes "recent_inv ttl now seen (bc_recent b)"
  shows "fst (shouldProcess ttl now i b) \<longleftrightarrow> (\<forall>(j, s) \<in> seen. j = i \<longrightarrow> \<not> now - s < ttl)"
proof (cases "map_of (bc_recent b) i")
  case None
  then have "(i, ts) \<notin> set (bc_recent b)" for ts by (force simp: map_of_eq_None_iff)
  with None assms show ?thesis by (fastforce simp: shouldProcess_def recent_inv_def)
next
  case (Some ts)
  with assms have one: "s = ts" if "(i, s) \<in> set (bc_recent b)" for s
    using that map_of_is_SomeI [of "bc_recent b" i s] by (simp add: recent_inv_def)
  have "(i, ts) \<in> seen" using assms map_of_SomeD [OF Some] by (auto simp: recent_inv_def)
  have f: "fst (shouldProcess ttl now i b) \<longleftrightarrow> \<not> now - ts < ttl" using Some by (simp add: shouldProcess_def)
  have "\<not> now - s < ttl" if "\<not> now - ts < ttl" "(i, s) \<in> seen" for s
  proof
    assume "now - s < ttl"
    with that(2) assms obtain t where "t \<ge> s" "(i, t) \<in> set (bc_recent b)" unfolding recent_inv_def by blast
    with one that(1) \<open>now - s < ttl\<close> show False by force
  qed
  with f \<open>(i, ts) \<in> seen\<close> show ?thesis by blast
qed

lemma cleanupOldEvents_inv:
  assumes "recent_inv ttl now seen recent"
  shows "recent_inv ttl now seen (cleanupOldEvents ttl now recent)"
proof -
  have s: "set (cleanupOldEvents ttl now recent) = {(i, ts) \<in> set recent. \<not> now - ts > ttl}"
    by (auto simp: cleanupOldEvents_def)
  have d: "distinct (map fst (cleanupOldEvents ttl now recent))"
    using assms by (simp add: recent_inv_def cleanupOldEvents_def distinct_map_filter)
  have "\<exists>ts \<ge> s. (i, ts) \<in> set (cleanupOldEvents ttl now recent)" if "(i, s) \<in> seen" "now - s < ttl" for i s
  proof -
    from that assms obtain ts where "ts \<ge> s" "(i, ts) \<in> set recent" unfolding recent_inv_def by blast
    with that(2) show ?thesis unfolding s by (intro exI [of _ ts]) auto
  qed
  moreover have "set (cleanupOldEvents ttl now recent) \<subseteq> seen" "\<forall>(i, s) \<in> seen. s \<le> now"
    using assms unfolding s by (auto simp: recent_inv_def)
  ultimately show ?thesis unfolding recent_inv_def using d by auto
qed

lemma mark_recent_inv:
  assumes "recent_inv ttl now seen recent" "\<forall>(j, s) \<in> seen. j = i \<longrightarrow> \<not> now - s < ttl" "0 < ttl"
  shows "recent_inv ttl now (insert (i, now) seen) (mark_recent ttl now i recent)"
proof -
  let ?r = "(i, now) # filter (\<lambda>x. fst x \<noteq> i) recent"
  have r: "recent_inv ttl now (insert (i, now) seen) ?r"
  proof -
    have "distinct (map fst ?r)" "set ?r \<subseteq> insert (i, now) seen" "\<forall>(j, s) \<in> insert (i, now) seen. s \<le> now"
      using assms(1) by (auto simp: recent_inv_def distinct_map_filter)
    moreover have "\<exists>ts \<ge> s. (j, ts) \<in> set ?r" if "(j, s) \<in> insert (i, now) seen" "now - s < ttl" for j s
    proof (cases "j = i")
      case True
      then show ?thesis using that assms(1) by (intro exI [of _ now]) (auto simp: recent_inv_def)
    next
      case False
      with that assms(1) obtain ts where "ts \<ge> s" "(j, ts) \<in> set recent" unfolding recent_inv_def by blast
      with False show ?thesis by (intro exI [of _ ts]) auto
    qed
    ultimately show ?thesis unfolding recent_inv_def by auto
  qed
  have "recent_inv ttl now (insert (i, now) seen) (cleanupOldEvents ttl now ?r)"
    by (rule cleanupOldEvents_inv [OF r])
  with r show ?thesis by (simp add: mark_recent_def Let_def)
qed

lemma process_ids_reference:
  assumes "0 < ttl"
  shows "recent_inv ttl t seen (bc_recent b) \<Longrightarrow> sorted (map snd xs) \<Longrightarrow> \<forall>x \<in> set xs. t \<le> snd x \<Longrightarrow>
    process_ids ttl xs b = reference_ids ttl seen xs"
proof (induction xs arbitrary: b t seen)
  case (Cons x xs)
  obtain i now where x: "x = (i, now)" by fastforce
  obtain ok c where s: "shouldProcess ttl now i b = (ok, c)" by fastforce
  have inv: "recent_inv ttl now seen (bc_recent b)" using Cons.prems x by (auto intro: recent_inv_later)
  have ok: "ok \<longleftrightarrow> (\<forall>(j, s) \<in> seen. j = i \<longrightarrow> \<not> now - s < ttl)" using shouldProcess_iff [OF inv, of i] s by simp
  have "recent_inv ttl now (if ok then insert (i, now) seen else seen) (bc_recent c)"
  proof (cases ok)
    case True
    then have "bc_recent c = mark_recent ttl now i (bc_recent b)"
      using s by (auto simp: shouldProcess_def split: option.splits if_splits)
    with True ok mark_recent_inv [OF inv _ assms] show ?thesis by simp
  next
    case False
    then have "c = b" using s by (auto simp: shouldProcess_def split: option.splits if_splits)
    with False inv show ?thesis by simp
  qed
  from Cons.IH [OF this] Cons.prems(2,3) x s ok show ?case by (simp add: Let_def)
qed simp

text \<open>
  Duplicates. However often the table of recent ids is pruned, \<open>shouldProcess\<close> on events that arrive in the order of time answers
  like the definition that never forgets: an event is let through unless the same id was within the TTL.
\<close>

theorem shouldProcess_dedups:
  assumes "0 < ttl" "sorted (map snd xs)" "bc_recent b = []"
  shows "process_ids ttl xs b = reference_ids ttl {} xs"
proof (cases xs)
  case (Cons x ys)
  have "recent_inv ttl (snd x) {} (bc_recent b)" using assms(3) by (simp add: recent_inv_def)
  then show ?thesis by (rule process_ids_reference [OF assms(1) _ assms(2)]) (use assms(2) Cons in auto)
qed simp

section \<open>An event delivered twice\<close>

text \<open>
  \<open>Record\<close> of the polling broadcaster sends the event to the subscribers at once without marking its id, although the
  comments say that only the poller broadcasts. A subscriber with room therefore gets the event again at the next
  tick after it was written to the database.
\<close>

theorem polling_delivers_twice:
  assumes "polling_inv b" "(uid, ch) \<in> set (bc_subs b)" "length (bc_chans b ch) < 99"
    and "bc_queue b = []" "0 < bufSize" "pb_last b < now" "\<forall>e \<in> set (bc_table b). er_created e \<le> pb_last b"
    and "new_id \<notin> er_id ` set (bc_table b)" "map_of (bc_recent b) new_id = None"
  shows "bc_chans (poll ttl later (dbWorker (Record_polling bufSize new_id now op uid src b))) ch =
    bc_chans b ch @ [createEvent new_id now op uid src, createEvent new_id now op uid src]"
proof -
  let ?e = "createEvent new_id now op uid src"
  let ?b = "dbWorker (Record_polling bufSize new_id now op uid src b)"
  have d: "distinct (map snd (bc_subs b))" using assms(1) by (simp add: polling_inv_def bcast_inv_def)
  have e: "er_id ?e = new_id" "er_created ?e = now" "ev_user (er_event ?e) = uid" by (simp_all add: createEvent_def)
  have w: "?b = (broadcast ?e b)\<lparr> bc_queue := [], bc_table := bc_table b @ [?e] \<rparr>"
    using assms(4,5,8) e(1) by (simp add: Record_polling_def Let_def queueForDB_def dbWorker_def broadcast_def)
  have p: "pb_polling ?b" "pb_pollers ?b \<noteq> 0"
    using assms(1,2) by (auto simp: w polling_inv_def broadcast_def)
  have rows: "poll_rows ?b = [?e]"
  proof -
    have "filter (\<lambda>e. er_created e > pb_last b) (bc_table b) = []" using assms(7) by (auto simp: filter_empty_conv)
    then show ?thesis using assms(6) e(2) by (simp add: poll_rows_def w broadcast_def)
  qed
  have "checkForNewEvents ttl later ?b = process_event ttl later ?e (?b\<lparr> pb_last := later \<rparr>)"
    by (simp add: checkForNewEvents_def rows)
  moreover have "map_of (bc_recent ?b) new_id = None" using assms(9) by (simp add: w)
  ultimately have "bc_chans (poll ttl later ?b) ch = bc_chans (broadcast ?e (?b\<lparr> pb_last := later,
      bc_recent := mark_recent ttl later new_id (bc_recent ?b) \<rparr>)) ch"
    using p by (simp add: poll_def process_event_def shouldProcess_def e(1))
  also have "\<dots> = bc_chans ?b ch @ [?e]"
    using assms(2,3) d e(3) by (subst broadcast_chans) (simp_all add: w broadcast_chans [OF d])
  also have "bc_chans ?b ch = bc_chans b ch @ [?e]"
    using assms(2,3) e(3) by (simp add: w broadcast_chans [OF d])
  finally show ?thesis by simp
qed

section \<open>Events lost\<close>

text \<open>
  A tick looks at no more than 1000 events and then moves the time of the last poll to the present: an event that was in the
  table and is not among the first 1000 new ones is in no later result.
\<close>

lemma poll_limit_loses:
  assumes "e \<in> set (bc_table b)" "er_created e \<le> now" "e \<notin> set (poll_rows b)" "now \<le> pb_last c"
  shows "pb_last (checkForNewEvents ttl now b) = now \<and> e \<notin> set (poll_rows c)"
  using assms by (auto simp: checkForNewEvents_def fold_process_polling poll_rows_def dest: in_set_takeD)

section \<open>Subscribing and unsubscribing at the same time\<close>

text \<open>
  The decision to start or stop polling is taken under one lock and carried out under another, so an action taken by one
  goroutine can be carried out after that of another.
\<close>

datatype poll_action = StartPolling | StopPolling

definition act :: "int \<Rightarrow> poll_action \<Rightarrow> polling \<Rightarrow> polling" where
  "act now x b = (case x of StartPolling \<Rightarrow> startPolling now b | StopPolling \<Rightarrow> stopPolling b)"

inductive race_step :: "polling \<times> poll_action list \<Rightarrow> polling \<times> poll_action list \<Rightarrow> bool" where
  locked_subscribe: "b' = snd (base_Subscribe uid b) \<Longrightarrow>
    race_step (b, acts) (b', if getTotalSubscribers b' = 1 then acts @ [StartPolling] else acts)"
| locked_unsubscribe: "b' = base_Unsubscribe uid ch b \<Longrightarrow>
    race_step (b, acts) (b', if getTotalSubscribers b' = 0 then acts @ [StopPolling] else acts)"
| carried_out: "race_step (b, xs @ x # ys) (act now x b, xs @ ys)"

text \<open>Without interleaving the two steps are the operations.\<close>

lemma Subscribe_steps: "race_step\<^sup>*\<^sup>* (b, []) (snd (Subscribe now uid b), [])"
proof -
  let ?b = "snd (base_Subscribe uid b)"
  have s: "race_step (b, []) (?b, if getTotalSubscribers ?b = 1 then [StartPolling] else [])"
    using race_step.locked_subscribe [of ?b uid b "[]"] by (simp split: if_splits)
  have e: "snd (Subscribe now uid b) = (if getTotalSubscribers ?b = 1 then startPolling now ?b else ?b)"
    by (simp add: Subscribe_def split: prod.splits)
  show ?thesis
  proof (cases "getTotalSubscribers ?b = 1")
    case True
    then have "race_step (?b, [StartPolling]) (startPolling now ?b, [])"
      using race_step.carried_out [of ?b "[]" StartPolling "[]" now] by (simp add: act_def)
    with s True show ?thesis unfolding e by (simp add: rtranclp.rtrancl_into_rtrancl [OF r_into_rtranclp])
  next
    case False
    with s show ?thesis unfolding e by (simp add: r_into_rtranclp)
  qed
qed

text \<open>
  A subscriber nobody polls for. When the last subscriber leaves while another arrives, the stop decided first can be carried
  out last: all operations have ended, there is a subscriber, and polling is off.
\<close>

theorem polling_race_stops:
  "\<exists>b. race_step\<^sup>*\<^sup>* (snd (Subscribe now uid (polling_start table t0)), []) (b, [])
     \<and> bc_subs b = [(uid', 1)] \<and> \<not> pb_polling b"
proof -
  let ?b0 = "snd (Subscribe now uid (polling_start table t0))"
  let ?b1 = "base_Unsubscribe uid 0 ?b0"
  let ?b2 = "snd (base_Subscribe uid' ?b1)"
  have b: "bc_subs ?b1 = []" "bc_subs ?b2 = [(uid', 1)]" "pb_polling ?b2"
    by (simp_all add: Subscribe_def base_Subscribe_def base_Unsubscribe_def polling_start_def getTotalSubscribers_def
        startPolling_def)
  have s0: "race_step (?b0, []) (?b1, [StopPolling])"
    using race_step.locked_unsubscribe [of ?b1 uid 0 ?b0 "[]"] b(1) by (simp add: getTotalSubscribers_def)
  have s1: "race_step (?b1, [StopPolling]) (?b2, [StopPolling, StartPolling])"
    using race_step.locked_subscribe [of ?b2 uid' ?b1 "[StopPolling]"] b(2) by (simp add: getTotalSubscribers_def)
  have s2: "race_step (?b2, [StopPolling, StartPolling]) (act now StartPolling ?b2, [StopPolling])"
    using race_step.carried_out [of ?b2 "[StopPolling]" StartPolling "[]" now] by simp
  have s3: "race_step (act now StartPolling ?b2, [StopPolling]) (act now StopPolling (act now StartPolling ?b2), [])"
    using race_step.carried_out [of "act now StartPolling ?b2" "[]" StopPolling "[]" now] by simp
  have "race_step\<^sup>*\<^sup>* (?b0, []) (act now StopPolling (act now StartPolling ?b2), [])"
    by (intro converse_rtranclp_into_rtranclp [where r = race_step, OF s0] converse_rtranclp_into_rtranclp [where r = race_step, OF s1]
        converse_rtranclp_into_rtranclp [where r = race_step, OF s2] r_into_rtranclp [where r = race_step, OF s3])
  moreover have "bc_subs (act now StopPolling (act now StartPolling ?b2)) = [(uid', 1)]
      \<and> \<not> pb_polling (act now StopPolling (act now StartPolling ?b2))"
    using b(2,3) by (simp add: act_def startPolling_def stopPolling_def)
  ultimately show ?thesis by blast
qed

section \<open>Examples\<close>

definition demo_source :: Source where
  "demo_source = \<lparr> src_id = ''f'', src_type = FILE, src_name = ''a.txt'', src_parent = ''r'', src_dest = '''' \<rparr>"


theorem shouldProcess_dedups_witness:
  "process_ids 30 [(''a'', 1), (''b'', 2), (''a'', 5), (''a'', 40)] (polling_start [] 0) = [True, True, False, True]"
  by (subst shouldProcess_dedups) (simp_all add: polling_start_def)

theorem polling_delivers_twice_witness:
  "length (bc_chans (poll 60 20 (dbWorker (Record_polling 10 ''e'' 15 OpCreate 7 demo_source
      (snd (Subscribe 10 7 (polling_start [] 0)))))) 0) = 2"
proof -
  let ?b = "snd (Subscribe 10 7 (polling_start [] 0))"
  have b: "bc_subs ?b = [(7, 0)]" "bc_chans ?b 0 = []" "bc_queue ?b = []" "pb_last ?b = 10" "bc_table ?b = []"
    "bc_recent ?b = []" "pb_polling ?b" "pb_pollers ?b = 1" "bc_next ?b = 1"
    by (simp_all add: Subscribe_def base_Subscribe_def polling_start_def getTotalSubscribers_def startPolling_def)
  have "polling_inv ?b" by (simp add: polling_inv_def bcast_inv_def b)
  from polling_delivers_twice [OF this, of 7 0 10 15 "''e''" 60 20 OpCreate demo_source] show ?thesis
    by (simp add: b)
qed

end
