(* ===== verification/Storage.thy ===== *)
theory Storage
  imports Sessions
begin

text \<open>
  The storage of peers and of Telegram sessions (internal/tgstorage) and the channel handlers that use it
  (pkg/services/user.go). The table \<open>teldrive.kv\<close> is a list of rows with unique keys; a peer is JSON in it, its codec and
  its keys are parameters. Sessions in BoltDB are in TgClient; the in-memory storage of gotd is a library.
\<close>

section \<open>The table\<close>

record 'v KeyValue =
  kv_key :: string
  kv_value :: 'v
  kv_created :: int

type_synonym 'v kv_rows = "'v KeyValue list"

definition kv_find :: "string \<Rightarrow> 'v kv_rows \<Rightarrow> 'v option" where
  "kv_find k rows = map_option kv_value (first_where (\<lambda>r. kv_key r = k) rows)"

text \<open>\<open>tx.Save\<close> and \<open>INSERT ... ON CONFLICT (key) DO UPDATE\<close>.\<close>

definition kv_save :: "string \<Rightarrow> 'v \<Rightarrow> int \<Rightarrow> 'v kv_rows \<Rightarrow> 'v kv_rows" where
  "kv_save k v now rows =
     (if k \<in> kv_key ` set rows
      then update_where (\<lambda>r. kv_key r = k) (\<lambda>r. r\<lparr> kv_value := v, kv_created := now \<rparr>) rows
      else rows @ [\<lparr> kv_key = k, kv_value = v, kv_created = now \<rparr>])"

definition kv_delete :: "string \<Rightarrow> 'v kv_rows \<Rightarrow> 'v kv_rows" where
  "kv_delete k rows = filter (\<lambda>r. kv_key r \<noteq> k) rows"

text \<open>The operator \<open>LIKE\<close> of PostgreSQL: percent, underscore and the escape character.\<close>

function sql_like :: "string \<Rightarrow> string \<Rightarrow> bool" where
  "sql_like [] s = (s = [])"
| "sql_like (p # ps) s =
     (if p = CHR ''%'' then sql_like ps s \<or> (case s of [] \<Rightarrow> False | _ # t \<Rightarrow> sql_like (p # ps) t)
      else case s of
        [] \<Rightarrow> False
      | c # t \<Rightarrow>
          if p = CHR ''_'' then sql_like ps t
          else if p = CHR 0x5C \<and> ps \<noteq> [] then c = hd ps \<and> sql_like (tl ps) t
          else c = p \<and> sql_like ps t)"
  by pat_completeness auto
termination by (relation "measure (\<lambda>(p, s). length p + length s)") auto

section \<open>Peers (peer_storage.go)\<close>

text \<open>What unmarshalling a peer gives: a peer, the error that asks to drop the entry, or any other error.\<close>

datatype 'p peer_json = PeerJson 'p | PeerInvalidate | PeerMalformed

text \<open>The values the iterator visits: a dropped entry is skipped, any other error ends the iteration.\<close>

fun peer_values :: "('v \<Rightarrow> 'p peer_json) \<Rightarrow> 'v list \<Rightarrow> 'p list" where
  "peer_values decode [] = []"
| "peer_values decode (v # vs) =
     (case decode v of
        PeerJson p \<Rightarrow> p # peer_values decode vs
      | PeerInvalidate \<Rightarrow> peer_values decode vs
      | PeerMalformed \<Rightarrow> [])"

definition peer_Iterate :: "string \<Rightarrow> ('v \<Rightarrow> 'p peer_json) \<Rightarrow> 'v kv_rows \<Rightarrow> 'p list" where
  "peer_Iterate prefix decode rows =
     peer_values decode (map kv_value (filter (\<lambda>r. sql_like (prefix @ ''%'') (kv_key r)) rows))"

definition peer_Purge :: "string \<Rightarrow> 'v kv_rows \<Rightarrow> 'v kv_rows" where
  "peer_Purge prefix rows = filter (\<lambda>r. \<not> sql_like (prefix @ ''%'') (kv_key r)) rows"

text \<open>\<open>key_of\<close> is the key of the peer itself, the other keys are associated.\<close>

definition peer_add :: "string \<Rightarrow> ('p \<Rightarrow> 'v) \<Rightarrow> ('p \<Rightarrow> string) \<Rightarrow> string list \<Rightarrow> 'p \<Rightarrow> int \<Rightarrow> 'v kv_rows \<Rightarrow> 'v kv_rows" where
  "peer_add prefix encode key_of associated p now rows =
     fold (\<lambda>k. kv_save (Key [VStr prefix, VStr k]) (encode p) now) (key_of p # associated) rows"

text \<open>\<open>None\<close> is an error, of whatever kind; \<open>Resolve\<close> is the same function of an associated key.\<close>

definition peer_Find :: "string \<Rightarrow> ('v \<Rightarrow> 'p peer_json) \<Rightarrow> string \<Rightarrow> 'v kv_rows \<Rightarrow> 'p option" where
  "peer_Find prefix decode k rows =
     Option.bind (kv_find (Key [VStr prefix, VStr k]) rows) (\<lambda>v. case decode v of PeerJson p \<Rightarrow> Some p | _ \<Rightarrow> None)"

definition peer_Delete :: "string \<Rightarrow> string \<Rightarrow> 'v kv_rows \<Rightarrow> 'v kv_rows" where
  "peer_Delete prefix k rows = kv_delete (Key [VStr prefix, VStr k]) rows"

section \<open>Sessions (kv.go, postgres.go)\<close>

text \<open>The state: the table and the cache; \<open>None\<close> for the cache is the nil interface.\<close>

type_synonym kv_state = "string kv_rows \<times> string cmap option"

definition kv_Set :: "string \<Rightarrow> string \<Rightarrow> int \<Rightarrow> kv_state \<Rightarrow> kv_state" where
  "kv_Set k v now st = (kv_save k v now (fst st), snd st)"

definition kv_Get :: "string \<Rightarrow> kv_state \<Rightarrow> (svc_err + string) \<times> kv_state" where
  "kv_Get k st =
     (case st of (rows, cache) \<Rightarrow>
       let query = (case kv_find k rows of None \<Rightarrow> Inl ERecordNotFound | Some v \<Rightarrow> Inr v) in
       case cache of
         None \<Rightarrow> (query, st)
       | Some c \<Rightarrow>
           (case cm_Get (Key [VStr k]) c of
              Inr v \<Rightarrow> (Inr v, st)
            | Inl _ \<Rightarrow> (case query of Inl e \<Rightarrow> (Inl e, st) | Inr v \<Rightarrow> (Inr v, (rows, Some (cm_Set (Key [VStr k]) v (30 * 60) c))))))"

text \<open>The outer \<open>None\<close> is the call on the nil cache.\<close>

definition kv_Delete :: "string \<Rightarrow> kv_state \<Rightarrow> kv_state option" where
  "kv_Delete k st =
     (case snd st of None \<Rightarrow> None | Some c \<Rightarrow> Some (kv_delete k (fst st), Some (cm_Delete [k] c)))"

definition LoadSession :: "string \<Rightarrow> kv_state \<Rightarrow> (svc_err + string) \<times> kv_state" where
  "LoadSession key st =
     (case st of (rows, cache) \<Rightarrow>
       let query = (case kv_find key rows of None \<Rightarrow> Inl ERecordNotFound | Some v \<Rightarrow> Inr v); k = Key [VStr ''session'', VStr key] in
       case cache of
         None \<Rightarrow> (query, st)
       | Some c \<Rightarrow>
           (case cm_Get k c of
              Inr v \<Rightarrow> (Inr v, st)
            | Inl _ \<Rightarrow> (case query of Inl e \<Rightarrow> (Inl e, st) | Inr v \<Rightarrow> (Inr v, (rows, Some (cm_Set k v (30 * 60) c))))))"

definition StoreSession :: "string \<Rightarrow> string \<Rightarrow> int \<Rightarrow> kv_state \<Rightarrow> kv_state" where
  "StoreSession key data now st = (kv_save key data now (fst st), snd st)"

datatype storage_kind = StorageBolt | StoragePostgres | StorageMemory

definition NewSessionStorage :: "string \<Rightarrow> svc_err + storage_kind" where
  "NewSessionStorage ty =
     (if ty = ''bolt'' then Inr StorageBolt
      else if ty \<in> {''postgres'', ''postgresql'', ''pg''} then Inr StoragePostgres
      else if ty \<in> {''memory'', ''''} then Inr StorageMemory
      else Inl (EMsg (''unknown session storage type: '' @ ty)))"

section \<open>Channel handlers (pkg/services/user.go)\<close>

record tg_peer =
  tp_channel :: "(int \<times> string \<times> bool) option"

text \<open>The channels among the stored peers in which the user may add administrators, by id and then by name.\<close>

definition admin_channels :: "tg_peer list \<Rightarrow> (int \<times> string) list" where
  "admin_channels peers =
     foldl (\<lambda>acc p. case tp_channel p of
              Some (i, title, True) \<Rightarrow> if i \<in> fst ` set acc then acc else acc @ [(i, title)]
            | _ \<Rightarrow> acc) [] peers"

definition UsersListChannels :: "('v \<Rightarrow> tg_peer peer_json) \<Rightarrow> int \<Rightarrow> 'v kv_rows \<Rightarrow> (int \<times> string) list" where
  "UsersListChannels decode userId rows = sort_key snd (admin_channels (peer_Iterate (KeyPeer userId) decode rows))"

text \<open>\<open>tgDelete\<close> is the outcome of the calls that delete the channel on Telegram, with the key of its peer.\<close>

definition UsersDeleteChannel ::
    "(int \<Rightarrow> svc_err + string) \<Rightarrow> int \<Rightarrow> int \<Rightarrow> app \<times> 'v kv_rows \<Rightarrow> (svc_err + unit) \<times> app \<times> 'v kv_rows" where
  "UsersDeleteChannel tgDelete userId channelId st =
     (case tgDelete channelId of
        Inl e \<Rightarrow> (Inl (ApiErr e 0), st)
      | Inr k \<Rightarrow> (Inr (), (fst st)\<lparr> ap_channels := filter (\<lambda>c. ch_id c \<noteq> channelId) (ap_channels (fst st)) \<rparr>,
                   peer_Delete (KeyPeer userId) k (snd st)))"

text \<open>\<open>dialogs\<close> are the peers of the user's dialogs, with their keys, or the error of listing them.\<close>

definition UsersSyncChannels ::
    "(tg_peer \<Rightarrow> 'v) \<Rightarrow> (tg_peer \<Rightarrow> string) \<Rightarrow> (tg_peer \<Rightarrow> string list) \<Rightarrow> svc_err + tg_peer list \<Rightarrow> int \<Rightarrow> int \<Rightarrow> 'v kv_rows
     \<Rightarrow> (svc_err + unit) \<times> 'v kv_rows" where
  "UsersSyncChannels encode key_of keys_of dialogs userId now rows =
     (let rows = peer_Purge (KeyPeer userId) rows in
      case dialogs of
        Inl e \<Rightarrow> (Inl (ApiErr e 0), rows)
      | Inr ps \<Rightarrow> (Inr (), fold (\<lambda>p. peer_add (KeyPeer userId) encode key_of (keys_of p) p now) ps rows))"

declare sql_like.simps(2) [simp del]

section \<open>Read after write\<close>

lemma kv_find_simps [simp]:
  "kv_find k [] = None"
  "kv_find k (r # rows) = (if kv_key r = k then Some (kv_value r) else kv_find k rows)"
  by (simp_all add: kv_find_def first_where_def)

lemma kv_find_append: "k \<notin> kv_key ` set rows \<Longrightarrow> kv_find k (rows @ rows') = kv_find k rows'"
  by (induction rows) auto

lemma kv_find_append_other: "k \<notin> kv_key ` set rows' \<Longrightarrow> kv_find k (rows @ rows') = kv_find k rows"
  by (induction rows) (auto, induction rows', auto)

lemma kv_find_update:
  "kv_find k (update_where (\<lambda>r. kv_key r = k') (\<lambda>r. r\<lparr> kv_value := v, kv_created := now \<rparr>) rows) =
     (if k' = k \<and> k \<in> kv_key ` set rows then Some v else kv_find k rows)"
  by (induction rows) (auto simp: update_where_def)

lemma kv_find_save: "kv_find k (kv_save k' v now rows) = (if k' = k then Some v else kv_find k rows)"
  by (simp add: kv_save_def kv_find_update kv_find_append kv_find_append_other)

lemma kv_find_delete: "kv_find k (kv_delete k' rows) = (if k' = k then None else kv_find k rows)"
  by (induction rows) (auto simp: kv_delete_def)

text \<open>A store with the laws of a map: what is read is what was written last.\<close>

locale key_value =
  fixes lookup :: "string \<Rightarrow> 's \<Rightarrow> 'v option" and save :: "string \<Rightarrow> 'v \<Rightarrow> int \<Rightarrow> 's \<Rightarrow> 's" and delete :: "string \<Rightarrow> 's \<Rightarrow> 's"
  assumes lookup_save: "lookup k (save k' v t s) = (if k' = k then Some v else lookup k s)"
    and lookup_delete: "lookup k (delete k' s) = (if k' = k then None else lookup k s)"
begin

lemma lookup_fold_save:
  "lookup k (fold (\<lambda>k. save (f k) v t) ks s) = (if k \<in> f ` set ks then Some v else lookup k s)"
  by (induction ks arbitrary: s) (auto simp: lookup_save)

end

interpretation kv: key_value kv_find kv_save kv_delete
  by unfold_locales (simp_all add: kv_find_save kv_find_delete)

lemma Key2_inj: "Key [VStr p, VStr k] = Key [VStr p, VStr k'] \<Longrightarrow> k = k'"
  by (simp add: Key_def)

text \<open>
  Peers. A stored peer is found again under its own key and under every associated key, and the entries of all other
  keys are as before.
\<close>

theorem peer_add_Find:
  assumes "\<forall>p. decode (encode p) = PeerJson p"
  shows "peer_Find prefix decode k (peer_add prefix encode key_of keys p now rows) =
    (if k = key_of p \<or> k \<in> set keys then Some p else peer_Find prefix decode k rows)"
proof -
  have "(Key [VStr prefix, VStr k] \<in> (\<lambda>k. Key [VStr prefix, VStr k]) ` set (key_of p # keys)) \<longleftrightarrow> k = key_of p \<or> k \<in> set keys"
    using Key2_inj by force
  then show ?thesis
    unfolding peer_Find_def peer_add_def kv.lookup_fold_save [where f = "\<lambda>k. Key [VStr prefix, VStr k]"] using assms by simp
qed

section \<open>The prefix of a user\<close>

definition plain_pattern :: "string \<Rightarrow> bool" where
  "plain_pattern p \<longleftrightarrow> CHR ''%'' \<notin> set p \<and> CHR ''_'' \<notin> set p \<and> CHR 0x5C \<notin> set p"

lemma sql_like_percent: "sql_like ''%'' s"
  by (induction s) (simp_all add: sql_like.simps(2))

lemma sql_like_prefix: "plain_pattern p \<Longrightarrow> sql_like (p @ ''%'') s \<longleftrightarrow> HasPrefix s p"
proof (induction p arbitrary: s)
  case Nil
  then show ?case by (simp add: sql_like_percent HasPrefix_def)
next
  case (Cons c p)
  then have "plain_pattern p" by (simp add: plain_pattern_def)
  from Cons.IH [OF this] Cons.prems show ?case
    by (cases s) (auto simp: sql_like.simps(2) plain_pattern_def HasPrefix_def)
qed

lemma show_nat_snoc: "0 < n \<Longrightarrow> d < 10 \<Longrightarrow> \<exists>c. show_nat (10 * n + d) = show_nat n @ [c]"
  by (subst show_nat.simps) simp

lemma KeyPeer_nat: "KeyPeer (int m) = ''peers:'' @ show_nat m"
  by (simp add: KeyPeer_def Key_def show_int_def)

lemma plain_KeyPeer: "plain_pattern (KeyPeer (int n))"
proof -
  have "c \<noteq> CHR ''%'' \<and> c \<noteq> CHR ''_'' \<and> c \<noteq> CHR 0x5C" if "c \<in> set (show_nat n)" for c
    using that show_nat_digits [of n] by (auto simp: list_all_iff is_digit_def)
  then show ?thesis by (auto simp: plain_pattern_def KeyPeer_def Key_def show_int_def)
qed

text \<open>
  Synchronising the channels of one user removes the peers of others. The keys of a user are selected by the prefix
  \<open>peers:ID\<close> without the separator, so for every user whose id begins with the digits of the caller's id all stored peers
  are deleted as well.
\<close>

theorem UsersSyncChannels_other_users:
  assumes "0 < n" "d < 10" "r \<in> set rows" "kv_key r = Key [VStr (KeyPeer (int (10 * n + d))), VStr k]"
  shows "r \<notin> set (snd (UsersSyncChannels encode key_of keys_of (Inl e) (int n) now rows))"
proof -
  obtain c where c: "show_nat (10 * n + d) = show_nat n @ [c]" using show_nat_snoc [OF assms(1,2)] by blast
  have "plain_pattern (KeyPeer (int n))" by (rule plain_KeyPeer)
  moreover have "HasPrefix (kv_key r) (KeyPeer (int n))"
    unfolding assms(4) KeyPeer_nat by (simp add: Key_def c HasPrefix_def)
  ultimately have "sql_like (KeyPeer (int n) @ ''%'') (kv_key r)" by (simp only: sql_like_prefix)
  then show ?thesis by (simp add: UsersSyncChannels_def peer_Purge_def)
qed

section \<open>Stale sessions\<close>

text \<open>
  A stored session is not the session loaded. \<open>StoreSession\<close> writes the table and leaves the cache alone, so once a session
  was loaded through a cache every later load returns it, whatever was stored since; without a cache the load returns
  what was stored last.
\<close>

theorem StoreSession_stale:
  assumes "LoadSession key (rows, Some c) = (Inr v, (rows', Some c'))"
  shows "fst (LoadSession key (StoreSession key new now (rows', Some c'))) = Inr v
    \<and> fst (LoadSession key (StoreSession key new now (rows', None))) = Inr new"
proof -
  have "c' (Key [VStr ''session'', VStr key]) = Some v"
    using assms by (auto simp: LoadSession_def cm_Get_def cm_Set_def Let_def split: option.splits)
  then show ?thesis
    by (simp add: LoadSession_def StoreSession_def cm_Get_def kv.lookup_save Let_def)
qed

text \<open>
  A deleted channel stays the current one. \<open>UsersDeleteChannel\<close> removes the row and not the cached id, so \<open>CurrentChannel\<close>
  still returns the channel that no longer exists.
\<close>

theorem UsersDeleteChannel_keeps_current:
  assumes "CurrentChannel uid a = (Inr ch, a')" "tgDelete ch = Inr k"
  shows "\<exists>a'' rows'. UsersDeleteChannel tgDelete uid ch (a', rows) = (Inr (), a'', rows')
    \<and> ch \<notin> ch_id ` set (ap_channels a'') \<and> fst (CurrentChannel uid a'') = Inr ch"
proof -
  have c: "app_cache a' (KeyUserChannel uid) = Some (CNum ch)"
    using assms(1)
    by (auto simp: CurrentChannel_def cm_Get_def Let_def split: option.splits sum.splits cval.splits)
  let ?a = "a'\<lparr> ap_channels := filter (\<lambda>c. ch_id c \<noteq> ch) (ap_channels a') \<rparr>"
  have "UsersDeleteChannel tgDelete uid ch (a', rows) = (Inr (), ?a, peer_Delete (KeyPeer uid) k rows)"
    using assms(2) by (simp add: UsersDeleteChannel_def)
  moreover have "fst (CurrentChannel uid ?a) = Inr ch" using c by (simp add: CurrentChannel_def cm_Get_def Let_def)
  ultimately show ?thesis by (intro exI conjI) auto
qed

section \<open>Examples\<close>

theorem peer_add_Find_witness:
  "peer_Find ''peers:7'' PeerJson ''users_1'' (peer_add ''peers:7'' (\<lambda>p. p) (\<lambda>_. ''users_1'') [''name''] ''blob'' 3 []) = Some ''blob''"
  using peer_add_Find [of PeerJson "\<lambda>p. p" "''peers:7''" "''users_1''" "\<lambda>_. ''users_1''" "[''name'']" "''blob''" 3 "[]"] by simp

theorem UsersSyncChannels_other_users_witness:
  "\<lparr> kv_key = Key [VStr (KeyPeer 12), VStr ''channels_5''], kv_value = ''x'', kv_created = 0 \<rparr>
     \<notin> set (snd (UsersSyncChannels (\<lambda>_. ''x'') (\<lambda>_. '''') (\<lambda>_. []) (Inl EEmptyAuth) 1 0
         [\<lparr> kv_key = Key [VStr (KeyPeer 12), VStr ''channels_5''], kv_value = ''x'', kv_created = 0 \<rparr>]))"
  using UsersSyncChannels_other_users [of 1 2 "\<lparr> kv_key = Key [VStr (KeyPeer 12), VStr ''channels_5''], kv_value = ''x'', kv_created = 0 \<rparr>"
      "[\<lparr> kv_key = Key [VStr (KeyPeer 12), VStr ''channels_5''], kv_value = ''x'', kv_created = 0 \<rparr>]" "''channels_5''"]
  by simp

theorem StoreSession_stale_witness:
  "fst (LoadSession ''1'' (StoreSession ''1'' ''new'' 9
      ([\<lparr> kv_key = ''1'', kv_value = ''old'', kv_created = 0 \<rparr>], Some ((\<lambda>_. None)(Key [VStr ''session'', VStr ''1''] \<mapsto> ''old''))))) = Inr ''old''"
proof -
  have "LoadSession ''1'' ([\<lparr> kv_key = ''1'', kv_value = ''old'', kv_created = 0 \<rparr>], Some (\<lambda>_. None))
      = (Inr ''old'', ([\<lparr> kv_key = ''1'', kv_value = ''old'', kv_created = 0 \<rparr>], Some ((\<lambda>_. None)(Key [VStr ''session'', VStr ''1''] \<mapsto> ''old''))))"
    by (simp add: LoadSession_def cm_Get_def cm_Set_def Let_def)
  from StoreSession_stale [OF this, of "''new''" 9] show ?thesis by blast
qed

definition channel_app :: app where
  "channel_app = \<lparr> ap_svc = \<lparr> sv_files = [], sv_uploads = [], sv_shares = [], sv_cache = (\<lambda>_. None), sv_events = [] \<rparr>,
     ap_users = [], ap_sessions = [], ap_bots = [],
     ap_channels = [\<lparr> ch_id = 5, ch_name = ''c'', ch_user = 7, ch_selected = True, ch_created = 0 \<rparr>] \<rparr>"

theorem UsersDeleteChannel_keeps_current_witness:
  "\<exists>a'' rows'. UsersDeleteChannel (\<lambda>_. Inr ''channels_5'') 7 5 (snd (CurrentChannel 7 channel_app), [] :: string kv_rows) = (Inr (), a'', rows')
    \<and> fst (CurrentChannel 7 a'') = Inr 5"
proof -
  have "CurrentChannel 7 channel_app = (Inr 5, snd (CurrentChannel 7 channel_app))"
    by (simp add: CurrentChannel_def channel_app_def app_cache_def cm_Get_def first_where_def Let_def)
  from UsersDeleteChannel_keeps_current [OF this, of "\<lambda>_. Inr ''channels_5''" "''channels_5''" "[] :: string kv_rows"] show ?thesis by auto
qed

end
