(* ===== verification/Channels.thy ===== *)
theory Channels
  imports Storage
begin

text \<open>
  The channel manager (internal/tgc/channel_manager.go): the limit of a channel, the advisory lock, the creation of a channel
  and the goroutines that make the bots its administrators. Telegram is a parameter: functions on a state \<open>'s\<close>. An advisory
  lock of PostgreSQL belongs to a connection; which connection of the pool a statement gets is a parameter.
\<close>

section \<open>Limit\<close>

definition channel_parts :: "int \<Rightarrow> FileRow list \<Rightarrow> int" where
  "channel_parts channelID rows =
     sum_list (map (\<lambda>f. case f_parts f of None \<Rightarrow> 0 | Some ps \<Rightarrow> int (length ps)) (filter (\<lambda>f. f_channel f = Some channelID) rows))"

definition ChannelLimitReached :: "int \<Rightarrow> int \<Rightarrow> FileRow list \<Rightarrow> bool" where
  "ChannelLimitReached limit channelID rows \<longleftrightarrow> channel_parts channelID rows \<ge> limit"

section \<open>Advisory locks\<close>

text \<open>\<open>int64\<close> arithmetic.\<close>

definition generateLockID :: "int \<Rightarrow> string \<Rightarrow> 64 word" where
  "generateLockID userID operation = word_of_int userID * 1000000 + of_nat (length operation)"

text \<open>The locks held: lock and connection, once for every time it was taken.\<close>

type_synonym locks = "(64 word \<times> nat) list"

definition try_lock :: "64 word \<Rightarrow> nat \<Rightarrow> locks \<Rightarrow> bool \<times> locks" where
  "try_lock l conn ls =
     (if \<exists>(m, c) \<in> set ls. m = l \<and> c \<noteq> conn then (False, ls) else (True, (l, conn) # ls))"

text \<open>Unlocking on a connection that does not hold the lock has no effect.\<close>

definition unlock :: "64 word \<Rightarrow> nat \<Rightarrow> locks \<Rightarrow> locks" where
  "unlock l conn ls = remove1 (l, conn) ls"

definition acquireAdvisoryLock :: "64 word \<Rightarrow> nat \<Rightarrow> locks \<Rightarrow> svc_err option \<times> locks" where
  "acquireAdvisoryLock l conn ls =
     (case try_lock l conn ls of
        (True, ls) \<Rightarrow> (None, ls)
      | (False, ls) \<Rightarrow> (Some (EMsg ''lock already held by another instance''), ls))"

section \<open>Creating a channel\<close>

definition getChannelCreatedAfter :: "int \<Rightarrow> int \<Rightarrow> ChannelRow list \<Rightarrow> ChannelRow option" where
  "getChannelCreatedAfter userID after rows =
     (let new = filter (\<lambda>c. ch_user c = userID \<and> ch_created c > after) rows
      in first_where (\<lambda>c. \<forall>d \<in> set new. ch_created d < ch_created c \<or> ch_created d = ch_created c \<and> ch_id c \<le> ch_id d) new)"

record 's chan_state =
  cs_app :: app
  cs_locks :: locks
  cs_srv :: 's

definition insert_channel :: "ChannelRow \<Rightarrow> ChannelRow list \<Rightarrow> svc_err + ChannelRow list" where
  "insert_channel row rows = (if ch_id row \<in> ch_id ` set rows then Inl EKeyConflict else Inr (rows @ [row]))"

definition record_channel :: "bool \<Rightarrow> int \<Rightarrow> ChannelRow \<Rightarrow> app \<Rightarrow> svc_err + app" where
  "record_channel setDefault userID row a =
     (if setDefault then
        (case insert_channel row (update_where (\<lambda>c. ch_user c = userID) (\<lambda>c. c\<lparr> ch_selected := False \<rparr>) (ap_channels a)) of
           Inl e \<Rightarrow> Inl e
         | Inr rows \<Rightarrow> Inr (app_Delete [KeyUserChannel userID] (a\<lparr> ap_channels := rows \<rparr>)))
      else
        (case insert_channel row (ap_channels a) of
           Inl e \<Rightarrow> Inl e
         | Inr rows \<Rightarrow> Inr (a\<lparr> ap_channels := rows \<rparr>)))"

text \<open>
  The part under the lock. \<open>createCh\<close> creates a channel on Telegram and is the id of the channel in the answer, \<open>auth\<close> says whether
  the session makes a client, \<open>addBots\<close> is \<open>AddBotsToChannel\<close>; \<open>now\<close> is in seconds. The peer of the channel is
  stored as well, which nothing below depends on.
\<close>

definition create_locked ::
    "(string \<Rightarrow> 's \<Rightarrow> (svc_err + int option) \<times> 's) \<Rightarrow> (string \<Rightarrow> bool) \<Rightarrow> (int \<Rightarrow> int \<Rightarrow> string list \<Rightarrow> 's \<Rightarrow> svc_err option \<times> 's)
     \<Rightarrow> JWTClaims option \<Rightarrow> int \<Rightarrow> string \<Rightarrow> int \<Rightarrow> bool \<Rightarrow> app \<times> 's \<Rightarrow> (svc_err + int) \<times> app \<times> 's" where
  "create_locked createCh auth addBots jwtUser now newChannelName userID setDefault st =
     (case st of (a, srv) \<Rightarrow>
       case getChannelCreatedAfter userID (now - 10) (ap_channels a) of
         Some recentChannel \<Rightarrow> (Inr (ch_id recentChannel), a, srv)
       | None \<Rightarrow>
           let name = (if newChannelName = '''' then ''storage_'' @ show_int now else newChannelName) in
           case jwtUser of
             None \<Rightarrow> (Inl (EMsg ''no JWT user found in context''), a, srv)
           | Some claims \<Rightarrow>
               if \<not> auth (jc_tgSession claims) then (Inl (EMsg ''failed to create Telegram client''), a, srv)
               else
                 (case createCh name srv of
                    (Inl e, srv) \<Rightarrow> (Inl (EMsg ''failed to create Telegram channel''), a, srv)
                  | (Inr None, srv) \<Rightarrow> (Inl (EMsg ''failed to create Telegram channel''), a, srv)
                  | (Inr (Some newChannelID), srv) \<Rightarrow>
                      (case BotTokens userID a of
                         (Inl e, a) \<Rightarrow> (Inl e, a, srv)
                       | (Inr botTokens, a) \<Rightarrow>
                           if botTokens = [] then (Inl (EMsg ''add bot tokens before continuing''), a, srv)
                           else
                             (case addBots userID newChannelID botTokens srv of
                                (Some e, srv) \<Rightarrow> (Inl e, a, srv)
                              | (None, srv) \<Rightarrow>
                                  (case record_channel setDefault userID \<lparr> ch_id = newChannelID, ch_name = name, ch_user = userID,
                                          ch_selected = setDefault, ch_created = now \<rparr> a of
                                     Inl e \<Rightarrow> (Inl e, a, srv)
                                   | Inr a \<Rightarrow> (Inr newChannelID, a, srv))))))"

text \<open>The lock is taken on the connection \<open>c1\<close> and given back, when the function returns, on \<open>c2\<close>.\<close>

definition CreateNewChannel ::
    "(string \<Rightarrow> 's \<Rightarrow> (svc_err + int option) \<times> 's) \<Rightarrow> (string \<Rightarrow> bool) \<Rightarrow> (int \<Rightarrow> int \<Rightarrow> string list \<Rightarrow> 's \<Rightarrow> svc_err option \<times> 's)
     \<Rightarrow> nat \<Rightarrow> nat \<Rightarrow> JWTClaims option \<Rightarrow> int \<Rightarrow> string \<Rightarrow> int \<Rightarrow> bool \<Rightarrow> 's chan_state \<Rightarrow> (svc_err + int) \<times> 's chan_state" where
  "CreateNewChannel createCh auth addBots c1 c2 jwtUser now newChannelName userID setDefault st =
     (let lockID = generateLockID userID ''channel_rollover'' in
      case acquireAdvisoryLock lockID c1 (cs_locks st) of
        (Some e, ls) \<Rightarrow> (Inl (EMsg ''failed to acquire channel creation lock''), st\<lparr> cs_locks := ls \<rparr>)
      | (None, ls) \<Rightarrow>
          (case create_locked createCh auth addBots jwtUser now newChannelName userID setDefault (cs_app st, cs_srv st) of
             (res, a, srv) \<Rightarrow> (res, \<lparr> cs_app = a, cs_locks = unlock lockID c2 ls, cs_srv = srv \<rparr>)))"

definition UsersCreateChannel where
  "UsersCreateChannel createCh auth addBots c1 c2 jwtUser now name userID st =
     (case CreateNewChannel createCh auth addBots c1 c2 jwtUser now name userID False st of
        (Inl e, st) \<Rightarrow> (Inl (ApiErr e 0), st)
      | (Inr _, st) \<Rightarrow> (Inr (), st))"

section \<open>Making bots administrators\<close>

text \<open>
  The work of one goroutine: the data of the bot from its token (\<open>getInfo\<close>), its access hash from its name, \<open>None\<close> when
  the name is not a user, and the call that makes it an administrator; tried again up to three times while it fails.
\<close>

definition bot_attempt ::
    "(string \<Rightarrow> 's \<Rightarrow> (svc_err + string \<times> int) \<times> 's) \<Rightarrow> (string \<Rightarrow> 's \<Rightarrow> (svc_err + int option) \<times> 's)
     \<Rightarrow> (int \<Rightarrow> int \<Rightarrow> 's \<Rightarrow> svc_err option \<times> 's) \<Rightarrow> string \<Rightarrow> 's \<Rightarrow> (svc_err + BotRow) \<times> 's" where
  "bot_attempt getInfo resolveDomain editAdmin token s =
     (case getInfo token s of
        (Inl e, s) \<Rightarrow> (Inl e, s)
      | (Inr (userName, botId), s) \<Rightarrow>
          (case resolveDomain userName s of
             (Inl e, s) \<Rightarrow> (Inl e, s)
           | (Inr None, s) \<Rightarrow> (Inl (EMsg ''invalid peer type for bot''), s)
           | (Inr (Some accessHash), s) \<Rightarrow>
               (case editAdmin botId accessHash s of
                  (Some e, s) \<Rightarrow> (Inl e, s)
                | (None, s) \<Rightarrow> (Inr \<lparr> bo_token = token, bo_user = 0, bo_id = botId \<rparr>, s))))"

fun retry_notify :: "nat \<Rightarrow> ('s \<Rightarrow> (svc_err + 'r) \<times> 's) \<Rightarrow> 's \<Rightarrow> (svc_err + 'r) \<times> 's" where
  "retry_notify 0 f s = f s"
| "retry_notify (Suc n) f s = (case f s of (Inl e, s) \<Rightarrow> retry_notify n f s | (Inr r, s) \<Rightarrow> (Inr r, s))"

definition bot_outcome where
  "bot_outcome getInfo resolveDomain editAdmin token = retry_notify 3 (bot_attempt getInfo resolveDomain editAdmin token)"

text \<open>A bot only fails when its last attempt does, after three others that failed.\<close>

lemma retry_notify_fails:
  assumes "retry_notify n f s = (Inl e, t)"
  shows "(((\<lambda>s. snd (f s)) ^^ Suc n) s) = t \<and> (\<forall>k \<le> n. isl (fst (f (((\<lambda>s. snd (f s)) ^^ k) s))))"
  using assms
proof (induction n arbitrary: s)
  case (Suc n)
  then obtain e' s' where f: "f s = (Inl e', s')" and r: "retry_notify n f s' = (Inl e, t)"
    by (auto split: prod.splits sum.splits)
  have p: "((\<lambda>s. snd (f s)) ^^ Suc k) s = ((\<lambda>s. snd (f s)) ^^ k) s'" for k
    using f by (simp only: funpow_Suc_right comp_apply snd_conv)
  have "isl (fst (f (((\<lambda>s. snd (f s)) ^^ k) s)))" if "k \<le> Suc n" for k
  proof (cases k)
    case 0
    then show ?thesis using f by simp
  next
    case (Suc j)
    then show ?thesis using Suc.IH [OF r] that p [of j] by simp
  qed
  then show ?case using Suc.IH [OF r] p [of "Suc n"] by simp
qed simp

text \<open>
  One goroutine per bot ends with the bot's data or an error and puts it into one of two buffered channels. When all have ended
  the group cancels its context, and then both channels and \<open>done\<close> are closed. The loop of the function selects among the two
  channels, \<open>done\<close> and the cancelled context at random, so it may end with results still in the channels.
  \<open>bs_running\<close> are the outcomes (\<open>bot_outcome\<close>) of the goroutines that have not ended. A request that is cancelled from outside is not modelled.
\<close>

record bots_state =
  bs_running :: "(svc_err + BotRow) list"
  bs_infoChan :: "BotRow list"
  bs_errChan :: "svc_err list"
  bs_cancelled :: bool
  bs_done :: bool
  bs_botInfos :: "BotRow list"
  bs_botErrors :: "svc_err list"

inductive bots_step :: "bots_state \<Rightarrow> bots_state \<Rightarrow> bool" where
  ended_info: "bs_running s = xs @ Inr i # ys \<Longrightarrow> bots_step s (s\<lparr> bs_running := xs @ ys, bs_infoChan := bs_infoChan s @ [i] \<rparr>)"
| ended_error: "bs_running s = xs @ Inl e # ys \<Longrightarrow> bots_step s (s\<lparr> bs_running := xs @ ys, bs_errChan := bs_errChan s @ [e] \<rparr>)"
| all_ended: "bs_running s = [] \<Longrightarrow> bots_step s (s\<lparr> bs_cancelled := True \<rparr>)"
| closed: "bs_cancelled s \<Longrightarrow> bots_step s (s\<lparr> bs_done := True \<rparr>)"
| take_info: "bs_infoChan s = i # q \<Longrightarrow> bots_step s (s\<lparr> bs_infoChan := q, bs_botInfos := bs_botInfos s @ [i] \<rparr>)"
| take_error: "bs_errChan s = e # q \<Longrightarrow> bots_step s (s\<lparr> bs_errChan := q, bs_botErrors := bs_botErrors s @ [e] \<rparr>)"

definition bots_start :: "(svc_err + BotRow) list \<Rightarrow> bots_state" where
  "bots_start outcomes = \<lparr> bs_running = outcomes, bs_infoChan = [], bs_errChan = [], bs_cancelled = False, bs_done = False, bs_botInfos = [], bs_botErrors = [] \<rparr>"

text \<open>What the function returns when it sees \<open>done\<close>.\<close>

definition bots_result :: "bool \<Rightarrow> int \<Rightarrow> bots_state \<Rightarrow> app \<Rightarrow> svc_err option \<times> app" where
  "bots_result save userId s a =
     (if length (bs_botErrors s) > 2 then (Some (EMsg ''failed to process bots''), a)
      else if save \<and> bs_botInfos s \<noteq> [] then
        (None, app_Delete [KeyUserBots userId] (a\<lparr> ap_bots := foldl add_bot (ap_bots a)
           (map (\<lambda>i. i\<lparr> bo_user := userId \<rparr>) (bs_botInfos s)) \<rparr>))
      else (None, a))"

text \<open>What the function can return in a state of its loop.\<close>

inductive bots_returns :: "bool \<Rightarrow> int \<Rightarrow> app \<Rightarrow> bots_state \<Rightarrow> svc_err option \<times> app \<Rightarrow> bool" where
  on_done: "bs_done s \<Longrightarrow> bots_returns save userId a s (bots_result save userId s a)"
| on_cancel: "bs_cancelled s \<Longrightarrow> bots_returns save userId a s (Some (EMsg ''context canceled''), a)"

definition failed :: "(svc_err + BotRow) list \<Rightarrow> nat" where
  "failed outcomes = length (filter isl outcomes)"

lemma bots_step_count:
  "bots_step s t \<Longrightarrow> failed (bs_running t) + length (bs_errChan t) + length (bs_botErrors t)
     = failed (bs_running s) + length (bs_errChan s) + length (bs_botErrors s)"
  by (induction rule: bots_step.induct) (simp_all add: failed_def)

lemma bots_run_count:
  "bots_step\<^sup>*\<^sup>* s t \<Longrightarrow> failed (bs_running t) + length (bs_errChan t) + length (bs_botErrors t)
     = failed (bs_running s) + length (bs_errChan s) + length (bs_botErrors s)"
  by (induction rule: rtranclp_induct) (simp_all add: bots_step_count)

lemma bots_done:
  assumes "bots_step\<^sup>*\<^sup>* (bots_start outcomes) t"
  shows "(bs_done t \<longrightarrow> bs_cancelled t) \<and> (bs_cancelled t \<longrightarrow> bs_running t = [])"
  using assms
proof (induction rule: rtranclp_induct)
  case base
  show ?case by (simp add: bots_start_def)
next
  case (step t u)
  from step(2,3) show ?case by (induction rule: bots_step.induct) auto
qed

text \<open>Left alone, the goroutines end before the loop takes anything.\<close>

lemma bots_all_end:
  "\<exists>t. bots_step\<^sup>*\<^sup>* s t \<and> bs_running t = [] \<and> bs_botInfos t = bs_botInfos s \<and> bs_botErrors t = bs_botErrors s"
proof (induction "bs_running s" arbitrary: s)
  case Nil
  then show ?case by (intro exI [of _ s]) simp
next
  case (Cons x xs)
  obtain u where u: "bots_step s u" "xs = bs_running u" "bs_botInfos u = bs_botInfos s" "bs_botErrors u = bs_botErrors s"
  proof (cases x)
    case (Inl e)
    then have "bots_step s (s\<lparr> bs_running := xs, bs_errChan := bs_errChan s @ [e] \<rparr>)"
      using Cons(2) bots_step.ended_error [of s "[]" e xs] by simp
    then show ?thesis by (rule that) simp_all
  next
    case (Inr i)
    then have "bots_step s (s\<lparr> bs_running := xs, bs_infoChan := bs_infoChan s @ [i] \<rparr>)"
      using Cons(2) bots_step.ended_info [of s "[]" i xs] by simp
    then show ?thesis by (rule that) simp_all
  qed
  from Cons(1) [OF u(2)] obtain t where t: "bots_step\<^sup>*\<^sup>* u t" "bs_running t = []" "bs_botInfos t = bs_botInfos u" "bs_botErrors t = bs_botErrors u"
    by (elim exE conjE) (rule that)
  show ?case
    using converse_rtranclp_into_rtranclp [of bots_step, OF u(1) t(1)] t u by (intro exI [of _ t]) simp
qed


section \<open>Locks\<close>

lemma try_lock_free: "\<forall>c. (l, c) \<notin> set ls \<Longrightarrow> try_lock l conn ls = (True, (l, conn) # ls)"
  by (auto simp: try_lock_def)

text \<open>Lock ids of different users differ as long as the product does not leave 64 bits.\<close>

theorem generateLockID_distinct:
  assumes "0 \<le> u" "0 \<le> v" "u < 9000000000000" "v < 9000000000000" "length op1 < 1000000" "length op2 < 1000000"
  shows "generateLockID u op1 = generateLockID v op2 \<longleftrightarrow> u = v \<and> length op1 = length op2"
proof -
  have g: "uint (generateLockID w ops) = w * 1000000 + int (length ops)"
    if "0 \<le> w" "w < 9000000000000" "length ops < 1000000" for w ops
  proof -
    have e: "generateLockID w ops = word_of_int (w * 1000000 + int (length ops))"
      by (simp add: generateLockID_def)
    have "0 \<le> w * 1000000 + int (length ops)" "w * 1000000 + int (length ops) < 2 ^ 64" using that by simp_all
    then show ?thesis unfolding e uint_word_of_int by (intro mod_pos_pos_trivial) simp_all
  qed
  have "generateLockID u op1 = generateLockID v op2 \<longleftrightarrow> u * 1000000 + int (length op1) = v * 1000000 + int (length op2)"
    using g [OF assms(1,3,5)] g [OF assms(2,4,6)] by (metis word_uint_eq_iff)
  moreover have "u = v \<and> length op1 = length op2"
    if "u * 1000000 + int (length op1) = v * 1000000 + int (length op2)"
  proof -
    have "(u * 1000000 + int (length op1)) div 1000000 = u" "(v * 1000000 + int (length op2)) div 1000000 = v"
      using assms(5,6) by simp_all
    with that have "u = v" by simp
    with that show ?thesis by simp
  qed
  ultimately show ?thesis by auto
qed

lemma lock_stays:
  "(l, c1) \<in> set ls \<Longrightarrow> c2 \<noteq> c1 \<Longrightarrow> (l, c1) \<in> set (unlock l c2 ls)"
  by (simp add: unlock_def)

text \<open>
  The lock is only given back when the pool returns the same connection. If it was free and is released on another connection
  than it was taken on, it stays with the first: every later call for this user on a different connection fails at
  once, and changes nothing.
\<close>

theorem CreateNewChannel_lock_leak:
  assumes "\<forall>c. (generateLockID uid ''channel_rollover'', c) \<notin> set (cs_locks st)" "c2 \<noteq> c1"
    and "CreateNewChannel createCh auth addBots c1 c2 jwt now name uid setDefault st = (res, st')" "c3 \<noteq> c1"
  shows "CreateNewChannel createCh auth addBots c3 c4 jwt' now' name' uid setDefault' st' =
    (Inl (EMsg ''failed to acquire channel creation lock''), st')"
proof -
  let ?l = "generateLockID uid ''channel_rollover''"
  have "cs_locks st' = unlock ?l c2 ((?l, c1) # cs_locks st)"
    using assms(3) try_lock_free [OF assms(1), of c1]
    by (auto simp: CreateNewChannel_def acquireAdvisoryLock_def Let_def split: prod.splits)
  then have "(?l, c1) \<in> set (cs_locks st')" using assms(2) lock_stays [of ?l c1 "(?l, c1) # cs_locks st" c2] by simp
  then have "try_lock ?l c3 (cs_locks st') = (False, cs_locks st')" using assms(4) by (auto simp: try_lock_def)
  then show ?thesis by (simp add: CreateNewChannel_def acquireAdvisoryLock_def Let_def)
qed

section \<open>What a new channel leaves\<close>

lemma BotTokens_rows: "BotTokens uid a = (r, a') \<Longrightarrow> ap_channels a' = ap_channels a"
  by (auto simp: BotTokens_def app_Set_def Let_def split: sum.splits cval.splits cache_err.splits)

lemma unselect_ids:
  "map ch_id (update_where P (\<lambda>c. c\<lparr> ch_selected := False \<rparr>) rows) = map ch_id rows"
  by (simp add: update_where_def)

lemma unselect_first:
  assumes "ch_user row = uid" "ch_selected row"
  shows "first_where (\<lambda>c. ch_user c = uid \<and> ch_selected c)
    (update_where (\<lambda>c. ch_user c = uid) (\<lambda>c. c\<lparr> ch_selected := False \<rparr>) rows @ [row]) = Some row"
  using assms by (induction rows) (simp_all add: first_where_def update_where_def)

lemma record_channel_default:
  assumes "record_channel True uid row a = Inr a'" "ch_user row = uid" "ch_selected row"
  shows "ap_channels a' = update_where (\<lambda>c. ch_user c = uid) (\<lambda>c. c\<lparr> ch_selected := False \<rparr>) (ap_channels a) @ [row]"
    and "ch_id row \<notin> ch_id ` set (ap_channels a)"
    and "CurrentChannel uid a' = (Inr (ch_id row), snd (CurrentChannel uid a'))"
proof -
  let ?u = "update_where (\<lambda>c. ch_user c = uid) (\<lambda>c. c\<lparr> ch_selected := False \<rparr>) (ap_channels a)"
  have ids: "ch_id ` set ?u = ch_id ` set (ap_channels a)" by (simp only: unselect_ids flip: set_map)
  from assms(1) have new: "ch_id row \<notin> ch_id ` set ?u" and
    a': "a' = app_Delete [KeyUserChannel uid] (a\<lparr> ap_channels := ?u @ [row] \<rparr>)"
    by (auto simp: record_channel_def insert_channel_def split: sum.splits if_splits)
  show "ap_channels a' = ?u @ [row]" by (simp add: a' app_Delete_def)
  show "ch_id row \<notin> ch_id ` set (ap_channels a)" using new ids by simp
  from unselect_first [OF assms(2,3)] show "CurrentChannel uid a' = (Inr (ch_id row), snd (CurrentChannel uid a'))"
    by (simp add: CurrentChannel_def a' cm_Get_def app_Delete_def Let_def app_cache_def cache_Delete_def cm_Delete_def)
qed

text \<open>The run of a successful \<open>CreateNewChannel\<close> that found no recent channel.\<close>

lemma CreateNewChannel_success:
  assumes "CreateNewChannel createCh auth addBots c1 c2 jwt now name uid setDefault st = (Inr c, st')"
    and "getChannelCreatedAfter uid (now - 10) (ap_channels (cs_app st)) = None"
  obtains a nm where "ap_channels a = ap_channels (cs_app st)"
    "record_channel setDefault uid \<lparr> ch_id = c, ch_name = nm, ch_user = uid, ch_selected = setDefault, ch_created = now \<rparr> a = Inr (cs_app st')"
proof -
  obtain ls where "create_locked createCh auth addBots jwt now name uid setDefault (cs_app st, cs_srv st)
      = (Inr c, cs_app st', cs_srv st')"
    using assms(1) by (auto simp: CreateNewChannel_def Let_def split: prod.splits option.splits)
  then show ?thesis
    using assms(2) BotTokens_rows that
    by (simp add: create_locked_def Let_def split: option.splits if_splits prod.splits sum.splits) metis+
qed

text \<open>
  A new default channel becomes the current one. When \<open>CreateNewChannel\<close> succeeds for a user without a recent channel, the channel it
  returns is the only selected channel of the user and what \<open>CurrentChannel\<close> answers, whatever the cache held; channels of other
  users are unchanged and ids stay unique.
\<close>

theorem CreateNewChannel_default:
  assumes "CreateNewChannel createCh auth addBots c1 c2 jwt now name uid True st = (Inr c, st')"
    and "getChannelCreatedAfter uid (now - 10) (ap_channels (cs_app st)) = None"
    and "distinct (map ch_id (ap_channels (cs_app st)))"
  shows "fst (CurrentChannel uid (cs_app st')) = Inr c
    \<and> map ch_id (filter (\<lambda>r. ch_user r = uid \<and> ch_selected r) (ap_channels (cs_app st'))) = [c]
    \<and> filter (\<lambda>r. ch_user r \<noteq> uid) (ap_channels (cs_app st')) = filter (\<lambda>r. ch_user r \<noteq> uid) (ap_channels (cs_app st))
    \<and> distinct (map ch_id (ap_channels (cs_app st')))"
proof -
  obtain a nm where a: "ap_channels a = ap_channels (cs_app st)"
    and r: "record_channel True uid \<lparr> ch_id = c, ch_name = nm, ch_user = uid, ch_selected = True, ch_created = now \<rparr> a = Inr (cs_app st')"
    by (rule CreateNewChannel_success [OF assms(1,2)])
  note d = record_channel_default [OF r, simplified, unfolded a]
  have u: "filter (\<lambda>r. ch_user r \<noteq> uid) (update_where (\<lambda>c. ch_user c = uid) (\<lambda>c. c\<lparr> ch_selected := False \<rparr>) rows)
      = filter (\<lambda>r. ch_user r \<noteq> uid) rows"
    and s: "filter (\<lambda>r. ch_user r = uid \<and> ch_selected r) (update_where (\<lambda>c. ch_user c = uid) (\<lambda>c. c\<lparr> ch_selected := False \<rparr>) rows) = []" for rows
    by (induction rows) (simp_all add: update_where_def)
  show ?thesis using assms(3) d(2) by (simp add: d(1) unselect_ids u s) (metis d(3) fst_conv)
qed

text \<open>
  Without bots a channel is lost. If the user has no bots, \<open>CreateNewChannel\<close> has created the channel on Telegram when it
  finds out: it returns an error, records no channel, and the next attempt creates another one.
\<close>

theorem CreateNewChannel_without_bots:
  assumes "CreateNewChannel createCh auth addBots c c (Some claims) now name uid setDefault st = (res, st')"
    and "\<forall>c. (generateLockID uid ''channel_rollover'', c) \<notin> set (cs_locks st)"
    and "getChannelCreatedAfter uid (now - 10) (ap_channels (cs_app st)) = None"
    and "auth (jc_tgSession claims)" "name \<noteq> ''''" "createCh name (cs_srv st) = (Inr (Some new), srv')"
    and "fst (BotTokens uid (cs_app st)) = Inr []"
  shows "res = Inl (EMsg ''add bot tokens before continuing'') \<and> cs_srv st' = srv' \<and> cs_locks st' = cs_locks st
    \<and> ap_channels (cs_app st') = ap_channels (cs_app st)"
proof -
  obtain a' where b: "BotTokens uid (cs_app st) = (Inr [], a')" using assms(7) by (cases "BotTokens uid (cs_app st)") simp
  have "st' = \<lparr> cs_app = a', cs_locks = cs_locks st, cs_srv = srv' \<rparr> \<and> res = Inl (EMsg ''add bot tokens before continuing'')"
    using assms(1) try_lock_free [OF assms(2), of c]
    by (simp add: CreateNewChannel_def create_locked_def acquireAdvisoryLock_def Let_def assms(3-6) b unlock_def)
  then show ?thesis by (simp add: BotTokens_rows [OF b])
qed

section \<open>Examples\<close>

lemma one_bot_fails:
  "bots_step\<^sup>*\<^sup>* (bots_start [Inl EKeyConflict])
     \<lparr> bs_running = [], bs_infoChan = [], bs_errChan = [], bs_cancelled = True, bs_done = True, bs_botInfos = [], bs_botErrors = [EKeyConflict] \<rparr>"
proof -
  let ?s = "\<lambda>e c d b. \<lparr> bs_running = [], bs_infoChan = [], bs_errChan = e, bs_cancelled = c, bs_done = d, bs_botInfos = [], bs_botErrors = b \<rparr>"
  have "bots_step (bots_start [Inl EKeyConflict]) (?s [EKeyConflict] False False [])"
    using bots_step.ended_error [of "bots_start [Inl EKeyConflict]" "[]" EKeyConflict "[]"] by (simp add: bots_start_def)
  moreover have "bots_step (?s [EKeyConflict] False False []) (?s [] False False [EKeyConflict])"
    using bots_step.take_error [of "?s [EKeyConflict] False False []" EKeyConflict "[]"] by simp
  moreover have "bots_step (?s [] False False [EKeyConflict]) (?s [] True False [EKeyConflict])"
    using bots_step.all_ended [of "?s [] False False [EKeyConflict]"] by simp
  moreover have "bots_step (?s [] True False [EKeyConflict]) (?s [] True True [EKeyConflict])"
    using bots_step.closed [of "?s [] True False [EKeyConflict]"] by simp
  ultimately show ?thesis by (meson converse_rtranclp_into_rtranclp rtranclp.rtrancl_refl)
qed


theorem generateLockID_distinct_witness: "generateLockID 1 ''channel_rollover'' \<noteq> generateLockID 2 ''channel_rollover''"
  using generateLockID_distinct [of 1 2 "''channel_rollover''" "''channel_rollover''"] by simp

definition create_5 :: "string \<Rightarrow> int list \<Rightarrow> (svc_err + int option) \<times> int list" where
  "create_5 name made = (Inr (Some (9 + int (length made))), (9 + int (length made)) # made)"

definition chan_7 :: "BotRow list \<Rightarrow> int list chan_state" where
  "chan_7 bots = \<lparr> cs_app = channel_app\<lparr> ap_bots := bots \<rparr>, cs_locks = [], cs_srv = [] \<rparr>"

definition claims_7 :: JWTClaims where
  "claims_7 = \<lparr> jc_subject = ''7'', jc_name = ''n'', jc_userName = ''u'', jc_premium = False, jc_hash = ''h'', jc_tgSession = ''s'', jc_issued = 0, jc_expires = 0 \<rparr>"

lemmas create_eval = CreateNewChannel_def create_locked_def acquireAdvisoryLock_def try_lock_def unlock_def chan_7_def channel_app_def
  claims_7_def create_5_def getChannelCreatedAfter_def first_where_def BotTokens_def cm_Get_def cm_Set_def app_cache_def app_Set_def
  record_channel_def insert_channel_def update_where_def Let_def

lemma create_7_ok:
  "fst (CreateNewChannel create_5 (\<lambda>_. True) (\<lambda>_ _ _ made. (None, made)) 0 0 (Some claims_7) 100 ''n'' 7 True
     (chan_7 [\<lparr> bo_token = ''t'', bo_user = 7, bo_id = 1 \<rparr>])) = Inr 9"
  by (simp add: create_eval)

theorem CreateNewChannel_default_witness:
  "fst (CurrentChannel 7 (cs_app (snd (CreateNewChannel create_5 (\<lambda>_. True) (\<lambda>_ _ _ made. (None, made)) 0 0 (Some claims_7) 100 ''n'' 7 True
     (chan_7 [\<lparr> bo_token = ''t'', bo_user = 7, bo_id = 1 \<rparr>]))))) = Inr 9"
proof -
  let ?r = "CreateNewChannel create_5 (\<lambda>_. True) (\<lambda>_ _ _ made. (None, made)) 0 0 (Some claims_7) 100 ''n'' 7 True
     (chan_7 [\<lparr> bo_token = ''t'', bo_user = 7, bo_id = 1 \<rparr>])"
  have r: "?r = (Inr 9, snd ?r)" using create_7_ok by (cases ?r) simp
  show ?thesis using CreateNewChannel_default [OF r] by (simp add: chan_7_def channel_app_def getChannelCreatedAfter_def first_where_def)
qed

theorem CreateNewChannel_without_bots_witness:
  "cs_srv (snd (CreateNewChannel create_5 (\<lambda>_. True) (\<lambda>_ _ _ made. (None, made)) 0 0 (Some claims_7) 100 ''n'' 7 True (chan_7 []))) = [9]"
proof -
  let ?r = "CreateNewChannel create_5 (\<lambda>_. True) (\<lambda>_ _ _ made. (None, made)) 0 0 (Some claims_7) 100 ''n'' 7 True (chan_7 [])"
  have r: "?r = (fst ?r, snd ?r)" by simp
  show ?thesis
    using CreateNewChannel_without_bots [OF r, of 9 "[9]"]
    by (simp add: chan_7_def channel_app_def getChannelCreatedAfter_def first_where_def create_5_def BotTokens_def cm_Get_def app_cache_def Let_def)
qed

theorem CreateNewChannel_lock_leak_witness:
  "fst (CreateNewChannel create_5 (\<lambda>_. True) (\<lambda>_ _ _ made. (None, made)) 2 2 (Some claims_7) 200 ''m'' 7 True
     (snd (CreateNewChannel create_5 (\<lambda>_. True) (\<lambda>_ _ _ made. (None, made)) 0 1 (Some claims_7) 100 ''n'' 7 True (chan_7 []))))
   = Inl (EMsg ''failed to acquire channel creation lock'')"
proof -
  let ?r = "CreateNewChannel create_5 (\<lambda>_. True) (\<lambda>_ _ _ made. (None, made)) 0 1 (Some claims_7) 100 ''n'' 7 True (chan_7 [])"
  have r: "?r = (fst ?r, snd ?r)" by simp
  show ?thesis using CreateNewChannel_lock_leak [OF _ _ r, of 2] by (simp add: chan_7_def)
qed

end
