(* ===== verification/Uploads.thy ===== *)
theory Uploads
  imports Channels TgMessages BotSelector
begin

text \<open>
  Upload sessions (pkg/services/upload.go): the parts a client has stored, and the upload of one part, from the body of the
  request through block hashing and encryption to a message of a channel and a row of the table of uploads.
\<close>

section \<open>The rows of a session\<close>

definition UploadsDelete :: "int \<Rightarrow> string \<Rightarrow> app \<Rightarrow> app" where
  "UploadsDelete userId uploadId a = a\<lparr> ap_svc := delete_uploads uploadId userId (ap_svc a) \<rparr>"

record UploadPart =
  up_Name :: string
  up_PartId :: int
  up_PartNo :: int
  up_ChannelId :: int
  up_Size :: int
  up_Encrypted :: bool
  up_Salt :: string

definition ToUploadOut :: "UploadRow list \<Rightarrow> UploadPart list" where
  "ToUploadOut parts = utils_Map parts (\<lambda>p. \<lparr> up_Name = u_name p, up_PartId = u_partId p, up_PartNo = u_partNo p,
     up_ChannelId = u_channel p, up_Size = u_size p, up_Encrypted = u_encrypted p, up_Salt = u_salt p \<rparr>)"

definition UploadsPartsById :: "int \<Rightarrow> int \<Rightarrow> int \<Rightarrow> string \<Rightarrow> app \<Rightarrow> UploadPart list" where
  "UploadsPartsById retention now userId uploadId a =
     ToUploadOut (filter (\<lambda>u. u_created u < now + retention) (uploads_of (ap_svc a) uploadId userId))"

text \<open>Days are counted from some day; \<open>day\<close> is the day of a time. A file without a size counts 0.\<close>

definition UploadsStats :: "(int \<Rightarrow> int) \<Rightarrow> int \<Rightarrow> int \<Rightarrow> int \<Rightarrow> FileRow list \<Rightarrow> (int \<times> int) list" where
  "UploadsStats day now days userId rows =
     (let d = days - 1 in
      map (\<lambda>upload_date. (upload_date,
             sum_list (map (\<lambda>f. case f_size f of None \<Rightarrow> 0 | Some n \<Rightarrow> n)
               (filter (\<lambda>f. upload_date = day (f_created f) \<and> f_type f = ''file'' \<and> f_user f = userId) rows))))
        [day now - d .. day now])"

section \<open>Salts\<close>

definition b64_char :: "nat \<Rightarrow> char" where
  "b64_char n = (''ABCDEFGHIJKLMNOPQRSTUVWXYZabcdefghijklmnopqrstuvwxyz0123456789-_'') ! (n mod 64)"

text \<open>\<open>base64.URLEncoding.EncodeToString\<close>.\<close>

fun base64url :: "bytes \<Rightarrow> string" where
  "base64url [] = []"
| "base64url [a] = [b64_char (unat a div 4), b64_char (unat a mod 4 * 16), CHR ''='', CHR ''='']"
| "base64url [a, b] = [b64_char (unat a div 4), b64_char (unat a mod 4 * 16 + unat b div 16), b64_char (unat b mod 16 * 4), CHR ''='']"
| "base64url (a # b # c # bs) = b64_char (unat a div 4) # b64_char (unat a mod 4 * 16 + unat b div 16)
     # b64_char (unat b mod 16 * 4 + unat c div 64) # b64_char (unat c mod 64) # base64url bs"

definition saltLength :: nat where "saltLength = 32"

text \<open>\<open>cryptoRand\<close> is the reader behind \<open>crypto/rand\<close>.\<close>

definition generateRandomSalt :: "'q read_fun \<Rightarrow> (bytes \<Rightarrow> bytes) \<Rightarrow> 'q \<Rightarrow> ((svc_err + string) \<times> 'q) option" where
  "generateRandomSalt cryptoRand sha256 q =
     Option.bind (readFill cryptoRand saltLength [] q) (\<lambda>(randomBytes, err, q).
       Some (if length randomBytes < saltLength then Inl (EMsg ''rand'') else Inr (base64url (sha256 randomBytes)), q))"

section \<open>The streams\<close>

text \<open>The body of the request, read through the block hasher when there is one (\<open>io.TeeReader\<close>).\<close>

definition body_Read :: "hash_fun \<Rightarrow> 'b read_fun \<Rightarrow> ('b \<times> BlockHasher option) read_fun" where
  "body_Read blake rd n st =
     (case st of
        (s, None) \<Rightarrow> map_option (\<lambda>(bs, e, s). (bs, e, (s, None))) (rd n s)
      | (s, Some h) \<Rightarrow> Option.bind (rd n s) (\<lambda>(bs, e, s).
          if bs = [] then Some (bs, e, (s, Some h))
          else map_option (\<lambda>h. (bs, e, (s, Some h))) (bh_Write blake bs h)))"

datatype 'r stream_src = PlainSrc 'r | EncSrc bytes "'r encrypter"

fun src_Read :: "seal_fun \<Rightarrow> 'r read_fun \<Rightarrow> 'r stream_src read_fun" where
  "src_Read seal rd n (PlainSrc s) = map_option (\<lambda>(bs, e, s). (bs, e, PlainSrc s)) (rd n s)"
| "src_Read seal rd n (EncSrc key fh) = map_option (\<lambda>(bs, e, fh). (bs, e, EncSrc key fh)) (encrypter_Read seal key rd n fh)"

fun src_reader :: "'r stream_src \<Rightarrow> 'r" where
  "src_reader (PlainSrc s) = s"
| "src_reader (EncSrc key fh) = enc_in fh"

record UploadsUploadParams =
  pr_ID :: string
  pr_PartName :: string
  pr_PartNo :: int
  pr_ChannelId :: int
  pr_ContentLength :: int
  pr_Encrypted :: bool
  pr_Hashing :: bool

text \<open>The result: the stream, its size and the salt. The cipher is made from the configured key and the salt (\<open>mkCipher\<close>).\<close>

definition prepareEncryption ::
    "'q read_fun \<Rightarrow> (bytes \<Rightarrow> bytes) \<Rightarrow> (string \<Rightarrow> io_error + 'c Cipher) \<Rightarrow> UploadsUploadParams \<Rightarrow> 'r \<Rightarrow> int \<Rightarrow> 'q
     \<Rightarrow> ((svc_err + 'r stream_src \<times> int \<times> string) \<times> 'q) option" where
  "prepareEncryption cryptoRand sha256 mkCipher params fileStream fileSize q =
     (if \<not> pr_Encrypted params then Some (Inr (PlainSrc fileStream, fileSize, ''''), q)
      else
        Option.bind (generateRandomSalt cryptoRand sha256 q) (\<lambda>(salt, q).
          case salt of
            Inl e \<Rightarrow> Some (Inl e, q)
          | Inr salt \<Rightarrow>
              (case mkCipher salt of
                 Inl e \<Rightarrow> Some (Inl (EMsg ''cipher''), q)
               | Inr cipher \<Rightarrow>
                   let fileSize = EncryptedSize fileSize in
                   Option.bind (EncryptData cryptoRand fileStream q) (\<lambda>(fh, q).
                     case fh of
                       Inl e \<Rightarrow> Some (Inl (EMsg ''encrypt''), q)
                     | Inr fh \<Rightarrow> Some (Inr (EncSrc (dataKey cipher) fh, fileSize, salt), q)))))"

section \<open>The rows of the table\<close>

text \<open>A message of a channel is recorded once; its id is positive.\<close>

definition insert_upload :: "UploadRow \<Rightarrow> app \<Rightarrow> svc_err + app" where
  "insert_upload u a =
     (let s = ap_svc a in
      if \<exists>v \<in> set (sv_uploads s). u_partId v = u_partId u \<and> u_channel v = u_channel u then Inl EKeyConflict
      else if u_partId u \<le> 0 then Inl (EMsg ''part_id_greater_than_zero'')
      else Inr (a\<lparr> ap_svc := s\<lparr> sv_uploads := sv_uploads s @ [u] \<rparr> \<rparr>))"

section \<open>The client of an upload\<close>

text \<open>\<open>auth\<close> and \<open>bot\<close> make a client of a session or a token. The result is the token (empty for the user), the number of the
  bot and the name of who uploads.\<close>

definition getUploadClient ::
    "(BotOp \<Rightarrow> int \<Rightarrow> string list \<Rightarrow> 'b \<Rightarrow> next_result \<times> 'b) \<Rightarrow> (string \<Rightarrow> bool) \<Rightarrow> (string \<Rightarrow> bool) \<Rightarrow> JWTClaims \<Rightarrow> int \<Rightarrow> app \<times> 'b
     \<Rightarrow> ((svc_err + string \<times> nat \<times> string) \<times> app \<times> 'b) option" where
  "getUploadClient Next auth bot_ok claims userId st =
     (case st of (a, b) \<Rightarrow>
       case BotTokens userId a of
         (Inl e, a) \<Rightarrow> Some (Inl e, a, b)
       | (Inr tokens, a) \<Rightarrow>
           if length tokens = 0 then
             Some (if auth (jc_tgSession claims) then Inr ('''', 0, show_int userId) else Inl (EMsg ''auth client''), a, b)
           else
             (case Next BotOpUpload userId tokens b of
                (NextPanic, b) \<Rightarrow> None
              | (NextErr e, b) \<Rightarrow> Some (Inl (EMsg e), a, b)
              | (NextBot token index, b) \<Rightarrow>
                  Some (if bot_ok token then Inr (token, index, hd (Split token CHR '':'')) else Inl (EMsg ''bot client''), a, b)))"

section \<open>Telegram\<close>

datatype tg_update = UpdateNewChannelMessage int tg_message | OtherUpdate

text \<open>
  The calls: the channel of an id, the upload of a file (its name, its size as declared and its bytes), and the message that
  sends it. \<open>None\<close> is an answer that is not \<open>*tg.Updates\<close>.
\<close>

record 's tg_api =
  tg_getChannel :: "int \<Rightarrow> svc_err option"
  tg_upload :: "string \<Rightarrow> int \<Rightarrow> bytes \<Rightarrow> 's \<Rightarrow> (svc_err + int) \<times> 's"
  tg_media :: "int \<Rightarrow> string \<Rightarrow> int \<Rightarrow> 's \<Rightarrow> (svc_err + tg_update list option) \<times> 's"

fun new_message :: "tg_update list \<Rightarrow> (int \<times> tg_message) option" where
  "new_message [] = None"
| "new_message (UpdateNewChannelMessage i (Message m) # us) = Some (i, Message m)"
| "new_message (u # us) = new_message us"

text \<open>The uploader reads the stream to its end in pieces of 512 KiB. The outer \<open>None\<close> is a panic or a stream that never ends.\<close>

definition uploadToTelegram ::
    "'s tg_api \<Rightarrow> int \<Rightarrow> UploadsUploadParams \<Rightarrow> 'f read_fun \<Rightarrow> 'f \<Rightarrow> int \<Rightarrow> 's \<Rightarrow> ((svc_err + int \<times> tg_message) \<times> 'f \<times> 's) option" where
  "uploadToTelegram tg channelId params rd fileStream fileSize srv =
     (case tg_getChannel tg channelId of
        Some e \<Rightarrow> Some (Inl e, fileStream, srv)
      | None \<Rightarrow>
          Option.bind (io_Copy rd (512 * 1024) [] fileStream) (\<lambda>(data, err, fileStream).
            case err of
              Some e \<Rightarrow> Some (Inl (EMsg ''read''), fileStream, srv)
            | None \<Rightarrow>
                (case tg_upload tg (pr_PartName params) fileSize data srv of
                   (Inl e, srv) \<Rightarrow> Some (Inl e, fileStream, srv)
                 | (Inr file, srv) \<Rightarrow>
                     (case tg_media tg channelId (pr_PartName params) file srv of
                        (Inl e, srv) \<Rightarrow> Some (Inl e, fileStream, srv)
                      | (Inr None, srv) \<Rightarrow> None
                      | (Inr (Some updates), srv) \<Rightarrow>
                          (case new_message updates of
                             None \<Rightarrow> Some (Inl (EMsg ''upload failed: invalid message ID 0 from telegram''), fileStream, srv)
                           | Some (i, m) \<Rightarrow>
                               if i = 0 then Some (Inl (EMsg ''upload failed: invalid message ID 0 from telegram''), fileStream, srv)
                               else Some (Inr (i, m), fileStream, srv))))))"

definition msgDocument :: "tg_message \<Rightarrow> tg_document option" where
  "msgDocument m = message_document m"

section \<open>Uploading a part\<close>

record ('c, 'q) upload_env =
  ue_key :: string
  ue_auto :: bool
  ue_limit :: int
  ue_blake :: hash_fun
  ue_seal :: seal_fun
  ue_rand :: "'q read_fun"
  ue_sha :: "bytes \<Rightarrow> bytes"
  ue_mkCipher :: "string \<Rightarrow> string \<Rightarrow> io_error + 'c Cipher"
  ue_runAuth :: "string \<Rightarrow> svc_err option"

text \<open>The channel of the part: the one asked for, the current one, or a new one when there is none or the current one is full.\<close>

definition upload_channel ::
    "bool \<Rightarrow> int \<Rightarrow> (int \<Rightarrow> 's chan_state \<Rightarrow> (svc_err + int) \<times> 's chan_state) \<Rightarrow> int \<Rightarrow> int \<Rightarrow> 's chan_state
     \<Rightarrow> (svc_err + int) \<times> 's chan_state" where
  "upload_channel auto lim createNew channelId userId st =
     (let create = (\<lambda>st. case createNew userId st of
            (Inl e, st) \<Rightarrow> (Inl (ApiErr e 0), st)
          | (Inr c, st) \<Rightarrow> (Inr c, st)) in
      if channelId \<noteq> 0 then (Inr channelId, st)
      else
        (case CurrentChannel userId (cs_app st) of
           (Inl e, a) \<Rightarrow>
             if e = EMsg ''no default channel found'' then create (st\<lparr> cs_app := a \<rparr>)
             else (Inl (ApiErr e 0), st\<lparr> cs_app := a \<rparr>)
         | (Inr c, a) \<Rightarrow>
             if auto \<and> ChannelLimitReached lim c (sv_files (ap_svc a)) then create (st\<lparr> cs_app := a \<rparr>)
             else (Inr c, st\<lparr> cs_app := a \<rparr>)))"

text \<open>The last steps: check the document, sum the hashes, record the part.\<close>

definition record_upload ::
    "('c, 'q) upload_env \<Rightarrow> int \<Rightarrow> int \<Rightarrow> int \<Rightarrow> UploadsUploadParams \<Rightarrow> int \<Rightarrow> string \<Rightarrow> BlockHasher option \<Rightarrow> int \<Rightarrow> tg_message \<Rightarrow> app
     \<Rightarrow> (svc_err + UploadPart) \<times> app" where
  "record_upload env now userId channelId params fileSize salt blockHasher messageID m a =
     (case msgDocument m of
        None \<Rightarrow> (Inl (EMsg ''upload failed''), a)
      | Some doc \<Rightarrow>
          if doc_size doc = 0 \<and> doc_size doc \<noteq> fileSize then (Inl (EMsg ''upload failed''), a)
          else
            let blockHashes = (case blockHasher of Some h \<Rightarrow> fst (bh_Sum (ue_blake env) h) | None \<Rightarrow> []);
                partUpload = \<lparr> u_uploadId = pr_ID params, u_user = userId, u_name = pr_PartName params, u_partNo = pr_PartNo params,
                  u_partId = messageID, u_encrypted = pr_Encrypted params, u_salt = salt, u_blockHashes = blockHashes,
                  u_channel = channelId, u_size = fileSize, u_created = now \<rparr>
            in (case insert_upload partUpload a of
                  Inl e \<Rightarrow> (Inl e, a)
                | Inr a \<Rightarrow> (Inr (hd (ToUploadOut [partUpload])), a)))"

text \<open>
  What runs with the client: encrypt, send, check the message, record the part. The size recorded is computed from the length the
  request declared.
\<close>

definition upload_part ::
    "('c, 'q) upload_env \<Rightarrow> 's tg_api \<Rightarrow> 'b read_fun \<Rightarrow> int \<Rightarrow> int \<Rightarrow> int \<Rightarrow> UploadsUploadParams \<Rightarrow> 'b \<times> BlockHasher option \<Rightarrow> 'q
     \<Rightarrow> app \<Rightarrow> 's \<Rightarrow> ((svc_err + UploadPart) \<times> 'q \<times> app \<times> 's) option" where
  "upload_part env tg rd now userId channelId params reader q a srv =
     Option.bind (prepareEncryption (ue_rand env) (ue_sha env) (ue_mkCipher env (ue_key env)) params reader (pr_ContentLength params) q)
       (\<lambda>(prep, q).
        case prep of
          Inl e \<Rightarrow> Some (Inl e, q, a, srv)
        | Inr (fileStream, fileSize, salt) \<Rightarrow>
            Option.bind (uploadToTelegram tg channelId params (src_Read (ue_seal env) (body_Read (ue_blake env) rd)) fileStream fileSize srv)
              (\<lambda>(sent, fileStream, srv).
               case sent of
                 Inl e \<Rightarrow> Some (Inl e, q, a, srv)
               | Inr (messageID, m) \<Rightarrow>
                   (case record_upload env now userId channelId params fileSize salt (snd (src_reader fileStream)) messageID m a of
                      (res, a) \<Rightarrow> Some (res, q, a, srv))))"

text \<open>\<open>claims\<close> are those of the caller; \<open>c1\<close> and \<open>c2\<close> are the connections of the advisory lock.\<close>

definition UploadsUpload where
  "UploadsUpload env tg Next auth bot_ok createCh addBots c1 c2 rd claims now userId params body q b st =
     (if pr_Encrypted params \<and> ue_key env = '''' then
        Some (Inl (ApiErr (EMsg ''encryption is not enabled'') 400), q, b, st)
      else
        (case upload_channel (ue_auto env) (ue_limit env)
                (\<lambda>userId. CreateNewChannel createCh auth addBots c1 c2 (Some claims) now '''' userId True) (pr_ChannelId params) userId st of
           (Inl e, st) \<Rightarrow> Some (Inl e, q, b, st)
         | (Inr channelId, st) \<Rightarrow>
             Option.bind (getUploadClient Next auth bot_ok claims userId (cs_app st, b)) (\<lambda>(client, a, b).
               let st = st\<lparr> cs_app := a \<rparr> in
               case client of
                 Inl e \<Rightarrow> Some (Inl (ApiErr e 0), q, b, st)
               | Inr (token, index, channelUser) \<Rightarrow>
                   (case ue_runAuth env token of
                      Some e \<Rightarrow> Some (Inl (ApiErr e 0), q, b, st)
                    | None \<Rightarrow>
                        let reader = (body, if pr_Hashing params then Some NewBlockHasher else None) in
                        map_option (\<lambda>(res, q, a, srv).
                            (case res of Inl e \<Rightarrow> Inl (ApiErr e 0) | Inr part \<Rightarrow> Inr part, q, b, st\<lparr> cs_app := a, cs_srv := srv \<rparr>))
                          (upload_part env tg rd now userId channelId params reader q (cs_app st) (cs_srv st))))))"

section \<open>The streams are readers\<close>

text \<open>While the body is read, what the hasher holds and what is left make up the body.\<close>

definition body_invar ::
    "hash_fun \<Rightarrow> ('b \<Rightarrow> bytes) \<Rightarrow> ('b \<Rightarrow> bool) \<Rightarrow> bool \<Rightarrow> bytes \<Rightarrow> 'b \<times> BlockHasher option \<Rightarrow> bool" where
  "body_invar blake content invar hashing whole st \<longleftrightarrow> invar (fst st)
     \<and> (case snd st of None \<Rightarrow> \<not> hashing
        | Some h \<Rightarrow> hashing \<and> (\<exists>d. bh_holds blake HashBlockSize d h \<and> d @ content (fst st) = whole))"

definition src_content where
  "src_content seal content st = (case st of PlainSrc s \<Rightarrow> content s | EncSrc key fh \<Rightarrow> enc_content seal key content fh)"

definition src_final where
  "src_final final st = (case st of PlainSrc s \<Rightarrow> final s | EncSrc key fh \<Rightarrow> enc_final final fh)"

definition src_invar where
  "src_invar content invar st = (case st of PlainSrc s \<Rightarrow> invar s | EncSrc key fh \<Rightarrow> enc_invar content invar fh)"

definition src_work where
  "src_work seal content work st = (case st of PlainSrc s \<Rightarrow> work s | EncSrc key fh \<Rightarrow> length (enc_content seal key content fh))"

lemma bh_block_pos: "0 < HashBlockSize" by (simp add: HashBlockSize_def)

context go_reader begin

lemma body_step:
  assumes inv: "body_invar blake content invar hashing whole st" and n: "0 < n"
  shows "\<exists>bs e st'. body_Read blake Read n st = Some (bs, e, st') \<and> Read n (fst st) = Some (bs, e, fst st')
     \<and> body_invar blake content invar hashing whole st'"
proof -
  obtain s h where st: "st = (s, h)" by (cases st)
  from inv have i: "invar s" by (simp add: st body_invar_def)
  then obtain bs e s' where r: "Read n s = Some (bs, e, s')" using Read_total n by blast
  note i' = Read_invar [OF i n r] and c = Read_content [OF i n r]
  show ?thesis
  proof (cases h)
    case None
    then show ?thesis using inv r i' by (simp add: st body_Read_def body_invar_def)
  next
    case (Some hr)
    with inv obtain d where d: "hashing" "bh_holds blake HashBlockSize d hr" "d @ content s = whole"
      by (auto simp: st body_invar_def)
    show ?thesis
    proof (cases "bs = []")
      case True
      then show ?thesis using Some r i' c d by (auto simp: st body_Read_def body_invar_def)
    next
      case False
      obtain hr' where w: "bh_Write blake bs hr = Some hr'" "bh_holds blake HashBlockSize (d @ bs) hr'"
        using bh_Write_holds [OF bh_block_pos d(2)] by blast
      have "(d @ bs) @ content s' = whole" using c d(3) by simp
      then show ?thesis using Some False r i' w d(1) by (auto simp: st body_Read_def body_invar_def)
    qed
  qed
qed

lemma body_reader:
  "go_reader (body_Read blake Read) (\<lambda>st. content (fst st)) (\<lambda>st. final (fst st)) (body_invar blake content invar hashing whole) (\<lambda>st. work (fst st))"
proof (unfold_locales, goal_cases)
  case (1 st n)
  then show ?case using body_step by blast
next
  case (2 st n bs e st')
  then show ?case using body_step [OF 2(1,2)] by auto
next
  case (3 st n bs e st')
  then have "invar (fst st)" "Read n (fst st) = Some (bs, e, fst st')" using body_step [OF 3(1,2)] by (auto simp: body_invar_def)
  then show ?case using Read_final 3(2) by blast
next
  case (4 st n bs e st')
  then have "invar (fst st)" "Read n (fst st) = Some (bs, e, fst st')" using body_step [OF 4(1,2)] by (auto simp: body_invar_def)
  then show ?case using Read_content 4(2) by blast
next
  case (5 st n bs e st')
  then have "invar (fst st)" "Read n (fst st) = Some (bs, e, fst st')" using body_step [OF 5(1,2)] by (auto simp: body_invar_def)
  then show ?case using Read_length 5(2) by blast
next
  case (6 st n bs st')
  then have "invar (fst st)" "Read n (fst st) = Some (bs, None, fst st')" using body_step [OF 6(1,2)] by (auto simp: body_invar_def)
  then show ?case using Read_progress 6(2) by blast
next
  case (7 st n bs er st')
  then have "invar (fst st)" "Read n (fst st) = Some (bs, Some er, fst st')" using body_step [OF 7(1,2)] by (auto simp: body_invar_def)
  then show ?case using Read_error 7(2) by blast
qed

lemma src_step:
  assumes ok: "secretbox_ok seal unseal" and inv: "src_invar content invar st" and n: "0 < n"
  shows "\<exists>bs e st'. src_Read seal Read n st = Some (bs, e, st') \<and> length bs \<le> n \<and> src_invar content invar st'
     \<and> src_final final st' = src_final final st \<and> src_content seal content st = bs @ src_content seal content st'
     \<and> (case e of None \<Rightarrow> src_work seal content work st' < src_work seal content work st
        | Some er \<Rightarrow> er = src_final final st \<and> src_content seal content st' = [])"
proof (cases st)
  case (PlainSrc s)
  with inv have i: "invar s" by (simp add: src_invar_def)
  then obtain bs e s' where r: "Read n s = Some (bs, e, s')" using Read_total n by blast
  show ?thesis
    using r Read_invar [OF i n r] Read_final [OF i n r] Read_content [OF i n r] Read_length [OF i n r]
      Read_progress [OF i n, of bs s'] Read_error [OF i n, of bs _ s']
    by (cases e) (simp_all add: PlainSrc src_invar_def src_final_def src_content_def src_work_def)
next
  case (EncSrc key fh)
  with inv have i: "enc_invar content invar fh" by (simp add: src_invar_def)
  obtain bs e fh' where "encrypter_Read seal key Read n fh = Some (bs, e, fh')" "length bs \<le> n" "enc_invar content invar fh'"
     "enc_final final fh' = enc_final final fh" "enc_content seal key content fh = bs @ enc_content seal key content fh'"
     "case e of None \<Rightarrow> bs \<noteq> [] | Some er \<Rightarrow> er = enc_final final fh \<and> enc_content seal key content fh' = []"
    using encrypter_step [OF ok i n, of key] by metis
  then show ?thesis
    by (cases e) (simp_all add: EncSrc src_invar_def src_final_def src_content_def src_work_def)
qed

lemma src_stream:
  assumes ok: "secretbox_ok seal unseal"
  shows "go_reader (src_Read seal Read) (src_content seal content) (src_final final) (src_invar content invar) (src_work seal content work)"
proof (unfold_locales, goal_cases)
  case (1 st n)
  then show ?case using src_step [OF ok 1] by blast
next
  case (2 st n bs e st')
  then show ?case using src_step [OF ok 2(1,2)] by auto
next
  case (3 st n bs e st')
  then show ?case using src_step [OF ok 3(1,2)] by auto
next
  case (4 st n bs e st')
  then show ?case using src_step [OF ok 4(1,2)] by auto
next
  case (5 st n bs e st')
  then show ?case using src_step [OF ok 5(1,2)] by auto
next
  case (6 st n bs st')
  then show ?case using src_step [OF ok 6(1,2)] by auto
next
  case (7 st n bs er st')
  then show ?case using src_step [OF ok 7(1,2)] by auto
qed

text \<open>A stream that has been read to its end has used up its input.\<close>

lemma src_used_up:
  assumes "secretbox_ok seal unseal" "src_invar content invar st" "src_content seal content st = []"
  shows "invar (src_reader st) \<and> content (src_reader st) = []"
proof (cases st)
  case (EncSrc key fh)
  with assms(2) have i: "invar (enc_in fh)" by (simp add: src_invar_def enc_invar_def)
  have "content (enc_in fh) = []"
  proof (cases "enc_err fh")
    case None
    then have "seal_blocks seal key (enc_nonce fh) (content (enc_in fh)) = []"
      using assms(3) by (simp add: EncSrc src_content_def enc_content_def)
    moreover have "length (seal key n m) \<noteq> 0" for n m using secretbox_okD(1) [OF assms(1)] by simp
    ultimately show ?thesis
      by (cases "content (enc_in fh) = []") (auto simp: seal_blocks_Cons)
  qed (use assms(2) EncSrc in \<open>simp add: src_invar_def enc_invar_def\<close>)
  with i EncSrc show ?thesis by simp
qed (use assms in \<open>simp add: src_invar_def src_content_def\<close>)

end

section \<open>What an upload stores\<close>

text \<open>The bytes that hold \<open>data\<close> on Telegram under a salt: sealed with the key of the salt, or as they are.\<close>

definition stored_as :: "('c, 'q) upload_env \<Rightarrow> bool \<Rightarrow> bytes \<Rightarrow> string \<Rightarrow> bytes \<Rightarrow> bool" where
  "stored_as env enc data salt bs \<longleftrightarrow>
     (if enc then \<exists>cipher n. ue_mkCipher env (ue_key env) salt = Inr cipher \<and> length n = fileNonceSize
            \<and> bs = encrypted (ue_seal env) (dataKey cipher) n data
      else salt = '''' \<and> bs = data)"

lemma stored_length:
  assumes "stored_as env enc data salt bs" "secretbox_ok (ue_seal env) unseal" "length data < 2 ^ 62"
  shows "int (length bs) = (if enc then EncryptedSize (int (length data)) else int (length data))"
  using assms
  by (auto simp: stored_as_def EncryptedSize_nat [OF assms(3)] length_seal_blocks [OF assms(2)] encrypted_def crypt_sizes)

context go_reader begin

text \<open>With a reader behind \<open>crypto/rand\<close>.\<close>

lemma salt_returns:
  assumes "invar q"
  obtains r q' where "generateRandomSalt Read sha256 q = Some (r, q')" "invar q'"
proof -
  have "0 < saltLength" by (simp add: saltLength_def)
  from readFill_0 [OF assms this] obtain e q' where "readFill Read saltLength [] q = Some (take saltLength (content q), e, q')" "invar q'"
    by metis
  then show ?thesis by (intro that) (auto simp: generateRandomSalt_def)
qed

lemma encrypter_returns:
  assumes "invar q"
  obtains e q' where "EncryptData Read s q = Some (Inl e, q')"
  | n q' where "EncryptData Read s q = Some (Inr \<lparr> enc_in = s, enc_nonce = n, enc_buf = Some (fileMagicBytes @ n), enc_bufIndex = 0,
       enc_bufSize = fileHeaderSize, enc_err = None \<rparr>, q')" "length n = fileNonceSize"
proof -
  have "0 < fileNonceSize" by (simp add: crypt_sizes)
  from readFill_0 [OF assms this] obtain e q' where
    "readFill Read fileNonceSize [] q = Some (take fileNonceSize (content q), e, q')" by metis
  then have r: "nonce_fromReader Read q = Some (if length (take fileNonceSize (content q)) \<noteq> fileNonceSize
      then (Some (ShortNonce e), go_copy (replicate fileNonceSize 0) (take fileNonceSize (content q)), q')
      else (None, take fileNonceSize (content q), q'))"
    by (simp add: nonce_fromReader_def)
  show ?thesis
  proof (cases "length (take fileNonceSize (content q)) = fileNonceSize")
    case True
    with r show ?thesis by (intro that(2) [of "take fileNonceSize (content q)" q']) (simp_all add: EncryptData_def newEncrypter_def)
  next
    case False
    with r show ?thesis by (intro that(1) [of "ShortNonce e" q']) (simp add: EncryptData_def newEncrypter_def)
  qed
qed

end

lemma prepareEncryption_spec:
  assumes "go_reader (ue_rand env) rcontent rfinal rinvar rwork" "rinvar q"
    and "invar s"
  shows "\<exists>r q'. prepareEncryption (ue_rand env) (ue_sha env) (ue_mkCipher env (ue_key env)) params s len q = Some (r, q')
    \<and> (case r of Inl e \<Rightarrow> True
       | Inr (st, sz, salt) \<Rightarrow> src_invar content invar st \<and> src_final final st = final s
           \<and> stored_as env (pr_Encrypted params) (content s) salt (src_content (ue_seal env) content st)
           \<and> sz = (if pr_Encrypted params then EncryptedSize len else len))"
proof (cases "pr_Encrypted params")
  case False
  then show ?thesis using assms(3)
    by (simp add: prepareEncryption_def src_invar_def src_final_def src_content_def stored_as_def)
next
  case True
  obtain r q1 where s: "generateRandomSalt (ue_rand env) (ue_sha env) q = Some (r, q1)" and q1: "rinvar q1"
    by (rule go_reader.salt_returns [OF assms(1,2)])
  show ?thesis
  proof (cases r)
    case (Inl e)
    then show ?thesis using True s by (simp add: prepareEncryption_def)
  next
    case (Inr salt)
    show ?thesis
    proof (cases "ue_mkCipher env (ue_key env) salt")
      case (Inl e)
      then show ?thesis using True s Inr by (simp add: prepareEncryption_def)
    next
      case c: (Inr cipher)
      show ?thesis
      proof (rule go_reader.encrypter_returns [OF assms(1) q1, of s])
        fix e q2 assume "EncryptData (ue_rand env) s q1 = Some (Inl e, q2)"
        then show ?thesis using True s Inr c by (simp add: prepareEncryption_def Let_def)
      next
        fix n q2
        let ?fh = "\<lparr> enc_in = s, enc_nonce = n, enc_buf = Some (fileMagicBytes @ n), enc_bufIndex = 0,
          enc_bufSize = fileHeaderSize, enc_err = None \<rparr>"
        assume e: "EncryptData (ue_rand env) s q1 = Some (Inr ?fh, q2)" and n: "length n = fileNonceSize"
        have hl: "length (fileMagicBytes @ n) = fileHeaderSize" using n by (simp add: crypt_sizes)
        have "enc_content (ue_seal env) (dataKey cipher) content ?fh = encrypted (ue_seal env) (dataKey cipher) n (content s)"
          using hl by (simp add: enc_content_def encrypted_def go_slice_def)
        then show ?thesis using True s Inr c e n hl assms(3)
          by (auto simp: prepareEncryption_def Let_def src_invar_def enc_invar_def src_final_def enc_final_def src_content_def stored_as_def)
      qed
    qed
  qed
qed

text \<open>The bytes were sent to a channel and are the document of the message \<open>i\<close>.\<close>

definition sent_as :: "'s tg_api \<Rightarrow> int \<Rightarrow> string \<Rightarrow> int \<Rightarrow> bytes \<Rightarrow> 's \<Rightarrow> int \<Rightarrow> tg_message \<Rightarrow> 's \<Rightarrow> bool" where
  "sent_as tg ch nm sz bs srv i m srv' \<longleftrightarrow> (\<exists>file srv1 updates. tg_upload tg nm sz bs srv = (Inr file, srv1)
     \<and> tg_media tg ch nm file srv1 = (Inr (Some updates), srv') \<and> new_message updates = Some (i, m) \<and> i \<noteq> 0)"

lemma uploadToTelegram_spec:
  assumes "go_reader rd content final invar work" "invar st" "final st = EOF"
    and "\<And>nm file s. fst (tg_media tg ch nm file s) \<noteq> Inr None"
  shows "\<exists>r st' srv'. uploadToTelegram tg ch params rd st sz srv = Some (r, st', srv')
    \<and> (case r of Inl e \<Rightarrow> True
       | Inr (i, m) \<Rightarrow> sent_as tg ch (pr_PartName params) sz (content st) srv i m srv' \<and> invar st' \<and> content st' = [])"
proof -
  have k: "(0::nat) < 512 * 1024" by simp
  obtain st' where c: "io_Copy rd (512 * 1024) [] st = Some (content st, None, st')" and e: "invar st'" "content st' = []"
    using go_reader.io_Copy_spec [OF assms(1,2) k, of "[]"] assms(3) by auto
  obtain ur srv1 where u: "tg_upload tg (pr_PartName params) sz (content st) srv = (ur, srv1)" by force
  show ?thesis
  proof (cases ur)
    case (Inl x)
    then show ?thesis using u c by (cases "tg_getChannel tg ch") (simp_all add: uploadToTelegram_def)
  next
    case (Inr fl)
    obtain mr srv2 where m: "tg_media tg ch (pr_PartName params) fl srv1 = (mr, srv2)" by force
    with assms(4) [of "pr_PartName params" fl srv1] have "mr \<noteq> Inr None" by simp
    then show ?thesis
    proof (cases mr)
      case (Inl x)
      then show ?thesis using u c Inr m by (cases "tg_getChannel tg ch") (simp_all add: uploadToTelegram_def)
    next
      case mi: (Inr ups)
      with \<open>mr \<noteq> Inr None\<close> obtain updates where ups: "ups = Some updates" by (cases ups) auto
      show ?thesis
      proof (cases "tg_getChannel tg ch")
        case None
        then show ?thesis
          using u c Inr m mi ups e
          by (auto simp: uploadToTelegram_def sent_as_def split: option.splits)
      qed (simp add: uploadToTelegram_def)
    qed
  qed
qed

definition block_hashes :: "hash_fun \<Rightarrow> bool \<Rightarrow> bytes \<Rightarrow> bytes" where
  "block_hashes blake hashing data = (if hashing then concat (hash_blocks blake HashBlockSize data) else [])"

lemma body_hashes:
  assumes "body_invar blake content invar hashing whole st" "content (fst st) = []"
  shows "(case snd st of Some h \<Rightarrow> fst (bh_Sum blake h) | None \<Rightarrow> []) = block_hashes blake hashing whole"
  using assms by (auto simp: body_invar_def block_hashes_def bh_Sum_holds [OF bh_block_pos] split: option.splits)

definition new_upload :: "('c, 'q) upload_env \<Rightarrow> int \<Rightarrow> int \<Rightarrow> int \<Rightarrow> UploadsUploadParams \<Rightarrow> bytes \<Rightarrow> int \<Rightarrow> int \<Rightarrow> string \<Rightarrow> UploadRow" where
  "new_upload env now userId ch params data i sz salt =
     \<lparr> u_uploadId = pr_ID params, u_user = userId, u_name = pr_PartName params, u_partNo = pr_PartNo params, u_partId = i,
       u_encrypted = pr_Encrypted params, u_salt = salt, u_blockHashes = block_hashes (ue_blake env) (pr_Hashing params) data,
       u_channel = ch, u_size = sz, u_created = now \<rparr>"

lemma record_upload_spec:
  assumes "(case hasher of Some h \<Rightarrow> fst (bh_Sum (ue_blake env) h) | None \<Rightarrow> []) = block_hashes (ue_blake env) (pr_Hashing params) data"
    and "record_upload env now userId ch params sz salt hasher i m a = (res, a')"
  shows "case res of Inl e \<Rightarrow> a' = a
    | Inr part \<Rightarrow> message_document m \<noteq> None
        \<and> insert_upload (new_upload env now userId ch params data i sz salt) a = Inr a'
        \<and> part = hd (ToUploadOut [new_upload env now userId ch params data i sz salt])"
proof -
  let ?u = "new_upload env now userId ch params data i sz salt"
  have "record_upload env now userId ch params sz salt hasher i m a =
      (case message_document m of None \<Rightarrow> (Inl (EMsg ''upload failed''), a)
       | Some doc \<Rightarrow> if doc_size doc = 0 \<and> doc_size doc \<noteq> sz then (Inl (EMsg ''upload failed''), a)
           else (case insert_upload ?u a of Inl e \<Rightarrow> (Inl e, a) | Inr a \<Rightarrow> (Inr (hd (ToUploadOut [?u])), a)))"
    by (simp only: record_upload_def Let_def assms(1) new_upload_def msgDocument_def)
  then show ?thesis using assms(2) by (auto split: option.splits if_splits sum.splits)
qed

lemma upload_part_spec:
  assumes "go_reader rd content final invar work" "invar body" "final body = EOF"
    and "go_reader (ue_rand env) rcontent rfinal rinvar rwork" "rinvar q"
    and "secretbox_ok (ue_seal env) unseal"
    and "\<And>nm file s. fst (tg_media tg ch nm file s) \<noteq> Inr None"
    and "pr_ContentLength params = int (length (content body))" "length (content body) < 2 ^ 62"
  shows "\<exists>res q' a' srv'.
    upload_part env tg rd now userId ch params (body, if pr_Hashing params then Some NewBlockHasher else None) q a srv = Some (res, q', a', srv')
    \<and> (case res of Inl e \<Rightarrow> a' = a
       | Inr part \<Rightarrow> \<exists>bs m u. stored_as env (pr_Encrypted params) (content body) (u_salt u) bs
           \<and> sent_as tg ch (pr_PartName params) (u_size u) bs srv (u_partId u) m srv' \<and> message_document m \<noteq> None
           \<and> u_size u = int (length bs)
           \<and> u = new_upload env now userId ch params (content body) (u_partId u) (u_size u) (u_salt u)
           \<and> insert_upload u a = Inr a' \<and> part = hd (ToUploadOut [u]))"
proof -
  let ?st = "(body, if pr_Hashing params then Some NewBlockHasher else None)"
  let ?inv = "body_invar (ue_blake env) content invar (pr_Hashing params) (content body)"
  let ?rd = "body_Read (ue_blake env) rd"
  note br = go_reader.body_reader [OF assms(1), of "ue_blake env" "pr_Hashing params" "content body"]
  have i: "?inv ?st" using assms(2) bh_holds_New [of "ue_blake env"] by (auto simp: body_invar_def)
  obtain r q1 where p: "prepareEncryption (ue_rand env) (ue_sha env) (ue_mkCipher env (ue_key env)) params ?st (pr_ContentLength params) q = Some (r, q1)"
    and r: "case r of Inl e \<Rightarrow> True
       | Inr (st, sz, salt) \<Rightarrow> src_invar (\<lambda>st. content (fst st)) ?inv st \<and> src_final (\<lambda>st. final (fst st)) st = final (fst ?st)
           \<and> stored_as env (pr_Encrypted params) (content (fst ?st)) salt (src_content (ue_seal env) (\<lambda>st. content (fst st)) st)
           \<and> sz = (if pr_Encrypted params then EncryptedSize (pr_ContentLength params) else pr_ContentLength params)"
    using prepareEncryption_spec [where invar = ?inv and s = ?st, OF assms(4,5) i, where final = "\<lambda>st. final (fst st)" and content = "\<lambda>st. content (fst st)"
        and params = params and len = "pr_ContentLength params"] by auto
  show ?thesis
  proof (cases r)
    case (Inl e)
    then show ?thesis using p by (simp add: upload_part_def)
  next
    case (Inr prep)
    obtain st sz salt where prep: "prep = (st, sz, salt)" by (cases prep)
    let ?bs = "src_content (ue_seal env) (\<lambda>st. content (fst st)) st"
    from r Inr prep have si: "src_invar (\<lambda>st. content (fst st)) ?inv st" and sf: "src_final (\<lambda>st. final (fst st)) st = EOF"
      and stored: "stored_as env (pr_Encrypted params) (content body) salt ?bs"
      and sz: "sz = (if pr_Encrypted params then EncryptedSize (pr_ContentLength params) else pr_ContentLength params)"
      using assms(3) by simp_all
    have sz: "sz = int (length ?bs)" using sz stored_length [OF stored assms(6,9)] assms(8) by simp
    obtain ur st' srv' where u: "uploadToTelegram tg ch params (src_Read (ue_seal env) ?rd) st sz srv = Some (ur, st', srv')"
      and ur: "case ur of Inl e \<Rightarrow> True
       | Inr (i, m) \<Rightarrow> sent_as tg ch (pr_PartName params) sz ?bs srv i m srv'
           \<and> src_invar (\<lambda>st. content (fst st)) ?inv st' \<and> src_content (ue_seal env) (\<lambda>st. content (fst st)) st' = []"
      using uploadToTelegram_spec [OF go_reader.src_stream [OF br assms(6)] si sf assms(7), of params sz srv] by blast
    show ?thesis
    proof (cases ur)
      case (Inl e)
      then show ?thesis using p Inr prep u by (simp add: upload_part_def)
    next
      case ui: (Inr im)
      obtain i m where im: "im = (i, m)" by (cases im)
      with ur ui have sent: "sent_as tg ch (pr_PartName params) sz ?bs srv i m srv'"
        and e: "src_invar (\<lambda>st. content (fst st)) ?inv st'" "src_content (ue_seal env) (\<lambda>st. content (fst st)) st' = []" by simp_all
      note h = body_hashes [of "ue_blake env" content invar "pr_Hashing params" "content body" "src_reader st'"]
      have h: "(case snd (src_reader st') of Some h \<Rightarrow> fst (bh_Sum (ue_blake env) h) | None \<Rightarrow> [])
          = block_hashes (ue_blake env) (pr_Hashing params) (content body)"
        using h go_reader.src_used_up [OF br assms(6) e] by simp
      obtain res a' where rec: "record_upload env now userId ch params sz salt (snd (src_reader st')) i m a = (res, a')" by force
      note rec_ok = record_upload_spec [OF h rec]
      have up: "upload_part env tg rd now userId ch params ?st q a srv = Some (res, q1, a', srv')"
        using p Inr prep u ui im rec by (simp add: upload_part_def)
      let ?u = "new_upload env now userId ch params (content body) i sz salt"
      have "u_salt ?u = salt" "u_size ?u = sz" "u_partId ?u = i" by (simp_all add: new_upload_def)
      then have "\<exists>bs m u. stored_as env (pr_Encrypted params) (content body) (u_salt u) bs
           \<and> sent_as tg ch (pr_PartName params) (u_size u) bs srv (u_partId u) m srv' \<and> message_document m \<noteq> None
           \<and> u_size u = int (length bs)
           \<and> u = new_upload env now userId ch params (content body) (u_partId u) (u_size u) (u_salt u)
           \<and> insert_upload u a = Inr a' \<and> part = hd (ToUploadOut [u])" if "res = Inr part" for part
        using rec_ok that stored sent sz by (intro exI [of _ ?bs] exI [of _ m] exI [of _ ?u]) simp
      moreover have "a' = a" if "res = Inl e" for e using rec_ok that by simp
      ultimately show ?thesis unfolding up by (intro exI conjI) (rule refl, simp split: sum.split)
    qed
  qed
qed

text \<open>
  C2. The upload of one part always returns, and either fails and records nothing or stores the body. In the second case the row it
  adds names the message that was sent; the bytes sent are the body itself, or the body sealed under the key of the recorded
  salt; the recorded size is the number of bytes sent; and the recorded block hashes are those of the plain body.
  The body is any reader that ends, of the declared length.
\<close>

theorem upload_part_stores:
  assumes "go_reader rd content final invar work" "invar body" "final body = EOF"
    and "go_reader (ue_rand env) rcontent rfinal rinvar rwork" "rinvar q"
    and "secretbox_ok (ue_seal env) unseal"
    and "\<And>nm file s. fst (tg_media tg ch nm file s) \<noteq> Inr None"
    and "pr_ContentLength params = int (length (content body))" "length (content body) < 2 ^ 62"
  shows "\<exists>res q' a' srv'.
    upload_part env tg rd now userId ch params (body, if pr_Hashing params then Some NewBlockHasher else None) q a srv = Some (res, q', a', srv')
    \<and> (case res of Inl e \<Rightarrow> a' = a
       | Inr part \<Rightarrow> \<exists>bs m u. stored_as env (pr_Encrypted params) (content body) (u_salt u) bs
           \<and> sent_as tg ch (pr_PartName params) (u_size u) bs srv (u_partId u) m srv' \<and> message_document m \<noteq> None
           \<and> u_size u = int (length bs)
           \<and> u = new_upload env now userId ch params (content body) (u_partId u) (u_size u) (u_salt u)
           \<and> insert_upload u a = Inr a' \<and> part = hd (ToUploadOut [u]))"
  using assms by (rule upload_part_spec)

section \<open>The table of uploads\<close>

abbreviation upload_rows :: "app \<Rightarrow> UploadRow list" where "upload_rows a \<equiv> sv_uploads (ap_svc a)"

definition upload_table :: "UploadRow list \<Rightarrow> bool" where
  "upload_table rows \<longleftrightarrow> distinct (map (\<lambda>u. (u_partId u, u_channel u)) rows) \<and> (\<forall>u \<in> set rows. 0 < u_partId u)"

lemma insert_upload_table:
  "insert_upload u a = Inr a' \<Longrightarrow> upload_table (upload_rows a) \<Longrightarrow> upload_rows a' = upload_rows a @ [u] \<and> upload_table (upload_rows a')"
  by (fastforce simp: insert_upload_def upload_table_def Let_def split: if_splits)

lemma CurrentChannel_uploads: "upload_rows (snd (CurrentChannel uid a)) = upload_rows a"
  by (simp add: CurrentChannel_def app_Set_def Let_def split: sum.splits cval.splits cache_err.splits option.splits)

lemma BotTokens_uploads: "upload_rows (snd (BotTokens uid a)) = upload_rows a"
  by (simp add: BotTokens_def app_Set_def Let_def split: sum.splits cval.splits cache_err.splits)

lemma record_channel_uploads: "record_channel d uid row a = Inr a' \<Longrightarrow> upload_rows a' = upload_rows a"
  by (auto simp: record_channel_def app_Delete_def cache_Delete_def split: if_splits sum.splits)

lemma create_locked_uploads:
  assumes "create_locked createCh auth addBots jwt now nm uid d (a, srv) = (r, a', srv')"
  shows "upload_rows a' = upload_rows a"
proof -
  obtain bt ab where b: "BotTokens uid a = (bt, ab)" by force
  have ab: "upload_rows ab = upload_rows a" using BotTokens_uploads [of uid a] b by simp
  show ?thesis
    using assms ab
    by (auto simp: create_locked_def Let_def b split: option.splits prod.splits sum.splits if_splits dest!: record_channel_uploads)
qed

lemma CreateNewChannel_uploads:
  "upload_rows (cs_app (snd (CreateNewChannel createCh auth addBots c1 c2 jwt now nm uid d st))) = upload_rows (cs_app st)"
  by (auto simp: CreateNewChannel_def Let_def dest: create_locked_uploads split: option.splits prod.splits)

lemma upload_channel_uploads:
  assumes "\<And>st. upload_rows (cs_app (snd (createNew uid st))) = upload_rows (cs_app st)"
  shows "upload_rows (cs_app (snd (upload_channel auto lim createNew ch uid st))) = upload_rows (cs_app st)"
proof -
  obtain cur a where c: "CurrentChannel uid (cs_app st) = (cur, a)" by force
  have a: "upload_rows a = upload_rows (cs_app st)" using CurrentChannel_uploads [of uid "cs_app st"] c by simp
  have n: "upload_rows (cs_app (snd (createNew uid (st\<lparr> cs_app := a \<rparr>)))) = upload_rows (cs_app st)"
    using assms [of "st\<lparr> cs_app := a \<rparr>"] a by simp
  show ?thesis
    using a n by (cases cur) (auto simp: upload_channel_def c Let_def split: prod.splits sum.splits)
qed

lemma getUploadClient_uploads:
  "getUploadClient Next auth bot_ok claims uid (a, b) = Some (r, a', b') \<Longrightarrow> upload_rows a' = upload_rows a"
  using BotTokens_uploads [of uid a]
  by (auto simp: getUploadClient_def split: prod.splits sum.splits if_splits next_result.splits)

lemma record_upload_rows:
  assumes "record_upload env now uid ch params sz salt hasher i m a = (res, a')"
  shows "case res of Inl e \<Rightarrow> a' = a
    | Inr part \<Rightarrow> \<exists>u. insert_upload u a = Inr a' \<and> u_user u = uid \<and> u_uploadId u = pr_ID params \<and> u_channel u = ch"
  using assms by (auto simp: record_upload_def Let_def split: option.splits if_splits sum.splits)

lemma upload_part_rows:
  assumes "upload_part env tg rd now uid ch params reader q a srv = Some (res, q', a', srv')"
  shows "case res of Inl e \<Rightarrow> a' = a
    | Inr part \<Rightarrow> \<exists>u. insert_upload u a = Inr a' \<and> u_user u = uid \<and> u_uploadId u = pr_ID params \<and> u_channel u = ch"
proof -
  let ?prep = "prepareEncryption (ue_rand env) (ue_sha env) (ue_mkCipher env (ue_key env)) params reader (pr_ContentLength params) q"
  from assms obtain r q1 where p: "?prep = Some (r, q1)" by (cases ?prep) (auto simp: upload_part_def)
  show ?thesis
  proof (cases r)
    case (Inl e)
    then show ?thesis using assms p by (auto simp: upload_part_def)
  next
    case (Inr x)
    obtain st sz salt where x: "x = (st, sz, salt)" by (cases x)
    let ?up = "uploadToTelegram tg ch params (src_Read (ue_seal env) (body_Read (ue_blake env) rd)) st sz srv"
    from assms p Inr x obtain ur st' srv1 where u: "?up = Some (ur, st', srv1)" by (cases ?up) (auto simp: upload_part_def)
    show ?thesis
    proof (cases ur)
      case (Inl e)
      then show ?thesis using assms p Inr x u by (auto simp: upload_part_def)
    next
      case ui: (Inr im)
      obtain i m where im: "im = (i, m)" by (cases im)
      have "record_upload env now uid ch params sz salt (snd (src_reader st')) i m a = (res, a')"
        using assms p Inr x u ui im by (simp add: upload_part_def split: prod.splits)
      then show ?thesis by (rule record_upload_rows)
    qed
  qed
qed

text \<open>
  C17. An upload leaves the table of uploads well formed. Whatever Telegram, the selector and the body do, a call of \<open>UploadsUpload\<close> that
  returns an error has changed no row of the table, and one that succeeds has appended exactly one row, for the caller and the
  session asked for; messages stay recorded once, with positive ids.
\<close>

theorem UploadsUpload_table:
  assumes "UploadsUpload env tg Next auth bot_ok createCh addBots c1 c2 rd claims now uid params body q b st = Some (res, q', b', st')"
    and "upload_table (upload_rows (cs_app st))"
  shows "upload_table (upload_rows (cs_app st'))
    \<and> (case res of Inl e \<Rightarrow> upload_rows (cs_app st') = upload_rows (cs_app st)
       | Inr part \<Rightarrow> \<exists>u. upload_rows (cs_app st') = upload_rows (cs_app st) @ [u] \<and> u_user u = uid \<and> u_uploadId u = pr_ID params)"
proof (cases "pr_Encrypted params \<and> ue_key env = ''''")
  case True
  then show ?thesis using assms by (auto simp: UploadsUpload_def)
next
  case False
  obtain cr s1 where c: "upload_channel (ue_auto env) (ue_limit env)
      (\<lambda>userId. CreateNewChannel createCh auth addBots c1 c2 (Some claims) now '''' userId True) (pr_ChannelId params) uid st = (cr, s1)" by force
  have s1: "upload_rows (cs_app s1) = upload_rows (cs_app st)"
    using upload_channel_uploads [where createNew = "\<lambda>userId. CreateNewChannel createCh auth addBots c1 c2 (Some claims) now '''' userId True"
        and auto = "ue_auto env" and lim = "ue_limit env" and ch = "pr_ChannelId params" and st = st and uid = uid, OF CreateNewChannel_uploads] c
    by simp
  show ?thesis
  proof (cases cr)
    case (Inl e)
    then show ?thesis using assms False c s1 by (auto simp: UploadsUpload_def)
  next
    case (Inr ch)
    with assms(1) False c obtain r a b1 where g: "getUploadClient Next auth bot_ok claims uid (cs_app s1, b) = Some (r, a, b1)"
      by (auto simp: UploadsUpload_def bind_eq_Some_conv)
    have a: "upload_rows a = upload_rows (cs_app st)" using getUploadClient_uploads [OF g] s1 by simp
    show ?thesis
    proof (cases r)
      case (Inl e)
      then show ?thesis using assms False c g a Inr by (auto simp: UploadsUpload_def)
    next
      case ri: (Inr x)
      obtain token index who where x: "x = (token, index, who)" by (cases x)
      let ?part = "upload_part env tg rd now uid ch params (body, if pr_Hashing params then Some NewBlockHasher else None) q a (cs_srv s1)"
      show ?thesis
      proof (cases "ue_runAuth env token")
        case (Some e)
        then show ?thesis using assms False c g a Inr ri x by (auto simp: UploadsUpload_def)
      next
        case None
        then obtain pres a' srv' where p: "?part = Some (pres, q', a', srv')"
          and r: "res = (case pres of Inl e \<Rightarrow> Inl (ApiErr e 0) | Inr part \<Rightarrow> Inr part)" "cs_app st' = a'"
          using assms(1) False c g Inr ri x by (cases ?part) (auto simp: UploadsUpload_def)
        show ?thesis
          using upload_part_rows [OF p] assms(2) a r insert_upload_table [of _ a a'] by (cases pres) auto
      qed
    qed
  qed
qed

text \<open>
  The retention of uploads does not limit what a client sees. \<open>UploadsPartsById\<close> keeps the parts created before now plus the retention, so
  with a retention of at least a second and no part from the future it returns every part of the session, however old.
\<close>

theorem UploadsPartsById_all:
  assumes "0 < retention" "\<forall>u \<in> set (upload_rows a). u_created u \<le> now"
  shows "UploadsPartsById retention now uid i a = ToUploadOut (uploads_of (ap_svc a) i uid)"
proof -
  have "filter (\<lambda>u. u_created u < now + retention) (uploads_of (ap_svc a) i uid) = uploads_of (ap_svc a) i uid"
    using assms by (intro filter_True) (force simp: uploads_of_def)
  then show ?thesis by (simp add: UploadsPartsById_def)
qed

section \<open>Examples\<close>

definition doc_message :: tg_message where
  "doc_message = Message (MediaDocument (Some \<lparr> doc_size = 1, doc_id = 1 \<rparr>))"

text \<open>A server that keeps the bytes it gets, and the message ids count them.\<close>

definition list_tg :: "bytes list tg_api" where
  "list_tg = \<lparr> tg_getChannel = (\<lambda>_. None), tg_upload = (\<lambda>_ _ bs srv. (Inr (int (length srv)), srv @ [bs])),
     tg_media = (\<lambda>_ _ fl srv. (Inr (Some [UpdateNewChannelMessage (fl + 1) doc_message]), srv)) \<rparr>"

definition env_1 :: "(unit, bytes) upload_env" where
  "env_1 = \<lparr> ue_key = ''k'', ue_auto = True, ue_limit = 10, ue_blake = take 32, ue_seal = plain_seal, ue_rand = bytes_Read, ue_sha = take 32,
     ue_mkCipher = (\<lambda>_ _. Inr zero_Cipher), ue_runAuth = (\<lambda>_. None) \<rparr>"

definition params_1 :: UploadsUploadParams where
  "params_1 = \<lparr> pr_ID = ''u'', pr_PartName = ''p'', pr_PartNo = 1, pr_ChannelId = 5, pr_ContentLength = 3, pr_Encrypted = True, pr_Hashing = True \<rparr>"

lemma env_1_simps [simp]:
  "ue_key env_1 = ''k''" "ue_seal env_1 = plain_seal" "ue_rand env_1 = bytes_Read" "ue_runAuth env_1 = (\<lambda>_. None)"
  by (simp_all add: env_1_def)

lemma params_1_simps [simp]:
  "pr_ChannelId params_1 = 5" "pr_ContentLength params_1 = 3" "pr_Encrypted params_1 = True" "pr_Hashing params_1 = True"
  by (simp_all add: params_1_def)

theorem upload_part_stores_witness:
  "\<exists>res q' a' srv'. upload_part env_1 list_tg bytes_Read 100 7 5 params_1 ([1, 2, 3], Some NewBlockHasher) (replicate 56 9) channel_app []
      = Some (res, q', a', srv')
    \<and> (case res of Inl e \<Rightarrow> a' = channel_app
       | Inr part \<Rightarrow> \<exists>bs u. stored_as env_1 True [1, 2, 3] (u_salt u) bs \<and> insert_upload u channel_app = Inr a')"
proof -
  have m: "fst (tg_media list_tg 5 nm fl s) \<noteq> Inr None" for nm fl s by (simp add: list_tg_def)
  have l: "pr_ContentLength params_1 = int (length [1, 2, 3 :: 8 word])" "length [1, 2, 3 :: 8 word] < 2 ^ 62" by simp_all
  have g: "go_reader (ue_rand env_1) (\<lambda>s. s) (\<lambda>_. EOF) (\<lambda>_. True) length" by (simp add: bytes_rd.go_reader_axioms)
  have b: "secretbox_ok (ue_seal env_1) plain_unseal" by (simp add: plain_secretbox_ok)
  obtain res q' a' srv' where
    up: "upload_part env_1 list_tg bytes_Read 100 7 5 params_1 ([1, 2, 3], Some NewBlockHasher) (replicate 56 9) channel_app [] = Some (res, q', a', srv')"
    and r: "case res of Inl e \<Rightarrow> a' = channel_app
       | Inr part \<Rightarrow> \<exists>bs m u. stored_as env_1 True [1, 2, 3] (u_salt u) bs
           \<and> sent_as list_tg 5 (pr_PartName params_1) (u_size u) bs [] (u_partId u) m srv' \<and> message_document m \<noteq> None
           \<and> u_size u = int (length bs)
           \<and> u = new_upload env_1 100 7 5 params_1 [1, 2, 3] (u_partId u) (u_size u) (u_salt u)
           \<and> insert_upload u channel_app = Inr a' \<and> part = hd (ToUploadOut [u])"
    using upload_part_stores [where rd = bytes_Read and content = "\<lambda>s. s" and final = "\<lambda>_. EOF" and invar = "\<lambda>_. True" and work = length
        and body = "[1, 2, 3]" and env = env_1 and rcontent = "\<lambda>s. s" and rfinal = "\<lambda>_. EOF" and rinvar = "\<lambda>_. True" and rwork = length
        and q = "replicate 56 9" and unseal = plain_unseal and tg = list_tg and ch = 5 and params = params_1 and now = 100 and userId = 7
        and a = channel_app and srv = "[]", OF bytes_rd.go_reader_axioms TrueI refl g TrueI b m l, unfolded params_1_simps if_True]
    by (elim exE conjE) (rule that)
  from r have "case res of Inl e \<Rightarrow> a' = channel_app
       | Inr part \<Rightarrow> \<exists>bs u. stored_as env_1 True [1, 2, 3] (u_salt u) bs \<and> insert_upload u channel_app = Inr a'"
    by (cases res) auto
  with up show ?thesis by (intro exI conjI)
qed

definition upload_7 :: "bytes list chan_state" where
  "upload_7 = \<lparr> cs_app = channel_app, cs_locks = [], cs_srv = [] \<rparr>"

lemma upload_7_part:
  "\<exists>res q' a' srv'. upload_part env_1 list_tg bytes_Read 100 7 5 params_1 ([1, 2, 3], Some NewBlockHasher) (replicate 56 9) a [] = Some (res, q', a', srv')"
proof -
  have m: "fst (tg_media list_tg 5 nm fl s) \<noteq> Inr None" for nm fl s by (simp add: list_tg_def)
  have l: "pr_ContentLength params_1 = int (length [1, 2, 3 :: 8 word])" "length [1, 2, 3 :: 8 word] < 2 ^ 62" by simp_all
  have g: "go_reader (ue_rand env_1) (\<lambda>s. s) (\<lambda>_. EOF) (\<lambda>_. True) length" by (simp add: bytes_rd.go_reader_axioms)
  have b: "secretbox_ok (ue_seal env_1) plain_unseal" by (simp add: plain_secretbox_ok)
  show ?thesis
    using upload_part_spec [where rd = bytes_Read and content = "\<lambda>s. s" and final = "\<lambda>_. EOF" and invar = "\<lambda>_. True" and work = length
        and body = "[1, 2, 3]" and env = env_1 and rcontent = "\<lambda>s. s" and rfinal = "\<lambda>_. EOF" and rinvar = "\<lambda>_. True" and rwork = length
        and q = "replicate 56 9" and unseal = plain_unseal and tg = list_tg and ch = 5 and params = params_1 and now = 100 and userId = 7
        and a = a and srv = "[]", OF bytes_rd.go_reader_axioms TrueI refl g TrueI b m l, unfolded params_1_simps if_True]
    by blast
qed

theorem UploadsUpload_table_witness:
  "\<exists>res q' b' st'. UploadsUpload env_1 list_tg MemoryBotSelector_Next (\<lambda>_. True) (\<lambda>_. True) (\<lambda>_ s. (Inl EKeyConflict, s)) (\<lambda>_ _ _ s. (None, s)) 0 0
      bytes_Read claims_7 100 7 params_1 [1, 2, 3] (replicate 56 9) (\<lambda>_. 0) upload_7 = Some (res, q', b', st')
    \<and> upload_table (upload_rows (cs_app st'))"
proof -
  define up where "up = UploadsUpload env_1 list_tg MemoryBotSelector_Next (\<lambda>_. True) (\<lambda>_. True) (\<lambda>_ s. (Inl EKeyConflict, s)) (\<lambda>_ _ _ s. (None, s)) 0 0
      bytes_Read claims_7 100 7 params_1 [1, 2, 3] (replicate 56 9) (\<lambda>_. 0) upload_7"
  have b: "BotTokens 7 channel_app = (Inr [], app_Set (KeyUserBots 7) (CTokens []) channel_app)"
    by (simp add: BotTokens_def channel_app_def app_cache_def cm_Get_def Let_def)
  obtain res q' a' srv' where p: "upload_part env_1 list_tg bytes_Read 100 7 5 params_1 ([1, 2, 3], Some NewBlockHasher) (replicate 56 9)
      (app_Set (KeyUserBots 7) (CTokens []) channel_app) [] = Some (res, q', a', srv')"
    using upload_7_part by blast
  have "up \<noteq> None"
    by (simp add: up_def UploadsUpload_def upload_channel_def getUploadClient_def upload_7_def b p Let_def del: replicate.simps)
  then obtain r q2 b2 st2 where u: "up = Some (r, q2, b2, st2)" by (cases up) auto
  have "upload_table (upload_rows (cs_app upload_7))" by (simp add: upload_7_def channel_app_def upload_table_def)
  from UploadsUpload_table [OF u [unfolded up_def] this] u show ?thesis unfolding up_def by blast
qed

theorem UploadsPartsById_all_witness:
  "UploadsPartsById 604800 100 7 ''u'' channel_app = ToUploadOut (uploads_of (ap_svc channel_app) ''u'' 7)"
  by (rule UploadsPartsById_all) (simp_all add: channel_app_def)

end
