(* ===== verification/Streaming.thy ===== *)
theory Streaming
  imports Uploads ZipTheorems ShareTheorems
begin

text \<open>
  The handlers of pkg/services/file.go that send content: \<open>FilesStream\<close> and \<open>SharesStream\<close>, which serve a file or a range of it, and the
  zip downloads with the limit on archives in progress. A response is a record that grows; a header set after the status has been
  written is not sent. \<open>None\<close> is a panic, or not ending.
\<close>

section \<open>Responses\<close>

datatype piece = Data bytes | Text svc_err

record http_writer =
  hw_status :: "nat option"
  hw_headers :: "string \<Rightarrow> string option"
  hw_body :: "piece list"

definition new_writer :: http_writer where
  "new_writer = \<lparr> hw_status = None, hw_headers = (\<lambda>_. None), hw_body = [] \<rparr>"

definition set_header :: "string \<Rightarrow> string \<Rightarrow> http_writer \<Rightarrow> http_writer" where
  "set_header k v w = (if hw_status w = None then w\<lparr> hw_headers := (hw_headers w)(k \<mapsto> v) \<rparr> else w)"

definition WriteHeader :: "nat \<Rightarrow> http_writer \<Rightarrow> http_writer" where
  "WriteHeader code w = (if hw_status w = None then w\<lparr> hw_status := Some code \<rparr> else w)"

definition write_body :: "piece \<Rightarrow> http_writer \<Rightarrow> http_writer" where
  "write_body p w = (let w = WriteHeader 200 w in w\<lparr> hw_body := hw_body w @ [p] \<rparr>)"

text \<open>\<open>http.Error\<close>.\<close>

definition http_error :: "svc_err \<Rightarrow> nat \<Rightarrow> http_writer \<Rightarrow> http_writer" where
  "http_error e code w =
     (let w = (if hw_status w = None then w\<lparr> hw_headers := (hw_headers w)(''Content-Length'' := None) \<rparr> else w);
          w = set_header ''Content-Type'' ''text/plain; charset=utf-8'' w;
          w = set_header ''X-Content-Type-Options'' ''nosniff'' w
      in write_body (Text e) (WriteHeader code w))"

lemma writer_simps [simp]:
  "hw_status (set_header k v w) = hw_status w" "hw_body (set_header k v w) = hw_body w"
  "hw_status (WriteHeader c w) = (case hw_status w of None \<Rightarrow> Some c | Some d \<Rightarrow> Some d)" "hw_body (WriteHeader c w) = hw_body w"
  "hw_headers (WriteHeader c w) = hw_headers w" "hw_body (write_body p w) = hw_body w @ [p]"
  "hw_headers (write_body p w) = hw_headers w" "hw_status (write_body p w) = (case hw_status w of None \<Rightarrow> Some 200 | Some d \<Rightarrow> Some d)"
  by (simp_all add: set_header_def WriteHeader_def write_body_def split: option.split)

lemma set_header_headers:
  "hw_status w = None \<Longrightarrow> hw_headers (set_header k v w) = (hw_headers w)(k \<mapsto> v)"
  by (simp add: set_header_def)

section \<open>Requests\<close>

record stream_request =
  rq_method :: string
  rq_range :: string
  rq_hash :: string
  rq_cookie :: "string option"
  rq_format :: string
  rq_download :: string
  rq_auth :: string

text \<open>
  What the handlers use of the configuration, the libraries and Telegram: the parser of tokens and its secret, the limit of bots, the MIME
  table, the ETag of a string, the form of a time and of a disposition, how a session or a token becomes a client, \<open>getParts\<close>,
  the readers of the parts, and the result of the conversion of a PSD file, which runs on another goroutine.
\<close>

record 's stream_env =
  sn_parse :: "string \<Rightarrow> string \<Rightarrow> svc_err + JWTClaims \<times> bool"
  sn_secret :: string
  sn_botsLimit :: int
  sn_typeByExtension :: "string \<Rightarrow> string"
  sn_md5 :: "string \<Rightarrow> string"
  sn_httpTime :: "int \<Rightarrow> string"
  sn_disposition :: "string \<Rightarrow> string \<Rightarrow> string"
  sn_auth :: "string \<Rightarrow> bool"
  sn_bot :: "string \<Rightarrow> bool"
  sn_runAuth :: "string \<Rightarrow> svc_err option"
  sn_parts :: "FileRow \<Rightarrow> (svc_err + Part list) option"
  sn_open :: "FileRow \<Rightarrow> Part list \<Rightarrow> 's open_part"
  sn_read :: "FileRow \<Rightarrow> 's read_fun"
  sn_buf :: nat
  sn_png :: "FileRow \<Rightarrow> (svc_err + bytes) option"

type_synonym 'b selector = "BotOp \<Rightarrow> int \<Rightarrow> string list \<Rightarrow> 'b \<Rightarrow> next_result \<times> 'b"

section \<open>Who serves\<close>

definition limit_tokens :: "int \<Rightarrow> string list \<Rightarrow> string list" where
  "limit_tokens lim tokens = (if lim > 0 \<and> int (length tokens) > lim then take (nat lim) tokens else tokens)"

text \<open>The token (empty for the session) of the client that reads for a user.\<close>

definition stream_client ::
    "'s stream_env \<Rightarrow> 'b selector \<Rightarrow> int \<Rightarrow> string \<Rightarrow> string list \<Rightarrow> 'b \<Rightarrow> ((svc_err + string) \<times> 'b) option" where
  "stream_client env Next userId session tokens b =
     (if length tokens = 0 then
        Some (if sn_auth env session then Inr '''' else Inl (EMsg ''auth client''), b)
      else
        (case Next BotOpStream userId tokens b of
           (NextPanic, b) \<Rightarrow> None
         | (NextErr e, b) \<Rightarrow> Some (Inl (EMsg e), b)
         | (NextBot token _, b) \<Rightarrow> Some (if sn_bot env token then Inr token else Inl (EMsg ''bot client''), b)))"

text \<open>
  The user and the Telegram session of a request: from the cookie, the hash in the query, or the owner of a share. After an invalid
  token there is no return and the claims, which are nil, are used.
\<close>

definition stream_session ::
    "'s stream_env \<Rightarrow> stream_request \<Rightarrow> int \<Rightarrow> app \<Rightarrow> ((svc_err \<times> nat + int \<times> string) \<times> app) option" where
  "stream_session env r userId a =
     (if userId = 0 then
        if rq_hash r = '''' then
          (case rq_cookie r of
             None \<Rightarrow> Some (Inl (EMsg ''missing token or authash'', 401), a)
           | Some cookie \<Rightarrow>
               (case VerifyUser (sn_parse env) (sn_secret env) cookie a of
                  (Inl e, a) \<Rightarrow> None
                | (Inr user, a) \<Rightarrow> Some (Inr (subject_id (jc_subject user), jc_tgSession user), a)))
        else
          (case GetSessionByHash (rq_hash r) a of
             (Inl e, a) \<Rightarrow> Some (Inl (EMsg ''invalid hash'', 400), a)
           | (Inr s, a) \<Rightarrow> Some (Inr (se_user s, se_session s), a))
      else
        (case GetSessionByUserId userId a of
           (Inl e, a) \<Rightarrow> Some (Inr (userId, ''''), a)
         | (Inr owner, a) \<Rightarrow> Some (Inr (userId, se_session owner), a)))"

definition fetch_file :: "string \<Rightarrow> app \<Rightarrow> (svc_err + FileRow) \<times> app" where
  "fetch_file fileId a =
     (let key = Key [VStr ''files'', VStr fileId] in
      case cm_Get key (app_cache a) of
        Inr (CFile f) \<Rightarrow> (Inr f, a)
      | Inr _ \<Rightarrow> (Inl ECache, a)
      | Inl CacheErr \<Rightarrow> (Inl ECache, a)
      | Inl CacheMiss \<Rightarrow>
          (case row_by_id (sv_files (ap_svc a)) fileId of
             None \<Rightarrow> (Inl ERecordNotFound, a)
           | Some f \<Rightarrow> (Inr f, app_Set key (CFile f) a)))"

definition IsPSD :: "string \<Rightarrow> string \<Rightarrow> bool" where
  "IsPSD mimeType fileName =
     (if mimeType = ''image/vnd.adobe.photoshop'' \<or> mimeType = ''image/x-photoshop'' then True
      else if length fileName > 4 then
        (let ext = drop (length fileName - 4) fileName in ext = ''.psd'' \<or> ext = ''.PSD'')
      else False)"

section \<open>Streaming\<close>

text \<open>The range asked for and the status, or the error with its status.\<close>

definition stream_range :: "string \<Rightarrow> int \<Rightarrow> (svc_err \<times> nat + int \<times> int \<times> nat) option" where
  "stream_range rangeHeader fsize =
     (if rangeHeader = '''' then Some (Inr (0, fsize - 1, 200))
      else
        (case Parse rangeHeader fsize of
           None \<Rightarrow> None
         | Some (Inl ErrNoOverlap) \<Rightarrow> Some (Inl (EMsg ''invalid range: failed to overlap'', 416))
         | Some (Inl ErrInvalid) \<Rightarrow> Some (Inl (EMsg ''invalid range'', 400))
         | Some (Inr rgs) \<Rightarrow>
             if length rgs > 1 then Some (Inl (EMsg ''multiple ranges are not supported'', 416))
             else (case rgs of [] \<Rightarrow> None | g # _ \<Rightarrow> Some (Inr (Start g, End g, 206)))))"

text \<open>\<open>handleStream\<close>: \<open>io.CopyN\<close> of what the reader gives to the response.\<close>

definition handleStream :: "'s stream_env \<Rightarrow> FileRow \<Rightarrow> int \<Rightarrow> int \<Rightarrow> http_writer \<Rightarrow> http_writer option" where
  "handleStream env f start fin w =
     Option.bind (sn_parts env f) (\<lambda>parts.
       case parts of
         Inl e \<Rightarrow> Some (http_error e 500 w)
       | Inr parts \<Rightarrow>
           Option.bind (NewReader (sn_open env f parts) (IsEncrypted f) parts start fin) (\<lambda>lr.
             case lr of
               Inl e \<Rightarrow> Some (http_error (EMsg ''reader'') 500 w)
             | Inr lr \<Rightarrow>
                 map_option (\<lambda>(bs, e, _). write_body (Data bs) w)
                   (io_Copy (limit_Read (Reader_Read (sn_open env f parts) (sn_read env f))) (sn_buf env) [] (lr, fin - start + 1))))"

definition servePSDAsPNG ::
    "'s stream_env \<Rightarrow> 'b selector \<Rightarrow> FileRow \<Rightarrow> int \<Rightarrow> string \<Rightarrow> http_writer \<Rightarrow> app \<times> 'b \<Rightarrow> (http_writer \<times> app \<times> 'b) option" where
  "servePSDAsPNG env Next f userId session w st =
     (case st of (a, b) \<Rightarrow>
       if (case f_size f of Some n \<Rightarrow> n > 200 * 1024 * 1024 | None \<Rightarrow> False) then
         Some (http_error (EMsg ''PSD too large for conversion (max 200 MB)'') 416 w, a, b)
       else
         (case BotTokens userId a of
            (Inl e, a) \<Rightarrow> Some (http_error (EMsg ''failed to get bots'') 500 w, a, b)
          | (Inr tokens, a) \<Rightarrow>
              Option.bind (stream_client env Next userId session (limit_tokens (sn_botsLimit env) tokens) b) (\<lambda>(client, b).
                case client of
                  Inl e \<Rightarrow> Some (http_error e 500 w, a, b)
                | Inr token \<Rightarrow>
                    if sn_runAuth env token \<noteq> None then None
                    else
                      Option.bind (sn_parts env f) (\<lambda>parts.
                        case parts of
                          Inl e \<Rightarrow> Some (http_error e 500 w, a, b)
                        | Inr parts \<Rightarrow>
                            (case f_size f of
                               None \<Rightarrow> None
                             | Some n \<Rightarrow>
                                 Option.bind (NewReader (sn_open env f parts) (IsEncrypted f) parts 0 (n - 1)) (\<lambda>lr.
                                   case lr of
                                     Inl e \<Rightarrow> Some (http_error (EMsg ''reader'') 500 w, a, b)
                                   | Inr lr \<Rightarrow>
                                       map_option (\<lambda>res. case res of
                                           Inl e \<Rightarrow> (http_error e 500 w, a, b)
                                         | Inr png \<Rightarrow>
                                             let pngName = TrimSuffix (f_name f) (Ext (f_name f)) @ ''.png'';
                                                 w = set_header ''Content-Type'' ''image/png'' w;
                                                 w = set_header ''Content-Length'' (show_int (int (length png))) w;
                                                 w = set_header ''Content-Disposition'' (sn_disposition env ''inline'' pngName) w;
                                                 w = set_header ''Cache-Control'' ''public, max-age=86400'' w
                                             in (write_body (Data png) (WriteHeader 200 w), a, b))
                                         (sn_png env f)))))))"

definition empty_file :: "'s stream_env \<Rightarrow> string \<Rightarrow> FileRow \<Rightarrow> http_writer \<Rightarrow> http_writer" where
  "empty_file env contentType f w =
     WriteHeader 200
       (set_header ''Content-Disposition'' (sn_disposition env ''inline'' (f_name f))
       (set_header ''Content-Length'' ''0'' (set_header ''Content-Type'' contentType w)))"

text \<open>The response to a request for content of the file, once its row is known.\<close>

definition stream_file ::
    "'s stream_env \<Rightarrow> 'b selector \<Rightarrow> stream_request \<Rightarrow> string \<Rightarrow> FileRow \<Rightarrow> int \<Rightarrow> string \<Rightarrow> app \<times> 'b \<Rightarrow> (http_writer \<times> app \<times> 'b) option" where
  "stream_file env Next r fileId f userId session st =
     (case st of (a, b) \<Rightarrow>
       let w = set_header ''Accept-Ranges'' ''bytes'' new_writer;
           contentType = contentTypeFor (sn_typeByExtension env) (f_name f) (f_mime f)
       in if rq_format r = ''png'' \<and> IsPSD contentType (f_name f) then servePSDAsPNG env Next f userId session w (a, b)
       else
         (case f_size f of
            None \<Rightarrow> Some (empty_file env contentType f w, a, b)
          | Some fsize \<Rightarrow>
              if fsize = 0 then Some (empty_file env contentType f w, a, b)
              else
                Option.bind (stream_range (rq_range r) fsize) (\<lambda>rg.
                  case rg of
                    Inl (e, code) \<Rightarrow>
                      let w = (if e = EMsg ''invalid range: failed to overlap'' then set_header ''Content-Range'' (''bytes */'' @ show_int fsize) w else w)
                      in Some (http_error e code w, a, b)
                  | Inr (start, fin, status) \<Rightarrow>
                      let w = (if rq_range r \<noteq> ''''
                               then set_header ''Content-Range'' (''bytes '' @ show_int start @ ''-'' @ show_int fin @ ''/'' @ show_int fsize) w else w);
                          w = set_header ''Content-Type'' contentType w;
                          w = set_header ''Content-Length'' (show_int (fin - start + 1)) w;
                          w = set_header ''ETag'' (''\"'' @ sn_md5 env (fileId @ show_int fsize) @ ''\"'') w;
                          w = set_header ''Last-Modified'' (sn_httpTime env (f_updated f)) w;
                          disposition = (if rq_download r = ''1'' then ''attachment'' else ''inline'');
                          w = set_header ''Content-Disposition'' (sn_disposition env disposition (f_name f)) w;
                          w = WriteHeader status w
                      in if rq_method r = ''HEAD'' then Some (w, a, b)
                      else
                        (case BotTokens userId a of
                           (Inl e, a) \<Rightarrow> Some (http_error (EMsg ''failed to get bots'') 500 w, a, b)
                         | (Inr tokens, a) \<Rightarrow>
                             Option.bind (stream_client env Next userId session (limit_tokens (sn_botsLimit env) tokens) b) (\<lambda>(client, b).
                               case client of
                                 Inl e \<Rightarrow> Some (http_error e 500 w, a, b)
                               | Inr token \<Rightarrow>
                                   if sn_runAuth env token \<noteq> None then Some (w, a, b)
                                   else map_option (\<lambda>w. (w, a, b)) (handleStream env f start fin w))))))"

definition FilesStream ::
    "'s stream_env \<Rightarrow> 'b selector \<Rightarrow> stream_request \<Rightarrow> string \<Rightarrow> int \<Rightarrow> app \<times> 'b \<Rightarrow> (http_writer \<times> app \<times> 'b) option" where
  "FilesStream env Next r fileId userId st =
     (case st of (a, b) \<Rightarrow>
       Option.bind (stream_session env r userId a) (\<lambda>(who, a).
         case who of
           Inl (e, code) \<Rightarrow> Some (http_error e code new_writer, a, b)
         | Inr (user, session) \<Rightarrow>
             (case fetch_file fileId a of
                (Inl e, a) \<Rightarrow> Some (http_error e 400 new_writer, a, b)
              | (Inr f, a) \<Rightarrow> stream_file env Next r fileId f user session (a, b))))"

text \<open>\<open>isUUID\<close> and \<open>compare_hash\<close> are the parsers of ids and the comparison of a password with its hash.\<close>

definition SharesStream ::
    "'s stream_env \<Rightarrow> (string \<Rightarrow> bool) \<Rightarrow> (string \<Rightarrow> string \<Rightarrow> bool) \<Rightarrow> 'b selector \<Rightarrow> int \<Rightarrow> stream_request \<Rightarrow> string \<Rightarrow> string \<Rightarrow> app \<times> 'b
     \<Rightarrow> (http_writer \<times> app \<times> 'b) option" where
  "SharesStream env isUUID compare_hash Next now r shareId fileId st =
     (case st of (a, b) \<Rightarrow>
       Option.bind (validFileShare isUUID compare_hash now (rq_auth r) shareId (ap_svc a)) (\<lambda>(share, s).
         let a = a\<lparr> ap_svc := s \<rparr> in
         case share of
           Inl (ApiErr EEmptyAuth c) \<Rightarrow>
             Some (http_error (EMsg ''Unauthorized'') 401 (set_header ''WWW-Authenticate'' ''Basic realm=\"Restricted\"'' new_writer), a, b)
         | Inl e \<Rightarrow> Some (http_error e 401 new_writer, a, b)
         | Inr share \<Rightarrow> FilesStream env Next r fileId (sh_user (fs_row share)) (a, b)))"

section \<open>Archives\<close>

text \<open>\<open>zipSlots\<close>: how many archives are streamed, and their limit; 0 is no limit.\<close>

definition take_slot :: "int \<Rightarrow> nat \<Rightarrow> nat option" where
  "take_slot lim n = (if lim > 0 then (if int n < lim then Some (Suc n) else None) else Some n)"

definition release_slot :: "int \<Rightarrow> nat \<Rightarrow> nat" where
  "release_slot lim n = (if lim > 0 then n - 1 else n)"

text \<open>
  The part of \<open>streamZip\<close> before the archive is handed to its goroutine: the token of its client, and the slots. With the
  client, the goroutine writes the entries (\<open>zip_entries\<close>) and gives the slot back when it ends.
\<close>

definition streamZip ::
    "'s stream_env \<Rightarrow> 'b selector \<Rightarrow> int \<Rightarrow> int \<Rightarrow> string \<Rightarrow> nat \<times> app \<times> 'b \<Rightarrow> ((svc_err + string) \<times> nat \<times> app \<times> 'b) option" where
  "streamZip env Next lim userId tgSession st =
     (case st of (slots, a, b) \<Rightarrow>
       case take_slot lim slots of
         None \<Rightarrow> Some (Inl (ApiErr (EMsg ''too many zip downloads in progress, try again shortly'') 503), slots, a, b)
       | Some taken \<Rightarrow>
           (case BotTokens userId a of
              (Inl e, a) \<Rightarrow> Some (Inl (ApiErr e 0), release_slot lim taken, a, b)
            | (Inr tokens, a) \<Rightarrow>
                if length (limit_tokens (sn_botsLimit env) tokens) = 0 \<and> tgSession = '''' then
                  Some (Inl (ApiErr (EMsg ''no bots configured for this account'') 403), release_slot lim taken, a, b)
                else
                  map_option (\<lambda>(client, b). case client of
                      Inl e \<Rightarrow> (Inl (ApiErr e 0), release_slot lim taken, a, b)
                    | Inr token \<Rightarrow> (Inr token, taken, a, b))
                    (stream_client env Next userId tgSession (limit_tokens (sn_botsLimit env) tokens) b)))"

text \<open>The goroutine: what it wrote, and whether the archive was finished.\<close>

definition zip_run ::
    "'s stream_env \<Rightarrow> FileRow list \<Rightarrow> string \<Rightarrow> FileRow list \<Rightarrow> string list \<Rightarrow> bool \<Rightarrow> (zip_entry list \<times> bool) option" where
  "zip_run env rows token files selectedIds isSingleFolder =
     (if sn_runAuth env token \<noteq> None then Some ([], False)
      else map_option (\<lambda>(es, err). (es, err = None))
        (zip_entries (sn_open env) (sn_read env) (sn_buf env) (sn_parts env) rows (zip_folder rows selectedIds isSingleFolder) (\<lambda>_. None) files))"

record zip_config =
  zc_enabled :: bool
  zc_maxFiles :: int
  zc_maxSize :: int
  zc_maxConcurrent :: int

text \<open>The steps the three handlers share: collect, check the limits, start the archive.\<close>

definition zip_files ::
    "'s stream_env \<Rightarrow> 'b selector \<Rightarrow> zip_config \<Rightarrow> int \<Rightarrow> string list \<Rightarrow> (string \<times> bool) \<Rightarrow> (app \<Rightarrow> string \<times> app) \<Rightarrow> nat \<times> app \<times> 'b
     \<Rightarrow> ((svc_err + string \<times> string \<times> FileRow list \<times> bool) \<times> nat \<times> app \<times> 'b) option" where
  "zip_files env Next cnf userId ids meta sessionOf st =
     (case st of (slots, a, b) \<Rightarrow>
       let files = collectFilesRecursive (sv_files (ap_svc a)) ids userId in
       if length files = 0 then Some (Inl (ApiErr (EMsg ''no files found'') 404), slots, a, b)
       else
         (case checkZipLimits files (zc_maxFiles cnf) (zc_maxSize cnf) of
            Some e \<Rightarrow> Some (Inl (ApiErr e 413), slots, a, b)
          | None \<Rightarrow>
              (case sessionOf a of (session, a) \<Rightarrow>
                 map_option (\<lambda>(res, slots, a, b). (case res of Inl e \<Rightarrow> Inl e
                     | Inr token \<Rightarrow> Inr (token, sn_disposition env ''attachment'' (fst meta), files, snd meta), slots, a, b))
                   (streamZip env Next (zc_maxConcurrent cnf) userId session (slots, a, b)))))"

definition FilesDownloadZip where
  "FilesDownloadZip env Next cnf claims userId ids st =
     (if \<not> zc_enabled cnf then Some (Inl (ApiErr (EMsg ''zip download is disabled'') 403), st)
      else zip_files env Next cnf userId ids (getZipMetadata (sv_files (ap_svc (fst (snd st)))) ids userId) (\<lambda>a. (jc_tgSession claims, a)) st)"

text \<open>A viewer of a share reads with the owner's session, when there is one.\<close>

definition owner_session :: "int \<Rightarrow> app \<Rightarrow> string \<times> app" where
  "owner_session userId a = (case GetSessionByUserId userId a of (Inl e, a) \<Rightarrow> ('''', a) | (Inr s, a) \<Rightarrow> (se_session s, a))"

definition share_zip where
  "share_zip env Next cnf share ids st =
     zip_files env Next cnf (sh_user (fs_row share)) ids (shareZipName share ids) (owner_session (sh_user (fs_row share))) st"

definition SharesDownloadZip where
  "SharesDownloadZip env isUUID compare_hash Next cnf now authHeader shareId ids st =
     (if \<not> zc_enabled cnf then Some (Inl (ApiErr (EMsg ''zip download is disabled'') 403), st)
      else (case st of (slots, a, b) \<Rightarrow>
        Option.bind (validFileShare isUUID compare_hash now authHeader shareId (ap_svc a)) (\<lambda>(share, s).
          let a = a\<lparr> ap_svc := s \<rparr> in
          case share of
            Inl e \<Rightarrow> Some (Inl e, slots, a, b)
          | Inr share \<Rightarrow>
              if fs_type share = FOLDER \<and> \<not> sh_zip (fs_row share) then
                Some (Inl (ApiErr (EMsg ''zip download is not allowed for this share'') 403), slots, a, b)
              else
                Option.bind (assertIdsWithinShare (ap_svc a) share ids) (\<lambda>outside.
                  case outside of
                    Some e \<Rightarrow> Some (Inl e, slots, a, b)
                  | None \<Rightarrow> share_zip env Next cnf share ids (slots, a, b)))))"

definition SharesDownloadZipDirect where
  "SharesDownloadZipDirect env isUUID compare_hash Next cnf now authHeader shareId st =
     (if \<not> zc_enabled cnf then Some (Inl (ApiErr (EMsg ''zip download is disabled'') 403), st)
      else (case st of (slots, a, b) \<Rightarrow>
        Option.bind (validFileShare isUUID compare_hash now authHeader shareId (ap_svc a)) (\<lambda>(share, s).
          let a = a\<lparr> ap_svc := s \<rparr> in
          case share of
            Inl e \<Rightarrow> Some (Inl e, slots, a, b)
          | Inr share \<Rightarrow>
              if fs_type share = FOLDER \<and> \<not> sh_zip (fs_row share) then
                Some (Inl (ApiErr (EMsg ''zip download is not allowed for this share'') 403), slots, a, b)
              else share_zip env Next cnf share [sh_file (fs_row share)] (slots, a, b))))"

section \<open>What is sent\<close>

text \<open>
  The file can be read as \<open>d\<close>: \<open>getParts\<close> gives its parts, their readers serve the pieces of \<open>d\<close>, and all parts but the last have the
  size of the first.
\<close>

definition parts_serve :: "'s stream_env \<Rightarrow> FileRow \<Rightarrow> Part list \<Rightarrow> bytes list \<Rightarrow> bool" where
  "parts_serve env f parts plains \<longleftrightarrow> parts \<noteq> []
     \<and> (\<exists>S. uniform_parts S plains \<and> (if IsEncrypted f then DecryptedPartSize (parts ! 0) else PartSize (parts ! 0)) = int S)
     \<and> (\<exists>content final invar work. part_source (sn_read env f) content final invar work (sn_open env f parts) plains)"

definition serves_file :: "'s stream_env \<Rightarrow> FileRow \<Rightarrow> bytes \<Rightarrow> bool" where
  "serves_file env f d \<longleftrightarrow> f_size f = Some (int (length d))
     \<and> (\<exists>parts plains. sn_parts env f = Some (Inr parts) \<and> parts_serve env f parts plains \<and> d = concat plains)"

lemma serves_file_parts:
  assumes "serves_file env f d"
  obtains parts plains where "sn_parts env f = Some (Inr parts)" "parts_serve env f parts plains" "d = concat plains"
  using assms unfolding serves_file_def by blast

lemma parts_serve_limited:
  assumes "parts_serve env f parts plains" "0 \<le> start" "start \<le> fin" "fin < int (length (concat plains))" "0 < k"
  shows "\<exists>r r'. NewReader (sn_open env f parts) (IsEncrypted f) parts start fin = Some (Inr r)
     \<and> io_Copy (limit_Read (Reader_Read (sn_open env f parts) (sn_read env f))) k [] (r, fin - start + 1)
       = Some (go_slice (nat start) (nat (fin + 1)) (concat plains), None, r')"
proof -
  from assms(1) obtain S content final invar work where "uniform_parts S plains" "parts \<noteq> []"
    and sz: "(if IsEncrypted f then DecryptedPartSize (parts ! 0) else PartSize (parts ! 0)) = int S"
    and "part_source (sn_read env f) content final invar work (sn_open env f parts) plains"
    unfolding parts_serve_def by blast
  then show ?thesis by (intro part_source.NewReader_limited [OF _ _ assms(2-4) _ sz assms(5)])
qed

lemma handleStream_range:
  assumes "serves_file env f d" "0 \<le> start" "start \<le> fin" "fin < int (length d)" "0 < sn_buf env"
  shows "handleStream env f start fin w = Some (write_body (Data (go_slice (nat start) (nat (fin + 1)) d)) w)"
proof -
  obtain parts plains where p: "sn_parts env f = Some (Inr parts)" "parts_serve env f parts plains" "d = concat plains"
    by (rule serves_file_parts [OF assms(1)])
  from parts_serve_limited [OF p(2) assms(2,3) _ assms(5)] assms(4) p(3) obtain r r' where
    "NewReader (sn_open env f parts) (IsEncrypted f) parts start fin = Some (Inr r)"
    "io_Copy (limit_Read (Reader_Read (sn_open env f parts) (sn_read env f))) (sn_buf env) [] (r, fin - start + 1)
       = Some (go_slice (nat start) (nat (fin + 1)) d, None, r')" by auto
  then show ?thesis using p(1) by (simp add: handleStream_def)
qed

text \<open>The ranges asked for lie in the file.\<close>

lemma Parse_in:
  assumes "Parse h n = Some (Inr rgs)" "0 \<le> n" "n \<le> max_int64" "g \<in> set rgs"
  shows "0 \<le> Start g \<and> Start g \<le> End g \<and> End g < n"
  using assms parse_all_sound [OF assms(2,3)] by (auto simp: Parse_def split: option.splits if_splits)

lemma stream_range_in:
  assumes "stream_range h n = Some (Inr (start, fin, status))" "0 < n" "n \<le> max_int64"
  shows "0 \<le> start \<and> start \<le> fin \<and> fin < n \<and> status = (if h = '''' then 200 else 206)"
proof (cases "h = ''''")
  case True
  then show ?thesis using assms by (auto simp: stream_range_def)
next
  case False
  then obtain g rest where "Parse h n = Some (Inr (g # rest))" "start = Start g" "fin = End g" "status = 206"
    using assms(1) by (auto simp: stream_range_def split: option.splits sum.splits range_error.splits if_splits list.splits)
  with Parse_in [of h n "g # rest" g] assms(2,3) False show ?thesis by simp
qed

lemma stream_file_spec:
  assumes "serves_file env f d" "d \<noteq> []" "int (length d) \<le> max_int64" "0 < sn_buf env"
    and "rq_format r \<noteq> ''png''" "stream_range (rq_range r) (int (length d)) = Some (Inr (start, fin, status))"
    and "fst (BotTokens user a) = Inr tokens"
    and "stream_client env Next user session (limit_tokens (sn_botsLimit env) tokens) b = Some (Inr token, b')" "sn_runAuth env token = None"
  shows "\<exists>w a' b''. stream_file env Next r fileId f user session (a, b) = Some (w, a', b'')
    \<and> hw_status w = Some (if rq_range r = '''' then 200 else 206)
    \<and> hw_headers w ''Content-Length'' = Some (show_int (fin - start + 1))
    \<and> (rq_range r \<noteq> '''' \<longrightarrow> hw_headers w ''Content-Range''
         = Some (''bytes '' @ show_int start @ ''-'' @ show_int fin @ ''/'' @ show_int (int (length d))))
    \<and> hw_body w = (if rq_method r = ''HEAD'' then [] else [Data (go_slice (nat start) (nat (fin + 1)) d)])"
proof -
  have n: "f_size f = Some (int (length d))" using assms(1) by (simp add: serves_file_def)
  have rg: "0 \<le> start" "start \<le> fin" "fin < int (length d)" "status = (if rq_range r = '''' then 200 else 206)"
    using stream_range_in [OF assms(6)] assms(2,3) by auto
  note hs = handleStream_range [OF assms(1) rg(1-3) assms(4)]
  obtain a' where bt: "BotTokens user a = (Inr tokens, a')" using assms(7) by (cases "BotTokens user a") simp
  have ne: "int (length d) \<noteq> 0" using assms(2) by simp
  show ?thesis
    using n ne assms(5,6,8,9) bt
    by (simp add: stream_file_def hs Let_def set_header_headers rg(4) new_writer_def)
qed

text \<open>
  Streaming a file. For a file that can be read as \<open>d\<close>, a request with a range inside it (or none) is answered with the status 206 (or 200), the
  length and, with a range, the position of the range, and a body that is exactly the bytes of the range; a \<open>HEAD\<close> request gets the same
  headers and no body. The client may be the user's session or any bot.
\<close>

theorem stream_file_range:
  assumes "serves_file env f d" "d \<noteq> []" "int (length d) \<le> max_int64" "0 < sn_buf env"
    and "rq_format r \<noteq> ''png''" "stream_range (rq_range r) (int (length d)) = Some (Inr (start, fin, status))"
    and "fst (BotTokens user a) = Inr tokens"
    and "stream_client env Next user session (limit_tokens (sn_botsLimit env) tokens) b = Some (Inr token, b')" "sn_runAuth env token = None"
  shows "\<exists>w a' b''. stream_file env Next r fileId f user session (a, b) = Some (w, a', b'')
    \<and> hw_status w = Some (if rq_range r = '''' then 200 else 206)
    \<and> hw_headers w ''Content-Length'' = Some (show_int (fin - start + 1))
    \<and> (rq_range r \<noteq> '''' \<longrightarrow> hw_headers w ''Content-Range''
         = Some (''bytes '' @ show_int start @ ''-'' @ show_int fin @ ''/'' @ show_int (int (length d))))
    \<and> hw_body w = (if rq_method r = ''HEAD'' then [] else [Data (go_slice (nat start) (nat (fin + 1)) d)])"
  using assms by (rule stream_file_spec)

section \<open>What was uploaded is what is sent\<close>

text \<open>
  The row \<open>f\<close> is made of uploads of the pieces \<open>plains\<close>: its parts name messages of one channel whose documents \<open>doc\<close> hold them, as
  \<open>upload_part\<close> stores them.
\<close>

definition made_of_uploads ::
    "('c, 'q) upload_env \<Rightarrow> (int \<Rightarrow> chunk_fun) \<Rightarrow> (int \<Rightarrow> bytes) \<Rightarrow> (int \<Rightarrow> tg_message) \<Rightarrow> FileRow \<Rightarrow> api_Part list \<Rightarrow> bytes list \<Rightarrow> bool" where
  "made_of_uploads ue chunks doc look f ps plains \<longleftrightarrow> f_parts f = Some ps \<and> length plains = length ps
     \<and> f_size f = Some (int (length (concat plains))) \<and> uniform_parts (length (plains ! 0)) plains
     \<and> (\<forall>i < length ps. stored_as ue (IsEncrypted f) (plains ! i) (part_Salt (ps ! i)) (doc (part_ID (ps ! i)))
          \<and> chunk_ok (chunks (part_ID (ps ! i))) (doc (part_ID (ps ! i))) \<and> length (plains ! i) < 2 ^ 62
          \<and> (\<exists>k. look (part_ID (ps ! i)) = Message (MediaDocument (Some \<lparr> doc_size = int (length (doc (part_ID (ps ! i)))), doc_id = k \<rparr>))))"

text \<open>The environment reads the documents of the server with the keys of the salts.\<close>

definition reads_server ::
    "part_reader stream_env \<Rightarrow> ('c, 'q) upload_env \<Rightarrow> (int \<Rightarrow> chunk_fun) \<Rightarrow> unseal_fun \<Rightarrow> (string \<Rightarrow> bytes) \<Rightarrow> nat \<Rightarrow> (int \<Rightarrow> svc_err option)
     \<Rightarrow> (int \<Rightarrow> int list \<Rightarrow> svc_err + tg_messages) \<Rightarrow> FileRow \<Rightarrow> bool" where
  "reads_server env ue chunks unseal keyof conc getChannel request f \<longleftrightarrow> 0 < conc
     \<and> sn_parts env f = getParts_fetch getChannel request f \<and> sn_read env f = part_Read chunks unseal
     \<and> (\<forall>parts. sn_open env f parts = openPart chunks unseal keyof conc (IsEncrypted f) parts)
     \<and> (\<forall>salt cipher. ue_mkCipher ue (ue_key ue) salt = Inr cipher \<longrightarrow> keyof salt = dataKey cipher)"

lemma uploaded_parts:
  assumes "made_of_uploads ue chunks doc look f ps plains" "secretbox_ok (ue_seal ue) unseal"
    and "\<forall>salt cipher. ue_mkCipher ue (ue_key ue) salt = Inr cipher \<longrightarrow> keyof salt = dataKey cipher"
    and parts: "parts = map (\<lambda>p. part_of (IsEncrypted f) p (the (message_document (look (part_ID p))))) ps"
  shows "if IsEncrypted f then encrypted_parts (ue_seal ue) keyof chunks doc parts plains else plain_parts chunks doc parts plains"
    and "(if IsEncrypted f then DecryptedPartSize (parts ! 0) else PartSize (parts ! 0)) = int (length (plains ! 0))"
proof -
  have l: "length plains = length ps" "length parts = length ps" using assms(1) parts by (simp_all add: made_of_uploads_def)
  have i: "PartID (parts ! i) = part_ID (ps ! i)" "PartSalt (parts ! i) = part_Salt (ps ! i)"
    "PartSize (parts ! i) = int (length (doc (part_ID (ps ! i))))"
    "DecryptedPartSize (parts ! i) = (if IsEncrypted f then (case DecryptedSize (int (length (doc (part_ID (ps ! i))))) of Inl _ \<Rightarrow> 0 | Inr n \<Rightarrow> n) else 0)"
    "stored_as ue (IsEncrypted f) (plains ! i) (part_Salt (ps ! i)) (doc (part_ID (ps ! i)))"
    "chunk_ok (chunks (part_ID (ps ! i))) (doc (part_ID (ps ! i)))" "length (plains ! i) < 2 ^ 62" if "i < length ps" for i
  proof -
    from assms(1) that obtain k where
      "look (part_ID (ps ! i)) = Message (MediaDocument (Some \<lparr> doc_size = int (length (doc (part_ID (ps ! i)))), doc_id = k \<rparr>))"
      by (auto simp: made_of_uploads_def)
    with that show "PartID (parts ! i) = part_ID (ps ! i)" "PartSalt (parts ! i) = part_Salt (ps ! i)"
      "PartSize (parts ! i) = int (length (doc (part_ID (ps ! i))))"
      "DecryptedPartSize (parts ! i) = (if IsEncrypted f then (case DecryptedSize (int (length (doc (part_ID (ps ! i))))) of Inl _ \<Rightarrow> 0 | Inr n \<Rightarrow> n) else 0)"
      by (simp_all add: parts part_of_def message_document_def)
  qed (use assms(1) that in \<open>auto simp: made_of_uploads_def\<close>)
  show "if IsEncrypted f then encrypted_parts (ue_seal ue) keyof chunks doc parts plains else plain_parts chunks doc parts plains"
  proof (cases "IsEncrypted f")
    case True
    have "\<exists>n. length n = fileNonceSize \<and> doc (PartID (parts ! j)) = encrypted (ue_seal ue) (keyof (PartSalt (parts ! j))) n (plains ! j)"
      if "j < length ps" for j
      using i [OF that] True assms(3) by (auto simp: stored_as_def)
    then show ?thesis using True l i by (simp add: encrypted_parts_def)
  next
    case False
    have "plains = map (\<lambda>p. doc (PartID p)) parts"
      using l i False by (intro nth_equalityI) (auto simp: stored_as_def)
    moreover have "\<forall>p \<in> set parts. chunk_ok (chunks (PartID p)) (doc (PartID p))"
      using l i by (auto simp: in_set_conv_nth)
    ultimately show ?thesis using False by (simp add: plain_parts_def)
  qed
  have "ps \<noteq> []" using assms(1) l by (auto simp: made_of_uploads_def uniform_parts_def)
  then have 0: "0 < length ps" by simp
  have "int (length (doc (part_ID (ps ! 0)))) = (if IsEncrypted f then EncryptedSize (int (length (plains ! 0))) else int (length (plains ! 0)))"
    by (rule stored_length [OF i(5) [OF 0] assms(2) i(7) [OF 0]])
  moreover have "int (length (plains ! 0)) < 2 ^ 62" using i(7) [OF 0] by (metis of_nat_less_iff of_nat_numeral of_nat_power)
  ultimately show "(if IsEncrypted f then DecryptedPartSize (parts ! 0) else PartSize (parts ! 0)) = int (length (plains ! 0))"
    using i(3,4) [OF 0] DecryptedSize_EncryptedSize [of "int (length (plains ! 0))"] by simp
qed

lemma uploaded_serves:
  assumes up: "made_of_uploads ue chunks doc look f ps plains" and env: "reads_server env ue chunks unseal keyof conc getChannel request f"
    and ok: "secretbox_ok (ue_seal ue) unseal" and c: "f_channel f = Some c" "getChannel c = None"
    and req: "\<forall>is. length is \<le> 100 \<longrightarrow> request c is = Inr (ChannelMessages (map look is))"
  shows "serves_file env f (concat plains)"
proof -
  let ?parts = "map (\<lambda>p. part_of (IsEncrypted f) p (the (message_document (look (part_ID p))))) ps"
  have ps: "f_parts f = Some ps" using up by (simp add: made_of_uploads_def)
  have docs: "message_document (look (part_ID p)) \<noteq> None" if "p \<in> set ps" for p
    using up that by (auto simp: made_of_uploads_def in_set_conv_nth message_document_def)
  then have g: "sn_parts env f = Some (Inr ?parts)"
    using env getParts_spec [where getChannel = getChannel and request = request, OF ps c req] by (simp add: reads_server_def)
  have keys: "\<forall>salt cipher. ue_mkCipher ue (ue_key ue) salt = Inr cipher \<longrightarrow> keyof salt = dataKey cipher"
    and conc: "0 < conc" and opn: "sn_open env f ?parts = openPart chunks unseal keyof conc (IsEncrypted f) ?parts"
    and rd: "sn_read env f = part_Read chunks unseal" using env by (simp_all add: reads_server_def)
  note p = uploaded_parts [OF up ok keys refl]
  have u: "uniform_parts (length (plains ! 0)) plains" "length plains = length ps" using up by (simp_all add: made_of_uploads_def)
  have src: "\<exists>s. openPart chunks unseal keyof conc (IsEncrypted f) ?parts (PartNo rg) (rgStart rg) (rgEnd rg) = Some (Inr s)
      \<and> part_invar chunks unseal doc s \<and> part_final s = EOF \<and> part_content unseal doc s = range_bytes plains rg"
    if "range_ok plains rg" for rg
  proof (cases "IsEncrypted f")
    case True
    with p(1) have "encrypted_parts (ue_seal ue) keyof chunks doc ?parts plains" by simp
    from openPart_encrypted [OF this ok conc that] True show ?thesis by simp
  next
    case False
    with p(1) have "plain_parts chunks doc ?parts plains" by simp
    from openPart_plain [OF this conc that] False show ?thesis by simp
  qed
  have "?parts \<noteq> []" using u by (auto simp: uniform_parts_def)
  moreover have "\<exists>content final invar work. part_source (sn_read env f) content final invar work (sn_open env f ?parts) plains"
    unfolding opn rd using part_source_of [of plains, OF src] by (intro exI)
  ultimately have "parts_serve env f ?parts plains" unfolding parts_serve_def using p(2) u(1) by (intro conjI exI [of _ "length (plains ! 0)"])
  then show ?thesis using g up by (auto simp: serves_file_def made_of_uploads_def)
qed


section \<open>Archives\<close>


context go_reader begin

text \<open>\<open>io.Copy\<close> into a writer that appends.\<close>

lemma io_CopyTo_append:
  assumes "invar s" and "0 < k"
  shows "\<exists>s'. io_CopyTo Read (\<lambda>w p. Some (w @ p)) k acc s = Some (acc @ content s, if final s = EOF then None else Some (final s), s')"
  using assms(1)
proof (induction "work s" arbitrary: s acc rule: less_induct)
  case less
  obtain bs e s' where r: "Read k s = Some (bs, e, s')" using Read_total [OF less.prems assms(2)] by blast
  note inv' = Read_invar [OF less.prems assms(2) r] and fin' = Read_final [OF less.prems assms(2) r]
    and con = Read_content [OF less.prems assms(2) r]
  have w: "(if bs = [] then Some acc else Some (acc @ bs)) = Some (acc @ bs)" by simp
  show ?case
  proof (cases e)
    case (Some er)
    with r Read_error [OF less.prems assms(2), of bs er s'] con show ?thesis
      by (subst io_CopyTo.simps) (simp add: w del: append_is_Nil_conv)
  next
    case None
    with r have "work s' < work s" by (intro Read_progress [OF less.prems assms(2)]) simp
    from less.hyps [OF this inv', of "acc @ bs"] obtain s2 where
      "io_CopyTo Read (\<lambda>w p. Some (w @ p)) k (acc @ bs) s' = Some ((acc @ bs) @ content s', if final s' = EOF then None else Some (final s'), s2)"
      by blast
    with None r con fin' show ?thesis by (subst io_CopyTo.simps) (simp add: w)
  qed
qed

end

lemma parts_serve_copy:
  assumes "parts_serve env f parts plains" "concat plains \<noteq> []" "0 < k"
  shows "\<exists>r r'. NewReader (sn_open env f parts) (IsEncrypted f) parts 0 (int (length (concat plains)) - 1) = Some (Inr r)
     \<and> io_CopyTo (Reader_Read (sn_open env f parts) (sn_read env f)) (\<lambda>w p. Some (w @ p)) k [] r = Some (concat plains, None, r')"
proof -
  from assms(1) obtain S content final invar work where u: "uniform_parts S plains" "parts \<noteq> []"
    and sz: "(if IsEncrypted f then DecryptedPartSize (parts ! 0) else PartSize (parts ! 0)) = int S"
    and src: "part_source (sn_read env f) content final invar work (sn_open env f parts) plains"
    unfolding parts_serve_def by blast
  have "0 \<le> int (length (concat plains)) - 1" "int (length (concat plains)) - 1 < int (length (concat plains))"
    using assms(2) by (simp_all add: Suc_le_eq del: length_concat)
  from part_source.NewReader_opens [OF src u(1) order.refl this u(2) sz] obtain r where
    r: "NewReader (sn_open env f parts) (IsEncrypted f) parts 0 (int (length (concat plains)) - 1) = Some (Inr r)"
      "part_source.rinvar content final invar plains r" "part_source.rcontent content plains r = concat plains"
    by (auto simp: go_slice_def simp del: length_concat)
  from go_reader.io_CopyTo_append [OF part_source.Reader_reader [OF src] r(2) assms(3), of "[]"] r(1,3) show ?thesis by auto
qed

text \<open>
  A finished archive is complete. When each file has no content or can be read as \<open>content f\<close>, the archive is finished and holds one entry
  per file, in order, with exactly its content.
\<close>

lemma zip_entries_complete:
  assumes "\<forall>f \<in> set files. entry_name rows folder f \<noteq> None \<and> (case f_size f of None \<Rightarrow> content f = [] | Some n \<Rightarrow> n = 0 \<and> content f = []
      \<or> content f \<noteq> [] \<and> serves_file env f (content f))" "0 < sn_buf env"
  shows "\<exists>es. zip_entries (sn_open env) (sn_read env) (sn_buf env) (sn_parts env) rows folder used files = Some (es, None)
    \<and> map ze_data es = map content files"
  using assms(1)
proof (induction files arbitrary: used)
  case (Cons f fs)
  from Cons.prems obtain nm where nm: "entry_name rows folder f = Some nm" by auto
  obtain nm' used' where d: "dedup_name used nm = (nm', used')" by force
  from Cons.IH [of used'] Cons.prems obtain es where
    es: "zip_entries (sn_open env) (sn_read env) (sn_buf env) (sn_parts env) rows folder used' fs = Some (es, None)" "map ze_data es = map content fs"
    by auto
  show ?case
  proof (cases "f_size f = None \<or> f_size f = Some 0")
    case True
    then have "content f = []" using Cons.prems by (auto simp: serves_file_def)
    then show ?thesis using True nm d es by simp
  next
    case False
    then have c: "content f \<noteq> []" "serves_file env f (content f)" using Cons.prems by auto
    obtain parts plains where p: "sn_parts env f = Some (Inr parts)" "parts_serve env f parts plains" "content f = concat plains"
      by (rule serves_file_parts [OF c(2)])
    from parts_serve_copy [OF p(2) _ assms(2)] c(1) p(3) obtain r r' where
      "NewReader (sn_open env f parts) (IsEncrypted f) parts 0 (int (length (content f)) - 1) = Some (Inr r)"
      "io_CopyTo (Reader_Read (sn_open env f parts) (sn_read env f)) (\<lambda>w p. Some (w @ p)) (sn_buf env) [] r = Some (content f, None, r')"
      by auto
    moreover have "f_size f = Some (int (length (content f)))" using c(2) by (simp add: serves_file_def)
    ultimately show ?thesis using False nm d p(1) es by simp
  qed
qed simp

lemma zip_entries_step:
  assumes "zip_entries opn rd k ps rows folder used (f # fs) = Some (es, None)"
  obtains e es' used' where "es = e # es'" "zip_entries opn rd k ps rows folder used' fs = Some (es', None)"
proof -
  from assms obtain nm where nm: "entry_name rows folder f = Some nm" by (cases "entry_name rows folder f") simp_all
  obtain nm' used' where d: "dedup_name used nm = (nm', used')" by force
  show ?thesis
  proof (cases "f_size f = None \<or> f_size f = Some 0")
    case True
    with assms nm d show ?thesis by (auto simp: Let_def intro: that)
  next
    case False
    with assms nm d obtain parts where p: "ps f = Some (Inr parts)" by (cases "ps f") (auto simp: Let_def split: sum.split_asm)
    with False assms nm d obtain lr where lr: "NewReader (opn f parts) (IsEncrypted f) parts 0 (the (f_size f) - 1) = Some (Inr lr)"
      by (cases "NewReader (opn f parts) (IsEncrypted f) parts 0 (the (f_size f) - 1)") (auto simp: Let_def split: sum.split_asm)
    let ?cp = "io_CopyTo (Reader_Read (opn f parts) (rd f)) (\<lambda>w p. Some (w @ p)) k [] lr"
    from False assms nm d p lr obtain w e s' where "?cp = Some (w, e, s')" by (cases ?cp) (auto simp: Let_def)
    with False assms nm d p lr show ?thesis by (cases e) (auto simp: Let_def intro: that)
  qed
qed

lemma zip_entries_length:
  "zip_entries opn rd k ps rows folder used fs = Some (es, None) \<Longrightarrow> length es = length fs"
proof (induction fs arbitrary: used es)
  case (Cons f fs)
  show ?case by (rule zip_entries_step [OF Cons.prems]) (simp add: Cons.IH)
qed simp

text \<open>
  C14. A finished archive is complete, and it is finished when every file can be read. The client works and each file of the list is
  empty or can be read as \<open>content f\<close>: then the archive is finished and holds one entry per file, in order, each with exactly the content of its
  file. And in whatever way reading fails, a finished archive has an entry for every file.
\<close>

theorem zip_run_complete:
  assumes "sn_runAuth env token = None" "0 < sn_buf env"
    and "\<forall>f \<in> set files. entry_name rows (zip_folder rows ids single) f \<noteq> None
      \<and> (case f_size f of None \<Rightarrow> content f = [] | Some n \<Rightarrow> n = 0 \<and> content f = [] \<or> content f \<noteq> [] \<and> serves_file env f (content f))"
    and "zip_run env rows token others ids single = Some (es', True)"
  shows "(\<exists>es. zip_run env rows token files ids single = Some (es, True) \<and> map ze_data es = map content files)
    \<and> length es' = length others"
proof
  show "\<exists>es. zip_run env rows token files ids single = Some (es, True) \<and> map ze_data es = map content files"
    using zip_entries_complete [OF assms(3,2), of "\<lambda>_. None"] assms(1) by (auto simp: zip_run_def)
  from assms(4) have "zip_entries (sn_open env) (sn_read env) (sn_buf env) (sn_parts env) rows (zip_folder rows ids single) (\<lambda>_. None) others = Some (es', None)"
    by (auto simp: zip_run_def split: if_splits)
  from zip_entries_length [OF this] show "length es' = length others" .
qed

section \<open>Shares\<close>

lemma validFileShare_files:
  "validFileShare isUUID compare_hash now authHeader i s = Some (Inr share, s') \<Longrightarrow> sv_files s' = sv_files s"
  unfolding validFileShare_iff by (auto dest!: fetch_share_cases)

lemma zip_files_collects:
  assumes "zip_files env Next cnf uid ids meta sessionOf (slots, a, b) = Some (Inr (token, disp, files, single), st')"
  shows "files = collectFilesRecursive (sv_files (ap_svc a)) ids uid \<and> files \<noteq> []"
proof -
  obtain session a1 where so: "sessionOf a = (session, a1)" by force
  let ?z = "streamZip env Next (zc_maxConcurrent cnf) uid session (slots, a1, b)"
  show ?thesis
  proof (cases ?z)
    case None
    then show ?thesis using assms so by (auto simp: zip_files_def Let_def split: if_split_asm option.split_asm)
  next
    case (Some x)
    obtain res y where "x = (res, y)" by (cases x)
    then show ?thesis using assms so Some
      by (cases res; cases y) (auto simp: zip_files_def Let_def split: if_split_asm option.split_asm)
  qed
qed


text \<open>
  A share streams every file. \<open>SharesStream\<close> does not ask whether the file belongs to the share: with any valid share of an owner, the
  content of any file that can be read with the owner's client is sent for its id, wherever the file is.
\<close>

theorem SharesStream_any_file:
  assumes "validFileShare isUUID compare_hash now (rq_auth r) shareId (ap_svc a) = Some (Inr share, s')"
    and "sh_user (fs_row share) \<noteq> 0"
    and "fst (fetch_file fileId (snd (GetSessionByUserId (sh_user (fs_row share)) (a\<lparr> ap_svc := s' \<rparr>)))) = Inr f"
  shows "\<exists>session a'. SharesStream env isUUID compare_hash Next now r shareId fileId (a, b)
    = stream_file env Next r fileId f (sh_user (fs_row share)) session (a', b)"
proof -
  let ?u = "sh_user (fs_row share)" and ?a = "a\<lparr> ap_svc := s' \<rparr>"
  obtain res a1 where s: "GetSessionByUserId ?u ?a = (res, a1)" by force
  obtain a2 where f: "fetch_file fileId a1 = (Inr f, a2)" using assms(3) s by (cases "fetch_file fileId a1") simp
  have "\<exists>session. stream_session env r ?u ?a = Some (Inr (?u, session), a1)"
    using assms(2) s by (cases res) (simp_all add: stream_session_def)
  then obtain session where "stream_session env r ?u ?a = Some (Inr (?u, session), a1)" ..
  then have "SharesStream env isUUID compare_hash Next now r shareId fileId (a, b) = stream_file env Next r fileId f ?u session (a2, b)"
    using assms(1) f by (simp add: SharesStream_def FilesStream_def Let_def)
  then show ?thesis by blast
qed

section \<open>Examples\<close>

definition docs_7 :: "int \<Rightarrow> bytes" where
  "docs_7 i = encrypted plain_seal (replicate 32 0) nonce0 (if i = 7 then [1, 2, 3] else [4, 5])"

definition look_7 :: "int \<Rightarrow> tg_message" where
  "look_7 i = Message (MediaDocument (Some \<lparr> doc_size = int (length (docs_7 i)), doc_id = i \<rparr>))"

definition file_7 :: FileRow where
  "file_7 = (mk_row ''f'' ''a.txt'' FILE 7 (Some ''r''))\<lparr> f_size := Some 5, f_encrypted := Some True, f_channel := Some 5,
     f_parts := Some [\<lparr> part_ID = 7, part_Salt = ''a'' \<rparr>, \<lparr> part_ID = 8, part_Salt = ''b'' \<rparr>] \<rparr>"

definition stream_7 :: "part_reader stream_env" where
  "stream_7 = \<lparr> sn_parse = (\<lambda>_ _. Inl EEmptyAuth), sn_secret = '''', sn_botsLimit = 0, sn_typeByExtension = (\<lambda>_. ''''), sn_md5 = (\<lambda>s. s),
     sn_httpTime = show_int, sn_disposition = (\<lambda>d n. d @ '' '' @ n), sn_auth = (\<lambda>_. True), sn_bot = (\<lambda>_. True), sn_runAuth = (\<lambda>_. None),
     sn_parts = getParts_fetch (\<lambda>_. None) (\<lambda>_ is. Inr (ChannelMessages (map look_7 is))),
     sn_open = (\<lambda>f parts. openPart (\<lambda>i. mem_chunk (docs_7 i)) plain_unseal (\<lambda>_. replicate 32 0) 2 (IsEncrypted f) parts),
     sn_read = (\<lambda>f. part_Read (\<lambda>i. mem_chunk (docs_7 i)) plain_unseal), sn_buf = 4, sn_png = (\<lambda>_. None) \<rparr>"

lemma stream_7_simps [simp]:
  "sn_botsLimit stream_7 = 0" "sn_auth stream_7 = (\<lambda>_. True)" "sn_runAuth stream_7 = (\<lambda>_. None)" "sn_buf stream_7 = 4"
  by (simp_all add: stream_7_def)

lemma file_7_uploaded:
  "made_of_uploads env_1 (\<lambda>i. mem_chunk (docs_7 i)) docs_7 look_7 file_7
     [\<lparr> part_ID = 7, part_Salt = ''a'' \<rparr>, \<lparr> part_ID = 8, part_Salt = ''b'' \<rparr>] [[1, 2, 3], [4, 5]]"
proof -
  have s: "\<exists>cipher n. ue_mkCipher env_1 ''k'' salt = Inr cipher \<and> length n = fileNonceSize
      \<and> docs_7 i = encrypted plain_seal (dataKey cipher) n (if i = 7 then [1, 2, 3] else [4, 5])" for salt i
    by (intro exI [of _ zero_Cipher] exI [of _ nonce0]) (simp add: env_1_def docs_7_def zero_Cipher_def fileNonceSize_def)
  have e: "IsEncrypted file_7" by (simp add: file_7_def IsEncrypted_def)
  show ?thesis
    using s [of "''a''" 7] s [of "''b''" 8]
    by (auto simp: made_of_uploads_def e stored_as_def mem_chunk_ok look_7_def uniform_parts_def less_Suc_eq)
       (simp_all add: file_7_def)
qed

lemma file_7_server:
  "reads_server stream_7 env_1 (\<lambda>i. mem_chunk (docs_7 i)) plain_unseal (\<lambda>_. replicate 32 0) 2 (\<lambda>_. None)
     (\<lambda>_ is. Inr (ChannelMessages (map look_7 is))) file_7"
  by (auto simp: reads_server_def stream_7_def env_1_def zero_Cipher_def)

definition range_7 :: stream_request where
  "range_7 = \<lparr> rq_method = ''GET'', rq_range = ''bytes=1-3'', rq_hash = '''', rq_cookie = None, rq_format = '''', rq_download = '''', rq_auth = '''' \<rparr>"

lemma range_7_parsed: "stream_range (rq_range range_7) 5 = Some (Inr (1, 3, 206))"
  by (simp add: stream_range_def range_7_def Parse_def parse_one_def ParseInt_def is_digit_def digits_val_def digit_val_def
        min_int64_def max_int64_def Let_def)

lemma channel_app_bots: "fst (BotTokens 7 channel_app) = Inr []"
  by (simp add: BotTokens_def channel_app_def app_cache_def cm_Get_def Let_def)


lemma file_7_serves: "serves_file stream_7 file_7 [1, 2, 3, 4, 5]"
  using uploaded_serves [OF file_7_uploaded file_7_server, of 5] by (simp add: plain_secretbox_ok) (simp add: file_7_def)

theorem stream_file_range_witness:
  "\<exists>w a' b'. stream_file stream_7 MemoryBotSelector_Next range_7 ''f'' file_7 7 ''s'' (channel_app, \<lambda>_. 0) = Some (w, a', b')
    \<and> hw_headers w ''Content-Range'' = Some (''bytes '' @ show_int 1 @ ''-'' @ show_int 3 @ ''/'' @ show_int 5)"
  using stream_file_range [OF file_7_serves, of range_7 1 3 206 7 channel_app "[]" MemoryBotSelector_Next "''s''" "\<lambda>_. 0" "''''" "\<lambda>_. 0" "''f''"]
  by (simp add: range_7_parsed channel_app_bots stream_client_def limit_tokens_def) (auto simp: range_7_def max_int64_def)


theorem zip_run_complete_witness:
  "\<exists>es. zip_run stream_7 [] '''' [file_7] [] False = Some (es, True) \<and> map ze_data es = [[1, 2, 3, 4, 5]]"
proof -
  have o: "zip_run stream_7 [] '''' [] [] False = Some ([], True)" by (simp add: zip_run_def)
  have "entry_name [] (zip_folder [] [] False) file_7 = Some (f_name file_7)" by (simp add: zip_folder_def entry_name_def)
  then have f: "\<forall>f \<in> set [file_7]. entry_name [] (zip_folder [] [] False) f \<noteq> None
      \<and> (case f_size f of None \<Rightarrow> [1, 2, 3, 4, 5 :: 8 word] = [] | Some n \<Rightarrow> n = 0 \<and> [1, 2, 3, 4, 5 :: 8 word] = []
        \<or> [1, 2, 3, 4, 5 :: 8 word] \<noteq> [] \<and> serves_file stream_7 f [1, 2, 3, 4, 5])"
    using file_7_serves by (simp add: file_7_def)
  show ?thesis using zip_run_complete [OF _ _ f o] by simp
qed

definition share_app :: app where
  "share_app = \<lparr> ap_svc = share_svc, ap_users = [], ap_sessions = [\<lparr> se_user = 1, se_hash = ''h'', se_date = 0, se_session = ''s'', se_created = 0 \<rparr>],
     ap_bots = [], ap_channels = [] \<rparr>"

definition zip_on :: zip_config where
  "zip_on = \<lparr> zc_enabled = True, zc_maxFiles = 0, zc_maxSize = 0, zc_maxConcurrent = 2 \<rparr>"

lemma share_collect: "collectFilesRecursive share_rows [''f''] 1 = [mk_row ''f'' ''a.txt'' FILE 1 (Some ''d'')]"
  by (simp add: collectFilesRecursive_def collect_loop.simps current_batch_def share_rows_def mk_row_simps)

lemma share_ids: "assertIdsWithinShare share_svc' demo_fileShare [''f''] = Some None"
proof -
  have "getFullPath share_rows ''f'' = Some ''/docs/a.txt''"
    using getFullPath_active [OF share_rows_inv(1) share_rows_active(3)] by simp
  then show ?thesis
    by (simp add: assertIdsWithinShare_def share_svc'_def share_svc_def share_rows_def mk_row_simps first_where_def demo_fileShare_def
        demo_share_def pathWithinShare_def TrimSuffix_def HasSuffix_def HasPrefix_def Let_def)
qed

lemma share_zip_runs:
  "\<exists>token disp single st'. SharesDownloadZip stream_7 (\<lambda>i. i = ''3f'') (=) MemoryBotSelector_Next zip_on 5 ''Basic YTpwdw=='' ''3f'' [''f''] (0, share_app, \<lambda>_. 0)
     = Some (Inr (token, disp, [mk_row ''f'' ''a.txt'' FILE 1 (Some ''d'')], single), st')"
proof -
  have k: "KeySessionUser 1 \<noteq> KeyShare ''3f''" "KeyUserBots 1 \<noteq> KeyShare ''3f''" "KeyUserBots 1 \<noteq> KeySessionUser 1"
    by (simp_all add: KeySessionUser_def KeyShare_def KeyUserBots_def Key_def)
  have s: "sv_files share_svc' = share_rows" "sv_cache share_svc' = (\<lambda>_. None)(KeyShare ''3f'' \<mapsto> CShare demo_fileShare)"
    by (simp_all add: share_svc'_def share_svc_def)
  have g: "GetSessionByUserId 1 (share_app\<lparr> ap_svc := share_svc' \<rparr>)
      = (Inr \<lparr> se_user = 1, se_hash = ''h'', se_date = 0, se_session = ''s'', se_created = 0 \<rparr>,
         app_Set (KeySessionUser 1) (CSession \<lparr> se_user = 1, se_hash = ''h'', se_date = 0, se_session = ''s'', se_created = 0 \<rparr>) (share_app\<lparr> ap_svc := share_svc' \<rparr>))"
    using k by (simp add: GetSessionByUserId_def cm_Get_def app_cache_def s newest_session_def first_where_def share_app_def Let_def)
  have b: "fst (BotTokens 1 (app_Set (KeySessionUser 1) v (share_app\<lparr> ap_svc := share_svc' \<rparr>))) = Inr []" for v
    using k by (simp add: BotTokens_def cm_Get_def app_cache_def app_Set_def cm_Set_def s share_app_def Let_def)
  have u: "sh_user (fs_row demo_fileShare) = 1" "sh_zip (fs_row demo_fileShare)" by (simp_all add: demo_fileShare_def demo_share_def)
  have v: "ap_svc share_app = share_svc" by (simp add: share_app_def)
  obtain a2 where b: "BotTokens 1 (app_Set (KeySessionUser 1) (CSession \<lparr> se_user = 1, se_hash = ''h'', se_date = 0, se_session = ''s'', se_created = 0 \<rparr>)
      (share_app\<lparr> ap_svc := share_svc' \<rparr>)) = (Inr [], a2)"
    using b by (metis prod.collapse)
  show ?thesis
    by (simp add: SharesDownloadZip_def zip_on_def v share_valid u share_ids Let_def share_zip_def zip_files_def s share_collect checkZipLimits_def
        owner_session_def g streamZip_def take_slot_def limit_tokens_def stream_client_def b)
qed


theorem SharesStream_any_file_witness:
  "\<exists>session a'. SharesStream stream_7 (\<lambda>i. i = ''3f'') (=) MemoryBotSelector_Next 5 (range_7\<lparr> rq_auth := ''Basic YTpwdw=='' \<rparr>) ''3f'' ''g'' (share_app, \<lambda>_. 0)
    = stream_file stream_7 MemoryBotSelector_Next (range_7\<lparr> rq_auth := ''Basic YTpwdw=='' \<rparr>) ''g'' (mk_row ''g'' ''secret.txt'' FILE 1 (Some ''e'')) 1 session (a', \<lambda>_. 0)"
proof -
  have v: "validFileShare (\<lambda>i. i = ''3f'') (=) 5 (rq_auth (range_7\<lparr> rq_auth := ''Basic YTpwdw=='' \<rparr>)) ''3f'' (ap_svc share_app) = Some (Inr demo_fileShare, share_svc')"
    using share_valid by (simp add: share_app_def)
  have k: "Key [VStr ''files'', VStr ''g''] \<noteq> KeyShare ''3f''" "Key [VStr ''files'', VStr ''g''] \<noteq> KeySessionUser 1" "KeySessionUser 1 \<noteq> KeyShare ''3f''"
    by (simp_all add: KeySessionUser_def KeyShare_def Key_def)
  have "fst (fetch_file ''g'' (snd (GetSessionByUserId (sh_user (fs_row demo_fileShare)) (share_app\<lparr> ap_svc := share_svc' \<rparr>))))
      = Inr (mk_row ''g'' ''secret.txt'' FILE 1 (Some ''e''))"
    using k by (simp add: fetch_file_def GetSessionByUserId_def cm_Get_def cm_Set_def app_cache_def app_Set_def newest_session_def first_where_def share_app_def
        share_svc'_def share_svc_def row_by_id_def share_rows_def mk_row_simps demo_fileShare_def demo_share_def Let_def)
  from SharesStream_any_file [OF v _ this] show ?thesis by (simp add: demo_fileShare_def demo_share_def)
qed

end
