(* ===== verification/ZipBrowse.thy ===== *)
theory ZipBrowse
  imports Streaming
begin

text \<open>
  Looking into archives (internal/zipbrowse, internal/cbzbrowse): the listing of one level of a zip file, the extraction of an
  entry, and the metadata and cover of a comic. The central directory that \<open>zip.NewReader\<close> reads is the list of the entries, in
  order; reading an entry gives bytes, and whether it then fails. \<open>sort.Slice\<close> is a stable sort here; its order of equal
  elements is not specified.
\<close>

section \<open>Zip files\<close>

record zip_file =
  zf_Name :: string
  zf_UncompressedSize64 :: int
  zf_CompressedSize64 :: int
  zf_Modified :: string
  zf_IsDir :: bool
  zf_Open :: "svc_err + bytes \<times> bool"

record Entry =
  en_Name :: string
  en_Path :: string
  en_Size :: int
  en_CompressedSz :: int
  en_IsDir :: bool
  en_Modified :: string
  en_MimeType :: string
  en_ChildCount :: nat

record ListResponse =
  lr_Entries :: "Entry list"
  lr_Total :: nat
  lr_ZipPath :: string

definition mimeFromName :: "(string \<Rightarrow> string) \<Rightarrow> string \<Rightarrow> string" where
  "mimeFromName typeByExtension name =
     (let ext = Ext name in
      if ext = '''' then defaultContentType
      else let ct = typeByExtension ext in if ct = '''' then defaultContentType else ct)"

text \<open>\<open>path.Base\<close>.\<close>

definition path_Base :: "string \<Rightarrow> string" where
  "path_Base p =
     (if p = '''' then ''.''
      else let q = rev (dropWhile (\<lambda>c. c = CHR ''/'') (rev p)) in
        if q = '''' then ''/'' else rev (takeWhile (\<lambda>c. c \<noteq> CHR ''/'') (rev q)))"

text \<open>The loop over the entries: the names seen, the entries collected, and the child of each deeper entry.\<close>

fun list_loop ::
    "(string \<Rightarrow> string) \<Rightarrow> string \<Rightarrow> zip_file list \<Rightarrow> string list \<Rightarrow> Entry list \<Rightarrow> string list \<Rightarrow> Entry list \<times> string list" where
  "list_loop typeByExtension innerPath [] seen entries childCounts = (entries, childCounts)"
| "list_loop typeByExtension innerPath (f # fs) seen entries childCounts =
     (let name = zf_Name f in
      if \<not> HasPrefix name innerPath then list_loop typeByExtension innerPath fs seen entries childCounts
      else
        let rel = TrimPrefix name innerPath in
        if rel = '''' then list_loop typeByExtension innerPath fs seen entries childCounts
        else
          let parts = SplitN2 rel CHR ''/''; childName = parts ! 0 in
          if length parts = 2 \<and> parts ! 1 \<noteq> '''' then
            let childCounts = childCounts @ [childName] in
            if childName \<in> set seen then list_loop typeByExtension innerPath fs seen entries childCounts
            else
              list_loop typeByExtension innerPath fs (childName # seen)
                (entries @ [\<lparr> en_Name = childName, en_Path = innerPath @ childName, en_Size = 0, en_CompressedSz = 0, en_IsDir = True,
                   en_Modified = zf_Modified f, en_MimeType = '''', en_ChildCount = 0 \<rparr>]) childCounts
          else if childName \<in> set seen then list_loop typeByExtension innerPath fs seen entries childCounts
          else
            let isDir = HasSuffix name ''/'' in
            list_loop typeByExtension innerPath fs (childName # seen)
              (entries @ [\<lparr> en_Name = childName, en_Path = TrimSuffix (innerPath @ childName) ''/'',
                 en_Size = i64 (zf_UncompressedSize64 f), en_CompressedSz = i64 (zf_CompressedSize64 f), en_IsDir = isDir,
                 en_Modified = zf_Modified f, en_MimeType = (if isDir then '''' else mimeFromName typeByExtension childName),
                 en_ChildCount = 0 \<rparr>]) childCounts)"

definition fill_count :: "string list \<Rightarrow> Entry \<Rightarrow> Entry" where
  "fill_count childCounts e = (if en_IsDir e then e\<lparr> en_ChildCount := count_list childCounts (en_Name e) \<rparr> else e)"

definition sort_entries :: "Entry list \<Rightarrow> Entry list" where
  "sort_entries es = sort_key (\<lambda>e. \<not> en_IsDir e) (sort_key (\<lambda>e. ToLower (en_Name e)) es)"

definition zip_innerPath :: "string \<Rightarrow> string" where
  "zip_innerPath innerPath =
     (let innerPath = TrimPrefix innerPath ''/''
      in if innerPath \<noteq> '''' \<and> \<not> HasSuffix innerPath ''/'' then innerPath @ ''/'' else innerPath)"

definition zip_ListEntries ::
    "(string \<Rightarrow> string) \<Rightarrow> (bytes \<Rightarrow> svc_err + zip_file list) \<Rightarrow> bytes \<Rightarrow> string \<Rightarrow> svc_err + ListResponse" where
  "zip_ListEntries typeByExtension openZip r innerPath =
     (case openZip r of
        Inl e \<Rightarrow> Inl e
      | Inr files \<Rightarrow>
          let innerPath = zip_innerPath innerPath in
          (case list_loop typeByExtension innerPath files [] [] [] of
             (entries, childCounts) \<Rightarrow>
               let entries = sort_entries (map (fill_count childCounts) entries)
               in Inr \<lparr> lr_Entries = entries, lr_Total = length entries, lr_ZipPath = innerPath \<rparr>))"

text \<open>The response that carries an entry; what \<open>io.Copy\<close> returns is not looked at.\<close>

definition serve_entry ::
    "(string \<Rightarrow> string) \<Rightarrow> (string \<Rightarrow> string \<Rightarrow> string) \<Rightarrow> string \<Rightarrow> zip_file \<Rightarrow> bytes \<Rightarrow> http_writer \<Rightarrow> http_writer" where
  "serve_entry typeByExtension disposition ct f data w =
     (let w = set_header ''Content-Type'' ct w;
          w = set_header ''Content-Length'' (show_int (zf_UncompressedSize64 f)) w;
          w = set_header ''Content-Disposition'' (disposition ''inline'' (path_Base (zf_Name f))) w;
          w = set_header ''Cache-Control'' ''public, max-age=86400'' w
      in write_body (Data data) (WriteHeader 200 w))"

fun extract_loop ::
    "(string \<Rightarrow> string) \<Rightarrow> (string \<Rightarrow> string \<Rightarrow> string) \<Rightarrow> zip_file list \<Rightarrow> string \<Rightarrow> http_writer \<Rightarrow> svc_err option \<times> http_writer" where
  "extract_loop typeByExtension disposition [] innerPath w = (Some (EMsg ''entry not found''), w)"
| "extract_loop typeByExtension disposition (f # fs) innerPath w =
     (if TrimSuffix (zf_Name f) ''/'' \<noteq> innerPath then extract_loop typeByExtension disposition fs innerPath w
      else if zf_IsDir f then (Some (EMsg ''path is a directory''), w)
      else
        (case zf_Open f of
           Inl e \<Rightarrow> (Some (EMsg ''open entry''), w)
         | Inr (data, _) \<Rightarrow> (None, serve_entry typeByExtension disposition (mimeFromName typeByExtension (zf_Name f)) f data w)))"

definition zip_ExtractFile ::
    "(string \<Rightarrow> string) \<Rightarrow> (string \<Rightarrow> string \<Rightarrow> string) \<Rightarrow> (bytes \<Rightarrow> svc_err + zip_file list) \<Rightarrow> bytes \<Rightarrow> string \<Rightarrow> http_writer
     \<Rightarrow> svc_err option \<times> http_writer" where
  "zip_ExtractFile typeByExtension disposition openZip r innerPath w =
     (case openZip r of
        Inl e \<Rightarrow> (Some e, w)
      | Inr files \<Rightarrow> extract_loop typeByExtension disposition files (TrimPrefix innerPath ''/'') w)"

definition WriteJSON :: "nat \<Rightarrow> bytes \<Rightarrow> http_writer \<Rightarrow> http_writer" where
  "WriteJSON status json w = write_body (Data json) (WriteHeader status (set_header ''Content-Type'' ''application/json'' w))"

section \<open>Comics\<close>

definition comicInfoNames :: "string list" where
  "comicInfoNames = [''ComicInfo.xml'', ''comicinfo.xml'', ''COMICINFO.XML'']"

definition isImageExt :: "string \<Rightarrow> bool" where
  "isImageExt ext \<longleftrightarrow> ToLower ext \<in> {''.jpg'', ''.jpeg'', ''.png'', ''.gif'', ''.webp'', ''.avif'', ''.bmp'', ''.tiff'', ''.tif''}"

record 'i MetadataResponse =
  md_ComicInfo :: "'i option"
  md_TotalPages :: nat

text \<open>\<open>io.ReadAll\<close> of the first bytes of an entry fails only when reading fails before the limit.\<close>

definition read_limited :: "nat \<Rightarrow> bytes \<times> bool \<Rightarrow> bytes option" where
  "read_limited n c = (case c of (bs, bad) \<Rightarrow> if bad \<and> length bs < n then None else Some (take n bs))"

text \<open>The candidates are compared without case, so all or none of them match; \<open>continue\<close> goes on with the next one.\<close>

fun try_names :: "(bytes \<Rightarrow> svc_err + 'i) \<Rightarrow> string \<Rightarrow> zip_file \<Rightarrow> string list \<Rightarrow> 'i option" where
  "try_names ParseComicInfo base f [] = None"
| "try_names ParseComicInfo base f (candidate # cs) =
     (if ToLower base = ToLower candidate then
        (case zf_Open f of
           Inl e \<Rightarrow> try_names ParseComicInfo base f cs
         | Inr c \<Rightarrow>
             (case read_limited (2 ^ 20) c of
                None \<Rightarrow> try_names ParseComicInfo base f cs
              | Some data \<Rightarrow> (case ParseComicInfo data of Inl e \<Rightarrow> None | Inr ci \<Rightarrow> Some ci)))
      else try_names ParseComicInfo base f cs)"

fun metadata_loop :: "(bytes \<Rightarrow> svc_err + 'i) \<Rightarrow> zip_file list \<Rightarrow> 'i option \<Rightarrow> nat \<Rightarrow> 'i option \<times> nat" where
  "metadata_loop ParseComicInfo [] ci totalPages = (ci, totalPages)"
| "metadata_loop ParseComicInfo (f # fs) ci totalPages =
     (if zf_IsDir f then metadata_loop ParseComicInfo fs ci totalPages
      else
        let totalPages = (if isImageExt (Ext (zf_Name f)) then Suc totalPages else totalPages);
            ci = (case ci of Some i \<Rightarrow> Some i | None \<Rightarrow> try_names ParseComicInfo (path_Base (zf_Name f)) f comicInfoNames)
        in metadata_loop ParseComicInfo fs ci totalPages)"

definition GetMetadata :: "(bytes \<Rightarrow> svc_err + 'i) \<Rightarrow> (bytes \<Rightarrow> svc_err + zip_file list) \<Rightarrow> bytes \<Rightarrow> svc_err + 'i MetadataResponse" where
  "GetMetadata ParseComicInfo openZip r =
     (case openZip r of
        Inl e \<Rightarrow> Inl e
      | Inr files \<Rightarrow> (case metadata_loop ParseComicInfo files None 0 of
          (ci, totalPages) \<Rightarrow> Inr \<lparr> md_ComicInfo = ci, md_TotalPages = totalPages \<rparr>))"

definition comic_images :: "zip_file list \<Rightarrow> zip_file list" where
  "comic_images files = sort_key (\<lambda>f. ToLower (zf_Name f)) (filter (\<lambda>f. \<not> zf_IsDir f \<and> isImageExt (Ext (zf_Name f))) files)"

definition ExtractCover ::
    "(string \<Rightarrow> string) \<Rightarrow> (string \<Rightarrow> string \<Rightarrow> string) \<Rightarrow> (bytes \<Rightarrow> svc_err + zip_file list) \<Rightarrow> bytes \<Rightarrow> http_writer
     \<Rightarrow> svc_err option \<times> http_writer" where
  "ExtractCover typeByExtension disposition openZip r w =
     (case openZip r of
        Inl e \<Rightarrow> (Some e, w)
      | Inr files \<Rightarrow>
          (case comic_images files of
             [] \<Rightarrow> (Some (EMsg ''no image files found in archive''), w)
           | f # _ \<Rightarrow>
               (case zf_Open f of
                  Inl e \<Rightarrow> (Some (EMsg ''open cover entry''), w)
                | Inr (data, _) \<Rightarrow>
                    let ct = typeByExtension (Ext (zf_Name f));
                        ct = (if ct = '''' then defaultContentType else ct)
                    in (None, serve_entry typeByExtension disposition ct f data w))))"

section \<open>One level of an archive\<close>

text \<open>The child of \<open>innerPath\<close> an entry belongs to, and whether the entry lies deeper than the child.\<close>

definition child_of :: "string \<Rightarrow> zip_file \<Rightarrow> (string \<times> bool) option" where
  "child_of ip f =
     (if HasPrefix (zf_Name f) ip \<and> TrimPrefix (zf_Name f) ip \<noteq> ''''
      then let parts = SplitN2 (TrimPrefix (zf_Name f) ip) CHR ''/''
           in Some (parts ! 0, length parts = 2 \<and> parts ! 1 \<noteq> '''')
      else None)"

definition make_entry :: "(string \<Rightarrow> string) \<Rightarrow> string \<Rightarrow> zip_file \<Rightarrow> string \<Rightarrow> bool \<Rightarrow> Entry" where
  "make_entry te ip f c deep =
     (if deep then \<lparr> en_Name = c, en_Path = ip @ c, en_Size = 0, en_CompressedSz = 0, en_IsDir = True,
        en_Modified = zf_Modified f, en_MimeType = '''', en_ChildCount = 0 \<rparr>
      else \<lparr> en_Name = c, en_Path = TrimSuffix (ip @ c) ''/'', en_Size = i64 (zf_UncompressedSize64 f),
        en_CompressedSz = i64 (zf_CompressedSize64 f), en_IsDir = HasSuffix (zf_Name f) ''/'', en_Modified = zf_Modified f,
        en_MimeType = (if HasSuffix (zf_Name f) ''/'' then '''' else mimeFromName te c), en_ChildCount = 0 \<rparr>)"

lemma make_entry_Name [simp]: "en_Name (make_entry te ip f c deep) = c"
  by (simp add: make_entry_def)

lemma list_loop_child:
  "list_loop te ip (f # fs) seen es cs =
     (case child_of ip f of
        None \<Rightarrow> list_loop te ip fs seen es cs
      | Some (c, deep) \<Rightarrow>
          list_loop te ip fs (if c \<in> set seen then seen else c # seen)
            (if c \<in> set seen then es else es @ [make_entry te ip f c deep]) (if deep then cs @ [c] else cs))"
  by (simp add: child_of_def make_entry_def Let_def)

lemma list_loop_spec:
  assumes "list_loop te ip fs seen es cs = (es', cs')" "set seen = en_Name ` set es" "distinct (map en_Name es)"
  shows "distinct (map en_Name es')"
    and "en_Name ` set es' = en_Name ` set es \<union> {c. \<exists>f \<in> set fs. \<exists>deep. child_of ip f = Some (c, deep)}"
    and "count_list cs' c = count_list cs c + length (filter (\<lambda>f. child_of ip f = Some (c, True)) fs)"
    and "e \<in> set es' \<Longrightarrow> e \<in> set es \<or> en_Name e \<notin> set seen \<and> (\<exists>pre f post deep. fs = pre @ f # post
      \<and> child_of ip f = Some (en_Name e, deep) \<and> e = make_entry te ip f (en_Name e) deep
      \<and> (\<forall>g \<in> set pre. \<forall>d. child_of ip g \<noteq> Some (en_Name e, d)))"
proof -
  have "distinct (map en_Name es') \<and> en_Name ` set es' = en_Name ` set es \<union> {c. \<exists>f \<in> set fs. \<exists>deep. child_of ip f = Some (c, deep)}
    \<and> (\<forall>c. count_list cs' c = count_list cs c + length (filter (\<lambda>f. child_of ip f = Some (c, True)) fs))
    \<and> (\<forall>e \<in> set es'. e \<in> set es \<or> en_Name e \<notin> set seen \<and> (\<exists>pre f post deep. fs = pre @ f # post
      \<and> child_of ip f = Some (en_Name e, deep) \<and> e = make_entry te ip f (en_Name e) deep
      \<and> (\<forall>g \<in> set pre. \<forall>d. child_of ip g \<noteq> Some (en_Name e, d))))"
    using assms
  proof (induction fs arbitrary: seen es cs)
    case Nil
    then show ?case by simp
  next
    case (Cons f fs)
    show ?case
    proof (cases "child_of ip f")
      case None
      with Cons.prems have "list_loop te ip fs seen es cs = (es', cs')" by (simp add: list_loop_child del: list_loop.simps)
      note ih = Cons.IH [OF this Cons.prems(2,3)]
      have "e \<in> set es \<or> en_Name e \<notin> set seen \<and> (\<exists>pre h post deep. f # fs = pre @ h # post
          \<and> child_of ip h = Some (en_Name e, deep) \<and> e = make_entry te ip h (en_Name e) deep
          \<and> (\<forall>g \<in> set pre. \<forall>d. child_of ip g \<noteq> Some (en_Name e, d)))" if "e \<in> set es'" for e
      proof (cases "e \<in> set es")
        case False
        with ih that obtain pre h post deep where "en_Name e \<notin> set seen" "fs = pre @ h # post" "child_of ip h = Some (en_Name e, deep)"
            "e = make_entry te ip h (en_Name e) deep" "\<forall>g \<in> set pre. \<forall>d. child_of ip g \<noteq> Some (en_Name e, d)" by blast
        moreover from this have "f # fs = (f # pre) @ h # post" "\<forall>g \<in> set (f # pre). \<forall>d. child_of ip g \<noteq> Some (en_Name e, d)"
          using None by simp_all
        ultimately show ?thesis by blast
      qed simp
      with ih None show ?thesis by auto
    next
      case (Some p)
      obtain c deep where p: "p = (c, deep)" by (cases p)
      let ?seen = "if c \<in> set seen then seen else c # seen"
      let ?es = "if c \<in> set seen then es else es @ [make_entry te ip f c deep]"
      have l: "list_loop te ip fs ?seen ?es (if deep then cs @ [c] else cs) = (es', cs')"
        using Cons.prems(1) Some p by (simp add: list_loop_child del: list_loop.simps)
      have s: "set ?seen = en_Name ` set ?es" "distinct (map en_Name ?es)" using Cons.prems(2,3) by auto
      note ih = Cons.IH [OF l s]
      have "e \<in> set es \<or> en_Name e \<notin> set seen \<and> (\<exists>pre h post deep. f # fs = pre @ h # post
          \<and> child_of ip h = Some (en_Name e, deep) \<and> e = make_entry te ip h (en_Name e) deep
          \<and> (\<forall>g \<in> set pre. \<forall>d. child_of ip g \<noteq> Some (en_Name e, d)))" if "e \<in> set es'" for e
      proof (cases "e \<in> set ?es")
        case True
        moreover have "f # fs = [] @ f # fs" by simp
        moreover have "\<forall>g \<in> set []. \<forall>d. child_of ip g \<noteq> Some (en_Name e, d)" by simp
        ultimately show ?thesis using Some p by (cases "e \<in> set es") (fastforce split: if_splits)+
      next
        case False
        with ih that obtain pre h post deep' where h: "en_Name e \<notin> set ?seen" "fs = pre @ h # post" "child_of ip h = Some (en_Name e, deep')"
            "e = make_entry te ip h (en_Name e) deep'" "\<forall>g \<in> set pre. \<forall>d. child_of ip g \<noteq> Some (en_Name e, d)" by blast
        from h(1) have "c \<noteq> en_Name e" "en_Name e \<notin> set seen" by (auto split: if_splits)
        moreover from this h have "f # fs = (f # pre) @ h # post" "\<forall>g \<in> set (f # pre). \<forall>d. child_of ip g \<noteq> Some (en_Name e, d)"
          using Some p by simp_all
        ultimately show ?thesis using h(3,4) by blast
      qed
      moreover have "en_Name ` set es' = en_Name ` set es \<union> {c. \<exists>h \<in> set (f # fs). \<exists>deep. child_of ip h = Some (c, deep)}"
        using ih Some p Cons.prems(2) by (auto split: if_splits)
      ultimately show ?thesis using ih Some p by auto
    qed
  qed
  then show "distinct (map en_Name es')"
    "en_Name ` set es' = en_Name ` set es \<union> {c. \<exists>f \<in> set fs. \<exists>deep. child_of ip f = Some (c, deep)}"
    "count_list cs' c = count_list cs c + length (filter (\<lambda>f. child_of ip f = Some (c, True)) fs)"
    "e \<in> set es' \<Longrightarrow> e \<in> set es \<or> en_Name e \<notin> set seen \<and> (\<exists>pre f post deep. fs = pre @ f # post
      \<and> child_of ip f = Some (en_Name e, deep) \<and> e = make_entry te ip f (en_Name e) deep
      \<and> (\<forall>g \<in> set pre. \<forall>d. child_of ip g \<noteq> Some (en_Name e, d)))" by blast+
qed

lemma child_of_iff:
  "child_of ip f = Some (c, deep) \<longleftrightarrow> CHR ''/'' \<notin> set c
     \<and> (zf_Name f = ip @ c \<and> c \<noteq> '''' \<and> \<not> deep \<or> (\<exists>rest. zf_Name f = ip @ c @ ''/'' @ rest \<and> (deep \<longleftrightarrow> rest \<noteq> '''')))"
proof (cases "\<exists>rel. zf_Name f = ip @ rel")
  case False
  then show ?thesis by (auto simp: child_of_def HasPrefix_iff)
next
  case True
  then obtain rel where rel: "zf_Name f = ip @ rel" by blast
  show ?thesis
  proof (cases "CHR ''/'' \<in> set rel")
    case False
    then show ?thesis using rel by (auto simp: child_of_def SplitN2_def Index_None_iff [THEN iffD2])
  next
    case True
    then obtain a b where ab: "rel = a @ CHR ''/'' # b" "CHR ''/'' \<notin> set a" by (metis split_list_first)
    then have "Index rel CHR ''/'' = Some (length a)" by (simp add: Index_append)
    then have "child_of ip f = Some (a, b \<noteq> '''')" using rel ab by (simp add: child_of_def SplitN2_def)
    moreover have "a @ CHR ''/'' # b = c @ CHR ''/'' # rest \<longleftrightarrow> a = c \<and> b = rest" if "CHR ''/'' \<notin> set c" for rest
      using ab(2) that by (auto simp: append_eq_append_conv2 append_eq_Cons_conv Cons_eq_append_conv)
    ultimately show ?thesis using rel ab by auto
  qed
qed

lemma sort_entries_props [simp]:
  "set (sort_entries es) = set es" "length (sort_entries es) = length es" "distinct (map f (sort_entries es)) = distinct (map f es)"
  by (simp_all add: sort_entries_def distinct_map)

lemma fill_count_Name [simp]: "en_Name (fill_count cs e) = en_Name e" "en_IsDir (fill_count cs e) = en_IsDir e"
  "en_Path (fill_count cs e) = en_Path e"
  by (simp_all add: fill_count_def)

lemma zip_ListEntries_eq:
  assumes "openZip r = Inr files" "list_loop te (zip_innerPath p) files [] [] [] = (es, cs)"
  shows "zip_ListEntries te openZip r p = Inr \<lparr> lr_Entries = sort_entries (map (fill_count cs) es), lr_Total = length es,
    lr_ZipPath = zip_innerPath p \<rparr>"
  using assms by (simp add: zip_ListEntries_def Let_def)

text \<open>
  The listing of one level is exact. Each name directly under the inner path is listed once, whether an entry has it or only
  entries below it, and nothing else is; directories come first; the count of a directory is the number of entries below it.
\<close>

theorem zip_ListEntries_exact:
  assumes "openZip r = Inr files"
  shows "\<exists>l. zip_ListEntries te openZip r p = Inr l \<and> lr_ZipPath l = zip_innerPath p \<and> lr_Total l = length (lr_Entries l)
    \<and> distinct (map en_Name (lr_Entries l))
    \<and> en_Name ` set (lr_Entries l) = {c. CHR ''/'' \<notin> set c \<and> (\<exists>f \<in> set files.
         zf_Name f = zip_innerPath p @ c \<and> c \<noteq> '''' \<or> HasPrefix (zf_Name f) (zip_innerPath p @ c @ ''/''))}
    \<and> sorted (map (\<lambda>e. \<not> en_IsDir e) (lr_Entries l))
    \<and> (\<forall>e \<in> set (lr_Entries l). en_IsDir e \<longrightarrow> en_ChildCount e
         = length (filter (\<lambda>f. \<exists>rest. zf_Name f = zip_innerPath p @ en_Name e @ ''/'' @ rest \<and> rest \<noteq> '''') files))"
proof -
  let ?ip = "zip_innerPath p"
  obtain es cs where l: "list_loop te ?ip files [] [] [] = (es, cs)" by force
  note sp = list_loop_spec [OF l, simplified]
  let ?l = "\<lparr> lr_Entries = sort_entries (map (fill_count cs) es), lr_Total = length es, lr_ZipPath = ?ip \<rparr>"
  have names: "en_Name ` set es = {c. CHR ''/'' \<notin> set c \<and> (\<exists>f \<in> set files.
      zf_Name f = ?ip @ c \<and> c \<noteq> '''' \<or> HasPrefix (zf_Name f) (?ip @ c @ ''/''))}"
    unfolding sp(2) by (auto simp: child_of_iff HasPrefix_iff)
  have noslash: "CHR ''/'' \<notin> set (en_Name e)" if "e \<in> set es" for e using names that by blast
  have c: "en_ChildCount (fill_count cs e)
      = length (filter (\<lambda>f. \<exists>rest. zf_Name f = ?ip @ en_Name e @ ''/'' @ rest \<and> rest \<noteq> '''') files)"
    if "e \<in> set es" "en_IsDir e" for e
    using that noslash [OF that(1)] sp(3) [of "en_Name e"] by (simp add: fill_count_def child_of_iff)
  have "sorted (map (\<lambda>e. \<not> en_IsDir e) (lr_Entries ?l))" unfolding sort_entries_def by simp
  then have "lr_ZipPath ?l = ?ip \<and> lr_Total ?l = length (lr_Entries ?l) \<and> distinct (map en_Name (lr_Entries ?l))
    \<and> en_Name ` set (lr_Entries ?l) = {c. CHR ''/'' \<notin> set c \<and> (\<exists>f \<in> set files.
         zf_Name f = ?ip @ c \<and> c \<noteq> '''' \<or> HasPrefix (zf_Name f) (?ip @ c @ ''/''))}
    \<and> sorted (map (\<lambda>e. \<not> en_IsDir e) (lr_Entries ?l))
    \<and> (\<forall>e \<in> set (lr_Entries ?l). en_IsDir e \<longrightarrow> en_ChildCount e
         = length (filter (\<lambda>f. \<exists>rest. zf_Name f = ?ip @ en_Name e @ ''/'' @ rest \<and> rest \<noteq> '''') files))"
    using sp(1) c names by (auto simp: comp_def image_image)
  then show ?thesis using zip_ListEntries_eq [of openZip r, OF assms l] by blast
qed

text \<open>
  C36. What is listed as a file can be extracted: the path of its entry leads to the entry of the archive it was listed for, and its
  content is sent.
\<close>

theorem zip_listed_extracts:
  assumes "openZip r = Inr files" "zip_ListEntries te openZip r p = Inr l" "e \<in> set (lr_Entries l)" "\<not> en_IsDir e"
    and "\<not> HasPrefix (en_Path e) ''/''" "\<forall>f \<in> set files. zf_IsDir f \<longrightarrow> HasSuffix (zf_Name f) ''/''"
  shows "\<exists>f \<in> set files. zf_Name f = en_Path e \<and> en_Path e = zip_innerPath p @ en_Name e \<and> en_Size e = i64 (zf_UncompressedSize64 f)
    \<and> zip_ExtractFile te disp openZip r (en_Path e) w
      = (case zf_Open f of Inl _ \<Rightarrow> (Some (EMsg ''open entry''), w)
         | Inr c \<Rightarrow> (None, serve_entry te disp (mimeFromName te (zf_Name f)) f (fst c) w))"
proof -
  let ?ip = "zip_innerPath p"
  obtain es cs where l: "list_loop te ?ip files [] [] [] = (es, cs)" by force
  have "e \<in> fill_count cs ` set es" using zip_ListEntries_eq [of openZip r, OF assms(1) l] assms(2,3) by auto
  then obtain e0 where e0: "e0 \<in> set es" "e = fill_count cs e0" by blast
  with assms(4) have e: "e \<in> set es" by (simp add: fill_count_def split: if_splits)
  from list_loop_spec(4) [OF l, simplified, OF e] obtain pre f post deep where f: "files = pre @ f # post"
    "child_of ?ip f = Some (en_Name e, deep)" "e = make_entry te ?ip f (en_Name e) deep"
    "\<forall>g \<in> set pre. \<forall>d. child_of ?ip g \<noteq> Some (en_Name e, d)" by blast
  have "en_IsDir e \<longleftrightarrow> deep \<or> HasSuffix (zf_Name f) ''/''" by (subst f(3)) (simp add: make_entry_def)
  with assms(4) have deep: "\<not> deep" and nosuf: "\<not> HasSuffix (zf_Name f) ''/''" by simp_all
  have c: "CHR ''/'' \<notin> set (en_Name e)" "zf_Name f = ?ip @ en_Name e" "en_Name e \<noteq> ''''"
    using f(2) deep nosuf unfolding child_of_iff by (auto simp: HasSuffix_iff)
  have path: "en_Path e = zf_Name f" "en_Size e = i64 (zf_UncompressedSize64 f)"
    by (subst f(3), use deep nosuf c(2) in \<open>simp add: make_entry_def TrimSuffix_def\<close>)+
  have "TrimSuffix (zf_Name g) ''/'' \<noteq> zf_Name f" if "g \<in> set pre" for g
  proof
    assume "TrimSuffix (zf_Name g) ''/'' = zf_Name f"
    then have "zf_Name g = zf_Name f \<or> zf_Name g = zf_Name f @ ''/''" by (cases "HasSuffix (zf_Name g) ''/''") (auto simp: TrimSuffix_def HasSuffix_iff)
    then have "child_of ?ip g = Some (en_Name e, False)" using c by (auto simp: child_of_iff)
    with f(4) that show False by blast
  qed
  then have "extract_loop te disp (pre @ f # post) (zf_Name f) w = extract_loop te disp (f # post) (zf_Name f) w"
    by (induction pre) auto
  moreover have "\<not> zf_IsDir f" using nosuf assms(6) f(1) by auto
  moreover have "TrimSuffix (zf_Name f) ''/'' = zf_Name f" using nosuf by (simp add: TrimSuffix_def)
  ultimately have "extract_loop te disp files (zf_Name f) w = (case zf_Open f of Inl _ \<Rightarrow> (Some (EMsg ''open entry''), w)
      | Inr c \<Rightarrow> (None, serve_entry te disp (mimeFromName te (zf_Name f)) f (fst c) w))"
    unfolding f(1) by (simp split: sum.splits prod.splits)
  then have "zip_ExtractFile te disp openZip r (en_Path e) w = (case zf_Open f of Inl _ \<Rightarrow> (Some (EMsg ''open entry''), w)
      | Inr c \<Rightarrow> (None, serve_entry te disp (mimeFromName te (zf_Name f)) f (fst c) w))"
    using assms(1,5) path(1) by (simp add: zip_ExtractFile_def TrimPrefix_def)
  then show ?thesis using f(1) path c(2) by (intro bexI [of _ f]) auto
qed

section \<open>Pages and covers\<close>

lemma metadata_loop_pages: "snd (metadata_loop P fs ci n) = n + length (comic_images fs)"
  by (induction fs arbitrary: ci n) (simp_all add: comic_images_def Let_def)

lemma metadata_loop_Some: "fst (metadata_loop P fs (Some i) n) = Some i"
  by (induction fs arbitrary: n) (simp_all add: Let_def)

text \<open>The metadata are those of the first file of the archive that has the name and parses.\<close>

lemma metadata_loop_first:
  "fst (metadata_loop P fs None n) = (case filter (\<lambda>f. \<not> zf_IsDir f \<and> try_names P (path_Base (zf_Name f)) f comicInfoNames \<noteq> None) fs of
     [] \<Rightarrow> None | f # _ \<Rightarrow> try_names P (path_Base (zf_Name f)) f comicInfoNames)"
  by (induction fs arbitrary: n)
    (auto simp: Let_def metadata_loop_Some simp del: try_names.simps split: option.splits list.splits)

text \<open>
  A comic. The number of pages is the number of images in the archive; and if there is one, the cover is the image with the least name, without
  regard to case.
\<close>

theorem comic_metadata_cover:
  assumes "openZip r = Inr files"
  shows "(\<exists>m. GetMetadata P openZip r = Inr m
      \<and> md_TotalPages m = length (filter (\<lambda>f. \<not> zf_IsDir f \<and> isImageExt (Ext (zf_Name f))) files))
    \<and> (if \<exists>f \<in> set files. \<not> zf_IsDir f \<and> isImageExt (Ext (zf_Name f)) then
        \<exists>f \<in> set files. \<not> zf_IsDir f \<and> isImageExt (Ext (zf_Name f))
          \<and> (\<forall>g \<in> set files. \<not> zf_IsDir g \<and> isImageExt (Ext (zf_Name g)) \<longrightarrow> ToLower (zf_Name f) \<le> ToLower (zf_Name g))
          \<and> (\<forall>data bad. zf_Open f = Inr (data, bad) \<longrightarrow> fst (ExtractCover te disp openZip r w) = None
              \<and> hw_body (snd (ExtractCover te disp openZip r w)) = hw_body w @ [Data data])
       else ExtractCover te disp openZip r w = (Some (EMsg ''no image files found in archive''), w))"
proof -
  have m: "\<exists>m. GetMetadata P openZip r = Inr m
      \<and> md_TotalPages m = length (filter (\<lambda>f. \<not> zf_IsDir f \<and> isImageExt (Ext (zf_Name f))) files)"
    using assms metadata_loop_pages [of P files None 0]
    by (cases "metadata_loop P files None 0") (simp add: GetMetadata_def comic_images_def)
  show ?thesis
  proof (cases "comic_images files")
    case Nil
    then have "set (comic_images files) = {}" by simp
    then have "\<not> (\<exists>f \<in> set files. \<not> zf_IsDir f \<and> isImageExt (Ext (zf_Name f)))" by (auto simp: comic_images_def)
    then show ?thesis using m Nil assms by (auto simp: ExtractCover_def)
  next
    case (Cons f fs)
    have "sorted (map (\<lambda>f. ToLower (zf_Name f)) (comic_images files))" by (simp add: comic_images_def)
    with Cons have least: "\<forall>g \<in> set (comic_images files). ToLower (zf_Name f) \<le> ToLower (zf_Name g)" by auto
    have set: "set (comic_images files) = {f \<in> set files. \<not> zf_IsDir f \<and> isImageExt (Ext (zf_Name f))}" by (auto simp: comic_images_def)
    then have f: "f \<in> set files \<and> \<not> zf_IsDir f \<and> isImageExt (Ext (zf_Name f))" using Cons by auto
    have "fst (ExtractCover te disp openZip r w) = None \<and> hw_body (snd (ExtractCover te disp openZip r w)) = hw_body w @ [Data data]"
      if "zf_Open f = Inr (data, bad)" for data bad
      using that assms Cons by (simp add: ExtractCover_def serve_entry_def Let_def)
    with m f least show ?thesis unfolding set by auto
  qed
qed

section \<open>An archive\<close>

definition demo_zip :: "zip_file list" where
  "demo_zip = [
     \<lparr> zf_Name = ''a/'', zf_UncompressedSize64 = 0, zf_CompressedSize64 = 0, zf_Modified = ''t'', zf_IsDir = True, zf_Open = Inr ([], False) \<rparr>,
     \<lparr> zf_Name = ''a/p2.JPG'', zf_UncompressedSize64 = 2, zf_CompressedSize64 = 1, zf_Modified = ''t'', zf_IsDir = False, zf_Open = Inr ([1, 2], False) \<rparr>,
     \<lparr> zf_Name = ''a/b/c'', zf_UncompressedSize64 = 1, zf_CompressedSize64 = 1, zf_Modified = ''t'', zf_IsDir = False, zf_Open = Inr ([3], False) \<rparr>,
     \<lparr> zf_Name = ''a/P1.png'', zf_UncompressedSize64 = 1, zf_CompressedSize64 = 1, zf_Modified = ''t'', zf_IsDir = False, zf_Open = Inr ([4], False) \<rparr>]"

lemma demo_zip_list:
  "map_option (\<lambda>l. map (\<lambda>e. (en_Name e, en_Path e, en_IsDir e, en_ChildCount e)) (lr_Entries l))
     (case zip_ListEntries (\<lambda>_. ''m'') (\<lambda>_. Inr demo_zip) [] ''/a'' of Inl _ \<Rightarrow> None | Inr l \<Rightarrow> Some l)
   = Some [(''b'', ''a/b'', True, 1), (''P1.png'', ''a/P1.png'', False, 0), (''p2.JPG'', ''a/p2.JPG'', False, 0)]"
  by code_simp

theorem zip_ListEntries_exact_witness:
  "\<exists>l. zip_ListEntries (\<lambda>_. ''m'') (\<lambda>_. Inr demo_zip) [] ''/a'' = Inr l \<and> en_Name ` set (lr_Entries l) = {''b'', ''P1.png'', ''p2.JPG''}
    \<and> distinct (map en_Name (lr_Entries l))"
proof -
  obtain l where l: "zip_ListEntries (\<lambda>_. ''m'') (\<lambda>_. Inr demo_zip) [] ''/a'' = Inr l" "distinct (map en_Name (lr_Entries l))"
    using zip_ListEntries_exact [of "\<lambda>_. Inr demo_zip" "[]" demo_zip "\<lambda>_. ''m''" "''/a''"] by blast
  with demo_zip_list have "map (\<lambda>e. (en_Name e, en_Path e, en_IsDir e, en_ChildCount e)) (lr_Entries l)
      = [(''b'', ''a/b'', True, 1), (''P1.png'', ''a/P1.png'', False, 0), (''p2.JPG'', ''a/p2.JPG'', False, 0)]" by simp
  then have "map fst (map (\<lambda>e. (en_Name e, en_Path e, en_IsDir e, en_ChildCount e)) (lr_Entries l)) = [''b'', ''P1.png'', ''p2.JPG'']" by simp
  then have "map en_Name (lr_Entries l) = [''b'', ''P1.png'', ''p2.JPG'']" by (simp add: comp_def)
  then have "set (map en_Name (lr_Entries l)) = {''b'', ''P1.png'', ''p2.JPG''}" by (simp only: set_simps)
  with l show ?thesis by auto
qed

lemma map_eq_mem: "map f xs = ys \<Longrightarrow> y \<in> set ys \<Longrightarrow> \<exists>x \<in> set xs. f x = y"
  by auto

theorem zip_listed_extracts_witness:
  "\<exists>l e. zip_ListEntries (\<lambda>_. ''m'') (\<lambda>_. Inr demo_zip) [] ''/a'' = Inr l \<and> e \<in> set (lr_Entries l) \<and> en_Path e = ''a/P1.png''
    \<and> fst (zip_ExtractFile (\<lambda>_. ''m'') (\<lambda>a b. b) (\<lambda>_. Inr demo_zip) [] (en_Path e) new_writer) = None"
proof -
  obtain l where l: "zip_ListEntries (\<lambda>_. ''m'') (\<lambda>_. Inr demo_zip) [] ''/a'' = Inr l"
    using demo_zip_list by (cases "zip_ListEntries (\<lambda>_. ''m'') (\<lambda>_. Inr demo_zip) [] ''/a''") auto
  with demo_zip_list have m: "map (\<lambda>e. (en_Name e, en_Path e, en_IsDir e, en_ChildCount e)) (lr_Entries l)
      = [(''b'', ''a/b'', True, 1), (''P1.png'', ''a/P1.png'', False, 0), (''p2.JPG'', ''a/p2.JPG'', False, 0)]" by simp
  have "\<exists>e \<in> set (lr_Entries l). (en_Name e, en_Path e, en_IsDir e, en_ChildCount e) = (''P1.png'', ''a/P1.png'', False, 0)"
    by (rule map_eq_mem [OF m]) simp
  then obtain e where e: "e \<in> set (lr_Entries l)" "en_Path e = ''a/P1.png''" "\<not> en_IsDir e" by auto
  have p: "\<not> HasPrefix (en_Path e) ''/''" "\<forall>f \<in> set demo_zip. zf_IsDir f \<longrightarrow> HasSuffix (zf_Name f) ''/''"
    by (simp_all add: e(2) go_str demo_zip_def)
  from zip_listed_extracts [OF refl l e(1,3) p] obtain f where f: "f \<in> set demo_zip"
      "zip_ExtractFile (\<lambda>_. ''m'') (\<lambda>a b. b) (\<lambda>_. Inr demo_zip) [] (en_Path e) new_writer
        = (case zf_Open f of Inl _ \<Rightarrow> (Some (EMsg ''open entry''), new_writer)
         | Inr c \<Rightarrow> (None, serve_entry (\<lambda>_. ''m'') (\<lambda>a b. b) (mimeFromName (\<lambda>_. ''m'') (zf_Name f)) f (fst c) new_writer))"
    by blast
  then have "\<exists>c. zf_Open f = Inr c" by (auto simp: demo_zip_def)
  with f(2) have "fst (zip_ExtractFile (\<lambda>_. ''m'') (\<lambda>a b. b) (\<lambda>_. Inr demo_zip) [] (en_Path e) new_writer) = None" by auto
  with l e show ?thesis by blast
qed

theorem comic_metadata_cover_witness:
  "\<exists>m. GetMetadata (\<lambda>_. Inl (EMsg ''xml'') :: svc_err + unit) (\<lambda>_. Inr demo_zip) [] = Inr m \<and> md_TotalPages m = 2"
proof -
  have "length (filter (\<lambda>f. \<not> zf_IsDir f \<and> isImageExt (Ext (zf_Name f))) demo_zip) = 2" by code_simp
  then show ?thesis
    using comic_metadata_cover [of "\<lambda>_. Inr demo_zip" "[]" demo_zip "\<lambda>_. Inl (EMsg ''xml'') :: svc_err + unit"] by auto
qed

end
