(* ===== verification/UnityPackage.thy ===== *)
theory UnityPackage
  imports ZipBrowse
begin

text \<open>
  Looking into \<open>.unitypackage\<close> files (internal/unitypkgbrowse): tar archives in which each asset is a folder named by its guid, with a
  file \<open>pathname\<close> that says where the asset belongs. The tar reader is the list of the entries it gives, with the error it ends
  with if it does not end with the archive. The records are kept in the order they appear; the code iterates over them in the
  order of a map.
\<close>

section \<open>Paths\<close>

definition clean_step :: "bool \<Rightarrow> string list \<Rightarrow> string \<Rightarrow> string list" where
  "clean_step rtd acc c =
     (if c = '''' \<or> c = ''.'' then acc
      else if c = ''..'' then
        (if acc \<noteq> [] \<and> last acc \<noteq> ''..'' then butlast acc else if rtd then acc else acc @ [''..''])
      else acc @ [c])"

text \<open>\<open>path.Clean\<close> and \<open>path.Dir\<close>.\<close>

definition path_Clean :: "string \<Rightarrow> string" where
  "path_Clean p =
     (if p = '''' then ''.''
      else let rtd = HasPrefix p ''/''; s = Join (foldl (clean_step rtd) [] (Split p CHR ''/'')) ''/''
        in if rtd then ''/'' @ s else if s = '''' then ''.'' else s)"

definition dir_part :: "string \<Rightarrow> string" where
  "dir_part p = rev (dropWhile (\<lambda>c. c \<noteq> CHR ''/'') (rev p))"

definition path_Dir :: "string \<Rightarrow> string" where
  "path_Dir p = path_Clean (dir_part p)"

lemma clean_steps_length:
  "sum_list (map (\<lambda>c. Suc (length c)) (foldl (clean_step rtd) acc cs))
     \<le> sum_list (map (\<lambda>c. Suc (length c)) acc) + sum_list (map (\<lambda>c. if c = '''' then 0 else Suc (length c)) cs)"
proof (induction cs arbitrary: acc)
  case (Cons c cs)
  have "sum_list (map (\<lambda>c. Suc (length c)) (butlast acc)) \<le> sum_list (map (\<lambda>c. Suc (length c)) acc)"
    by (cases acc rule: rev_cases) simp_all
  then have "sum_list (map (\<lambda>c. Suc (length c)) (clean_step rtd acc c))
      \<le> sum_list (map (\<lambda>c. Suc (length c)) acc) + (if c = '''' then 0 else Suc (length c))"
    by (auto simp: clean_step_def)
  with Cons.IH [of "clean_step rtd acc c"] show ?case by simp
qed simp

lemma length_Join: "ws \<noteq> [] \<Longrightarrow> Suc (length (Join ws [x])) = sum_list (map (\<lambda>c. Suc (length c)) ws)"
  by (induction ws "[x]" rule: Join.induct) auto

lemma Split_lengths: "sum_list (map (\<lambda>c. Suc (length c)) (Split s c)) = Suc (length s)"
  using length_Join [of "Split s c" c] by (simp add: Join_Split)

lemma Split_snoc: "Split (s @ [c]) c = Split s c @ [[]]"
  by (induction s) (auto split: list.splits)

text \<open>Cleaning a path that ends in a slash makes it shorter, unless it becomes the root or the current directory.\<close>

lemma path_Clean_shorter:
  assumes "q = s @ ''/''" "path_Clean q \<notin> {''.'', ''/''}"
  shows "length (path_Clean q) < length q"
proof -
  let ?r = "HasPrefix q ''/''"
  let ?acc = "foldl (clean_step ?r) [] (Split q CHR ''/'')"
  let ?f = "\<lambda>c::string. if c = '''' then 0 else Suc (length c)"
  have split: "Split q CHR ''/'' = Split s CHR ''/'' @ ['''']" using assms(1) by (simp add: Split_snoc)
  define J where "J = Join ?acc ''/''"
  have q: "q \<noteq> ''''" using assms(1) by simp
  then have C: "path_Clean q = (if ?r then ''/'' @ J else if J = '''' then ''.'' else J)" by (simp add: path_Clean_def J_def Let_def)
  then have J: "J \<noteq> ''''" using assms(2) by (auto split: if_splits)
  then have acc: "?acc \<noteq> []" unfolding J_def by (cases ?acc) simp_all
  have b: "sum_list (map (\<lambda>c. Suc (length c)) ?acc) \<le> sum_list (map ?f (Split q CHR ''/''))"
    using clean_steps_length [of ?r "[]" "Split q CHR ''/''"] by simp
  have le: "sum_list (map ?f ws) \<le> sum_list (map (\<lambda>c. Suc (length c)) ws)" for ws by (induction ws) auto
  have c: "sum_list (map ?f (Split q CHR ''/'')) \<le> length s + (if ?r then 0 else 1)"
  proof (cases ?r)
    case False
    then show ?thesis using split le [of "Split s CHR ''/''"] Split_lengths [of s "CHR ''/''"] by simp
  next
    case True
    show ?thesis
    proof (cases s)
      case Nil
      then show ?thesis using split by simp
    next
      case (Cons x s')
      with True assms(1) have "Split s CHR ''/'' = [] # Split s' CHR ''/''" by (simp add: HasPrefix_def)
      then show ?thesis using split le [of "Split s' CHR ''/''"] Split_lengths [of s' "CHR ''/''"] Cons True by simp
    qed
  qed
  have "length (path_Clean q) = length J + (if ?r then 1 else 0)" using C J by simp
  moreover have "Suc (length J) \<le> length s + (if ?r then 0 else 1)"
    unfolding J_def using length_Join [OF acc, of "CHR ''/''"] b c by simp
  ultimately show ?thesis using assms(1) by (simp split: if_splits)
qed

lemma dir_part_cases: "dir_part p = '''' \<or> (\<exists>s. dir_part p = s @ ''/'') \<and> length (dir_part p) \<le> length p"
proof (cases "dropWhile (\<lambda>c. c \<noteq> CHR ''/'') (rev p)")
  case Nil
  then show ?thesis by (simp add: dir_part_def)
next
  case (Cons x xs)
  then have "x = CHR ''/''" using hd_dropWhile [of "\<lambda>c. c \<noteq> CHR ''/''" "rev p"] by simp
  with Cons have "dir_part p = rev xs @ ''/''" by (simp add: dir_part_def)
  moreover have "length (dir_part p) \<le> length p" using length_dropWhile_le [of "\<lambda>c. c \<noteq> CHR ''/''" "rev p"] by (simp add: dir_part_def)
  ultimately show ?thesis by blast
qed

lemma path_Dir_shorter:
  assumes "path_Dir d \<notin> {''.'', ''/''}"
  shows "length (path_Dir d) < length d"
proof -
  from assms have "dir_part d \<noteq> ''''" by (auto simp: path_Dir_def path_Clean_def)
  then obtain s where s: "dir_part d = s @ ''/''" "length (dir_part d) \<le> length d" using dir_part_cases [of d] by blast
  show ?thesis using path_Clean_shorter [OF s(1)] assms s(2) by (simp add: path_Dir_def)
qed

text \<open>The loop that registers the directories above a path ends.\<close>

function parent_dirs :: "string \<Rightarrow> string list" where
  "parent_dirs d = (if d = ''.'' \<or> d = ''/'' then [] else d # parent_dirs (path_Dir d))"
  by pat_completeness auto

termination
proof (relation "measure (\<lambda>d. if d = ''.'' \<or> d = ''/'' then 0 else Suc (length d))")
  fix d :: string assume "\<not> (d = ''.'' \<or> d = ''/'')"
  then show "(path_Dir d, d) \<in> measure (\<lambda>d. if d = ''.'' \<or> d = ''/'' then 0 else Suc (length d))"
    using path_Dir_shorter [of d] by auto
qed simp

declare parent_dirs.simps [simp del]

section \<open>Reading a package\<close>

record tar_entry =
  ta_Name :: string
  ta_Size :: int
  ta_Data :: bytes

type_synonym tar_reader = "bytes \<Rightarrow> svc_err + tar_entry list \<times> svc_err option"

record assetRecord =
  as_pathname :: string
  as_size :: int

definition raw_string :: "bytes \<Rightarrow> string" where
  "raw_string bs = map (\<lambda>b. char_of (unat b)) bs"

definition is_space :: "char \<Rightarrow> bool" where
  "is_space c \<longleftrightarrow> (of_char c :: nat) \<in> {9, 10, 11, 12, 13, 32}"

definition TrimSpace :: "string \<Rightarrow> string" where
  "TrimSpace s = rev (dropWhile is_space (rev (dropWhile is_space s)))"

definition tar_parts :: "tar_entry \<Rightarrow> string list" where
  "tar_parts e = SplitN2 (TrimPrefix (ta_Name e) ''./'') CHR ''/''"

definition entry_pathname :: "tar_entry \<Rightarrow> string" where
  "entry_pathname e = TrimSpace (raw_string (take 4096 (ta_Data e)))"

fun put_record :: "string \<Rightarrow> (assetRecord \<Rightarrow> assetRecord) \<Rightarrow> (string \<times> assetRecord) list \<Rightarrow> (string \<times> assetRecord) list" where
  "put_record guid upd [] = [(guid, upd \<lparr> as_pathname = '''', as_size = 0 \<rparr>)]"
| "put_record guid upd ((g, rec) # rs) = (if g = guid then (g, upd rec) # rs else (g, rec) # put_record guid upd rs)"

fun parse_loop :: "tar_entry list \<Rightarrow> (string \<times> assetRecord) list \<Rightarrow> (string \<times> assetRecord) list" where
  "parse_loop [] records = records"
| "parse_loop (e # es) records =
     (let parts = tar_parts e in
      if length parts < 2 then parse_loop es records
      else
        let leaf = parts ! 1;
            upd = (if leaf = ''pathname'' then as_pathname_update (\<lambda>_. entry_pathname e)
                   else if leaf = ''asset'' then as_size_update (\<lambda>_. ta_Size e) else (\<lambda>rec. rec))
        in parse_loop es (put_record (parts ! 0) upd records))"

definition parsePackage :: "tar_reader \<Rightarrow> bytes \<Rightarrow> svc_err + (string \<times> assetRecord) list" where
  "parsePackage tgz data =
     (case tgz data of
        Inl e \<Rightarrow> Inl e
      | Inr (es, Some e) \<Rightarrow> Inl e
      | Inr (es, None) \<Rightarrow> Inr (parse_loop es []))"

section \<open>Listing\<close>

fun dir_add :: "string \<Rightarrow> nat \<Rightarrow> (string \<times> nat) list \<Rightarrow> (string \<times> nat) list" where
  "dir_add d n [] = [(d, n)]"
| "dir_add d n ((e, m) # ds) = (if e = d then (e, m + n) # ds else (e, m) # dir_add d n ds)"

definition unity_innerPath :: "string \<Rightarrow> string" where
  "unity_innerPath innerPath = (let innerPath = TrimC innerPath CHR ''/'' in if innerPath = '''' then ''.'' else innerPath)"

definition unity_rel :: "string \<Rightarrow> string \<Rightarrow> string option" where
  "unity_rel innerPath p =
     (if innerPath = ''.'' then Some p
      else if HasPrefix p (innerPath @ ''/'') then Some (TrimPrefix p (innerPath @ ''/''))
      else None)"

definition asset_entry :: "(string \<Rightarrow> string) \<Rightarrow> assetRecord \<Rightarrow> Entry" where
  "asset_entry typeByExtension rec =
     (let p = as_pathname rec; ext = ToLower (Ext p); mt = typeByExtension ext
      in \<lparr> en_Name = path_Base p, en_Path = p, en_Size = as_size rec, en_CompressedSz = 0, en_IsDir = False, en_Modified = '''',
           en_MimeType = (if mt = '''' \<and> ext \<noteq> '''' then defaultContentType else mt), en_ChildCount = 0 \<rparr>)"

fun unity_loop ::
    "(string \<Rightarrow> string) \<Rightarrow> string \<Rightarrow> assetRecord list \<Rightarrow> (string \<times> nat) list \<Rightarrow> Entry list \<Rightarrow> (string \<times> nat) list \<times> Entry list" where
  "unity_loop typeByExtension innerPath [] dirs entries = (dirs, entries)"
| "unity_loop typeByExtension innerPath (rec # rs) dirs entries =
     (if as_pathname rec = '''' then unity_loop typeByExtension innerPath rs dirs entries
      else
        let p = as_pathname rec;
            dirs = foldl (\<lambda>ds d. dir_add d 0 ds) dirs (parent_dirs (path_Dir p))
        in (case unity_rel innerPath p of
              None \<Rightarrow> unity_loop typeByExtension innerPath rs dirs entries
            | Some rel \<Rightarrow>
                (case Index rel CHR ''/'' of
                   Some idx \<Rightarrow>
                     let dirName = take idx rel; dirPath = (if innerPath = ''.'' then dirName else innerPath @ ''/'' @ dirName)
                     in unity_loop typeByExtension innerPath rs (dir_add dirPath 1 dirs) entries
                 | None \<Rightarrow> unity_loop typeByExtension innerPath rs dirs (entries @ [asset_entry typeByExtension rec]))))"

definition level_dirs :: "string \<Rightarrow> (string \<times> nat) list \<Rightarrow> Entry list" where
  "level_dirs innerPath dirs =
     map (\<lambda>(dp, n). \<lparr> en_Name = path_Base dp, en_Path = dp, en_Size = 0, en_CompressedSz = 0, en_IsDir = True, en_Modified = '''',
            en_MimeType = '''', en_ChildCount = n \<rparr>)
       (filter (\<lambda>(dp, n). let dirParent = path_Dir dp; dirParent = (if dirParent = ''.'' \<or> dirParent = ''/'' then ''.'' else dirParent)
                          in dirParent = innerPath) dirs)"

definition unity_ListEntries :: "(string \<Rightarrow> string) \<Rightarrow> tar_reader \<Rightarrow> bytes \<Rightarrow> string \<Rightarrow> svc_err + ListResponse" where
  "unity_ListEntries typeByExtension tgz data innerPath =
     (case parsePackage tgz data of
        Inl e \<Rightarrow> Inl e
      | Inr records \<Rightarrow>
          let innerPath = unity_innerPath innerPath in
          (case unity_loop typeByExtension innerPath (map snd records) [] [] of
             (dirs, entries) \<Rightarrow>
               let entries = sort_entries (entries @ level_dirs innerPath dirs)
               in Inr \<lparr> lr_Entries = entries, lr_Total = length entries, lr_ZipPath = (if innerPath = ''.'' then ''/'' else innerPath) \<rparr>))"

section \<open>Extracting\<close>

text \<open>The first pass stops at any error: the guid of the last entry that says the path.\<close>

definition find_guid :: "tar_entry list \<Rightarrow> string \<Rightarrow> string option" where
  "find_guid es innerPath =
     foldl (\<lambda>g e. let parts = tar_parts e in
              if length parts = 2 \<and> parts ! 1 = ''pathname'' \<and> entry_pathname e = innerPath then Some (parts ! 0) else g) None es"

fun find_asset :: "string \<Rightarrow> tar_entry list \<Rightarrow> bytes option" where
  "find_asset guid [] = None"
| "find_asset guid (e # es) =
     (let parts = tar_parts e in
      if length parts = 2 \<and> parts ! 0 = guid \<and> parts ! 1 = ''asset'' then Some (ta_Data e) else find_asset guid es)"

definition unity_ExtractFile :: "tar_reader \<Rightarrow> bytes \<Rightarrow> string \<Rightarrow> svc_err + bytes" where
  "unity_ExtractFile tgz data innerPath =
     (case tgz data of
        Inl e \<Rightarrow> Inl e
      | Inr (es, err) \<Rightarrow>
          (case find_guid es innerPath of
             None \<Rightarrow> Inl (EMsg ''unexpected EOF'')
           | Some guid \<Rightarrow>
               (case find_asset guid es of
                  Some bs \<Rightarrow> Inr bs
                | None \<Rightarrow> Inl (case err of None \<Rightarrow> EMsg ''EOF'' | Some e \<Rightarrow> e))))"

section \<open>What is listed is what is extracted\<close>

lemma tar_parts_cases: "(\<exists>g leaf. tar_parts e = [g, leaf]) \<or> (\<exists>g. tar_parts e = [g])"
  by (auto simp: tar_parts_def SplitN2_def split: option.split)

lemma foldl_last:
  "foldl (\<lambda>x e. if P e then f e else x) x es = (if filter P es = [] then x else f (last (filter P es)))"
  by (induction es arbitrary: x) auto

text \<open>What the records say of a guid.\<close>

definition record_of :: "(string \<times> assetRecord) list \<Rightarrow> string \<Rightarrow> assetRecord" where
  "record_of rs g = (case map_of rs g of None \<Rightarrow> \<lparr> as_pathname = '''', as_size = 0 \<rparr> | Some r \<Rightarrow> r)"

lemma put_record_keys: "fst ` set (put_record g upd rs) = insert g (fst ` set rs)"
proof (induction rs)
  case (Cons r rs)
  then show ?case by (cases r; cases "fst r = g") (simp_all add: insert_commute)
qed simp

lemma put_record_distinct: "distinct (map fst rs) \<Longrightarrow> distinct (map fst (put_record g upd rs))"
proof (induction rs)
  case (Cons r rs)
  then show ?case using put_record_keys [of g upd rs] by (cases r) auto
qed simp

lemma record_of_put: "record_of (put_record g upd rs) h = (if h = g then upd (record_of rs g) else record_of rs h)"
  by (induction rs) (auto simp: record_of_def)

lemma parse_loop_distinct: "distinct (map fst rs) \<Longrightarrow> distinct (map fst (parse_loop es rs))"
  by (induction es arbitrary: rs) (simp_all add: Let_def put_record_distinct)

lemma parse_loop_record:
  "as_pathname (record_of (parse_loop es rs) g)
     = foldl (\<lambda>x e. if tar_parts e = [g, ''pathname''] then entry_pathname e else x) (as_pathname (record_of rs g)) es"
  "as_size (record_of (parse_loop es rs) g)
     = foldl (\<lambda>x e. if tar_parts e = [g, ''asset''] then ta_Size e else x) (as_size (record_of rs g)) es"
proof (induction es arbitrary: rs)
  case (Cons e es)
  {
    case 1
    then show ?case using Cons.IH tar_parts_cases [of e] by (auto simp: Let_def record_of_put)
  next
    case 2
    then show ?case using Cons.IH tar_parts_cases [of e] by (auto simp: Let_def record_of_put)
  }
qed simp_all

lemma unity_loop_entries:
  "set (snd (unity_loop te ip rs dirs entries)) \<subseteq> set entries \<union> asset_entry te ` {rec \<in> set rs. as_pathname rec \<noteq> ''''}"
proof (induction rs arbitrary: dirs entries)
  case (Cons r rs)
  let ?S = "asset_entry te ` {rec \<in> set (r # rs). as_pathname rec \<noteq> ''''}"
  have sub: "set (snd (unity_loop te ip rs d es)) \<subseteq> set es \<union> ?S" for d es using Cons.IH [of d es] by auto
  have "set (snd (unity_loop te ip rs d (entries @ [asset_entry te r]))) \<subseteq> set entries \<union> ?S" if "as_pathname r \<noteq> ''''" for d
    using sub [of d "entries @ [asset_entry te r]"] that by auto
  then show ?case using sub [of _ entries] by (simp add: Let_def split: option.splits)
qed simp

lemma filter_parts:
  assumes "distinct (map tar_parts es)" "a \<in> set es"
  shows "filter (\<lambda>e. tar_parts e = tar_parts a) es = [a]"
  using assms
proof (induction es)
  case (Cons e es)
  show ?case
  proof (cases "a = e")
    case True
    then have "\<forall>x \<in> set es. tar_parts x \<noteq> tar_parts a" using Cons.prems by (force simp: image_iff)
    then show ?thesis using True by simp
  next
    case False
    then have "tar_parts e \<noteq> tar_parts a" using Cons.prems by auto
    then show ?thesis using Cons False by simp
  qed
qed simp

lemma find_asset_filter:
  "find_asset g es = (case filter (\<lambda>e. tar_parts e = [g, ''asset'']) es of [] \<Rightarrow> None | e # _ \<Rightarrow> Some (ta_Data e))"
proof (induction es)
  case (Cons e es)
  then show ?case using tar_parts_cases [of e] by auto
qed simp

text \<open>
  What is listed is what is extracted. In an archive whose entries have different names and whose assets have different paths, extracting a path
  listed as a file gives the content of the asset of that path, whose size was listed; an asset without content, such as a
  folder of Unity, is listed as a file of size 0 and extracting it is an error.
\<close>

theorem unity_listed_extracts:
  assumes tgz: "tgz data = Inr (es, None)" and d: "distinct (map tar_parts es)"
    and inj: "inj_on entry_pathname {e \<in> set es. \<exists>g. tar_parts e = [g, ''pathname'']}"
    and l: "unity_ListEntries te tgz data p = Inr l" "x \<in> set (lr_Entries l)" "\<not> en_IsDir x"
  shows "\<exists>g. (\<exists>e \<in> set es. tar_parts e = [g, ''pathname''] \<and> entry_pathname e = en_Path x)
    \<and> (if \<exists>a \<in> set es. tar_parts a = [g, ''asset'']
       then \<exists>a \<in> set es. tar_parts a = [g, ''asset''] \<and> en_Size x = ta_Size a \<and> unity_ExtractFile tgz data (en_Path x) = Inr (ta_Data a)
       else en_Size x = 0 \<and> unity_ExtractFile tgz data (en_Path x) = Inl (EMsg ''EOF''))"
proof -
  let ?rs = "parse_loop es []"
  obtain dirs entries where u: "unity_loop te (unity_innerPath p) (map snd ?rs) [] [] = (dirs, entries)" by force
  have "x \<in> set entries \<union> set (level_dirs (unity_innerPath p) dirs)"
    using l(1,2) tgz u by (auto simp: unity_ListEntries_def parsePackage_def Let_def)
  with l(3) have "x \<in> set entries" by (auto simp: level_dirs_def)
  then obtain g r where r: "(g, r) \<in> set ?rs" "as_pathname r \<noteq> ''''" "x = asset_entry te r"
    using unity_loop_entries [of te "unity_innerPath p" "map snd ?rs" "[]" "[]"] u by auto
  have "record_of ?rs g = r"
    using r(1) parse_loop_distinct [of "[]" es] by (simp add: record_of_def)
  then have path: "en_Path x = as_pathname (record_of ?rs g)" and size: "en_Size x = as_size (record_of ?rs g)"
    and ne: "as_pathname (record_of ?rs g) \<noteq> ''''" using r by (simp_all add: asset_entry_def Let_def)
  let ?P = "filter (\<lambda>e. tar_parts e = [g, ''pathname'']) es"
  have path': "en_Path x = (if ?P = [] then '''' else entry_pathname (last ?P))" unfolding path parse_loop_record(1) foldl_last
    by (simp add: record_of_def)
  with ne path have "?P \<noteq> []" by auto
  then have "last ?P \<in> set ?P" by (rule last_in_set)
  then obtain e where e: "e \<in> set es" "tar_parts e = [g, ''pathname'']" "entry_pathname e = en_Path x"
    using path' \<open>?P \<noteq> []\<close> by force
  let ?G = "\<lambda>e. (let parts = tar_parts e in length parts = 2 \<and> parts ! 1 = ''pathname'' \<and> entry_pathname e = en_Path x)"
  have "find_guid es (en_Path x) = foldl (\<lambda>h e. if ?G e then Some (tar_parts e ! 0) else h) None es"
    by (simp add: find_guid_def Let_def)
  also have "\<dots> = (if filter ?G es = [] then None else Some (tar_parts (last (filter ?G es)) ! 0))" by (rule foldl_last)
  also have "\<dots> = Some g"
  proof -
    have "e \<in> set (filter ?G es)" using e by simp
    then have G: "filter ?G es \<noteq> []" by (metis list.set(1) empty_iff)
    then have "last (filter ?G es) \<in> set (filter ?G es)" by (rule last_in_set)
    then obtain e' where e': "e' = last (filter ?G es)" "e' \<in> set es" "?G e'" by auto
    then have "\<exists>h. tar_parts e' = [h, ''pathname'']" using tar_parts_cases [of e'] by (auto simp: Let_def)
    moreover have "entry_pathname e' = entry_pathname e" using e'(3) e(3) by (simp add: Let_def)
    ultimately have "e' = e" using inj_onD [OF inj] e e'(2) by blast
    then show ?thesis using G e'(1) e(2) by simp
  qed
  finally have guid: "find_guid es (en_Path x) = Some g" .
  show ?thesis
  proof (cases "\<exists>a \<in> set es. tar_parts a = [g, ''asset'']")
    case True
    then obtain a where a: "a \<in> set es" "tar_parts a = [g, ''asset'']" by blast
    have f: "filter (\<lambda>e. tar_parts e = [g, ''asset'']) es = [a]" using filter_parts [OF d a(1)] a(2) by simp
    then have "en_Size x = ta_Size a" unfolding size parse_loop_record(2) foldl_last by simp
    moreover have "unity_ExtractFile tgz data (en_Path x) = Inr (ta_Data a)"
      by (simp add: unity_ExtractFile_def tgz guid find_asset_filter f)
    ultimately show ?thesis using e a by metis
  next
    case False
    then have f: "filter (\<lambda>e. tar_parts e = [g, ''asset'']) es = []" by (simp add: filter_empty_conv)
    then have "en_Size x = 0" unfolding size parse_loop_record(2) foldl_last by (simp add: record_of_def)
    moreover have "unity_ExtractFile tgz data (en_Path x) = Inl (EMsg ''EOF'')"
      by (simp add: unity_ExtractFile_def tgz guid find_asset_filter f)
    ultimately show ?thesis using e False by metis
  qed
qed

definition demo_pkg :: "tar_entry list" where
  "demo_pkg = [
     \<lparr> ta_Name = ''./g1/pathname'', ta_Size = 3, ta_Data = [65, 47, 120] \<rparr>,
     \<lparr> ta_Name = ''./g1/asset'', ta_Size = 2, ta_Data = [7, 8] \<rparr>,
     \<lparr> ta_Name = ''g2/pathname'', ta_Size = 2, ta_Data = [65, 10] \<rparr>]"

text \<open>The folder of the package is listed as a directory and as a file.\<close>

lemma demo_pkg_list:
  "map_option (\<lambda>l. map (\<lambda>e. (en_Path e, en_IsDir e, en_Size e)) (lr_Entries l))
     (case unity_ListEntries (\<lambda>_. '''') (\<lambda>_. Inr (demo_pkg, None)) [] '''' of Inl _ \<Rightarrow> None | Inr l \<Rightarrow> Some l)
   = Some [(''A'', True, 0), (''A'', False, 0)]"
  by code_simp

lemma demo_pkg_list_A:
  "map_option (\<lambda>l. map (\<lambda>e. (en_Path e, en_IsDir e, en_Size e)) (lr_Entries l))
     (case unity_ListEntries (\<lambda>_. '''') (\<lambda>_. Inr (demo_pkg, None)) [] ''A'' of Inl _ \<Rightarrow> None | Inr l \<Rightarrow> Some l)
   = Some [(''A/x'', False, 2)]"
  by code_simp

lemma demo_pkg_parts: "map tar_parts demo_pkg = [[''g1'', ''pathname''], [''g1'', ''asset''], [''g2'', ''pathname'']]"
  by code_simp

lemma demo_pkg_paths: "map entry_pathname demo_pkg = [''A/x'', raw_string [7, 8], ''A'']"
  by code_simp

theorem unity_listed_extracts_witness:
  "\<exists>l x. unity_ListEntries (\<lambda>_. '''') (\<lambda>_. Inr (demo_pkg, None)) [] ''A'' = Inr l \<and> x \<in> set (lr_Entries l) \<and> en_Path x = ''A/x''
    \<and> unity_ExtractFile (\<lambda>_. Inr (demo_pkg, None)) [] (en_Path x) = Inr [7, 8]"
proof -
  obtain l where l: "unity_ListEntries (\<lambda>_. '''') (\<lambda>_. Inr (demo_pkg, None)) [] ''A'' = Inr l"
    "map (\<lambda>e. (en_Path e, en_IsDir e, en_Size e)) (lr_Entries l) = [(''A/x'', False, 2)]"
    using demo_pkg_list_A by (cases "unity_ListEntries (\<lambda>_. '''') (\<lambda>_. Inr (demo_pkg, None)) [] ''A''") auto
  from map_eq_mem [OF l(2), of "(''A/x'', False, 2)"] obtain x where x: "x \<in> set (lr_Entries l)" "en_Path x = ''A/x''" "\<not> en_IsDir x"
    by auto
  have d: "distinct (map tar_parts demo_pkg)" unfolding demo_pkg_parts by simp
  obtain a b c where abc: "demo_pkg = [a, b, c]" and data: "ta_Data b = [7, 8]" by (simp add: demo_pkg_def)
  have parts: "tar_parts a = [''g1'', ''pathname'']" "tar_parts b = [''g1'', ''asset'']" "tar_parts c = [''g2'', ''pathname'']"
    "entry_pathname a = ''A/x''" "entry_pathname c = ''A''"
    using demo_pkg_parts demo_pkg_paths unfolding abc by auto
  have es: "set demo_pkg = {a, b, c}" by (simp add: abc)
  have inj: "inj_on entry_pathname {e \<in> set demo_pkg. \<exists>g. tar_parts e = [g, ''pathname'']}"
    unfolding es by (rule inj_onI) (auto simp: parts)
  from unity_listed_extracts [OF refl d inj l(1) x(1,3)] obtain g where g:
    "\<exists>e \<in> set demo_pkg. tar_parts e = [g, ''pathname''] \<and> entry_pathname e = en_Path x"
    "if \<exists>a \<in> set demo_pkg. tar_parts a = [g, ''asset'']
       then \<exists>a \<in> set demo_pkg. tar_parts a = [g, ''asset''] \<and> en_Size x = ta_Size a
          \<and> unity_ExtractFile (\<lambda>_. Inr (demo_pkg, None)) [] (en_Path x) = Inr (ta_Data a)
       else en_Size x = 0 \<and> unity_ExtractFile (\<lambda>_. Inr (demo_pkg, None)) [] (en_Path x) = Inl (EMsg ''EOF'')" by blast
  then have "g = ''g1''" unfolding es by (auto simp: parts x(2))
  with g(2) have "unity_ExtractFile (\<lambda>_. Inr (demo_pkg, None)) [] (en_Path x) = Inr [7, 8]"
    unfolding es by (auto simp: parts data split: if_splits)
  then show ?thesis using l x by auto
qed

end
