(* ===== verification/Archives.thy ===== *)
theory Archives
  imports UnityPackage
begin

text \<open>
  The handlers that look into archives (pkg/services/file_zip_browse.go, file_cbz_browse.go, file_unitypkg_browse.go): who
  asks, which row, the download of the whole file, and the listing, an entry, the metadata or the cover. \<open>None\<close> is a panic or a
  request that is never answered.
\<close>

section \<open>Session, row, download\<close>

definition resolveZipSession :: "'s stream_env \<Rightarrow> stream_request \<Rightarrow> app \<Rightarrow> (svc_err + int \<times> string) \<times> app" where
  "resolveZipSession env r a =
     (case rq_cookie r of
        None \<Rightarrow>
          if rq_hash r = '''' then (Inl (EMsg ''missing credentials''), a)
          else
            (case GetSessionByHash (rq_hash r) a of
               (Inl e, a) \<Rightarrow> (Inl (EMsg ''invalid hash''), a)
             | (Inr s, a) \<Rightarrow> (Inr (se_user s, se_session s), a))
      | Some cookie \<Rightarrow>
          (case VerifyUser (sn_parse env) (sn_secret env) cookie a of
             (Inl e, a) \<Rightarrow> (Inl (EMsg ''invalid token''), a)
           | (Inr user, a) \<Rightarrow> (Inr (subject_id (jc_subject user), jc_tgSession user), a)))"

text \<open>The query names the owner, but the key of the cache, which is the one \<open>FilesStream\<close> uses, does not.\<close>

definition getFileForZip :: "string \<Rightarrow> int \<Rightarrow> app \<Rightarrow> (svc_err + FileRow) \<times> app" where
  "getFileForZip fileId userId a =
     (let key = Key [VStr ''files'', VStr fileId] in
      case cm_Get key (app_cache a) of
        Inr (CFile f) \<Rightarrow> (Inr f, a)
      | Inr _ \<Rightarrow> (Inl ECache, a)
      | Inl CacheErr \<Rightarrow> (Inl ECache, a)
      | Inl CacheMiss \<Rightarrow>
          (case first_where (\<lambda>f. f_id f = fileId \<and> f_user f = userId) (sv_files (ap_svc a)) of
             None \<Rightarrow> (Inl ERecordNotFound, a)
           | Some f \<Rightarrow> (Inr f, app_Set key (CFile f) a)))"

text \<open>
  When the authorisation fails nothing is sent on the channel that is waited for. The copy runs on another goroutine after \<open>RunWithAuth\<close>
  returned; what its reads give is the reader's, errors included.
\<close>

definition downloadFullFile ::
    "'s stream_env \<Rightarrow> 'b selector \<Rightarrow> FileRow \<Rightarrow> int \<Rightarrow> string \<Rightarrow> app \<times> 'b \<Rightarrow> ((svc_err + bytes) \<times> app \<times> 'b) option" where
  "downloadFullFile env Next f userId session st =
     (case st of (a, b) \<Rightarrow>
       case BotTokens userId a of
         (Inl e, a) \<Rightarrow> Some (Inl (EMsg ''fetch bots''), a, b)
       | (Inr tokens, a) \<Rightarrow>
           Option.bind (stream_client env Next userId session (limit_tokens (sn_botsLimit env) tokens) b) (\<lambda>(client, b).
             case client of
               Inl e \<Rightarrow> Some (Inl (EMsg ''client init''), a, b)
             | Inr token \<Rightarrow>
                 if sn_runAuth env token \<noteq> None then None
                 else
                   Option.bind (sn_parts env f) (\<lambda>parts.
                     case parts of
                       Inl e \<Rightarrow> Some (Inl e, a, b)
                     | Inr parts \<Rightarrow>
                         (case f_size f of
                            None \<Rightarrow> None
                          | Some n \<Rightarrow>
                              Option.bind (NewReader (sn_open env f parts) (IsEncrypted f) parts 0 (n - 1)) (\<lambda>lr.
                                case lr of
                                  Inl e \<Rightarrow> Some (Inl (EMsg ''reader''), a, b)
                                | Inr lr \<Rightarrow>
                                    map_option (\<lambda>(bs, e, _). (case e of None \<Rightarrow> Inr bs | Some _ \<Rightarrow> Inl (EMsg ''copy''), a, b))
                                      (io_Copy (Reader_Read (sn_open env f parts) (sn_read env f)) (sn_buf env) [] lr))))))"

section \<open>The handlers\<close>

record 'i browse_env =
  be_EnableArchiveBrowsing :: bool
  be_EnableZipBrowsing :: bool
  be_EnableCbzBrowsing :: bool
  be_EnableUnityPkgBrowsing :: bool
  be_openZip :: "bytes \<Rightarrow> svc_err + zip_file list"
  be_tgz :: tar_reader
  be_ParseComicInfo :: "bytes \<Rightarrow> svc_err + 'i"
  be_list_json :: "ListResponse \<Rightarrow> bytes"
  be_meta_json :: "'i MetadataResponse \<Rightarrow> bytes"

text \<open>
  What all handlers have in common, with their messages, their answer for an empty file, whether they need a path, and what they do with the
  content.
\<close>

definition browse ::
    "'s stream_env \<Rightarrow> 'b selector \<Rightarrow> bool \<Rightarrow> string \<Rightarrow> http_writer \<Rightarrow> string \<Rightarrow> string option \<Rightarrow> string \<Rightarrow> (bytes \<Rightarrow> http_writer)
     \<Rightarrow> stream_request \<Rightarrow> string \<Rightarrow> app \<times> 'b \<Rightarrow> (http_writer \<times> app \<times> 'b) option" where
  "browse env Next enabled disabled nothing tooLarge path dlFailed act r fileId st =
     (case st of (a, b) \<Rightarrow>
       if \<not> enabled then Some (http_error (EMsg disabled) 403 new_writer, a, b)
       else
         (case resolveZipSession env r a of
            (Inl e, a) \<Rightarrow> Some (http_error e 401 new_writer, a, b)
          | (Inr (userId, session), a) \<Rightarrow>
              (case getFileForZip fileId userId a of
                 (Inl e, a) \<Rightarrow> Some (http_error (EMsg ''file not found'') 404 new_writer, a, b)
               | (Inr f, a) \<Rightarrow>
                   (case f_size f of
                      None \<Rightarrow> Some (nothing, a, b)
                    | Some n \<Rightarrow>
                        if n = 0 then Some (nothing, a, b)
                        else if n > 500 * 1024 * 1024 then Some (http_error (EMsg tooLarge) 416 new_writer, a, b)
                        else if path = Some '''' then Some (http_error (EMsg ''path parameter required'') 400 new_writer, a, b)
                        else
                          map_option (\<lambda>(buf, a, b). (case buf of Inl e \<Rightarrow> http_error (EMsg dlFailed) 500 new_writer | Inr d \<Rightarrow> act d, a, b))
                            (downloadFullFile env Next f userId session (a, b))))))"

definition list_response :: "'i browse_env \<Rightarrow> svc_err + ListResponse \<Rightarrow> http_writer" where
  "list_response be l =
     (case l of Inl e \<Rightarrow> http_error e 500 new_writer | Inr l \<Rightarrow> WriteJSON 200 (be_list_json be l) new_writer)"

definition no_entries :: "'i browse_env \<Rightarrow> http_writer" where
  "no_entries be = WriteJSON 200 (be_list_json be \<lparr> lr_Entries = [], lr_Total = 0, lr_ZipPath = '''' \<rparr>) new_writer"

definition empty_response :: http_writer where
  "empty_response = http_error (EMsg ''empty file'') 404 new_writer"

text \<open>An error after the response has begun is written into its body.\<close>

definition served :: "svc_err option \<times> http_writer \<Rightarrow> http_writer" where
  "served res = (case res of (None, w) \<Rightarrow> w | (Some e, w) \<Rightarrow> http_error e 404 w)"

definition ZipBrowse where
  "ZipBrowse env be Next r fileId innerPath st =
     browse env Next (be_EnableArchiveBrowsing be \<and> be_EnableZipBrowsing be) ''zip browsing is disabled'' (no_entries be)
       ''zip too large for browsing (max 500 MB)'' None ''failed to download zip''
       (\<lambda>d. list_response be (zip_ListEntries (sn_typeByExtension env) (be_openZip be) d innerPath)) r fileId st"

definition ZipExtract where
  "ZipExtract env be Next r fileId innerPath st =
     browse env Next (be_EnableArchiveBrowsing be \<and> be_EnableZipBrowsing be) ''zip browsing is disabled'' empty_response
       ''zip too large for extraction (max 500 MB)'' (Some innerPath) ''failed to download zip''
       (\<lambda>d. served (zip_ExtractFile (sn_typeByExtension env) (sn_disposition env) (be_openZip be) d innerPath new_writer)) r fileId st"

definition CbzBrowse where
  "CbzBrowse env be Next r fileId innerPath st =
     browse env Next (be_EnableArchiveBrowsing be \<and> be_EnableCbzBrowsing be) ''cbz browsing is disabled'' (no_entries be)
       ''cbz too large for browsing (max 500 MB)'' None ''failed to download cbz''
       (\<lambda>d. list_response be (zip_ListEntries (sn_typeByExtension env) (be_openZip be) d innerPath)) r fileId st"

definition CbzExtract where
  "CbzExtract env be Next r fileId innerPath st =
     browse env Next (be_EnableArchiveBrowsing be \<and> be_EnableCbzBrowsing be) ''cbz browsing is disabled'' empty_response
       ''cbz too large for extraction (max 500 MB)'' (Some innerPath) ''failed to download cbz''
       (\<lambda>d. served (zip_ExtractFile (sn_typeByExtension env) (sn_disposition env) (be_openZip be) d innerPath new_writer)) r fileId st"

definition CbzMetadata where
  "CbzMetadata env be Next r fileId st =
     browse env Next (be_EnableArchiveBrowsing be \<and> be_EnableCbzBrowsing be) ''cbz browsing is disabled''
       (WriteJSON 200 (be_meta_json be \<lparr> md_ComicInfo = None, md_TotalPages = 0 \<rparr>) new_writer)
       ''cbz too large for metadata extraction (max 500 MB)'' None ''failed to download cbz''
       (\<lambda>d. case GetMetadata (be_ParseComicInfo be) (be_openZip be) d of
              Inl e \<Rightarrow> http_error e 500 new_writer
            | Inr m \<Rightarrow> WriteJSON 200 (be_meta_json be m) new_writer) r fileId st"

definition CbzCover where
  "CbzCover env be Next r fileId st =
     browse env Next (be_EnableArchiveBrowsing be \<and> be_EnableCbzBrowsing be) ''cbz browsing is disabled'' empty_response
       ''cbz too large for cover extraction (max 500 MB)'' None ''failed to download cbz''
       (\<lambda>d. served (ExtractCover (sn_typeByExtension env) (sn_disposition env) (be_openZip be) d new_writer)) r fileId st"

definition UnityPkgBrowse where
  "UnityPkgBrowse env be Next r fileId innerPath st =
     browse env Next (be_EnableArchiveBrowsing be \<and> be_EnableUnityPkgBrowsing be) ''unitypackage browsing is disabled'' (no_entries be)
       ''unitypackage too large for browsing (max 500 MB)'' None ''failed to download unitypackage''
       (\<lambda>d. list_response be (unity_ListEntries (sn_typeByExtension env) (be_tgz be) d innerPath)) r fileId st"

definition UnityPkgExtract where
  "UnityPkgExtract env be Next r fileId innerPath st =
     browse env Next (be_EnableArchiveBrowsing be \<and> be_EnableUnityPkgBrowsing be) ''unitypackage browsing is disabled'' empty_response
       ''unitypackage too large for extraction (max 500 MB)'' (Some innerPath) ''failed to download unitypackage''
       (\<lambda>d. case unity_ExtractFile (be_tgz be) d innerPath of
              Inl e \<Rightarrow> http_error e 404 new_writer
            | Inr out \<Rightarrow> write_body (Data out) (set_header ''Content-Type'' ''application/octet-stream'' new_writer)) r fileId st"

section \<open>What a request gets\<close>

definition file_key :: "string \<Rightarrow> string" where
  "file_key i = Key [VStr ''files'', VStr i]"

lemma session_key: "''sessions:'' @ h \<noteq> file_key i"
  by (simp add: file_key_def Key_def)

lemma GetSessionByHash_files: "GetSessionByHash h a = (res, a') \<Longrightarrow> app_cache a' (file_key i) = app_cache a (file_key i)"
  using session_key [of h i]
  by (auto simp: GetSessionByHash_def Let_def split: sum.splits option.splits cval.splits)

lemma resolveZipSession_files:
  assumes "resolveZipSession env r a = (res, a')"
  shows "app_cache a' (file_key i) = app_cache a (file_key i)"
proof (cases "rq_cookie r")
  case None
  then show ?thesis using assms GetSessionByHash_files [of "rq_hash r" a _ _ i]
    by (cases "GetSessionByHash (rq_hash r) a") (auto simp: resolveZipSession_def split: if_splits sum.splits)
next
  case (Some cookie)
  show ?thesis
  proof (cases "Decode (sn_parse env) (sn_secret env) cookie")
    case (Inl e)
    then show ?thesis using assms Some by (auto simp: resolveZipSession_def VerifyUser_def)
  next
    case (Inr claims)
    then show ?thesis using assms Some GetSessionByHash_files [of "jc_hash claims" a _ _ i]
      by (cases "GetSessionByHash (jc_hash claims) a") (auto simp: resolveZipSession_def VerifyUser_def split: sum.splits)
  qed
qed

lemma downloadFullFile_content:
  assumes "serves_file env f d" "d \<noteq> []" "0 < sn_buf env" "BotTokens user a = (Inr tokens, a')"
    and "stream_client env Next user session (limit_tokens (sn_botsLimit env) tokens) b = Some (Inr token, b')" "sn_runAuth env token = None"
  shows "downloadFullFile env Next f user session (a, b) = Some (Inr d, a', b')"
proof -
  obtain parts plains where p: "sn_parts env f = Some (Inr parts)" "parts_serve env f parts plains" "d = concat plains"
    by (rule serves_file_parts [OF assms(1)])
  from p(2) obtain S content final invar work where u: "uniform_parts S plains" "parts \<noteq> []"
    and sz: "(if IsEncrypted f then DecryptedPartSize (parts ! 0) else PartSize (parts ! 0)) = int S"
    and src: "part_source (sn_read env f) content final invar work (sn_open env f parts) plains"
    unfolding parts_serve_def by blast
  have n: "f_size f = Some (int (length d))" using assms(1) by (simp add: serves_file_def)
  have "0 \<le> int (length d) - 1" "int (length d) - 1 < int (length (concat plains))" using assms(2) p(3) by (cases d; simp)+
  from part_source.NewReader_range [OF src u(1) _ this(1) this(2) u(2) sz assms(3)] obtain lr lr' where
    "NewReader (sn_open env f parts) (IsEncrypted f) parts 0 (int (length d) - 1) = Some (Inr lr)"
    "io_Copy (Reader_Read (sn_open env f parts) (sn_read env f)) (sn_buf env) [] lr
      = Some (go_slice 0 (nat (int (length d))) d, None, lr')" using p(3) by auto
  then show ?thesis using assms(4-6) p(1) n by (simp add: downloadFullFile_def go_slice_def)
qed

lemma browse_content:
  assumes "resolveZipSession env r a = (Inr (user, session), a1)" "getFileForZip fileId user a1 = (Inr f, a2)"
    and "serves_file env f d" "d \<noteq> []" "length d \<le> 500 * 1024 * 1024" "0 < sn_buf env" "path \<noteq> Some ''''"
    and "BotTokens user a2 = (Inr tokens, a')"
    and "stream_client env Next user session (limit_tokens (sn_botsLimit env) tokens) b = Some (Inr token, b')" "sn_runAuth env token = None"
  shows "browse env Next True disabled nothing tooLarge path dlFailed act r fileId (a, b) = Some (act d, a', b')"
proof -
  have "f_size f = Some (int (length d))" using assms(3) by (simp add: serves_file_def)
  moreover have "int (length d) \<noteq> 0" "\<not> int (length d) > 500 * 1024 * 1024" using assms(4,5) by simp_all
  ultimately show ?thesis
    using assms(1,2,7) downloadFullFile_content [where user = user, OF assms(3,4,6,8-10)] by (simp add: browse_def)
qed


text \<open>User 8 looks into the archive of user 7.\<close>

definition zip_app :: app where
  "zip_app = channel_app\<lparr> ap_svc := (ap_svc channel_app)\<lparr> sv_files := [file_7] \<rparr>,
     ap_sessions := [\<lparr> se_user = 8, se_hash = ''h'', se_date = 0, se_session = ''s'', se_created = 0 \<rparr>] \<rparr>"

definition browse_8 :: "unit browse_env" where
  "browse_8 = \<lparr> be_EnableArchiveBrowsing = True, be_EnableZipBrowsing = True, be_EnableCbzBrowsing = True, be_EnableUnityPkgBrowsing = True,
     be_openZip = (\<lambda>_. Inr demo_zip), be_tgz = (\<lambda>_. Inr ([], None)), be_ParseComicInfo = (\<lambda>_. Inl (EMsg ''xml'')),
     be_list_json = (\<lambda>l. replicate (lr_Total l) 0), be_meta_json = (\<lambda>_. []) \<rparr>"


end
