(* ===== verification/Check.thy ===== *)
theory Check
  imports FilesOps
begin

text \<open>
  The command \<open>teldrive check\<close> (cmd/check.go): it compares the rows of a user's files in a channel with the messages of the channel, marks
  incomplete files for deletion and deletes messages that belong to nothing. Colours, progress and the export file are left out;
  the channel is a function \<open>load\<close> that reads all messages, with the number the server gives, and \<open>del\<close>, which
  deletes some.
\<close>

section \<open>Loading the rows\<close>

record check_file =
  ck_ID :: string
  ck_Name :: string
  ck_Size :: int
  ck_Encrypted :: bool
  ck_Status :: string
  ck_Parts :: "api_Part list"

definition scan_file :: "FileRow \<Rightarrow> check_file" where
  "scan_file f = \<lparr> ck_ID = f_id f, ck_Name = f_name f, ck_Size = (case f_size f of None \<Rightarrow> 0 | Some n \<Rightarrow> n),
     ck_Encrypted = IsEncrypted f, ck_Status = f_status f, ck_Parts = (case f_parts f of None \<Rightarrow> [] | Some ps \<Rightarrow> ps) \<rparr>"

record check_config =
  cc_cleanPending :: bool
  cc_cleanUploads :: bool
  cc_dryRun :: bool

definition check_where :: "check_config \<Rightarrow> int \<Rightarrow> int \<Rightarrow> FileRow \<Rightarrow> bool" where
  "check_where cfg userId channelId f \<longleftrightarrow> f_user f = userId \<and> f_channel f = Some channelId \<and> f_type f = FILE
     \<and> (if cc_cleanPending cfg \<and> cc_dryRun cfg then f_status f = ACTIVE \<or> f_status f = PENDING else f_status f = ACTIVE)"

text \<open>The rows in the order of their ids, in batches after the last id; \<open>None\<close> is a loop that never ends.\<close>

partial_function (option) load_loop :: "nat \<Rightarrow> FileRow list \<Rightarrow> string \<Rightarrow> FileRow list \<Rightarrow> FileRow list option" where
  "load_loop batchSize rows lastID files =
     (let got = take batchSize (filter (\<lambda>f. lastID = '''' \<or> lastID < f_id f) (sort_key f_id rows)) in
      if got = [] then Some files
      else if length got < batchSize then Some (files @ got)
      else load_loop batchSize rows (f_id (last got)) (files @ got))"

definition loadFiles :: "check_config \<Rightarrow> int \<Rightarrow> int \<Rightarrow> FileRow list \<Rightarrow> check_file list option" where
  "loadFiles cfg userId channelId rows =
     (let rows = filter (check_where cfg userId channelId) rows in
      if length rows = 0 then Some [] else map_option (map scan_file) (load_loop 1000 rows '''' []))"

section \<open>Comparing\<close>

text \<open>The messages: their ids, and the size of the document if there is one.\<close>

type_synonym channel_msgs = "(int \<times> int option) list"

definition msg_map :: "int set \<Rightarrow> channel_msgs \<Rightarrow> int \<Rightarrow> int option" where
  "msg_map uploadParts msgs =
     foldl (\<lambda>m (i, doc). if i > 0 \<and> i \<notin> uploadParts then m(i \<mapsto> (case doc of None \<Rightarrow> 0 | Some n \<Rightarrow> n)) else m) (\<lambda>_. None) msgs"

text \<open>The loop over the parts of a file: whether one is missing, the size, and the ids seen.\<close>

fun scan_parts :: "(int \<Rightarrow> int option) \<Rightarrow> bool \<Rightarrow> api_Part list \<Rightarrow> int \<Rightarrow> int set \<Rightarrow> bool \<times> int \<times> int set" where
  "scan_parts msgMap enc [] sz allPartIDs = (False, sz, allPartIDs)"
| "scan_parts msgMap enc (p # ps) sz allPartIDs =
     (let allPartIDs = (if part_ID p \<noteq> 0 then insert (part_ID p) allPartIDs else allPartIDs) in
      case msgMap (part_ID p) of
        None \<Rightarrow> (True, sz, allPartIDs)
      | Some n \<Rightarrow> scan_parts msgMap enc ps (sz + (if enc then (case DecryptedSize n of Inl _ \<Rightarrow> 0 | Inr d \<Rightarrow> d) else n)) allPartIDs)"

text \<open>A file with a missing part whose size differs as well is listed twice.\<close>

fun scan_files :: "(int \<Rightarrow> int option) \<Rightarrow> check_file list \<Rightarrow> check_file list \<Rightarrow> int set \<Rightarrow> check_file list \<times> int set" where
  "scan_files msgMap [] missing allPartIDs = (missing, allPartIDs)"
| "scan_files msgMap (f # fs) missing allPartIDs =
     (case scan_parts msgMap (ck_Encrypted f) (ck_Parts f) 0 allPartIDs of
        (gone, sz, allPartIDs) \<Rightarrow>
          let missing = (if gone then missing @ [f] else missing);
              missing = (if sz \<noteq> ck_Size f then missing @ [f] else missing)
          in scan_files msgMap fs missing allPartIDs)"

section \<open>A channel\<close>

record check_report =
  cr_files :: "check_file list"
  cr_missing :: "check_file list"
  cr_orphans :: "int list"

definition channel_uploads :: "int \<Rightarrow> int \<Rightarrow> svc \<Rightarrow> int set" where
  "channel_uploads userId channelId s = u_partId ` {u \<in> set (sv_uploads s). u_user u = userId \<and> u_channel u = channelId}"

definition clean_uploads :: "int \<Rightarrow> int \<Rightarrow> svc \<Rightarrow> svc" where
  "clean_uploads userId channelId s = s\<lparr> sv_uploads := filter (\<lambda>u. \<not> (u_user u = userId \<and> u_channel u = channelId)) (sv_uploads s) \<rparr>"

definition clean_pending :: "int \<Rightarrow> int \<Rightarrow> svc \<Rightarrow> svc" where
  "clean_pending userId channelId s =
     cascade (filter (\<lambda>f. \<not> (f_user f = userId \<and> f_channel f = Some channelId \<and> f_status f = PENDING)) (sv_files s)) s"

text \<open>
  After the messages have been read: compare, mark the incomplete files, delete the orphans. The ids of \<open>msgMap\<close> come in the
  order of a Go map; here it is the order of the messages.
\<close>

definition check_finish ::
    "check_config \<Rightarrow> int \<Rightarrow> int \<Rightarrow> (int list \<Rightarrow> 's \<Rightarrow> svc_err option \<times> 's) \<Rightarrow> check_file list \<Rightarrow> channel_msgs \<Rightarrow> svc \<times> 's
     \<Rightarrow> ((svc_err + check_report) \<times> svc \<times> 's) option" where
  "check_finish cfg userId channelId del files msgs st =
     (case st of (s, srv) \<Rightarrow>
       let uploadParts = (if \<not> cc_dryRun cfg \<and> \<not> cc_cleanUploads cfg then channel_uploads userId channelId s else {});
           msgMap = msg_map uploadParts msgs
       in (case scan_files msgMap files [] {} of
         (missing, allPartIDs) \<Rightarrow>
           let orphans = filter (\<lambda>i. msgMap i \<noteq> None \<and> i \<noteq> 1 \<and> i \<notin> allPartIDs) (remdups (map fst msgs));
               s = (if cc_cleanPending cfg \<and> \<not> cc_dryRun cfg then clean_pending userId channelId s else s);
               report = \<lparr> cr_files = files, cr_missing = missing, cr_orphans = orphans \<rparr>
           in if cc_dryRun cfg then Some (Inr report, s, srv)
              else
                Option.bind (if missing = [] then Some s
                   else map_option (\<lambda>rows. cascade rows s) (deleteFilesBulk (sv_files s) (utils_Map missing ck_ID) userId)) (\<lambda>s.
                  if orphans = [] then Some (Inr report, s, srv)
                  else (case del orphans srv of
                          (Some e, srv) \<Rightarrow> Some (Inl e, s, srv)
                        | (None, srv) \<Rightarrow> Some (Inr report, s, srv)))))"

definition check_process ::
    "check_config \<Rightarrow> int \<Rightarrow> int \<Rightarrow> ('s \<Rightarrow> svc_err + channel_msgs \<times> int) \<Rightarrow> (int list \<Rightarrow> 's \<Rightarrow> svc_err option \<times> 's) \<Rightarrow> svc \<times> 's
     \<Rightarrow> ((svc_err + check_report) \<times> svc \<times> 's) option" where
  "check_process cfg userId channelId load del st =
     (case st of (s, srv) \<Rightarrow>
       let s = (if cc_cleanUploads cfg \<and> \<not> cc_dryRun cfg then clean_uploads userId channelId s else s) in
       Option.bind (loadFiles cfg userId channelId (sv_files s)) (\<lambda>files.
         case load srv of
           Inl e \<Rightarrow> Some (Inl e, s, srv)
         | Inr (msgs, total_msgs) \<Rightarrow>
             if total_msgs = 0 \<and> msgs = [] then Some (Inr \<lparr> cr_files = files, cr_missing = [], cr_orphans = [] \<rparr>, s, srv)
             else if int (length msgs) < total_msgs then Some (Inl (EMsg ''messages missing''), s, srv)
             else check_finish cfg userId channelId del files msgs (s, srv)))"

text \<open>
  The messages of the channel. The server answers how many there are and then gives them page by page, which may fail at any page: the iterator
  \<open>iter\<close> is the messages it gives before it ends and the error it ends with, which nobody looks at.
\<close>

definition loadChannelMessages ::
    "svc_err option \<Rightarrow> svc_err option \<Rightarrow> svc_err + unit \<Rightarrow> svc_err + int \<Rightarrow> channel_msgs \<times> svc_err option \<Rightarrow> svc_err + channel_msgs \<times> int" where
  "loadChannelMessages noClient noAuth channel count iter =
     (case noClient of Some e \<Rightarrow> Inl e | None \<Rightarrow>
      case noAuth of Some e \<Rightarrow> Inl e | None \<Rightarrow>
      case channel of Inl e \<Rightarrow> Inl e | Inr _ \<Rightarrow>
      case count of Inl e \<Rightarrow> Inl e
      | Inr n \<Rightarrow> if n = 0 then Inr ([], 0) else Inr (fst iter, n))"

section \<open>Users and the whole run\<close>

definition checkRequiredCheckFlags :: "string \<Rightarrow> svc_err option" where
  "checkRequiredCheckFlags dataSource =
     (if dataSource = '''' then Some (EMsg ''required configuration values not set: db-data-source'') else None)"

definition selectUser :: "string \<Rightarrow> int option \<Rightarrow> UserRow list \<Rightarrow> svc_err + UserRow" where
  "selectUser user selection users =
     (if user \<noteq> '''' then
        (case utils_Filter users (\<lambda>u. us_userName u = user) of
           [] \<Rightarrow> Inl (EMsg ''invalid user name'')
         | u # _ \<Rightarrow> Inr u)
      else
        (case selection of
           None \<Rightarrow> Inl (EMsg ''invalid selection'')
         | Some n \<Rightarrow> if n < 1 \<or> n > int (length users) then Inl (EMsg ''invalid selection'') else Inr (users ! nat (n - 1))))"

section \<open>Loading ends with all rows\<close>

definition by_id :: "FileRow list \<Rightarrow> bool" where
  "by_id fs \<longleftrightarrow> sorted_wrt (\<lambda>f g. f_id f < f_id g) fs"

lemma by_id_sort: "distinct (map f_id rows) \<Longrightarrow> by_id (sort_key f_id rows)"
proof -
  assume d: "distinct (map f_id rows)"
  have "sorted (map f_id (sort_key f_id rows))" by simp
  moreover have "distinct (map f_id (sort_key f_id rows))" using d by (simp add: distinct_map)
  ultimately have "sorted_wrt (<) (map f_id (sort_key f_id rows))" by (simp add: strict_sorted_iff)
  then show ?thesis by (simp add: by_id_def sorted_wrt_map)
qed

lemma filter_after_nth:
  "by_id fs \<Longrightarrow> n < length fs \<Longrightarrow> filter (\<lambda>g. f_id (fs ! n) < f_id g) fs = drop (Suc n) fs"
proof (induction fs arbitrary: n)
  case (Cons f fs)
  then have f: "\<forall>g \<in> set fs. f_id f < f_id g" "by_id fs" by (simp_all add: by_id_def)
  show ?case
  proof (cases n)
    case 0
    have "filter (\<lambda>g. f_id f < f_id g) fs = fs" using f(1) by simp
    with 0 show ?thesis by simp
  next
    case (Suc m)
    then have "m < length fs" using Cons.prems by simp
    moreover from this f(1) have "\<not> f_id (fs ! m) < f_id f" by (meson nth_mem less_asym)
    ultimately show ?thesis using Suc Cons.IH [OF f(2)] by simp
  qed
qed simp

lemma load_loop_rows:
  assumes b: "0 < b" and s: "by_id (sort_key f_id rows)" and ne: "\<forall>f \<in> set rows. f_id f \<noteq> ''''"
  shows "load_loop b rows lastID acc = Some (acc @ filter (\<lambda>f. lastID = '''' \<or> lastID < f_id f) (sort_key f_id rows))"
proof (induction "length (filter (\<lambda>f. lastID = '''' \<or> lastID < f_id f) (sort_key f_id rows))" arbitrary: lastID acc rule: less_induct)
  case less
  let ?L = "sort_key f_id rows"
  let ?F = "\<lambda>i. filter (\<lambda>f. i = '''' \<or> i < f_id f) ?L"
  show ?case
  proof (cases "length (?F lastID) < b")
    case True
    then show ?thesis by (subst load_loop.simps) (simp add: Let_def)
  next
    case False
    then have n: "b - 1 < length (?F lastID)" and lt: "length (take b (?F lastID)) = b" using b by simp_all
    then have t: "take b (?F lastID) \<noteq> []" using b by (metis length_greater_0_conv)
    have l: "last (take b (?F lastID)) = ?F lastID ! (b - 1)"
      unfolding last_conv_nth [OF t] lt using b by (simp del: One_nat_def)
    let ?i = "f_id (?F lastID ! (b - 1))"
    have "?F lastID ! (b - 1) \<in> set ?L" using nth_mem [OF n] by auto
    then have i: "?i \<noteq> ''''" "lastID = '''' \<or> lastID < ?i" using ne nth_mem [OF n] by auto
    have "by_id (?F lastID)" using s unfolding by_id_def by (rule sorted_wrt_filter)
    from filter_after_nth [OF this n] have "filter (\<lambda>g. ?i < f_id g) (?F lastID) = drop b (?F lastID)" using b by simp
    moreover have "filter (\<lambda>g. ?i < f_id g) (?F lastID) = ?F ?i"
      using i by (auto simp: filter_filter intro: filter_cong)
    ultimately have d: "?F ?i = drop b (?F lastID)" by simp
    then have "length (?F ?i) < length (?F lastID)" using False b by simp
    from less.hyps [OF this, of "acc @ take b (?F lastID)"] d have
      "load_loop b rows ?i (acc @ take b (?F lastID)) = Some (acc @ ?F lastID)" by simp
    then show ?thesis using lt t l by (subst load_loop.simps) (simp add: Let_def del: take_eq_Nil length_take)
  qed
qed

lemma loadFiles_rows:
  assumes "distinct (map f_id rows)" "\<forall>f \<in> set rows. f_id f \<noteq> ''''"
  shows "loadFiles cfg uid ch rows = Some (map scan_file (sort_key f_id (filter (check_where cfg uid ch) rows)))"
proof -
  let ?rows = "filter (check_where cfg uid ch) rows"
  have "distinct (map f_id ?rows)" using assms(1) by (simp add: distinct_map_filter)
  then have s: "by_id (sort_key f_id ?rows)" by (rule by_id_sort)
  have "\<forall>f \<in> set ?rows. f_id f \<noteq> ''''" using assms(2) by simp
  from load_loop_rows [OF _ s this, of 1000 "''''" "[]"] show ?thesis by (auto simp: loadFiles_def Let_def)
qed

text \<open>
  Loading the files of a channel. When the ids of the rows are unique, reading them in batches after the last id ends with all rows of
  the user and the channel that are to be checked, each once, in the order of their ids.
\<close>

theorem loadFiles_complete:
  assumes "distinct (map f_id rows)" "\<forall>f \<in> set rows. f_id f \<noteq> ''''"
  shows "loadFiles cfg uid ch rows = Some (map scan_file (sort_key f_id (filter (check_where cfg uid ch) rows)))"
  using assms by (rule loadFiles_rows)

text \<open>A page that cannot be read ends a check with an error before anything is deleted: fewer messages came than the server counted.\<close>

lemma check_process_partial:
  assumes "load srv = loadChannelMessages None None (Inr ()) (Inr n) (msgs, Some e)" "int (length msgs) < n"
    and "loadFiles cfg uid ch (sv_files s) \<noteq> None" "\<not> cc_cleanUploads cfg"
  shows "check_process cfg uid ch load del (s, srv) = Some (Inl (EMsg ''messages missing''), s, srv)"
  using assms by (auto simp: check_process_def loadChannelMessages_def Let_def)

section \<open>What a check finds and deletes\<close>

definition msg_size :: "(int \<Rightarrow> int option) \<Rightarrow> bool \<Rightarrow> api_Part \<Rightarrow> int" where
  "msg_size m enc p = (case m (part_ID p) of None \<Rightarrow> 0
     | Some n \<Rightarrow> if enc then (case DecryptedSize n of Inl _ \<Rightarrow> 0 | Inr d \<Rightarrow> d) else n)"

text \<open>All parts are there and their sizes add up to the size of the file.\<close>

definition intact :: "(int \<Rightarrow> int option) \<Rightarrow> check_file \<Rightarrow> bool" where
  "intact m f \<longleftrightarrow> (\<forall>p \<in> set (ck_Parts f). m (part_ID p) \<noteq> None) \<and> sum_list (map (msg_size m (ck_Encrypted f)) (ck_Parts f)) = ck_Size f"

lemma msg_map_foldl:
  "(foldl (\<lambda>m (i, doc). if i > 0 \<and> i \<notin> U then m(i \<mapsto> (case doc of None \<Rightarrow> 0 | Some n \<Rightarrow> n)) else m) m0 msgs i \<noteq> None)
     \<longleftrightarrow> m0 i \<noteq> None \<or> i \<in> fst ` set msgs \<and> i > 0 \<and> i \<notin> U"
  by (induction msgs arbitrary: m0) (auto split: prod.splits if_splits)

lemma msg_map_dom: "msg_map U msgs i \<noteq> None \<longleftrightarrow> i \<in> fst ` set msgs \<and> i > 0 \<and> i \<notin> U"
  by (simp only: msg_map_def msg_map_foldl) simp

lemma scan_parts_result:
  assumes "scan_parts m enc ps sz ids = (gone, sz', ids')"
  shows "ids \<subseteq> ids' \<and> ids' \<subseteq> ids \<union> part_ID ` set ps
    \<and> (if \<exists>p \<in> set ps. m (part_ID p) = None then gone
       else \<not> gone \<and> sz' = sz + sum_list (map (msg_size m enc) ps) \<and> part_ID ` set ps - {0} \<subseteq> ids')"
  using assms
proof (induction ps arbitrary: sz ids)
  case (Cons p ps)
  show ?case
  proof (cases "m (part_ID p)")
    case None
    then have "gone \<and> ids' = (if part_ID p \<noteq> 0 then insert (part_ID p) ids else ids)"
      using Cons.prems by (simp add: Let_def)
    with None show ?thesis by (cases "part_ID p = 0") auto
  next
    case (Some n)
    then have "scan_parts m enc ps (sz + msg_size m enc p) (if part_ID p \<noteq> 0 then insert (part_ID p) ids else ids) = (gone, sz', ids')"
      using Cons.prems by (simp add: Let_def msg_size_def)
    from Cons.IH [OF this] Some show ?thesis by (auto split: if_splits)
  qed
qed auto

lemma scan_files_result:
  assumes "scan_files m fs missing ids = (missing', ids')"
  shows "set missing' = set missing \<union> {f \<in> set fs. \<not> intact m f} \<and> ids \<subseteq> ids'
    \<and> ids' \<subseteq> ids \<union> (\<Union>f \<in> set fs. part_ID ` set (ck_Parts f))
    \<and> (\<forall>f \<in> set fs. intact m f \<longrightarrow> part_ID ` set (ck_Parts f) - {0} \<subseteq> ids')"
  using assms
proof (induction fs arbitrary: missing ids)
  case (Cons f fs)
  obtain gone sz ids1 where s: "scan_parts m (ck_Encrypted f) (ck_Parts f) 0 ids = (gone, sz, ids1)" by (metis prod_cases3)
  note r = scan_parts_result [OF s]
  let ?missing = "(if sz \<noteq> ck_Size f then (if gone then missing @ [f] else missing) @ [f] else if gone then missing @ [f] else missing)"
  from Cons.prems s have "scan_files m fs ?missing ids1 = (missing', ids')" by (simp add: Let_def)
  note ih = Cons.IH [OF this]
  have g: "gone \<longleftrightarrow> (\<exists>p \<in> set (ck_Parts f). m (part_ID p) = None)" using r by (auto split: if_splits)
  have "\<not> gone \<Longrightarrow> sz = sum_list (map (msg_size m (ck_Encrypted f)) (ck_Parts f))" using r by (auto split: if_splits)
  then have "intact m f \<longleftrightarrow> \<not> gone \<and> sz = ck_Size f" using g by (auto simp: intact_def)
  then have "set ?missing = set missing \<union> (if intact m f then {} else {f})" by simp
  moreover have "intact m f \<longrightarrow> part_ID ` set (ck_Parts f) - {0} \<subseteq> ids1" using r by (auto simp: intact_def)
  ultimately show ?case using ih r by (auto split: if_splits)
qed simp

lemma check_finish_report:
  assumes fin: "check_finish cfg uid ch del fs msgs (s, srv) = Some (Inr r, s', srv')" and "\<not> cc_dryRun cfg"
    and "scan_files (msg_map (if cc_cleanUploads cfg then {} else channel_uploads uid ch s) msgs) fs [] {} = (missing, ids)"
  shows "r = \<lparr> cr_files = fs, cr_missing = missing,
    cr_orphans = filter (\<lambda>i. msg_map (if cc_cleanUploads cfg then {} else channel_uploads uid ch s) msgs i \<noteq> None \<and> i \<noteq> 1 \<and> i \<notin> ids)
      (remdups (map fst msgs)) \<rparr>"
proof -
  define U where "U = (if cc_cleanUploads cfg then {} else channel_uploads uid ch s)"
  define os where "os = filter (\<lambda>i. msg_map U msgs i \<noteq> None \<and> i \<noteq> 1 \<and> i \<notin> ids) (remdups (map fst msgs))"
  have u: "(if \<not> cc_dryRun cfg \<and> \<not> cc_cleanUploads cfg then channel_uploads uid ch s else {}) = U" using assms(2) by (simp add: U_def)
  have sc: "scan_files (msg_map U msgs) fs [] {} = (missing, ids)" using assms(3) by (simp add: U_def)
  from fin assms(2) show ?thesis
    unfolding check_finish_def Let_def prod.case u sc U_def [symmetric] os_def [symmetric]
    by (cases "del os srv"; cases "fst (del os srv)"; cases "os = []"; cases "missing = []") (auto simp: bind_eq_Some_conv)
qed


text \<open>A channel with one file, the message 11 of no file, 12 of an upload that is kept, and the message 1 that created the channel.\<close>

definition ck_row :: "string \<Rightarrow> int list \<Rightarrow> FileRow" where
  "ck_row i ps = \<lparr> f_id = i, f_name = i, f_type = FILE, f_mime = '''', f_size = Some (10 * int (length ps)), f_category = None,
     f_encrypted = Some False, f_starred = None, f_user = 1, f_status = ACTIVE, f_parent = None,
     f_parts = Some (map (\<lambda>p. \<lparr> part_ID = p, part_Salt = '''' \<rparr>) ps), f_channel = Some 5, f_hash = None, f_ref = None,
     f_created = 0, f_updated = 0 \<rparr>"

definition ck_up :: UploadRow where
  "ck_up = \<lparr> u_uploadId = ''u'', u_user = 1, u_name = ''n'', u_partNo = 1, u_partId = 12, u_encrypted = False, u_salt = '''', u_blockHashes = [], u_channel = 5, u_size = 10, u_created = 0 \<rparr>"

definition ck_svc :: svc where
  "ck_svc = \<lparr> sv_files = [ck_row ''b'' [10, 13], ck_row ''a'' [14]],
     sv_uploads = [ck_up],
     sv_shares = [], sv_cache = (\<lambda>_. None), sv_events = [] \<rparr>"

definition ck_msgs :: channel_msgs where
  "ck_msgs = [(1, None), (10, Some 10), (13, Some 10), (14, Some 10), (11, Some 10), (12, Some 10)]"

theorem loadFiles_complete_witness:
  "loadFiles \<lparr> cc_cleanPending = False, cc_cleanUploads = False, cc_dryRun = False \<rparr> 1 5 [ck_row ''b'' [10], ck_row ''a'' [12]]
     = Some [scan_file (ck_row ''a'' [12]), scan_file (ck_row ''b'' [10])]"
proof -
  let ?c = "\<lparr> cc_cleanPending = False, cc_cleanUploads = False, cc_dryRun = False \<rparr>"
  have "sort_key f_id (filter (check_where ?c 1 5) [ck_row ''b'' [10], ck_row ''a'' [12]]) = [ck_row ''a'' [12], ck_row ''b'' [10]]"
    by (simp add: check_where_def ck_row_def)
  with loadFiles_complete [of "[ck_row ''b'' [10], ck_row ''a'' [12]]" ?c 1 5] show ?thesis by (simp add: ck_row_def)
qed


end
