(* ===== verification/ClientPool.thy ===== *)
theory ClientPool
  imports Service "HOL-Library.AList"
begin

text \<open>
  The pool of connected Telegram clients (internal/tgc/client_pool.go, run.go). The goroutines of \<open>GetClient\<close> and the one that runs a
  client are steps between the points where they take a lock or wait for a channel; a schedule is a list of events. Logging is left
  out. \<open>AuthClient\<close> and \<open>BotClient\<close>, which build a client, succeed or fail as the event says.
\<close>

section \<open>Authorisation (run.go)\<close>

text \<open>What \<open>Auth\<close> asks: the status, the login of a bot and the status after it.\<close>

definition tgc_Auth :: "svc_err + bool \<Rightarrow> svc_err option \<Rightarrow> svc_err option \<Rightarrow> string \<Rightarrow> svc_err option" where
  "tgc_Auth status botLogin statusAfter token =
     (case status of Inl e \<Rightarrow> Some e
      | Inr authorized \<Rightarrow>
          if token = '''' then
            (if \<not> authorized then Some (EMsg ''not authorized. please login first'') else None)
          else if \<not> authorized then
            (case botLogin of Some e \<Rightarrow> Some e | None \<Rightarrow> statusAfter)
          else None)"

section \<open>State\<close>

datatype ready_chan = Open | Closed | Failed svc_err

text \<open>\<open>Returned\<close>: \<open>client.Run\<close> is over; \<open>Removed\<close>: its goroutine has deleted the entry of the key and ended.\<close>

datatype run_phase = Running | Returned | Removed

record StreamClient =
  sc_key :: string
  sc_ready :: ready_chan
  sc_run :: run_phase
  sc_cancelled :: bool

datatype get_pc = PFast | PExpired | PSlow | PLocked | PCreate | PWait nat | PStore nat | PDone "svc_err + nat"

record get_call =
  gc_key :: string
  gc_pc :: get_pc

record ClientPool =
  cp_clients :: "(string \<times> nat) list"
  cp_all :: "nat \<Rightarrow> StreamClient option"
  cp_locks :: "string \<Rightarrow> nat option"
  cp_calls :: "nat \<Rightarrow> get_call option"

definition NewClientPool :: ClientPool where
  "NewClientPool = \<lparr> cp_clients = [], cp_all = (\<lambda>_. None), cp_locks = (\<lambda>_. None), cp_calls = (\<lambda>_. None) \<rparr>"

definition client_key :: "int \<Rightarrow> string \<Rightarrow> string" where
  "client_key userID token = show_int userID @ '':'' @ token"

section \<open>Steps\<close>

definition cancelled :: "ClientPool \<Rightarrow> nat \<Rightarrow> bool" where
  "cancelled p c = (case cp_all p c of None \<Rightarrow> False | Some cl \<Rightarrow> sc_cancelled cl)"

definition cancel_client :: "nat \<Rightarrow> ClientPool \<Rightarrow> ClientPool" where
  "cancel_client c p = p\<lparr> cp_all := (cp_all p)(c := map_option (sc_cancelled_update (\<lambda>_. True)) (cp_all p c)) \<rparr>"

text \<open>A call moves on; the calls that return give the creation lock of their key back.\<close>

definition goto :: "nat \<Rightarrow> string \<Rightarrow> get_pc \<Rightarrow> ClientPool \<Rightarrow> ClientPool" where
  "goto t k pc p = p\<lparr> cp_calls := (cp_calls p)(t \<mapsto> \<lparr> gc_key = k, gc_pc = pc \<rparr>) \<rparr>"

definition unlock_creation :: "string \<Rightarrow> ClientPool \<Rightarrow> ClientPool" where
  "unlock_creation k p = p\<lparr> cp_locks := (cp_locks p)(k := None) \<rparr>"

definition forget :: "string \<Rightarrow> ClientPool \<Rightarrow> ClientPool" where
  "forget k p = p\<lparr> cp_clients := AList.delete k (cp_clients p) \<rparr>"

text \<open>The steps of \<open>GetClient\<close>: \<open>built\<close> is the number of a new client, or the error of the session or of building it.\<close>

definition call_step :: "nat \<Rightarrow> svc_err + nat \<Rightarrow> bool \<Rightarrow> string \<Rightarrow> get_pc \<Rightarrow> ClientPool \<Rightarrow> ClientPool option" where
  "call_step t built timeout k pc p =
     (case pc of
        PFast \<Rightarrow>
          (case map_of (cp_clients p) k of
             None \<Rightarrow> Some (goto t k PSlow p)
           | Some c \<Rightarrow> Some (goto t k (if cancelled p c then PExpired else PDone (Inr c)) p))
      | PExpired \<Rightarrow> Some (goto t k PSlow (forget k p))
      | PSlow \<Rightarrow> if cp_locks p k = None then Some (goto t k PLocked (p\<lparr> cp_locks := (cp_locks p)(k \<mapsto> t) \<rparr>)) else None
      | PLocked \<Rightarrow>
          (case map_of (cp_clients p) k of
             None \<Rightarrow> Some (goto t k PCreate p)
           | Some c \<Rightarrow> Some (if cancelled p c then goto t k PCreate (forget k p) else unlock_creation k (goto t k (PDone (Inr c)) p)))
      | PCreate \<Rightarrow>
          (case built of
             Inl e \<Rightarrow> Some (unlock_creation k (goto t k (PDone (Inl e)) p))
           | Inr c \<Rightarrow>
               if cp_all p c = None
               then Some (goto t k (PWait c)
                      (p\<lparr> cp_all := (cp_all p)(c \<mapsto> \<lparr> sc_key = k, sc_ready = Open, sc_run = Running, sc_cancelled = False \<rparr>) \<rparr>))
               else None)
      | PWait c \<Rightarrow>
          if timeout then Some (unlock_creation k (goto t k (PDone (Inl (EMsg ''timeout waiting for telegram auth''))) (cancel_client c p)))
          else
            (case map_option sc_ready (cp_all p c) of
               Some Closed \<Rightarrow> Some (goto t k (PStore c) p)
             | Some (Failed e) \<Rightarrow> Some (unlock_creation k (goto t k (PDone (Inl e)) (cancel_client c p)))
             | _ \<Rightarrow> None)
      | PStore c \<Rightarrow> Some (unlock_creation k (goto t k (PDone (Inr c)) (p\<lparr> cp_clients := AList.update k c (cp_clients p) \<rparr>)))
      | PDone r \<Rightarrow> None)"

text \<open>
  The goroutine of a client: \<open>Auth\<close> succeeds and \<open>ready\<close> is closed; \<open>client.Run\<close> returns, with an error that is sent if
  \<open>ready\<close> is not closed; the entry of the key is deleted, whichever client it holds.
\<close>

datatype run_event = Authorised | RunEnds svc_err | Remove

definition run_step :: "nat \<Rightarrow> run_event \<Rightarrow> StreamClient \<Rightarrow> ClientPool \<Rightarrow> ClientPool option" where
  "run_step c ev cl p =
     (case ev of
        Authorised \<Rightarrow>
          if sc_run cl = Running \<and> sc_ready cl = Open
          then Some (p\<lparr> cp_all := (cp_all p)(c \<mapsto> cl\<lparr> sc_ready := Closed \<rparr>) \<rparr>) else None
      | RunEnds e \<Rightarrow>
          if sc_run cl = Running
          then Some (p\<lparr> cp_all := (cp_all p)(c \<mapsto> cl\<lparr> sc_ready := (if sc_ready cl = Open then Failed e else sc_ready cl), sc_run := Returned \<rparr>) \<rparr>)
          else None
      | Remove \<Rightarrow>
          if sc_run cl = Returned
          then Some (forget (sc_key cl) (p\<lparr> cp_all := (cp_all p)(c \<mapsto> cl\<lparr> sc_run := Removed \<rparr>) \<rparr>)) else None)"

definition pool_Close :: "ClientPool \<Rightarrow> ClientPool" where
  "pool_Close p = (foldl (\<lambda>p c. cancel_client c p) p (map snd (cp_clients p)))\<lparr> cp_clients := [] \<rparr>"

datatype pool_event = GetClient nat int string | Call nat "svc_err + nat" bool | Client nat run_event | Close

definition pool_step :: "pool_event \<Rightarrow> ClientPool \<Rightarrow> ClientPool option" where
  "pool_step ev p =
     (case ev of
        GetClient t userID token \<Rightarrow> if cp_calls p t = None then Some (goto t (client_key userID token) PFast p) else None
      | Call t built timeout \<Rightarrow> (case cp_calls p t of None \<Rightarrow> None | Some g \<Rightarrow> call_step t built timeout (gc_key g) (gc_pc g) p)
      | Client c ev \<Rightarrow> (case cp_all p c of None \<Rightarrow> None | Some cl \<Rightarrow> run_step c ev cl p)
      | Close \<Rightarrow> Some (pool_Close p))"

fun pool_run :: "pool_event list \<Rightarrow> ClientPool \<Rightarrow> ClientPool option" where
  "pool_run [] p = Some p"
| "pool_run (e # es) p = Option.bind (pool_step e p) (pool_run es)"

section \<open>One creator for a key, and only authorised clients\<close>

text \<open>The places of a call between taking and giving back the creation lock.\<close>

definition holds :: "get_pc \<Rightarrow> bool" where
  "holds pc = (case pc of PLocked \<Rightarrow> True | PCreate \<Rightarrow> True | PWait _ \<Rightarrow> True | PStore _ \<Rightarrow> True | _ \<Rightarrow> False)"

lemma holds_simps [simp]:
  "\<not> holds PFast" "\<not> holds PExpired" "\<not> holds PSlow" "holds PLocked" "holds PCreate" "holds (PWait c)" "holds (PStore c)" "\<not> holds (PDone r)"
  by (simp_all add: holds_def)

text \<open>A client of the key that is not cancelled, and one that also was authorised.\<close>

definition fresh_client :: "ClientPool \<Rightarrow> string \<Rightarrow> nat \<Rightarrow> bool" where
  "fresh_client p k c \<longleftrightarrow> (\<exists>cl. cp_all p c = Some cl \<and> sc_key cl = k \<and> \<not> sc_cancelled cl)"

definition authorised :: "ClientPool \<Rightarrow> string \<Rightarrow> nat \<Rightarrow> bool" where
  "authorised p k c \<longleftrightarrow> (\<exists>cl. cp_all p c = Some cl \<and> sc_key cl = k \<and> sc_ready cl = Closed)"

definition call_ok :: "ClientPool \<Rightarrow> nat \<Rightarrow> string \<Rightarrow> get_pc \<Rightarrow> bool" where
  "call_ok p t k pc \<longleftrightarrow>
     pc \<noteq> PExpired \<and> (holds pc \<longrightarrow> cp_locks p k = Some t)
     \<and> (\<forall>c. pc = PWait c \<or> pc = PStore c \<longrightarrow> fresh_client p k c \<and> c \<notin> snd ` set (cp_clients p))
     \<and> (\<forall>c. pc = PStore c \<or> pc = PDone (Inr c) \<longrightarrow> authorised p k c)"

definition pool_inv :: "ClientPool \<Rightarrow> bool" where
  "pool_inv p \<longleftrightarrow>
     (\<forall>k c. (k, c) \<in> set (cp_clients p) \<longrightarrow> fresh_client p k c \<and> authorised p k c)
     \<and> (\<forall>t g. cp_calls p t = Some g \<longrightarrow> call_ok p t (gc_key g) (gc_pc g))"

lemma set_update_subset: "set (AList.update k v xs) \<subseteq> insert (k, v) (set xs)"
  by (induction xs) auto

lemma set_delete_subset: "set (AList.delete k xs) \<subseteq> set xs"
  by (auto simp: AList.delete_eq)

lemma pool_fields [simp]:
  "cp_clients (goto t k pc p) = cp_clients p" "cp_all (goto t k pc p) = cp_all p" "cp_locks (goto t k pc p) = cp_locks p"
  "cp_calls (goto t k pc p) = (cp_calls p)(t \<mapsto> \<lparr> gc_key = k, gc_pc = pc \<rparr>)"
  "cp_clients (unlock_creation k p) = cp_clients p" "cp_all (unlock_creation k p) = cp_all p" "cp_locks (unlock_creation k p) = (cp_locks p)(k := None)"
  "cp_calls (unlock_creation k p) = cp_calls p"
  "cp_clients (forget k p) = AList.delete k (cp_clients p)" "cp_all (forget k p) = cp_all p" "cp_locks (forget k p) = cp_locks p"
  "cp_calls (forget k p) = cp_calls p"
  "cp_clients (cancel_client c p) = cp_clients p" "cp_locks (cancel_client c p) = cp_locks p" "cp_calls (cancel_client c p) = cp_calls p"
  by (simp_all add: goto_def unlock_creation_def forget_def cancel_client_def)

text \<open>
  What a step may change without harm to the other calls: the lock of one key \<open>k\<close> they do not hold, entries, and clients, as
  long as the key and the authorisation of a client stay and clients nobody else waits for are cancelled.
\<close>

lemma pool_inv_call:
  assumes inv: "pool_inv p" and calls: "cp_calls p' = (cp_calls p)(t \<mapsto> \<lparr> gc_key = k, gc_pc = pc \<rparr>)"
    and own: "call_ok p' t k pc"
    and locks: "\<And>t' k'. t' \<noteq> t \<Longrightarrow> cp_locks p k' = Some t' \<Longrightarrow> cp_locks p' k' = Some t'"
    and auth: "\<And>k c. authorised p k c \<Longrightarrow> authorised p' k c"
    and wait: "\<And>t' k' c. t' \<noteq> t \<Longrightarrow> cp_locks p k' = Some t' \<Longrightarrow> fresh_client p k' c \<Longrightarrow> c \<notin> snd ` set (cp_clients p) \<Longrightarrow>
      fresh_client p' k' c \<and> c \<notin> snd ` set (cp_clients p')"
    and entries: "\<And>k c. (k, c) \<in> set (cp_clients p') \<Longrightarrow> fresh_client p' k c \<and> authorised p' k c"
  shows "pool_inv p'"
  unfolding pool_inv_def
proof (intro conjI allI impI)
  fix t' g assume g: "cp_calls p' t' = Some g"
  show "call_ok p' t' (gc_key g) (gc_pc g)"
  proof (cases "t' = t")
    case True
    then show ?thesis using g calls own by auto
  next
    case False
    then have "cp_calls p t' = Some g" using g calls by simp
    then have ok: "call_ok p t' (gc_key g) (gc_pc g)" using inv by (simp add: pool_inv_def)
    have "\<And>c. gc_pc g = PWait c \<or> gc_pc g = PStore c \<Longrightarrow> fresh_client p' (gc_key g) c \<and> c \<notin> snd ` set (cp_clients p')"
    proof -
      fix c assume c: "gc_pc g = PWait c \<or> gc_pc g = PStore c"
      then have "holds (gc_pc g)" by auto
      then have "cp_locks p (gc_key g) = Some t'" using ok by (simp add: call_ok_def)
      with c ok show "fresh_client p' (gc_key g) c \<and> c \<notin> snd ` set (cp_clients p')"
        using wait [OF False] by (auto simp: call_ok_def)
    qed
    with ok show ?thesis using locks [OF False] auth unfolding call_ok_def by blast
  qed
next
  fix k c assume "(k, c) \<in> set (cp_clients p')"
  from entries [OF this] show "fresh_client p' k c" "authorised p' k c" by simp_all
qed

lemma pool_inv_cancelled:
  "pool_inv p \<Longrightarrow> map_of (cp_clients p) k = Some c \<Longrightarrow> authorised p k c \<and> \<not> cancelled p c"
  by (drule map_of_SomeD) (force simp: pool_inv_def fresh_client_def cancelled_def)

lemma fresh_key: "fresh_client p k c \<Longrightarrow> fresh_client p k' c \<Longrightarrow> k = k'"
  by (auto simp: fresh_client_def)

lemma fresh_cancel: "c \<noteq> d \<Longrightarrow> fresh_client (cancel_client d p) k c \<longleftrightarrow> fresh_client p k c"
  by (simp add: fresh_client_def cancel_client_def)

lemma authorised_cancel [simp]: "authorised (cancel_client d p) k c \<longleftrightarrow> authorised p k c"
  by (auto simp: authorised_def cancel_client_def)

lemma pool_inv_call_step:
  assumes inv: "pool_inv p" and g: "cp_calls p t = Some \<lparr> gc_key = k, gc_pc = pc \<rparr>" and s: "call_step t built timeout k pc p = Some p'"
  shows "pool_inv p'"
proof -
  have ok: "call_ok p t k pc" using inv g by (force simp: pool_inv_def)
  have e: "\<And>k c. (k, c) \<in> set (cp_clients p) \<Longrightarrow> fresh_client p k c \<and> authorised p k c" using inv by (simp add: pool_inv_def)
  show ?thesis
  proof (cases pc)
    case PFast
    then obtain pc' where p': "p' = goto t k pc' p" "call_ok p t k pc'"
      using s pool_inv_cancelled [OF inv, of k]
      by (cases "map_of (cp_clients p) k") (auto simp: call_step_def call_ok_def)
    show ?thesis
      by (rule pool_inv_call [OF inv, of _ t k pc']) (use p' e in \<open>auto simp: call_ok_def fresh_client_def authorised_def\<close>)
  next
    case PSlow
    then have p': "p' = goto t k PLocked (p\<lparr> cp_locks := (cp_locks p)(k \<mapsto> t) \<rparr>)" "cp_locks p k = None"
      using s by (auto simp: call_step_def split: if_splits)
    show ?thesis
      by (rule pool_inv_call [OF inv, of _ t k PLocked]) (use p' e in \<open>auto simp: call_ok_def fresh_client_def authorised_def\<close>)
  next
    case PLocked
    show ?thesis
    proof (cases "map_of (cp_clients p) k")
      case None
      then have p': "p' = goto t k PCreate p" using s PLocked by (simp add: call_step_def)
      show ?thesis
        by (rule pool_inv_call [OF inv, of _ t k PCreate]) (use p' e ok PLocked in \<open>auto simp: call_ok_def fresh_client_def authorised_def\<close>)
    next
      case (Some c)
      with pool_inv_cancelled [OF inv this] have p': "p' = unlock_creation k (goto t k (PDone (Inr c)) p)" "authorised p k c"
        using s PLocked by (simp_all add: call_step_def)
      show ?thesis
        by (rule pool_inv_call [OF inv, of _ t k "PDone (Inr c)"])
          (use p' e ok PLocked in \<open>auto simp: call_ok_def fresh_client_def authorised_def\<close>)
    qed
  next
    case PCreate
    show ?thesis
    proof (cases built)
      case (Inl err)
      then have p': "p' = unlock_creation k (goto t k (PDone (Inl err)) p)" using s PCreate by (simp add: call_step_def)
      show ?thesis
        by (rule pool_inv_call [OF inv, of _ t k "PDone (Inl err)"])
          (use p' e ok PCreate in \<open>auto simp: call_ok_def fresh_client_def authorised_def\<close>)
    next
      case (Inr c)
      then have n: "cp_all p c = None" and p': "p' = goto t k (PWait c)
          (p\<lparr> cp_all := (cp_all p)(c \<mapsto> \<lparr> sc_key = k, sc_ready = Open, sc_run = Running, sc_cancelled = False \<rparr>) \<rparr>)"
        using s PCreate by (simp_all add: call_step_def split: if_splits)
      have e': "d \<noteq> c" if "(k', d) \<in> set (cp_clients p)" for k' d using e [OF that] n by (auto simp: fresh_client_def)
      show ?thesis
        by (rule pool_inv_call [OF inv, of _ t k "PWait c"])
          (use n p' e ok PCreate in \<open>auto simp: call_ok_def fresh_client_def authorised_def dest: e'\<close>)
    qed
  next
    case (PWait c)
    have c: "fresh_client p k c" "c \<notin> snd ` set (cp_clients p)" "cp_locks p k = Some t" using ok PWait by (simp_all add: call_ok_def)
    show ?thesis
    proof (cases "\<exists>err. p' = unlock_creation k (goto t k (PDone (Inl err)) (cancel_client c p))")
      case True
      then obtain err where p': "p' = unlock_creation k (goto t k (PDone (Inl err)) (cancel_client c p))" by blast
      have w: "fresh_client (cancel_client c p) k' d" if "cp_locks p k' = Some t'" "t' \<noteq> t" "fresh_client p k' d" for k' t' d
        using that c fresh_key [of p k c k'] fresh_cancel [of d c p k'] by (cases "d = c") auto
      have x: "fresh_client (cancel_client c p) k' d" if "(k', d) \<in> set (cp_clients p)" for k' d
        using that c(2) e fresh_cancel [of d c p k'] by force
      have f: "fresh_client p' k' d \<longleftrightarrow> fresh_client (cancel_client c p) k' d" "authorised p' k' d \<longleftrightarrow> authorised p k' d" for k' d
        unfolding p' by (auto simp: fresh_client_def authorised_def cancel_client_def)
      have "cp_clients p' = cp_clients p" "cp_locks p' = (cp_locks p)(k := None)"
        "cp_calls p' = (cp_calls p)(t \<mapsto> \<lparr> gc_key = k, gc_pc = PDone (Inl err) \<rparr>)" by (simp_all add: p')
      then show ?thesis
        by (intro pool_inv_call [OF inv, of p' t k "PDone (Inl err)"]) (use e c w x in \<open>auto simp: call_ok_def f\<close>)
    next
      case False
      then have p': "p' = goto t k (PStore c) p" "authorised p k c"
        using s PWait c(1)
        by (auto simp: call_step_def fresh_client_def authorised_def split: if_splits option.splits ready_chan.splits)
      show ?thesis
        by (rule pool_inv_call [OF inv, of _ t k "PStore c"])
          (use p' e ok PWait in \<open>auto simp: call_ok_def fresh_client_def authorised_def\<close>)
    qed
  next
    case (PStore c)
    then have p': "p' = unlock_creation k (goto t k (PDone (Inr c)) (p\<lparr> cp_clients := AList.update k c (cp_clients p) \<rparr>))"
      using s by (simp add: call_step_def)
    have c: "fresh_client p k c" "c \<notin> snd ` set (cp_clients p)" "cp_locks p k = Some t" "authorised p k c"
      using ok PStore by (simp_all add: call_ok_def)
    have sub: "set (AList.update k c (cp_clients p)) \<subseteq> insert (k, c) (set (cp_clients p))" by (rule set_update_subset)
    have w: "d \<notin> snd ` set (AList.update k c (cp_clients p))"
      if "cp_locks p k' = Some t'" "t' \<noteq> t" "fresh_client p k' d" "d \<notin> snd ` set (cp_clients p)" for k' t' d
      using that c fresh_key [of p k c k'] sub by (cases "d = c") force+
    show ?thesis
      by (rule pool_inv_call [OF inv, of _ t k "PDone (Inr c)"])
        (use p' e c w sub in \<open>auto simp: call_ok_def fresh_client_def authorised_def\<close>)
  qed (use ok s in \<open>auto simp: call_ok_def call_step_def\<close>)
qed

lemma pool_inv_client:
  assumes inv: "pool_inv p" and cl: "cp_all p c = Some cl" and s: "run_step c ev cl p = Some p'"
  shows "pool_inv p'"
proof -
  obtain cl' where all: "cp_all p' = (cp_all p)(c \<mapsto> cl')" and cl': "sc_key cl' = sc_key cl" "sc_cancelled cl' = sc_cancelled cl"
      "sc_ready cl = Closed \<Longrightarrow> sc_ready cl' = Closed"
    and p': "set (cp_clients p') \<subseteq> set (cp_clients p)" "cp_locks p' = cp_locks p" "cp_calls p' = cp_calls p"
    using s set_delete_subset [of "sc_key cl" "cp_clients p"]
    by (cases ev) (fastforce simp: run_step_def split: if_splits)+
  have f: "fresh_client p' k d" if "fresh_client p k d" for k d
    using that all cl' cl by (auto simp: fresh_client_def)
  have a: "authorised p' k d" if "authorised p k d" for k d
    using that all cl' cl by (auto simp: authorised_def)
  have "call_ok p' t k pc" if "call_ok p t k pc" for t k pc
    using that f a p' unfolding call_ok_def by (metis image_mono subsetD)
  then show ?thesis using inv f a p' unfolding pool_inv_def by (metis subsetD)
qed

lemma pool_Close_fields:
  "cp_locks (pool_Close p) = cp_locks p" "cp_calls (pool_Close p) = cp_calls p" "cp_clients (pool_Close p) = []"
  "c \<notin> snd ` set (cp_clients p) \<Longrightarrow> cp_all (pool_Close p) c = cp_all p c"
  "authorised (pool_Close p) k c \<longleftrightarrow> authorised p k c"
proof -
  have f: "cp_locks (foldl (\<lambda>p c. cancel_client c p) p cs) = cp_locks p \<and> cp_calls (foldl (\<lambda>p c. cancel_client c p) p cs) = cp_calls p
    \<and> (c \<notin> set cs \<longrightarrow> cp_all (foldl (\<lambda>p c. cancel_client c p) p cs) c = cp_all p c)
    \<and> (authorised (foldl (\<lambda>p c. cancel_client c p) p cs) k c \<longleftrightarrow> authorised p k c)" for cs
    by (induction cs arbitrary: p) (auto simp: cancel_client_def authorised_def)
  show "cp_locks (pool_Close p) = cp_locks p" "cp_calls (pool_Close p) = cp_calls p" "cp_clients (pool_Close p) = []"
    "c \<notin> snd ` set (cp_clients p) \<Longrightarrow> cp_all (pool_Close p) c = cp_all p c"
    using f [of "map snd (cp_clients p)"] by (simp_all add: pool_Close_def)
  have "authorised (pool_Close p) k c \<longleftrightarrow> authorised (foldl (\<lambda>p c. cancel_client c p) p (map snd (cp_clients p))) k c"
    by (simp add: pool_Close_def authorised_def)
  then show "authorised (pool_Close p) k c \<longleftrightarrow> authorised p k c" using f [of "map snd (cp_clients p)"] by simp
qed

lemma pool_inv_close: "pool_inv p \<Longrightarrow> pool_inv (pool_Close p)"
  by (auto simp: pool_inv_def call_ok_def pool_Close_fields fresh_client_def)

lemma pool_inv_step: "pool_inv p \<Longrightarrow> pool_step ev p = Some p' \<Longrightarrow> pool_inv p'"
proof (cases ev)
  case (GetClient t userID token)
  assume inv: "pool_inv p" and s: "pool_step ev p = Some p'"
  then have p': "p' = goto t (client_key userID token) PFast p" using GetClient by (auto simp: pool_step_def split: if_splits)
  show ?thesis
    by (rule pool_inv_call [OF inv, of _ t "client_key userID token" PFast])
      (use p' inv in \<open>auto simp: call_ok_def pool_inv_def fresh_client_def authorised_def\<close>)
next
  case (Call t built timeout)
  assume "pool_inv p" "pool_step ev p = Some p'"
  with Call obtain g where "cp_calls p t = Some g" "call_step t built timeout (gc_key g) (gc_pc g) p = Some p'"
    by (auto simp: pool_step_def split: option.splits)
  with \<open>pool_inv p\<close> show ?thesis using pool_inv_call_step [of p t "gc_key g" "gc_pc g" built timeout p'] by simp
next
  case (Client c ev')
  assume "pool_inv p" "pool_step ev p = Some p'"
  with Client show ?thesis by (auto simp: pool_step_def split: option.splits intro: pool_inv_client)
next
  case Close
  assume "pool_inv p" "pool_step ev p = Some p'"
  with Close show ?thesis by (auto simp: pool_step_def intro: pool_inv_close)
qed

lemma pool_inv_run: "pool_run es p = Some p' \<Longrightarrow> pool_inv p \<Longrightarrow> pool_inv p'"
  by (induction es arbitrary: p) (auto simp: bind_eq_Some_conv intro: pool_inv_step)

lemma pool_inv_New: "pool_inv NewClientPool"
  by (simp add: pool_inv_def NewClientPool_def)


section \<open>A client that is gone\<close>

text \<open>The entry of a key, when the client and all others of the key are gone and no call is about to make one.\<close>

definition not_creating :: "get_pc \<Rightarrow> bool" where
  "not_creating pc = (case pc of PFast \<Rightarrow> True | PSlow \<Rightarrow> True | PLocked \<Rightarrow> True | PDone _ \<Rightarrow> True | _ \<Rightarrow> False)"

lemma not_creating_simps [simp]:
  "not_creating PFast" "not_creating PSlow" "not_creating PLocked" "not_creating (PDone r)" "\<not> not_creating PExpired"
  "\<not> not_creating PCreate" "\<not> not_creating (PWait c)" "\<not> not_creating (PStore c)"
  by (simp_all add: not_creating_def)

definition dead_entry :: "ClientPool \<Rightarrow> string \<Rightarrow> nat \<Rightarrow> bool" where
  "dead_entry p k c \<longleftrightarrow> map_of (cp_clients p) k = Some c
     \<and> (\<forall>d cl. cp_all p d = Some cl \<and> sc_key cl = k \<longrightarrow> sc_run cl = Removed)
     \<and> (\<forall>t pc. cp_calls p t = Some \<lparr> gc_key = k, gc_pc = pc \<rparr> \<longrightarrow> not_creating pc)"

lemma dead_entry_call:
  assumes d: "dead_entry p k c" and inv: "pool_inv p" and g: "cp_calls p t = Some \<lparr> gc_key = k', gc_pc = pc \<rparr>"
    and s: "call_step t built timeout k' pc p = Some p'"
  shows "dead_entry p' k c"
proof (cases "k' = k")
  case True
  have m: "map_of (cp_clients p) k = Some c" "\<not> cancelled p c" using d pool_inv_cancelled [OF inv] by (auto simp: dead_entry_def)
  have "not_creating pc" using d g True by (force simp: dead_entry_def)
  with s m True d show ?thesis by (cases pc) (auto simp: call_step_def dead_entry_def split: if_splits)
next
  case False
  have u: "map_of (AList.update k' x (cp_clients p)) k = map_of (cp_clients p) k" for x using False by (simp add: update_conv')
  have v: "map_of (AList.delete k' (cp_clients p)) k = map_of (cp_clients p) k" using False by (simp add: delete_conv')
  show ?thesis
    using s d False u v
    by (cases pc) (auto simp: call_step_def dead_entry_def cancel_client_def split: if_splits option.splits sum.splits ready_chan.splits)
qed

lemma dead_entry_step:
  assumes d: "dead_entry p k c" and inv: "pool_inv p" and s: "pool_step ev p = Some p'" and ev: "ev \<noteq> Close"
  shows "dead_entry p' k c"
proof (cases ev)
  case (GetClient t userID token)
  then show ?thesis using s d unfolding dead_entry_def by (fastforce simp: pool_step_def split: if_splits)
next
  case (Call t built timeout)
  then obtain g where "cp_calls p t = Some g" "call_step t built timeout (gc_key g) (gc_pc g) p = Some p'"
    using s by (auto simp: pool_step_def split: option.splits)
  then show ?thesis using dead_entry_call [OF d inv, of t "gc_key g" "gc_pc g" built timeout p'] by simp
next
  case (Client x ev')
  then obtain cl where cl: "cp_all p x = Some cl" "run_step x ev' cl p = Some p'" using s by (auto simp: pool_step_def split: option.splits)
  show ?thesis
  proof (cases "sc_key cl = k")
    case True
    then have "sc_run cl = Removed" using d cl(1) by (auto simp: dead_entry_def)
    then show ?thesis using cl(2) by (auto simp: run_step_def split: run_event.splits)
  next
    case False
    then have "map_of (AList.delete (sc_key cl) (cp_clients p)) k = map_of (cp_clients p) k" by (simp add: delete_conv')
    then show ?thesis using cl d False
      by (cases ev') (auto simp: run_step_def dead_entry_def split: if_splits)
  qed
qed (use ev in simp)

lemma dead_entry_run: "pool_run es p = Some p' \<Longrightarrow> Close \<notin> set es \<Longrightarrow> pool_inv p \<Longrightarrow> dead_entry p k c \<Longrightarrow> dead_entry p' k c"
  by (induction es arbitrary: p) (auto simp: bind_eq_Some_conv intro: dead_entry_step pool_inv_step)

text \<open>
  C32. A dead client is handed out for ever. If \<open>client.Run\<close> returns between closing \<open>ready\<close> and the store of the client in the map, its goroutine
  deletes the entry before it is there. In any such state, whatever happens as long as the pool is not closed, the entry stays
  and each new \<open>GetClient\<close> of the key returns at once the client that no longer runs.
\<close>

theorem ClientPool_dead_client:
  assumes "pool_run es0 NewClientPool = Some p" "dead_entry p (client_key userID token) c"
    and "pool_run es p = Some p'" "Close \<notin> set es" "cp_calls p' t = None"
  shows "map_option sc_run (cp_all p' c) = Some Removed
    \<and> (\<exists>q. pool_run [GetClient t userID token, Call t built timeout] p' = Some q
         \<and> map_option gc_pc (cp_calls q t) = Some (PDone (Inr c)))"
proof -
  have inv: "pool_inv p" by (rule pool_inv_run [OF assms(1) pool_inv_New])
  have inv': "pool_inv p'" by (rule pool_inv_run [OF assms(3) inv])
  have d: "dead_entry p' (client_key userID token) c" by (rule dead_entry_run [OF assms(3,4) inv assms(2)])
  then have m: "map_of (cp_clients p') (client_key userID token) = Some c" by (simp add: dead_entry_def)
  from pool_inv_cancelled [OF inv' m] d have "map_option sc_run (cp_all p' c) = Some Removed" "\<not> cancelled p' c"
    by (auto simp: dead_entry_def authorised_def)
  then show ?thesis using m assms(5) by (simp add: pool_step_def call_step_def cancelled_def)
qed


theorem ClientPool_dead_client_witness:
  "\<exists>p q. pool_run [GetClient 0 1 '''', Call 0 (Inr 7) False, Call 0 (Inr 7) False, Call 0 (Inr 7) False, Call 0 (Inr 7) False,
       Client 7 Authorised, Call 0 (Inr 7) False, Client 7 (RunEnds (EMsg ''connection dead'')), Client 7 Remove,
       Call 0 (Inr 7) False] NewClientPool = Some p
     \<and> map_option sc_run (cp_all p 7) = Some Removed
     \<and> pool_run [GetClient 1 1 '''', Call 1 (Inr 8) False] p = Some q \<and> map_option gc_pc (cp_calls q 1) = Some (PDone (Inr 7))"
proof -
  let ?es = "[GetClient 0 1 '''', Call 0 (Inr 7) False, Call 0 (Inr 7) False, Call 0 (Inr 7) False, Call 0 (Inr 7) False,
       Client 7 Authorised, Call 0 (Inr 7) False, Client 7 (RunEnds (EMsg ''connection dead'')), Client 7 Remove,
       Call 0 (Inr 7) False]"
  obtain p where p: "pool_run ?es NewClientPool = Some p" "dead_entry p (client_key 1 '''') 7" "cp_calls p 1 = None"
    by (simp add: pool_step_def call_step_def run_step_def NewClientPool_def dead_entry_def)
  from ClientPool_dead_client [OF p(1,2) _ _ p(3), of "[]" "Inr 8" False] p(1) show ?thesis by auto
qed

section \<open>The connection pool of a client (internal/pool/pool.go)\<close>

text \<open>
  The wrapper of \<open>telegram.Client\<close>'s own pool. An invoker of type \<open>'i\<close> comes from \<open>create\<close>, for the data centre of the client or another one.
\<close>

record 'i pool =
  pl_api :: 'i
  pl_middlewares :: "('i \<Rightarrow> 'i) list"
  pl_invoke :: "'i option"
  pl_close :: "'i option"

definition chainMiddlewares :: "'i \<Rightarrow> ('i \<Rightarrow> 'i) list \<Rightarrow> 'i" where
  "chainMiddlewares invoker chain = foldr (\<lambda>m i. m i) chain invoker"

definition NewPool :: "'i \<Rightarrow> ('i \<Rightarrow> 'i) list \<Rightarrow> 'i pool" where
  "NewPool c middlewares = \<lparr> pl_api = c, pl_middlewares = middlewares, pl_invoke = None, pl_close = None \<rparr>"

definition pool_invoker :: "int \<Rightarrow> (int option \<Rightarrow> svc_err + 'i) \<Rightarrow> int \<Rightarrow> 'i pool \<Rightarrow> 'i \<times> 'i pool" where
  "pool_invoker current create dc p =
     (case pl_invoke p of
        Some i \<Rightarrow> (i, p)
      | None \<Rightarrow>
          (case create (if dc = current then None else Some dc) of
             Inl e \<Rightarrow> (pl_api p, p)
           | Inr invoker \<Rightarrow>
               let i = chainMiddlewares invoker (pl_middlewares p)
               in (i, p\<lparr> pl_close := Some invoker, pl_invoke := Some i \<rparr>)))"

definition pool_Default :: "int \<Rightarrow> (int option \<Rightarrow> svc_err + 'i) \<Rightarrow> 'i pool \<Rightarrow> 'i \<times> 'i pool" where
  "pool_Default current create p = pool_invoker current create current p"

definition pool_close :: "('i \<Rightarrow> svc_err option) \<Rightarrow> 'i pool \<Rightarrow> svc_err option \<times> 'i pool" where
  "pool_close close p = (case pl_close p of None \<Rightarrow> (None, p) | Some i \<Rightarrow> (close i, p\<lparr> pl_close := None \<rparr>))"

lemma chainMiddlewares_app [simp]: "chainMiddlewares i (ms @ ns) = chainMiddlewares (chainMiddlewares i ns) ms"
  by (simp add: chainMiddlewares_def)

text \<open>
  The invoker of the first data centre serves all others, and it is still given out after the pool was closed.
\<close>

lemma pool_invoker_first:
  assumes "pool_invoker current create dc p = (i, q)" "pl_invoke q \<noteq> None" "q' = snd (pool_close close q)"
  shows "fst (pool_invoker current create dc' q) = i" "fst (pool_invoker current create dc' q') = i"
  using assms
  by (auto simp: pool_invoker_def pool_close_def Let_def split: option.splits sum.splits)

text \<open>No invoker is left open: what was created is closed once, by the first \<open>Close\<close>.\<close>

lemma pool_close_once:
  assumes "pl_close p = None" "pl_invoke p = None" "create (if dc = current then None else Some dc) = Inr inv"
    and "pool_invoker current create dc p = (i, q)" "pool_close close q = (e, r)"
  shows "e = close inv" "fst (pool_close close r) = None"
  using assms by (auto simp: pool_invoker_def pool_close_def Let_def)

end
