(* ===== verification/Router.thy ===== *)
theory Router
  imports Streaming
begin

text \<open>
  What stands in front of the generated server (pkg/services/api.go, file_resolve.go): the routes that are not in its
  specification, the mapping of errors to responses, and the tokens that lead to the folder of a shared file.
\<close>

section \<open>Routes\<close>

datatype ext_route =
    RZipBrowse string | RZipExtract string
  | RCbzBrowse string | RCbzExtract string | RCbzMetadata string | RCbzCover string
  | RUnityPkgBrowse string | RUnityPkgExtract string
  | RAuthWs | RFilesStream string | RSharesStream string string | REventsStream | RNext

text \<open>The file id and the action of a path under a prefix; the id is not empty.\<close>

definition archive_path :: "string \<Rightarrow> string \<Rightarrow> string \<Rightarrow> (string \<times> string) option" where
  "archive_path prefix method path =
     (if method = ''GET'' \<and> HasPrefix path prefix then
        let rest = TrimPrefix path prefix in
        (case Index rest CHR ''/'' of
           Some idx \<Rightarrow> if idx > 0 then Some (take idx rest, drop (idx + 1) rest) else None
         | None \<Rightarrow> None)
      else None)"

definition archive_route :: "string \<Rightarrow> string \<Rightarrow> ext_route option" where
  "archive_route method path =
     (let zip = (case archive_path ''/files/zip/'' method path of
            Some (i, action) \<Rightarrow> if action = ''list'' then Some (RZipBrowse i) else if action = ''file'' then Some (RZipExtract i) else None
          | None \<Rightarrow> None);
          cbz = (case archive_path ''/files/cbz/'' method path of
            Some (i, action) \<Rightarrow>
              if action = ''list'' then Some (RCbzBrowse i) else if action = ''file'' then Some (RCbzExtract i)
              else if action = ''metadata'' then Some (RCbzMetadata i) else if action = ''cover'' then Some (RCbzCover i) else None
          | None \<Rightarrow> None);
          unity = (case archive_path ''/files/unitypkg/'' method path of
            Some (i, action) \<Rightarrow>
              if action = ''list'' then Some (RUnityPkgBrowse i) else if action = ''file'' then Some (RUnityPkgExtract i) else None
          | None \<Rightarrow> None)
      in case zip of Some r \<Rightarrow> Some r | None \<Rightarrow> (case cbz of Some r \<Rightarrow> Some r | None \<Rightarrow> unity))"

text \<open>\<open>FindRoute\<close> is the generated router: the name of the operation and its arguments. A missing argument is a panic, \<open>None\<close>.\<close>

definition middleware_ServeHTTP :: "(string \<Rightarrow> string \<Rightarrow> (string \<times> string list) option) \<Rightarrow> string \<Rightarrow> string \<Rightarrow> ext_route option" where
  "middleware_ServeHTTP FindRoute method path =
     (case archive_route method path of
        Some r \<Rightarrow> Some r
      | None \<Rightarrow>
          (case FindRoute method path of
             None \<Rightarrow> Some RNext
           | Some (name, args) \<Rightarrow>
               if name = ''AuthWs'' then Some RAuthWs
               else if name = ''FilesStream'' then (case args of i # _ \<Rightarrow> Some (RFilesStream i) | [] \<Rightarrow> None)
               else if name = ''SharesStream'' then (case args of s # i # _ \<Rightarrow> Some (RSharesStream s i) | _ \<Rightarrow> None)
               else if name = ''EventsEventsStream'' then Some REventsStream
               else Some RNext))"

section \<open>Errors\<close>

text \<open>An error as \<open>NewError\<close> sees it: not implemented, an error of the generated code, or one of the service.\<close>

datatype any_error = NotImplemented | OgenError nat string | ServiceError svc_err

fun unwrap_api :: "svc_err \<Rightarrow> (svc_err \<times> nat) option" where
  "unwrap_api (ApiErr e c) = Some (e, c)"
| "unwrap_api _ = None"

definition StatusText :: "nat \<Rightarrow> string" where
  "StatusText code = (if code = 500 then ''Internal Server Error'' else if code = 501 then ''Not Implemented'' else '''')"

text \<open>\<open>errors.As\<close> finds the outermost \<open>apiError\<close>; \<open>errText\<close> is \<open>Error()\<close>, which of an \<open>apiError\<close> is that of the error inside.\<close>

definition NewError :: "(svc_err \<Rightarrow> string) \<Rightarrow> any_error \<Rightarrow> nat \<times> string" where
  "NewError errText err =
     (case err of
        NotImplemented \<Rightarrow> (501, StatusText 501)
      | OgenError code message \<Rightarrow> (code, message)
      | ServiceError e \<Rightarrow>
          (case unwrap_api e of
             None \<Rightarrow> (500, StatusText 500)
           | Some (inner, code) \<Rightarrow> if code = 0 then (500, StatusText 500) else (code, errText inner)))"

section \<open>Configuration and construction\<close>

record ServerConfig =
  sc_ZipDownloadEnabled :: bool
  sc_ShortlinksEnabled :: bool
  sc_ShortlinkDomain :: "string option"
  sc_ResizerHost :: "string option"

definition ConfigConfig :: "bool \<Rightarrow> bool \<Rightarrow> string \<Rightarrow> string \<Rightarrow> ServerConfig" where
  "ConfigConfig enableZipDownload shortlinks domain resizerHost =
     \<lparr> sc_ZipDownloadEnabled = enableZipDownload, sc_ShortlinksEnabled = shortlinks,
       sc_ShortlinkDomain = (if domain \<noteq> '''' then Some domain else None),
       sc_ResizerHost = (if resizerHost \<noteq> '''' then Some resizerHost else None) \<rparr>"

text \<open>\<open>None\<close> is no limit on archives; otherwise no slot of \<open>n\<close> is taken.\<close>

definition new_zipSlots :: "int \<Rightarrow> (nat \<times> nat) option" where
  "new_zipSlots lim = (if lim > 0 then Some (0, nat lim) else None)"

section \<open>The event stream\<close>

datatype es_input = CtxDone | EventClosed | EventSource "Event \<times> Source option" | Tick

datatype es_output = Connected | DataEvent Event Source | Keepalive

fun events_loop :: "es_input list \<Rightarrow> es_output list" where
  "events_loop [] = []"
| "events_loop (CtxDone # is) = []"
| "events_loop (EventClosed # is) = []"
| "events_loop (EventSource (e, src) # is) =
     (case src of None \<Rightarrow> events_loop is | Some s \<Rightarrow> DataEvent e s # events_loop is)"
| "events_loop (Tick # is) = Keepalive # events_loop is"

text \<open>
  Who may listen, and what is written for the inputs \<open>is\<close> of the loop; the second part is the user whose events are subscribed to.
\<close>

definition EventsEventsStream ::
    "(string \<Rightarrow> string \<Rightarrow> svc_err + JWTClaims \<times> bool) \<Rightarrow> string \<Rightarrow> bool \<Rightarrow> stream_request \<Rightarrow> es_input list \<Rightarrow> app
     \<Rightarrow> (svc_err \<times> nat + int \<times> es_output list) \<times> app" where
  "EventsEventsStream parse secret flusher r is a =
     (case rq_cookie r of
        None \<Rightarrow> (Inl (EMsg ''missing token or authash'', 401), a)
      | Some cookie \<Rightarrow>
          (case VerifyUser parse secret cookie a of
             (Inl e, a) \<Rightarrow> (Inl (EMsg ''invalid token'', 401), a)
           | (Inr user, a) \<Rightarrow>
               if \<not> flusher then (Inl (EMsg ''Streaming not supported'', 200), a)
               else (Inr (subject_id (jc_subject user), Connected # events_loop is), a)))"

section \<open>Tokens that lead to a folder (file_resolve.go)\<close>

record resolveToken =
  rt_fileID :: string
  rt_expiresAt :: int

type_synonym resolve_tokens = "(string \<times> resolveToken) list"

definition put_token :: "string \<Rightarrow> resolveToken \<Rightarrow> resolve_tokens \<Rightarrow> resolve_tokens" where
  "put_token k v toks = (k, v) # filter (\<lambda>(l, _). l \<noteq> k) toks"

text \<open>The body of the request is the file id, \<open>None\<close> if it is no JSON; \<open>token\<close> is the new UUID.\<close>

definition handleCreateResolveToken :: "int \<Rightarrow> string \<Rightarrow> string option \<Rightarrow> resolve_tokens \<Rightarrow> (nat \<times> string) \<times> resolve_tokens" where
  "handleCreateResolveToken now token body toks =
     (case body of
        None \<Rightarrow> ((400, ''fileId required''), toks)
      | Some fileID \<Rightarrow>
          if fileID = '''' then ((400, ''fileId required''), toks)
          else ((200, token), put_token token \<lparr> rt_fileID = fileID, rt_expiresAt = now + 60 \<rparr> toks))"

text \<open>
  The answer to \<open>GET /resolve/{token}\<close>: nothing (the page of the application is shown), or a status with an error or the path. The token is
  consumed before it is looked at. \<open>None\<close> is a query that does not end.
\<close>

datatype resolve_answer = RNothing | RError nat string | RPath string

definition ResolveHandler :: "int \<Rightarrow> int \<Rightarrow> string \<Rightarrow> FileRow list \<Rightarrow> resolve_tokens \<Rightarrow> (resolve_answer \<times> resolve_tokens) option" where
  "ResolveHandler now userId token rows toks =
     (if token = '''' then Some (RError 400 ''missing token'', toks)
      else if userId = 0 then Some (RNothing, toks)
      else
        let tok = map_of toks token; toks = filter (\<lambda>(l, _). l \<noteq> token) toks in
        (case tok of
           None \<Rightarrow> Some (RError 410 ''token expired or invalid'', toks)
         | Some t \<Rightarrow>
             if now > rt_expiresAt t then Some (RError 410 ''token expired or invalid'', toks)
             else
               map_option (\<lambda>path. (if path = '''' then RError 404 ''file not found'' else RPath path, toks))
                 (getFullPath rows (rt_fileID t))))"

definition cleanup_tokens :: "int \<Rightarrow> resolve_tokens \<Rightarrow> resolve_tokens" where
  "cleanup_tokens now toks = filter (\<lambda>(_, v). \<not> now > rt_expiresAt v) toks"

datatype resolve_event = CreateToken int string "string option" | ResolveToken int int string "FileRow list" | CleanupTokens int

text \<open>The answers of a sequence of requests and clean-ups, with what was asked.\<close>

fun resolve_run :: "resolve_event list \<Rightarrow> resolve_tokens \<Rightarrow> ((int \<times> string \<times> resolve_answer) list \<times> resolve_tokens) option" where
  "resolve_run [] toks = Some ([], toks)"
| "resolve_run (CreateToken now token body # es) toks = resolve_run es (snd (handleCreateResolveToken now token body toks))"
| "resolve_run (ResolveToken now userId token rows # es) toks =
     Option.bind (ResolveHandler now userId token rows toks) (\<lambda>(ans, toks).
       map_option (\<lambda>(as, toks). ((now, token, ans) # as, toks)) (resolve_run es toks))"
| "resolve_run (CleanupTokens now # es) toks = resolve_run es (cleanup_tokens now toks)"

section \<open>What the routes match\<close>

lemma archive_path_iff:
  "archive_path prefix method path = Some (i, action)
     \<longleftrightarrow> method = ''GET'' \<and> path = prefix @ i @ ''/'' @ action \<and> i \<noteq> '''' \<and> CHR ''/'' \<notin> set i"
proof
  assume a: "archive_path prefix method path = Some (i, action)"
  then obtain rest idx where r: "path = prefix @ rest" "Index rest CHR ''/'' = Some idx" "0 < idx" "i = take idx rest"
      "action = drop (idx + 1) rest" "method = ''GET''"
    by (auto simp: archive_path_def HasPrefix_iff Let_def split: if_splits option.splits)
  from Index_Some [OF r(2)] have "rest = take idx rest @ CHR ''/'' # drop (Suc idx) rest" "CHR ''/'' \<notin> set (take idx rest)" "idx < length rest"
    by (metis id_take_nth_drop, simp_all)
  with r show "method = ''GET'' \<and> path = prefix @ i @ ''/'' @ action \<and> i \<noteq> '''' \<and> CHR ''/'' \<notin> set i" by auto
next
  assume "method = ''GET'' \<and> path = prefix @ i @ ''/'' @ action \<and> i \<noteq> '''' \<and> CHR ''/'' \<notin> set i"
  then show "archive_path prefix method path = Some (i, action)"
    using Index_append [of "CHR ''/''" i action] by (simp add: archive_path_def Let_def)
qed

lemma option_None_if: "(\<And>x. a \<noteq> Some x) \<Longrightarrow> a = None"
  by (cases a) auto

text \<open>The prefix, id and action of the URL of a route.\<close>

fun archive_url :: "ext_route \<Rightarrow> (string \<times> string \<times> string) option" where
  "archive_url (RZipBrowse i) = Some (''/files/zip/'', i, ''list'')"
| "archive_url (RZipExtract i) = Some (''/files/zip/'', i, ''file'')"
| "archive_url (RCbzBrowse i) = Some (''/files/cbz/'', i, ''list'')"
| "archive_url (RCbzExtract i) = Some (''/files/cbz/'', i, ''file'')"
| "archive_url (RCbzMetadata i) = Some (''/files/cbz/'', i, ''metadata'')"
| "archive_url (RCbzCover i) = Some (''/files/cbz/'', i, ''cover'')"
| "archive_url (RUnityPkgBrowse i) = Some (''/files/unitypkg/'', i, ''list'')"
| "archive_url (RUnityPkgExtract i) = Some (''/files/unitypkg/'', i, ''file'')"
| "archive_url _ = None"

text \<open>
  Each of the routes that are not in the specification is taken for exactly its URLs: a \<open>GET\<close> of prefix, id and action, where the id is
  neither empty nor contains a slash.
\<close>

theorem archive_route_url:
  "archive_route method path = Some r
     \<longleftrightarrow> method = ''GET'' \<and> (\<exists>prefix i action. archive_url r = Some (prefix, i, action) \<and> path = prefix @ i @ ''/'' @ action
           \<and> i \<noteq> '''' \<and> CHR ''/'' \<notin> set i)"
proof -
  let ?z = "archive_path ''/files/zip/'' method path" and ?c = "archive_path ''/files/cbz/'' method path"
    and ?u = "archive_path ''/files/unitypkg/'' method path"
  have zc: "?c = Some x \<Longrightarrow> ?z = None" and zu: "?u = Some x \<Longrightarrow> ?z = None" and cu: "?u = Some x \<Longrightarrow> ?c = None" for x
    by (cases x; auto simp: archive_path_iff simp del: not_None_eq intro!: option_None_if)+
  show ?thesis
  proof
    assume "archive_route method path = Some r"
    then have "\<exists>prefix i action. archive_url r = Some (prefix, i, action) \<and> archive_path prefix method path = Some (i, action)"
      by (cases ?z; cases ?c; cases ?u) (auto simp: archive_route_def Let_def split: if_splits)
    then show "method = ''GET'' \<and> (\<exists>prefix i action. archive_url r = Some (prefix, i, action) \<and> path = prefix @ i @ ''/'' @ action
           \<and> i \<noteq> '''' \<and> CHR ''/'' \<notin> set i)" unfolding archive_path_iff by blast
  next
    assume "method = ''GET'' \<and> (\<exists>prefix i action. archive_url r = Some (prefix, i, action) \<and> path = prefix @ i @ ''/'' @ action
           \<and> i \<noteq> '''' \<and> CHR ''/'' \<notin> set i)"
    then obtain prefix i action where r: "archive_url r = Some (prefix, i, action)" "archive_path prefix method path = Some (i, action)"
      unfolding archive_path_iff by blast
    then show "archive_route method path = Some r"
      by (cases r) (auto simp: archive_route_def Let_def zc zu cu)
  qed
qed

text \<open>
  What a client sees of an error. Unless the service gave the error a status, the answer is 500 without a word about it; otherwise it is that
  status and the text of the error inside. The status of an error that was wrapped again without one is lost.
\<close>

theorem NewError_response:
  "NewError errText (ServiceError e)
     = (case e of ApiErr inner code \<Rightarrow> if code = 0 then (500, ''Internal Server Error'') else (code, errText inner)
        | _ \<Rightarrow> (500, ''Internal Server Error''))
   \<and> fst (NewError errText (ServiceError e)) = NewError_status e
   \<and> NewError errText (ServiceError (ApiErr (ApiErr e c) 0)) = (500, ''Internal Server Error'')"
  by (cases e) (simp_all add: NewError_def NewError_status_def StatusText_def)

section \<open>A token is used once\<close>

definition creates :: "string \<Rightarrow> resolve_event \<Rightarrow> bool" where
  "creates k e = (case e of CreateToken _ k' (Some f) \<Rightarrow> k' = k \<and> f \<noteq> '''' | _ \<Rightarrow> False)"

fun leads_to_path :: "string \<Rightarrow> int \<times> string \<times> resolve_answer \<Rightarrow> bool" where
  "leads_to_path k (now, k', RPath p) = (k' = k)"
| "leads_to_path k _ = False"

lemma map_of_other_tokens: "map_of (filter (\<lambda>(l, _). l \<noteq> k) xs) j = (if j = k then None else map_of xs j)"
  by (induction xs) auto

lemma create_token_map:
  "map_of (snd (handleCreateResolveToken now k' body toks)) k
     = (if creates k (CreateToken now k' body) then Some \<lparr> rt_fileID = the body, rt_expiresAt = now + 60 \<rparr> else map_of toks k)"
  by (auto simp: handleCreateResolveToken_def put_token_def map_of_other_tokens creates_def split: option.splits)

lemma ResolveHandler_cases:
  assumes "ResolveHandler now userId k' rows toks = Some (ans, toks')"
  shows "map_of toks' k = (if k = k' \<and> k' \<noteq> '''' \<and> userId \<noteq> 0 then None else map_of toks k)"
    and "ans = RPath p \<Longrightarrow> k' \<noteq> '''' \<and> userId \<noteq> 0
      \<and> (\<exists>t. map_of toks k' = Some t \<and> now \<le> rt_expiresAt t \<and> getFullPath rows (rt_fileID t) = Some p \<and> p \<noteq> '''')"
  using assms
  by (auto simp: ResolveHandler_def map_of_other_tokens Let_def split: if_splits option.splits)

lemma cleanup_map: "distinct (map fst toks) \<Longrightarrow> map_of (cleanup_tokens now toks) k \<in> {None, map_of toks k}"
proof (cases "map_of (cleanup_tokens now toks) k")
  case (Some v)
  then have "(k, v) \<in> set toks" by (auto simp: cleanup_tokens_def dest!: map_of_SomeD)
  moreover assume "distinct (map fst toks)"
  ultimately show ?thesis using Some by simp
qed simp

lemma tokens_distinct:
  "distinct (map fst toks) \<Longrightarrow> distinct (map fst (filter P toks))"
  "distinct (map fst toks) \<Longrightarrow> distinct (map fst (put_token k v toks))"
  by (auto simp: put_token_def distinct_map_filter)

lemma handleCreate_distinct: "distinct (map fst toks) \<Longrightarrow> distinct (map fst (snd (handleCreateResolveToken now k body toks)))"
  by (auto simp: handleCreateResolveToken_def tokens_distinct split: option.splits)

lemma ResolveHandler_distinct:
  "ResolveHandler now userId k rows toks = Some (ans, toks') \<Longrightarrow> distinct (map fst toks) \<Longrightarrow> distinct (map fst toks')"
  by (auto simp: ResolveHandler_def Let_def tokens_distinct split: if_splits option.splits)

lemma resolve_run_count:
  "resolve_run es toks = Some (as, toks') \<Longrightarrow> distinct (map fst toks) \<Longrightarrow>
     length (filter (leads_to_path k) as) \<le> (if map_of toks k = None then 0 else 1) + length (filter (creates k) es)"
proof (induction es toks arbitrary: as rule: resolve_run.induct)
  case (2 now token body es toks)
  from 2(1) [OF _ handleCreate_distinct [OF 2(3)]] 2(2) show ?case
    using create_token_map [of now token body toks k] by (auto split: if_splits)
next
  case (3 now userId token rows es toks)
  then obtain ans toks1 as' where r: "ResolveHandler now userId token rows toks = Some (ans, toks1)"
    "resolve_run es toks1 = Some (as', toks')" "as = (now, token, ans) # as'" by (auto simp: bind_eq_Some_conv)
  have ih: "length (filter (leads_to_path k) as') \<le> (if map_of toks1 k = None then 0 else 1) + length (filter (creates k) es)"
    by (rule 3(1)) (use r ResolveHandler_distinct [OF r(1) 3(3)] in auto)
  note m = ResolveHandler_cases(1) [OF r(1), of k] and p = ResolveHandler_cases(2) [OF r(1)]
  have c: "\<not> creates k (ResolveToken now userId token rows)" by (simp add: creates_def)
  show ?case
  proof (cases "leads_to_path k (now, token, ans)")
    case True
    then obtain q where q: "ans = RPath q" "token = k" by (cases ans) auto
    from p [OF q(1)] q(2) have "map_of toks k \<noteq> None" "map_of toks1 k = None" using m by auto
    then show ?thesis using ih r(3) True c by auto
  next
    case False
    then show ?thesis using ih m r(3) c by (auto split: if_splits)
  qed
next
  case (4 now es toks)
  have "distinct (map fst (cleanup_tokens now toks))" unfolding cleanup_tokens_def by (rule tokens_distinct(1) [OF 4(3)])
  from 4(1) [OF _ this] 4(2) show ?case using cleanup_map [OF 4(3), of now k] by (auto simp: creates_def split: if_splits)
qed simp

lemma resolve_run_time:
  "resolve_run es toks = Some (as, toks') \<Longrightarrow> distinct (map fst toks)
     \<Longrightarrow> \<forall>k v. map_of toks k = Some v \<longrightarrow> (\<exists>t. CreateToken t k (Some (rt_fileID v)) \<in> E \<and> rt_expiresAt v = t + 60)
     \<Longrightarrow> set es \<subseteq> E \<Longrightarrow> (now, k, RPath p) \<in> set as
     \<Longrightarrow> \<exists>t f rows uid. CreateToken t k (Some f) \<in> E \<and> now \<le> t + 60 \<and> uid \<noteq> 0 \<and> ResolveToken now uid k rows \<in> E \<and> getFullPath rows f = Some p"
proof (induction es toks arbitrary: as rule: resolve_run.induct)
  case (2 now' token body es toks)
  have inv: "\<forall>k v. map_of (snd (handleCreateResolveToken now' token body toks)) k = Some v
      \<longrightarrow> (\<exists>t. CreateToken t k (Some (rt_fileID v)) \<in> E \<and> rt_expiresAt v = t + 60)"
    using 2(4,5) by (auto simp: create_token_map creates_def split: option.splits)
  from 2(1) [OF _ handleCreate_distinct [OF 2(3)] inv] 2(2,5,6) show ?case by auto
next
  case (3 now' userId token rows es toks)
  then obtain ans toks1 as' where r: "ResolveHandler now' userId token rows toks = Some (ans, toks1)"
    "resolve_run es toks1 = Some (as', toks')" "as = (now', token, ans) # as'" by (auto simp: bind_eq_Some_conv)
  have inv: "\<forall>k v. map_of toks1 k = Some v \<longrightarrow> (\<exists>t. CreateToken t k (Some (rt_fileID v)) \<in> E \<and> rt_expiresAt v = t + 60)"
    using 3(4) ResolveHandler_cases(1) [OF r(1)] by (auto split: if_splits)
  show ?case
  proof (cases "(now, k, RPath p) \<in> set as'")
    case True
    show ?thesis by (rule 3(1)) (use True r ResolveHandler_distinct [OF r(1) 3(3)] inv 3(5) in auto)
  next
    case False
    then have "now = now'" "k = token" "ans = RPath p" using 3(6) r(3) by auto
    with ResolveHandler_cases(2) [OF r(1)] obtain t where t: "userId \<noteq> 0" "map_of toks k = Some t" "now \<le> rt_expiresAt t"
      "getFullPath rows (rt_fileID t) = Some p" by auto
    with 3(4) obtain c where "CreateToken c k (Some (rt_fileID t)) \<in> E" "rt_expiresAt t = c + 60" by blast
    then show ?thesis using t 3(5) \<open>now = now'\<close> \<open>k = token\<close> by (intro exI [of _ c] exI [of _ "rt_fileID t"]) auto
  qed
next
  case (4 now' es toks)
  have "distinct (map fst (cleanup_tokens now' toks))" unfolding cleanup_tokens_def by (rule tokens_distinct(1) [OF 4(3)])
  moreover have "\<forall>k v. map_of (cleanup_tokens now' toks) k = Some v \<longrightarrow> (\<exists>t. CreateToken t k (Some (rt_fileID v)) \<in> E \<and> rt_expiresAt v = t + 60)"
  proof (intro allI impI)
    fix k v assume "map_of (cleanup_tokens now' toks) k = Some v"
    with cleanup_map [OF 4(3), of now' k] have "map_of toks k = Some v" by auto
    with 4(4) show "\<exists>t. CreateToken t k (Some (rt_fileID v)) \<in> E \<and> rt_expiresAt v = t + 60" by blast
  qed
  ultimately show ?case using 4(1) [of as] 4(2,5,6) by simp
qed simp

text \<open>
  Tokens are for one use and for a minute. In any sequence of requests and clean-ups a token leads to a path at most as often as it was created, and
  each time to the path of the file it was created for, no later than 60 seconds after. Neither the creator nor the one who
  resolves it need own the file.
\<close>

theorem resolve_once:
  assumes "resolve_run es [] = Some (as, toks)"
  shows "length (filter (leads_to_path k) as) \<le> length (filter (creates k) es)
    \<and> ((now, k, RPath p) \<in> set as \<longrightarrow> (\<exists>t f rows uid. CreateToken t k (Some f) \<in> set es \<and> now \<le> t + 60 \<and> uid \<noteq> 0
        \<and> ResolveToken now uid k rows \<in> set es \<and> getFullPath rows f = Some p))"
  using resolve_run_count [OF assms, of k] resolve_run_time [OF assms, of "set es" now k p] by simp

theorem resolve_once_witness:
  "\<exists>as toks. resolve_run [CreateToken 5 ''t'' (Some ''f''), ResolveToken 9 8 ''t'' share_rows, ResolveToken 10 8 ''t'' share_rows] []
      = Some (as, toks) \<and> length (filter (leads_to_path ''t'') as) \<le> 1 \<and> (9, ''t'', RPath ''/docs/a.txt'') \<in> set as"
proof -
  let ?es = "[CreateToken 5 ''t'' (Some ''f''), ResolveToken 9 8 ''t'' share_rows, ResolveToken 10 8 ''t'' share_rows]"
  have p: "getFullPath share_rows ''f'' = Some ''/docs/a.txt''"
    using getFullPath_active [OF share_rows_inv(1) share_rows_active(3)] by simp
  obtain as toks where r: "resolve_run ?es [] = Some (as, toks)" "(9, ''t'', RPath ''/docs/a.txt'') \<in> set as"
    using p by (simp add: handleCreateResolveToken_def put_token_def ResolveHandler_def)
  from resolve_once [OF r(1), of "''t''"] have "length (filter (leads_to_path ''t'') as) \<le> 1" by (simp add: creates_def)
  with r show ?thesis by blast
qed

end
