(* ===== verification/Login.thy ===== *)
theory Login
  imports Uploads
begin

text \<open>
  Logging in over the web socket (the second half of pkg/services/auth.go): the three ways to sign in, the session string handed to the
  client, and what \<open>AuthLogin\<close> makes of it; with it the list of sessions (pkg/services/user.go) and the settings of the
  instance (pkg/services/settings.go). The calls to Telegram are parameters.
\<close>

section \<open>The session string\<close>

text \<open>
  \<open>net.ParseIP(s).To4()\<close> for dotted decimals, the only form in the table of data centres; of the empty string it is nil, the number 0.
\<close>

definition ip_octet :: "string \<Rightarrow> 8 word option" where
  "ip_octet s =
     (if s = [] \<or> length s > 3 \<or> \<not> list_all is_digit s \<or> (length s > 1 \<and> hd s = CHR ''0'') then None
      else case ParseInt s of Some n \<Rightarrow> if n \<le> 255 then Some (of_int n) else None | None \<Rightarrow> None)"

definition ParseIP :: "string \<Rightarrow> 8 word list" where
  "ParseIP s =
     (case map ip_octet (Split s CHR ''.'') of
        [Some a, Some b, Some c, Some d] \<Rightarrow> [a, b, c, d]
      | _ \<Rightarrow> [])"

text \<open>\<open>big.Int.SetBytes\<close> and \<open>Int64\<close>, of at most four bytes.\<close>

definition ip4toInt :: "8 word list \<Rightarrow> int" where
  "ip4toInt bs = foldl (\<lambda>n b. n * 256 + uint b) 0 bs"

definition be32 :: "32 word \<Rightarrow> 8 word list" where
  "be32 w = [ucast (drop_bit 24 w), ucast (drop_bit 16 w), ucast (drop_bit 8 w), ucast w]"

definition be16 :: "16 word \<Rightarrow> 8 word list" where
  "be16 w = [ucast (drop_bit 8 w), ucast w]"

definition pack32BinaryIP4 :: "string \<Rightarrow> 8 word list" where
  "pack32BinaryIP4 ip4Address = be32 (of_int (ip4toInt (ParseIP ip4Address)))"

definition dcMaps :: "int \<Rightarrow> string" where
  "dcMaps dcId =
     (if dcId = 1 then ''149.154.175.53'' else if dcId = 2 then ''149.154.167.51''
      else if dcId = 3 then ''149.154.175.100'' else if dcId = 4 then ''149.154.167.91''
      else if dcId = 5 then ''91.108.56.130'' else '''')"

definition generateTgSession :: "int \<Rightarrow> 8 word list \<Rightarrow> int \<Rightarrow> string" where
  "generateTgSession dcId authKey port =
     CHR ''1'' # base64url ([of_int dcId] @ pack32BinaryIP4 (dcMaps dcId) @ be16 (of_int port) @ authKey)"

record tg_user =
  tu_id :: int
  tu_username :: string
  tu_firstName :: string
  tu_lastName :: string
  tu_premium :: bool

record session_data =
  sd_DC :: int
  sd_AuthKey :: "8 word list"

definition prepareSession :: "tg_user \<Rightarrow> session_data \<Rightarrow> SessionCreate" where
  "prepareSession u d =
     \<lparr> cr_session = generateTgSession (sd_DC d) (sd_AuthKey d) 443, cr_userId = tu_id u, cr_userName = tu_username u,
       cr_name = tu_firstName u @ '' '' @ tu_lastName u, cr_premium = tu_premium u \<rparr>"

section \<open>Cookies\<close>

text \<open>\<open>http.Cookie.String\<close> for a valid name: bytes that may not stand in a value are dropped, spaces and commas make it quoted.\<close>

definition cookie_byte :: "char \<Rightarrow> bool" where
  "cookie_byte c \<longleftrightarrow> (let n = of_char c :: nat in 32 \<le> n \<and> n < 127 \<and> c \<noteq> CHR ''\"'' \<and> c \<noteq> CHR '';'' \<and> n \<noteq> 92)"

definition sanitizeCookieValue :: "string \<Rightarrow> string" where
  "sanitizeCookieValue v =
     (let v = filter cookie_byte v
      in if CHR '' '' \<in> set v \<or> CHR '','' \<in> set v then CHR ''\"'' # v @ [CHR ''\"''] else v)"

definition setCookie :: "string \<Rightarrow> string \<Rightarrow> int \<Rightarrow> string" where
  "setCookie name v maxAge =
     name @ ''='' @ sanitizeCookieValue v @ ''; Path=/''
     @ (if maxAge > 0 then ''; Max-Age='' @ show_int maxAge else if maxAge < 0 then ''; Max-Age=0'' else '''')
     @ ''; HttpOnly; SameSite=Lax''"

section \<open>The web socket\<close>

record SocketMessage =
  sm_authType :: string
  sm_message :: string
  sm_phoneNo :: string
  sm_phoneCodeHash :: string
  sm_phoneCode :: string
  sm_password :: string

text \<open>An error as the handlers tell it apart: \<open>RpcError\<close> carries the type \<open>tgerr.Is\<close> compares.\<close>

datatype login_err = Canceled | RpcError string | PasswordAuthNeeded | OtherErr string

text \<open>
  What Telegram answers at the time of a message: the URLs shown and the outcome of the QR login, the calls for codes and passwords, and
  the session the client stored. \<open>None\<close> for a user is an empty one, for a session one that cannot be loaded, for a code an answer that is no
  \<open>AuthSentCode\<close>, whose type assertion panics.
\<close>

record tg_answers =
  ta_qr :: "string list \<times> (login_err + tg_user option)"
  ta_sendCode :: "string \<Rightarrow> login_err + string option"
  ta_signIn :: "string \<Rightarrow> string \<Rightarrow> string \<Rightarrow> login_err + tg_user option"
  ta_password :: "string \<Rightarrow> login_err + tg_user option"
  ta_session :: "session_data option"
  ta_errText :: "login_err \<Rightarrow> string"

datatype ws_action =
    SendToken string
  | SendAuth string
  | SendError string
  | SendCodeHash string
  | SendSuccess SessionCreate
  | LogOutTelegram
  | Panic

definition loaded_session :: "tg_answers \<Rightarrow> session_data" where
  "loaded_session w = (case ta_session w of None \<Rightarrow> \<lparr> sd_DC = 0, sd_AuthKey = [] \<rparr> | Some d \<Rightarrow> d)"

text \<open>The end all three handlers share.\<close>

definition finish_login :: "string list \<Rightarrow> tg_answers \<Rightarrow> tg_user option \<Rightarrow> ws_action list" where
  "finish_login allowedUsers w u =
     (case u of
        None \<Rightarrow> [SendError ''auth failed'']
      | Some user \<Rightarrow>
          if \<not> checkUserIsAllowed allowedUsers (tu_username user) then [SendError ''user not allowed'', LogOutTelegram]
          else [SendSuccess (prepareSession user (loaded_session w))])"

definition handleQRAuth :: "string list \<Rightarrow> tg_answers \<Rightarrow> ws_action list" where
  "handleQRAuth allowedUsers w =
     map SendToken (fst (ta_qr w)) @
     (case snd (ta_qr w) of
        Inl err \<Rightarrow>
          if err = Canceled then []
          else if err = RpcError ''SESSION_PASSWORD_NEEDED'' then [SendAuth ''2FA required'']
          else [SendError (ta_errText w err)]
      | Inr u \<Rightarrow> finish_login allowedUsers w u)"

definition handlePhoneAuth :: "string list \<Rightarrow> tg_answers \<Rightarrow> SocketMessage \<Rightarrow> ws_action list" where
  "handlePhoneAuth allowedUsers w m =
     (if sm_message m = ''sendcode'' then
        (case ta_sendCode w (sm_phoneNo m) of
           Inl err \<Rightarrow> if err = Canceled then [] else [SendError (ta_errText w err)]
         | Inr (Some h) \<Rightarrow> [SendCodeHash h]
         | Inr None \<Rightarrow> [Panic])
      else if sm_message m = ''signin'' then
        (case ta_signIn w (sm_phoneNo m) (sm_phoneCode m) (sm_phoneCodeHash m) of
           Inl err \<Rightarrow>
             if err = Canceled then []
             else if err = PasswordAuthNeeded then [SendAuth (ta_errText w PasswordAuthNeeded)]
             else if err = RpcError ''PHONE_CODE_INVALID'' then [SendAuth ''PHONE_CODE_INVALID'']
             else [SendError (ta_errText w err)]
         | Inr u \<Rightarrow> finish_login allowedUsers w u)
      else [])"

definition handle2FAAuth :: "string list \<Rightarrow> tg_answers \<Rightarrow> string \<Rightarrow> ws_action list" where
  "handle2FAAuth allowedUsers w password =
     (case ta_password w password of
        Inl err \<Rightarrow> if err = Canceled then [] else [SendError (ta_errText w err)]
      | Inr u \<Rightarrow> finish_login allowedUsers w u)"

definition ws_dispatch :: "string list \<Rightarrow> tg_answers \<Rightarrow> SocketMessage \<Rightarrow> ws_action list" where
  "ws_dispatch allowedUsers w m =
     (if sm_authType m = ''qr'' then handleQRAuth allowedUsers w
      else if sm_authType m = ''phone'' then handlePhoneAuth allowedUsers w m
      else if sm_authType m = ''2fa'' \<and> sm_password m \<noteq> '''' then handle2FAAuth allowedUsers w (sm_password m)
      else [])"

text \<open>
  The loop of \<open>AuthWs\<close> and its goroutines: messages still to be read, with what Telegram will answer them; for each goroutine what it
  has still to do; and what was sent. A message starts a goroutine, and goroutines act in any order.
\<close>

record ws_state =
  ws_in :: "(SocketMessage \<times> tg_answers) list"
  ws_go :: "ws_action list list"
  ws_out :: "ws_action list"

inductive ws_step :: "string list \<Rightarrow> ws_state \<Rightarrow> ws_state \<Rightarrow> bool" for allowedUsers where
  read: "ws_step allowedUsers \<lparr> ws_in = (m, w) # ms, ws_go = gs, ws_out = out \<rparr>
           \<lparr> ws_in = ms, ws_go = gs @ [ws_dispatch allowedUsers w m], ws_out = out \<rparr>"
| act: "i < length gs \<Longrightarrow> gs ! i = x # xs
     \<Longrightarrow> ws_step allowedUsers \<lparr> ws_in = ms, ws_go = gs, ws_out = out \<rparr> \<lparr> ws_in = ms, ws_go = gs[i := xs], ws_out = out @ [x] \<rparr>"

definition AuthWs_start :: "(SocketMessage \<times> tg_answers) list \<Rightarrow> ws_state" where
  "AuthWs_start ms = \<lparr> ws_in = ms, ws_go = [], ws_out = [] \<rparr>"

section \<open>The sessions of a user (pkg/services/user.go)\<close>

text \<open>
  \<open>auths\<close> is what Telegram answers, an error being its type; the list is cached under the key of the user, here in a store of its own. The
  inner error of the result is Telegram's.
\<close>

definition UsersListSessions ::
    "(string \<Rightarrow> login_err + Authorization list) \<Rightarrow> JWTClaims \<Rightarrow> SessionRow list \<Rightarrow> UserSession list cmap
     \<Rightarrow> ((cache_err + login_err) + UserSession list) \<times> UserSession list cmap" where
  "UsersListSessions auths claims sessions cache =
     (let userId = subject_id (jc_subject claims); userSession = jc_tgSession claims in
      Fetch cm_Get cm_Set (KeyUserSessions userId) 0
        (\<lambda>s. case auths userSession of
               Inl err \<Rightarrow>
                 if err \<noteq> RpcError ''AUTH_KEY_UNREGISTERED'' then (Inl err, s)
                 else (Inr (map (list_session userSession None)
                   (rev (sort_key se_created (rev (filter (\<lambda>r. se_user r = userId) sessions))))), s)
             | Inr as \<Rightarrow> (Inr (map (list_session userSession (Some as))
                   (rev (sort_key se_created (rev (filter (\<lambda>r. se_user r = userId) sessions))))), s))
        cache)"

section \<open>Settings of the instance (pkg/services/settings.go)\<close>

record ThumbnailSettings =
  th_host :: string
  th_width :: int
  th_quality :: int

text \<open>
  A JSON object with some of the fields; \<open>json.Unmarshal\<close> sets those. The row of the key \<open>thumbnail\<close> holds such an object.
\<close>

type_synonym thumb_json = "string option \<times> int option \<times> int option"

definition unmarshal_thumb :: "thumb_json \<Rightarrow> ThumbnailSettings \<Rightarrow> ThumbnailSettings" where
  "unmarshal_thumb j t =
     (case j of (h, w, q) \<Rightarrow>
        \<lparr> th_host = (case h of None \<Rightarrow> th_host t | Some x \<Rightarrow> x), th_width = (case w of None \<Rightarrow> th_width t | Some x \<Rightarrow> x),
          th_quality = (case q of None \<Rightarrow> th_quality t | Some x \<Rightarrow> x) \<rparr>)"

definition marshal_thumb :: "ThumbnailSettings \<Rightarrow> thumb_json" where
  "marshal_thumb t = (Some (th_host t), Some (th_width t), Some (th_quality t))"

definition handleGetThumbnailSettings :: "thumb_json option \<Rightarrow> ThumbnailSettings" where
  "handleGetThumbnailSettings row =
     (let resp = \<lparr> th_host = '''', th_width = 360, th_quality = 80 \<rparr>
      in case row of None \<Rightarrow> resp | Some v \<Rightarrow> unmarshal_thumb v resp)"

text \<open>The body is \<open>None\<close> if it is no JSON; \<open>saves\<close> says whether the statement succeeds.\<close>

definition handlePutThumbnailSettings ::
    "int \<Rightarrow> thumb_json option \<Rightarrow> bool \<Rightarrow> thumb_json option \<Rightarrow> (nat \<times> string + ThumbnailSettings) \<times> thumb_json option" where
  "handlePutThumbnailSettings userId body saves row =
     (if userId = 0 then (Inl (401, ''unauthorized''), row)
      else case body of
        None \<Rightarrow> (Inl (400, ''invalid request body''), row)
      | Some j \<Rightarrow>
          let req = unmarshal_thumb j \<lparr> th_host = '''', th_width = 0, th_quality = 0 \<rparr>
          in if \<not> saves then (Inl (500, ''failed to save settings''), row)
             else (Inr req, Some (marshal_thumb req)))"

section \<open>Theorems\<close>

definition b64_index :: "char \<Rightarrow> nat" where
  "b64_index c = (let n = of_char c :: nat in
     if 65 \<le> n \<and> n \<le> 90 then n - 65 else if 97 \<le> n \<and> n \<le> 122 then n - 71
     else if 48 \<le> n \<and> n \<le> 57 then n + 4 else if c = CHR ''-'' then 62 else 63)"

text \<open>What the receiver of a session string reads: \<open>base64.URLEncoding.DecodeString\<close> for well-formed input.\<close>

fun base64url_bytes :: "string \<Rightarrow> 8 word list" where
  "base64url_bytes (a # b # c # d # rest) =
     (let w = b64_index a; x = b64_index b; y = b64_index c; z = b64_index d in
      if c = CHR ''='' then [of_nat (w * 4 + x div 16)]
      else if d = CHR ''='' then [of_nat (w * 4 + x div 16), of_nat (x mod 16 * 16 + y div 4)]
      else of_nat (w * 4 + x div 16) # of_nat (x mod 16 * 16 + y div 4) # of_nat (y mod 4 * 64 + z) # base64url_bytes rest)"
| "base64url_bytes _ = []"

lemma b64_alphabet:
  "map b64_index ''ABCDEFGHIJKLMNOPQRSTUVWXYZabcdefghijklmnopqrstuvwxyz0123456789-_'' = [0..<64]"
  "CHR ''='' \<notin> set ''ABCDEFGHIJKLMNOPQRSTUVWXYZabcdefghijklmnopqrstuvwxyz0123456789-_''"
  by code_simp+

lemma b64_index_char [simp]: "b64_index (b64_char n) = n mod 64"
proof -
  have "b64_index (b64_char n) = map b64_index ''ABCDEFGHIJKLMNOPQRSTUVWXYZabcdefghijklmnopqrstuvwxyz0123456789-_'' ! (n mod 64)"
    unfolding b64_char_def by (rule nth_map [symmetric]) simp
  then show ?thesis unfolding b64_alphabet by simp
qed

lemma b64_char_pad [simp]: "b64_char n \<noteq> CHR ''=''"
proof -
  have "b64_char n \<in> set ''ABCDEFGHIJKLMNOPQRSTUVWXYZabcdefghijklmnopqrstuvwxyz0123456789-_''"
    unfolding b64_char_def by (rule nth_mem) simp
  with b64_alphabet(2) show ?thesis by metis
qed

lemma sextet_parts:
  fixes x y k :: nat
  assumes "y < k" "k * m = 64" "x < m"
  shows "(x * k + y) mod 64 div k = x" "(x * k + y) mod 64 mod k = y"
proof -
  have "x * k + y < Suc x * k" using assms(1) by simp
  also have "\<dots> \<le> m * k" using assms(3) by (intro mult_le_mono1) simp
  finally have "x * k + y < 64" using assms(2) by (simp add: mult.commute)
  then show "(x * k + y) mod 64 div k = x" "(x * k + y) mod 64 mod k = y" using assms(1) by simp_all
qed

lemma sextets:
  fixes a b c :: "8 word"
  shows "of_nat (unat a div 4 mod 64 * 4 + (unat a mod 4 * 16 + unat b div 16) mod 64 div 16) = a"
    and "of_nat ((unat a mod 4 * 16 + unat b div 16) mod 64 mod 16 * 16 + (unat b mod 16 * 4 + unat c div 64) mod 64 div 4) = b"
    and "of_nat ((unat b mod 16 * 4 + unat c div 64) mod 64 mod 4 * 64 + unat c mod 64 mod 64) = c"
proof -
  have l: "unat x < 256" for x :: "8 word" using unsigned_less [of x] by simp
  have ab: "(unat a mod 4 * 16 + unat b div 16) mod 64 div 16 = unat a mod 4" "(unat a mod 4 * 16 + unat b div 16) mod 64 mod 16 = unat b div 16"
    by (rule sextet_parts [where m = 4]; use l [of b] in simp)+
  have bc: "(unat b mod 16 * 4 + unat c div 64) mod 64 div 4 = unat b mod 16" "(unat b mod 16 * 4 + unat c div 64) mod 64 mod 4 = unat c div 64"
    by (rule sextet_parts [where m = 16]; use l [of c] in simp)+
  have "unat a div 4 mod 64 = unat a div 4" using l [of a] by simp
  then show "of_nat (unat a div 4 mod 64 * 4 + (unat a mod 4 * 16 + unat b div 16) mod 64 div 16) = a"
    by (simp only: ab div_mult_mod_eq) simp
  show "of_nat ((unat a mod 4 * 16 + unat b div 16) mod 64 mod 16 * 16 + (unat b mod 16 * 4 + unat c div 64) mod 64 div 4) = b"
    by (simp only: ab bc div_mult_mod_eq) simp
  show "of_nat ((unat b mod 16 * 4 + unat c div 64) mod 64 mod 4 * 64 + unat c mod 64 mod 64) = c"
    by (simp only: bc mod_mod_trivial div_mult_mod_eq) simp
qed

lemma base64url_bytes_base64url: "base64url_bytes (base64url bs) = bs"
proof (induction bs rule: base64url.induct)
  case (2 a)
  show ?case using sextets(1) [of a 0] by (simp add: Let_def)
next
  case (3 a b)
  show ?case using sextets(1) [of a b] sextets(2) [of a b 0] by (simp add: Let_def)
next
  case (4 a b c bs)
  from 4 sextets(1) [of a b] sextets(2) [of a b c] sextets(3) [of b c] show ?case by (simp add: Let_def)
qed simp

lemma pack32_values:
  "pack32BinaryIP4 (dcMaps 1) = [149, 154, 175, 53]" "pack32BinaryIP4 (dcMaps 2) = [149, 154, 167, 51]"
  "pack32BinaryIP4 (dcMaps 3) = [149, 154, 175, 100]" "pack32BinaryIP4 (dcMaps 4) = [149, 154, 167, 91]"
  "pack32BinaryIP4 (dcMaps 5) = [91, 108, 56, 130]" "pack32BinaryIP4 '''' = [0, 0, 0, 0]"
  by code_simp+

text \<open>
  The session string. Whoever decodes it reads the number of the data centre, its address (four zeros for one that is not in the
  table), the port in two bytes and the key, whole and in this order.
\<close>

theorem generateTgSession_decodes:
  "hd (generateTgSession dc key port) = CHR ''1''
   \<and> base64url_bytes (tl (generateTgSession dc key port))
     = of_int dc #
       (if dc = 1 then [149, 154, 175, 53] else if dc = 2 then [149, 154, 167, 51] else if dc = 3 then [149, 154, 175, 100]
        else if dc = 4 then [149, 154, 167, 91] else if dc = 5 then [91, 108, 56, 130] else [0, 0, 0, 0])
       @ be16 (of_int port) @ key"
proof -
  have "pack32BinaryIP4 (dcMaps dc)
      = (if dc = 1 then [149, 154, 175, 53] else if dc = 2 then [149, 154, 167, 51] else if dc = 3 then [149, 154, 175, 100]
         else if dc = 4 then [149, 154, 167, 91] else if dc = 5 then [91, 108, 56, 130] else [0, 0, 0, 0])"
    using pack32_values by (simp add: dcMaps_def)
  then show ?thesis by (simp add: generateTgSession_def base64url_bytes_base64url)
qed

section \<open>Who is let in\<close>

text \<open>The user Telegram names in answer to a message, if it names one.\<close>

definition answered_user :: "tg_answers \<Rightarrow> SocketMessage \<Rightarrow> tg_user option" where
  "answered_user w m =
     (let r = (if sm_authType m = ''qr'' then snd (ta_qr w)
               else if sm_authType m = ''phone'' then ta_signIn w (sm_phoneNo m) (sm_phoneCode m) (sm_phoneCodeHash m)
               else ta_password w (sm_password m))
      in case r of Inl _ \<Rightarrow> None | Inr u \<Rightarrow> u)"

lemma finish_login_actions:
  "SendSuccess s \<in> set (finish_login allowed w u)
     \<longleftrightarrow> (\<exists>v. u = Some v \<and> checkUserIsAllowed allowed (tu_username v) \<and> s = prepareSession v (loaded_session w))"
  "SendToken t \<notin> set (finish_login allowed w u)"
  by (auto simp: finish_login_def split: option.splits)

lemma ws_dispatch_success:
  assumes "SendSuccess s \<in> set (ws_dispatch allowed w m)"
  shows "\<exists>v. answered_user w m = Some v \<and> checkUserIsAllowed allowed (tu_username v) \<and> s = prepareSession v (loaded_session w)"
  using assms
  by (auto simp: ws_dispatch_def handleQRAuth_def handlePhoneAuth_def handle2FAAuth_def answered_user_def finish_login_actions Let_def
      split: if_splits sum.splits option.splits)

text \<open>Every action done or still to be done comes from the handler of a message that was read.\<close>

definition ws_handled :: "string list \<Rightarrow> (SocketMessage \<times> tg_answers) list \<Rightarrow> ws_action set" where
  "ws_handled allowed ms = (\<Union>(m, w) \<in> set ms. set (ws_dispatch allowed w m))"

definition ws_inv :: "string list \<Rightarrow> (SocketMessage \<times> tg_answers) list \<Rightarrow> ws_state \<Rightarrow> bool" where
  "ws_inv allowed ms st \<longleftrightarrow> set (ws_in st) \<subseteq> set ms \<and> set (ws_out st) \<subseteq> ws_handled allowed ms
     \<and> (\<forall>g \<in> set (ws_go st). set g \<subseteq> ws_handled allowed ms)"

lemma ws_step_inv: "ws_step allowed st st' \<Longrightarrow> ws_inv allowed ms st \<Longrightarrow> ws_inv allowed ms st'"
proof (induction rule: ws_step.induct)
  case (read m w rest gs out)
  then have "(m, w) \<in> set ms" by (simp add: ws_inv_def)
  then have "set (ws_dispatch allowed w m) \<subseteq> ws_handled allowed ms" unfolding ws_handled_def by fast
  with read show ?case by (simp add: ws_inv_def)
next
  case (act i gs x xs rest out)
  have "x # xs \<in> set gs" using act(1,2) nth_mem by metis
  with act(3) have "set (x # xs) \<subseteq> ws_handled allowed ms" unfolding ws_inv_def ws_state.simps by blast
  then have "x \<in> ws_handled allowed ms" "set xs \<subseteq> ws_handled allowed ms" by simp_all
  moreover have "set (gs[i := xs]) \<subseteq> insert xs (set gs)" by (rule set_update_subset_insert)
  ultimately show ?case using act(3) by (simp add: ws_inv_def) blast
qed

text \<open>
  C34. The web socket. However the goroutines of the handlers interleave, a session is only handed out for a user whom Telegram named in
  answer to one of the messages and who is on the list of allowed users; it carries that user's id, name and the session of the client.
\<close>

theorem AuthWs_success_allowed:
  assumes "(ws_step allowed)\<^sup>*\<^sup>* (AuthWs_start ms) st" "SendSuccess s \<in> set (ws_out st)"
  shows "\<exists>(m, w) \<in> set ms. \<exists>v. answered_user w m = Some v \<and> checkUserIsAllowed allowed (tu_username v)
    \<and> s = prepareSession v (loaded_session w)"
proof -
  have "ws_inv allowed ms st"
    using assms(1)
  proof (induction rule: rtranclp_induct)
    case base
    show ?case by (simp add: ws_inv_def AuthWs_start_def)
  next
    case (step y z)
    then show ?case using ws_step_inv by metis
  qed
  with assms(2) have "SendSuccess s \<in> ws_handled allowed ms" by (auto simp: ws_inv_def)
  then obtain m w where "(m, w) \<in> set ms" "SendSuccess s \<in> set (ws_dispatch allowed w m)"
    unfolding ws_handled_def by blast
  with ws_dispatch_success show ?thesis by fast
qed

lemma first_where_last: "\<forall>x \<in> set xs. \<not> P x \<Longrightarrow> P r \<Longrightarrow> first_where P (xs @ [r]) = Some r"
  unfolding first_where_def by (induction xs) auto

lemma subject_id_show: "0 \<le> n \<Longrightarrow> n \<le> max_int64 \<Longrightarrow> subject_id (show_int n) = n"
  using ParseInt_show_nat [of "nat n"] by (simp add: subject_id_def show_int_def)

text \<open>
  C33. What \<open>AuthLogin\<close> makes of a session. The user id and the name in the request are never compared with the account of the
  Telegram session: with any working session, a name that is allowed and the id of anybody, the cookie that is returned authenticates as
  the user with that id.
\<close>

theorem AuthLogin_trusts_request:
  defines "claims \<equiv> \<lambda>h now expires userId name userName premium. \<lparr> jc_subject = show_int userId, jc_name = name,
    jc_userName = userName, jc_premium = premium, jc_hash = h, jc_tgSession = '''', jc_issued = now, jc_expires = expires \<rparr>"
  assumes "0 \<le> victim" "victim \<le> max_int64"
    and "checkUserIsAllowed allowed userName"
    and "authorizations tgSession = Inr (Some date)"
    and "sign (claims (md5hex tgSession) now (now + sessionTime) victim name userName premium) = Inr token"
    and "parse secret token = Inr (claims (md5hex tgSession) now (now + sessionTime) victim name userName premium, True)"
    and "md5hex tgSession \<notin> se_hash ` set (ap_sessions a)"
    and "app_cache a (KeySessionHash (md5hex tgSession)) = None"
  shows "\<exists>a' c a''. AuthLogin allowed sessionTime md5hex sign authorizations new_id now
      \<lparr> cr_session = tgSession, cr_userId = victim, cr_userName = userName, cr_name = name, cr_premium = premium \<rparr> a = (Some (Inr token), a')
    \<and> VerifyUser parse secret token a' = (Inr c, a'') \<and> GetUser (Some c) = victim \<and> jc_tgSession c = tgSession"
proof -
  let ?h = "md5hex tgSession"
  let ?s = "\<lparr> cr_session = tgSession, cr_userId = victim, cr_userName = userName, cr_name = name, cr_premium = premium \<rparr>"
  define row where "row = \<lparr> se_user = victim, se_hash = ?h, se_date = date, se_session = tgSession, se_created = now \<rparr>"
  define b where "b = login_rows ?s new_id now a"
  have b: "ap_sessions b = ap_sessions a" "app_cache b = app_cache a"
    by (simp_all add: b_def login_rows_def app_cache_def Let_def)
  define a' where "a' = app_Delete [KeyUserSessions victim, KeySessionUser victim] (b\<lparr> ap_sessions := ap_sessions b @ [row] \<rparr>)"
  have "(tgSession, ?h) \<notin> (\<lambda>s. (se_session s, se_hash s)) ` set (ap_sessions b)" using assms(8) b by force
  then have login: "AuthLogin allowed sessionTime md5hex sign authorizations new_id now ?s a = (Some (Inr token), a')"
    using assms(4,5,6) by (simp add: AuthLogin_def Let_def claims_def a'_def b_def row_def)
  have "\<forall>s \<in> set (ap_sessions a). se_hash s \<noteq> ?h" using assms(8) by force
  then have "first_where (\<lambda>s. se_hash s = ?h) (ap_sessions a') = Some row"
    by (simp add: a'_def b row_def first_where_last)
  moreover have "app_cache a' (KeySessionHash ?h) = None" using assms(9) by (simp add: a'_def b)
  ultimately obtain a'' where "GetSessionByHash ?h a' = (Inr row, a'')"
    by (simp add: GetSessionByHash_def KeySessionHash_literal cm_Get_def Let_def)
  then have "VerifyUser parse secret token a'
      = (Inr ((claims ?h now (now + sessionTime) victim name userName premium)\<lparr> jc_tgSession := tgSession \<rparr>), a'')"
    by (simp add: VerifyUser_def Decode_def assms(7)) (simp add: claims_def row_def)
  with login show ?thesis
    using subject_id_show [OF assms(2,3)] by (simp add: GetUser_def claims_def)
qed

text \<open>
  The list of sessions is cached per user, but which session is the current one depends on who asks: a second session of the same user
  that asks next is shown the first one as current.
\<close>

theorem UsersListSessions_wrong_current:
  assumes "auths (jc_tgSession c1) = Inr as" "cache (KeyUserSessions (subject_id (jc_subject c1))) = None"
    and "subject_id (jc_subject c2) = subject_id (jc_subject c1)"
    and "UsersListSessions auths c1 sessions cache = (Inr l1, cache1)"
  shows "UsersListSessions auths c2 sessions cache1 = (Inr l1, cache1)
    \<and> {ul_hash u | u. u \<in> set l1 \<and> ul_current u}
      = {se_hash r | r. r \<in> set sessions \<and> se_user r = subject_id (jc_subject c1) \<and> se_session r = jc_tgSession c1}"
proof -
  define rows where "rows = rev (sort_key se_created (rev (filter (\<lambda>r. se_user r = subject_id (jc_subject c1)) sessions)))"
  have l1: "l1 = map (list_session (jc_tgSession c1) (Some as)) rows"
      "cache1 = cache(KeyUserSessions (subject_id (jc_subject c1)) \<mapsto> l1)"
    using assms(1,2,4) by (auto simp: UsersListSessions_def Fetch_def cm_Get_def cm_Set_def rows_def Let_def)
  have f: "ul_hash (list_session t o' r) = se_hash r" "ul_current (list_session t o' r) = (se_session r = t)" for t o' r
    by (simp_all add: list_session_def Let_def split: option.splits)
  have "{ul_hash u | u. u \<in> set l1 \<and> ul_current u} = {se_hash r | r. r \<in> set rows \<and> se_session r = jc_tgSession c1}"
  proof (intro set_eqI iffI)
    fix h
    assume "h \<in> {se_hash r | r. r \<in> set rows \<and> se_session r = jc_tgSession c1}"
    then obtain r where r: "h = se_hash r" "r \<in> set rows" "se_session r = jc_tgSession c1" by blast
    let ?u = "list_session (jc_tgSession c1) (Some as) r"
    have "h = ul_hash ?u \<and> ?u \<in> set l1 \<and> ul_current ?u" using r f by (simp add: l1(1))
    then show "h \<in> {ul_hash u | u. u \<in> set l1 \<and> ul_current u}" by blast
  qed (auto simp: l1(1) f)
  moreover have "set rows = {r \<in> set sessions. se_user r = subject_id (jc_subject c1)}" by (simp add: rows_def)
  moreover have "UsersListSessions auths c2 sessions cache1 = (Inr l1, cache1)"
    by (simp add: UsersListSessions_def Fetch_def cm_Get_def l1(2) assms(3) Let_def)
  ultimately show ?thesis by auto
qed

text \<open>Settings that were stored are the ones shown from then on; only a user who is signed in stores any, whoever it is.\<close>

theorem thumbnail_settings_roundtrip:
  assumes "handlePutThumbnailSettings userId body saves row = (r, row')"
  shows "case r of
     Inr t \<Rightarrow> userId \<noteq> 0 \<and> handleGetThumbnailSettings row' = t
   | Inl _ \<Rightarrow> row' = row"
  using assms
  by (auto simp: handlePutThumbnailSettings_def handleGetThumbnailSettings_def unmarshal_thumb_def marshal_thumb_def Let_def
      split: if_splits option.splits)

section \<open>Witnesses\<close>

definition demo_user :: tg_user where
  "demo_user = \<lparr> tu_id = 9, tu_username = ''ann'', tu_firstName = ''A'', tu_lastName = ''B'', tu_premium = False \<rparr>"

definition demo_answers :: tg_answers where
  "demo_answers = \<lparr> ta_qr = ([''tg://login''], Inr (Some demo_user)), ta_sendCode = (\<lambda>_. Inl Canceled),
     ta_signIn = (\<lambda>_ _ _. Inl PasswordAuthNeeded), ta_password = (\<lambda>_. Inl (OtherErr ''x'')),
     ta_session = Some \<lparr> sd_DC = 2, sd_AuthKey = [1, 2, 3] \<rparr>, ta_errText = (\<lambda>_. '''') \<rparr>"

definition demo_qr :: SocketMessage where
  "demo_qr = \<lparr> sm_authType = ''qr'', sm_message = '''', sm_phoneNo = '''', sm_phoneCodeHash = '''', sm_phoneCode = '''', sm_password = '''' \<rparr>"

lemma demo_dispatch:
  "ws_dispatch [''ann''] demo_answers demo_qr
     = [SendToken ''tg://login'', SendSuccess (prepareSession demo_user \<lparr> sd_DC = 2, sd_AuthKey = [1, 2, 3] \<rparr>)]"
  by (simp add: ws_dispatch_def demo_qr_def handleQRAuth_def demo_answers_def finish_login_def checkUserIsAllowed_def demo_user_def
      loaded_session_def)

theorem AuthWs_success_allowed_witness:
  "\<exists>st s. (ws_step [''ann''])\<^sup>*\<^sup>* (AuthWs_start [(demo_qr, demo_answers)]) st \<and> SendSuccess s \<in> set (ws_out st)
     \<and> (\<exists>v. answered_user demo_answers demo_qr = Some v \<and> checkUserIsAllowed [''ann''] (tu_username v)
          \<and> s = prepareSession v (loaded_session demo_answers))"
proof -
  let ?s = "prepareSession demo_user \<lparr> sd_DC = 2, sd_AuthKey = [1, 2, 3] \<rparr>"
  let ?t = "SendToken ''tg://login''"
  let ?st = "\<lambda>go out. \<lparr> ws_in = [], ws_go = go, ws_out = out \<rparr>"
  have 1: "ws_step [''ann''] (AuthWs_start [(demo_qr, demo_answers)]) (?st [[?t, SendSuccess ?s]] [])"
    using ws_step.read [of "[''ann'']" demo_qr demo_answers "[]" "[]" "[]"] unfolding AuthWs_start_def demo_dispatch append_Nil .
  have 2: "ws_step [''ann''] (?st [[?t, SendSuccess ?s]] []) (?st [[SendSuccess ?s]] [?t])"
    using ws_step.act [of 0 "[[?t, SendSuccess ?s]]" ?t "[SendSuccess ?s]" "[''ann'']" "[]" "[]"] by simp
  have 3: "ws_step [''ann''] (?st [[SendSuccess ?s]] [?t]) (?st [[]] [?t, SendSuccess ?s])"
    using ws_step.act [of 0 "[[SendSuccess ?s]]" "SendSuccess ?s" "[]" "[''ann'']" "[]" "[?t]"] by simp
  from 3 have "(ws_step [''ann''])\<^sup>*\<^sup>* (?st [[SendSuccess ?s]] [?t]) (?st [[]] [?t, SendSuccess ?s])"
    by (rule r_into_rtranclp)
  with 2 have "(ws_step [''ann''])\<^sup>*\<^sup>* (?st [[?t, SendSuccess ?s]] []) (?st [[]] [?t, SendSuccess ?s])"
    by (rule converse_rtranclp_into_rtranclp)
  with 1 have r: "(ws_step [''ann''])\<^sup>*\<^sup>* (AuthWs_start [(demo_qr, demo_answers)]) (?st [[]] [?t, SendSuccess ?s])"
    by (rule converse_rtranclp_into_rtranclp)
  have s: "SendSuccess ?s \<in> set (ws_out \<lparr> ws_in = [], ws_go = [[]], ws_out = [?t, SendSuccess ?s] \<rparr>)" by simp
  have "answered_user demo_answers demo_qr = Some demo_user" "checkUserIsAllowed [''ann''] (tu_username demo_user)"
    by (simp_all add: answered_user_def demo_qr_def demo_answers_def demo_user_def checkUserIsAllowed_def)
  from AuthWs_success_allowed [OF r s] have "\<exists>v. answered_user demo_answers demo_qr = Some v
      \<and> checkUserIsAllowed [''ann''] (tu_username v) \<and> ?s = prepareSession v (loaded_session demo_answers)"
    by simp
  with r s show ?thesis by blast
qed

theorem AuthLogin_trusts_request_witness:
  "\<exists>a' c a''. AuthLogin [''ann''] 60 (\<lambda>_. ''cd'') (\<lambda>_. Inr ''jwt'') (\<lambda>_. Inr (Some 3)) ''n'' 1
      \<lparr> cr_session = ''mine'', cr_userId = 7, cr_userName = ''ann'', cr_name = '''', cr_premium = False \<rparr> demo_app = (Some (Inr ''jwt''), a')
    \<and> VerifyUser (\<lambda>_ _. Inr (\<lparr> jc_subject = show_int 7, jc_name = '''', jc_userName = ''ann'', jc_premium = False, jc_hash = ''cd'',
          jc_tgSession = '''', jc_issued = 1, jc_expires = 1 + 60 \<rparr>, True)) ''k'' ''jwt'' a' = (Inr c, a'')
    \<and> GetUser (Some c) = 7 \<and> jc_tgSession c = ''mine''"
  by (rule AuthLogin_trusts_request)
    (simp_all add: max_int64_def checkUserIsAllowed_def demo_app_def demo_session_def app_cache_def)

definition claims_of :: "string \<Rightarrow> JWTClaims" where
  "claims_of t = \<lparr> jc_subject = ''7'', jc_name = '''', jc_userName = '''', jc_premium = False, jc_hash = ''ab'', jc_tgSession = t,
     jc_issued = 0, jc_expires = 9 \<rparr>"

theorem UsersListSessions_wrong_current_witness:
  "\<exists>l cache1. UsersListSessions (\<lambda>_. Inr []) (claims_of ''tg'') [demo_session] (\<lambda>_. None) = (Inr l, cache1)
     \<and> UsersListSessions (\<lambda>_. Inr []) (claims_of ''other'') [demo_session] cache1 = (Inr l, cache1)
     \<and> {ul_hash u | u. u \<in> set l \<and> ul_current u} = {''ab''}"
proof -
  obtain l cache1 where l: "UsersListSessions (\<lambda>_. Inr []) (claims_of ''tg'') [demo_session] (\<lambda>_. None) = (Inr l, cache1)"
    by (simp add: UsersListSessions_def Fetch_def cm_Get_def Let_def)
  have "subject_id ''7'' = 7" by code_simp
  with UsersListSessions_wrong_current [OF _ _ _ l, where as = "[]" and ?c2.0 = "claims_of ''other''"] l show ?thesis
    by (auto simp: claims_of_def demo_session_def)
qed

theorem thumbnail_settings_roundtrip_witness:
  "handleGetThumbnailSettings (snd (handlePutThumbnailSettings 7 (Some (Some ''h'', None, Some 5)) True None))
     = \<lparr> th_host = ''h'', th_width = 0, th_quality = 5 \<rparr>"
proof -
  let ?t = "\<lparr> th_host = ''h'', th_width = 0, th_quality = 5 \<rparr>"
  have h: "handlePutThumbnailSettings 7 (Some (Some ''h'', None, Some 5)) True None = (Inr ?t, Some (marshal_thumb ?t))"
    by (simp add: handlePutThumbnailSettings_def unmarshal_thumb_def Let_def)
  from thumbnail_settings_roundtrip [OF this] show ?thesis by (simp add: h)
qed

end
