(* ===== verification/DedupCommand.thy ===== *)
theory DedupCommand
  imports Dedup HttpRange
begin

text \<open>
  The command that deduplicates from the shell (cmd/deduplicate.go): which users it runs for, what it prints, and the deduplication of
  all users as a sequence of runs of \<open>RunDedupForUser\<close>. Colours and the drawing of the tables are left out.
\<close>

section \<open>What is printed\<close>

datatype cli_line =
    LStart int
  | LFailed int
  | LBackfilling nat
  | LLinking nat
  | LProgress dedup_phase nat nat
  | LGroup string nat string string
  | LLinked string string
  | LBackfilled string string
  | LSkipped string string
  | LSummary bool DedupStats

definition progress_due :: "nat \<Rightarrow> nat \<Rightarrow> bool" where
  "progress_due current tot =
     (if tot = 0 then False
      else let step = tot div 10; step = (if step < 1 then 1 else step)
           in current = tot \<or> current mod step = 0)"

text \<open>The slice of the first 16 bytes of a shorter hash is a panic, \<open>None\<close>.\<close>

fun cliDedupHooks :: "dedup_hook \<Rightarrow> cli_line list option" where
  "cliDedupHooks (OnPhase DedupBackfilling tot) = Some (if tot > 0 then [LBackfilling tot] else [])"
| "cliDedupHooks (OnPhase DedupLinking tot) = Some [LLinking tot]"
| "cliDedupHooks (OnPhase _ tot) = Some []"
| "cliDedupHooks (OnProgress phase current tot) = Some (if progress_due current tot then [LProgress phase current tot] else [])"
| "cliDedupHooks (OnGroup h n canonical) =
     (if length h < 16 then None else Some [LGroup (take 16 h @ ''...'') n (f_id canonical) (f_name canonical)])"
| "cliDedupHooks (OnLinked dup canonical) = Some [LLinked (f_id dup) (f_name dup)]"
| "cliDedupHooks (OnBackfilled f) = Some [LBackfilled (f_id f) (f_name f)]"
| "cliDedupHooks (OnSkipped f err) = Some [LSkipped (f_id f) (f_name f)]"

definition hook_lines :: "dedup_hook list \<Rightarrow> cli_line list option" where
  "hook_lines hs = map_option concat (those (map cliDedupHooks hs))"

section \<open>Running\<close>

definition count_user :: "'o dedup_run \<Rightarrow> 'o dedup_run" where
  "count_user r = r\<lparr> dr_stats := (dr_stats r)\<lparr> ds_users := ds_users (dr_stats r) + 1 \<rparr> \<rparr>"

text \<open>The calls of the hooks are turned into lines run by run; \<open>None\<close> is a panic.\<close>

definition deduplicateUser ::
    "(nat \<Rightarrow> bool) \<Rightarrow> ('o \<Rightarrow> go_err option \<times> 'o) \<Rightarrow> (FileRow \<Rightarrow> go_err + string) \<Rightarrow> bool \<Rightarrow> bool \<Rightarrow> (FileRow list \<Rightarrow> string list)
     \<Rightarrow> int \<Rightarrow> 'o dedup_run \<Rightarrow> ('o dedup_run \<times> cli_line list) option" where
  "deduplicateUser cancelled fail hashf dryRun backfill order userID r =
     (case RunDedupForUser cancelled fail hashf userID dryRun backfill order (r\<lparr> dr_hooks := [] \<rparr>) of
        (e, r) \<Rightarrow>
          map_option (\<lambda>ls.
            (case e of
               Some _ \<Rightarrow> (r, LStart userID # ls @ [LFailed userID])
             | None \<Rightarrow> (count_user r, LStart userID # ls))) (hook_lines (dr_hooks r)))"

fun deduplicate_users ::
    "(nat \<Rightarrow> bool) \<Rightarrow> ('o \<Rightarrow> go_err option \<times> 'o) \<Rightarrow> (FileRow \<Rightarrow> go_err + string) \<Rightarrow> bool \<Rightarrow> bool \<Rightarrow> (FileRow list \<Rightarrow> string list)
     \<Rightarrow> int list \<Rightarrow> 'o dedup_run \<Rightarrow> ('o dedup_run \<times> cli_line list) option" where
  "deduplicate_users cancelled fail hashf dryRun backfill order [] r = Some (r, [])"
| "deduplicate_users cancelled fail hashf dryRun backfill order (uid # uids) r =
     (case deduplicateUser cancelled fail hashf dryRun backfill order uid r of
        None \<Rightarrow> None
      | Some (r, ls) \<Rightarrow>
          map_option (\<lambda>(r, ls'). (r, ls @ ls')) (deduplicate_users cancelled fail hashf dryRun backfill order uids r))"

text \<open>The condition of the query: \<open>AND\<close> binds closer than the \<open>OR\<close> of the backfill, and a comparison with NULL does not hold.\<close>

definition user_query :: "bool \<Rightarrow> FileRow \<Rightarrow> bool" where
  "user_query backfill f =
     (let hashed = (f_hash f \<noteq> None \<and> f_hash f \<noteq> Some '''');
          plain = (f_encrypted f = Some False \<and> f_status f = ACTIVE \<and> f_type f = FILE)
      in if backfill then hashed \<or> (f_hash f = None \<and> plain) else hashed \<and> plain)"

text \<open>\<open>arrange\<close> is the order in which the database returns the distinct users.\<close>

definition deduplicateAllUsers ::
    "(nat \<Rightarrow> bool) \<Rightarrow> ('o \<Rightarrow> go_err option \<times> 'o) \<Rightarrow> (FileRow \<Rightarrow> go_err + string) \<Rightarrow> (int list \<Rightarrow> int list) \<Rightarrow> bool \<Rightarrow> bool
     \<Rightarrow> (FileRow list \<Rightarrow> string list) \<Rightarrow> 'o dedup_run \<Rightarrow> ('o dedup_run \<times> cli_line list) option" where
  "deduplicateAllUsers cancelled fail hashf arrange dryRun backfill order r =
     (case load_rows fail (user_query backfill) r of
        (Inl e, r) \<Rightarrow> Some (r, [])
      | (Inr files, r) \<Rightarrow>
          deduplicate_users cancelled fail hashf dryRun backfill order (arrange (remdups (map f_user files))) r)"

section \<open>The command\<close>

text \<open>\<open>fmt.Sscanf(s, "%d")\<close> of a word: a sign and as many digits as there are.\<close>

definition scan_d :: "string \<Rightarrow> int option" where
  "scan_d s =
     (let sgn = (case s of c # _ \<Rightarrow> if c = CHR ''-'' \<or> c = CHR ''+'' then [c] else [] | [] \<Rightarrow> [])
      in ParseInt (sgn @ takeWhile is_digit (drop (length sgn) s)))"

record cli_input =
  ci_dryRun :: bool
  ci_user :: string
  ci_backfill :: bool
  ci_choice :: string
  ci_selection :: string
  ci_confirm :: string

datatype cli_end = Exit1 | Returned | Panicked

definition finish_cli ::
    "bool \<Rightarrow> ('o dedup_run \<times> cli_line list) option \<Rightarrow> 'o dedup_run \<Rightarrow> cli_end \<times> 'o dedup_run \<times> cli_line list" where
  "finish_cli dryRun res r0 =
     (case res of
        None \<Rightarrow> (Panicked, r0, [])
      | Some (r, ls) \<Rightarrow> (Returned, r, ls @ [LSummary dryRun (dr_stats r)]))"

text \<open>
  \<open>runDeduplication\<close> after the connection is open; after a panic the state is not described. The environment decides whether
  the query for the users fails.
\<close>

definition runDeduplication ::
    "(nat \<Rightarrow> bool) \<Rightarrow> ('o \<Rightarrow> go_err option \<times> 'o) \<Rightarrow> (FileRow \<Rightarrow> go_err + string) \<Rightarrow> (int list \<Rightarrow> int list) \<Rightarrow> (FileRow list \<Rightarrow> string list)
     \<Rightarrow> UserRow list \<Rightarrow> cli_input \<Rightarrow> 'o dedup_run \<Rightarrow> cli_end \<times> 'o dedup_run \<times> cli_line list" where
  "runDeduplication cancelled fail hashf arrange order users inp r =
     (let dryRun = ci_dryRun inp; backfill = ci_backfill inp;
          one = (\<lambda>uid r. finish_cli dryRun (deduplicateUser cancelled fail hashf dryRun backfill order uid r) r)
      in if ci_user inp = '''' then
           if ci_choice inp = ''1'' then
             (case fail (dr_env r) of
                (Some e, env) \<Rightarrow> (Exit1, r\<lparr> dr_env := env \<rparr>, [])
              | (None, env) \<Rightarrow>
                  let r = r\<lparr> dr_env := env \<rparr> in
                  if users = [] then (Exit1, r, [])
                  else (case scan_d (ci_selection inp) of
                          None \<Rightarrow> (Exit1, r, [])
                        | Some idx \<Rightarrow>
                            if idx < 1 \<or> idx > int (length users) then (Exit1, r, [])
                            else one (us_id (users ! (nat idx - 1))) r))
           else if ci_choice inp = ''2'' then
             (if \<not> dryRun \<and> ToLower (ci_confirm inp) \<noteq> ''yes'' then (Returned, r, [])
              else finish_cli dryRun (deduplicateAllUsers cancelled fail hashf arrange dryRun backfill order r) r)
           else (Exit1, r, [])
         else
           (case fail (dr_env r) of
              (Some e, env) \<Rightarrow> (Exit1, r\<lparr> dr_env := env \<rparr>, [])
            | (None, env) \<Rightarrow>
                let r = r\<lparr> dr_env := env \<rparr> in
                (case first_where (\<lambda>u. us_userName u = ci_user inp) (sort_key us_id users) of
                   None \<Rightarrow> (Exit1, r, [])
                 | Some u \<Rightarrow> one (us_id u) r)))"

section \<open>How often progress is printed\<close>

text \<open>The checkpoints of a phase: the last one is always shown, and there are never more than 19.\<close>

lemma multiples_card: "0 < k \<Longrightarrow> card {c \<in> {1..n}. c mod k = 0} \<le> n div k" for k n :: nat
proof -
  assume k: "0 < k"
  have "{c \<in> {1..n}. c mod k = 0} \<subseteq> (\<lambda>i. i * k) ` {1..n div k}"
  proof
    fix c assume "c \<in> {c \<in> {1..n}. c mod k = 0}"
    then have c: "1 \<le> c" "c \<le> n" "c mod k = 0" by simp_all
    then obtain i where i: "c = i * k" by (metis mod_0_imp_dvd dvdE mult.commute)
    then have "1 \<le> i" "i \<le> n div k" using c(1,2) k by (cases i, simp_all add: less_eq_div_iff_mult_less_eq)
    with i show "c \<in> (\<lambda>i. i * k) ` {1..n div k}" by (intro image_eqI [of _ _ i]) simp_all
  qed
  then have "card {c \<in> {1..n}. c mod k = 0} \<le> card ((\<lambda>i. i * k) ` {1..n div k})" by (rule card_mono [rotated]) simp
  also have "\<dots> \<le> n div k" using card_image_le [of "{1..n div k}" "\<lambda>i. i * k"] by simp
  finally show ?thesis .
qed

theorem progress_due_bounded:
  "card {c \<in> {1..tot}. progress_due c tot} \<le> 19 \<and> (0 < tot \<longrightarrow> progress_due tot tot)"
proof -
  define step where "step = (if tot div 10 < 1 then 1 else tot div 10)"
  have due: "progress_due c tot \<longleftrightarrow> 0 < tot \<and> (c = tot \<or> c mod step = 0)" for c
    by (simp add: progress_due_def step_def Let_def)
  have sp: "0 < step" by (simp add: step_def)
  have "card {c \<in> {1..tot}. progress_due c tot} \<le> 19"
  proof (cases "tot < 20")
    case True
    have "card {c \<in> {1..tot}. progress_due c tot} \<le> card {1..tot}" by (rule card_mono) auto
    with True show ?thesis by simp
  next
    case False
    then have st: "step = tot div 10" by (simp add: step_def)
    have "tot div step \<le> 14"
    proof -
      define q where "q = tot div 10"
      have "tot = q * 10 + tot mod 10" "tot mod 10 < 10" by (simp_all add: q_def)
      then have q: "2 \<le> q" using False by linarith
      then have "tot < q * 15" using \<open>tot = q * 10 + tot mod 10\<close> \<open>tot mod 10 < 10\<close> by linarith
      then have "tot div q < 15" using q by (simp add: div_less_iff_less_mult)
      then show ?thesis by (simp add: q_def st)
    qed
    moreover have "{c \<in> {1..tot}. progress_due c tot} \<subseteq> insert tot {c \<in> {1..tot}. c mod step = 0}"
      by (rule subsetI) (simp only: mem_Collect_eq insert_iff due, blast)
    then have "card {c \<in> {1..tot}. progress_due c tot} \<le> card (insert tot {c \<in> {1..tot}. c mod step = 0})" by (rule card_mono [rotated]) simp
    moreover have "card (insert tot {c \<in> {1..tot}. c mod step = 0}) \<le> Suc (card {c \<in> {1..tot}. c mod step = 0})"
      by (rule card_insert_le_m1 [of "Suc _", simplified]) simp_all
    ultimately show ?thesis using multiples_card [OF sp, of tot] by linarith
  qed
  with due show ?thesis by simp
qed

section \<open>All users\<close>

definition user_files :: "int \<Rightarrow> FileRow list \<Rightarrow> FileRow list" where
  "user_files uid rows = filter (dedup_eligible uid) rows"

definition links_of :: "(FileRow list \<Rightarrow> string list) \<Rightarrow> FileRow list \<Rightarrow> int \<Rightarrow> string set" where
  "links_of order rows uid = dup_ids (user_files uid rows) (order (user_files uid rows))"

text \<open>The table with the duplicates of the users in \<open>U\<close> linked, each to the first file of its owner's group.\<close>

definition all_linked :: "(FileRow list \<Rightarrow> string list) \<Rightarrow> int set \<Rightarrow> FileRow list \<Rightarrow> FileRow list" where
  "all_linked order U rows =
     map (\<lambda>f. if f_user f \<in> U \<and> f_id f \<in> links_of order rows (f_user f)
              then link_row (canonical_of (user_files (f_user f) rows) f) f else f) rows"

lemma link_row_fields [simp]:
  "f_id (link_row c f) = f_id f" "f_user (link_row c f) = f_user f" "f_hash (link_row c f) = f_hash f"
  "dedup_eligible u (link_row c f) = dedup_eligible u f"
  by (simp_all add: link_row_def dedup_eligible_def)

lemma links_of_user:
  assumes "unique_ids rows" "f \<in> set rows" "f_id f \<in> links_of order rows u"
  shows "f_user f = u \<and> dedup_eligible u f"
proof -
  obtain h g where g: "g \<in> set (tl (hash_group (user_files u rows) h))" "f_id f = f_id g"
    using assms(3) by (auto simp: links_of_def dup_ids_def)
  from tl_group [OF g(1)] have "g \<in> set rows" "dedup_eligible u g" by (auto simp: user_files_def)
  with assms(1,2) g(2) have "f = g" by (auto simp: unique_ids_def distinct_map inj_on_def)
  with \<open>dedup_eligible u g\<close> show ?thesis by (simp add: dedup_eligible_def)
qed

lemma linked_rows_all:
  assumes "unique_ids rows"
  shows "linked_rows (user_files u rows) (links_of order rows u) rows = all_linked order {u} rows"
  unfolding linked_rows_def all_linked_def
  by (rule map_cong [OF refl]) (use links_of_user [OF assms] in auto)

lemma user_files_other: "u \<notin> U \<Longrightarrow> user_files u (all_linked order U rows) = user_files u rows"
  unfolding user_files_def all_linked_def filter_map
proof -
  assume u: "u \<notin> U"
  let ?g = "\<lambda>f. if f_user f \<in> U \<and> f_id f \<in> links_of order rows (f_user f)
              then link_row (canonical_of (filter (dedup_eligible (f_user f)) rows) f) f else f"
  have "dedup_eligible u \<circ> ?g = dedup_eligible u" by (rule ext) simp
  moreover have "map ?g (filter (dedup_eligible u) rows) = filter (dedup_eligible u) rows"
    by (rule map_idI) (use u in \<open>auto simp: dedup_eligible_def\<close>)
  ultimately show "map ?g (filter (dedup_eligible u \<circ> ?g) rows) = filter (dedup_eligible u) rows" by simp
qed

lemma all_linked_ids: "map f_id (all_linked order U rows) = map f_id rows"
  by (simp add: all_linked_def)

lemma all_linked_insert:
  assumes "unique_ids rows" "u \<notin> U"
  shows "all_linked order {u} (all_linked order U rows) = all_linked order (insert u U) rows"
proof -
  have l: "links_of order (all_linked order U rows) u = links_of order rows u"
    unfolding links_of_def user_files_other [OF assms(2)] ..
  let ?link = "\<lambda>f. link_row (canonical_of (user_files (f_user f) rows) f) f"
  let ?g = "\<lambda>f. if f_user f \<in> U \<and> f_id f \<in> links_of order rows (f_user f) then ?link f else f"
  let ?h = "\<lambda>f. if f_user f \<in> {u} \<and> f_id f \<in> links_of order (all_linked order U rows) (f_user f)
    then link_row (canonical_of (user_files (f_user f) (all_linked order U rows)) f) f else f"
  have "?h (?g f) = (if f_user f \<in> insert u U \<and> f_id f \<in> links_of order rows (f_user f) then ?link f else f)" for f
  proof (cases "f_user f = u")
    case True
    with assms(2) have "?g f = f" by simp
    then show ?thesis using True by (simp only: l user_files_other [OF assms(2)]) simp
  next
    case False
    then show ?thesis by simp
  qed
  then have "map ?h (map ?g rows)
      = map (\<lambda>f. if f_user f \<in> insert u U \<and> f_id f \<in> links_of order rows (f_user f) then ?link f else f) rows"
    by (simp only: map_map o_def)
  then show ?thesis by (simp only: all_linked_def)
qed

section \<open>A run for every user\<close>

lemma link_group_hooks:
  "link_group cancelled fail dryRun tot canonical dups n r = (e, n', r') \<Longrightarrow> OnGroup h m c \<in> set (dr_hooks r')
     \<Longrightarrow> OnGroup h m c \<in> set (dr_hooks r)"
proof (induction dups arbitrary: n r)
  case (Cons d dups)
  have u: "dr_hooks (snd (if dryRun then (None, r) else retried_update cancelled fail (f_id d) (link_row canonical) r)) = dr_hooks r"
    by (auto simp: retried_update_def split: prod.split)
  obtain e1 r1 where r1: "(if dryRun then (None, r) else retried_update cancelled fail (f_id d) (link_row canonical) r) = (e1, r1)"
    by fastforce
  with u have h1: "dr_hooks r1 = dr_hooks r" by simp
  show ?case
  proof (cases e1)
    case None
    with Cons.prems(1) r1 have "link_group cancelled fail dryRun tot canonical dups (n + 1)
        (call_hook (OnProgress DedupLinking (n + 1) tot) (call_hook (OnLinked d canonical) (count_linked r1))) = (e, n', r')"
      by simp
    from Cons.IH [OF this Cons.prems(2)] show ?thesis by (simp add: call_hook_def count_linked_def h1)
  next
    case (Some x)
    show ?thesis
    proof (cases "IsTransientLockErr (Some x)")
      case True
      with Some Cons.prems(1) r1 have "link_group cancelled fail dryRun tot canonical dups (n + 1)
          (call_hook (OnProgress DedupLinking (n + 1) tot) (call_hook (OnSkipped d x) (count_skipped r1))) = (e, n', r')"
        by simp
      from Cons.IH [OF this Cons.prems(2)] show ?thesis by (simp add: call_hook_def count_skipped_def h1)
    next
      case False
      with Some Cons.prems r1 h1 show ?thesis by simp
    qed
  qed
qed simp

lemma link_groups_hooks:
  "link_groups cancelled fail dryRun tot files hs n r = (e, r') \<Longrightarrow> OnGroup h m c \<in> set (dr_hooks r')
     \<Longrightarrow> OnGroup h m c \<in> set (dr_hooks r) \<or> h \<in> set hs"
proof (induction hs arbitrary: n r)
  case (Cons k hs)
  show ?case
  proof (cases "\<exists>c d ds. hash_group files k = c # d # ds")
    case True
    then obtain c' d ds where g: "hash_group files k = c' # d # ds" by blast
    let ?r = "call_hook (OnGroup k (length (d # ds) + 1) c') (count_group r)"
    obtain e1 n1 r1 where l: "link_group cancelled fail dryRun tot c' (d # ds) n ?r = (e1, n1, r1)" by (metis prod_cases3)
    have h: "OnGroup h m c \<in> set (dr_hooks r1) \<Longrightarrow> OnGroup h m c \<in> set (dr_hooks r) \<or> h = k"
      using link_group_hooks [OF l] by (auto simp: call_hook_def count_group_def)
    show ?thesis
    proof (cases e1)
      case None
      with Cons.prems(1) g l have "link_groups cancelled fail dryRun tot files hs n1 r1 = (e, r')" by simp
      from Cons.IH [OF this Cons.prems(2)] h show ?thesis by auto
    next
      case (Some x)
      with Cons.prems g l h show ?thesis by auto
    qed
  next
    case False
    then have "link_groups cancelled fail dryRun tot files hs n r = (e, r')"
      using Cons.prems(1) by (auto split: list.splits)
    from Cons.IH [OF this Cons.prems(2)] show ?thesis by auto
  qed
qed simp

lemma run_hooks:
  assumes "RunDedupForUser cancelled fail hashf uid dryRun False order r = (e, r')" "dr_hooks r = []"
    and "\<forall>fs. set (order fs) \<subseteq> opt_str ` f_hash ` set fs" "OnGroup h m c \<in> set (dr_hooks r')"
  shows "h \<in> opt_str ` f_hash ` set (user_files uid (dr_rows r))"
proof -
  let ?r = "call_hook (OnPhase DedupLoading 0) r"
  obtain err env where f: "fail (dr_env r) = (err, env)" by fastforce
  show ?thesis
  proof (cases err)
    case (Some x)
    with f assms(1) have "r' = ?r\<lparr> dr_env := env \<rparr>" by (simp add: RunDedupForUser_def load_rows_def)
    with assms(2,4) show ?thesis by (simp add: call_hook_def)
  next
    case None
    let ?files = "filter (\<lambda>f. opt_str (f_hash f) \<noteq> '''') (user_files uid (dr_rows r))"
    have l: "load_rows fail (dedup_eligible uid) ?r = (Inr (user_files uid (dr_rows r)), ?r\<lparr> dr_env := env \<rparr>)"
      using f None by (simp add: load_rows_def user_files_def)
    define r0 where "r0 = call_hook (OnPhase DedupLinking (total_links ?files (order ?files)))
        (call_hook (OnPhase DedupGrouping 0) (?r\<lparr> dr_env := env \<rparr>))"
    obtain e1 r1 where g: "link_groups cancelled fail dryRun (total_links ?files (order ?files)) ?files (order ?files) 0 r0 = (e1, r1)"
      by fastforce
    have "OnGroup h m c \<in> set (dr_hooks r1)"
      using assms(1,4) g unfolding RunDedupForUser_def l
      by (auto simp: r0_def Let_def call_hook_def split: option.splits)
    from link_groups_hooks [OF g this] have "h \<in> set (order ?files)" by (simp add: r0_def call_hook_def assms(2))
    with assms(3) have "h \<in> opt_str ` f_hash ` set ?files" by blast
    then show ?thesis by auto
  qed
qed

lemma retried_update_stats: "dr_stats (snd (retried_update cancelled fail i g r)) = dr_stats r"
  by (auto simp: retried_update_def split: prod.split)

lemma link_group_users:
  "link_group cancelled fail dryRun tot canonical dups n r = (e, n', r') \<Longrightarrow> ds_users (dr_stats r') = ds_users (dr_stats r)"
proof (induction dups arbitrary: n r)
  case (Cons d dups)
  obtain e1 r1 where r1: "(if dryRun then (None, r) else retried_update cancelled fail (f_id d) (link_row canonical) r) = (e1, r1)"
    by fastforce
  with retried_update_stats [of cancelled fail "f_id d" "link_row canonical" r] have "dr_stats r1 = dr_stats r"
    by (auto split: if_splits)
  then show ?case
    using Cons.prems r1 Cons.IH
    by (auto simp: count_linked_def count_skipped_def call_hook_def split: option.splits if_splits dest!: Cons.IH)
qed simp

lemma link_groups_users:
  "link_groups cancelled fail dryRun tot files hs n r = (e, r') \<Longrightarrow> ds_users (dr_stats r') = ds_users (dr_stats r)"
proof (induction hs arbitrary: n r)
  case (Cons h hs)
  then show ?case
    by (auto simp: count_group_def call_hook_def simp del: link_group.simps
        split: list.splits option.splits prod.splits dest!: link_group_users Cons.IH)
qed simp

lemma run_users:
  assumes "RunDedupForUser cancelled fail hashf uid dryRun False order r = (e, r')"
  shows "ds_users (dr_stats r') = ds_users (dr_stats r)"
  using assms
  by (auto simp: RunDedupForUser_def load_rows_def call_hook_def Let_def split: prod.splits option.splits sum.splits
      dest!: link_groups_users)

lemma hook_lines_ok:
  assumes "\<And>h m c. OnGroup h m c \<in> set hs \<Longrightarrow> 16 \<le> length h"
  shows "\<exists>ls. hook_lines hs = Some ls"
proof -
  have "\<exists>xs. those (map cliDedupHooks hs) = Some xs"
    using assms
  proof (induction hs)
    case (Cons k hs)
    then obtain xs where "those (map cliDedupHooks hs) = Some xs" by (metis list.set_intros(2))
    moreover have "\<exists>y. cliDedupHooks k = Some y"
      using Cons.prems by (cases k rule: cliDedupHooks.cases) (auto simp: not_less)
    ultimately show ?case by auto
  qed simp
  then show ?thesis by (auto simp: hook_lines_def)
qed

lemma deduplicateUser_ok:
  fixes r :: "'o dedup_run"
  assumes "unique_ids (dr_rows r)" "\<forall>fs. distinct (order fs) \<and> set (order fs) = opt_str ` f_hash ` set fs"
    and "\<forall>env. fst (fail env) = None" "\<forall>f \<in> set (dr_rows r). 16 \<le> length (opt_str (f_hash f)) \<or> opt_str (f_hash f) = ''''"
  shows "\<exists>r' ls. deduplicateUser cancelled fail hashf False False order uid r = Some (r', ls)
    \<and> dr_rows r' = all_linked order {uid} (dr_rows r) \<and> ds_users (dr_stats r') = ds_users (dr_stats r) + 1"
proof -
  let ?r = "r\<lparr> dr_hooks := [] \<rparr>"
  obtain e r1 where run: "RunDedupForUser cancelled fail hashf uid False False order ?r = (e, r1)" by fastforce
  have p: "unique_ids (dr_rows ?r)" "user_files uid (dr_rows r) = filter (dedup_eligible uid) (dr_rows ?r)"
    "distinct (order (user_files uid (dr_rows r)))"
    using assms(1,2) by (simp_all add: user_files_def)
  from run_links [OF p run] assms(3)
  have e: "e = None" and rows: "dr_rows r1 = linked_rows (user_files uid (dr_rows r)) (links_of order (dr_rows r) uid) (dr_rows r)"
    by (auto simp: links_of_def)
  have "16 \<le> length h" if "OnGroup h m c \<in> set (dr_hooks r1)" for h m c
  proof -
    have "h \<in> opt_str ` f_hash ` set (user_files uid (dr_rows r))"
      using run_hooks [OF run _ _ that] assms(2) by simp
    then show ?thesis using assms(4) by (auto simp: user_files_def dedup_eligible_def)
  qed
  then obtain ls where "hook_lines (dr_hooks r1) = Some ls" using hook_lines_ok by blast
  then have d: "deduplicateUser cancelled fail hashf False False order uid r = Some (count_user r1, LStart uid # ls)"
    by (simp add: deduplicateUser_def run e)
  have "ds_users (dr_stats r1) = ds_users (dr_stats r)"
    using run_users [OF run] by simp
  with d show ?thesis by (simp add: rows linked_rows_all [OF assms(1)] count_user_def)
qed

lemma unique_ids_linked: "unique_ids (all_linked order U rows) \<longleftrightarrow> unique_ids rows"
  by (simp add: unique_ids_def all_linked_ids)

lemma all_linked_hashes:
  "\<forall>f \<in> set rows. P (f_hash f) \<Longrightarrow> \<forall>f \<in> set (all_linked order U rows). P (f_hash f)"
  by (auto simp: all_linked_def)

lemma deduplicate_users_ok:
  fixes r :: "'o dedup_run"
  assumes "unique_ids rows" "\<forall>fs. distinct (order fs) \<and> set (order fs) = opt_str ` f_hash ` set fs"
    and "\<forall>env. fst (fail env) = None" "\<forall>f \<in> set rows. 16 \<le> length (opt_str (f_hash f)) \<or> opt_str (f_hash f) = ''''"
  shows "dr_rows r = all_linked order U rows \<Longrightarrow> distinct uids \<Longrightarrow> set uids \<inter> U = {} \<Longrightarrow>
    \<exists>r' ls. deduplicate_users cancelled fail hashf False False order uids r = Some (r', ls)
      \<and> dr_rows r' = all_linked order (U \<union> set uids) rows \<and> ds_users (dr_stats r') = ds_users (dr_stats r) + length uids"
proof (induction uids arbitrary: r U)
  case (Cons u us)
  have h: "\<forall>f \<in> set (dr_rows r). 16 \<le> length (opt_str (f_hash f)) \<or> opt_str (f_hash f) = ''''"
    unfolding Cons.prems(1) by (rule all_linked_hashes [OF assms(4)])
  have "unique_ids (dr_rows r)" using assms(1) by (simp add: Cons.prems(1) unique_ids_linked)
  from deduplicateUser_ok [OF this assms(2,3) h, of cancelled hashf u] obtain r1 ls where
    d: "deduplicateUser cancelled fail hashf False False order u r = Some (r1, ls)" "dr_rows r1 = all_linked order {u} (dr_rows r)"
      "ds_users (dr_stats r1) = ds_users (dr_stats r) + 1" by blast
  have "u \<notin> U" using Cons.prems(3) by simp
  with d(2) have "dr_rows r1 = all_linked order (insert u U) rows"
    by (simp add: Cons.prems(1) all_linked_insert [OF assms(1)])
  moreover have "distinct us" "set us \<inter> insert u U = {}" using Cons.prems(2,3) by auto
  ultimately obtain r' ls' where "deduplicate_users cancelled fail hashf False False order us r1 = Some (r', ls')"
      "dr_rows r' = all_linked order (insert u U \<union> set us) rows" "ds_users (dr_stats r') = ds_users (dr_stats r1) + length us"
    using Cons.IH by blast
  with d show ?case by simp
qed simp

lemma links_of_none: "\<forall>f \<in> set rows. \<not> dedup_eligible u f \<Longrightarrow> links_of order rows u = {}"
  by (simp add: links_of_def user_files_def dup_ids_def hash_group_def)

text \<open>
  Deduplicating everybody. If no statement fails, hashes have the length the hash function gives them and the map of groups is walked
  in some order, the command without backfill returns for everybody: every duplicate of every user is turned into a reference to the
  first file of its owner's group, nothing else changes, and the users counted are those with a file to deduplicate.
\<close>

theorem deduplicateAllUsers_links:
  fixes r :: "'o dedup_run"
  assumes "unique_ids (dr_rows r)" "\<forall>fs. distinct (order fs) \<and> set (order fs) = opt_str ` f_hash ` set fs"
    and "\<forall>env. fst (fail env) = None" "\<forall>f \<in> set (dr_rows r). 16 \<le> length (opt_str (f_hash f)) \<or> opt_str (f_hash f) = ''''"
    and "\<forall>us. distinct us \<longrightarrow> distinct (arrange us) \<and> set (arrange us) = set us"
  shows "\<exists>r' ls. deduplicateAllUsers cancelled fail hashf arrange False False order r = Some (r', ls)
    \<and> dr_rows r' = all_linked order UNIV (dr_rows r)
    \<and> ds_users (dr_stats r') = ds_users (dr_stats r) + card {f_user f | f. f \<in> set (dr_rows r) \<and> user_query False f}"
proof -
  let ?files = "filter (user_query False) (dr_rows r)"
  let ?us = "arrange (remdups (map f_user ?files))"
  obtain env where l: "load_rows fail (user_query False) r = (Inr ?files, r\<lparr> dr_env := env \<rparr>)"
  proof -
    obtain env where "fail (dr_env r) = (None, env)" using assms(3) by (metis prod.collapse)
    then have "load_rows fail (user_query False) r = (Inr ?files, r\<lparr> dr_env := env \<rparr>)" by (simp add: load_rows_def)
    then show ?thesis by (rule that)
  qed
  have us: "distinct ?us" "set ?us = f_user ` set ?files" using assms(5) by simp_all
  have rows: "dr_rows (r\<lparr> dr_env := env \<rparr>) = all_linked order {} (dr_rows r)" by (simp add: all_linked_def)
  from deduplicate_users_ok [OF assms(1-4) rows us(1), of cancelled hashf] obtain r' ls where
    r': "deduplicate_users cancelled fail hashf False False order ?us (r\<lparr> dr_env := env \<rparr>) = Some (r', ls)"
      "dr_rows r' = all_linked order (set ?us) (dr_rows r)" "ds_users (dr_stats r') = ds_users (dr_stats r) + length ?us"
    by auto
  have q: "dedup_eligible (f_user f) f = user_query False f" for f
    by (auto simp: dedup_eligible_def user_query_def opt_str_def Let_def split: option.splits)
  have "all_linked order (set ?us) (dr_rows r) = all_linked order UNIV (dr_rows r)"
    unfolding all_linked_def
  proof (rule map_cong [OF refl])
    fix f assume f: "f \<in> set (dr_rows r)"
    have "f_user f \<in> set ?us" if "f_id f \<in> links_of order (dr_rows r) (f_user f)"
      using links_of_user [OF assms(1) f that] f by (auto simp: us(2) q)
    then show "(if f_user f \<in> set ?us \<and> f_id f \<in> links_of order (dr_rows r) (f_user f)
        then link_row (canonical_of (user_files (f_user f) (dr_rows r)) f) f else f)
      = (if f_user f \<in> UNIV \<and> f_id f \<in> links_of order (dr_rows r) (f_user f)
        then link_row (canonical_of (user_files (f_user f) (dr_rows r)) f) f else f)" by simp
  qed
  moreover have "length ?us = card {f_user f | f. f \<in> set (dr_rows r) \<and> user_query False f}"
    unfolding distinct_card [OF us(1), symmetric] us(2) by (rule arg_cong [of _ _ card]) auto
  ultimately show ?thesis using r' by (simp add: deduplicateAllUsers_def l)
qed

text \<open>
  With backfill the query of the users is wrong both ways, since \<open>AND\<close> binds closer than \<open>OR\<close>: it takes users whose only hashed files
  are deleted, folders or encrypted, and it misses users whose plain files have an empty hash, although the backfill would give them one.
\<close>

lemma user_query_backfill_wrong:
  assumes "f_hash f = Some h" "h \<noteq> ''''"
  shows "user_query True f"
    and "f_status f \<noteq> ACTIVE \<Longrightarrow> \<not> needs_hash (f_user f) f \<and> \<not> dedup_eligible (f_user f) f"
    and "f_hash g = Some '''' \<Longrightarrow> \<not> user_query True g"
    and "f_hash g = Some '''' \<Longrightarrow> f_encrypted g = Some False \<Longrightarrow> f_status g = ACTIVE \<Longrightarrow> f_type g = FILE \<Longrightarrow> needs_hash (f_user g) g"
  using assms by (simp_all add: user_query_def needs_hash_def dedup_eligible_def opt_str_def Let_def)

section \<open>Witnesses\<close>

definition long_dup_rows :: "FileRow list" where
  "long_dup_rows = map (\<lambda>f. f\<lparr> f_hash := Some ''0123456789abcdef'' \<rparr>) dup_rows"

text \<open>The hashes of the files, in the order in which the files have them first.\<close>

definition hash_order :: "FileRow list \<Rightarrow> string list" where
  "hash_order fs = remdups (map (opt_str \<circ> f_hash) fs)"

theorem deduplicateAllUsers_links_witness:
  "\<exists>r' ls. deduplicateAllUsers (\<lambda>_. False) never_fails (\<lambda>_. Inr '''') id False False hash_order (dup_run\<lparr> dr_rows := long_dup_rows \<rparr>)
      = Some (r', ls)
    \<and> dr_rows r' = all_linked hash_order UNIV long_dup_rows \<and> links_of hash_order long_dup_rows 1 = {''b''}
    \<and> ds_users (dr_stats r') = ds_users (dr_stats dup_run) + 1"
proof -
  let ?r = "dup_run\<lparr> dr_rows := long_dup_rows \<rparr>"
  have e: "long_dup_rows = [f\<lparr> f_hash := Some ''0123456789abcdef'' \<rparr>, g\<lparr> f_hash := Some ''0123456789abcdef'' \<rparr>]"
    if "f = dup_row ''a'' ''a.txt'' (Some ''b'')" "g = dup_row ''b'' ''b.txt'' None" for f g
    using that by (simp add: long_dup_rows_def dup_rows_def)
  have h: "unique_ids (dr_rows ?r)" "\<forall>env. fst (never_fails env) = None"
    "\<forall>f \<in> set (dr_rows ?r). 16 \<le> length (opt_str (f_hash f)) \<or> opt_str (f_hash f) = ''''"
    "\<forall>fs. distinct (hash_order fs) \<and> set (hash_order fs) = opt_str ` f_hash ` set fs"
    "\<forall>us. distinct us \<longrightarrow> distinct (id us) \<and> set (id us) = set us"
    by (auto simp: e [OF refl refl] unique_ids_def dup_row_def mk_row_def opt_str_def never_fails_def hash_order_def)
  have u: "{f_user f | f. f \<in> set (dr_rows ?r) \<and> user_query False f} = {1}"
  proof -
    have "{f_user f | f. f \<in> set (dr_rows ?r) \<and> user_query False f} = f_user ` set (filter (user_query False) (dr_rows ?r))" by auto
    also have "\<dots> = {1}" by (simp add: e [OF refl refl] dup_row_def mk_row_def user_query_def Let_def)
    finally show ?thesis .
  qed
  have l: "links_of hash_order long_dup_rows 1 = {''b''}"
    by (simp add: links_of_def user_files_def e [OF refl refl] dup_row_def mk_row_def dedup_eligible_def opt_str_def hash_order_def
        dup_ids_def hash_group_def)
  from deduplicateAllUsers_links [where arrange = id, OF h(1,4,2,3,5), of "\<lambda>_. False" "\<lambda>_. Inr ''''"] show ?thesis
    unfolding u by (auto simp: l)
qed

end
