(* ===== verification/Duration.thy ===== *)
theory Duration
  imports HttpRange
begin

text \<open>
  Durations as the configuration writes them (internal/duration/duration.go): those of the standard library, and numbers of days, weeks,
  months and years. Durations are nanoseconds; arithmetic on floats is a parameter.
\<close>

section \<open>The standard library's format\<close>

text \<open>\<open>leadingInt\<close>: the digits in front; \<open>None\<close> is an overflow.\<close>

definition leadingInt :: "string \<Rightarrow> (nat \<times> string) option" where
  "leadingInt s =
     (let v = digits_val (takeWhile is_digit s)
      in if v > 2 ^ 63 then None else Some (v, dropWhile is_digit s))"

text \<open>\<open>leadingFraction\<close>: digits that would overflow are dropped; the second number is the scale as a power of ten.\<close>

fun fraction_digits :: "nat \<Rightarrow> nat \<Rightarrow> string \<Rightarrow> nat \<times> nat" where
  "fraction_digits x k [] = (x, k)"
| "fraction_digits x k (c # cs) =
     (if x > (2 ^ 63 - 1) div 10 \<or> x * 10 + digit_val c > 2 ^ 63 then (x, k)
      else fraction_digits (x * 10 + digit_val c) (k + 1) cs)"

text \<open>The units; the two spellings of the micro sign are of two bytes.\<close>

definition unitMap :: "string \<Rightarrow> nat option" where
  "unitMap u =
     (if u = ''ns'' then Some 1
      else if u = ''us'' \<or> u = [char_of (0xC2 :: nat), char_of (0xB5 :: nat), CHR ''s''] \<or> u = [char_of (0xCE :: nat), char_of (0xBC :: nat), CHR ''s'']
        then Some 1000
      else if u = ''ms'' then Some 1000000
      else if u = ''s'' then Some 1000000000
      else if u = ''m'' then Some 60000000000
      else if u = ''h'' then Some 3600000000000
      else None)"

text \<open>
  \<open>frac f unit k\<close> is the integer part of \<open>float64(f) * (float64(unit) / 10^k)\<close>. The numbers and units of a duration are
  read one after the other.
\<close>

function duration_terms :: "(nat \<Rightarrow> nat \<Rightarrow> nat \<Rightarrow> nat) \<Rightarrow> nat \<Rightarrow> string \<Rightarrow> nat option" where
  "duration_terms frac d s =
     (if s = [] then Some d
      else if hd s \<noteq> CHR ''.'' \<and> \<not> is_digit (hd s) then None
      else (case leadingInt s of
        None \<Rightarrow> None
      | Some (v, s1) \<Rightarrow>
          let pre = (length s1 \<noteq> length s);
              dot = (s1 \<noteq> [] \<and> hd s1 = CHR ''.'');
              ds = (if dot then takeWhile is_digit (tl s1) else []);
              (f, k) = fraction_digits 0 0 ds;
              s2 = (if dot then dropWhile is_digit (tl s1) else s1);
              post = (ds \<noteq> []);
              u = takeWhile (\<lambda>c. c \<noteq> CHR ''.'' \<and> \<not> is_digit c) s2;
              s3 = dropWhile (\<lambda>c. c \<noteq> CHR ''.'' \<and> \<not> is_digit c) s2
          in if \<not> pre \<and> \<not> post then None
             else if u = [] then None
             else (case unitMap u of
               None \<Rightarrow> None
             | Some n \<Rightarrow>
                 if v > 2 ^ 63 div n then None
                 else let w = v * n + (if f > 0 then frac f n k else 0)
                   in if f > 0 \<and> w > 2 ^ 63 then None
                      else let d = (d + w) mod 2 ^ 64 in if d > 2 ^ 63 then None else duration_terms frac d s3)))"
  by pat_completeness auto

lemma length_dropWhile_takeWhile: "takeWhile P s \<noteq> [] \<Longrightarrow> length (dropWhile P s) < length s"
  by (cases s) (auto simp: length_dropWhile_le le_imp_less_Suc split: if_splits)

termination duration_terms
proof (relation "measure (\<lambda>(frac, d, s). length s)", goal_cases)
  case (2 frac d s p v s1 pre dot ds q f k s2 post u s3 n w)
  have "length s2 \<le> length s"
  proof -
    have "length s1 \<le> length s" using 2(3,4) length_dropWhile_le [of is_digit s]
      by (auto simp: leadingInt_def Let_def split: if_splits)
    moreover have "length s2 \<le> length s1"
      using 2(10) length_dropWhile_le [of is_digit "tl s1"] by (auto split: if_splits)
    ultimately show ?thesis by simp
  qed
  moreover have "length s3 < length s2"
    unfolding 2(13) by (rule length_dropWhile_takeWhile) (use 2 in auto)
  ultimately show ?case by simp
qed simp

declare duration_terms.simps [simp del]

definition time_ParseDuration :: "(nat \<Rightarrow> nat \<Rightarrow> nat \<Rightarrow> nat) \<Rightarrow> string \<Rightarrow> int option" where
  "time_ParseDuration frac orig =
     (let neg = (orig \<noteq> [] \<and> hd orig = CHR ''-'');
          s = (if orig \<noteq> [] \<and> (hd orig = CHR ''-'' \<or> hd orig = CHR ''+'') then tl orig else orig)
      in if s = ''0'' then Some 0
         else if s = [] then None
         else case duration_terms frac 0 s of
           None \<Rightarrow> None
         | Some d \<Rightarrow> if neg then Some (i64 (- int d)) else if d > 2 ^ 63 - 1 then None else Some (int d))"

section \<open>Days, weeks, months and years\<close>

definition DurationOff :: int where "DurationOff = max_int64"

definition day :: int where "day = 24 * 3600000000000"

definition ageSuffixes :: "(string \<times> int) list" where
  "ageSuffixes = [(''d'', day), (''w'', 7 * day), (''M'', 30 * day), (''y'', 365 * day), ('''', 1000000000)]"

text \<open>
  \<open>ParseFloat\<close> is \<open>strconv.ParseFloat\<close>, \<open>scaled x m\<close> the product of a float with \<open>float64(m)\<close> converted to \<open>int64\<close>.
  The first suffix that fits decides; the empty one always does.
\<close>

fun parse_suffix :: "(string \<Rightarrow> 'f option) \<Rightarrow> ('f \<Rightarrow> int \<Rightarrow> int) \<Rightarrow> (string \<times> int) list \<Rightarrow> string \<Rightarrow> int option" where
  "parse_suffix ParseFloat scaled [] age = Some 0"
| "parse_suffix ParseFloat scaled ((suffix, m) # rest) age =
     (if HasSuffix age suffix then
        map_option (\<lambda>x. scaled x m) (ParseFloat (take (length age - length suffix) age))
      else parse_suffix ParseFloat scaled rest age)"

definition parseDurationSuffixes :: "(string \<Rightarrow> 'f option) \<Rightarrow> ('f \<Rightarrow> int \<Rightarrow> int) \<Rightarrow> string \<Rightarrow> int option" where
  "parseDurationSuffixes ParseFloat scaled age = parse_suffix ParseFloat scaled ageSuffixes age"

text \<open>The error, \<open>None\<close>, comes with the duration 0.\<close>

definition ParseDuration ::
    "(nat \<Rightarrow> nat \<Rightarrow> nat \<Rightarrow> nat) \<Rightarrow> (string \<Rightarrow> 'f option) \<Rightarrow> ('f \<Rightarrow> int \<Rightarrow> int) \<Rightarrow> string \<Rightarrow> int option" where
  "ParseDuration frac ParseFloat scaled age =
     (if age = ''off'' then Some DurationOff
      else case time_ParseDuration frac age of
        Some d \<Rightarrow> Some d
      | None \<Rightarrow> parseDurationSuffixes ParseFloat scaled age)"

text \<open>\<open>Set\<close> stores the duration also when it returns the error; \<open>UnmarshalText\<close> is \<open>Set\<close>.\<close>

definition Duration_Set ::
    "(nat \<Rightarrow> nat \<Rightarrow> nat \<Rightarrow> nat) \<Rightarrow> (string \<Rightarrow> 'f option) \<Rightarrow> ('f \<Rightarrow> int \<Rightarrow> int) \<Rightarrow> string \<Rightarrow> int \<times> bool" where
  "Duration_Set frac ParseFloat scaled s =
     (case ParseDuration frac ParseFloat scaled s of None \<Rightarrow> (0, False) | Some d \<Rightarrow> (d, True))"

section \<open>What is read\<close>

lemma leadingInt_show:
  assumes "u = [] \<or> \<not> is_digit (hd u)"
  shows "leadingInt (show_nat n @ u) = (if n > 2 ^ 63 then None else Some (n, u))"
proof -
  have d: "\<And>c. c \<in> set (show_nat n) \<Longrightarrow> is_digit c" using show_nat_digits [of n] by (simp add: list_all_iff)
  have "takeWhile is_digit (show_nat n @ u) = show_nat n" "dropWhile is_digit (show_nat n @ u) = u"
    using assms d by (cases u; simp add: takeWhile_append2 dropWhile_append2)+
  then show ?thesis using show_nat_digits [of n] by (simp add: leadingInt_def Let_def)
qed

lemma unit_terms:
  assumes u: "\<forall>c \<in> set u. c \<noteq> CHR ''.'' \<and> \<not> is_digit c"
  shows "duration_terms frac 0 (show_nat n @ u)
    = (case unitMap u of None \<Rightarrow> None
       | Some m \<Rightarrow> if n > 2 ^ 63 \<or> n > 2 ^ 63 div m \<or> n * m mod 2 ^ 64 > 2 ^ 63 then None else Some (n * m mod 2 ^ 64))"
proof -
  have h: "u = [] \<or> \<not> is_digit (hd u)" "u = [] \<or> hd u \<noteq> CHR ''.''" using u by (cases u; simp)+
  have d: "show_nat n \<noteq> []" "is_digit (hd (show_nat n @ u))"
    using show_nat_digits [of n] by (cases "show_nat n"; simp)+
  have w: "takeWhile (\<lambda>c. c \<noteq> CHR ''.'' \<and> \<not> is_digit c) u = u" "dropWhile (\<lambda>c. c \<noteq> CHR ''.'' \<and> \<not> is_digit c) u = []"
    using u by (simp_all add: takeWhile_eq_all_conv dropWhile_eq_Nil_conv)
  have "unitMap [] = None" by (simp add: unitMap_def)
  then show ?thesis
    using h d by (subst duration_terms.simps)
      (auto simp: leadingInt_show [OF h(1)] w duration_terms.simps [of frac _ "[]"] Let_def split: option.splits)
qed

lemma time_ParseDuration_show:
  assumes "\<forall>c \<in> set u. c \<noteq> CHR ''.'' \<and> \<not> is_digit c"
  shows "unitMap u = Some m \<Longrightarrow> 0 < m \<Longrightarrow> n * m \<le> 2 ^ 53 \<Longrightarrow> time_ParseDuration frac (show_nat n @ u) = Some (int (n * m))"
    and "unitMap u = None \<Longrightarrow> u \<noteq> [] \<or> n \<noteq> 0 \<Longrightarrow> time_ParseDuration frac (show_nat n @ u) = None"
proof -
  obtain c cs where c: "show_nat n = c # cs" "is_digit c" using show_nat_digits [of n] by (cases "show_nat n") auto
  from digit_not [OF c(2)] have s: "c \<noteq> CHR ''-''" "c \<noteq> CHR ''+''" by simp_all
  have t: "time_ParseDuration frac (show_nat n @ u)
      = (if show_nat n @ u = ''0'' then Some 0 else case duration_terms frac 0 (show_nat n @ u) of
           None \<Rightarrow> None | Some d \<Rightarrow> if d > 2 ^ 63 - 1 then None else Some (int d))"
    using s by (simp add: time_ParseDuration_def c(1) Let_def cong: option.case_cong)
  {
    assume m: "unitMap u = Some m" "0 < m" "n * m \<le> 2 ^ 53"
    have "n \<le> n * m" using m(2) by simp
    then have "n \<le> 2 ^ 53" using m(3) by (rule le_trans)
    moreover have "n \<le> 2 ^ 63 div m"
    proof -
      have "n * m \<le> 2 ^ 63" using m(3) by simp
      then show ?thesis using m(2) by (simp add: less_eq_div_iff_mult_less_eq)
    qed
    moreover have "u \<noteq> []" using m(1) by (auto simp: unitMap_def)
    then have "show_nat n @ u \<noteq> ''0''" by (simp add: c(1))
    ultimately show "time_ParseDuration frac (show_nat n @ u) = Some (int (n * m))"
      using m(1,3) by (simp add: t unit_terms [OF assms])
  next
    assume m: "unitMap u = None" "u \<noteq> [] \<or> n \<noteq> 0"
    have "show_nat n @ u \<noteq> ''0''"
    proof
      assume z: "show_nat n @ u = ''0''"
      then have "u = []" "show_nat n = ''0''" by (simp_all add: c(1))
      moreover have "digits_val ''0'' = 0" by code_simp
      ultimately show False using m(2) show_nat_digits [of n] by simp
    qed
    then show "time_ParseDuration frac (show_nat n @ u) = None" by (simp add: t unit_terms [OF assms] m(1))
  }
qed

lemma HasSuffix_last: "HasSuffix s [c] \<longleftrightarrow> s \<noteq> [] \<and> last s = c"
  by (cases s rule: rev_cases) (auto simp: HasSuffix_def HasPrefix_def)

lemma HasSuffix_Nil: "HasSuffix s []"
  by (simp add: HasSuffix_def HasPrefix_def)

lemma show_nat_last: "is_digit (last (show_nat n))"
  using show_nat_digits [of n] by (simp add: list_all_iff)

text \<open>The units and what they stand for: those of the standard library, and the ones added here.\<close>

definition duration_units :: "(string \<times> int) list" where
  "duration_units = [(''ns'', 1), (''us'', 1000), (''ms'', 1000000), (''s'', 1000000000), (''m'', 60000000000), (''h'', 3600000000000)] @ ageSuffixes"

lemma ParseDuration_unit:
  assumes "\<And>n. ParseFloat (show_nat n) = Some (flt n)"
    and "\<And>n m. int n * m \<le> 2 ^ 53 \<Longrightarrow> scaled (flt n) m = int n * m"
    and "(u, m) \<in> set duration_units" "int n * m \<le> 2 ^ 53"
  shows "ParseDuration frac ParseFloat scaled (show_nat n @ u) = Some (int n * m)"
proof -
  obtain c cs where c: "show_nat n = c # cs" "is_digit c" using show_nat_digits [of n] by (cases "show_nat n") auto
  have off: "show_nat n @ u \<noteq> ''off''" using c by (auto simp: is_digit_def)
  have chars: "\<forall>c \<in> set u. c \<noteq> CHR ''.'' \<and> \<not> is_digit c"
    using assms(3) by (auto simp: duration_units_def ageSuffixes_def is_digit_def)
  consider k where "unitMap u = Some k" "m = int k" "0 < k" | "unitMap u = None" "(u, m) \<in> set ageSuffixes"
    using assms(3) by (auto simp: duration_units_def ageSuffixes_def unitMap_def day_def)
  then show ?thesis
  proof cases
    case (1 k)
    with assms(4) have "n * k \<le> 2 ^ 53" by (simp flip: of_nat_mult of_nat_power)
    from time_ParseDuration_show(1) [OF chars 1(1,3) this] 1(2) off show ?thesis by (simp add: ParseDuration_def)
  next
    case 2
    have suffix: "parseDurationSuffixes ParseFloat scaled (show_nat n @ u) = Some (int n * m)"
      using 2(2) assms(2) [OF assms(4)] show_nat_last [of n] show_nat_digits [of n]
      by (auto simp: assms(1) parseDurationSuffixes_def ageSuffixes_def HasSuffix_last HasSuffix_Nil is_digit_def)
    show ?thesis
    proof (cases "u = [] \<and> n = 0")
      case True
      then have "time_ParseDuration frac (show_nat n @ u) = Some 0" by (simp add: show_nat.simps digit_char_def) code_simp
      with True off show ?thesis by (simp add: ParseDuration_def)
    next
      case False
      then have "time_ParseDuration frac (show_nat n @ u) = None" using time_ParseDuration_show(2) [OF chars 2(1)] by blast
      with off suffix show ?thesis by (simp add: ParseDuration_def)
    qed
  qed
qed

text \<open>
  A number with a unit is that many of the unit, exactly as long as the product is exact as a float: minutes (\<open>m\<close>) and months (\<open>M\<close>) are told
  apart by case, and a number without a unit counts seconds. The laws assumed are those of float arithmetic on integers.
\<close>

theorem ParseDuration_units:
  assumes "\<And>n. ParseFloat (show_nat n) = Some (flt n)"
    and "\<And>n m. int n * m \<le> 2 ^ 53 \<Longrightarrow> scaled (flt n) m = int n * m"
    and "(u, m) \<in> set duration_units" "int n * m \<le> 2 ^ 53"
  shows "ParseDuration frac ParseFloat scaled (show_nat n @ u) = Some (int n * m)"
  by (rule ParseDuration_unit [OF assms])

section \<open>Witnesses\<close>

definition whole_float :: "string \<Rightarrow> nat option" where
  "whole_float s = (if s \<noteq> [] \<and> list_all is_digit s then Some (digits_val s) else None)"

theorem ParseDuration_units_witness:
  "ParseDuration (\<lambda>_ _ _. 0) whole_float (\<lambda>n m. int n * m) ''30d'' = Some (30 * day)
   \<and> ParseDuration (\<lambda>_ _ _. 0) whole_float (\<lambda>n m. int n * m) ''3M'' = Some (90 * day)
   \<and> ParseDuration (\<lambda>_ _ _. 0) whole_float (\<lambda>n m. int n * m) ''3m'' = Some 180000000000"
proof -
  have f: "whole_float (show_nat n) = Some n" for n
    using show_nat_digits [of n] by (simp add: whole_float_def)
  have n: "show_nat 30 = ''30''" "show_nat 3 = ''3''" by code_simp+
  note P = ParseDuration_units [where flt = "\<lambda>n. n" and scaled = "\<lambda>n m. int n * m", OF f refl]
  have "ParseDuration (\<lambda>_ _ _. 0) whole_float (\<lambda>n m. int n * m) (show_nat 30 @ ''d'') = Some (int 30 * day)"
    by (rule P) (simp_all add: duration_units_def ageSuffixes_def day_def)
  moreover have "ParseDuration (\<lambda>_ _ _. 0) whole_float (\<lambda>n m. int n * m) (show_nat 3 @ ''M'') = Some (int 3 * (30 * day))"
    by (rule P) (simp_all add: duration_units_def ageSuffixes_def day_def)
  moreover have "ParseDuration (\<lambda>_ _ _. 0) whole_float (\<lambda>n m. int n * m) (show_nat 3 @ ''m'') = Some (int 3 * 60000000000)"
    by (rule P) (simp_all add: duration_units_def)
  ultimately show ?thesis by (simp add: n)
qed

end
