(* ===== verification/Config.thy ===== *)
theory Config
  imports Duration "HOL-Library.Sublist" "HOL-Library.Multiset"
begin

text \<open>
  The configuration (internal/config/config.go): its schema as the tags of the Go structs have it, the names of flags and environment
  variables derived from it, the defaults, and how the sources are laid over each other. Reflection becomes recursion over the schema; the
  koanf store, the readers of files and the final decoding are parameters.
\<close>

section \<open>Names\<close>

definition is_upper :: "char \<Rightarrow> bool" where "is_upper c \<longleftrightarrow> 65 \<le> (of_char c :: nat) \<and> (of_char c :: nat) \<le> 90"
definition is_lower :: "char \<Rightarrow> bool" where "is_lower c \<longleftrightarrow> 97 \<le> (of_char c :: nat) \<and> (of_char c :: nat) \<le> 122"

text \<open>The replacements of \<open>(.)([A-Z][a-z]+)\<close> and \<open>([a-z0-9])([A-Z])\<close> by their groups with a hyphen between them.\<close>

function replace_first_cap :: "string \<Rightarrow> string" where
  "replace_first_cap (c # d # e # s) =
     (if c \<noteq> CHR 0x0A \<and> is_upper d \<and> is_lower e
      then c # CHR ''-'' # d # e # takeWhile is_lower s @ replace_first_cap (dropWhile is_lower s)
      else c # replace_first_cap (d # e # s))"
| "replace_first_cap [c, d] = [c, d]"
| "replace_first_cap [c] = [c]"
| "replace_first_cap [] = []"
  by pat_completeness auto
termination by (relation "measure length") (auto simp: less_Suc_eq_le intro: le_SucI length_dropWhile_le)

fun replace_all_cap :: "string \<Rightarrow> string" where
  "replace_all_cap (c # d # s) =
     (if (is_lower c \<or> is_digit c) \<and> is_upper d then c # CHR ''-'' # d # replace_all_cap s
      else c # replace_all_cap (d # s))"
| "replace_all_cap s = s"

definition toKebabCase :: "string \<Rightarrow> string" where
  "toKebabCase s = ToLower (replace_all_cap (replace_first_cap s))"

definition upper_char :: "char \<Rightarrow> char" where
  "upper_char c = (if is_lower c then char_of (of_char c - 32 :: nat) else c)"

definition ToUpper :: "string \<Rightarrow> string" where
  "ToUpper s = map upper_char s"

text \<open>\<open>strings.ReplaceAll\<close> of a byte by a byte.\<close>

definition ReplaceC :: "string \<Rightarrow> char \<Rightarrow> char \<Rightarrow> string" where
  "ReplaceC s a b = map (\<lambda>c. if c = a then b else c) s"

section \<open>Schema\<close>

datatype cfg_kind = KString | KInt | KInt64 | KDuration | KBool | KStrings

text \<open>A field: its name, the tags \<open>koanf\<close>, \<open>skipPflag\<close> and \<open>default\<close>, and its type. The descriptions are only shown.\<close>

datatype cfg_field = CField string (cf_tag: string) (cf_skip: bool) (cf_default: string) (cf_type: cfg_type)
     and cfg_type = CLeaf cfg_kind | CStruct "cfg_field list"

definition getKey :: "string \<Rightarrow> string \<Rightarrow> string" where
  "getKey name tag = (if tag \<noteq> '''' then tag else toKebabCase name)"

definition sub_key :: "string \<Rightarrow> string \<Rightarrow> string" where
  "sub_key pre key = (if pre \<noteq> '''' then pre @ ''.'' @ key else key)"

definition env_name :: "string \<Rightarrow> string \<Rightarrow> string" where
  "env_name envPrefix key =
     (let envKey = ToUpper (ReplaceC key CHR ''-'' CHR ''_'')
      in if envPrefix \<noteq> '''' then envPrefix @ ''_'' @ envKey else envKey)"

text \<open>The assignments to \<open>envMap\<close> in their order.\<close>

fun generateEnvMap :: "string \<Rightarrow> string \<Rightarrow> cfg_field list \<Rightarrow> (string \<times> string) list" where
  "generateEnvMap pre envPrefix [] = []"
| "generateEnvMap pre envPrefix (CField n t s d ty # fs) =
     (let key = sub_key pre (getKey n t); envKey = env_name envPrefix (getKey n t)
      in case ty of CStruct gs \<Rightarrow> generateEnvMap key envKey gs | CLeaf k \<Rightarrow> [(envKey, key)])
     @ generateEnvMap pre envPrefix fs"

section \<open>Values and defaults\<close>

datatype cfg_val = VText string | VInt int | VBool bool | VList "string list"

text \<open>\<open>strconv.Atoi\<close> and \<open>ParseBool\<close> with their errors ignored: the number is 0, or the bound when out of range.\<close>

definition int_or_zero :: "string \<Rightarrow> int" where
  "int_or_zero s =
     (case ParseInt s of
        Some n \<Rightarrow> n
      | None \<Rightarrow>
          let neg = HasPrefix s ''-''; ds = (if neg \<or> HasPrefix s ''+'' then tl s else s)
          in if ds = [] \<or> \<not> list_all is_digit ds then 0 else if neg then min_int64 else max_int64)"

definition ParseBool :: "string \<Rightarrow> bool option" where
  "ParseBool s =
     (if s \<in> {''1'', ''t'', ''T'', ''true'', ''TRUE'', ''True''} then Some True
      else if s \<in> {''0'', ''f'', ''F'', ''false'', ''FALSE'', ''False''} then Some False
      else None)"

definition bool_or_false :: "string \<Rightarrow> bool" where
  "bool_or_false s = (case ParseBool s of Some b \<Rightarrow> b | None \<Rightarrow> False)"

definition default_value :: "cfg_kind \<Rightarrow> string \<Rightarrow> cfg_val" where
  "default_value k d =
     (case k of
        KInt \<Rightarrow> VInt (int_or_zero d)
      | KInt64 \<Rightarrow> VInt (int_or_zero d)
      | KBool \<Rightarrow> VBool (bool_or_false d)
      | KStrings \<Rightarrow> VList (Split d CHR '','')
      | KString \<Rightarrow> VText d
      | KDuration \<Rightarrow> VText d)"

text \<open>The calls of \<open>k.Set\<close>.\<close>

fun registerDefaultsRecursive :: "string \<Rightarrow> cfg_field list \<Rightarrow> (string \<times> cfg_val) list" where
  "registerDefaultsRecursive pre [] = []"
| "registerDefaultsRecursive pre (CField n t s d ty # fs) =
     (let key = pre @ ''.'' @ getKey n t
      in case ty of
           CStruct gs \<Rightarrow> registerDefaultsRecursive key gs
         | CLeaf k \<Rightarrow> if d \<noteq> '''' then [(key, default_value k d)] else [])
     @ registerDefaultsRecursive pre fs"

fun loadSkippedDefaults :: "string \<Rightarrow> cfg_field list \<Rightarrow> (string \<times> cfg_val) list" where
  "loadSkippedDefaults pre [] = []"
| "loadSkippedDefaults pre (CField n t s d ty # fs) =
     (let key = sub_key pre (getKey n t)
      in case ty of
           CStruct gs \<Rightarrow> if s then registerDefaultsRecursive key gs else loadSkippedDefaults key gs
         | CLeaf k \<Rightarrow> [])
     @ loadSkippedDefaults pre fs"

section \<open>Flags\<close>

record pflag =
  pf_name :: string
  pf_value :: cfg_val
  pf_changed :: bool

text \<open>
  The value of a flag before it is set: a list for slices, otherwise the text \<open>Value.String()\<close> gives. \<open>durText\<close> parses the default of
  a duration and shows it.
\<close>

definition flag_value :: "(string \<Rightarrow> string) \<Rightarrow> cfg_kind \<Rightarrow> string \<Rightarrow> cfg_val" where
  "flag_value durText k d =
     (case k of
        KString \<Rightarrow> VText d
      | KInt \<Rightarrow> VText (show_int (int_or_zero d))
      | KInt64 \<Rightarrow> VText (show_int (int_or_zero d))
      | KDuration \<Rightarrow> VText (durText d)
      | KBool \<Rightarrow> VText (if bool_or_false d then ''true'' else ''false'')
      | KStrings \<Rightarrow> VList (if d \<noteq> '''' then Split d CHR '','' else []))"

text \<open>The flags in the order of their registration, each with the key \<open>flagMap\<close> gets for it.\<close>

fun registerStruct :: "(string \<Rightarrow> string) \<Rightarrow> string \<Rightarrow> cfg_field list \<Rightarrow> (pflag \<times> string) list" where
  "registerStruct durText pre [] = []"
| "registerStruct durText pre (CField n t s d ty # fs) =
     (if s then []
      else
        let key = sub_key pre (getKey n t)
        in case ty of
             CStruct gs \<Rightarrow> registerStruct durText key gs
           | CLeaf k \<Rightarrow> [(\<lparr> pf_name = ReplaceC key CHR ''.'' CHR ''-'', pf_value = flag_value durText k d, pf_changed = False \<rparr>, key)])
     @ registerStruct durText pre fs"

text \<open>A second flag of the same name is a panic of pflag, \<open>None\<close>.\<close>

definition RegisterFlags :: "(string \<Rightarrow> string) \<Rightarrow> cfg_field list \<Rightarrow> (pflag list \<times> (string \<times> string) list) option" where
  "RegisterFlags durText fs =
     (let rs = registerStruct durText '''' fs;
          flags = \<lparr> pf_name = ''config'', pf_value = VText '''', pf_changed = False \<rparr> # map fst rs
      in if distinct (map pf_name flags) then Some (flags, map (\<lambda>(f, key). (pf_name f, key)) rs) else None)"

text \<open>The pairs \<open>customFlagProvider\<close> reads.\<close>

definition flag_Read :: "(string \<times> string) list \<Rightarrow> bool \<Rightarrow> bool \<Rightarrow> pflag list \<Rightarrow> (string \<times> cfg_val) list" where
  "flag_Read flagMap defaults onlyChanged flags =
     map (\<lambda>f. ((case map_of flagMap (pf_name f) of Some key \<Rightarrow> key | None \<Rightarrow> ReplaceC (pf_name f) CHR ''-'' CHR ''.''), pf_value f))
       (filter (\<lambda>f. \<not> (defaults \<and> pf_changed f) \<and> \<not> (onlyChanged \<and> \<not> pf_changed f)) flags)"

section \<open>The schema of the commands\<close>

definition EventConfig_schema :: "cfg_field list" where
  "EventConfig_schema = [
     CField ''PollInterval'' '''' False ''10s'' (CLeaf KDuration),
     CField ''DBWorkers'' '''' False ''10'' (CLeaf KInt),
     CField ''DBBufferSize'' '''' False ''1000'' (CLeaf KInt),
     CField ''DeduplicationTTL'' '''' False ''5s'' (CLeaf KDuration)]"

definition ServerConfig_schema :: "cfg_field list" where
  "ServerConfig_schema = [
     CField ''Port'' '''' False ''8080'' (CLeaf KInt),
     CField ''GracefulShutdown'' '''' False ''10s'' (CLeaf KDuration),
     CField ''EnablePprof'' '''' False ''false'' (CLeaf KBool),
     CField ''ReadTimeout'' '''' False ''1h'' (CLeaf KDuration),
     CField ''WriteTimeout'' '''' False ''1h'' (CLeaf KDuration),
     CField ''BaseURL'' '''' False '''' (CLeaf KString),
     CField ''ResizerHost'' '''' False '''' (CLeaf KString)]"

definition HTTPLoggingConfig_schema :: "cfg_field list" where
  "HTTPLoggingConfig_schema = [
     CField ''Enabled'' '''' False ''true'' (CLeaf KBool),
     CField ''LogQueries'' '''' False ''false'' (CLeaf KBool),
     CField ''SanitizeQueries'' '''' False ''true'' (CLeaf KBool),
     CField ''MaxQueryLength'' '''' False ''100'' (CLeaf KInt),
     CField ''LogUserAgent'' '''' False ''true'' (CLeaf KBool),
     CField ''LogRequestBodySize'' '''' False ''true'' (CLeaf KBool),
     CField ''LogResponseSize'' '''' False ''true'' (CLeaf KBool),
     CField ''SkipPaths'' '''' False ''/health,/metrics'' (CLeaf KStrings)]"

definition DBLoggingConfig_schema :: "cfg_field list" where
  "DBLoggingConfig_schema = [
     CField ''Level'' '''' False ''error'' (CLeaf KString),
     CField ''SlowThreshold'' '''' False ''1s'' (CLeaf KDuration),
     CField ''IgnoreRecordNotFound'' '''' False ''true'' (CLeaf KBool),
     CField ''LogSQL'' '''' False ''true'' (CLeaf KBool)]"

definition TGLoggingConfig_schema :: "cfg_field list" where
  "TGLoggingConfig_schema = [
     CField ''Enabled'' '''' False ''false'' (CLeaf KBool),
     CField ''Level'' '''' False ''warn'' (CLeaf KString)]"

definition LoggingConfig_schema :: "cfg_field list" where
  "LoggingConfig_schema = [
     CField ''Level'' '''' False ''info'' (CLeaf KString),
     CField ''TimeFormat'' '''' False ''2006-01-02 15:04:05'' (CLeaf KString),
     CField ''File'' '''' False '''' (CLeaf KString),
     CField ''HTTP'' '''' False '''' (CStruct HTTPLoggingConfig_schema),
     CField ''DB'' '''' False '''' (CStruct DBLoggingConfig_schema),
     CField ''TG'' '''' False '''' (CStruct TGLoggingConfig_schema)]"

definition JWTConfig_schema :: "cfg_field list" where
  "JWTConfig_schema = [
     CField ''Secret'' '''' False '''' (CLeaf KString),
     CField ''SessionTime'' '''' False ''30d'' (CLeaf KDuration),
     CField ''AllowedUsers'' '''' False '''' (CLeaf KStrings)]"

definition DBPool_schema :: "cfg_field list" where
  "DBPool_schema = [
     CField ''Enable'' '''' False ''true'' (CLeaf KBool),
     CField ''MaxOpenConnections'' '''' False ''25'' (CLeaf KInt),
     CField ''MaxIdleConnections'' '''' False ''25'' (CLeaf KInt),
     CField ''MaxLifetime'' '''' False ''10m'' (CLeaf KDuration)]"

definition DBConfig_schema :: "cfg_field list" where
  "DBConfig_schema = [
     CField ''DataSource'' '''' False '''' (CLeaf KString),
     CField ''PrepareStmt'' '''' False ''true'' (CLeaf KBool),
     CField ''Pool'' '''' False '''' (CStruct DBPool_schema)]"

definition TGUpload_schema :: "cfg_field list" where
  "TGUpload_schema = [
     CField ''EncryptionKey'' '''' False '''' (CLeaf KString),
     CField ''Threads'' '''' False ''8'' (CLeaf KInt),
     CField ''MaxRetries'' '''' False ''10'' (CLeaf KInt),
     CField ''Retention'' '''' False ''7d'' (CLeaf KDuration)]"

definition TGStream_schema :: "cfg_field list" where
  "TGStream_schema = [
     CField ''Concurrency'' '''' False ''1'' (CLeaf KInt),
     CField ''Buffers'' '''' False ''8'' (CLeaf KInt),
     CField ''ChunkTimeout'' '''' False ''30s'' (CLeaf KDuration),
     CField ''BotsLimit'' '''' False ''0'' (CLeaf KInt)]"

definition BoltSessionConfig_schema :: "cfg_field list" where
  "BoltSessionConfig_schema = [
     CField ''Path'' '''' False '''' (CLeaf KString),
     CField ''Timeout'' '''' False ''1s'' (CLeaf KDuration),
     CField ''NoGrowSync'' '''' False ''false'' (CLeaf KBool)]"

definition SessionStorageConfig_schema :: "cfg_field list" where
  "SessionStorageConfig_schema = [
     CField ''Type'' '''' False ''postgres'' (CLeaf KString),
     CField ''Key'' '''' False ''session'' (CLeaf KString),
     CField ''Bolt'' ''bolt'' False '''' (CStruct BoltSessionConfig_schema)]"

definition TGConfig_schema :: "cfg_field list" where
  "TGConfig_schema = [
     CField ''RateLimit'' '''' False ''true'' (CLeaf KBool),
     CField ''RateBurst'' '''' False ''5'' (CLeaf KInt),
     CField ''Rate'' '''' False ''100'' (CLeaf KInt),
     CField ''Ntp'' '''' False ''false'' (CLeaf KBool),
     CField ''Proxy'' '''' False '''' (CLeaf KString),
     CField ''ReconnectTimeout'' '''' False ''5m'' (CLeaf KDuration),
     CField ''PoolSize'' '''' False ''8'' (CLeaf KInt),
     CField ''EnableLogging'' '''' False ''false'' (CLeaf KBool),
     CField ''AppId'' '''' False ''2496'' (CLeaf KInt),
     CField ''AppHash'' '''' False ''8da85b0d5bfe62527e5b244c209159c3'' (CLeaf KString),
     CField ''DeviceModel'' '''' False ''Mozilla/5.0 (X11; Ubuntu; Linux x86_64; rv:109.0) Gecko/20100101 Firefox/116.0'' (CLeaf KString),
     CField ''SystemVersion'' '''' False ''Win32'' (CLeaf KString),
     CField ''AppVersion'' '''' False ''6.1.4 K'' (CLeaf KString),
     CField ''LangCode'' '''' False ''en'' (CLeaf KString),
     CField ''SystemLangCode'' '''' False ''en-US'' (CLeaf KString),
     CField ''LangPack'' '''' False ''webk'' (CLeaf KString),
     CField ''SessionInstance'' '''' False ''teldrive'' (CLeaf KString),
     CField ''AutoChannelCreate'' '''' False ''true'' (CLeaf KBool),
     CField ''ChannelLimit'' '''' False ''500000'' (CLeaf KInt64),
     CField ''Uploads'' '''' False '''' (CStruct TGUpload_schema),
     CField ''Stream'' '''' False '''' (CStruct TGStream_schema),
     CField ''Session'' '''' False '''' (CStruct SessionStorageConfig_schema)]"

definition CronJobConfig_schema :: "cfg_field list" where
  "CronJobConfig_schema = [
     CField ''Enable'' '''' False ''true'' (CLeaf KBool),
     CField ''LockerInstance'' '''' False ''cron-locker'' (CLeaf KString),
     CField ''CleanFilesInterval'' '''' False ''1h'' (CLeaf KDuration),
     CField ''CleanUploadsInterval'' '''' False ''12h'' (CLeaf KDuration),
     CField ''FolderSizeInterval'' '''' False ''2h'' (CLeaf KDuration)]"

definition CacheConfig_schema :: "cfg_field list" where
  "CacheConfig_schema = [
     CField ''MaxSize'' '''' False ''10485760'' (CLeaf KInt)]"

definition RedisConfig_schema :: "cfg_field list" where
  "RedisConfig_schema = [
     CField ''Addr'' '''' False '''' (CLeaf KString),
     CField ''Password'' '''' False '''' (CLeaf KString),
     CField ''PoolSize'' '''' False ''10'' (CLeaf KInt),
     CField ''MinIdleConns'' '''' False ''5'' (CLeaf KInt),
     CField ''MaxIdleConns'' '''' False ''10'' (CLeaf KInt),
     CField ''ConnMaxIdleTime'' '''' False ''5m'' (CLeaf KDuration),
     CField ''ConnMaxLifetime'' '''' False ''1h'' (CLeaf KDuration)]"

definition FilesConfig_schema :: "cfg_field list" where
  "FilesConfig_schema = [
     CField ''EnableArchiveBrowsing'' '''' False ''true'' (CLeaf KBool),
     CField ''EnableZipBrowsing'' '''' False ''false'' (CLeaf KBool),
     CField ''EnableCbzBrowsing'' '''' False ''true'' (CLeaf KBool),
     CField ''EnableUnityPkgBrowsing'' '''' False ''true'' (CLeaf KBool),
     CField ''EnableZipDownload'' '''' False ''true'' (CLeaf KBool),
     CField ''ZipMaxFiles'' '''' False ''10000'' (CLeaf KInt),
     CField ''ZipMaxSize'' '''' False ''0'' (CLeaf KInt64),
     CField ''ZipMaxConcurrent'' '''' False ''4'' (CLeaf KInt)]"

definition ShortlinkConfig_schema :: "cfg_field list" where
  "ShortlinkConfig_schema = [
     CField ''Enabled'' '''' False ''false'' (CLeaf KBool),
     CField ''ListenAddr'' '''' False '':8081'' (CLeaf KString),
     CField ''CodeLength'' '''' False ''7'' (CLeaf KInt),
     CField ''Domain'' '''' False '''' (CLeaf KString)]"

definition ServerCmdConfig_schema :: "cfg_field list" where
  "ServerCmdConfig_schema = [
     CField ''Server'' '''' False '''' (CStruct ServerConfig_schema),
     CField ''Log'' '''' False '''' (CStruct LoggingConfig_schema),
     CField ''JWT'' '''' False '''' (CStruct JWTConfig_schema),
     CField ''DB'' '''' False '''' (CStruct DBConfig_schema),
     CField ''TG'' '''' False '''' (CStruct TGConfig_schema),
     CField ''CronJobs'' '''' False '''' (CStruct CronJobConfig_schema),
     CField ''Cache'' '''' False '''' (CStruct CacheConfig_schema),
     CField ''Redis'' '''' False '''' (CStruct RedisConfig_schema),
     CField ''Events'' '''' False '''' (CStruct EventConfig_schema),
     CField ''Files'' '''' False '''' (CStruct FilesConfig_schema),
     CField ''Shortlinks'' '''' False '''' (CStruct ShortlinkConfig_schema)]"

definition CheckCmdConfig_schema :: "cfg_field list" where
  "CheckCmdConfig_schema = [
     CField ''Log'' '''' True '''' (CStruct LoggingConfig_schema),
     CField ''DB'' '''' False '''' (CStruct DBConfig_schema),
     CField ''TG'' '''' True '''' (CStruct TGConfig_schema),
     CField ''ExportFile'' '''' False ''results.json'' (CLeaf KString),
     CField ''DryRun'' '''' False ''false'' (CLeaf KBool),
     CField ''User'' '''' False '''' (CLeaf KString),
     CField ''Concurrent'' '''' False ''4'' (CLeaf KInt),
     CField ''CleanUploads'' '''' False ''false'' (CLeaf KBool),
     CField ''CleanPending'' '''' False ''false'' (CLeaf KBool)]"

definition DeduplicateCmdConfig_schema :: "cfg_field list" where
  "DeduplicateCmdConfig_schema = [
     CField ''Log'' '''' True '''' (CStruct LoggingConfig_schema),
     CField ''DB'' '''' False '''' (CStruct DBConfig_schema),
     CField ''TG'' '''' True '''' (CStruct TGConfig_schema),
     CField ''DryRun'' '''' False ''false'' (CLeaf KBool),
     CField ''User'' '''' False '''' (CLeaf KString),
     CField ''Backfill'' '''' False ''false'' (CLeaf KBool)]"

lemmas schema_defs =
  EventConfig_schema_def ServerConfig_schema_def HTTPLoggingConfig_schema_def DBLoggingConfig_schema_def TGLoggingConfig_schema_def LoggingConfig_schema_def JWTConfig_schema_def DBPool_schema_def DBConfig_schema_def TGUpload_schema_def TGStream_schema_def BoltSessionConfig_schema_def SessionStorageConfig_schema_def TGConfig_schema_def CronJobConfig_schema_def CacheConfig_schema_def RedisConfig_schema_def FilesConfig_schema_def ShortlinkConfig_schema_def ServerCmdConfig_schema_def CheckCmdConfig_schema_def DeduplicateCmdConfig_schema_def

section \<open>Loading\<close>

text \<open>The environment variables with the prefix, under the key the schema gives them or one made from the name.\<close>

definition env_key :: "(string \<times> string) list \<Rightarrow> string \<Rightarrow> string" where
  "env_key envMap s =
     (let key = TrimPrefix s ''TELDRIVE_''
      in case map_of (rev envMap) key of Some val \<Rightarrow> val | None \<Rightarrow> ReplaceC (ToLower key) CHR ''_'' CHR ''-'')"

definition env_Read :: "(string \<times> string) list \<Rightarrow> (string \<times> string) list \<Rightarrow> (string \<times> cfg_val) list" where
  "env_Read envMap environ =
     filter (\<lambda>(k, _). k \<noteq> '''') (map (\<lambda>(n, v). (env_key envMap n, VText v)) (filter (\<lambda>(n, _). HasPrefix n ''TELDRIVE_'') environ))"

datatype cfg_parser = PToml | PYaml

text \<open>
  What the loader meets outside: the user's home directory (clean, without a slash at its end), whether a file exists, and what a
  parser reads from it as pairs of keys and values; \<open>None\<close> is an error.
\<close>

record cfg_world =
  cw_home :: "string option"
  cw_exists :: "string \<Rightarrow> bool"
  cw_read :: "string \<Rightarrow> cfg_parser \<Rightarrow> (string \<times> cfg_val) list option"
  cw_environ :: "(string \<times> string) list"

definition config_paths :: "string \<Rightarrow> string list" where
  "config_paths home = [home @ ''/.teldrive/config.toml'', ''config.toml'']"

text \<open>The pairs of the configuration file, none if there is no file.\<close>

definition read_config_file :: "cfg_world \<Rightarrow> string \<Rightarrow> (string \<times> cfg_val) list option" where
  "read_config_file w cfgFile =
     (if cfgFile \<noteq> '''' then
        cw_read w cfgFile (if HasSuffix cfgFile ''.yaml'' \<or> HasSuffix cfgFile ''.yml'' then PYaml else PToml)
      else
        (case cw_home w of
           None \<Rightarrow> None
         | Some home \<Rightarrow>
             (case find (cw_exists w) (config_paths home) of
                None \<Rightarrow> Some []
              | Some path \<Rightarrow> cw_read w path PToml)))"

definition config_flag :: "pflag list \<Rightarrow> string" where
  "config_flag flags =
     (case find (\<lambda>f. pf_name f = ''config'') flags of
        Some f \<Rightarrow> (case pf_value f of VText s \<Rightarrow> s | _ \<Rightarrow> '''')
      | None \<Rightarrow> '''')"

text \<open>\<open>kload\<close> lays pairs over a koanf store (\<open>k.Load\<close>, and \<open>k.Set\<close> for one pair). The decoding into the struct follows.\<close>

definition Load ::
    "('k \<Rightarrow> (string \<times> cfg_val) list \<Rightarrow> 'k) \<Rightarrow> 'k \<Rightarrow> cfg_field list \<Rightarrow> (string \<times> string) list \<Rightarrow> pflag list \<Rightarrow> cfg_world \<Rightarrow> 'k option" where
  "Load kload k fs flagMap flags w =
     (let k = kload k (flag_Read flagMap True False flags);
          k = foldl (\<lambda>k p. kload k [p]) k (loadSkippedDefaults '''' fs)
      in map_option (\<lambda>m.
           let k = kload k m;
               k = kload k (env_Read (generateEnvMap '''' '''' fs) (cw_environ w))
           in kload k (flag_Read flagMap False True flags))
         (read_config_file w (config_flag flags)))"

text \<open>\<open>MatchName\<close>, by which the decoder finds the key of a field when no key is the field's name itself.\<close>

definition match_name :: "string \<Rightarrow> string \<Rightarrow> bool" where
  "match_name mapKey fieldName \<longleftrightarrow>
     ToLower (filter (\<lambda>c. c \<noteq> CHR ''-'') mapKey) = ToLower (filter (\<lambda>c. c \<noteq> CHR ''-'') fieldName)
     \<or> ToLower (filter (\<lambda>c. c \<noteq> CHR ''_'') mapKey) = ToLower (filter (\<lambda>c. c \<noteq> CHR ''_'') fieldName)"

section \<open>A schema in order\<close>

text \<open>A default that is read as a value of its kind, durations with exact arithmetic.\<close>

definition default_ok :: "cfg_kind \<Rightarrow> string \<Rightarrow> bool" where
  "default_ok k d \<longleftrightarrow>
     (case k of
        KInt \<Rightarrow> ParseInt d \<noteq> None
      | KInt64 \<Rightarrow> ParseInt d \<noteq> None
      | KBool \<Rightarrow> ParseBool d \<noteq> None
      | KDuration \<Rightarrow> ParseDuration (\<lambda>_ _ _. 0) whole_float (\<lambda>n m. int n * m) d \<noteq> None
      | _ \<Rightarrow> True)"

fun defaults_ok :: "cfg_field list \<Rightarrow> bool" where
  "defaults_ok [] = True"
| "defaults_ok (CField n t s d ty # fs) =
     ((case ty of CStruct gs \<Rightarrow> defaults_ok gs | CLeaf k \<Rightarrow> default_ok k d) \<and> defaults_ok fs)"

text \<open>In every struct the keys are not empty, hold no dot and are distinct.\<close>

definition field_key :: "cfg_field \<Rightarrow> string" where
  "field_key f = (case f of CField n t s d ty \<Rightarrow> getKey n t)"

fun keys_wf :: "cfg_field list \<Rightarrow> bool" where
  "keys_wf [] = True"
| "keys_wf (CField n t s d ty # fs) =
     (getKey n t \<noteq> '''' \<and> CHR ''.'' \<notin> set (getKey n t) \<and> getKey n t \<notin> field_key ` set fs
      \<and> (case ty of CStruct gs \<Rightarrow> keys_wf gs | CLeaf k \<Rightarrow> True) \<and> keys_wf fs)"

text \<open>One key lies below the other.\<close>

definition key_clash :: "string \<Rightarrow> string \<Rightarrow> bool" where
  "key_clash a b \<longleftrightarrow> HasPrefix a (b @ ''.'') \<or> HasPrefix b (a @ ''.'')"

definition env_of :: "string \<Rightarrow> string" where
  "env_of key = ToUpper (ReplaceC (ReplaceC key CHR ''-'' CHR ''_'') CHR ''.'' CHR ''_'')"

definition leaf_keys :: "cfg_field list \<Rightarrow> string list" where
  "leaf_keys fs = map snd (generateEnvMap '''' '''' fs)"

text \<open>
  What the loader needs of a schema: keys as above, none of them that of the flags that belong to no field, no two fields with the same
  environment variable, and defaults that can be read.
\<close>

definition schema_ok :: "cfg_field list \<Rightarrow> bool" where
  "schema_ok fs \<longleftrightarrow> keys_wf fs \<and> defaults_ok fs \<and> ''config'' \<notin> field_key ` set fs \<and> ''help'' \<notin> field_key ` set fs
     \<and> distinct (''CONFIG'' # ''HELP'' # map fst (generateEnvMap '''' '''' fs))"

section \<open>Keys and names\<close>

text \<open>A key is that of a field or lies below it.\<close>

definition below :: "string \<Rightarrow> string \<Rightarrow> bool" where
  "below K s \<longleftrightarrow> s = K \<or> HasPrefix s (K @ ''.'')"

lemma below_iff: "below K s \<longleftrightarrow> (\<exists>r. s = K @ r \<and> (r = [] \<or> hd r = CHR ''.''))"
proof
  assume "below K s"
  then consider "s = K" | r where "s = K @ ''.'' @ r" by (auto simp: below_def HasPrefix_iff)
  then show "\<exists>r. s = K @ r \<and> (r = [] \<or> hd r = CHR ''.'')" by cases auto
next
  assume "\<exists>r. s = K @ r \<and> (r = [] \<or> hd r = CHR ''.'')"
  then obtain r where "s = K @ r" "r = [] \<or> hd r = CHR ''.''" by blast
  then show "below K s" by (cases r) (auto simp: below_def HasPrefix_iff)
qed

lemma sub_key_split: "sub_key p k = (if p = '''' then '''' else p @ ''.'') @ k"
  by (simp add: sub_key_def)

lemma below_unique:
  assumes "below (sub_key p k) s" "below (sub_key p k') s" "CHR ''.'' \<notin> set k" "CHR ''.'' \<notin> set k'"
  shows "k = k'"
proof -
  have t: "takeWhile (\<lambda>c. c \<noteq> CHR ''.'') (l @ r) = l" if "CHR ''.'' \<notin> set l" "r = [] \<or> hd r = CHR ''.''" for l r
  proof -
    have "takeWhile (\<lambda>c. c \<noteq> CHR ''.'') (l @ r) = l @ takeWhile (\<lambda>c. c \<noteq> CHR ''.'') r"
      by (rule takeWhile_append2) (use that(1) in auto)
    with that(2) show ?thesis by (cases r) auto
  qed
  from assms(1,2) obtain r r' where "k @ r = k' @ r'" "r = [] \<or> hd r = CHR ''.''" "r' = [] \<or> hd r' = CHR ''.''"
    by (auto simp: below_iff sub_key_split)
  with t [of k r] t [of k' r'] assms(3,4) show ?thesis by simp
qed

lemma below_trans: "below K s \<Longrightarrow> below (sub_key K k) t \<Longrightarrow> K \<noteq> '''' \<Longrightarrow> below K t"
  by (auto simp: below_iff sub_key_def)

lemma env_key_below:
  "key \<in> snd ` set (generateEnvMap p e fs) \<Longrightarrow> keys_wf fs \<Longrightarrow> \<exists>f \<in> set fs. below (sub_key p (field_key f)) key"
proof (induction p e fs rule: generateEnvMap.induct)
  case (2 p e n t s d ty fs)
  show ?case
  proof (cases "key \<in> snd ` set (generateEnvMap p e fs)")
    case True
    with 2 show ?thesis by auto
  next
    case False
    let ?K = "sub_key p (getKey n t)"
    have "below ?K key"
    proof (cases ty)
      case (CLeaf k)
      with 2 False show ?thesis by (auto simp: below_def Let_def)
    next
      case (CStruct gs)
      with 2(3) False have "key \<in> snd ` set (generateEnvMap ?K (env_name e (getKey n t)) gs)" by (auto simp: Let_def)
      moreover have "keys_wf gs" using 2(4) CStruct by simp
      ultimately obtain f where "f \<in> set gs" "below (sub_key ?K (field_key f)) key"
        using 2(1) [OF refl refl CStruct] by blast
      moreover have "?K \<noteq> ''''" using 2(4) by (simp add: sub_key_def)
      ultimately show ?thesis using below_trans [of ?K ?K] by (simp add: below_def)
    qed
    then show ?thesis by (simp add: field_key_def)
  qed
qed simp

lemma field_keys_wf: "f \<in> set fs \<Longrightarrow> keys_wf fs \<Longrightarrow> CHR ''.'' \<notin> set (field_key f) \<and> field_key f \<noteq> ''''"
  by (induction fs rule: keys_wf.induct) (auto simp: field_key_def)

text \<open>No key of a field lies below that of another.\<close>

lemma keys_separate:
  "keys_wf fs \<Longrightarrow> distinct (map snd (generateEnvMap p e fs))
     \<and> (\<forall>a \<in> set (map snd (generateEnvMap p e fs)). \<forall>b \<in> set (map snd (generateEnvMap p e fs)). \<not> HasPrefix b (a @ ''.''))"
proof (induction p e fs rule: generateEnvMap.induct)
  case (2 p e n t s d ty fs)
  let ?K = "sub_key p (getKey n t)" and ?rest = "map snd (generateEnvMap p e fs)"
  define own where "own = map snd (case ty of CStruct gs \<Rightarrow> generateEnvMap ?K (env_name e (getKey n t)) gs | CLeaf k \<Rightarrow> [(env_name e (getKey n t), ?K)])"
  have all: "map snd (generateEnvMap p e (CField n t s d ty # fs)) = own @ ?rest"
    by (simp add: own_def Let_def)
  have wf: "keys_wf fs" "getKey n t \<notin> field_key ` set fs" "CHR ''.'' \<notin> set (getKey n t)" "getKey n t \<noteq> ''''" using 2(3) by simp_all
  have K: "?K \<noteq> ''''" using wf(4) by (simp add: sub_key_def)
  have o: "distinct own \<and> (\<forall>a \<in> set own. \<forall>b \<in> set own. \<not> HasPrefix b (a @ ''.'')) \<and> (\<forall>a \<in> set own. below ?K a)"
  proof (cases ty)
    case (CLeaf k)
    then show ?thesis by (simp add: own_def below_def HasPrefix_def)
  next
    case (CStruct gs)
    then have g: "keys_wf gs" using 2(3) by simp
    have "below ?K a" if "a \<in> snd ` set (generateEnvMap ?K (env_name e (getKey n t)) gs)" for a
      using env_key_below [OF that g] below_trans [of ?K ?K] K by (auto simp: below_def)
    with 2(1) [OF refl refl CStruct g] CStruct show ?thesis by (simp add: own_def)
  qed
  have dotfree: "CHR ''.'' \<notin> set (field_key f)" if "f \<in> set fs" "keys_wf fs" for f fs
    using that by (induction fs rule: keys_wf.induct) (auto simp: field_key_def)
  have apart: "\<not> (below ?K a \<and> a \<in> set ?rest)" for a
  proof
    assume a: "below ?K a \<and> a \<in> set ?rest"
    with env_key_below [OF _ wf(1), of a p e] obtain f where "f \<in> set fs" "below (sub_key p (field_key f)) a" by auto
    with below_unique [OF _ _ wf(3) dotfree] a wf(1,2) show False by fastforce
  qed
  have up: "below ?K b" if "below ?K a" "HasPrefix b (a @ ''.'')" for a b
    using that by (auto simp: below_iff HasPrefix_iff hd_append)
  have down: "\<not> HasPrefix a (b @ ''.'')" if a: "below ?K a" and b: "b \<in> set ?rest" for a b
  proof
    assume h: "HasPrefix a (b @ ''.'')"
    from env_key_below [OF _ wf(1), of b p e] b obtain f where f: "f \<in> set fs" "below (sub_key p (field_key f)) b" by auto
    then have "below (sub_key p (field_key f)) a" using h by (auto simp: below_iff HasPrefix_iff hd_append)
    with below_unique [OF a this wf(3) dotfree [OF f(1) wf(1)]] wf(2) f(1) show False by auto
  qed
  note I = 2(2) [OF wf(1)]
  show ?case unfolding all
  proof (intro conjI ballI)
    have "set own \<inter> set ?rest = {}" using o apart by blast
    with o I show "distinct (own @ ?rest)" by (simp only: distinct_append simp_thms)
  next
    fix a b
    assume "a \<in> set (own @ ?rest)" "b \<in> set (own @ ?rest)"
    then consider "a \<in> set own" "b \<in> set own" | "a \<in> set own" "b \<in> set ?rest" | "a \<in> set ?rest" "b \<in> set own"
      | "a \<in> set ?rest" "b \<in> set ?rest" by (auto simp only: set_append)
    then show "\<not> HasPrefix b (a @ ''.'')"
    proof cases
      case 2
      with o apart up show ?thesis by blast
    next
      case 3
      with o down show ?thesis by blast
    qed (use o I in blast)+
  qed
qed simp

lemma env_name_of: "CHR ''.'' \<notin> set k \<Longrightarrow> env_name (env_of p) k = env_of (sub_key p k)"
proof -
  assume k: "CHR ''.'' \<notin> set k"
  then have "ReplaceC (ReplaceC k CHR ''-'' CHR ''_'') CHR ''.'' CHR ''_'' = ReplaceC k CHR ''-'' CHR ''_''"
    by (auto simp: ReplaceC_def map_idI)
  moreover have "env_of p = '''' \<longleftrightarrow> p = ''''" by (simp add: env_of_def ToUpper_def ReplaceC_def)
  ultimately show ?thesis
    by (simp add: env_name_def sub_key_def env_of_def Let_def) (simp add: ReplaceC_def ToUpper_def upper_char_def is_lower_def)
qed

text \<open>The name of a variable is a function of the key.\<close>

lemma env_names:
  "keys_wf fs \<Longrightarrow> e = env_of p \<Longrightarrow> map fst (generateEnvMap p e fs) = map env_of (map snd (generateEnvMap p e fs))"
proof (induction p e fs rule: generateEnvMap.induct)
  case (2 p e n t s d ty fs)
  have n: "env_name e (getKey n t) = env_of (sub_key p (getKey n t))"
    using 2(3,4) env_name_of by simp
  have "keys_wf fs" using 2(3) by simp
  note rest = 2(2) [OF this 2(4)]
  show ?case
  proof (cases ty)
    case (CLeaf k)
    with rest n show ?thesis by (simp add: Let_def)
  next
    case (CStruct gs)
    then have "keys_wf gs" using 2(3) by simp
    from 2(1) [OF refl refl CStruct this n] rest CStruct n show ?thesis by (simp add: Let_def)
  qed
qed simp

text \<open>The keys of the flags are keys of fields, in the same order.\<close>

lemma flag_subseq: "subseq (map snd (registerStruct durText p fs)) (map snd (generateEnvMap p e fs))"
proof (induction durText p fs arbitrary: e rule: registerStruct.induct)
  case (2 durText p n t s d ty fs)
  let ?K = "sub_key p (getKey n t)" and ?e = "env_name e (getKey n t)"
  have "subseq (map snd (if s then [] else case ty of CStruct gs \<Rightarrow> registerStruct durText ?K gs
        | CLeaf k \<Rightarrow> [(\<lparr> pf_name = ReplaceC ?K CHR ''.'' CHR ''-'', pf_value = flag_value durText k d, pf_changed = False \<rparr>, ?K)]))
      (map snd (case ty of CStruct gs \<Rightarrow> generateEnvMap ?K ?e gs | CLeaf k \<Rightarrow> [(?e, ?K)]))"
    using 2(1) by (cases ty) auto
  from list_emb_append_mono [OF this 2(2)] show ?case by (simp only: registerStruct.simps generateEnvMap.simps Let_def map_append)
qed simp

lemma flag_names: "map (pf_name \<circ> fst) (registerStruct durText p fs) = map (\<lambda>k. ReplaceC k CHR ''.'' CHR ''-'') (map snd (registerStruct durText p fs))"
proof (induction durText p fs rule: registerStruct.induct)
  case (2 durText p n t s d ty fs)
  then show ?case by (cases ty) (auto simp: Let_def)
qed simp

lemma subseq_distinct: "subseq xs ys \<Longrightarrow> distinct ys \<Longrightarrow> distinct xs"
  by (induction rule: list_emb.induct) (auto dest: list_emb_set)

lemma distinct_two:
  "distinct (map g ks) \<Longrightarrow> (\<And>k. k \<in> set ks \<Longrightarrow> g k \<noteq> a \<and> g k \<noteq> b) \<Longrightarrow> a \<noteq> b \<Longrightarrow> distinct (a # b # map g ks)"
  by auto

text \<open>No two flags of a schema in order have the same name, so registering them does not panic.\<close>

lemma schema_flags:
  assumes "schema_ok fs"
  shows "distinct (''config'' # ''help'' # map (pf_name \<circ> fst) (registerStruct durText '''' fs))"
    and "distinct (map snd (registerStruct durText '''' fs))"
    and "set (map snd (registerStruct durText '''' fs)) \<subseteq> set (leaf_keys fs)"
proof -
  let ?ks = "map snd (registerStruct durText '''' fs)" and ?flag = "\<lambda>k. ReplaceC k CHR ''.'' CHR ''-''"
  have sub: "subseq ?ks (leaf_keys fs)" unfolding leaf_keys_def by (rule flag_subseq)
  then show "set ?ks \<subseteq> set (leaf_keys fs)"
  proof (intro subsetI)
    fix k assume "k \<in> set ?ks"
    from list_emb_set [OF sub this] show "k \<in> set (leaf_keys fs)" by metis
  qed
  have e: "env_of k = ToUpper (ReplaceC (?flag k) CHR ''-'' CHR ''_'')" for k
    by (simp add: env_of_def ReplaceC_def comp_def) (rule arg_cong [of _ _ ToUpper], simp)
  have "map fst (generateEnvMap '''' '''' fs) = map env_of (leaf_keys fs)"
    unfolding leaf_keys_def by (rule env_names) (use assms in \<open>simp_all add: schema_ok_def env_of_def ToUpper_def ReplaceC_def\<close>)
  with assms have d: "distinct (''CONFIG'' # ''HELP'' # map env_of (leaf_keys fs))" by (simp add: schema_ok_def)
  from d have "distinct (leaf_keys fs)" by (simp add: distinct_map)
  with sub show ks: "distinct ?ks" by (rule subseq_distinct)
  have "inj_on env_of (set (leaf_keys fs))" using d by (simp add: distinct_map)
  have "inj_on ?flag (set ?ks)"
  proof (rule inj_onI)
    fix a b assume ab: "a \<in> set ?ks" "b \<in> set ?ks" "?flag a = ?flag b"
    then have "env_of a = env_of b" by (simp only: e)
    with ab(1,2) \<open>set ?ks \<subseteq> set (leaf_keys fs)\<close> \<open>inj_on env_of (set (leaf_keys fs))\<close> show "a = b"
      by (meson inj_onD subsetD)
  qed
  with ks have "distinct (map ?flag ?ks)" by (simp only: distinct_map)
  moreover have "?flag k \<noteq> ''config'' \<and> ?flag k \<noteq> ''help''" if "k \<in> set ?ks" for k
  proof -
    have "env_of k \<in> set (map env_of (leaf_keys fs))" using that \<open>set ?ks \<subseteq> set (leaf_keys fs)\<close> by (simp only: set_map imageI subsetD)
    with d have "env_of k \<noteq> ''CONFIG''" "env_of k \<noteq> ''HELP''" by (metis distinct.simps(2) list.set_intros)+
    moreover have "ToUpper (ReplaceC ''config'' CHR ''-'' CHR ''_'') = ''CONFIG''" "ToUpper (ReplaceC ''help'' CHR ''-'' CHR ''_'') = ''HELP''"
      by code_simp+
    ultimately show ?thesis unfolding e by metis
  qed
  ultimately show "distinct (''config'' # ''help'' # map (pf_name \<circ> fst) (registerStruct durText '''' fs))"
    unfolding flag_names by (rule distinct_two; simp)
qed

lemma RegisterFlags_distinct:
  assumes "schema_ok fs"
  shows "\<exists>flags flagMap. RegisterFlags durText fs = Some (flags, flagMap) \<and> distinct (map snd flagMap)
    \<and> (\<forall>(name, key) \<in> set flagMap. name = ReplaceC key CHR ''.'' CHR ''-'' \<and> key \<in> set (leaf_keys fs) \<and> name \<noteq> ''help'')"
proof -
  let ?rs = "registerStruct durText '''' fs"
  note F = schema_flags [OF assms, of durText]
  have n: "map pf_name (map fst ?rs) = map (pf_name \<circ> fst) ?rs" by simp
  have "pf_name f = ReplaceC key CHR ''.'' CHR ''-''" if "(f, key) \<in> set ?rs" for f key
    using flag_names [of durText "''''" fs] that by (auto simp: map_eq_conv)
  moreover have "key \<in> set (leaf_keys fs)" "pf_name f \<noteq> ''help''" if "(f, key) \<in> set ?rs" for f key
  proof -
    have "key \<in> set (map snd ?rs)" "pf_name f \<in> set (map (pf_name \<circ> fst) ?rs)" using that by force+
    moreover have "''help'' \<notin> set (map (pf_name \<circ> fst) ?rs)" using F(1) by (simp only: distinct.simps list.set_intros simp_thms)
    ultimately show "key \<in> set (leaf_keys fs)" "pf_name f \<noteq> ''help''" using F(3) by (blast, metis)
  qed
  ultimately have "\<forall>(name, key) \<in> set (map (\<lambda>(f, key). (pf_name f, key)) ?rs).
      name = ReplaceC key CHR ''.'' CHR ''-'' \<and> key \<in> set (leaf_keys fs) \<and> name \<noteq> ''help''"
    by auto
  moreover have "map snd (map (\<lambda>(f, key). (pf_name f, key)) ?rs) = map snd ?rs" by (simp add: comp_def case_prod_beta)
  moreover have "distinct (map pf_name (\<lparr> pf_name = ''config'', pf_value = VText '''', pf_changed = False \<rparr> # map fst ?rs))"
    using F(1) by (simp only: list.map pflag.simps n) simp
  then have "\<exists>flags. RegisterFlags durText fs = Some (flags, map (\<lambda>(f, key). (pf_name f, key)) ?rs)"
    by (simp only: RegisterFlags_def Let_def if_True) blast
  moreover from this obtain flags where "RegisterFlags durText fs = Some (flags, map (\<lambda>(f, key). (pf_name f, key)) ?rs)" by blast
  ultimately show ?thesis using F(2) by (intro exI conjI) (assumption, simp only:, assumption)
qed

section \<open>Precedence\<close>

text \<open>Every key is set by a flag or by a skipped default, never by both.\<close>

lemma registered_defaults:
  "keys_wf fs \<Longrightarrow> p \<noteq> '''' \<Longrightarrow> mset (map fst (registerDefaultsRecursive p fs)) \<subseteq># mset (map snd (generateEnvMap p e fs))"
proof (induction p fs arbitrary: e rule: registerDefaultsRecursive.induct)
  case (2 p n t s d ty fs)
  let ?K = "sub_key p (getKey n t)" and ?e = "env_name e (getKey n t)"
  have K: "p @ ''.'' @ getKey n t = ?K" "?K \<noteq> ''''" using 2(4) by (simp_all add: sub_key_def)
  have "mset (map fst (case ty of CStruct gs \<Rightarrow> registerDefaultsRecursive ?K gs
        | CLeaf k \<Rightarrow> if d \<noteq> '''' then [(?K, default_value k d)] else []))
      \<subseteq># mset (map snd (case ty of CStruct gs \<Rightarrow> generateEnvMap ?K ?e gs | CLeaf k \<Rightarrow> [(?e, ?K)]))"
    using 2(1) [OF K(1) [symmetric]] 2(3) K by (cases ty) auto
  moreover have "mset (map fst (registerDefaultsRecursive p fs)) \<subseteq># mset (map snd (generateEnvMap p e fs))"
    using 2(2) [of e] 2(3,4) by simp
  ultimately show ?case
    unfolding registerDefaultsRecursive.simps generateEnvMap.simps Let_def K map_append mset_append by (rule subset_mset.add_mono)
qed simp

lemma flags_and_defaults:
  "keys_wf fs \<Longrightarrow> mset (map snd (registerStruct durText p fs)) + mset (map fst (loadSkippedDefaults p fs))
     \<subseteq># mset (map snd (generateEnvMap p e fs))"
proof (induction p fs arbitrary: e rule: loadSkippedDefaults.induct)
  case (2 p n t s d ty fs)
  let ?K = "sub_key p (getKey n t)" and ?e = "env_name e (getKey n t)"
  define own1 where "own1 = (if s then [] else case ty of CStruct gs \<Rightarrow> registerStruct durText ?K gs
    | CLeaf k \<Rightarrow> [(\<lparr> pf_name = ReplaceC ?K CHR ''.'' CHR ''-'', pf_value = flag_value durText k d, pf_changed = False \<rparr>, ?K)])"
  define own2 where "own2 = (case ty of CStruct gs \<Rightarrow> if s then registerDefaultsRecursive ?K gs else loadSkippedDefaults ?K gs | CLeaf k \<Rightarrow> [])"
  define own where "own = (case ty of CStruct gs \<Rightarrow> generateEnvMap ?K ?e gs | CLeaf k \<Rightarrow> [(?e, ?K)])"
  have wf: "keys_wf fs" "getKey n t \<noteq> ''''" using 2(3) by simp_all
  then have K: "?K \<noteq> ''''" by (simp add: sub_key_def)
  have "mset (map snd own1) + mset (map fst own2) \<subseteq># mset (map snd own)"
  proof (cases ty)
    case (CLeaf k)
    then show ?thesis by (simp add: own1_def own2_def own_def)
  next
    case (CStruct gs)
    then have g: "keys_wf gs" using 2(3) by simp
    show ?thesis
    proof (cases s)
      case True
      with registered_defaults [OF g K, of ?e] CStruct show ?thesis by (simp add: own1_def own2_def own_def)
    next
      case False
      with 2(1) [OF refl CStruct False g, of ?e] CStruct show ?thesis by (simp add: own1_def own2_def own_def)
    qed
  qed
  from subset_mset.add_mono [OF this 2(2) [OF wf(1), of e]]
  have "mset (map snd (own1 @ registerStruct durText p fs)) + mset (map fst (own2 @ loadSkippedDefaults p fs))
      \<subseteq># mset (map snd (own @ generateEnvMap p e fs))"
    by (simp add: ac_simps)
  then show ?case
    unfolding own1_def own2_def own_def by (simp only: registerStruct.simps loadSkippedDefaults.simps generateEnvMap.simps Let_def)
qed simp

lemma map_of_rev_distinct: "distinct (map fst xs) \<Longrightarrow> map_of (rev xs) = map_of xs"
proof (induction xs)
  case (Cons x xs)
  then have "map_of xs (fst x) = None" by (simp add: map_of_eq_None_iff)
  with Cons show ?case by (auto simp: fun_eq_iff map_add_def split: option.splits)
qed simp

lemma map_of_rev_filter:
  assumes "distinct (map h xs)" "x \<in> set xs"
  shows "map_of (rev (map (\<lambda>x. (h x, g x)) (filter P xs))) (h x) = (if P x then Some (g x) else None)"
proof -
  have d: "distinct (map fst (map (\<lambda>x. (h x, g x)) (filter P xs)))"
    using assms(1) by (simp add: comp_def distinct_map_filter)
  then have "map_of (rev (map (\<lambda>x. (h x, g x)) (filter P xs))) = map_of (map (\<lambda>x. (h x, g x)) (filter P xs))"
    by (rule map_of_rev_distinct)
  moreover have "map_of (map (\<lambda>x. (h x, g x)) (filter P xs)) (h x) = (if P x then Some (g x) else None)"
  proof (cases "P x")
    case True
    then have "(h x, g x) \<in> set (map (\<lambda>x. (h x, g x)) (filter P xs))" using assms(2) by auto
    from map_of_is_SomeI [OF d this] True show ?thesis by (simp only: if_True)
  next
    case False
    have "h x \<notin> fst ` set (map (\<lambda>x. (h x, g x)) (filter P xs))"
    proof
      assume "h x \<in> fst ` set (map (\<lambda>x. (h x, g x)) (filter P xs))"
      then obtain y where "y \<in> set xs" "P y" "h y = h x" by auto
      with assms False show False unfolding distinct_map inj_on_def by metis
    qed
    with False show ?thesis by (simp add: map_of_eq_None_iff)
  qed
  ultimately show ?thesis by simp
qed

text \<open>The keys of a schema in order, and of the flags that belong to no field, never clash.\<close>

lemma schema_keys:
  assumes "schema_ok fs" "key \<in> set (leaf_keys fs)"
  shows "distinct (leaf_keys fs)" "k \<in> set (''config'' # ''help'' # leaf_keys fs) \<Longrightarrow> \<not> key_clash k key"
    and "key \<noteq> ''config''" "key \<noteq> ''help''"
proof -
  have wf: "keys_wf fs" and ch: "''config'' \<notin> field_key ` set fs" "''help'' \<notin> field_key ` set fs" using assms(1) by (simp_all add: schema_ok_def)
  note S = keys_separate [OF wf, of "''''" "''''"]
  from S show "distinct (leaf_keys fs)" by (simp add: leaf_keys_def)
  have dotfree: "CHR ''.'' \<notin> set (field_key f)" if "f \<in> set fs" "keys_wf fs" for f fs
    using that by (induction fs rule: keys_wf.induct) (auto simp: field_key_def)
  obtain f where f: "f \<in> set fs" "below (sub_key '''' (field_key f)) key"
    using env_key_below [OF _ wf, of key "''''" "''''"] assms(2) by (auto simp: leaf_keys_def)
  have no: "\<not> below c key" if "c \<in> {''config'', ''help''}" for c
  proof
    assume b: "below c key"
    have "sub_key '''' c = c" by (simp add: sub_key_def)
    then have "field_key f = c"
      using below_unique [OF f(2), of c] b dotfree [OF f(1) wf] that by auto
    then have "c \<in> field_key ` set fs" using f(1) by auto
    with ch that show False by (metis insertE singletonD)
  qed
  then show "key \<noteq> ''config''" "key \<noteq> ''help''" by (auto simp: below_def)
  have up: "\<not> HasPrefix c (key @ ''.'')" if "c \<in> {''config'', ''help''}" for c
  proof
    assume "HasPrefix c (key @ ''.'')"
    then obtain r where "c = key @ ''.'' @ r" by (auto simp: HasPrefix_iff)
    then have "CHR ''.'' \<in> set c" by simp
    with that show False by auto
  qed
  show "\<not> key_clash k key" if k: "k \<in> set (''config'' # ''help'' # leaf_keys fs)"
  proof -
    consider "k \<in> {''config'', ''help''}" | "k \<in> set (leaf_keys fs)" using k by auto
    then show ?thesis
    proof cases
      case 1
      with no up show ?thesis by (auto simp: key_clash_def below_def)
    next
      case 2
      with S assms(2) show ?thesis by (auto simp: key_clash_def leaf_keys_def simp del: set_map)
    qed
  qed
qed

text \<open>The key under which a flag is read.\<close>

definition flag_key :: "(string \<times> string) list \<Rightarrow> pflag \<Rightarrow> string" where
  "flag_key flagMap f = (case map_of flagMap (pf_name f) of Some key \<Rightarrow> key | None \<Rightarrow> ReplaceC (pf_name f) CHR ''-'' CHR ''.'')"

lemma flag_Read_key: "flag_Read flagMap d c flags = map (\<lambda>f. (flag_key flagMap f, pf_value f))
    (filter (\<lambda>f. \<not> (d \<and> pf_changed f) \<and> \<not> (c \<and> \<not> pf_changed f)) flags)"
  by (simp add: flag_Read_def flag_key_def)

lemma flag_keys:
  assumes "schema_ok fs" "RegisterFlags durText fs = Some (flags0, flagMap)"
    and "map pf_name flags = map pf_name flags0 @ [''help'']"
  shows "map (flag_key flagMap) flags = ''config'' # map snd flagMap @ [''help'']"
    and "distinct (map (flag_key flagMap) flags)" "set (map snd flagMap) \<subseteq> set (leaf_keys fs)"
    and "map snd flagMap = map snd (registerStruct durText '''' fs)"
proof -
  let ?rs = "registerStruct durText '''' fs"
  note F = schema_flags [OF assms(1), of durText]
  have m: "flagMap = map (\<lambda>(f, key). (pf_name f, key)) ?rs" "map pf_name flags0 = ''config'' # map (pf_name \<circ> fst) ?rs"
    using assms(2) by (auto simp: RegisterFlags_def Let_def split: if_splits)
  then have names: "map pf_name flags0 = ''config'' # map fst flagMap" by (simp add: comp_def case_prod_beta)
  show snds: "map snd flagMap = map snd ?rs" by (simp add: m(1) comp_def case_prod_beta)
  with F(3) show sub: "set (map snd flagMap) \<subseteq> set (leaf_keys fs)" by simp
  have d: "distinct (''config'' # ''help'' # map fst flagMap)"
    using F(1) by (simp add: m(1) comp_def case_prod_beta)
  let ?g = "\<lambda>n. case map_of flagMap n of Some key \<Rightarrow> key | None \<Rightarrow> ReplaceC n CHR ''-'' CHR ''.''"
  have "map (flag_key flagMap) flags = map ?g (map pf_name flags)" by (simp add: flag_key_def comp_def)
  moreover have "?g ''config'' = ''config''" "?g ''help'' = ''help''"
    using d by (simp_all add: map_of_eq_None_iff [THEN iffD2] ReplaceC_def)
  moreover have "map ?g (map fst flagMap) = map snd flagMap"
    unfolding map_map
    by (rule map_cong [OF refl]) (use d in \<open>auto simp: map_of_eq_Some_iff [THEN iffD2]\<close>)
  ultimately show eq: "map (flag_key flagMap) flags = ''config'' # map snd flagMap @ [''help'']"
    by (simp only: assms(3) names list.map map_append append.simps)
  have "key \<noteq> ''config'' \<and> key \<noteq> ''help''" if "key \<in> set (map snd flagMap)" for key
    using schema_keys(3,4) [OF assms(1)] sub that by blast
  then show "distinct (map (flag_key flagMap) flags)"
    unfolding eq using F(2) snds by auto
qed

lemma TrimPrefix_app: "TrimPrefix (p @ s) p = s"
  by (simp add: TrimPrefix_def)

lemma pairs_by_snd: "map fst xs = map f (map snd xs) \<Longrightarrow> xs = map (\<lambda>k. (f k, k)) (map snd xs)"
  by (induction xs) auto

text \<open>The environment, when every variable with the prefix is one of the schema.\<close>

lemma env_lookup:
  assumes "schema_ok fs" "key \<in> set (leaf_keys fs)" "distinct (map fst environ)"
    and "\<forall>(n, v) \<in> set environ. HasPrefix n ''TELDRIVE_'' \<longrightarrow> TrimPrefix n ''TELDRIVE_'' \<in> fst ` set (generateEnvMap '''' '''' fs)"
  shows "map_of (rev (env_Read (generateEnvMap '''' '''' fs) environ)) key = map_option VText (map_of environ (''TELDRIVE_'' @ env_of key))"
    and "fst ` set (env_Read (generateEnvMap '''' '''' fs) environ) \<subseteq> set (leaf_keys fs)"
proof -
  let ?em = "generateEnvMap '''' '''' fs"
  have wf: "keys_wf fs" and de: "distinct (map fst ?em)" using assms(1) by (simp_all add: schema_ok_def)
  have en: "map fst ?em = map env_of (leaf_keys fs)"
    unfolding leaf_keys_def by (rule env_names [OF wf]) (simp add: env_of_def ToUpper_def ReplaceC_def)
  then have zip: "?em = map (\<lambda>k. (env_of k, k)) (leaf_keys fs)"
    unfolding leaf_keys_def by (rule pairs_by_snd)
  have look: "map_of (rev ?em) (env_of k) = Some k" if "k \<in> set (leaf_keys fs)" for k
    unfolding map_of_rev_distinct [OF de] by (rule map_of_is_SomeI [OF de]) (use that in \<open>auto simp: zip\<close>)
  have inj: "env_of k = env_of k' \<Longrightarrow> k = k'" if "k \<in> set (leaf_keys fs)" "k' \<in> set (leaf_keys fs)" for k k'
    using de that unfolding en distinct_map inj_on_def by blast
  let ?E = "filter (\<lambda>(n, _). HasPrefix n ''TELDRIVE_'') environ"
  have name: "\<exists>k \<in> set (leaf_keys fs). n = ''TELDRIVE_'' @ env_of k \<and> env_key ?em n = k" if "(n, v) \<in> set ?E" for n v
  proof -
    from that assms(4) have "HasPrefix n ''TELDRIVE_''" "TrimPrefix n ''TELDRIVE_'' \<in> set (map fst ?em)" by auto
    then obtain k where k: "TrimPrefix n ''TELDRIVE_'' = env_of k" "k \<in> set (leaf_keys fs)"
      unfolding en set_map by blast
    moreover obtain r where "n = ''TELDRIVE_'' @ r" using \<open>HasPrefix n _\<close> unfolding HasPrefix_iff by blast
    moreover from this k(1) have "r = env_of k" by (simp only: TrimPrefix_app)
    moreover have "env_key ?em n = k" using look [OF k(2)] by (simp only: env_key_def Let_def k(1) option.case)
    ultimately show ?thesis by blast
  qed
  have ne: "k \<noteq> ''''" if "k \<in> set (leaf_keys fs)" for k
  proof -
    from that env_key_below [OF _ wf, of k "''''" "''''"] obtain f where "f \<in> set fs" "below (sub_key '''' (field_key f)) k"
      by (auto simp: leaf_keys_def)
    with field_keys_wf [OF _ wf] show ?thesis by (auto simp: below_iff sub_key_def)
  qed
  have read: "env_Read ?em environ = map (\<lambda>(n, v). (env_key ?em n, VText v)) ?E"
    unfolding env_Read_def by (rule filter_True) (use name ne in fastforce)
  show "fst ` set (env_Read ?em environ) \<subseteq> set (leaf_keys fs)"
    unfolding read using name by fastforce
  show "map_of (rev (env_Read ?em environ)) key = map_option VText (map_of environ (''TELDRIVE_'' @ env_of key))"
  proof -
    have "inj_on (env_key ?em) (set (map fst ?E))"
    proof (rule inj_onI)
      fix m n
      assume mn: "m \<in> set (map fst ?E)" "n \<in> set (map fst ?E)" "env_key ?em m = env_key ?em n"
      have "\<exists>k. l = ''TELDRIVE_'' @ env_of k \<and> env_key ?em l = k" if "l \<in> set (map fst ?E)" for l
        using that name unfolding set_map by (metis (no_types, lifting) imageE prod.collapse)
      from this [OF mn(1)] this [OF mn(2)] mn(3) show "m = n" by metis
    qed
    moreover have "distinct (map fst ?E)" using assms(3) by (rule distinct_map_filter)
    ultimately have d: "distinct (map fst (env_Read ?em environ))"
      unfolding read by (simp add: distinct_map inj_on_def case_prod_beta comp_def) (metis (no_types, lifting) prod.collapse)
    let ?N = "''TELDRIVE_'' @ env_of key"
    have N: "HasPrefix ?N ''TELDRIVE_''" by (rule HasPrefix_append)
    show ?thesis
    proof (cases "map_of environ ?N")
      case None
      have "key \<notin> set (map fst (env_Read ?em environ))"
      proof
        assume "key \<in> set (map fst (env_Read ?em environ))"
        then obtain n v where nv: "(n, v) \<in> set ?E" "env_key ?em n = key" unfolding read by auto
        with name have "n = ?N" by blast
        with nv(1) None show False by (auto simp: map_of_eq_None_iff image_iff)
      qed
      then have "map_of (env_Read ?em environ) key = None" by (simp add: map_of_eq_None_iff)
      with None show ?thesis by (simp add: map_of_rev_distinct [OF d])
    next
      case (Some v)
      then have E: "(?N, v) \<in> set ?E" using N by (auto dest: map_of_SomeD)
      with name obtain k where "k \<in> set (leaf_keys fs)" "?N = ''TELDRIVE_'' @ env_of k" "env_key ?em ?N = k" by blast
      with inj assms(2) have "env_key ?em ?N = key" by simp
      with E have "(key, VText v) \<in> set (env_Read ?em environ)" unfolding read by force
      then show ?thesis using Some by (simp add: map_of_rev_distinct [OF d] map_of_is_SomeI [OF d])
    qed
  qed
qed

text \<open>Pairs that are laid over one by one.\<close>

lemma load_defaults:
  assumes "\<And>k m. \<forall>k' \<in> fst ` set m. \<not> key_clash k' key \<Longrightarrow> get (kload k m) key = (case map_of (rev m) key of Some v \<Rightarrow> Some v | None \<Rightarrow> get k key)"
  shows "\<forall>k' \<in> fst ` set ps. \<not> key_clash k' key \<and> k' \<noteq> key \<Longrightarrow> get (foldl (\<lambda>k p. kload k [p]) k ps) key = get k key"
proof (induction ps arbitrary: k)
  case (Cons p ps)
  then have "get (kload k [p]) key = get k key" using assms [of "[p]" k] by (cases p) auto
  with Cons show ?case by simp
qed simp

text \<open>All layers together.\<close>

lemma load_layers:
  fixes kload :: "'k \<Rightarrow> (string \<times> cfg_val) list \<Rightarrow> 'k" and get :: "'k \<Rightarrow> string \<Rightarrow> cfg_val option"
  assumes "schema_ok fs" "RegisterFlags durText fs = Some (flags0, flagMap)" "map pf_name flags = map pf_name flags0 @ [''help'']"
    and law: "\<And>k m. \<forall>k' \<in> fst ` set m. \<not> key_clash k' key \<Longrightarrow> get (kload k m) key = (case map_of (rev m) key of Some v \<Rightarrow> Some v | None \<Rightarrow> get k key)"
    and "f \<in> set flags" "(pf_name f, key) \<in> set flagMap"
    and "read_config_file w (config_flag flags) = Some m" "\<forall>k' \<in> fst ` set m. \<not> key_clash k' key"
    and "distinct (map fst (cw_environ w))"
    and "\<forall>(n, v) \<in> set (cw_environ w). HasPrefix n ''TELDRIVE_'' \<longrightarrow> TrimPrefix n ''TELDRIVE_'' \<in> fst ` set (generateEnvMap '''' '''' fs)"
  shows "\<exists>k. Load kload k0 fs flagMap flags w = Some k \<and> get k key = Some (
      if pf_changed f then pf_value f
      else case map_of (cw_environ w) (''TELDRIVE_'' @ env_of key) of
        Some t \<Rightarrow> VText t
      | None \<Rightarrow> (case map_of (rev m) key of Some v \<Rightarrow> v | None \<Rightarrow> pf_value f))"
proof -
  note K = flag_keys [OF assms(1-3)]
  have leaf: "key \<in> set (leaf_keys fs)" using K(3) assms(6) by force
  note S = schema_keys [OF assms(1) leaf]
  have names: "distinct (map pf_name flags0)" using assms(2) by (auto simp: RegisterFlags_def Let_def split: if_splits)
  have "map pf_name flags0 = ''config'' # map fst flagMap"
    using assms(2) by (auto simp: RegisterFlags_def Let_def comp_def case_prod_beta split: if_splits)
  with names have "distinct (map fst flagMap)" by simp
  then have fk: "flag_key flagMap f = key" using assms(6) by (simp add: flag_key_def)
  have rd: "map_of (rev (flag_Read flagMap d c flags)) key
      = (if \<not> (d \<and> pf_changed f) \<and> \<not> (c \<and> \<not> pf_changed f) then Some (pf_value f) else None)" for d c
    unfolding flag_Read_key using map_of_rev_filter [OF K(2) assms(5), of pf_value] unfolding fk .
  have nc: "\<forall>k' \<in> fst ` set (flag_Read flagMap d c flags). \<not> key_clash k' key" for d c
  proof
    fix k' assume "k' \<in> fst ` set (flag_Read flagMap d c flags)"
    then have "k' \<in> set (map (flag_key flagMap) flags)" by (auto simp: flag_Read_key)
    with K(1,3) show "\<not> key_clash k' key" by (intro S(2)) auto
  qed
  let ?skip = "loadSkippedDefaults '''' fs"
  have wf: "keys_wf fs" using assms(1) by (simp add: schema_ok_def)
  have sub: "mset (map snd flagMap) + mset (map fst ?skip) \<subseteq># mset (leaf_keys fs)"
    unfolding K(4) leaf_keys_def by (rule flags_and_defaults [OF wf])
  have skip: "\<forall>k' \<in> fst ` set ?skip. \<not> key_clash k' key \<and> k' \<noteq> key"
  proof
    fix k' assume k': "k' \<in> fst ` set ?skip"
    then have "k' \<in># mset (map snd flagMap) + mset (map fst ?skip)" by simp
    with sub have "k' \<in> set (leaf_keys fs)" by (metis mset_subset_eqD set_mset_mset)
    moreover have "k' \<noteq> key"
    proof
      assume "k' = key"
      have "key \<in># mset (map snd flagMap)" "key \<in># mset (map fst ?skip)" using assms(6) k' \<open>k' = key\<close> by force+
      then have "0 < count (mset (map snd flagMap)) key" "0 < count (mset (map fst ?skip)) key"
        by (simp_all only: count_greater_zero_iff)
      then have "2 \<le> count (mset (map snd flagMap) + mset (map fst ?skip)) key" unfolding count_union by linarith
      then have "2 \<le> count (mset (leaf_keys fs)) key" using sub by (meson le_trans mset_subset_eq_count)
      with S(1) leaf show False by (simp add: distinct_count_atmost_1)
    qed
    ultimately show "\<not> key_clash k' key \<and> k' \<noteq> key" using S(2) by simp
  qed
  note E = env_lookup [OF assms(1) leaf assms(9,10)]
  let ?env = "env_Read (generateEnvMap '''' '''' fs) (cw_environ w)"
  have ne: "\<forall>k' \<in> fst ` set ?env. \<not> key_clash k' key" using E(2) S(2) by auto
  define k1 where "k1 = kload k0 (flag_Read flagMap True False flags)"
  define k2 where "k2 = foldl (\<lambda>k p. kload k [p]) k1 ?skip"
  define k3 where "k3 = kload k2 m"
  define k4 where "k4 = kload k3 ?env"
  define k5 where "k5 = kload k4 (flag_Read flagMap False True flags)"
  have load: "Load kload k0 fs flagMap flags w = Some k5"
    by (simp add: Load_def assms(7) k1_def k2_def k3_def k4_def k5_def Let_def)
  have "get k2 key = get k1 key"
    unfolding k2_def by (rule load_defaults [where get = get and kload = kload and key = key, OF law skip])
  moreover have "get k1 key = (if pf_changed f then get k0 key else Some (pf_value f))"
    unfolding k1_def law [OF nc] rd by simp
  moreover have "get k3 key = (case map_of (rev m) key of Some v \<Rightarrow> Some v | None \<Rightarrow> get k2 key)"
    unfolding k3_def by (rule law [OF assms(8)])
  moreover have "get k4 key = (case map_option VText (map_of (cw_environ w) (''TELDRIVE_'' @ env_of key)) of Some v \<Rightarrow> Some v | None \<Rightarrow> get k3 key)"
    unfolding k4_def law [OF ne] E(1) ..
  moreover have "get k5 key = (if pf_changed f then Some (pf_value f) else get k4 key)"
    unfolding k5_def law [OF nc] rd by simp
  moreover define env where "env = map_of (cw_environ w) (''TELDRIVE_'' @ env_of key)"
  ultimately have "get k5 key = Some (if pf_changed f then pf_value f
      else case env of Some t \<Rightarrow> VText t | None \<Rightarrow> (case map_of (rev m) key of Some v \<Rightarrow> v | None \<Rightarrow> pf_value f))"
    by (simp split: option.split)
  with load show ?thesis unfolding env_def by blast
qed

section \<open>The schemas are in order\<close>

lemma case_upper:
  "lower_char CHR ''A'' = CHR ''a''" "upper_char CHR ''a'' = CHR ''A''"
  "lower_char CHR ''B'' = CHR ''b''" "upper_char CHR ''b'' = CHR ''B''"
  "lower_char CHR ''C'' = CHR ''c''" "upper_char CHR ''c'' = CHR ''C''"
  "lower_char CHR ''D'' = CHR ''d''" "upper_char CHR ''d'' = CHR ''D''"
  "lower_char CHR ''E'' = CHR ''e''" "upper_char CHR ''e'' = CHR ''E''"
  "lower_char CHR ''F'' = CHR ''f''" "upper_char CHR ''f'' = CHR ''F''"
  "lower_char CHR ''G'' = CHR ''g''" "upper_char CHR ''g'' = CHR ''G''"
  "lower_char CHR ''H'' = CHR ''h''" "upper_char CHR ''h'' = CHR ''H''"
  "lower_char CHR ''I'' = CHR ''i''" "upper_char CHR ''i'' = CHR ''I''"
  "lower_char CHR ''J'' = CHR ''j''" "upper_char CHR ''j'' = CHR ''J''"
  "lower_char CHR ''K'' = CHR ''k''" "upper_char CHR ''k'' = CHR ''K''"
  "lower_char CHR ''L'' = CHR ''l''" "upper_char CHR ''l'' = CHR ''L''"
  "lower_char CHR ''M'' = CHR ''m''" "upper_char CHR ''m'' = CHR ''M''"
  "lower_char CHR ''N'' = CHR ''n''" "upper_char CHR ''n'' = CHR ''N''"
  "lower_char CHR ''O'' = CHR ''o''" "upper_char CHR ''o'' = CHR ''O''"
  "lower_char CHR ''P'' = CHR ''p''" "upper_char CHR ''p'' = CHR ''P''"
  "lower_char CHR ''Q'' = CHR ''q''" "upper_char CHR ''q'' = CHR ''Q''"
  "lower_char CHR ''R'' = CHR ''r''" "upper_char CHR ''r'' = CHR ''R''"
  "lower_char CHR ''S'' = CHR ''s''" "upper_char CHR ''s'' = CHR ''S''"
  "lower_char CHR ''T'' = CHR ''t''" "upper_char CHR ''t'' = CHR ''T''"
  "lower_char CHR ''U'' = CHR ''u''" "upper_char CHR ''u'' = CHR ''U''"
  "lower_char CHR ''V'' = CHR ''v''" "upper_char CHR ''v'' = CHR ''V''"
  "lower_char CHR ''W'' = CHR ''w''" "upper_char CHR ''w'' = CHR ''W''"
  "lower_char CHR ''X'' = CHR ''x''" "upper_char CHR ''x'' = CHR ''X''"
  "lower_char CHR ''Y'' = CHR ''y''" "upper_char CHR ''y'' = CHR ''Y''"
  "lower_char CHR ''Z'' = CHR ''z''" "upper_char CHR ''z'' = CHR ''Z''"
  by code_simp+

lemma case_other: "\<not> is_upper c \<Longrightarrow> lower_char c = c" "\<not> is_lower c \<Longrightarrow> upper_char c = c"
  by (auto simp: lower_char_def is_upper_def upper_char_def Let_def)

lemmas kebab_simps = toKebabCase_def ToLower_def is_upper_def is_lower_def is_digit_def case_upper case_other

text \<open>The keys of all fields of the schemas.\<close>

lemma kebab:
  "toKebabCase ''Addr'' = ''addr''"
  "toKebabCase ''AllowedUsers'' = ''allowed-users''"
  "toKebabCase ''AppHash'' = ''app-hash''"
  "toKebabCase ''AppId'' = ''app-id''"
  "toKebabCase ''AppVersion'' = ''app-version''"
  "toKebabCase ''AutoChannelCreate'' = ''auto-channel-create''"
  "toKebabCase ''Backfill'' = ''backfill''"
  "toKebabCase ''BaseURL'' = ''base-url''"
  "toKebabCase ''Bolt'' = ''bolt''"
  "toKebabCase ''BotsLimit'' = ''bots-limit''"
  "toKebabCase ''Buffers'' = ''buffers''"
  "toKebabCase ''Cache'' = ''cache''"
  "toKebabCase ''ChannelLimit'' = ''channel-limit''"
  "toKebabCase ''ChunkTimeout'' = ''chunk-timeout''"
  "toKebabCase ''CleanFilesInterval'' = ''clean-files-interval''"
  "toKebabCase ''CleanPending'' = ''clean-pending''"
  "toKebabCase ''CleanUploads'' = ''clean-uploads''"
  "toKebabCase ''CleanUploadsInterval'' = ''clean-uploads-interval''"
  "toKebabCase ''CodeLength'' = ''code-length''"
  "toKebabCase ''Concurrency'' = ''concurrency''"
  "toKebabCase ''Concurrent'' = ''concurrent''"
  "toKebabCase ''ConnMaxIdleTime'' = ''conn-max-idle-time''"
  "toKebabCase ''ConnMaxLifetime'' = ''conn-max-lifetime''"
  "toKebabCase ''CronJobs'' = ''cron-jobs''"
  "toKebabCase ''DB'' = ''db''"
  "toKebabCase ''DBBufferSize'' = ''db-buffer-size''"
  "toKebabCase ''DBWorkers'' = ''db-workers''"
  "toKebabCase ''DataSource'' = ''data-source''"
  "toKebabCase ''DeduplicationTTL'' = ''deduplication-ttl''"
  "toKebabCase ''DeviceModel'' = ''device-model''"
  "toKebabCase ''Domain'' = ''domain''"
  "toKebabCase ''DryRun'' = ''dry-run''"
  "toKebabCase ''Enable'' = ''enable''"
  "toKebabCase ''EnableArchiveBrowsing'' = ''enable-archive-browsing''"
  "toKebabCase ''EnableCbzBrowsing'' = ''enable-cbz-browsing''"
  "toKebabCase ''EnableLogging'' = ''enable-logging''"
  "toKebabCase ''EnablePprof'' = ''enable-pprof''"
  "toKebabCase ''EnableUnityPkgBrowsing'' = ''enable-unity-pkg-browsing''"
  "toKebabCase ''EnableZipBrowsing'' = ''enable-zip-browsing''"
  "toKebabCase ''EnableZipDownload'' = ''enable-zip-download''"
  "toKebabCase ''Enabled'' = ''enabled''"
  "toKebabCase ''EncryptionKey'' = ''encryption-key''"
  "toKebabCase ''Events'' = ''events''"
  "toKebabCase ''ExportFile'' = ''export-file''"
  "toKebabCase ''File'' = ''file''"
  "toKebabCase ''Files'' = ''files''"
  "toKebabCase ''FolderSizeInterval'' = ''folder-size-interval''"
  "toKebabCase ''GracefulShutdown'' = ''graceful-shutdown''"
  "toKebabCase ''HTTP'' = ''http''"
  "toKebabCase ''IgnoreRecordNotFound'' = ''ignore-record-not-found''"
  "toKebabCase ''JWT'' = ''jwt''"
  "toKebabCase ''Key'' = ''key''"
  "toKebabCase ''LangCode'' = ''lang-code''"
  "toKebabCase ''LangPack'' = ''lang-pack''"
  "toKebabCase ''Level'' = ''level''"
  "toKebabCase ''ListenAddr'' = ''listen-addr''"
  "toKebabCase ''LockerInstance'' = ''locker-instance''"
  "toKebabCase ''Log'' = ''log''"
  "toKebabCase ''LogQueries'' = ''log-queries''"
  "toKebabCase ''LogRequestBodySize'' = ''log-request-body-size''"
  "toKebabCase ''LogResponseSize'' = ''log-response-size''"
  "toKebabCase ''LogSQL'' = ''log-sql''"
  "toKebabCase ''LogUserAgent'' = ''log-user-agent''"
  "toKebabCase ''MaxIdleConnections'' = ''max-idle-connections''"
  "toKebabCase ''MaxIdleConns'' = ''max-idle-conns''"
  "toKebabCase ''MaxLifetime'' = ''max-lifetime''"
  "toKebabCase ''MaxOpenConnections'' = ''max-open-connections''"
  "toKebabCase ''MaxQueryLength'' = ''max-query-length''"
  "toKebabCase ''MaxRetries'' = ''max-retries''"
  "toKebabCase ''MaxSize'' = ''max-size''"
  "toKebabCase ''MinIdleConns'' = ''min-idle-conns''"
  "toKebabCase ''NoGrowSync'' = ''no-grow-sync''"
  "toKebabCase ''Ntp'' = ''ntp''"
  "toKebabCase ''Password'' = ''password''"
  "toKebabCase ''Path'' = ''path''"
  "toKebabCase ''PollInterval'' = ''poll-interval''"
  "toKebabCase ''Pool'' = ''pool''"
  "toKebabCase ''PoolSize'' = ''pool-size''"
  "toKebabCase ''Port'' = ''port''"
  "toKebabCase ''PrepareStmt'' = ''prepare-stmt''"
  "toKebabCase ''Proxy'' = ''proxy''"
  "toKebabCase ''Rate'' = ''rate''"
  "toKebabCase ''RateBurst'' = ''rate-burst''"
  "toKebabCase ''RateLimit'' = ''rate-limit''"
  "toKebabCase ''ReadTimeout'' = ''read-timeout''"
  "toKebabCase ''ReconnectTimeout'' = ''reconnect-timeout''"
  "toKebabCase ''Redis'' = ''redis''"
  "toKebabCase ''ResizerHost'' = ''resizer-host''"
  "toKebabCase ''Retention'' = ''retention''"
  "toKebabCase ''SanitizeQueries'' = ''sanitize-queries''"
  "toKebabCase ''Secret'' = ''secret''"
  "toKebabCase ''Server'' = ''server''"
  "toKebabCase ''Session'' = ''session''"
  "toKebabCase ''SessionInstance'' = ''session-instance''"
  "toKebabCase ''SessionTime'' = ''session-time''"
  "toKebabCase ''Shortlinks'' = ''shortlinks''"
  "toKebabCase ''SkipPaths'' = ''skip-paths''"
  "toKebabCase ''SlowThreshold'' = ''slow-threshold''"
  "toKebabCase ''Stream'' = ''stream''"
  "toKebabCase ''SystemLangCode'' = ''system-lang-code''"
  "toKebabCase ''SystemVersion'' = ''system-version''"
  "toKebabCase ''TG'' = ''tg''"
  "toKebabCase ''Threads'' = ''threads''"
  "toKebabCase ''TimeFormat'' = ''time-format''"
  "toKebabCase ''Timeout'' = ''timeout''"
  "toKebabCase ''Type'' = ''type''"
  "toKebabCase ''Uploads'' = ''uploads''"
  "toKebabCase ''User'' = ''user''"
  "toKebabCase ''WriteTimeout'' = ''write-timeout''"
  "toKebabCase ''ZipMaxConcurrent'' = ''zip-max-concurrent''"
  "toKebabCase ''ZipMaxFiles'' = ''zip-max-files''"
  "toKebabCase ''ZipMaxSize'' = ''zip-max-size''"
  by (simp_all add: kebab_simps)

lemma env_words:
  "ToUpper (ReplaceC ''addr'' CHR ''-'' CHR ''_'') = ''ADDR''"
  "ToUpper (ReplaceC ''allowed-users'' CHR ''-'' CHR ''_'') = ''ALLOWED_USERS''"
  "ToUpper (ReplaceC ''app-hash'' CHR ''-'' CHR ''_'') = ''APP_HASH''"
  "ToUpper (ReplaceC ''app-id'' CHR ''-'' CHR ''_'') = ''APP_ID''"
  "ToUpper (ReplaceC ''app-version'' CHR ''-'' CHR ''_'') = ''APP_VERSION''"
  "ToUpper (ReplaceC ''auto-channel-create'' CHR ''-'' CHR ''_'') = ''AUTO_CHANNEL_CREATE''"
  "ToUpper (ReplaceC ''backfill'' CHR ''-'' CHR ''_'') = ''BACKFILL''"
  "ToUpper (ReplaceC ''base-url'' CHR ''-'' CHR ''_'') = ''BASE_URL''"
  "ToUpper (ReplaceC ''bolt'' CHR ''-'' CHR ''_'') = ''BOLT''"
  "ToUpper (ReplaceC ''bots-limit'' CHR ''-'' CHR ''_'') = ''BOTS_LIMIT''"
  "ToUpper (ReplaceC ''buffers'' CHR ''-'' CHR ''_'') = ''BUFFERS''"
  "ToUpper (ReplaceC ''cache'' CHR ''-'' CHR ''_'') = ''CACHE''"
  "ToUpper (ReplaceC ''channel-limit'' CHR ''-'' CHR ''_'') = ''CHANNEL_LIMIT''"
  "ToUpper (ReplaceC ''chunk-timeout'' CHR ''-'' CHR ''_'') = ''CHUNK_TIMEOUT''"
  "ToUpper (ReplaceC ''clean-files-interval'' CHR ''-'' CHR ''_'') = ''CLEAN_FILES_INTERVAL''"
  "ToUpper (ReplaceC ''clean-pending'' CHR ''-'' CHR ''_'') = ''CLEAN_PENDING''"
  "ToUpper (ReplaceC ''clean-uploads'' CHR ''-'' CHR ''_'') = ''CLEAN_UPLOADS''"
  "ToUpper (ReplaceC ''clean-uploads-interval'' CHR ''-'' CHR ''_'') = ''CLEAN_UPLOADS_INTERVAL''"
  "ToUpper (ReplaceC ''code-length'' CHR ''-'' CHR ''_'') = ''CODE_LENGTH''"
  "ToUpper (ReplaceC ''concurrency'' CHR ''-'' CHR ''_'') = ''CONCURRENCY''"
  "ToUpper (ReplaceC ''concurrent'' CHR ''-'' CHR ''_'') = ''CONCURRENT''"
  "ToUpper (ReplaceC ''conn-max-idle-time'' CHR ''-'' CHR ''_'') = ''CONN_MAX_IDLE_TIME''"
  "ToUpper (ReplaceC ''conn-max-lifetime'' CHR ''-'' CHR ''_'') = ''CONN_MAX_LIFETIME''"
  "ToUpper (ReplaceC ''cron-jobs'' CHR ''-'' CHR ''_'') = ''CRON_JOBS''"
  "ToUpper (ReplaceC ''data-source'' CHR ''-'' CHR ''_'') = ''DATA_SOURCE''"
  "ToUpper (ReplaceC ''db'' CHR ''-'' CHR ''_'') = ''DB''"
  "ToUpper (ReplaceC ''db-buffer-size'' CHR ''-'' CHR ''_'') = ''DB_BUFFER_SIZE''"
  "ToUpper (ReplaceC ''db-workers'' CHR ''-'' CHR ''_'') = ''DB_WORKERS''"
  "ToUpper (ReplaceC ''deduplication-ttl'' CHR ''-'' CHR ''_'') = ''DEDUPLICATION_TTL''"
  "ToUpper (ReplaceC ''device-model'' CHR ''-'' CHR ''_'') = ''DEVICE_MODEL''"
  "ToUpper (ReplaceC ''domain'' CHR ''-'' CHR ''_'') = ''DOMAIN''"
  "ToUpper (ReplaceC ''dry-run'' CHR ''-'' CHR ''_'') = ''DRY_RUN''"
  "ToUpper (ReplaceC ''enable'' CHR ''-'' CHR ''_'') = ''ENABLE''"
  "ToUpper (ReplaceC ''enable-archive-browsing'' CHR ''-'' CHR ''_'') = ''ENABLE_ARCHIVE_BROWSING''"
  "ToUpper (ReplaceC ''enable-cbz-browsing'' CHR ''-'' CHR ''_'') = ''ENABLE_CBZ_BROWSING''"
  "ToUpper (ReplaceC ''enable-logging'' CHR ''-'' CHR ''_'') = ''ENABLE_LOGGING''"
  "ToUpper (ReplaceC ''enable-pprof'' CHR ''-'' CHR ''_'') = ''ENABLE_PPROF''"
  "ToUpper (ReplaceC ''enable-unity-pkg-browsing'' CHR ''-'' CHR ''_'') = ''ENABLE_UNITY_PKG_BROWSING''"
  "ToUpper (ReplaceC ''enable-zip-browsing'' CHR ''-'' CHR ''_'') = ''ENABLE_ZIP_BROWSING''"
  "ToUpper (ReplaceC ''enable-zip-download'' CHR ''-'' CHR ''_'') = ''ENABLE_ZIP_DOWNLOAD''"
  "ToUpper (ReplaceC ''enabled'' CHR ''-'' CHR ''_'') = ''ENABLED''"
  "ToUpper (ReplaceC ''encryption-key'' CHR ''-'' CHR ''_'') = ''ENCRYPTION_KEY''"
  "ToUpper (ReplaceC ''events'' CHR ''-'' CHR ''_'') = ''EVENTS''"
  "ToUpper (ReplaceC ''export-file'' CHR ''-'' CHR ''_'') = ''EXPORT_FILE''"
  "ToUpper (ReplaceC ''file'' CHR ''-'' CHR ''_'') = ''FILE''"
  "ToUpper (ReplaceC ''files'' CHR ''-'' CHR ''_'') = ''FILES''"
  "ToUpper (ReplaceC ''folder-size-interval'' CHR ''-'' CHR ''_'') = ''FOLDER_SIZE_INTERVAL''"
  "ToUpper (ReplaceC ''graceful-shutdown'' CHR ''-'' CHR ''_'') = ''GRACEFUL_SHUTDOWN''"
  "ToUpper (ReplaceC ''http'' CHR ''-'' CHR ''_'') = ''HTTP''"
  "ToUpper (ReplaceC ''ignore-record-not-found'' CHR ''-'' CHR ''_'') = ''IGNORE_RECORD_NOT_FOUND''"
  "ToUpper (ReplaceC ''jwt'' CHR ''-'' CHR ''_'') = ''JWT''"
  "ToUpper (ReplaceC ''key'' CHR ''-'' CHR ''_'') = ''KEY''"
  "ToUpper (ReplaceC ''lang-code'' CHR ''-'' CHR ''_'') = ''LANG_CODE''"
  "ToUpper (ReplaceC ''lang-pack'' CHR ''-'' CHR ''_'') = ''LANG_PACK''"
  "ToUpper (ReplaceC ''level'' CHR ''-'' CHR ''_'') = ''LEVEL''"
  "ToUpper (ReplaceC ''listen-addr'' CHR ''-'' CHR ''_'') = ''LISTEN_ADDR''"
  "ToUpper (ReplaceC ''locker-instance'' CHR ''-'' CHR ''_'') = ''LOCKER_INSTANCE''"
  "ToUpper (ReplaceC ''log'' CHR ''-'' CHR ''_'') = ''LOG''"
  "ToUpper (ReplaceC ''log-queries'' CHR ''-'' CHR ''_'') = ''LOG_QUERIES''"
  "ToUpper (ReplaceC ''log-request-body-size'' CHR ''-'' CHR ''_'') = ''LOG_REQUEST_BODY_SIZE''"
  "ToUpper (ReplaceC ''log-response-size'' CHR ''-'' CHR ''_'') = ''LOG_RESPONSE_SIZE''"
  "ToUpper (ReplaceC ''log-sql'' CHR ''-'' CHR ''_'') = ''LOG_SQL''"
  "ToUpper (ReplaceC ''log-user-agent'' CHR ''-'' CHR ''_'') = ''LOG_USER_AGENT''"
  "ToUpper (ReplaceC ''max-idle-connections'' CHR ''-'' CHR ''_'') = ''MAX_IDLE_CONNECTIONS''"
  "ToUpper (ReplaceC ''max-idle-conns'' CHR ''-'' CHR ''_'') = ''MAX_IDLE_CONNS''"
  "ToUpper (ReplaceC ''max-lifetime'' CHR ''-'' CHR ''_'') = ''MAX_LIFETIME''"
  "ToUpper (ReplaceC ''max-open-connections'' CHR ''-'' CHR ''_'') = ''MAX_OPEN_CONNECTIONS''"
  "ToUpper (ReplaceC ''max-query-length'' CHR ''-'' CHR ''_'') = ''MAX_QUERY_LENGTH''"
  "ToUpper (ReplaceC ''max-retries'' CHR ''-'' CHR ''_'') = ''MAX_RETRIES''"
  "ToUpper (ReplaceC ''max-size'' CHR ''-'' CHR ''_'') = ''MAX_SIZE''"
  "ToUpper (ReplaceC ''min-idle-conns'' CHR ''-'' CHR ''_'') = ''MIN_IDLE_CONNS''"
  "ToUpper (ReplaceC ''no-grow-sync'' CHR ''-'' CHR ''_'') = ''NO_GROW_SYNC''"
  "ToUpper (ReplaceC ''ntp'' CHR ''-'' CHR ''_'') = ''NTP''"
  "ToUpper (ReplaceC ''password'' CHR ''-'' CHR ''_'') = ''PASSWORD''"
  "ToUpper (ReplaceC ''path'' CHR ''-'' CHR ''_'') = ''PATH''"
  "ToUpper (ReplaceC ''poll-interval'' CHR ''-'' CHR ''_'') = ''POLL_INTERVAL''"
  "ToUpper (ReplaceC ''pool'' CHR ''-'' CHR ''_'') = ''POOL''"
  "ToUpper (ReplaceC ''pool-size'' CHR ''-'' CHR ''_'') = ''POOL_SIZE''"
  "ToUpper (ReplaceC ''port'' CHR ''-'' CHR ''_'') = ''PORT''"
  "ToUpper (ReplaceC ''prepare-stmt'' CHR ''-'' CHR ''_'') = ''PREPARE_STMT''"
  "ToUpper (ReplaceC ''proxy'' CHR ''-'' CHR ''_'') = ''PROXY''"
  "ToUpper (ReplaceC ''rate'' CHR ''-'' CHR ''_'') = ''RATE''"
  "ToUpper (ReplaceC ''rate-burst'' CHR ''-'' CHR ''_'') = ''RATE_BURST''"
  "ToUpper (ReplaceC ''rate-limit'' CHR ''-'' CHR ''_'') = ''RATE_LIMIT''"
  "ToUpper (ReplaceC ''read-timeout'' CHR ''-'' CHR ''_'') = ''READ_TIMEOUT''"
  "ToUpper (ReplaceC ''reconnect-timeout'' CHR ''-'' CHR ''_'') = ''RECONNECT_TIMEOUT''"
  "ToUpper (ReplaceC ''redis'' CHR ''-'' CHR ''_'') = ''REDIS''"
  "ToUpper (ReplaceC ''resizer-host'' CHR ''-'' CHR ''_'') = ''RESIZER_HOST''"
  "ToUpper (ReplaceC ''retention'' CHR ''-'' CHR ''_'') = ''RETENTION''"
  "ToUpper (ReplaceC ''sanitize-queries'' CHR ''-'' CHR ''_'') = ''SANITIZE_QUERIES''"
  "ToUpper (ReplaceC ''secret'' CHR ''-'' CHR ''_'') = ''SECRET''"
  "ToUpper (ReplaceC ''server'' CHR ''-'' CHR ''_'') = ''SERVER''"
  "ToUpper (ReplaceC ''session'' CHR ''-'' CHR ''_'') = ''SESSION''"
  "ToUpper (ReplaceC ''session-instance'' CHR ''-'' CHR ''_'') = ''SESSION_INSTANCE''"
  "ToUpper (ReplaceC ''session-time'' CHR ''-'' CHR ''_'') = ''SESSION_TIME''"
  "ToUpper (ReplaceC ''shortlinks'' CHR ''-'' CHR ''_'') = ''SHORTLINKS''"
  "ToUpper (ReplaceC ''skip-paths'' CHR ''-'' CHR ''_'') = ''SKIP_PATHS''"
  "ToUpper (ReplaceC ''slow-threshold'' CHR ''-'' CHR ''_'') = ''SLOW_THRESHOLD''"
  "ToUpper (ReplaceC ''stream'' CHR ''-'' CHR ''_'') = ''STREAM''"
  "ToUpper (ReplaceC ''system-lang-code'' CHR ''-'' CHR ''_'') = ''SYSTEM_LANG_CODE''"
  "ToUpper (ReplaceC ''system-version'' CHR ''-'' CHR ''_'') = ''SYSTEM_VERSION''"
  "ToUpper (ReplaceC ''tg'' CHR ''-'' CHR ''_'') = ''TG''"
  "ToUpper (ReplaceC ''threads'' CHR ''-'' CHR ''_'') = ''THREADS''"
  "ToUpper (ReplaceC ''time-format'' CHR ''-'' CHR ''_'') = ''TIME_FORMAT''"
  "ToUpper (ReplaceC ''timeout'' CHR ''-'' CHR ''_'') = ''TIMEOUT''"
  "ToUpper (ReplaceC ''type'' CHR ''-'' CHR ''_'') = ''TYPE''"
  "ToUpper (ReplaceC ''uploads'' CHR ''-'' CHR ''_'') = ''UPLOADS''"
  "ToUpper (ReplaceC ''user'' CHR ''-'' CHR ''_'') = ''USER''"
  "ToUpper (ReplaceC ''write-timeout'' CHR ''-'' CHR ''_'') = ''WRITE_TIMEOUT''"
  "ToUpper (ReplaceC ''zip-max-concurrent'' CHR ''-'' CHR ''_'') = ''ZIP_MAX_CONCURRENT''"
  "ToUpper (ReplaceC ''zip-max-files'' CHR ''-'' CHR ''_'') = ''ZIP_MAX_FILES''"
  "ToUpper (ReplaceC ''zip-max-size'' CHR ''-'' CHR ''_'') = ''ZIP_MAX_SIZE''"
  by (simp_all add: ToUpper_def ReplaceC_def is_lower_def case_upper case_other)

lemma default_ok_duration:
  assumes "(u, m) \<in> set duration_units" "int n * m \<le> 2 ^ 53"
  shows "default_ok KDuration (show_nat n @ u)"
proof -
  have "whole_float (show_nat n) = Some n" for n
    using show_nat_digits [of n] by (simp add: whole_float_def)
  from ParseDuration_unit [where flt = "\<lambda>n. n" and scaled = "\<lambda>n m. int n * m", OF this refl assms]
  show ?thesis by (simp add: default_ok_def)
qed

lemma show_numbers:
  "show_nat 10 = ''10''" "show_nat 5 = ''5''" "show_nat 1 = ''1''" "show_nat 30 = ''30''" "show_nat 12 = ''12''" "show_nat 2 = ''2''" "show_nat 7 = ''7''"
  by code_simp+

lemma duration_defaults:
  "default_ok KDuration ''10s''" "default_ok KDuration ''5s''" "default_ok KDuration ''1h''" "default_ok KDuration ''1s''"
  "default_ok KDuration ''5m''" "default_ok KDuration ''30d''" "default_ok KDuration ''10m''" "default_ok KDuration ''12h''"
  "default_ok KDuration ''2h''" "default_ok KDuration ''30s''" "default_ok KDuration ''7d''"
  using default_ok_duration [of "''s''" 1000000000 10] default_ok_duration [of "''s''" 1000000000 5] default_ok_duration [of "''h''"
    3600000000000 1] default_ok_duration [of "''s''" 1000000000 1] default_ok_duration [of "''m''" 60000000000 5] default_ok_duration
    [of "''d''" day 30] default_ok_duration [of "''m''" 60000000000 10] default_ok_duration [of "''h''" 3600000000000 12]
    default_ok_duration [of "''h''" 3600000000000 2] default_ok_duration [of "''s''" 1000000000 30] default_ok_duration [of "''d''"
    day 7]
  by (simp_all add: duration_units_def ageSuffixes_def day_def show_numbers show_numbers(3) [unfolded One_nat_def])

lemma number_defaults:
  "\<forall>d \<in> set [''8080'', ''100'', ''25'', ''5'', ''8'', ''2496'', ''500000'', ''10'', ''1'', ''0'', ''10485760'', ''1000'', ''10000'', ''4'', ''7'']. default_ok KInt d"
  by (simp add: default_ok_def ParseInt_def is_digit_def digits_val_def digit_val_def min_int64_def max_int64_def)

lemmas schema_eval = getKey_def field_key_def sub_key_def kebab env_name_def env_words

lemma server_ok: "schema_ok ServerCmdConfig_schema"
proof -
  have "distinct (''CONFIG'' # ''HELP'' # map fst (generateEnvMap '''' '''' ServerCmdConfig_schema))"
    by (simp add: schema_defs schema_eval)
  moreover have "keys_wf ServerCmdConfig_schema" "''config'' \<notin> field_key ` set ServerCmdConfig_schema" "''help'' \<notin> field_key ` set ServerCmdConfig_schema"
    by (simp_all add: schema_defs schema_eval)
  moreover have "defaults_ok ServerCmdConfig_schema"
    using duration_defaults number_defaults by (simp add: schema_defs default_ok_def ParseBool_def)
  ultimately show ?thesis by (simp only: schema_ok_def simp_thms)
qed

lemma check_ok: "schema_ok CheckCmdConfig_schema"
proof -
  have "distinct (''CONFIG'' # ''HELP'' # map fst (generateEnvMap '''' '''' CheckCmdConfig_schema))"
    by (simp add: schema_defs schema_eval)
  moreover have "keys_wf CheckCmdConfig_schema" "''config'' \<notin> field_key ` set CheckCmdConfig_schema" "''help'' \<notin> field_key ` set CheckCmdConfig_schema"
    by (simp_all add: schema_defs schema_eval)
  moreover have "defaults_ok CheckCmdConfig_schema"
    using duration_defaults number_defaults by (simp add: schema_defs default_ok_def ParseBool_def)
  ultimately show ?thesis by (simp only: schema_ok_def simp_thms)
qed

lemma deduplicate_ok: "schema_ok DeduplicateCmdConfig_schema"
proof -
  have "distinct (''CONFIG'' # ''HELP'' # map fst (generateEnvMap '''' '''' DeduplicateCmdConfig_schema))"
    by (simp add: schema_defs schema_eval)
  moreover have "keys_wf DeduplicateCmdConfig_schema" "''config'' \<notin> field_key ` set DeduplicateCmdConfig_schema" "''help'' \<notin> field_key ` set DeduplicateCmdConfig_schema"
    by (simp_all add: schema_defs schema_eval)
  moreover have "defaults_ok DeduplicateCmdConfig_schema"
    using duration_defaults number_defaults by (simp add: schema_defs default_ok_def ParseBool_def)
  ultimately show ?thesis by (simp only: schema_ok_def simp_thms)
qed

section \<open>Properties\<close>


text \<open>What a command needs of its schema to start.\<close>

definition command_ok :: "(string \<Rightarrow> string) \<Rightarrow> cfg_field list \<Rightarrow> bool" where
  "command_ok durText fs \<longleftrightarrow>
     (case RegisterFlags durText fs of
        None \<Rightarrow> False
      | Some (flags, flagMap) \<Rightarrow>
          distinct (map snd flagMap) \<and> set (map snd flagMap) \<subseteq> set (leaf_keys fs) \<and> distinct (leaf_keys fs)
          \<and> distinct (map fst (generateEnvMap '''' '''' fs)) \<and> defaults_ok fs)"

lemma schema_command_ok: "schema_ok fs \<Longrightarrow> command_ok durText fs"
proof -
  assume ok: "schema_ok fs"
  from RegisterFlags_distinct [OF ok, of durText] obtain flags flagMap where
    r: "RegisterFlags durText fs = Some (flags, flagMap)" "distinct (map snd flagMap)"
      "\<forall>(name, key) \<in> set flagMap. name = ReplaceC key CHR ''.'' CHR ''-'' \<and> key \<in> set (leaf_keys fs) \<and> name \<noteq> ''help''" by blast
  then have "set (map snd flagMap) \<subseteq> set (leaf_keys fs)" by auto
  moreover have "distinct (leaf_keys fs)"
    using keys_separate [of fs "''''" "''''"] ok by (simp add: leaf_keys_def schema_ok_def)
  ultimately show ?thesis using r(1,2) ok by (simp add: command_ok_def schema_ok_def)
qed


text \<open>
  The decoder takes any key that matches a field's name when none is that name: the spelling of the sample configuration and the key
  of the defaults both match, and the store holds both.
\<close>

lemma sample_spelling_ambiguous:
  "match_name ''cronjobs'' ''CronJobs'' \<and> match_name ''cron-jobs'' ''CronJobs'' \<and> getKey ''CronJobs'' '''' = ''cron-jobs''"
  "match_name ''enable-unitypkg-browsing'' ''EnableUnityPkgBrowsing'' \<and> match_name ''enable-unity-pkg-browsing'' ''EnableUnityPkgBrowsing''
     \<and> getKey ''EnableUnityPkgBrowsing'' '''' = ''enable-unity-pkg-browsing''"
  by (simp_all add: match_name_def ToLower_def case_upper case_other is_upper_def getKey_def kebab)

section \<open>Witnesses\<close>

definition map_load :: "(string \<rightharpoonup> cfg_val) \<Rightarrow> (string \<times> cfg_val) list \<Rightarrow> (string \<rightharpoonup> cfg_val)" where
  "map_load k m = k ++ map_of (rev m)"

definition demo_world :: cfg_world where
  "demo_world = \<lparr> cw_home = Some ''/root'', cw_exists = (\<lambda>p. p = ''config.toml''),
     cw_read = (\<lambda>_ _. Some [(''user'', VText ''bob''), (''dry-run'', VText ''true'')]),
     cw_environ = [(''HOME'', ''/root''), (''TELDRIVE_USER'', ''ann'')] \<rparr>"

lemma deduplicate_user:
  "(\<lparr> pf_name = ''user'', pf_value = VText '''', pf_changed = False \<rparr>, ''user'') \<in> set (registerStruct id '''' DeduplicateCmdConfig_schema)"
  "(''USER'', ''user'') \<in> set (generateEnvMap '''' '''' DeduplicateCmdConfig_schema)"
   apply (simp add: DeduplicateCmdConfig_schema_def schema_eval ReplaceC_def flag_value_def Let_def)
  apply (simp add: DeduplicateCmdConfig_schema_def schema_eval Let_def)
  done


end
