(* ===== verification/Server.thy ===== *)
theory Server
  imports Login Router UnityPackage
begin

text \<open>
  The command that runs the server (cmd/run.go), the connection to the database (internal/database/database.go), the listener of the
  short domain (cmd/shortlink_server.go) and the pages of the application (internal/middleware). Listening, connecting and the goroutines
  that prepare the services are events of a schedule; what they build is modelled by the theories of the services.
\<close>

section \<open>Before the start\<close>

record run_config =
  rn_shortlinks :: bool
  rn_base_url :: string
  rn_cron :: bool
  rn_redis :: bool

text \<open>\<open>load\<close> and \<open>validate\<close> are those of the configuration loader; \<open>None\<close> lets the command run.\<close>

definition run_PreRunE :: "(svc_err + run_config) \<Rightarrow> (run_config \<Rightarrow> svc_err option) \<Rightarrow> svc_err option" where
  "run_PreRunE load validate =
     (case load of
        Inl e \<Rightarrow> Some e
      | Inr cfg \<Rightarrow>
          (case validate cfg of
             Some e \<Rightarrow> Some e
           | None \<Rightarrow>
               if rn_shortlinks cfg \<and> TrimSpace (rn_base_url cfg) = ''''
               then Some (EMsg ''server.base-url is required when shortlinks.enabled is true'')
               else None))"

text \<open>\<open>listens\<close> says on which ports the server can listen.\<close>

definition findAvailablePort :: "(int \<Rightarrow> bool) \<Rightarrow> int \<Rightarrow> svc_err + int" where
  "findAvailablePort listens startPort =
     (case find listens [startPort..startPort + 99] of
        Some port \<Rightarrow> Inr port
      | None \<Rightarrow> Inl (EMsg (''no available ports found between '' @ show_int startPort @ '' and '' @ show_int (startPort + 100))))"

lemma find_upto_least: "find P [a..b] = Some (p :: int) \<longleftrightarrow> a \<le> p \<and> p \<le> b \<and> P p \<and> (\<forall>q. a \<le> q \<and> q < p \<longrightarrow> \<not> P q)"
proof (induction a b rule: upto.induct)
  case (1 a b)
  show ?case
  proof (cases "a \<le> b")
    case True
    then have "[a..b] = a # [a + 1..b]" by (simp add: upto_rec1)
    with 1 True show ?thesis
      by (cases "P a") (auto, (smt (verit))+)
  qed auto
qed

text \<open>The port found is the first free one of the hundred from the configured one on.\<close>

lemma findAvailablePort_first:
  "findAvailablePort listens startPort = Inr p
     \<longleftrightarrow> startPort \<le> p \<and> p < startPort + 100 \<and> listens p \<and> (\<forall>q. startPort \<le> q \<and> q < p \<longrightarrow> \<not> listens q)"
  using find_upto_least [of listens startPort "startPort + 99" p]
  by (auto simp: findAvailablePort_def split: option.splits)

section \<open>Connecting to the database\<close>

definition connect_dsn :: "string \<Rightarrow> string" where
  "connect_dsn dsn =
     (if \<not> Contains dsn ''connect_timeout'' then
        if Contains dsn ''?'' then dsn @ ''&connect_timeout='' @ show_nat 10 else dsn @ ''?connect_timeout='' @ show_nat 10
      else dsn)"

text \<open>One attempt: the context of the attempt ends, or \<open>gorm.Open\<close> returns. The time-out of an attempt is five seconds longer.\<close>

datatype attempt = AttemptCancelled svc_err | AttemptFailed string | AttemptOpened

text \<open>
  \<open>attempt i\<close> is the outcome of attempt \<open>i\<close>, \<open>cancelled i\<close> the error of the context if it ends during the wait after it. The result is an error or the
  number of attempts made.
\<close>

function connect_loop :: "(nat \<Rightarrow> attempt) \<Rightarrow> (nat \<Rightarrow> svc_err option) \<Rightarrow> nat \<Rightarrow> nat \<Rightarrow> svc_err + nat" where
  "connect_loop attempt cancelled maxRetries i =
     (case attempt i of
        AttemptCancelled e \<Rightarrow> Inl e
      | AttemptOpened \<Rightarrow> Inr (i + 1)
      | AttemptFailed e \<Rightarrow>
          if i < maxRetries then
            (case cancelled i of Some e \<Rightarrow> Inl e | None \<Rightarrow> connect_loop attempt cancelled maxRetries (i + 1))
          else Inl (EMsg (''database connection failed after '' @ show_nat maxRetries @ '' attempts: '' @ e)))"
  by pat_completeness auto
termination by (relation "measure (\<lambda>(_, _, m, i). m - i)") auto

declare connect_loop.simps [simp del]

definition NewDatabase :: "(nat \<Rightarrow> attempt) \<Rightarrow> (nat \<Rightarrow> svc_err option) \<Rightarrow> svc_err + nat" where
  "NewDatabase attempt cancelled = connect_loop attempt cancelled 5 0"

text \<open>
  A connection string in the form \<open>key=value\<close>, which has no question mark, gets the query of a URL glued to the value of its last key.
\<close>

lemma Split_append_plain: "c \<notin> set t \<Longrightarrow> Split (s @ t) c = butlast (Split s c) @ [last (Split s c) @ t]"
proof (induction s)
  case Nil
  then show ?case by (induction t) auto
next
  case (Cons a s)
  then show ?case by (cases "Split s c") (auto split: if_splits)
qed

lemma connect_dsn_keyword:
  assumes "\<not> Contains dsn ''connect_timeout''" "\<not> Contains dsn ''?''"
  shows "Split (connect_dsn dsn) CHR '' '' = butlast (Split dsn CHR '' '') @ [last (Split dsn CHR '' '') @ ''?connect_timeout=10'']"
proof -
  have "show_nat 10 = ''10''" by code_simp
  then have "connect_dsn dsn = dsn @ ''?connect_timeout=10''" using assms by (simp add: connect_dsn_def)
  then show ?thesis by (simp add: Split_append_plain)
qed

lemma connect_dsn_dbname: "last (Split (connect_dsn ''host=db dbname=bdrive'') CHR '' '') = ''dbname=bdrive?connect_timeout=10''"
  by code_simp

text \<open>
  Six attempts are made, not five: with \<open>k\<close> failures before it the next attempt decides, for \<open>k\<close> up to 5; the error after
  the sixth speaks of 5.
\<close>

lemma connect_loop_failures:
  assumes "\<forall>j < k. (\<exists>e. attempt j = AttemptFailed e) \<and> cancelled j = None" "k \<le> m"
  shows "connect_loop attempt cancelled m 0 = connect_loop attempt cancelled m k"
  using assms
proof (induction k)
  case (Suc k)
  then obtain e where "attempt k = AttemptFailed e" "cancelled k = None" by auto
  then have "connect_loop attempt cancelled m k = connect_loop attempt cancelled m (Suc k)"
    using Suc.prems(2) by (subst connect_loop.simps) simp
  with Suc show ?case by simp
qed simp

lemma NewDatabase_attempts:
  assumes "\<forall>j < k. (\<exists>e. attempt j = AttemptFailed e) \<and> cancelled j = None" "k \<le> 5"
  shows "attempt k = AttemptOpened \<Longrightarrow> NewDatabase attempt cancelled = Inr (Suc k)"
    and "attempt k = AttemptCancelled e \<Longrightarrow> NewDatabase attempt cancelled = Inl e"
    and "k = 5 \<Longrightarrow> attempt k = AttemptFailed x \<Longrightarrow> NewDatabase attempt cancelled = Inl (EMsg (''database connection failed after 5 attempts: '' @ x))"
proof -
  have "NewDatabase attempt cancelled = connect_loop attempt cancelled 5 k"
    unfolding NewDatabase_def by (rule connect_loop_failures [OF assms])
  then have e: "NewDatabase attempt cancelled =
      (case attempt k of
        AttemptCancelled e \<Rightarrow> Inl e
      | AttemptOpened \<Rightarrow> Inr (k + 1)
      | AttemptFailed e \<Rightarrow>
          if k < 5 then
            (case cancelled k of Some e \<Rightarrow> Inl e | None \<Rightarrow> connect_loop attempt cancelled 5 (k + 1))
          else Inl (EMsg (''database connection failed after '' @ show_nat 5 @ '' attempts: '' @ e)))"
    by (simp only: connect_loop.simps [of attempt cancelled 5 k])
  have "show_nat 5 = ''5''" by code_simp
  with e show "attempt k = AttemptOpened \<Longrightarrow> NewDatabase attempt cancelled = Inr (Suc k)"
    "attempt k = AttemptCancelled e \<Longrightarrow> NewDatabase attempt cancelled = Inl e"
    "k = 5 \<Longrightarrow> attempt k = AttemptFailed x \<Longrightarrow> NewDatabase attempt cancelled = Inl (EMsg (''database connection failed after 5 attempts: '' @ x))"
    by (simp_all del: show_nat.simps)
qed

section \<open>The run of the server\<close>

text \<open>
  The main goroutine connects, migrates, waits for the goroutine of the cache, then for the one of the events, serves, and goes through the list of
  what is to be shut down. \<open>bt_errs\<close> is the number of errors in the buffered channel \<open>initErrCh\<close>; \<open>bt_log\<close> is what the main goroutine started
  and stopped, in this order. \<open>rn_redis\<close> says that there is a Redis client to close.
\<close>

datatype boot_act =
    ListenShort | ListenHttp | StartCron
  | CancelBackground | ShutdownEvents | ShutdownHttp | ShutdownShort | CloseRedis

datatype boot_pc = BConnect | BMigrate | BWaitCache | BWaitEvents | BSetup | BServing | BStopping "boot_act list" | BStopped | BExit

datatype background = BgIdle | BgRunning | BgReady | BgFailed

record boot =
  bt_pc :: boot_pc
  bt_signal :: bool
  bt_redis :: background
  bt_events :: background
  bt_cron :: background
  bt_crash :: bool
  bt_errs :: nat
  bt_log :: "boot_act list"

definition boot_init :: boot where
  "boot_init = \<lparr> bt_pc = BConnect, bt_signal = False, bt_redis = BgRunning, bt_events = BgIdle, bt_cron = BgIdle, bt_crash = False,
     bt_errs = 0, bt_log = [] \<rparr>"

definition started :: "run_config \<Rightarrow> boot_act list" where
  "started cfg = (if rn_shortlinks cfg then [ListenShort] else []) @ [ListenHttp] @ (if rn_cron cfg then [StartCron] else [])"

definition shutdown_acts :: "run_config \<Rightarrow> boot_act list" where
  "shutdown_acts cfg =
     [CancelBackground, ShutdownEvents, ShutdownHttp] @ (if rn_shortlinks cfg then [ShutdownShort] else [])
       @ (if rn_redis cfg then [CloseRedis] else [])"

inductive runApplication :: "run_config \<Rightarrow> boot \<Rightarrow> boot \<Rightarrow> bool" for cfg where
  Signal: "runApplication cfg s (s\<lparr> bt_signal := True \<rparr>)"
| RedisReady: "bt_redis s = BgRunning \<Longrightarrow> runApplication cfg s (s\<lparr> bt_redis := BgReady \<rparr>)"
| RedisFails: "bt_redis s = BgRunning \<Longrightarrow> runApplication cfg s (s\<lparr> bt_redis := BgFailed, bt_errs := Suc (bt_errs s) \<rparr>)"
| Connected: "bt_pc s = BConnect \<Longrightarrow> runApplication cfg s (s\<lparr> bt_pc := BMigrate \<rparr>)"
| ConnectFails: "bt_pc s = BConnect \<Longrightarrow> runApplication cfg s (s\<lparr> bt_pc := BExit \<rparr>)"
| Migrated: "bt_pc s = BMigrate \<Longrightarrow> runApplication cfg s (s\<lparr> bt_pc := BWaitCache \<rparr>)"
| MigrateFails: "bt_pc s = BMigrate \<Longrightarrow> runApplication cfg s (s\<lparr> bt_pc := BExit \<rparr>)"
| CacheReady: "bt_pc s = BWaitCache \<Longrightarrow> bt_redis s = BgReady \<Longrightarrow> runApplication cfg s (s\<lparr> bt_pc := BWaitEvents, bt_events := BgRunning \<rparr>)"
| CacheCancelled: "bt_pc s = BWaitCache \<Longrightarrow> bt_signal s \<Longrightarrow> runApplication cfg s (s\<lparr> bt_pc := BExit \<rparr>)"
| EventsBuilt: "bt_events s = BgRunning \<Longrightarrow> runApplication cfg s (s\<lparr> bt_events := BgReady \<rparr>)"
| EventsReady: "bt_pc s = BWaitEvents \<Longrightarrow> bt_events s = BgReady \<Longrightarrow> runApplication cfg s (s\<lparr> bt_pc := BSetup \<rparr>)"
| EventsCancelled: "bt_pc s = BWaitEvents \<Longrightarrow> bt_signal s \<Longrightarrow> runApplication cfg s (s\<lparr> bt_pc := BExit \<rparr>)"
| SetupFails: "bt_pc s = BSetup \<Longrightarrow> runApplication cfg s (s\<lparr> bt_pc := BExit \<rparr>)"
| Serve: "bt_pc s = BSetup \<Longrightarrow> runApplication cfg s (s\<lparr> bt_pc := BServing, bt_log := bt_log s @ started cfg,
      bt_cron := (if rn_cron cfg then BgRunning else BgIdle) \<rparr>)"
| CronStarted: "bt_cron s = BgRunning \<Longrightarrow> runApplication cfg s (s\<lparr> bt_cron := BgReady \<rparr>)"
| CronFails: "bt_cron s = BgRunning \<Longrightarrow> runApplication cfg s (s\<lparr> bt_cron := BgFailed, bt_errs := Suc (bt_errs s) \<rparr>)"
| Crashes: "bt_pc s = BServing \<Longrightarrow> runApplication cfg s (s\<lparr> bt_crash := True \<rparr>)"
| BackgroundError: "bt_pc s = BServing \<Longrightarrow> 0 < bt_errs s \<Longrightarrow> runApplication cfg s (s\<lparr> bt_pc := BExit, bt_errs := bt_errs s - 1 \<rparr>)"
| Crashed: "bt_pc s = BServing \<Longrightarrow> bt_crash s \<Longrightarrow> runApplication cfg s (s\<lparr> bt_pc := BExit \<rparr>)"
| Stop: "bt_pc s = BServing \<Longrightarrow> bt_signal s \<Longrightarrow> runApplication cfg s (s\<lparr> bt_pc := BStopping (shutdown_acts cfg) \<rparr>)"
| StopNext: "bt_pc s = BStopping (a # as) \<Longrightarrow> runApplication cfg s (s\<lparr> bt_pc := BStopping as, bt_log := bt_log s @ [a] \<rparr>)"
| Stopped: "bt_pc s = BStopping [] \<Longrightarrow> runApplication cfg s (s\<lparr> bt_pc := BStopped \<rparr>)"

inductive_cases runApplicationE: "runApplication cfg s t"

definition boot_inv :: "run_config \<Rightarrow> boot \<Rightarrow> bool" where
  "boot_inv cfg s \<longleftrightarrow>
     (bt_redis s = BgFailed \<longrightarrow> bt_pc s \<in> {BConnect, BMigrate, BWaitCache, BExit})
     \<and> (bt_pc s \<notin> {BConnect, BMigrate, BWaitCache, BExit} \<longrightarrow> bt_redis s = BgReady)
     \<and> (bt_pc s \<notin> {BConnect, BMigrate, BWaitCache, BWaitEvents, BExit} \<longrightarrow> bt_events s = BgReady)
     \<and> (bt_pc s \<in> {BConnect, BMigrate, BWaitCache} \<longrightarrow> bt_events s = BgIdle)
     \<and> (bt_cron s \<noteq> BgIdle \<longrightarrow> bt_pc s \<notin> {BConnect, BMigrate, BWaitCache, BWaitEvents, BSetup})
     \<and> bt_errs s \<le> (if bt_redis s = BgFailed then 1 else 0) + (if bt_cron s = BgFailed then 1 else 0)
     \<and> (case bt_pc s of
          BServing \<Rightarrow> bt_log s = started cfg
        | BStopping as \<Rightarrow> bt_log s @ as = started cfg @ shutdown_acts cfg
        | BStopped \<Rightarrow> bt_log s = started cfg @ shutdown_acts cfg
        | BExit \<Rightarrow> bt_log s = [] \<or> bt_log s = started cfg \<and> bt_redis s = BgReady
        | _ \<Rightarrow> bt_log s = [])"

lemma boot_inv_init: "boot_inv cfg boot_init"
  by (simp add: boot_inv_def boot_init_def)

lemma boot_inv_step: "runApplication cfg s t \<Longrightarrow> boot_inv cfg s \<Longrightarrow> boot_inv cfg t"
  by (erule runApplicationE) (auto simp: boot_inv_def split: boot_pc.splits)

lemma boot_inv_steps: "(runApplication cfg)\<^sup>*\<^sup>* s t \<Longrightarrow> boot_inv cfg s \<Longrightarrow> boot_inv cfg t"
  by (induction rule: rtranclp_induct) (auto intro: boot_inv_step)

text \<open>
  The server listens only after the database is connected and migrated, the cache is there and the events are there; what it has started and
  shut down is at every moment a beginning of one fixed list, all of it once the server has stopped, and \<open>initErrCh\<close> never holds more than
  its three places, so no background goroutine blocks on it.
\<close>

theorem runApplication_order:
  assumes "(runApplication cfg)\<^sup>*\<^sup>* boot_init s"
  shows "(bt_log s \<noteq> [] \<and> bt_pc s \<noteq> BExit \<longrightarrow> bt_redis s = BgReady \<and> bt_events s = BgReady)
    \<and> (\<exists>rest. bt_log s @ rest = started cfg @ shutdown_acts cfg \<and> (bt_pc s = BStopped \<longrightarrow> rest = []))
    \<and> bt_errs s < 3"
proof -
  have inv: "boot_inv cfg s" by (rule boot_inv_steps [OF assms boot_inv_init])
  have "bt_errs s \<le> 2" using inv by (auto simp: boot_inv_def split: if_splits)
  moreover have "\<exists>rest. bt_log s @ rest = started cfg @ shutdown_acts cfg \<and> (bt_pc s = BStopped \<longrightarrow> rest = [])"
    using inv by (cases "bt_pc s") (auto simp: boot_inv_def)
  moreover have "bt_log s \<noteq> [] \<and> bt_pc s \<noteq> BExit \<longrightarrow> bt_redis s = BgReady \<and> bt_events s = BgReady"
    using inv by (cases "bt_pc s") (auto simp: boot_inv_def)
  ultimately show ?thesis by simp
qed

lemma redis_failed_step:
  "runApplication cfg s t \<Longrightarrow> boot_inv cfg s \<Longrightarrow> bt_redis s = BgFailed \<Longrightarrow> bt_redis t = BgFailed"
  by (erule runApplicationE) auto

lemma redis_failed_steps:
  assumes "(runApplication cfg)\<^sup>*\<^sup>* s t" "boot_inv cfg s" "bt_redis s = BgFailed"
  shows "boot_inv cfg t \<and> bt_redis t = BgFailed"
  using assms by (induction rule: rtranclp_induct) (auto intro: boot_inv_step redis_failed_step)

lemma redis_failed_waits:
  assumes "runApplication cfg s t" "boot_inv cfg s" "bt_redis s = BgFailed" "bt_pc s = BWaitCache" "\<not> bt_signal s"
  shows "t = s\<lparr> bt_signal := True \<rparr>"
  using assms by (cases rule: runApplication.cases) (auto simp: boot_inv_def)

lemma redis_failed_log: "boot_inv cfg s \<Longrightarrow> bt_redis s = BgFailed \<Longrightarrow> bt_log s = []"
  by (cases "bt_pc s") (auto simp: boot_inv_def)

lemma bt_signal_steps: "(runApplication cfg)\<^sup>*\<^sup>* s t \<Longrightarrow> bt_signal s \<Longrightarrow> bt_signal t"
  by (induction rule: rtranclp_induct) (auto elim: runApplicationE)

text \<open>
  C38. A failure of Redis is never reported. Once the goroutine of the cache has failed, whatever happens the server starts nothing, and when the database is
  ready the main goroutine waits: the error in \<open>initErrCh\<close> is read only after the start, so nothing happens any more until a signal
  ends the process.
\<close>

theorem runApplication_redis_fails:
  assumes "(runApplication cfg)\<^sup>*\<^sup>* boot_init s" "bt_redis s = BgFailed" "(runApplication cfg)\<^sup>*\<^sup>* s t"
  shows "bt_log t = [] \<and> bt_pc t \<in> {BConnect, BMigrate, BWaitCache, BExit}
    \<and> (bt_pc s = BWaitCache \<and> \<not> bt_signal t \<longrightarrow> t = s)"
proof -
  have inv: "boot_inv cfg s" by (rule boot_inv_steps [OF assms(1) boot_inv_init])
  have f: "boot_inv cfg t" "bt_redis t = BgFailed" using redis_failed_steps [OF assms(3) inv assms(2)] by simp_all
  then have p: "bt_pc t \<in> {BConnect, BMigrate, BWaitCache, BExit}" by (auto simp: boot_inv_def)
  have l: "bt_log t = []" using redis_failed_log [OF f] .
  have "t = s" if "bt_pc s = BWaitCache" "\<not> bt_signal t"
    using assms(3)
  proof (cases rule: converse_rtranclpE)
    case (step u)
    have "\<not> bt_signal s" using bt_signal_steps [OF assms(3)] that(2) by auto
    from redis_failed_waits [OF step(1) inv assms(2) that(1) this] have "bt_signal u" by simp
    from bt_signal_steps [OF step(2) this] that(2) show ?thesis by simp
  qed simp
  with p l show ?thesis by simp
qed

lemmas boot_go = converse_rtranclp_into_rtranclp [of "runApplication cfg" for cfg]

definition run_demo :: run_config where
  "run_demo = \<lparr> rn_shortlinks = True, rn_base_url = ''https://drive'', rn_cron = False, rn_redis = True \<rparr>"

text \<open>A shutdown that has begun can be completed.\<close>

lemma stopping_stops: "bt_pc s = BStopping as \<Longrightarrow> \<exists>t. (runApplication cfg)\<^sup>*\<^sup>* s t \<and> bt_pc t = BStopped"
proof (induction as arbitrary: s)
  case Nil
  from boot_go [OF Stopped [OF Nil]] show ?case by (force intro: rtranclp.rtrancl_refl)
next
  case (Cons a as)
  from boot_go [OF StopNext [OF Cons.prems]] Cons.IH [of "s\<lparr> bt_pc := BStopping as, bt_log := bt_log s @ [a] \<rparr>"] show ?case
    by fastforce
qed

lemma boot_serves:
  "\<exists>s. (runApplication run_demo)\<^sup>*\<^sup>* boot_init s \<and> bt_pc s = BStopping (shutdown_acts run_demo)"
  apply (rule exI, rule conjI)
   apply (rule boot_go [OF RedisReady], simp add: boot_init_def)
   apply (rule boot_go [OF Connected], simp add: boot_init_def)
   apply (rule boot_go [OF Migrated], simp)
   apply (rule boot_go [OF CacheReady], simp, simp)
   apply (rule boot_go [OF EventsBuilt], simp)
   apply (rule boot_go [OF EventsReady], simp, simp)
   apply (rule boot_go [OF Serve], simp)
   apply (rule boot_go [OF Signal])
   apply (rule boot_go [OF Stop], simp, simp)
   apply (rule rtranclp.rtrancl_refl)
  apply simp
  done

theorem runApplication_order_witness:
  "\<exists>s. (runApplication run_demo)\<^sup>*\<^sup>* boot_init s \<and> bt_pc s = BStopped
     \<and> bt_log s = [ListenShort, ListenHttp, CancelBackground, ShutdownEvents, ShutdownHttp, ShutdownShort, CloseRedis]"
proof -
  from boot_serves stopping_stops obtain s where s: "(runApplication run_demo)\<^sup>*\<^sup>* boot_init s" "bt_pc s = BStopped"
    by (meson rtranclp_trans)
  with runApplication_order [OF s(1)] show ?thesis by (auto simp: started_def shutdown_acts_def run_demo_def)
qed

theorem runApplication_redis_fails_witness:
  "\<exists>s. (runApplication run_demo)\<^sup>*\<^sup>* boot_init s \<and> bt_pc s = BWaitCache \<and> bt_redis s = BgFailed
     \<and> {t. (runApplication run_demo)\<^sup>*\<^sup>* s t \<and> \<not> bt_signal t} = {s}"
proof -
  obtain s where s: "(runApplication run_demo)\<^sup>*\<^sup>* boot_init s" "bt_redis s = BgFailed" "bt_pc s = BWaitCache" "\<not> bt_signal s"
    apply (rule that)
       apply (rule boot_go [OF RedisFails], simp add: boot_init_def)
       apply (rule boot_go [OF Connected], simp add: boot_init_def)
       apply (rule boot_go [OF Migrated], simp, rule rtranclp.rtrancl_refl)
      apply (simp_all add: boot_init_def)
    done
  with runApplication_redis_fails [OF s(1,2)] have "{t. (runApplication run_demo)\<^sup>*\<^sup>* s t \<and> \<not> bt_signal t} = {s}" by auto
  with s show ?thesis by blast
qed

section \<open>The pages of the application (internal/middleware)\<close>

text \<open>\<open>fs.ValidPath\<close>, and what \<open>Open\<close> of a file system with these names answers.\<close>

definition ValidPath :: "string \<Rightarrow> bool" where
  "ValidPath name \<longleftrightarrow> name = ''.'' \<or> (\<forall>c \<in> set (Split name CHR ''/''). c \<noteq> '''' \<and> c \<noteq> ''.'' \<and> c \<noteq> ''..'')"

datatype fs_open = FsOpened | FsNotExist | FsInvalid

definition fs_Open :: "string list \<Rightarrow> string \<Rightarrow> fs_open" where
  "fs_Open names name =
     (if \<not> ValidPath name then FsInvalid else if name = ''.'' \<or> name \<in> set names then FsOpened else FsNotExist)"

text \<open>The path handed to the file server and the \<open>Cache-Control\<close> of the answer.\<close>

definition SPAHandler :: "string list \<Rightarrow> string \<Rightarrow> string \<times> string" where
  "SPAHandler names url =
     (let filePath = TrimPrefix (path_Clean url) ''/'';
          (url, filePath) = (if fs_Open names filePath = FsNotExist then (''/'', ''index.html'') else (url, filePath))
      in (url, if filePath = ''index.html'' then ''no-cache, no-store, must-revalidate'' else ''public, max-age=31536000, immutable''))"

text \<open>
  A path that names nothing gets the start page, not to be cached. The start page under its own address is another matter: the empty name is no
  valid one, which is not the error that is looked for, so the page is marked as one that never changes.
\<close>

lemma SPAHandler_unknown:
  assumes "ValidPath (TrimPrefix (path_Clean url) ''/'')" "TrimPrefix (path_Clean url) ''/'' \<notin> insert ''.'' (set names)"
  shows "SPAHandler names url = (''/'', ''no-cache, no-store, must-revalidate'')"
  using assms by (simp add: SPAHandler_def fs_Open_def)

lemma SPAHandler_root: "SPAHandler names ''/'' = (''/'', ''public, max-age=31536000, immutable'')"
proof -
  have "TrimPrefix (path_Clean ''/'') ''/'' = ''''" by code_simp
  moreover have "\<not> ValidPath ''''" by (simp add: ValidPath_def)
  ultimately show ?thesis by (simp add: SPAHandler_def fs_Open_def)
qed

section \<open>The routes\<close>

text \<open>
  The context of a request. The generated server puts the user into it, for its own operations only; the middlewares in front of all routes add the logger and
  wrap the context (internal/appcontext), which hands lookups on.
\<close>

datatype ctx_key = AuthKey | LoggerKey
datatype ctx_val = CtxUser JWTClaims | CtxLogger

type_synonym go_ctx = "ctx_key \<rightharpoonup> ctx_val"

definition ctx_claims :: "go_ctx \<Rightarrow> JWTClaims option" where
  "ctx_claims ctx = (case ctx AuthKey of Some (CtxUser c) \<Rightarrow> Some c | _ \<Rightarrow> None)"

definition InjectLogger :: "go_ctx \<Rightarrow> go_ctx" where
  "InjectLogger ctx = ctx(LoggerKey \<mapsto> CtxLogger)"

record AppContext =
  ac_context :: go_ctx

definition newAppContext :: "go_ctx \<Rightarrow> AppContext" where
  "newAppContext ctx = \<lparr> ac_context = ctx \<rparr>"

definition handler_context :: "go_ctx \<Rightarrow> go_ctx" where
  "handler_context ctx = ac_context (newAppContext (InjectLogger ctx))"

datatype mux_handler = GetThumbnail | PutThumbnail | CreateResolve | ApiServer | ResolvePage | SharePage | SpaPage

text \<open>Methods and patterns; no method is any method.\<close>

definition mux_routes :: "((string \<times> string) \<times> mux_handler) list" where
  "mux_routes =
     [((''GET'', ''/api/settings/thumbnail''), GetThumbnail),
      ((''PUT'', ''/api/settings/thumbnail''), PutThumbnail),
      ((''POST'', ''/api/resolve/token''), CreateResolve),
      (('''', ''/api/''), ApiServer),
      ((''GET'', ''/resolve/{token}''), ResolvePage),
      ((''GET'', ''/share/{token}''), SharePage),
      (('''', ''/*''), SpaPage)]"

record mux_req =
  mq_method :: string
  mq_path :: string
  mq_agent :: string
  mq_thumb :: "thumb_json option"
  mq_fileId :: "string option"

record mux_state =
  mx_svc :: svc
  mx_thumb :: "thumb_json option"
  mx_tokens :: resolve_tokens

datatype mux_answer =
    AnsSpa string string
  | AnsThumbnail "nat \<times> string + ThumbnailSettings"
  | AnsToken "nat \<times> string"
  | AnsResolve resolve_answer
  | AnsRedirect string
  | AnsApi

text \<open>What the router of the application serves. \<open>api\<close> is the server behind \<open>/api/\<close>, \<open>token\<close> the value of the parameter in the path.\<close>

definition mux_serve ::
    "string list \<Rightarrow> (go_ctx \<Rightarrow> mux_req \<Rightarrow> mux_state \<Rightarrow> (mux_answer \<times> mux_state) option) \<Rightarrow> bool \<Rightarrow> int \<Rightarrow> string
     \<Rightarrow> go_ctx \<Rightarrow> mux_handler \<Rightarrow> string \<Rightarrow> mux_req \<Rightarrow> mux_state \<Rightarrow> (mux_answer \<times> mux_state) option" where
  "mux_serve names api saves now uuid ctx h token r s =
     (let spa = (case SPAHandler names (mq_path r) of (p, cc) \<Rightarrow> AnsSpa p cc); userId = GetUser (ctx_claims ctx) in
      case h of
        GetThumbnail \<Rightarrow> Some (AnsThumbnail (Inr (handleGetThumbnailSettings (mx_thumb s))), s)
      | PutThumbnail \<Rightarrow>
          (case handlePutThumbnailSettings userId (mq_thumb r) saves (mx_thumb s) of
             (res, row) \<Rightarrow> Some (AnsThumbnail res, s\<lparr> mx_thumb := row \<rparr>))
      | CreateResolve \<Rightarrow>
          (case handleCreateResolveToken now uuid (mq_fileId r) (mx_tokens s) of
             (res, toks) \<Rightarrow> Some (AnsToken res, s\<lparr> mx_tokens := toks \<rparr>))
      | ApiServer \<Rightarrow> api ctx r s
      | ResolvePage \<Rightarrow>
          if userId = 0 then Some (spa, s)
          else map_option (\<lambda>(res, toks). (AnsResolve res, s\<lparr> mx_tokens := toks \<rparr>))
                 (ResolveHandler now userId token (sv_files (mx_svc s)) (mx_tokens s))
      | SharePage \<Rightarrow>
          Option.bind (ResolveShortlink now token (mq_agent r) (mx_svc s)) (\<lambda>(res, sv).
            let s = s\<lparr> mx_svc := sv \<rparr> in
            case res of
              Inl e \<Rightarrow> Some (spa, s)
            | Inr (action, share) \<Rightarrow>
                if action = ShortlinkNotFound \<or> action = ShortlinkViewer then Some (spa, s)
                else map_option (\<lambda>p. (AnsRedirect p, s)) (ShortlinkRedirectPath token (action, share)))
      | SpaPage \<Rightarrow> Some (spa, s))"

text \<open>\<open>pick\<close> is the router of the library: one of the routes, with the parameter. The context of a new request holds nothing.\<close>

definition setupServer ::
    "(((string \<times> string) \<times> mux_handler) list \<Rightarrow> string \<Rightarrow> string \<Rightarrow> mux_handler \<times> string)
     \<Rightarrow> string list \<Rightarrow> (go_ctx \<Rightarrow> mux_req \<Rightarrow> mux_state \<Rightarrow> (mux_answer \<times> mux_state) option) \<Rightarrow> bool \<Rightarrow> int \<Rightarrow> string
     \<Rightarrow> mux_req \<Rightarrow> mux_state \<Rightarrow> (mux_answer \<times> mux_state) option" where
  "setupServer pick names api saves now uuid r s =
     (case pick mux_routes (mq_method r) (mq_path r) of
        (h, token) \<Rightarrow> mux_serve names api saves now uuid (handler_context Map.empty) h token r s)"

lemma handler_context_anonymous: "GetUser (ctx_claims (handler_context Map.empty)) = 0"
  by (simp add: ctx_claims_def handler_context_def newAppContext_def InjectLogger_def GetUser_def)

lemma SharePage_state:
  assumes "mux_serve names api saves now uuid ctx SharePage token r s = Some (a, s')"
  shows "mx_thumb s' = mx_thumb s \<and> mx_tokens s' = mx_tokens s"
proof -
  from assms obtain res sv where "ResolveShortlink now token (mq_agent r) (mx_svc s) = Some (res, sv)"
    by (auto simp: mux_serve_def Let_def bind_eq_Some_conv)
  with assms show ?thesis by (cases res) (auto simp: mux_serve_def Let_def split: prod.splits if_splits)
qed

text \<open>
  C37. The settings and the resolve tokens are out of reach. Their handlers ask the context for a user, but stand outside of the server that puts one there: whoever
  asks, with whatever credentials, storing settings is refused with 401, the page of a resolve token is the start page of the application, no
  token is ever consumed and the settings never change.
\<close>

theorem setupServer_anonymous:
  assumes "setupServer pick names api saves now uuid r s = Some (a, s')"
    and "pick mux_routes (mq_method r) (mq_path r) = (h, token)" "h \<noteq> ApiServer"
  shows "mx_thumb s' = mx_thumb s
    \<and> (h = PutThumbnail \<longrightarrow> a = AnsThumbnail (Inl (401, ''unauthorized'')) \<and> s' = s)
    \<and> (h = ResolvePage \<longrightarrow> a = (case SPAHandler names (mq_path r) of (p, cc) \<Rightarrow> AnsSpa p cc) \<and> s' = s)
    \<and> (\<forall>k. k \<noteq> uuid \<longrightarrow> map_of (mx_tokens s') k = map_of (mx_tokens s) k)"
proof (cases h)
  case CreateResolve
  with assms show ?thesis
    by (auto simp: setupServer_def mux_serve_def Let_def handleCreateResolveToken_def put_token_def map_of_other_tokens split: option.splits if_splits prod.splits)
next
  case SharePage
  with assms have "mux_serve names api saves now uuid (handler_context Map.empty) SharePage token r s = Some (a, s')"
    by (simp add: setupServer_def)
  from SharePage_state [OF this] SharePage show ?thesis by simp
qed (use assms in \<open>auto simp: setupServer_def mux_serve_def Let_def handler_context_anonymous handlePutThumbnailSettings_def bind_eq_Some_conv
  split: sum.splits prod.splits if_splits\<close>)

theorem setupServer_anonymous_witness:
  "\<forall>sv. setupServer (\<lambda>_ m p. if m = ''GET'' \<and> HasPrefix p ''/resolve/'' then (ResolvePage, TrimPrefix p ''/resolve/'') else (SpaPage, ''''))
     [''index.html''] (\<lambda>_ _ _. None) True 10 ''u''
     \<lparr> mq_method = ''GET'', mq_path = ''/resolve/t'', mq_agent = ''Mozilla'', mq_thumb = None, mq_fileId = None \<rparr>
     \<lparr> mx_svc = sv, mx_thumb = None, mx_tokens = [(''t'', \<lparr> rt_fileID = ''f'', rt_expiresAt = 60 \<rparr>)] \<rparr>
   = Some (AnsSpa ''/'' ''no-cache, no-store, must-revalidate'',
     \<lparr> mx_svc = sv, mx_thumb = None, mx_tokens = [(''t'', \<lparr> rt_fileID = ''f'', rt_expiresAt = 60 \<rparr>)] \<rparr>)"
proof
  fix sv :: svc
  let ?pick = "\<lambda>_ m p. if m = ''GET'' \<and> HasPrefix p ''/resolve/'' then (ResolvePage, TrimPrefix p ''/resolve/'') else (SpaPage, '''')"
  let ?r = "\<lparr> mq_method = ''GET'', mq_path = ''/resolve/t'', mq_agent = ''Mozilla'', mq_thumb = None, mq_fileId = None \<rparr>"
  let ?s = "\<lparr> mx_svc = sv, mx_thumb = None, mx_tokens = [(''t'', \<lparr> rt_fileID = ''f'', rt_expiresAt = 60 \<rparr>)] \<rparr>"
  have spa: "SPAHandler [''index.html''] ''/resolve/t'' = (''/'', ''no-cache, no-store, must-revalidate'')" by code_simp
  have p: "?pick mux_routes (mq_method ?r) (mq_path ?r) = (ResolvePage, ''t'')" by (simp add: HasPrefix_def TrimPrefix_def)
  then obtain a s' where r: "setupServer ?pick [''index.html''] (\<lambda>_ _ _. None) True 10 ''u'' ?r ?s = Some (a, s')"
    by (simp add: setupServer_def mux_serve_def handler_context_anonymous spa)
  from setupServer_anonymous [OF r p] spa have "a = AnsSpa ''/'' ''no-cache, no-store, must-revalidate''" "s' = ?s" by simp_all
  with r show "setupServer ?pick [''index.html''] (\<lambda>_ _ _. None) True 10 ''u'' ?r ?s = Some (AnsSpa ''/'' ''no-cache, no-store, must-revalidate'', ?s)"
    by simp
qed

section \<open>The listener of the short domain (cmd/shortlink_server.go)\<close>

type_synonym http_headers = "string \<rightharpoonup> string"

definition maxAge :: string where
  "maxAge = ''31536000''"

definition cacheHeaders :: "http_headers \<Rightarrow> http_headers" where
  "cacheHeaders h = h(''Cache-Control'' \<mapsto> ''public, max-age='' @ maxAge @ '', s-maxage='' @ maxAge,
     ''CDN-Cache-Control'' \<mapsto> ''public, s-maxage='' @ maxAge,
     ''Cloudflare-CDN-Cache-Control'' \<mapsto> ''public, s-maxage='' @ maxAge,
     ''Surrogate-Control'' \<mapsto> ''max-age='' @ maxAge)"

datatype short_answer = ShortProxied string nat http_headers | ShortRedirect nat string

text \<open>\<open>upstream\<close> is the server of the application on the local host: status and headers of its answer to a path.\<close>

definition short_proxy :: "(string \<Rightarrow> nat \<times> http_headers) \<Rightarrow> string \<Rightarrow> bool \<Rightarrow> short_answer" where
  "short_proxy upstream path cacheable =
     (case upstream path of (status, h) \<Rightarrow> ShortProxied path status (if cacheable then cacheHeaders h else h))"

text \<open>\<open>pick\<close> is the router: the code of a path of one element, if the method is GET, and nothing for all else.\<close>

definition setupShortlinkServer ::
    "(string \<Rightarrow> string \<Rightarrow> string option) \<Rightarrow> (string \<Rightarrow> nat \<times> http_headers) \<Rightarrow> string \<Rightarrow> int
     \<Rightarrow> string \<Rightarrow> string \<Rightarrow> string \<Rightarrow> svc \<Rightarrow> (short_answer \<times> svc) option" where
  "setupShortlinkServer pick upstream baseURL now method path userAgent s =
     map_option (\<lambda>(res, s). (case res of SLProxy p cacheable \<Rightarrow> short_proxy upstream p cacheable | SLRedirect u \<Rightarrow> ShortRedirect 302 u, s))
       (shortlink_resolve baseURL now (case pick method path of Some code \<Rightarrow> code | None \<Rightarrow> '''') userAgent s)"

text \<open>
  The answer for a share without a password that is served as a file is marked as public for a year: when the application answers with an error as well, and
  when the share expires before.
\<close>

lemma setupShortlinkServer_cached:
  assumes "pick method path = Some code" "code \<noteq> ''''"
    and "ResolveShortlink now code userAgent s = Some (Inr (action, Some sh), s')" "action \<in> {ShortlinkDirect, ShortlinkZip}"
    and "sh_password (fs_row sh) = None" "\<And>p. upstream p = (status, h)"
  shows "\<exists>p h'. setupShortlinkServer pick upstream baseURL now method path userAgent s = Some (ShortProxied p status h', s')
    \<and> h' ''Cache-Control'' = Some ''public, max-age=31536000, s-maxage=31536000''"
  using assms
  by (auto simp: setupShortlinkServer_def shortlink_resolve_def short_proxy_def cacheHeaders_def maxAge_def ShortlinkRedirectPath_def Let_def)

text \<open>With a password the headers are those of the application.\<close>

lemma setupShortlinkServer_password:
  assumes "pick method path = Some code" "code \<noteq> ''''"
    and "ResolveShortlink now code userAgent s = Some (Inr (action, Some sh), s')" "action \<in> {ShortlinkDirect, ShortlinkZip}"
    and "sh_password (fs_row sh) \<noteq> None"
  shows "\<exists>p. setupShortlinkServer pick upstream baseURL now method path userAgent s = Some (ShortProxied p (fst (upstream p)) (snd (upstream p)), s')"
  using assms
  by (auto simp: setupShortlinkServer_def shortlink_resolve_def short_proxy_def ShortlinkRedirectPath_def Let_def split: prod.splits)

end
