(* ===== verification/TgClient.thy ===== *)
theory TgClient
  imports Storage ClientPool Retry
begin

text \<open>
  How Telegram clients are made (internal/tgc/tgc.go, internal/recovery, internal/utils/proxy.go) and where bots keep their sessions when that is
  not the database (internal/tgstorage/bolt.go, memory.go). The client itself, flood waiting, rate limiting, the backoff and BoltDB are libraries.
\<close>

section \<open>Middlewares\<close>

record backoff =
  bo_multiplier :: "nat \<times> nat"
  bo_max_elapsed :: int
  bo_max_interval :: int

text \<open>Durations are nanoseconds.\<close>

definition newBackoff :: "int \<Rightarrow> backoff" where
  "newBackoff timeout = \<lparr> bo_multiplier = (11, 10), bo_max_elapsed = timeout, bo_max_interval = 10 * 10 ^ 9 \<rparr>"

record tg_config =
  tc_rate_limit :: bool
  tc_rate :: int
  tc_burst :: int
  tc_reconnect :: int
  tc_proxy :: string
  tc_ntp :: bool

datatype tg_middleware = FloodWait | Recovery backoff | RetryTimes int | RateLimit int int

record middlewareConfig =
  mc_config :: tg_config
  mc_middlewares :: "tg_middleware list"

type_synonym middlewareOption = "middlewareConfig \<Rightarrow> middlewareConfig"

definition append_middleware :: "tg_middleware \<Rightarrow> middlewareOption" where
  "append_middleware m mc = mc\<lparr> mc_middlewares := mc_middlewares mc @ [m] \<rparr>"

definition WithFloodWait :: middlewareOption where
  "WithFloodWait mc = append_middleware FloodWait mc"

definition WithRecovery :: middlewareOption where
  "WithRecovery mc = append_middleware (Recovery (newBackoff (tc_reconnect (mc_config mc)))) mc"

definition WithRetry :: "int \<Rightarrow> middlewareOption" where
  "WithRetry retries mc = append_middleware (RetryTimes retries) mc"

definition WithRateLimit :: middlewareOption where
  "WithRateLimit mc =
     (if tc_rate_limit (mc_config mc)
      then append_middleware (RateLimit (10 ^ 6 * tc_rate (mc_config mc)) (tc_burst (mc_config mc))) mc else mc)"

definition NewMiddleware :: "tg_config \<Rightarrow> middlewareOption list \<Rightarrow> tg_middleware list" where
  "NewMiddleware cfg opts = mc_middlewares (foldl (\<lambda>mc opt. opt mc) \<lparr> mc_config = cfg, mc_middlewares = [] \<rparr> opts)"

text \<open>What the handlers of the service use (pkg/services/api.go).\<close>

definition newMiddlewares :: "tg_config \<Rightarrow> int \<Rightarrow> tg_middleware list" where
  "newMiddlewares cfg retries = NewMiddleware cfg [WithFloodWait, WithRecovery, WithRetry retries, WithRateLimit]"

lemma newMiddlewares_order:
  "newMiddlewares cfg retries = [FloodWait, Recovery (newBackoff (tc_reconnect cfg)), RetryTimes retries]
     @ (if tc_rate_limit cfg then [RateLimit (10 ^ 6 * tc_rate cfg) (tc_burst cfg)] else [])"
  by (simp add: newMiddlewares_def NewMiddleware_def WithFloodWait_def WithRecovery_def WithRetry_def WithRateLimit_def append_middleware_def)

section \<open>Recovery\<close>

text \<open>\<open>tgerr.As\<close>: the chain has an RPC error.\<close>

fun tgerr_As :: "go_err \<Rightarrow> bool" where
  "tgerr_As (RpcError _ _) = True"
| "tgerr_As (WrapErr _ _ e) = tgerr_As e"
| "tgerr_As _ = False"

definition shouldRecover :: "bool \<Rightarrow> go_err \<Rightarrow> bool" where
  "shouldRecover ctx_done err = (if ctx_done then False else \<not> tgerr_As err)"

text \<open>What the operation tells the backoff: done, try again, or give up with this error.\<close>

datatype op_result = OpDone | OpAgain go_err | OpPermanent go_err

definition recovery_op :: "('s \<Rightarrow> nat) \<Rightarrow> ('s \<Rightarrow> bool) \<Rightarrow> ('s \<Rightarrow> go_err option \<times> 's) \<Rightarrow> 's \<Rightarrow> op_result \<times> 's" where
  "recovery_op fresh ctx_done invoke s =
     (case invoke s of
        (None, s) \<Rightarrow> (OpDone, s)
      | (Some err, s) \<Rightarrow>
          (if shouldRecover (ctx_done s) err then OpAgain (WrapErr (fresh s) ''recover'' err) else OpPermanent err, s))"

text \<open>\<open>RetryNotify\<close> is the loop of the backoff library.\<close>

definition recovery_Handle ::
    "(('s \<Rightarrow> op_result \<times> 's) \<Rightarrow> 's \<Rightarrow> go_err option \<times> 's) \<Rightarrow> ('s \<Rightarrow> nat) \<Rightarrow> ('s \<Rightarrow> bool)
     \<Rightarrow> ('s \<Rightarrow> go_err option \<times> 's) \<Rightarrow> 's \<Rightarrow> go_err option \<times> 's" where
  "recovery_Handle RetryNotify fresh ctx_done invoke s = RetryNotify (recovery_op fresh ctx_done invoke) s"

text \<open>An error Telegram answers with is handed on as it is, unless the middleware below replaces it.\<close>

lemma recovery_op_rpc:
  assumes "invoke s = (Some err, s')" "tgerr_As err"
  shows "recovery_op fresh ctx_done invoke s = (OpPermanent err, s')"
  using assms by (simp add: recovery_op_def shouldRecover_def)

lemma retry_limit_reached:
  assumes "\<And>n. invoke n = (Some (RpcError a t), Suc n)" "t \<in> set (retry_errors r)" "int k \<le> retry_max r"
  shows "retry_Handle_loop fresh invoke r k n
    = (Some (Sentinel (fresh (n + (nat (retry_max r) - k))) (''retry limit reached after '' @ show_int (retry_max r) @ '' attempts'')),
       n + (nat (retry_max r) - k))"
  using assms(3)
proof (induction "nat (retry_max r) - k" arbitrary: k n)
  case 0
  then have "\<not> int k < retry_max r" by simp
  with 0 show ?case by (simp add: retry_Handle_loop.simps [of fresh invoke r k] del: show_nat.simps)
next
  case (Suc m)
  then have k: "int k < retry_max r" "m = nat (retry_max r) - Suc k" by simp_all
  have "retry_Handle_loop fresh invoke r k n = retry_Handle_loop fresh invoke r (Suc k) (Suc n)"
    using k(1) assms(1,2) by (simp add: retry_Handle_loop.simps [of fresh invoke r k])
  moreover have "retry_Handle_loop fresh invoke r (Suc k) (Suc n) = (Some (Sentinel (fresh (Suc n + (nat (retry_max r) - Suc k))) (''retry limit reached after '' @ show_int (retry_max r) @ '' attempts'')),
       Suc n + (nat (retry_max r) - Suc k))"
    by (rule Suc.hyps(1) [OF k(2)]) (use k(1) in simp)
  moreover have "n + (nat (retry_max r) - k) = Suc n + (nat (retry_max r) - Suc k)" using k(1) by simp
  ultimately show ?case by (simp only:)
qed

text \<open>
  C29. The limit of retries is none. The retry middleware stands below recovery; when it gives up it answers with an error of its own, without the RPC error in
  its chain, which recovery takes for a lost connection and tries again: after each \<open>retry_max\<close> calls that fail with a retried error the backoff starts
  them anew, as long as it lasts.
\<close>

theorem retry_limit_is_recovered:
  fixes fresh :: "nat \<Rightarrow> nat"
  assumes "\<forall>n. invoke n = (Some (RpcError a t), Suc n)" "t \<in> set (retry_errors r)" "0 \<le> retry_max r"
  defines "op \<equiv> recovery_op fresh (\<lambda>_. False) (retry_Handle fresh invoke r)"
  shows "(\<exists>e. fst (op n) = OpAgain e) \<and> ((\<lambda>n. snd (op n)) ^^ j) n = n + j * nat (retry_max r)"
proof -
  have o: "\<exists>e. op m = (OpAgain e, m + nat (retry_max r))" for m
    using retry_limit_reached [OF assms(1) [rule_format] assms(2), where k = 0 and n = m and fresh = fresh] assms(3)
    by (simp add: op_def recovery_op_def retry_Handle_def shouldRecover_def del: show_nat.simps)
  then have "snd (op m) = m + nat (retry_max r)" for m by (metis snd_conv)
  then have "((\<lambda>n. snd (op n)) ^^ j) n = n + j * nat (retry_max r)" by (induction j) simp_all
  with o show ?thesis by (metis fst_conv)
qed

theorem retry_limit_is_recovered_witness:
  "((\<lambda>n. snd (recovery_op (\<lambda>n. n) (\<lambda>_. False) (retry_Handle (\<lambda>n. n) (\<lambda>n. (Some (RpcError 0 ''Timedout''), Suc n)) (retry_New 5 [])) n)) ^^ 3) 0 = 15"
proof -
  have "''Timedout'' \<in> set (retry_errors (retry_New 5 []))" by (simp add: retry_New_def internalErrors_def)
  from retry_limit_is_recovered [OF _ this, of "\<lambda>n. (Some (RpcError 0 ''Timedout''), Suc n)" 0 "\<lambda>n. n" 0 3] show ?thesis
    by (simp add: retry_New_def)
qed

section \<open>Sessions in BoltDB (internal/tgstorage/bolt.go)\<close>

record bolt_config =
  bc_path :: string
  bc_timeout :: int
  bc_no_grow_sync :: bool

text \<open>
  Where the file lies and how long to wait for its lock, in nanoseconds. \<open>home\<close> is the home directory, \<open>mkdir\<close> says whether a directory can be made,
  \<open>exe\<close> is the directory of the program; both are clean paths.
\<close>

definition bolt_dir :: "string option \<Rightarrow> (string \<Rightarrow> bool) \<Rightarrow> string \<Rightarrow> string" where
  "bolt_dir home mkdir exe =
     (case home of
        None \<Rightarrow> exe
      | Some h \<Rightarrow> let dir = h @ ''/.teldrive'' in if mkdir dir then dir else exe)"

definition bolt_path :: "string option \<Rightarrow> (string \<Rightarrow> bool) \<Rightarrow> string \<Rightarrow> bolt_config \<Rightarrow> string" where
  "bolt_path home mkdir exe cfg = (if bc_path cfg = '''' then bolt_dir home mkdir exe @ ''/session.db'' else bc_path cfg)"

definition bolt_timeout :: "bolt_config \<Rightarrow> int" where
  "bolt_timeout cfg = (if bc_timeout cfg = 0 then 1000 else bc_timeout cfg)"

text \<open>The file: the bucket of the sessions, if it was created.\<close>

type_synonym bolt_db = "(string \<rightharpoonup> string) option"

definition CreateBucket :: "bolt_db \<Rightarrow> bolt_db" where
  "CreateBucket db = (case db of None \<Rightarrow> Some Map.empty | Some b \<Rightarrow> Some b)"

text \<open>\<open>open_db\<close> is \<open>bbolt.Open\<close> with a path and a time-out; \<open>fails\<close> is the error of the transaction. The storage is the database and the key.\<close>

definition NewBoltStorage ::
    "(string \<Rightarrow> int \<Rightarrow> string + bolt_db) \<Rightarrow> string option \<Rightarrow> string option \<Rightarrow> (string \<Rightarrow> bool) \<Rightarrow> string \<Rightarrow> bolt_config \<Rightarrow> string
     \<Rightarrow> svc_err + bolt_db \<times> string" where
  "NewBoltStorage open_db fails home mkdir exe cfg key =
     (case open_db (bolt_path home mkdir exe cfg) (bolt_timeout cfg) of
        Inl e \<Rightarrow> Inl (EMsg (''failed to open bolt db: '' @ e))
      | Inr db \<Rightarrow>
          (case fails of
             Some e \<Rightarrow> Inl (EMsg (''failed to create session bucket: '' @ e))
           | None \<Rightarrow> Inr (CreateBucket db, key)))"

text \<open>A missing session is \<open>session.ErrNotFound\<close>.\<close>

definition bolt_LoadSession :: "string \<Rightarrow> bolt_db \<Rightarrow> svc_err + string" where
  "bolt_LoadSession key db =
     (case db of
        None \<Rightarrow> Inl ENotFound
      | Some b \<Rightarrow> (case b key of None \<Rightarrow> Inl ENotFound | Some data \<Rightarrow> Inr data))"

definition bolt_StoreSession :: "string \<Rightarrow> string \<Rightarrow> bolt_db \<Rightarrow> svc_err option \<times> bolt_db" where
  "bolt_StoreSession key data db =
     (case db of
        None \<Rightarrow> (Some (EMsg ''session bucket not found''), db)
      | Some b \<Rightarrow> (None, Some (b(key \<mapsto> data))))"

text \<open>The bucket of the \<open>kv\<close> sessions; without the bucket \<open>Set\<close> panics, which is \<open>None\<close>.\<close>

definition boltKV_Set :: "string \<Rightarrow> string \<Rightarrow> bolt_db \<Rightarrow> bolt_db option" where
  "boltKV_Set k v db = map_option (\<lambda>b. Some (b(k \<mapsto> v))) db"

definition boltKV_Get :: "string \<Rightarrow> bolt_db \<Rightarrow> svc_err + string" where
  "boltKV_Get key db = (case Option.bind db (\<lambda>b. b key) of None \<Rightarrow> Inl ENotFound | Some val \<Rightarrow> Inr val)"

text \<open>What a client relies on: what it stored last is what it loads.\<close>

locale session_storage =
  fixes load_session :: "'s \<Rightarrow> svc_err + string" and store_session :: "string \<Rightarrow> 's \<Rightarrow> 's" and invar :: "'s \<Rightarrow> bool"
  assumes load_store: "invar s \<Longrightarrow> load_session (store_session data s) = Inr data"
    and invar_store: "invar s \<Longrightarrow> invar (store_session data s)"
begin

lemma invar_stores: "invar s \<Longrightarrow> invar (fold store_session ds s)"
  by (induction ds arbitrary: s) (simp_all add: invar_store)

lemma load_stores: "invar s \<Longrightarrow> ds \<noteq> [] \<Longrightarrow> load_session (fold store_session ds s) = Inr (last ds)"
proof (induction ds arbitrary: s)
  case (Cons d ds)
  then show ?case by (cases "ds = []") (simp_all add: load_store invar_store)
qed simp

end

interpretation bolt: session_storage "bolt_LoadSession key" "\<lambda>data db. snd (bolt_StoreSession key data db)" "\<lambda>db. db \<noteq> None" for key
  by unfold_locales (auto simp: bolt_LoadSession_def bolt_StoreSession_def)

text \<open>The table in PostgreSQL without a cache is another; with the cache it is none, see \<open>StoreSession_stale\<close>.\<close>

interpretation pg: session_storage "\<lambda>st. fst (LoadSession key st)" "\<lambda>data. StoreSession key data now" "\<lambda>st. snd st = None" for key now
  by unfold_locales (auto simp: LoadSession_def StoreSession_def kv.lookup_save)

text \<open>
  Sessions in one file do not mix: after any stores of others, a client that stored before still loads its own last session, whatever the file held when
  it was opened.
\<close>

lemma bolt_Store_other: "k \<noteq> key \<Longrightarrow> bolt_LoadSession key (snd (bolt_StoreSession k data db)) = bolt_LoadSession key db"
  by (auto simp: bolt_LoadSession_def bolt_StoreSession_def split: option.splits)

lemma bolt_sessions:
  assumes "NewBoltStorage open_db None home mkdir exe cfg key = Inr (db, k)" "ds \<noteq> []" "\<forall>(k', d) \<in> set others. k' \<noteq> key"
  shows "k = key \<and> bolt_LoadSession key (fold (\<lambda>(k, d) db. snd (bolt_StoreSession k d db)) others
      (fold (\<lambda>d db. snd (bolt_StoreSession key d db)) ds db)) = Inr (last ds)"
proof -
  have "db \<noteq> None" "k = key" using assms(1) by (auto simp: NewBoltStorage_def CreateBucket_def split: sum.splits option.splits)
  moreover have "bolt_LoadSession key (fold (\<lambda>(k, d) db. snd (bolt_StoreSession k d db)) others x) = bolt_LoadSession key x" for x
    using assms(3) by (induction others arbitrary: x) (auto simp: bolt_Store_other)
  ultimately show ?thesis using bolt.load_stores [of db ds key] assms(2) by simp
qed

section \<open>Clients\<close>

text \<open>\<open>Proxy.GetDial\<close>: the parsers of the URL and of its scheme are libraries, as is the test that a dialer heeds contexts.\<close>

definition GetDial :: "(string \<Rightarrow> string + 'u) \<Rightarrow> ('u \<Rightarrow> string + 'd) \<Rightarrow> ('d \<Rightarrow> bool) \<Rightarrow> string \<Rightarrow> svc_err + 'd" where
  "GetDial parse_url from_url is_context url =
     (case parse_url url of
        Inl e \<Rightarrow> Inl (EMsg (''parse proxy url: '' @ e))
      | Inr u \<Rightarrow>
          (case from_url u of
             Inl e \<Rightarrow> Inl (EMsg (''proxy from url: '' @ e))
           | Inr d \<Rightarrow> if is_context d then Inr d else Inl (EMsg ''proxy dialer is not ContextDialer'')))"

text \<open>Where a client keeps its session, and the options that decide how it behaves; durations are nanoseconds, no dialer is the direct one.\<close>

datatype 'data client_storage = InMemory 'data | OfStorage storage_kind string

record ('d, 'data) client_options =
  co_dialer :: "'d option"
  co_backoff :: backoff
  co_storage :: "'data client_storage option"
  co_retry_interval :: int
  co_max_retries :: int
  co_dial_timeout :: int
  co_middlewares :: "tg_middleware list"
  co_ntp :: bool

text \<open>\<open>get_dial\<close> is \<open>GetDial\<close> with its libraries, \<open>ntp\<close> the error of asking for the time.\<close>

definition newClient ::
    "(string \<Rightarrow> svc_err + 'd) \<Rightarrow> string option \<Rightarrow> tg_config \<Rightarrow> 'data client_storage option \<Rightarrow> tg_middleware list
     \<Rightarrow> svc_err + ('d, 'data) client_options" where
  "newClient get_dial ntp cfg storage middlewares =
     (let opts = (\<lambda>dialer. \<lparr> co_dialer = dialer, co_backoff = newBackoff (tc_reconnect cfg), co_storage = storage,
            co_retry_interval = 2 * 10 ^ 9, co_max_retries = 20, co_dial_timeout = 10 * 10 ^ 9,
            co_middlewares = middlewares, co_ntp = tc_ntp cfg \<rparr>)
      in case (if tc_proxy cfg \<noteq> '''' then map_sum id Some (get_dial (tc_proxy cfg)) else Inr None) of
           Inl (EMsg e) \<Rightarrow> Inl (EMsg (''get dialer: '' @ e))
         | Inl e \<Rightarrow> Inl e
         | Inr d \<Rightarrow>
             (case (if tc_ntp cfg then ntp else None) of
                Some e \<Rightarrow> Inl (EMsg (''create clock: '' @ e))
              | None \<Rightarrow> Inr (opts d)))"

definition NoAuthClient ::
    "(string \<Rightarrow> svc_err + 'd) \<Rightarrow> string option \<Rightarrow> tg_config \<Rightarrow> 'data client_storage option \<Rightarrow> svc_err + ('d, 'data) client_options" where
  "NoAuthClient get_dial ntp cfg storage = newClient get_dial ntp cfg storage [FloodWait, RateLimit (100 * 10 ^ 6) 5]"

text \<open>\<open>decode\<close> is \<open>session.TelethonSession\<close>, \<open>save\<close> the loader over the memory of a new client.\<close>

definition AuthClient ::
    "(string \<Rightarrow> svc_err + 'd) \<Rightarrow> string option \<Rightarrow> (string \<Rightarrow> svc_err + 'data) \<Rightarrow> ('data \<Rightarrow> svc_err option) \<Rightarrow> tg_config \<Rightarrow> string
     \<Rightarrow> tg_middleware list \<Rightarrow> svc_err + ('d, 'data) client_options" where
  "AuthClient get_dial ntp decode save cfg sessionStr middlewares =
     (case decode sessionStr of
        Inl e \<Rightarrow> Inl e
      | Inr data \<Rightarrow>
          (case save data of
             Some e \<Rightarrow> Inl e
           | None \<Rightarrow> newClient get_dial ntp cfg (Some (InMemory data)) middlewares))"

text \<open>\<open>open_bolt\<close> is the error \<open>NewBoltStorage\<close> of the key gives, if any.\<close>

definition BotClient ::
    "(string \<Rightarrow> svc_err + 'd) \<Rightarrow> string option \<Rightarrow> (string \<Rightarrow> svc_err option) \<Rightarrow> tg_config \<Rightarrow> string \<Rightarrow> string \<Rightarrow> tg_middleware list
     \<Rightarrow> svc_err + ('d, 'data) client_options" where
  "BotClient get_dial ntp open_bolt cfg storage_type token middlewares =
     (let botID = hd (Split token CHR '':'')
      in case NewSessionStorage storage_type of
           Inl e \<Rightarrow> Inl e
         | Inr kind \<Rightarrow>
             (case (if kind = StorageBolt then open_bolt botID else None) of
                Some e \<Rightarrow> Inl e
              | None \<Rightarrow> newClient get_dial ntp cfg (Some (OfStorage kind botID)) middlewares))"

text \<open>
  A client is made exactly when its session can be read and its proxy dialled; it then has the session of its caller and exactly the middlewares it was
  given.
\<close>

lemma newClient_ok:
  "newClient get_dial ntp cfg storage ms = Inr c
     \<Longrightarrow> co_storage c = storage \<and> co_middlewares c = ms \<and> (co_dialer c = None \<longleftrightarrow> tc_proxy cfg = '''')"
  by (cases "get_dial (tc_proxy cfg)") (auto simp: newClient_def Let_def split: svc_err.splits option.splits if_splits)

lemma AuthClient_session:
  "AuthClient get_dial ntp decode save cfg str ms = Inr c \<Longrightarrow> \<exists>data. decode str = Inr data \<and> co_storage c = Some (InMemory data) \<and> co_middlewares c = ms"
  by (auto simp: AuthClient_def dest: newClient_ok split: sum.splits option.splits)

text \<open>The session of a bot is kept under the number before the colon: two tokens of one bot share it.\<close>

lemma hd_Split: "c \<notin> set a \<Longrightarrow> hd (Split (a @ c # b) c) = a"
  by (induction a) (auto split: list.splits)

lemma BotClient_session:
  assumes "BotClient get_dial ntp open_bolt cfg ty (bot @ '':'' @ secret) ms = Inr c" "CHR '':'' \<notin> set bot"
  shows "\<exists>kind. NewSessionStorage ty = Inr kind \<and> co_storage c = Some (OfStorage kind bot)"
proof -
  have "hd (Split (bot @ '':'' @ secret) CHR '':'') = bot"
    using hd_Split [OF assms(2), of secret] by simp
  with assms(1) show ?thesis by (auto simp: BotClient_def Let_def dest!: newClient_ok split: sum.splits option.splits)
qed

end
