(* ===== verification/Logging.thy ===== *)
theory Logging
  imports TgClient Login "HOL-Library.Sublist"
begin

text \<open>
  What is written to the log: the console lines (internal/logging), the statements of the database (internal/database/logger.go), the requests
  (internal/chizap) and the banner (internal/banner). The JSON file beside the console is a library.
\<close>

section \<open>Levels and fields\<close>

datatype zap_level = DebugLevel | InfoLevel | WarnLevel | ErrorLevel | DPanicLevel | PanicLevel | FatalLevel

fun level_num :: "zap_level \<Rightarrow> int" where
  "level_num DebugLevel = - 1"
| "level_num InfoLevel = 0"
| "level_num WarnLevel = 1"
| "level_num ErrorLevel = 2"
| "level_num DPanicLevel = 3"
| "level_num PanicLevel = 4"
| "level_num FatalLevel = 5"

text \<open>Levels are ordered by their numbers.\<close>

instantiation zap_level :: linorder
begin

definition less_eq_zap_level :: "zap_level \<Rightarrow> zap_level \<Rightarrow> bool" where
  "less_eq_zap_level l m \<longleftrightarrow> level_num l \<le> level_num m"

definition less_zap_level :: "zap_level \<Rightarrow> zap_level \<Rightarrow> bool" where
  "less_zap_level l m \<longleftrightarrow> level_num l < level_num m"

instance
proof
  fix l m :: zap_level
  assume "l \<le> m" "m \<le> l"
  then show "l = m" by (cases l; cases m) (simp_all add: less_eq_zap_level_def)
qed (auto simp: less_eq_zap_level_def less_zap_level_def)

end

text \<open>\<open>strings.ToUpper(level.String())\<close>.\<close>

fun level_text :: "zap_level \<Rightarrow> string" where
  "level_text DebugLevel = ''DEBUG''"
| "level_text InfoLevel = ''INFO''"
| "level_text WarnLevel = ''WARN''"
| "level_text ErrorLevel = ''ERROR''"
| "level_text DPanicLevel = ''DPANIC''"
| "level_text PanicLevel = ''PANIC''"
| "level_text FatalLevel = ''FATAL''"

text \<open>A field by the type zap gives it; \<open>FOther\<close> is what \<open>%v\<close> prints of any other.\<close>

datatype field_val = FString string | FInt int | FError string | FBool bool | FDuration int | FOther string

type_synonym log_field = "string \<times> field_val"

section \<open>Console lines (internal/logging/logger.go)\<close>

record prettyCore =
  pc_level :: zap_level
  pc_fields :: "log_field list"

definition core_Enabled :: "prettyCore \<Rightarrow> zap_level \<Rightarrow> bool" where
  "core_Enabled c l \<longleftrightarrow> l \<ge> pc_level c"

definition core_With :: "log_field list \<Rightarrow> prettyCore \<Rightarrow> prettyCore" where
  "core_With fs c = c\<lparr> pc_fields := pc_fields c @ fs \<rparr>"

definition esc :: "string \<Rightarrow> string" where
  "esc code = CHR 0x1B # CHR ''['' # code @ ''m''"

text \<open>\<open>show_dur\<close> is \<open>Duration.String\<close>.\<close>

fun field_text :: "(int \<Rightarrow> string) \<Rightarrow> field_val \<Rightarrow> string" where
  "field_text show_dur (FString s) = s"
| "field_text show_dur (FInt n) = show_int n"
| "field_text show_dur (FError s) = s"
| "field_text show_dur (FBool b) = (if b then ''true'' else ''false'')"
| "field_text show_dur (FDuration d) = show_dur d"
| "field_text show_dur (FOther s) = s"

text \<open>The icon in UTF-8 and the colour of a level.\<close>

fun level_style :: "zap_level \<Rightarrow> string \<times> string" where
  "level_style DebugLevel = ([CHR 0xF0, CHR 0x9F, CHR 0x90, CHR 0x9B], esc ''35'')"
| "level_style InfoLevel = ([CHR 0xE2, CHR 0x9C, CHR 0x93, CHR '' ''], esc ''32'')"
| "level_style WarnLevel = ([CHR 0xE2, CHR 0x9A, CHR 0xA0, CHR '' ''], esc ''33'')"
| "level_style _ = ([CHR 0xE2, CHR 0x9C, CHR 0x97, CHR '' ''], esc ''31'')"

definition pad_right :: "nat \<Rightarrow> string \<Rightarrow> string" where
  "pad_right n s = s @ replicate (n - length s) CHR '' ''"

text \<open>Whatever is written at one level is written at every higher one.\<close>

lemma core_Enabled_mono: "core_Enabled c l \<Longrightarrow> l \<le> m \<Longrightarrow> core_Enabled c m"
  by (simp add: core_Enabled_def)

text \<open>The component is the string of the last field of that name, which for a field that is no string is empty.\<close>

definition component_of :: "log_field list \<Rightarrow> string" where
  "component_of fs = foldl (\<lambda>c (k, v). if k = ''component'' then (case v of FString s \<Rightarrow> s | _ \<Rightarrow> '''') else c) '''' fs"

definition other_fields :: "(int \<Rightarrow> string) \<Rightarrow> log_field list \<Rightarrow> string list" where
  "other_fields show_dur fs =
     map (\<lambda>(k, v). esc ''90'' @ k @ ''='' @ esc ''0'' @ field_text show_dur v) (filter (\<lambda>(k, _). k \<noteq> ''component'') fs)"

text \<open>\<open>stamp\<close> is the time, formatted; \<open>upper\<close> is \<open>strings.ToUpper\<close>.\<close>

definition core_Write :: "(int \<Rightarrow> string) \<Rightarrow> (string \<Rightarrow> string) \<Rightarrow> prettyCore \<Rightarrow> string \<Rightarrow> zap_level \<Rightarrow> string \<Rightarrow> log_field list \<Rightarrow> string" where
  "core_Write show_dur upper c stamp level msg fs =
     (let allFields = pc_fields c @ fs;
          component = component_of allFields;
          otherFields = other_fields show_dur allFields;
          (icon, color) = level_style level;
          compStr = (if component \<noteq> '''' then esc ''36'' @ ''['' @ upper component @ '']'' @ esc ''0'' @ '' '' else '''');
          line = stamp @ ''  '' @ icon @ '' '' @ color @ pad_right 5 (level_text level) @ esc ''0'' @ ''  '' @ compStr @ msg;
          line = (if otherFields \<noteq> [] then line @ ''  '' @ Join otherFields '' '' else line)
      in line @ [CHR 0x0A])"

text \<open>
  Text from outside goes into the line as it is. A value with a line break, such as the decoded path of a request, ends the line early and begins one of its own: the log
  can be forged.
\<close>

lemma sublist_trans: "sublist u v \<Longrightarrow> sublist v w \<Longrightarrow> sublist u w"
  by (rule sublist_order.order_trans)

lemma Join_part: "w \<in> set ws \<Longrightarrow> sublist w (Join ws sep)"
proof (induction ws sep rule: Join.induct)
  case (3 u v ws sep)
  then show ?case by (auto intro: sublist_trans [OF _ sublist_append_leftI])
qed auto

lemma other_fields_string:
  assumes "(k, FString v) \<in> set fs" "k \<noteq> ''component''"
  shows "\<exists>a. a @ v \<in> set (other_fields show_dur fs)"
proof -
  have "(k, FString v) \<in> set (filter (\<lambda>(k, _). k \<noteq> ''component'') fs)" using assms by simp
  then have "(\<lambda>(k, w). esc ''90'' @ k @ ''='' @ esc ''0'' @ field_text show_dur w) (k, FString v) \<in> set (other_fields show_dur fs)"
    unfolding other_fields_def set_map by (rule imageI)
  then have "(esc ''90'' @ k @ ''='' @ esc ''0'') @ v \<in> set (other_fields show_dur fs)"
    by (simp only: prod.case field_text.simps append_assoc)
  then show ?thesis by (rule exI)
qed

lemma core_Write_fields:
  assumes "other_fields show_dur (pc_fields c @ fs) \<noteq> []"
  shows "\<exists>h. core_Write show_dur upper c stamp level msg fs = (h @ Join (other_fields show_dur (pc_fields c @ fs)) '' '') @ [CHR 0x0A]"
  unfolding core_Write_def Let_def using assms by (cases "level_style level") (simp only: prod.case if_True not_False_eq_True, metis append_assoc)

lemma core_Write_verbatim:
  assumes "(k, FString v) \<in> set (pc_fields c @ fs)" "k \<noteq> ''component''"
  shows "sublist v (butlast (core_Write show_dur upper c stamp level msg fs))"
proof -
  obtain a where m: "a @ v \<in> set (other_fields show_dur (pc_fields c @ fs))" using other_fields_string [OF assms] ..
  then have "other_fields show_dur (pc_fields c @ fs) \<noteq> []" by auto
  from core_Write_fields [OF this] obtain h where
    "core_Write show_dur upper c stamp level msg fs = (h @ Join (other_fields show_dur (pc_fields c @ fs)) '' '') @ [CHR 0x0A]" ..
  then have b: "butlast (core_Write show_dur upper c stamp level msg fs) = h @ Join (other_fields show_dur (pc_fields c @ fs)) '' ''"
    by (simp only: butlast_snoc)
  have "sublist v (Join (other_fields show_dur (pc_fields c @ fs)) '' '')"
    by (rule sublist_trans [OF sublist_append_leftI Join_part [OF m]])
  then have "sublist v (h @ Join (other_fields show_dur (pc_fields c @ fs)) '' '')"
    by (rule sublist_trans) (rule sublist_append_leftI)
  with b show ?thesis by simp
qed

section \<open>Statements of the database (internal/database/logger.go)\<close>

datatype gorm_level = GSilent | GError | GWarn | GInfo

fun gorm_num :: "gorm_level \<Rightarrow> nat" where
  "gorm_num GSilent = 1"
| "gorm_num GError = 2"
| "gorm_num GWarn = 3"
| "gorm_num GInfo = 4"

instantiation gorm_level :: linorder
begin

definition less_eq_gorm_level :: "gorm_level \<Rightarrow> gorm_level \<Rightarrow> bool" where
  "less_eq_gorm_level l m \<longleftrightarrow> gorm_num l \<le> gorm_num m"

definition less_gorm_level :: "gorm_level \<Rightarrow> gorm_level \<Rightarrow> bool" where
  "less_gorm_level l m \<longleftrightarrow> gorm_num l < gorm_num m"

instance
proof
  fix l m :: gorm_level
  assume "l \<le> m" "m \<le> l"
  then show "l = m" by (cases l; cases m) (simp_all add: less_eq_gorm_level_def)
qed (auto simp: less_eq_gorm_level_def less_gorm_level_def)

end

text \<open>Durations are nanoseconds; \<open>db_log_sql\<close> is \<open>None\<close> without a configuration.\<close>

record db_logger =
  db_level :: gorm_level
  db_slow :: int
  db_ignore_not_found :: bool
  db_log_sql :: "bool option"

definition db_NewLogger :: "int \<Rightarrow> bool \<Rightarrow> zap_level \<Rightarrow> bool option \<Rightarrow> db_logger" where
  "db_NewLogger slow ignore level log_sql =
     \<lparr> db_level = (case level of DebugLevel \<Rightarrow> GInfo | InfoLevel \<Rightarrow> GWarn | WarnLevel \<Rightarrow> GWarn | ErrorLevel \<Rightarrow> GError | _ \<Rightarrow> GSilent),
       db_slow = slow, db_ignore_not_found = ignore, db_log_sql = log_sql \<rparr>"

definition db_LogMode :: "gorm_level \<Rightarrow> db_logger \<Rightarrow> db_logger" where
  "db_LogMode level l = l\<lparr> db_level := level \<rparr>"

text \<open>\<open>Info\<close>, \<open>Warn\<close> and \<open>Error\<close>: the entry they write, with its level and message.\<close>

definition db_message :: "gorm_level \<Rightarrow> string \<Rightarrow> db_logger \<Rightarrow> (zap_level \<times> string \<times> log_field list) option" where
  "db_message level msg l =
     (if db_level l \<ge> level then
        (case level of
           GInfo \<Rightarrow> Some (InfoLevel, ''db.info'', [(''message'', FString msg)])
         | GWarn \<Rightarrow> Some (WarnLevel, ''db.warning'', [(''message'', FString msg)])
         | GError \<Rightarrow> Some (ErrorLevel, ''db.error'', [(''message'', FString msg)])
         | GSilent \<Rightarrow> None)
      else None)"

definition db_fields :: "db_logger \<Rightarrow> int \<Rightarrow> string \<Rightarrow> int \<Rightarrow> log_field list" where
  "db_fields l durationMs sql rows =
     [(''duration_ms'', FInt durationMs)]
     @ (if rows \<noteq> - 1 then [(''rows_affected'', FInt rows)] else [])
     @ (if db_log_sql l = Some True then [(''sql'', FString sql)] else [])"

text \<open>\<open>since\<close> is the time the statement took, with the error it ended with.\<close>

definition db_Trace :: "(go_err \<Rightarrow> string) \<Rightarrow> db_logger \<Rightarrow> int \<Rightarrow> string \<Rightarrow> int \<Rightarrow> go_err option \<Rightarrow> (zap_level \<times> string \<times> log_field list) option" where
  "db_Trace show_err l since sql rows err =
     (if db_level l \<le> GSilent then None
      else
        let elapsed = min (max since 0) (3600 * 10 ^ 9);
            durationMs = max (go_div elapsed (10 ^ 6)) 0;
            thresholdMs = max (go_div (db_slow l) (10 ^ 6)) 0;
            excessMs = max (durationMs - thresholdMs) 0;
            fs = db_fields l durationMs sql rows
        in case (if db_level l \<ge> GError then err else None) of
             Some e \<Rightarrow>
               if \<not> errors_Is e 0 \<or> \<not> db_ignore_not_found l
               then Some (ErrorLevel, ''db.query_failed'', fs @ [(''error'', FError (show_err e))])
               else if elapsed > db_slow l \<and> db_slow l \<noteq> 0 \<and> db_level l \<ge> GWarn
               then Some (WarnLevel, ''db.slow_query'', fs @ [(''threshold_ms'', FInt thresholdMs), (''excess_ms'', FInt excessMs)])
               else if db_level l = GInfo then Some (DebugLevel, ''db.query'', fs) else None
           | None \<Rightarrow>
               if elapsed > db_slow l \<and> db_slow l \<noteq> 0 \<and> db_level l \<ge> GWarn
               then Some (WarnLevel, ''db.slow_query'', fs @ [(''threshold_ms'', FInt thresholdMs), (''excess_ms'', FInt excessMs)])
               else if db_level l = GInfo then Some (DebugLevel, ''db.query'', fs) else None)"

text \<open>The text of a statement is logged only when it is asked for; a failed statement always is, unless logging is off or the error is the one to ignore.\<close>

lemma db_Trace_sql: "db_Trace show_err l since sql rows err = Some (lv, m, fs) \<Longrightarrow> ''sql'' \<in> fst ` set fs \<Longrightarrow> db_log_sql l = Some True"
  by (auto simp: db_Trace_def db_fields_def Let_def split: option.splits if_splits)

lemma db_Trace_failed:
  assumes "db_level l \<noteq> GSilent" "\<not> errors_Is e 0 \<or> \<not> db_ignore_not_found l"
  shows "\<exists>fs. db_Trace show_err l since sql rows (Some e) = Some (ErrorLevel, ''db.query_failed'', fs)"
  using assms by (cases "db_level l") (auto simp: db_Trace_def Let_def less_eq_gorm_level_def)

text \<open>At the level of a server in production a statement that is neither wrong nor slow leaves no trace.\<close>

lemma db_Trace_info:
  assumes "0 \<le> since" "since \<le> slow" "slow \<le> 3600 * 10 ^ 9"
  shows "db_Trace show_err (db_NewLogger slow ignore InfoLevel log_sql) since sql rows None = None"
  using assms by (simp add: db_Trace_def db_NewLogger_def less_eq_gorm_level_def)

section \<open>Requests (internal/chizap/chizap.go)\<close>

record HTTPLogging =
  hl_user_agent :: bool
  hl_request_size :: bool
  hl_response_size :: bool

record http_entry =
  he_status :: int
  he_method :: string
  he_path :: string
  he_query :: string
  he_ip :: string
  he_latency :: int
  he_agent :: string
  he_request_size :: int
  he_response_size :: int

definition track :: "string list \<Rightarrow> (string \<Rightarrow> bool) list \<Rightarrow> string \<Rightarrow> bool" where
  "track skipPaths regexps path \<longleftrightarrow> path \<notin> set skipPaths \<and> \<not> (\<exists>m \<in> set regexps. m path)"

text \<open>The entry of a request; \<open>context\<close> is the fields the configuration takes from the context.\<close>

definition ChizapWithConfig ::
    "string list \<Rightarrow> (string \<Rightarrow> bool) list \<Rightarrow> HTTPLogging option \<Rightarrow> zap_level \<Rightarrow> log_field list \<Rightarrow> http_entry \<Rightarrow> (zap_level \<times> log_field list) option" where
  "ChizapWithConfig skipPaths regexps conf default_level ctx_fields r =
     (if track skipPaths regexps (he_path r) then
        let fs = [(''status'', FInt (he_status r)), (''method'', FString (he_method r)), (''path'', FString (he_path r)),
              (''query'', FString (he_query r)), (''ip'', FString (he_ip r)), (''latency'', FDuration (he_latency r))];
            ua = (if length (he_agent r) > 50 then take 50 (he_agent r) @ ''...'' else he_agent r);
            fs = fs @ (case conf of None \<Rightarrow> [] | Some c \<Rightarrow>
                (if hl_user_agent c then [(''user-agent'', FString ua)] else [])
              @ (if hl_request_size c \<and> he_request_size r > 0 then [(''request_size'', FInt (he_request_size r))] else [])
              @ (if hl_response_size c \<and> he_response_size r > 0 then [(''response_size'', FInt (he_response_size r))] else []))
        in Some (if he_status r \<ge> 400 then ErrorLevel else default_level, fs @ ctx_fields)
      else None)"

text \<open>
  The entry carries the path as the client wrote it, so with the console line above a client writes lines of its own into the log, unless the path is one of
  those not logged.
\<close>

lemma request_path_logged:
  assumes "track skipPaths regexps (he_path r)" "pc_fields c = []"
  shows "\<exists>lv fs. ChizapWithConfig skipPaths regexps conf dl [] r = Some (lv, fs)
    \<and> sublist (he_path r) (butlast (core_Write show_dur upper c stamp lv '''' fs))"
proof -
  obtain lv fs where e: "ChizapWithConfig skipPaths regexps conf dl [] r = Some (lv, fs)" "(''path'', FString (he_path r)) \<in> set fs"
    using assms(1) by (simp add: ChizapWithConfig_def Let_def)
  have "sublist (he_path r) (butlast (core_Write show_dur upper c stamp lv '''' fs))"
    by (rule core_Write_verbatim [of "''path''"]) (use e(2) assms(2) in simp_all)
  with e(1) show ?thesis by blast
qed

section \<open>The banner (internal/banner/banner.go)\<close>

definition formatAddr :: "string \<Rightarrow> string" where
  "formatAddr addr = (if HasPrefix addr '':'' then ''localhost'' @ addr else addr)"

end
