(* ===== verification/Tools.thy ===== *)
theory Tools
  imports UnityPackage
begin

text \<open>
  The command that upgrades the program (cmd/upgrade.go) and the scripts of the build that fetch the user interface and the specification
  (scripts/extract.go, scripts/genapi.go). Downloads, processes and the file system's failures are parameters.
\<close>

section \<open>Upgrading (cmd/upgrade.go)\<close>

record scriptExecutor =
  se_windows :: bool
  se_shellCmd :: string
  se_shellArgs :: "string list"

text \<open>The executor of an operating system; there is none for an unknown one.\<close>

definition executor_of :: "string \<Rightarrow> scriptExecutor option" where
  "executor_of os =
     (if os = ''windows'' then
        Some \<lparr> se_windows = True, se_shellCmd = ''powershell'', se_shellArgs = [''-NoProfile'', ''-NonInteractive'', ''-Command'', ''-''] \<rparr>
      else if os = ''darwin'' \<or> os = ''linux'' then Some \<lparr> se_windows = False, se_shellCmd = ''bash'', se_shellArgs = [] \<rparr>
      else None)"

type_synonym file_system = "string \<rightharpoonup> string"

text \<open>A renaming replaces what is there; it fails, with the error given, if \<open>fails\<close> says so or there is no such file.\<close>

definition os_Rename :: "string option \<Rightarrow> string \<Rightarrow> string \<Rightarrow> file_system \<Rightarrow> string option \<times> file_system" where
  "os_Rename fails a b fs =
     (case fails of
        Some e \<Rightarrow> (Some e, fs)
      | None \<Rightarrow>
          (case fs a of
             None \<Rightarrow> (Some ''no such file'', fs)
           | Some c \<Rightarrow> (None, fs(a := None, b \<mapsto> c))))"

text \<open>
  What happens outside: the path of the program, the failure of a renaming, the download as status and body or the error of the request or of reading, the failures
  of making the pipe and of starting the shell, and the run of the script, which works on the files.
\<close>

record upgrade_world =
  uw_exe :: "string + string"
  uw_rename :: "string option"
  uw_get :: "string \<Rightarrow> string + nat \<times> (string + string)"
  uw_pipe :: "string option"
  uw_start :: "string option"
  uw_run :: "string \<Rightarrow> file_system \<Rightarrow> string option \<times> file_system"

definition script_url :: "scriptExecutor \<Rightarrow> string" where
  "script_url e = ''https://instl.vercel.app/BenjiThatFoxGuy/bdrive?type=script&move=0''
     @ (if se_windows e then ''&platform=windows'' else '''')"

text \<open>From the download on; \<open>exe\<close> and \<open>old\<close> are the paths of the program and of what it was renamed to.\<close>

definition run_script :: "scriptExecutor \<Rightarrow> string \<Rightarrow> string \<Rightarrow> upgrade_world \<Rightarrow> file_system \<Rightarrow> string option \<times> file_system" where
  "run_script e exe old w fs =
     (case uw_get w (script_url e) of
        Inl err \<Rightarrow> (Some (''failed to fetch script: '' @ err), fs)
      | Inr (status, Inl err) \<Rightarrow> (Some (''failed to read script: '' @ err), fs)
      | Inr (status, Inr script) \<Rightarrow>
          (case uw_pipe w of
             Some err \<Rightarrow> (Some (''failed to create stdin pipe: '' @ err), fs)
           | None \<Rightarrow>
               (case uw_start w of
                  Some err \<Rightarrow> (Some (''failed to start command: '' @ err), fs)
                | None \<Rightarrow>
                    (case uw_run w script fs of
                       (Some err, fs) \<Rightarrow>
                         (Some (''script execution failed: '' @ err), if se_windows e then snd (os_Rename None old exe fs) else fs)
                     | (None, fs) \<Rightarrow> (None, if se_windows e then fs(old := None) else fs)))))"

definition executeScript :: "scriptExecutor \<Rightarrow> upgrade_world \<Rightarrow> file_system \<Rightarrow> string option \<times> file_system" where
  "executeScript e w fs =
     (case uw_exe w of
        Inl err \<Rightarrow> (Some (''failed to get executable path: '' @ err), fs)
      | Inr exe \<Rightarrow>
          let old = exe @ ''.old'' in
          if se_windows e then
            (case os_Rename (uw_rename w) exe old (fs(old := None)) of
               (Some err, fs) \<Rightarrow> (Some (''failed to rename executable: '' @ err), fs)
             | (None, fs) \<Rightarrow> run_script e exe old w fs)
          else run_script e exe old w fs)"

text \<open>
  When the script fails on Windows the program is put back, provided that the script left the copy alone. When anything fails before the script runs nothing is put
  back: after a failed download there is no program under its name any more.
\<close>

lemma executeScript_restores:
  assumes "se_windows e" "uw_exe w = Inr exe" "uw_rename w = None" "fs exe = Some c"
    and "uw_get w (script_url e) = Inr (status, Inr script)" "uw_pipe w = None" "uw_start w = None"
    and "\<And>fs. fst (uw_run w script fs) = Some err \<and> snd (uw_run w script fs) (exe @ ''.old'') = fs (exe @ ''.old'')"
  shows "fst (executeScript e w fs) = Some (''script execution failed: '' @ err) \<and> snd (executeScript e w fs) exe = Some c"
proof -
  let ?fs = "fs(exe @ ''.old'' := None, exe := None, exe @ ''.old'' \<mapsto> c)"
  obtain fs' where r: "uw_run w script ?fs = (Some err, fs')" "fs' (exe @ ''.old'') = Some c"
    using assms(8) [of ?fs] by (cases "uw_run w script ?fs") auto
  have "os_Rename None exe (exe @ ''.old'') (fs(exe @ ''.old'' := None)) = (None, ?fs)"
    using assms(4) by (simp add: os_Rename_def)
  with assms r show ?thesis by (simp add: executeScript_def run_script_def os_Rename_def Let_def)
qed

lemma executeScript_download_fails:
  assumes "se_windows e" "uw_exe w = Inr exe" "uw_rename w = None" "fs exe = Some c" "uw_get w (script_url e) = Inl err"
  shows "fst (executeScript e w fs) = Some (''failed to fetch script: '' @ err)
    \<and> snd (executeScript e w fs) exe = None \<and> snd (executeScript e w fs) (exe @ ''.old'') = Some c"
  using assms by (simp add: executeScript_def run_script_def os_Rename_def Let_def)

text \<open>The status of the download is not looked at: the body of an error page is run as a script.\<close>

lemma executeScript_runs_any_page:
  assumes "\<not> se_windows e" "uw_exe w = Inr exe" "uw_get w (script_url e) = Inr (404, Inr page)" "uw_pipe w = None" "uw_start w = None"
  shows "snd (executeScript e w fs) = snd (uw_run w page fs)"
  using assms by (auto simp: executeScript_def run_script_def Let_def split: prod.splits option.splits)

section \<open>Unpacking the user interface (scripts/extract.go)\<close>

text \<open>\<open>filepath.Join(dst, name)\<close> and \<open>filepath.Dir\<close> are those of \<open>path\<close> for slashes.\<close>

definition extract_path :: "string \<Rightarrow> string \<Rightarrow> string" where
  "extract_path dst name = path_Clean (dst @ ''/'' @ name)"

text \<open>An entry of the archive: a directory, or a file with its content or the error of reading it; \<open>writable\<close> says whether a file can be made.\<close>

datatype zip_item = ZipDir string | ZipFile string "string + string"

fun extract_items :: "(string \<Rightarrow> bool) \<Rightarrow> string \<Rightarrow> zip_item list \<Rightarrow> file_system \<Rightarrow> string option \<times> file_system" where
  "extract_items writable dst [] fs = (None, fs)"
| "extract_items writable dst (ZipDir name # es) fs = extract_items writable dst es fs"
| "extract_items writable dst (ZipFile name c # es) fs =
     (let p = extract_path dst name in
      if \<not> writable p then (Some ''Error creating file'', fs)
      else case c of
        Inl err \<Rightarrow> (Some (''Error opening zip entry: '' @ err), fs(p \<mapsto> ''''))
      | Inr content \<Rightarrow> extract_items writable dst es (fs(p \<mapsto> content)))"

text \<open>The last file of a name wins; every entry ends up under the path its name says.\<close>

lemma extract_items_ok:
  "extract_items writable dst es fs = (None, fs')
     \<Longrightarrow> fs' = fold (\<lambda>e fs. case e of ZipDir _ \<Rightarrow> fs | ZipFile name c \<Rightarrow> fs(extract_path dst name \<mapsto> projr c)) es fs"
  by (induction writable dst es fs rule: extract_items.induct) (auto simp: Let_def split: if_splits sum.splits)

text \<open>That path may lead out of the directory: names are not checked.\<close>

lemma extract_escapes: "extract_items (\<lambda>_. True) ''ui/dist'' [ZipFile ''../../main.go'' (Inr ''x'')] Map.empty = (None, [''main.go'' \<mapsto> ''x''])"
proof -
  have "extract_path ''ui/dist'' ''../../main.go'' = ''main.go''" by code_simp
  then show ?thesis by simp
qed

section \<open>The branch of the specification (scripts/genapi.go)\<close>

definition specURL :: "string \<Rightarrow> string" where
  "specURL ref = ''https://raw.githubusercontent.com/BenjiThatFoxGuy/bdrive-docs/'' @ ref @ ''/openapi/openapi.json''"

text \<open>\<open>Getenv\<close> gives the empty string for a variable that is not set; \<open>git\<close> is the output of \<open>git rev-parse\<close>, if it runs.\<close>

definition resolveRef :: "(string \<Rightarrow> string) \<Rightarrow> string option \<Rightarrow> string" where
  "resolveRef Getenv git =
     (case find (\<lambda>v. v \<noteq> '''') (map (\<lambda>env. TrimSpace (Getenv env)) [''BDRIVE_DOCS_REF'', ''GITHUB_HEAD_REF'', ''GITHUB_REF_NAME'']) of
        Some v \<Rightarrow> v
      | None \<Rightarrow>
          (case git of
             Some out \<Rightarrow> let b = TrimSpace out in if b \<noteq> '''' \<and> b \<noteq> ''HEAD'' then b else ''main''
           | None \<Rightarrow> ''main''))"

text \<open>\<open>get\<close> is the status of a URL, if it answers.\<close>

definition specExists :: "(string \<Rightarrow> nat option) \<Rightarrow> string \<Rightarrow> bool" where
  "specExists get url \<longleftrightarrow> get url = Some 200"

definition genapi_main :: "(string \<Rightarrow> string) \<Rightarrow> string option \<Rightarrow> (string \<Rightarrow> nat option) \<Rightarrow> string" where
  "genapi_main Getenv git get =
     (let ref = resolveRef Getenv git; url = specURL ref
      in if ref \<noteq> ''main'' \<and> \<not> specExists get url then specURL ''main'' else url)"

text \<open>The specification generated from is that of the branch if it has one, that of the main branch otherwise.\<close>

lemma genapi_main_url:
  "genapi_main Getenv git get =
     (if resolveRef Getenv git = ''main'' \<or> get (specURL (resolveRef Getenv git)) = Some 200 then specURL (resolveRef Getenv git) else specURL ''main'')"
  by (simp add: genapi_main_def specExists_def Let_def)

lemma resolveRef_override: "TrimSpace (Getenv ''BDRIVE_DOCS_REF'') \<noteq> '''' \<Longrightarrow> resolveRef Getenv git = TrimSpace (Getenv ''BDRIVE_DOCS_REF'')"
  by (simp add: resolveRef_def)

end
