(* ===== verification/CheckRun.thy ===== *)
theory CheckRun
  imports Check Sessions
begin

text \<open>
  The whole run of the check command (\<open>runCheckCmd\<close> of cmd/check.go): the user, the session and the channels it works on, and what it adds up. The channels are
  checked concurrently but share no rows; \<open>arrange\<close> is the order in which they end. The context that the first error cancels makes the calls of the others fail, which the
  environment \<open>load\<close>, \<open>del\<close> decides.
\<close>

record check_totals =
  ct_files :: nat
  ct_missing :: nat
  ct_orphans :: nat
  ct_cleanedFiles :: nat
  ct_cleanedOrphans :: nat

definition no_totals :: check_totals where
  "no_totals = \<lparr> ct_files = 0, ct_missing = 0, ct_orphans = 0, ct_cleanedFiles = 0, ct_cleanedOrphans = 0 \<rparr>"

definition add_report :: "bool \<Rightarrow> check_report \<Rightarrow> check_totals \<Rightarrow> check_totals" where
  "add_report dryRun r t =
     \<lparr> ct_files = ct_files t + length (cr_files r), ct_missing = ct_missing t + length (cr_missing r),
       ct_orphans = ct_orphans t + length (cr_orphans r),
       ct_cleanedFiles = (if dryRun then ct_cleanedFiles t else ct_cleanedFiles t + length (cr_missing r)),
       ct_cleanedOrphans = (if dryRun then ct_cleanedOrphans t else ct_cleanedOrphans t + length (cr_orphans r)) \<rparr>"

text \<open>All channels are worked on; the error reported is the first. \<open>None\<close> is a query that does not end.\<close>

fun check_channels ::
    "check_config \<Rightarrow> int \<Rightarrow> (int \<Rightarrow> 's \<Rightarrow> svc_err + channel_msgs \<times> int) \<Rightarrow> (int \<Rightarrow> int list \<Rightarrow> 's \<Rightarrow> svc_err option \<times> 's)
     \<Rightarrow> int list \<Rightarrow> svc_err option \<times> check_totals \<Rightarrow> svc \<times> 's \<Rightarrow> ((svc_err option \<times> check_totals) \<times> svc \<times> 's) option" where
  "check_channels cfg userId load del [] acc st = Some (acc, st)"
| "check_channels cfg userId load del (ch # chs) (err, tot) st =
     Option.bind (check_process cfg userId ch (load ch) (del ch) st) (\<lambda>(res, st).
       check_channels cfg userId load del chs
         (case res of
            Inl e \<Rightarrow> (if err = None then Some e else err, tot)
          | Inr r \<Rightarrow> (err, add_report (cc_dryRun cfg) r tot)) st)"

text \<open>The run ends with an error and status 1, or with the totals shown.\<close>

definition runCheckCmd ::
    "check_config \<Rightarrow> svc_err option \<Rightarrow> (int list \<Rightarrow> int list) \<Rightarrow> string \<Rightarrow> int option
     \<Rightarrow> (string \<Rightarrow> int \<Rightarrow> 's \<Rightarrow> svc_err + channel_msgs \<times> int) \<Rightarrow> (string \<Rightarrow> int \<Rightarrow> int list \<Rightarrow> 's \<Rightarrow> svc_err option \<times> 's) \<Rightarrow> app \<times> 's
     \<Rightarrow> ((svc_err + check_totals) \<times> app \<times> 's) option" where
  "runCheckCmd cfg db_fails arrange userName selection load del st =
     (case st of (a, srv) \<Rightarrow>
        case db_fails of Some e \<Rightarrow> Some (Inl e, a, srv) | None \<Rightarrow>
        case selectUser userName selection (ap_users a) of Inl e \<Rightarrow> Some (Inl e, a, srv) | Inr user \<Rightarrow>
        case newest_session (filter (\<lambda>s. se_user s = us_id user) (ap_sessions a)) of
          None \<Rightarrow> Some (Inl ERecordNotFound, a, srv)
        | Some session \<Rightarrow>
            let channelIds = map ch_id (filter (\<lambda>c. ch_user c = us_id user) (ap_channels a)) in
            if channelIds = [] then Some (Inl (EMsg ''No channels found for user''), a, srv)
            else
              map_option (\<lambda>((err, tot), s, srv). (case err of Some e \<Rightarrow> Inl e | None \<Rightarrow> Inr tot, a\<lparr> ap_svc := s \<rparr>, srv))
                (check_channels cfg (us_id user) (load (se_session session)) (del (se_session session)) (arrange channelIds)
                  (None, no_totals) (ap_svc a, srv)))"

text \<open>A dry run changes nothing in the database and counts nothing as cleaned.\<close>

lemma check_finish_dry:
  "cc_dryRun cfg \<Longrightarrow> check_finish cfg uid ch del files msgs (s, srv) = Some (res, st) \<Longrightarrow> st = (s, srv)"
  by (auto simp: check_finish_def Let_def split: prod.splits)

lemma check_process_dry:
  assumes "cc_dryRun cfg" "check_process cfg uid ch load del (s, srv) = Some (res, st)"
  shows "st = (s, srv)"
proof -
  from assms obtain files where f: "loadFiles cfg uid ch (sv_files s) = Some files"
    by (auto simp: check_process_def Let_def bind_eq_Some_conv)
  show ?thesis
  proof (cases "load srv")
    case (Inl e)
    with assms f show ?thesis by (simp add: check_process_def)
  next
    case (Inr x)
    obtain msgs n where "x = (msgs, n)" by (cases x)
    with assms f Inr check_finish_dry [OF assms(1)] show ?thesis by (simp add: check_process_def split: if_split_asm)
  qed
qed

lemma check_channels_dry:
  assumes "cc_dryRun cfg"
  shows "check_channels cfg uid load del chs acc (s, srv) = Some ((err, tot), st)
    \<Longrightarrow> st = (s, srv) \<and> ct_cleanedFiles tot = ct_cleanedFiles (snd acc) \<and> ct_cleanedOrphans tot = ct_cleanedOrphans (snd acc)"
proof (induction chs arbitrary: acc)
  case Nil
  then show ?case by simp
next
  case (Cons ch chs)
  obtain e t where a: "acc = (e, t)" by (cases acc)
  from Cons.prems obtain res st' where p: "check_process cfg uid ch (load ch) (del ch) (s, srv) = Some (res, st')"
    by (auto simp: a bind_eq_Some_conv)
  from check_process_dry [OF assms p] have "st' = (s, srv)" .
  with Cons.prems Cons.IH p show ?case by (cases res) (fastforce simp: a add_report_def assms)+
qed

lemma runCheckCmd_dry:
  assumes "runCheckCmd cfg db_fails arrange userName selection load del (a, srv) = Some (res, a', srv')" "cc_dryRun cfg"
  shows "a' = a \<and> srv' = srv \<and> (\<forall>t. res = Inr t \<longrightarrow> ct_cleanedFiles t = 0 \<and> ct_cleanedOrphans t = 0)"
  using assms
  by (auto simp: runCheckCmd_def Let_def no_totals_def dest!: check_channels_dry [OF assms(2)]
    split: option.splits sum.splits if_splits)

end
